(* ===== verification/Prelude.thy ===== *)
theory Prelude
  imports Complex_Main "HOL-Library.Word" "HOL-Library.Monad_Syntax"
begin

text \<open>
  Shared vocabulary of the development: Go's 64-bit signed integers with their
  wrap-around, durations and instants, truncating division, the string helpers of
  package \<^verbatim>\<open>strings\<close> the sources call, buffered channels with the non-blocking
  \<^verbatim>\<open>select\<close> idioms used everywhere in the code, and the proof collections the
  component theories extend.
\<close>

named_theorems go_simps \<open>unfolding rules of the Go primitives\<close>
named_theorems chan_simps \<open>effect of the channel operations\<close>
named_theorems inv_intros \<open>preservation of component invariants\<close>

section \<open>Fixed-width integers\<close>

text \<open>
  Go's \<^verbatim>\<open>int\<close> and \<^verbatim>\<open>int64\<close> are 64-bit two's complement on the supported
  platforms. Values are kept as \<^typ>\<open>int\<close>; where an operation of the source may
  leave the range, the model wraps it with \<open>wrap64\<close>.
\<close>

definition int64_min :: int where "int64_min = - (2 ^ 63)"
definition int64_max :: int where "int64_max = 2 ^ 63 - 1"

definition in_int64 :: "int \<Rightarrow> bool" where
  "in_int64 x \<longleftrightarrow> int64_min \<le> x \<and> x \<le> int64_max"

definition wrap64 :: "int \<Rightarrow> int" where
  "wrap64 x = (x + 2 ^ 63) mod 2 ^ 64 - 2 ^ 63"

lemma wrap64_range [simp]: "in_int64 (wrap64 x)"
proof -
  have "0 \<le> (x + 2 ^ 63) mod 2 ^ 64" and "(x + 2 ^ 63) mod 2 ^ 64 < (2::int) ^ 64"
    by (rule pos_mod_sign, simp) (rule pos_mod_bound, simp)
  then show ?thesis
    by (simp add: wrap64_def in_int64_def int64_min_def int64_max_def)
qed

lemma wrap64_id [simp]: "in_int64 x \<Longrightarrow> wrap64 x = x"
  by (simp add: wrap64_def in_int64_def int64_min_def int64_max_def mod_pos_pos_trivial)

lemma wrap64_add: "wrap64 (wrap64 a + b) = wrap64 (a + b)" "wrap64 (b + wrap64 a) = wrap64 (b + a)"
  by (simp_all add: wrap64_def algebra_simps mod_simps)

lemma wrap64_zero [simp]: "wrap64 0 = 0"
  by (simp add: wrap64_def)

text \<open>Go's integer division truncates towards zero.\<close>

definition go_div :: "int \<Rightarrow> int \<Rightarrow> int" where
  "go_div a b = sgn a * sgn b * (\<bar>a\<bar> div \<bar>b\<bar>)"

lemma go_div_nonneg [simp]: "0 \<le> a \<Longrightarrow> 0 < b \<Longrightarrow> go_div a b = a div b"
  by (cases "a = 0") (simp_all add: go_div_def)

section \<open>Time\<close>

text \<open>
  \<^verbatim>\<open>time.Duration\<close> is an \<^verbatim>\<open>int64\<close> count of nanoseconds; an instant
  (\<^verbatim>\<open>time.Time\<close>) is modelled by its nanoseconds on the Unix time line.
\<close>

type_synonym duration = int
type_synonym instant = int

definition Microsecond :: duration where "Microsecond = 1000"
definition Millisecond :: duration where "Millisecond = 1000000"
definition Second :: duration where "Second = 1000000000"

lemmas duration_defs [go_simps] = Microsecond_def Millisecond_def Second_def

text \<open>\<^verbatim>\<open>time.Duration(n) * time.Second\<close>: an \<^verbatim>\<open>int64\<close> product.\<close>

definition seconds :: "int \<Rightarrow> duration" where
  "seconds n = wrap64 (n * Second)"

definition milliseconds :: "int \<Rightarrow> duration" where
  "milliseconds n = wrap64 (n * Millisecond)"

text \<open>The largest number of seconds that fits a duration: \<open>9223372036\<close>, about 292 years.\<close>

definition max_seconds :: int where "max_seconds = 9223372036"

lemma seconds_exact: "0 \<le> n \<Longrightarrow> n \<le> max_seconds \<Longrightarrow> seconds n = n * Second"
  by (simp add: seconds_def max_seconds_def Second_def in_int64_def int64_min_def int64_max_def)

lemma seconds_pos: "0 < n \<Longrightarrow> n \<le> max_seconds \<Longrightarrow> 0 < seconds n"
  by (simp add: seconds_exact Second_def)

text \<open>\<^verbatim>\<open>t.Unix()\<close>: the whole seconds of an instant.\<close>

definition Unix :: "instant \<Rightarrow> int" where
  "Unix t = t div Second"

section \<open>Strings\<close>

text \<open>Go strings are byte sequences; a \<^typ>\<open>char\<close> is one byte.\<close>

text \<open>\<^verbatim>\<open>strings.Split(s, sep)\<close> for a one-byte separator: always at least one part.\<close>

fun split_on :: "char \<Rightarrow> string \<Rightarrow> string list" where
  "split_on c [] = [[]]"
| "split_on c (x # xs) =
     (if x = c then [] # split_on c xs
      else (case split_on c xs of [] \<Rightarrow> [[x]] | p # ps \<Rightarrow> (x # p) # ps))"

lemma split_on_not_Nil [simp]: "split_on c s \<noteq> []"
  by (induction s) (auto split: list.splits)

lemma split_on_no_sep: "c \<notin> set s \<Longrightarrow> split_on c s = [s]"
  by (induction s) auto

lemma split_on_append_sep: "c \<notin> set a \<Longrightarrow> split_on c (a @ c # b) = a # split_on c b"
  by (induction a) auto

text \<open>\<^verbatim>\<open>strings.TrimRight(s, cutset)\<close> for a one-byte cut set.\<close>

definition trim_right :: "char \<Rightarrow> string \<Rightarrow> string" where
  "trim_right c s = rev (dropWhile (\<lambda>x. x = c) (rev s))"

lemma trim_right_last: "s = [] \<or> last s \<noteq> c \<Longrightarrow> trim_right c s = s"
  by (cases s rule: rev_cases) (auto simp: trim_right_def)

lemma trim_right_replicate: "s = [] \<or> last s \<noteq> c \<Longrightarrow> trim_right c (s @ replicate n c) = s"
proof -
  assume "s = [] \<or> last s \<noteq> c"
  moreover have "dropWhile (\<lambda>x. x = c) (replicate n c @ rev s) = dropWhile (\<lambda>x. x = c) (rev s)"
    by (induction n) auto
  ultimately show ?thesis
    using trim_right_last [of s c] by (simp add: trim_right_def)
qed

text \<open>
  \<^verbatim>\<open>strings.TrimSpace\<close> on ASCII white space (tab, line feed, vertical tab, form feed,
  carriage return, space).
\<close>

definition is_space :: "char \<Rightarrow> bool" where
  "is_space c \<longleftrightarrow> (of_char c :: nat) \<in> {9, 10, 11, 12, 13, 32}"

definition trim_space :: "string \<Rightarrow> string" where
  "trim_space s = rev (dropWhile is_space (rev (dropWhile is_space s)))"

lemma dropWhile_all_append: "list_all P xs \<Longrightarrow> dropWhile P (xs @ ys) = dropWhile P ys"
  by (induction xs) auto

lemma trim_space_surround:
  assumes "list_all is_space w1" "list_all is_space w2" "s \<noteq> []" "\<forall>c \<in> set s. \<not> is_space c"
  shows "trim_space (w1 @ s @ w2) = s"
proof -
  have "dropWhile is_space (s @ w2) = s @ w2" using assms(3,4) by (cases s) auto
  moreover have "dropWhile is_space (rev w2 @ rev s) = dropWhile is_space (rev s)"
    using assms(2) by (intro dropWhile_all_append) (simp add: list_all_iff)
  moreover have "dropWhile is_space (rev s) = rev s"
    using assms(3,4) by (cases s rule: rev_cases) auto
  ultimately show ?thesis using assms(1) by (simp add: trim_space_def dropWhile_all_append)
qed

text \<open>ASCII case mapping (\<^verbatim>\<open>strings.ToLower\<close> and \<^verbatim>\<open>ToUpper\<close> on ASCII bytes).\<close>

definition to_lower_char :: "char \<Rightarrow> char" where
  "to_lower_char c = (let n = (of_char c :: nat) in
     if 65 \<le> n \<and> n \<le> 90 then char_of (n + 32) else c)"

definition to_upper_char :: "char \<Rightarrow> char" where
  "to_upper_char c = (let n = (of_char c :: nat) in
     if 97 \<le> n \<and> n \<le> 122 then char_of (n - 32) else c)"

definition to_lower :: "string \<Rightarrow> string" where "to_lower = map to_lower_char"
definition to_upper :: "string \<Rightarrow> string" where "to_upper = map to_upper_char"

lemma to_lower_char_idem [simp]: "to_lower_char (to_lower_char c) = to_lower_char c"
  by (simp add: to_lower_char_def Let_def)

lemma to_lower_idem [simp]: "to_lower (to_lower s) = to_lower s"
  by (simp add: to_lower_def)

section \<open>Buffered channels\<close>

text \<open>
  A Go channel made with a capacity: the queued values, oldest first, whether it has
  been closed, and whether an operation on it panicked (a send on a closed channel, or
  closing it twice). The code uses channels only through the non-blocking idioms below.
\<close>

record 'a chan =
  ch_cap :: nat
  ch_buf :: "'a list"
  ch_closed :: bool
  ch_panic :: bool

definition make_chan :: "nat \<Rightarrow> 'a chan" where
  "make_chan n = \<lparr>ch_cap = n, ch_buf = [], ch_closed = False, ch_panic = False\<rparr>"

text \<open>\<^verbatim>\<open>select { case ch <- x: default: }\<close>\<close>

definition can_send :: "'a chan \<Rightarrow> bool" where
  "can_send c \<longleftrightarrow> length (ch_buf c) < ch_cap c"

definition try_send :: "'a \<Rightarrow> 'a chan \<Rightarrow> 'a chan" where
  "try_send x c =
     (if ch_closed c then c\<lparr>ch_panic := True\<rparr>
      else if can_send c then c\<lparr>ch_buf := ch_buf c @ [x]\<rparr> else c)"

text \<open>\<^verbatim>\<open>select { case <-ch: default: }\<close>: drop the oldest queued value, if any.\<close>

definition drop_one :: "'a chan \<Rightarrow> 'a chan" where
  "drop_one c = c\<lparr>ch_buf := tl (ch_buf c)\<rparr>"

text \<open>\<^verbatim>\<open>close(ch)\<close>\<close>

definition close_chan :: "'a chan \<Rightarrow> 'a chan" where
  "close_chan c = (if ch_closed c then c\<lparr>ch_panic := True\<rparr> else c\<lparr>ch_closed := True\<rparr>)"

lemma make_chan_sel [simp]:
  "ch_cap (make_chan n) = n" "ch_buf (make_chan n) = []"
  "ch_closed (make_chan n) = False" "ch_panic (make_chan n) = False"
  by (simp_all add: make_chan_def)

lemma try_send_sel [simp, chan_simps]:
  "ch_cap (try_send x c) = ch_cap c"
  "ch_closed (try_send x c) = ch_closed c"
  "ch_panic (try_send x c) \<longleftrightarrow> ch_panic c \<or> ch_closed c"
  by (auto simp: try_send_def)

lemma try_send_buf [chan_simps]:
  "ch_buf (try_send x c) =
     (if \<not> ch_closed c \<and> can_send c then ch_buf c @ [x] else ch_buf c)"
  by (auto simp: try_send_def)

lemma drop_one_sel [simp, chan_simps]:
  "ch_cap (drop_one c) = ch_cap c" "ch_closed (drop_one c) = ch_closed c"
  "ch_panic (drop_one c) = ch_panic c" "ch_buf (drop_one c) = tl (ch_buf c)"
  by (simp_all add: drop_one_def)

lemma close_chan_sel [simp, chan_simps]:
  "ch_cap (close_chan c) = ch_cap c" "ch_buf (close_chan c) = ch_buf c"
  "ch_closed (close_chan c)" "ch_panic (close_chan c) \<longleftrightarrow> ch_panic c \<or> ch_closed c"
  by (auto simp: close_chan_def)

text \<open>A channel never holds more than its capacity and has never panicked.\<close>

definition chan_ok :: "'a chan \<Rightarrow> bool" where
  "chan_ok c \<longleftrightarrow> length (ch_buf c) \<le> ch_cap c \<and> \<not> ch_panic c"

lemma chan_ok_make [simp]: "chan_ok (make_chan n)"
  by (simp add: chan_ok_def)

lemma chan_ok_try_send [inv_intros]: "chan_ok c \<Longrightarrow> \<not> ch_closed c \<Longrightarrow> chan_ok (try_send x c)"
  by (auto simp: chan_ok_def try_send_buf can_send_def)

lemma chan_ok_drop_one [inv_intros]: "chan_ok c \<Longrightarrow> chan_ok (drop_one c)"
  by (auto simp: chan_ok_def)

lemma chan_ok_close [inv_intros]: "chan_ok c \<Longrightarrow> \<not> ch_closed c \<Longrightarrow> chan_ok (close_chan c)"
  by (auto simp: chan_ok_def)

section \<open>The drop-oldest discipline\<close>

text \<open>
  Five producers of the pipeline (both capture sources, the encoder's frame queue, the
  audio source and the peer's command channel) must never block on a slow consumer:
  when their channel is full they discard the oldest queued value to make room for the
  new one. The interface they share: \<open>push\<close> puts the value in, keeps the newest values
  in order, and loses at most the oldest one, and only when there was no room.
\<close>

locale drop_oldest =
  fixes push :: "'a \<Rightarrow> 'a chan \<Rightarrow> 'a chan"
  assumes push_room: "\<not> ch_closed c \<Longrightarrow> can_send c \<Longrightarrow> ch_buf (push x c) = ch_buf c @ [x]"
    and push_full: "\<not> ch_closed c \<Longrightarrow> 0 < ch_cap c \<Longrightarrow> length (ch_buf c) = ch_cap c \<Longrightarrow>
          ch_buf (push x c) = tl (ch_buf c) @ [x]"
    and push_cap: "ch_cap (push x c) = ch_cap c"
    and push_closed: "ch_closed (push x c) = ch_closed c"
    and push_panic: "\<not> ch_closed c \<Longrightarrow> ch_panic (push x c) = ch_panic c"
begin

lemma push_ok:
  assumes "chan_ok c" and "\<not> ch_closed c" and "0 < ch_cap c"
  shows "chan_ok (push x c)"
proof (cases "can_send c")
  case True
  with assms show ?thesis
    by (simp add: chan_ok_def push_room push_cap push_panic can_send_def)
next
  case False
  with assms have full: "length (ch_buf c) = ch_cap c"
    by (simp add: chan_ok_def can_send_def)
  with assms show ?thesis
    by (simp add: chan_ok_def push_full push_cap push_panic)
qed

text \<open>The new value is always the newest one in the channel: it is never the one dropped.\<close>

lemma push_newest:
  assumes "chan_ok c" and "\<not> ch_closed c" and "0 < ch_cap c"
  shows "ch_buf (push x c) \<noteq> [] \<and> last (ch_buf (push x c)) = x"
proof (cases "can_send c")
  case True
  with assms show ?thesis by (simp add: push_room)
next
  case False
  with assms have "length (ch_buf c) = ch_cap c"
    by (simp add: chan_ok_def can_send_def)
  with assms show ?thesis by (simp add: push_full)
qed

text \<open>
  What a stalled consumer finds: the queue holds the most recent values, in order,
  as many as fit.
\<close>

lemma push_suffix:
  assumes "chan_ok c" and "\<not> ch_closed c" and "0 < ch_cap c"
  shows "ch_buf (push x c) =
           drop (Suc (length (ch_buf c)) - ch_cap c) (ch_buf c @ [x])"
proof (cases "can_send c")
  case True
  then have "Suc (length (ch_buf c)) - ch_cap c = 0"
    by (simp add: can_send_def)
  with assms True show ?thesis by (simp add: push_room)
next
  case False
  with assms have full: "length (ch_buf c) = ch_cap c"
    by (simp add: chan_ok_def can_send_def)
  then have one: "Suc (length (ch_buf c)) - ch_cap c = 1" by simp
  from full assms(3) have "ch_buf c \<noteq> []" by auto
  with assms full show ?thesis unfolding one
    by (simp add: push_full drop_Suc)
qed

lemma fold_push:
  assumes "chan_ok c" and "\<not> ch_closed c" and "0 < ch_cap c"
  shows "chan_ok (fold push xs c) \<and> \<not> ch_closed (fold push xs c) \<and>
         ch_cap (fold push xs c) = ch_cap c \<and>
         ch_buf (fold push xs c) =
           drop (length (ch_buf c) + length xs - ch_cap c) (ch_buf c @ xs)"
  using assms
proof (induction xs arbitrary: c)
  case Nil
  then have "length (ch_buf c) - ch_cap c = 0" by (simp add: chan_ok_def)
  with Nil show ?case by simp
next
  case (Cons x xs)
  let ?d = "push x c"
  have d: "chan_ok ?d" "\<not> ch_closed ?d" "0 < ch_cap ?d" "ch_cap ?d = ch_cap c"
    using Cons.prems by (simp_all add: push_ok push_closed push_cap)
  have buf: "ch_buf ?d = drop (Suc (length (ch_buf c)) - ch_cap c) (ch_buf c @ [x])"
    using Cons.prems by (rule push_suffix)
  have le: "length (ch_buf c) \<le> ch_cap c" using Cons.prems by (simp add: chan_ok_def)
  have len: "length (ch_buf ?d) = Suc (length (ch_buf c)) - (Suc (length (ch_buf c)) - ch_cap c)"
    by (simp add: buf)
  have "drop (length (ch_buf ?d) + length xs - ch_cap c) (ch_buf ?d @ xs) =
        drop (length (ch_buf c) + length (x # xs) - ch_cap c) (ch_buf c @ x # xs)"
  proof (cases "Suc (length (ch_buf c)) \<le> ch_cap c")
    case True
    then show ?thesis by (simp add: buf)
  next
    case False
    with le have full: "length (ch_buf c) = ch_cap c" by simp
    with Cons.prems(3) obtain b bs where b: "ch_buf c = b # bs" by (cases "ch_buf c") auto
    show ?thesis using full b by (simp add: buf)
  qed
  with Cons.IH [OF d(1,2,3)] d(4) show ?case by simp
qed

end

text \<open>
  The idiom itself, as four of the producers write it: try to send; if the channel is
  full take one value off it and try again. (Between the two attempts a concurrent
  consumer may take more values, which only makes more room.)
\<close>

definition send_drop_oldest :: "'a \<Rightarrow> 'a chan \<Rightarrow> 'a chan" where
  "send_drop_oldest x c =
     (if ch_closed c \<or> can_send c then try_send x c else try_send x (drop_one c))"

interpretation sdo: drop_oldest send_drop_oldest
proof unfold_locales
  fix c :: "'a chan" and x
  assume c: "\<not> ch_closed c" "0 < ch_cap c" "length (ch_buf c) = ch_cap c"
  then show "ch_buf (send_drop_oldest x c) = tl (ch_buf c) @ [x]"
    by (cases "ch_buf c") (auto simp: send_drop_oldest_def try_send_buf can_send_def)
qed (auto simp: send_drop_oldest_def try_send_buf)

end
