(* ===== verification/Core.thy ===== *)
theory Core
  imports Prelude
begin

unbundle bit_operations_syntax

text \<open>
  Package \<^verbatim>\<open>core\<close> (\<^verbatim>\<open>internal/core/types.go\<close>): the values that travel between
  the modules of the host, the button bit mask and its configuration names.
  A \<^verbatim>\<open>float32\<close> or \<^verbatim>\<open>float64\<close> field is modelled by the rational number it denotes
  (see theory \<open>Floats\<close> for the rounding of the operations on it).
\<close>

type_synonym byte = "8 word"

section \<open>Pixel formats and frames\<close>

datatype PixelFormat = PixelFormatUnknown | PixelFormatYUYV | PixelFormatMJPEG | PixelFormatNV12

fun PixelFormat_String :: "PixelFormat \<Rightarrow> string" where
  "PixelFormat_String PixelFormatYUYV = ''YUYV''"
| "PixelFormat_String PixelFormatMJPEG = ''MJPEG''"
| "PixelFormat_String PixelFormatNV12 = ''NV12''"
| "PixelFormat_String PixelFormatUnknown = ''UNKNOWN''"

text \<open>The constants are consecutive integers in the source (\<^verbatim>\<open>iota\<close>); they order the type.\<close>

primrec PixelFormat_iota :: "PixelFormat \<Rightarrow> nat" where
  "PixelFormat_iota PixelFormatUnknown = 0"
| "PixelFormat_iota PixelFormatYUYV = 1"
| "PixelFormat_iota PixelFormatMJPEG = 2"
| "PixelFormat_iota PixelFormatNV12 = 3"

lemma PixelFormat_iota_inject: "PixelFormat_iota a = PixelFormat_iota b \<longleftrightarrow> a = b"
  by (cases a; cases b) simp_all

instantiation PixelFormat :: linorder
begin

definition less_eq_PixelFormat :: "PixelFormat \<Rightarrow> PixelFormat \<Rightarrow> bool" where
  "less_eq_PixelFormat a b \<longleftrightarrow> PixelFormat_iota a \<le> PixelFormat_iota b"

definition less_PixelFormat :: "PixelFormat \<Rightarrow> PixelFormat \<Rightarrow> bool" where
  "less_PixelFormat a b \<longleftrightarrow> PixelFormat_iota a < PixelFormat_iota b"

instance
  by standard
    (auto simp: less_eq_PixelFormat_def less_PixelFormat_def PixelFormat_iota_inject
      dest: order_antisym)

end

instantiation PixelFormat :: enum
begin

definition enum_PixelFormat :: "PixelFormat list" where
  "enum_PixelFormat = [PixelFormatUnknown, PixelFormatYUYV, PixelFormatMJPEG, PixelFormatNV12]"

definition enum_all_PixelFormat :: "(PixelFormat \<Rightarrow> bool) \<Rightarrow> bool" where
  "enum_all_PixelFormat P \<longleftrightarrow> list_all P enum_class.enum"

definition enum_ex_PixelFormat :: "(PixelFormat \<Rightarrow> bool) \<Rightarrow> bool" where
  "enum_ex_PixelFormat P \<longleftrightarrow> list_ex P enum_class.enum"

instance
proof
  show univ: "(UNIV :: PixelFormat set) = set enum_class.enum"
  proof -
    have "x \<in> set enum_class.enum" for x :: PixelFormat
      by (cases x) (simp_all add: enum_PixelFormat_def)
    then show ?thesis by auto
  qed
  show "distinct (enum_class.enum :: PixelFormat list)"
    by (simp add: enum_PixelFormat_def)
  show "enum_class.enum_all P \<longleftrightarrow> Ball UNIV P" for P :: "PixelFormat \<Rightarrow> bool"
    using univ by (auto simp: enum_all_PixelFormat_def list_all_iff)
  show "enum_class.enum_ex P \<longleftrightarrow> Bex UNIV P" for P :: "PixelFormat \<Rightarrow> bool"
    using univ by (auto simp: enum_ex_PixelFormat_def list_ex_iff)
qed

end

record VideoFrame =
  vf_Data :: "byte list"
  vf_PixelFormat :: PixelFormat
  vf_Width :: int
  vf_Height :: int
  vf_Timestamp :: instant

record EncodedPacket =
  ep_Data :: "byte list"
  ep_PTS :: duration
  ep_IsKeyframe :: bool

section \<open>Controller commands\<close>

text \<open>
  One full controller state. \<open>ic_Timestamp = None\<close> is the zero \<^verbatim>\<open>time.Time\<close>.
\<close>

record InputCommand =
  ic_Seq :: "32 word"
  ic_Buttons :: "32 word"
  ic_LX :: rat
  ic_LY :: rat
  ic_RX :: rat
  ic_RY :: rat
  ic_Timestamp :: "instant option"

text \<open>\<^verbatim>\<open>core.InputCommand{}\<close>: every button released, both sticks centred.\<close>

definition neutral_command :: InputCommand where
  "neutral_command = \<lparr>ic_Seq = 0, ic_Buttons = 0, ic_LX = 0, ic_LY = 0, ic_RX = 0, ic_RY = 0,
     ic_Timestamp = None\<rparr>"

definition ButtonA :: "32 word" where "ButtonA = 0x1"
definition ButtonB :: "32 word" where "ButtonB = 0x2"
definition ButtonX :: "32 word" where "ButtonX = 0x4"
definition ButtonY :: "32 word" where "ButtonY = 0x8"
definition ButtonL :: "32 word" where "ButtonL = 0x10"
definition ButtonR :: "32 word" where "ButtonR = 0x20"
definition ButtonZL :: "32 word" where "ButtonZL = 0x40"
definition ButtonZR :: "32 word" where "ButtonZR = 0x80"
definition ButtonPlus :: "32 word" where "ButtonPlus = 0x100"
definition ButtonMinus :: "32 word" where "ButtonMinus = 0x200"
definition ButtonHome :: "32 word" where "ButtonHome = 0x400"
definition ButtonCapture :: "32 word" where "ButtonCapture = 0x800"
definition ButtonLStick :: "32 word" where "ButtonLStick = 0x1000"
definition ButtonRStick :: "32 word" where "ButtonRStick = 0x2000"
definition ButtonDpadUp :: "32 word" where "ButtonDpadUp = 0x4000"
definition ButtonDpadDown :: "32 word" where "ButtonDpadDown = 0x8000"
definition ButtonDpadLeft :: "32 word" where "ButtonDpadLeft = 0x10000"
definition ButtonDpadRight :: "32 word" where "ButtonDpadRight = 0x20000"

lemmas Button_defs = ButtonA_def ButtonB_def ButtonX_def ButtonY_def ButtonL_def ButtonR_def
  ButtonZL_def ButtonZR_def ButtonPlus_def ButtonMinus_def ButtonHome_def ButtonCapture_def
  ButtonLStick_def ButtonRStick_def ButtonDpadUp_def ButtonDpadDown_def ButtonDpadLeft_def
  ButtonDpadRight_def

text \<open>
  \<^verbatim>\<open>ParseButtonName\<close>: the switch over the lower-cased name, as the table of its cases.
\<close>

definition button_names :: "(string \<times> 32 word) list" where
  "button_names =
     [(''a'', ButtonA), (''b'', ButtonB), (''x'', ButtonX), (''y'', ButtonY),
      (''l'', ButtonL), (''r'', ButtonR), (''zl'', ButtonZL), (''zr'', ButtonZR),
      (''plus'', ButtonPlus), (''pause'', ButtonPlus), (''minus'', ButtonMinus),
      (''home'', ButtonHome), (''capture'', ButtonCapture), (''screenshot'', ButtonCapture),
      (''lstick'', ButtonLStick), (''l_stick'', ButtonLStick),
      (''rstick'', ButtonRStick), (''r_stick'', ButtonRStick),
      (''up'', ButtonDpadUp), (''dpad_up'', ButtonDpadUp),
      (''down'', ButtonDpadDown), (''dpad_down'', ButtonDpadDown),
      (''left'', ButtonDpadLeft), (''dpad_left'', ButtonDpadLeft),
      (''right'', ButtonDpadRight), (''dpad_right'', ButtonDpadRight)]"

definition ParseButtonName :: "string \<Rightarrow> 32 word \<times> bool" where
  "ParseButtonName name =
     (case map_of button_names (to_lower name) of
        Some b \<Rightarrow> (b, True)
      | None \<Rightarrow> (0, False))"

lemma ParseButtonName_lower: "ParseButtonName (to_lower name) = ParseButtonName name"
  by (simp add: ParseButtonName_def)

lemma button_names_single_bit:
  "(nm, b) \<in> set button_names \<Longrightarrow> \<exists>i < 18. b = 2 ^ i"
proof -
  assume "(nm, b) \<in> set button_names"
  then have "b \<in> set (map (\<lambda>i. (2 :: 32 word) ^ i) [0..<18])"
    by (auto simp: button_names_def Button_defs upt_conv_Cons)
  then show ?thesis by auto
qed

lemma ParseButtonName_single_bit:
  "ParseButtonName name = (b, True) \<Longrightarrow> \<exists>i < 18. b = 2 ^ i"
  by (auto simp: ParseButtonName_def split: option.splits
      dest!: map_of_SomeD intro!: button_names_single_bit)

lemma ParseButtonName_unknown: "ParseButtonName name = (b, False) \<Longrightarrow> b = 0"
  by (auto simp: ParseButtonName_def split: option.splits)

section \<open>Target status\<close>

datatype TargetStatus = TargetStatusUnknown | TargetStatusConnecting | TargetStatusConnected
  | TargetStatusDisconnected

fun TargetStatus_String :: "TargetStatus \<Rightarrow> string" where
  "TargetStatus_String TargetStatusConnecting = ''connecting''"
| "TargetStatus_String TargetStatusConnected = ''connected''"
| "TargetStatus_String TargetStatusDisconnected = ''disconnected''"
| "TargetStatus_String TargetStatusUnknown = ''unknown''"

end
