(* ===== verification/Base64.thy ===== *)
theory Base64
  imports Prelude
begin

text \<open>
  What the sources use of Go's \<^verbatim>\<open>encoding/base64\<close>: encoding with the standard and the
  URL alphabet, with and without padding, and the (non-strict) decoder, which skips
  carriage returns and line feeds and ignores the unused low bits of the last digit.
  Byte sequences are \<^typ>\<open>string\<close>s. The round trips below are what the public-key
  exchange, the session tokens and the copy-paste signaling rely on.
\<close>

section \<open>Alphabets\<close>

definition std_alphabet :: string where
  "std_alphabet = ''ABCDEFGHIJKLMNOPQRSTUVWXYZabcdefghijklmnopqrstuvwxyz0123456789+/''"

definition url_alphabet :: string where
  "url_alphabet = ''ABCDEFGHIJKLMNOPQRSTUVWXYZabcdefghijklmnopqrstuvwxyz0123456789-_''"

definition enc_digit :: "string \<Rightarrow> nat \<Rightarrow> char" where
  "enc_digit al i = al ! i"

definition dec_digit :: "string \<Rightarrow> char \<Rightarrow> nat option" where
  "dec_digit al c = map_of (zip al [0..<length al]) c"

definition alphabet_ok :: "string \<Rightarrow> bool" where
  "alphabet_ok al \<longleftrightarrow> length al = 64 \<and> distinct al \<and>
     CHR ''='' \<notin> set al \<and> CHR ''.'' \<notin> set al \<and>
     CHR 0x0A \<notin> set al \<and> CHR 0x0D \<notin> set al"

lemma std_alphabet_ok [simp]: "alphabet_ok std_alphabet"
  by (simp add: alphabet_ok_def std_alphabet_def)

lemma url_alphabet_ok [simp]: "alphabet_ok url_alphabet"
  by (simp add: alphabet_ok_def url_alphabet_def)

lemma dec_enc_digit [simp]: "alphabet_ok al \<Longrightarrow> i < 64 \<Longrightarrow> dec_digit al (enc_digit al i) = Some i"
  by (simp add: alphabet_ok_def dec_digit_def enc_digit_def map_of_zip_nth)

lemma enc_digit_in [simp]: "alphabet_ok al \<Longrightarrow> i < 64 \<Longrightarrow> enc_digit al i \<in> set al"
  by (simp add: alphabet_ok_def enc_digit_def)

lemma dec_digit_Some_iff: "alphabet_ok al \<Longrightarrow> (\<exists>i. dec_digit al c = Some i) \<longleftrightarrow> c \<in> set al"
  using map_of_zip_is_Some [of al "[0..<length al]" c]
  by (auto simp: dec_digit_def)

lemma dec_digit_pad [simp]: "alphabet_ok al \<Longrightarrow> dec_digit al (CHR ''='') = None"
  using dec_digit_Some_iff [of al "CHR ''=''"]
  by (auto simp: alphabet_ok_def)

section \<open>Encoder\<close>

fun b64_encode :: "string \<Rightarrow> bool \<Rightarrow> string \<Rightarrow> string" where
  "b64_encode al pad [] = []"
| "b64_encode al pad [a] =
     (let x = of_char a :: nat in
      [enc_digit al (x div 4), enc_digit al (x mod 4 * 16)] @ (if pad then ''=='' else []))"
| "b64_encode al pad [a, b] =
     (let x = of_char a :: nat; y = of_char b :: nat in
      [enc_digit al (x div 4), enc_digit al (x mod 4 * 16 + y div 16), enc_digit al (y mod 16 * 4)]
        @ (if pad then ''='' else []))"
| "b64_encode al pad (a # b # c # r) =
     (let x = of_char a :: nat; y = of_char b :: nat; z = of_char c :: nat in
      [enc_digit al (x div 4), enc_digit al (x mod 4 * 16 + y div 16),
       enc_digit al (y mod 16 * 4 + z div 64), enc_digit al (z mod 64)]
        @ b64_encode al pad r)"

section \<open>Decoder\<close>

fun b64_decode_quanta :: "string \<Rightarrow> bool \<Rightarrow> string \<Rightarrow> string option" where
  "b64_decode_quanta al pad [] = Some []"
| "b64_decode_quanta al pad [a] = None"
| "b64_decode_quanta al pad [a, b] =
     (if pad then None
      else case (dec_digit al a, dec_digit al b) of
             (Some w, Some x) \<Rightarrow> Some [char_of (w * 4 + x div 16)]
           | _ \<Rightarrow> None)"
| "b64_decode_quanta al pad [a, b, c] =
     (if pad then None
      else case (dec_digit al a, dec_digit al b, dec_digit al c) of
             (Some w, Some x, Some y) \<Rightarrow>
               Some [char_of (w * 4 + x div 16), char_of (x mod 16 * 16 + y div 4)]
           | _ \<Rightarrow> None)"
| "b64_decode_quanta al pad (a # b # c # d # r) =
     (case (dec_digit al a, dec_digit al b) of
        (Some w, Some x) \<Rightarrow>
          (case dec_digit al c of
             Some y \<Rightarrow>
               (case dec_digit al d of
                  Some z \<Rightarrow>
                    map_option (\<lambda>t. char_of (w * 4 + x div 16) # char_of (x mod 16 * 16 + y div 4)
                                      # char_of (y mod 4 * 64 + z) # t)
                      (b64_decode_quanta al pad r)
                | None \<Rightarrow>
                    if pad \<and> d = CHR ''='' \<and> r = []
                    then Some [char_of (w * 4 + x div 16), char_of (x mod 16 * 16 + y div 4)]
                    else None)
           | None \<Rightarrow>
               if pad \<and> c = CHR ''='' \<and> d = CHR ''='' \<and> r = []
               then Some [char_of (w * 4 + x div 16)]
               else None)
      | _ \<Rightarrow> None)"

definition is_newline :: "char \<Rightarrow> bool" where
  "is_newline c \<longleftrightarrow> c = CHR 0x0A \<or> c = CHR 0x0D"

definition b64_decode :: "string \<Rightarrow> bool \<Rightarrow> string \<Rightarrow> string option" where
  "b64_decode al pad s = b64_decode_quanta al pad (filter (\<lambda>c. \<not> is_newline c) s)"

abbreviation "StdEncoding_EncodeToString \<equiv> b64_encode std_alphabet True"
abbreviation "RawURLEncoding_EncodeToString \<equiv> b64_encode url_alphabet False"
abbreviation "StdEncoding_DecodeString \<equiv> b64_decode std_alphabet True"
abbreviation "URLEncoding_DecodeString \<equiv> b64_decode url_alphabet True"
abbreviation "RawURLEncoding_DecodeString \<equiv> b64_decode url_alphabet False"
abbreviation "RawStdEncoding_DecodeString \<equiv> b64_decode std_alphabet False"

section \<open>Round trips\<close>

lemma six_bits:
  fixes x y :: nat
  shows "x < 256 \<Longrightarrow> x div 4 < 64" "x mod 4 * 16 < 64"
    "y < 256 \<Longrightarrow> x mod 4 * 16 + y div 16 < 64"
    "x mod 16 * 4 < 64" "y < 256 \<Longrightarrow> x mod 16 * 4 + y div 64 < 64" "x mod 64 < 64"
proof -
  have m: "x mod 4 < 4" "x mod 16 < 16" by simp_all
  then show "x < 256 \<Longrightarrow> x div 4 < 64" "x mod 4 * 16 < 64" "x mod 16 * 4 < 64" "x mod 64 < 64"
    by linarith+
  show "y < 256 \<Longrightarrow> x mod 4 * 16 + y div 16 < 64" "y < 256 \<Longrightarrow> x mod 16 * 4 + y div 64 < 64"
    using m by linarith+
qed

lemma recombine:
  fixes v w x y z :: nat
  shows "y < 256 \<Longrightarrow> x div 4 * 4 + (x mod 4 * 16 + y div 16) div 16 = x"
    "x div 4 * 4 + (x mod 4 * 16) div 16 = x"
    "y < 256 \<Longrightarrow> z < 256 \<Longrightarrow>
       (w * 16 + y div 16) mod 16 * 16 + (y mod 16 * 4 + z div 64) div 4 = y"
    "y < 256 \<Longrightarrow> (w * 16 + y div 16) mod 16 * 16 + (y mod 16 * 4) div 4 = y"
    "z < 256 \<Longrightarrow> (v * 4 + z div 64) mod 4 * 64 + z mod 64 = z"
proof -
  have a: "y < 256 \<Longrightarrow> (x mod 4 * 16 + y div 16) div 16 = x mod 4"
    and b: "y < 256 \<Longrightarrow> (w * 16 + y div 16) mod 16 = y div 16"
    and c: "z < 256 \<Longrightarrow> (y mod 16 * 4 + z div 64) div 4 = y mod 16"
    and d: "z < 256 \<Longrightarrow> (v * 4 + z div 64) mod 4 = z div 64" by simp_all
  show "y < 256 \<Longrightarrow> x div 4 * 4 + (x mod 4 * 16 + y div 16) div 16 = x"
    by (simp only: a) simp
  show "y < 256 \<Longrightarrow> z < 256 \<Longrightarrow>
       (w * 16 + y div 16) mod 16 * 16 + (y mod 16 * 4 + z div 64) div 4 = y"
    by (simp only: b c) simp
  show "y < 256 \<Longrightarrow> (w * 16 + y div 16) mod 16 * 16 + (y mod 16 * 4) div 4 = y"
    by (simp only: b) simp
  show "z < 256 \<Longrightarrow> (v * 4 + z div 64) mod 4 * 64 + z mod 64 = z"
    by (simp only: d) simp
qed simp

lemmas b64_step = b64_encode.simps Let_def append.simps b64_decode_quanta.simps six_bits
  nat_of_char_less_256 recombine option.case prod.case char_of_char

lemma b64_quanta_encode:
  "alphabet_ok al \<Longrightarrow> b64_decode_quanta al pad (b64_encode al pad s) = Some s"
  by (induction al pad s rule: b64_encode.induct)
    (auto simp only: b64_step dec_enc_digit dec_digit_pad option.map simp_thms if_True if_False
      append_Nil2 split: if_splits)

lemma b64_encode_chars:
  "alphabet_ok al \<Longrightarrow> set (b64_encode al pad s) \<subseteq> set al \<union> (if pad then {CHR ''=''} else {})"
  by (induction al pad s rule: b64_encode.induct)
    (auto simp: Let_def six_bits intro: enc_digit_in)

lemma b64_encode_no_newline:
  "alphabet_ok al \<Longrightarrow> filter (\<lambda>c. \<not> is_newline c) (b64_encode al pad s) = b64_encode al pad s"
  using b64_encode_chars [of al pad s]
  by (auto simp: filter_id_conv alphabet_ok_def is_newline_def split: if_splits)

theorem b64_roundtrip: "alphabet_ok al \<Longrightarrow> b64_decode al pad (b64_encode al pad s) = Some s"
  by (simp add: b64_decode_def b64_encode_no_newline b64_quanta_encode)

lemma b64_encode_no_dot: "alphabet_ok al \<Longrightarrow> CHR ''.'' \<notin> set (b64_encode al False s)"
  using b64_encode_chars [of al False s] by (auto simp: alphabet_ok_def)

lemma b64_encode_no_pad: "alphabet_ok al \<Longrightarrow> CHR ''='' \<notin> set (b64_encode al False s)"
  using b64_encode_chars [of al False s] by (auto simp: alphabet_ok_def)

text \<open>The padded form is the unpadded one filled up with \<^verbatim>\<open>=\<close> to a multiple of four.\<close>

definition b64_pad :: "string \<Rightarrow> string" where
  "b64_pad s = (if length s mod 4 = 2 then ''=='' else if length s mod 4 = 3 then ''='' else [])"

lemma b64_encode_pad: "b64_encode al True s = b64_encode al False s @ b64_pad (b64_encode al False s)"
  by (induction al "True" s rule: b64_encode.induct) (auto simp: Let_def b64_pad_def)

lemma b64_pad_replicate: "\<exists>n. b64_pad s = replicate n (CHR ''='')"
proof -
  have "b64_pad s \<in> {replicate 2 (CHR ''=''), replicate 1 (CHR ''=''), replicate 0 (CHR ''='')}"
    by (simp add: b64_pad_def numeral_2_eq_2)
  then show ?thesis by blast
qed

lemma trim_b64_encode:
  assumes "alphabet_ok al"
  shows "trim_right (CHR ''='') (b64_encode al True s) = b64_encode al False s"
proof -
  obtain n where n: "b64_pad (b64_encode al False s) = replicate n (CHR ''='')"
    using b64_pad_replicate by blast
  have "b64_encode al False s = [] \<or> last (b64_encode al False s) \<noteq> CHR ''=''"
    using b64_encode_no_pad [OF assms, of s] last_in_set by metis
  then show ?thesis
    by (simp add: b64_encode_pad n trim_right_replicate)
qed

section \<open>Agreement of the two alphabets\<close>

lemma dec_digit_agree:
  "c \<in> set std_alphabet \<Longrightarrow> dec_digit url_alphabet c \<noteq> None \<Longrightarrow>
   dec_digit std_alphabet c = dec_digit url_alphabet c"
  by (auto simp: std_alphabet_def url_alphabet_def dec_digit_def upt_conv_Cons)

lemma b64_quanta_agree:
  assumes "b64_decode_quanta al pad s = Some t" and "pad = False"
    and "\<forall>c \<in> set s. dec_digit al c \<noteq> None \<longrightarrow> dec_digit al' c = dec_digit al c"
  shows "b64_decode_quanta al' pad s = Some t"
  using assms
  by (induction al pad s arbitrary: t rule: b64_decode_quanta.induct)
    (auto split: option.splits)

text \<open>
  A key printed in the standard alphabet decodes to the same bytes whichever of the
  two alphabets accepts it first.
\<close>

lemma decode_std_either:
  "case RawURLEncoding_DecodeString (b64_encode std_alphabet False s) of
     Some t \<Rightarrow> t = s
   | None \<Rightarrow> RawStdEncoding_DecodeString (b64_encode std_alphabet False s) = Some s"
proof (cases "RawURLEncoding_DecodeString (b64_encode std_alphabet False s)")
  case None
  then show ?thesis by (simp add: b64_roundtrip)
next
  case (Some t)
  let ?e = "b64_encode std_alphabet False s"
  have q: "b64_decode_quanta url_alphabet False ?e = Some t"
    using Some by (simp add: b64_decode_def b64_encode_no_newline)
  have chars: "set ?e \<subseteq> set std_alphabet"
    using b64_encode_chars [OF std_alphabet_ok, of False s] by simp
  have agree: "\<forall>c \<in> set ?e. dec_digit url_alphabet c \<noteq> None \<longrightarrow>
      dec_digit std_alphabet c = dec_digit url_alphabet c"
    using chars dec_digit_agree by blast
  have "b64_decode_quanta std_alphabet False ?e = Some t"
    by (rule b64_quanta_agree [OF q refl agree])
  then have "t = s" by (simp add: b64_quanta_encode)
  with Some show ?thesis by simp
qed

end
