(* ===== verification/Json.thy ===== *)
theory Json
  imports Strconv
begin

text \<open>
  What the sources use of Go's \<^verbatim>\<open>encoding/json\<close>: the compact printer of
  \<^verbatim>\<open>json.Marshal\<close> (with its HTML-safe string escapes), the parser behind
  \<^verbatim>\<open>json.Unmarshal\<close> (the whole input is one value) and \<^verbatim>\<open>Decoder.Decode\<close> (the first
  value of a stream), and the rules by which an object fills the fields of a struct:
  keys match field names without regard to ASCII case, later keys overwrite earlier
  ones, \<^verbatim>\<open>null\<close> leaves a field alone, any other type mismatch is an error.
  Numbers keep their source text. Strings are the bytes of valid UTF-8 text.
\<close>

datatype json = JNull | JBool bool | JNum string | JStr string
  | JArr "json list" | JObj "(string \<times> json) list"

section \<open>Printing\<close>

definition hex_char :: "nat \<Rightarrow> char" where
  "hex_char n = ''0123456789abcdef'' ! n"

definition u00 :: "nat \<Rightarrow> string" where
  "u00 n = [CHR 0x5C, CHR ''u'', CHR ''0'', CHR ''0'', hex_char (n div 16), hex_char (n mod 16)]"

definition escape_char :: "char \<Rightarrow> string" where
  "escape_char c = (let n = (of_char c :: nat) in
     if n = 34 then [CHR 0x5C, CHR 0x22]
     else if n = 92 then [CHR 0x5C, CHR 0x5C]
     else if n = 8 then [CHR 0x5C, CHR ''b'']
     else if n = 12 then [CHR 0x5C, CHR ''f'']
     else if n = 10 then [CHR 0x5C, CHR ''n'']
     else if n = 13 then [CHR 0x5C, CHR ''r'']
     else if n = 9 then [CHR 0x5C, CHR ''t'']
     else if n < 32 \<or> n = 60 \<or> n = 62 \<or> n = 38 then u00 n
     else [c])"

text \<open>Two characters beyond ASCII are escaped too: the line separators U+2028 and U+2029.\<close>

definition line_sep :: "string \<Rightarrow> bool" where
  "line_sep s = (case s of
     a # b # c # r \<Rightarrow> a = CHR 0xE2 \<and> b = CHR 0x80 \<and> (c = CHR 0xA8 \<or> c = CHR 0xA9)
   | _ \<Rightarrow> False)"

fun escape_str :: "string \<Rightarrow> string" where
  "escape_str [] = []"
| "escape_str (c # s) =
     (if line_sep (c # s)
      then [CHR 0x5C, CHR ''u'', CHR ''2'', CHR ''0'', CHR ''2'',
            if s ! 1 = CHR 0xA8 then CHR ''8'' else CHR ''9''] @ escape_str (drop 2 s)
      else escape_char c @ escape_str s)"

declare escape_str.simps(2) [simp del]

definition quote :: "string \<Rightarrow> string" where
  "quote s = CHR 0x22 # escape_str s @ [CHR 0x22]"

text \<open>\<open>join sep parts\<close> puts the separator between the parts (\<^verbatim>\<open>strings.Join\<close>).\<close>

fun join :: "string \<Rightarrow> string list \<Rightarrow> string" where
  "join sep [] = []"
| "join sep [p] = p"
| "join sep (p # q # ps) = p @ sep @ join sep (q # ps)"

fun json_print :: "json \<Rightarrow> string" where
  "json_print JNull = ''null''"
| "json_print (JBool b) = (if b then ''true'' else ''false'')"
| "json_print (JNum l) = l"
| "json_print (JStr s) = quote s"
| "json_print (JArr vs) = CHR ''['' # join '','' (map json_print vs) @ '']''"
| "json_print (JObj ms) =
     CHR ''{'' # join '','' (map (\<lambda>(k, v). quote k @ CHR '':'' # json_print v) ms) @ ''}''"

section \<open>Parsing\<close>

definition is_ws :: "char \<Rightarrow> bool" where
  "is_ws c \<longleftrightarrow> (of_char c :: nat) \<in> {9, 10, 13, 32}"

definition skip_ws :: "string \<Rightarrow> string" where
  "skip_ws = dropWhile is_ws"

definition hex_val :: "char \<Rightarrow> nat option" where
  "hex_val c = (let n = (of_char c :: nat) in
     if 48 \<le> n \<and> n \<le> 57 then Some (n - 48)
     else if 97 \<le> n \<and> n \<le> 102 then Some (n - 87)
     else if 65 \<le> n \<and> n \<le> 70 then Some (n - 55)
     else None)"

definition hex4 :: "char \<Rightarrow> char \<Rightarrow> char \<Rightarrow> char \<Rightarrow> nat option" where
  "hex4 a b c d = (case (hex_val a, hex_val b, hex_val c, hex_val d) of
     (Some w, Some x, Some y, Some z) \<Rightarrow> Some (((w * 16 + x) * 16 + y) * 16 + z)
   | _ \<Rightarrow> None)"

text \<open>UTF-8 encoding of a code point.\<close>

definition utf8 :: "nat \<Rightarrow> string" where
  "utf8 n =
     (if n < 128 then [char_of n]
      else if n < 2048 then [char_of (192 + n div 64), char_of (128 + n mod 64)]
      else if n < 65536 then
        [char_of (224 + n div 4096), char_of (128 + n div 64 mod 64), char_of (128 + n mod 64)]
      else [char_of (240 + n div 262144), char_of (128 + n div 4096 mod 64),
            char_of (128 + n div 64 mod 64), char_of (128 + n mod 64)])"

definition simple_escape :: "char \<Rightarrow> char option" where
  "simple_escape e = map_of
     [(CHR 0x22, CHR 0x22), (CHR 0x5C, CHR 0x5C), (CHR ''/'', CHR ''/''), (CHR ''b'', CHR 0x08),
      (CHR ''f'', CHR 0x0C), (CHR ''n'', CHR 0x0A), (CHR ''r'', CHR 0x0D), (CHR ''t'', CHR 0x09)] e"

definition low_surrogate :: "string \<Rightarrow> nat option" where
  "low_surrogate s = (case s of
     b # u # a # c # d # e # r \<Rightarrow>
       if b = CHR 0x5C \<and> u = CHR ''u'' then
         (case hex4 a c d e of
            Some y \<Rightarrow> if 56320 \<le> y \<and> y < 57344 then Some y else None
          | None \<Rightarrow> None)
       else None
   | _ \<Rightarrow> None)"

definition prepend :: "string \<Rightarrow> (string \<times> string) option \<Rightarrow> (string \<times> string) option" where
  "prepend p r = map_option (\<lambda>(s, rest). (p @ s, rest)) r"

text \<open>The rest of a string literal after its opening quote, with what follows it.\<close>

fun parse_str :: "string \<Rightarrow> (string \<times> string) option" where
  "parse_str [] = None"
| "parse_str (c # s) =
     (if c = CHR 0x22 then Some ([], s)
      else if c = CHR 0x5C then
        (case s of
           [] \<Rightarrow> None
         | e # s1 \<Rightarrow>
             if e = CHR ''u'' then
               (case s1 of
                  h1 # h2 # h3 # h4 # s2 \<Rightarrow>
                    (case hex4 h1 h2 h3 h4 of
                       None \<Rightarrow> None
                     | Some u \<Rightarrow>
                         if 55296 \<le> u \<and> u < 57344 then
                           (case low_surrogate s2 of
                              Some y \<Rightarrow>
                                if u < 56320
                                then prepend (utf8 (65536 + (u - 55296) * 1024 + (y - 56320)))
                                       (parse_str (drop 6 s2))
                                else prepend (utf8 65533) (parse_str s2)
                            | None \<Rightarrow> prepend (utf8 65533) (parse_str s2))
                         else prepend (utf8 u) (parse_str s2))
                | _ \<Rightarrow> None)
             else (case simple_escape e of
                     Some x \<Rightarrow> prepend [x] (parse_str s1)
                   | None \<Rightarrow> None))
      else if (of_char c :: nat) < 32 then None
      else prepend [c] (parse_str s))"

text \<open>A number literal: the longest prefix of the JSON number grammar.\<close>

definition digits_prefix :: "string \<Rightarrow> string \<times> string" where
  "digits_prefix s = (takeWhile is_digit s, dropWhile is_digit s)"

definition parse_exp :: "string \<Rightarrow> (string \<times> string) option" where
  "parse_exp s = (case s of
     c # r \<Rightarrow>
       if c = CHR ''e'' \<or> c = CHR ''E'' then
         (let (sg, r1) = (case r of
                d # r' \<Rightarrow> if d = CHR ''+'' \<or> d = CHR ''-'' then ([d], r') else ([], r)
              | [] \<Rightarrow> ([], []));
              (ds, r2) = digits_prefix r1
          in if ds = [] then None else Some (c # sg @ ds, r2))
       else Some ([], s)
   | [] \<Rightarrow> Some ([], []))"

definition parse_frac :: "string \<Rightarrow> (string \<times> string) option" where
  "parse_frac s = (case s of
     c # r \<Rightarrow>
       if c = CHR ''.'' then
         (let (ds, r1) = digits_prefix r in
          if ds = [] then None else prepend (c # ds) (parse_exp r1))
       else parse_exp s
   | [] \<Rightarrow> Some ([], []))"

definition parse_unsigned :: "string \<Rightarrow> (string \<times> string) option" where
  "parse_unsigned s = (case s of
     c # r \<Rightarrow>
       if c = CHR ''0'' then prepend [c] (parse_frac r)
       else if is_digit c then (let (ds, r1) = digits_prefix s in prepend ds (parse_frac r1))
       else None
   | [] \<Rightarrow> None)"

definition parse_num :: "string \<Rightarrow> (string \<times> string) option" where
  "parse_num s = (case s of
     c # r \<Rightarrow> if c = CHR ''-'' then prepend [c] (parse_unsigned r) else parse_unsigned s
   | [] \<Rightarrow> None)"

definition parse_lit :: "string \<Rightarrow> json \<Rightarrow> string \<Rightarrow> (json \<times> string) option" where
  "parse_lit w v s = (if take (length w) s = w then Some (v, drop (length w) s) else None)"

text \<open>
  Recursive descent. The first argument bounds the recursion; \<open>json_parse_prefix\<close> below
  supplies two units per input byte and one more. Lemma \<open>parse_fuel\<close> shows that more fuel
  than that never changes the result, so the bound is never what stops the parser.
\<close>

fun parse_value :: "nat \<Rightarrow> string \<Rightarrow> (json \<times> string) option"
  and parse_elems :: "nat \<Rightarrow> string \<Rightarrow> (json list \<times> string) option"
  and parse_members :: "nat \<Rightarrow> string \<Rightarrow> ((string \<times> json) list \<times> string) option" where
  "parse_value 0 s = None"
| "parse_value (Suc n) s =
     (case skip_ws s of
        [] \<Rightarrow> None
      | c # r \<Rightarrow>
          if c = CHR 0x22 then map_option (\<lambda>(t, r'). (JStr t, r')) (parse_str r)
          else if c = CHR ''{'' then
            (case skip_ws r of
               d # r' \<Rightarrow> if d = CHR ''}'' then Some (JObj [], r')
                         else map_option (\<lambda>(ms, r''). (JObj ms, r'')) (parse_members n (d # r'))
             | [] \<Rightarrow> None)
          else if c = CHR ''['' then
            (case skip_ws r of
               d # r' \<Rightarrow> if d = CHR '']'' then Some (JArr [], r')
                         else map_option (\<lambda>(vs, r''). (JArr vs, r'')) (parse_elems n (d # r'))
             | [] \<Rightarrow> None)
          else if c = CHR ''t'' then parse_lit ''true'' (JBool True) (c # r)
          else if c = CHR ''f'' then parse_lit ''false'' (JBool False) (c # r)
          else if c = CHR ''n'' then parse_lit ''null'' JNull (c # r)
          else map_option (\<lambda>(l, r'). (JNum l, r')) (parse_num (c # r)))"
| "parse_elems 0 s = None"
| "parse_elems (Suc n) s =
     (case parse_value n s of
        None \<Rightarrow> None
      | Some (v, r) \<Rightarrow>
          (case skip_ws r of
             d # r' \<Rightarrow>
               if d = CHR '']'' then Some ([v], r')
               else if d = CHR '','' then
                 map_option (\<lambda>(vs, r''). (v # vs, r'')) (parse_elems n r')
               else None
           | [] \<Rightarrow> None))"
| "parse_members 0 s = None"
| "parse_members (Suc n) s =
     (case skip_ws s of
        [] \<Rightarrow> None
      | q # r \<Rightarrow>
          if q \<noteq> CHR 0x22 then None
          else (case parse_str r of
                  None \<Rightarrow> None
                | Some (k, r1) \<Rightarrow>
                    (case skip_ws r1 of
                       [] \<Rightarrow> None
                     | e # r2 \<Rightarrow>
                         if e \<noteq> CHR '':'' then None
                         else (case parse_value n r2 of
                                 None \<Rightarrow> None
                               | Some (v, r3) \<Rightarrow>
                                   (case skip_ws r3 of
                                      d # r4 \<Rightarrow>
                                        if d = CHR ''}'' then Some ([(k, v)], r4)
                                        else if d = CHR '','' then
                                          map_option (\<lambda>(ms, r''). ((k, v) # ms, r''))
                                            (parse_members n r4)
                                        else None
                                    | [] \<Rightarrow> None)))))"

text \<open>\<^verbatim>\<open>json.NewDecoder(r).Decode\<close>: the first value of the input; what follows is not read.\<close>

definition json_parse_prefix :: "string \<Rightarrow> json option" where
  "json_parse_prefix s = map_option fst (parse_value (2 * length s + 1) s)"

text \<open>\<^verbatim>\<open>json.Unmarshal\<close>: one value and nothing but white space after it.\<close>

definition json_parse :: "string \<Rightarrow> json option" where
  "json_parse s =
     (case parse_value (2 * length s + 1) s of
        Some (v, r) \<Rightarrow> if skip_ws r = [] then Some v else None
      | None \<Rightarrow> None)"

section \<open>The fuel suffices\<close>

lemma skip_ws_length: "length (skip_ws s) \<le> length s"
  by (simp add: skip_ws_def length_dropWhile_le)

lemma skip_ws_Cons: "skip_ws s = c # r \<Longrightarrow> length r < length s"
  using skip_ws_length [of s] by simp

lemma prepend_Some: "prepend p x = Some (s, r) \<longleftrightarrow> (\<exists>s'. x = Some (s', r) \<and> s = p @ s')"
  by (cases x) (auto simp: prepend_def)

declare parse_str.simps(2) [simp del]

lemma parse_str_step:
  "parse_str (c # s) = Some (t, r) \<Longrightarrow>
   r = s \<or> (\<exists>t' s'. length s' \<le> length s \<and> parse_str s' = Some (t', r))"
  unfolding parse_str.simps(2) [of c s]
  by (auto simp: prepend_Some split: if_splits list.splits option.splits)

lemma parse_str_length: "parse_str s = Some (t, r) \<Longrightarrow> length r < length s"
proof (induction "length s" arbitrary: s t rule: less_induct)
  case less
  then obtain c s1 where s1: "s = c # s1" by (cases s) auto
  with less.prems parse_str_step consider "r = s1"
    | t' s' where "length s' \<le> length s1" "parse_str s' = Some (t', r)" by metis
  then show ?case
  proof cases
    case 2
    with less.hyps [of s' t'] s1 show ?thesis by simp
  qed (simp add: s1)
qed

lemma digits_prefix_length: "digits_prefix s = (ds, r) \<Longrightarrow> length r + length ds = length s"
  using takeWhile_dropWhile_id [of is_digit s]
  by (auto simp: digits_prefix_def simp flip: length_append) (metis add.commute length_append)

lemma parse_exp_length: "parse_exp s = Some (t, r) \<Longrightarrow> length r \<le> length s"
  by (auto simp: parse_exp_def split: list.splits if_splits prod.splits
      dest!: digits_prefix_length)

lemma parse_frac_length: "parse_frac s = Some (t, r) \<Longrightarrow> length r \<le> length s"
  by (fastforce simp: parse_frac_def prepend_Some split: list.splits if_splits prod.splits
      dest!: digits_prefix_length parse_exp_length)

lemma parse_unsigned_length: "parse_unsigned s = Some (t, r) \<Longrightarrow> length r < length s"
proof (cases s)
  case (Cons c s')
  assume a: "parse_unsigned s = Some (t, r)"
  show ?thesis
  proof (cases "c = CHR ''0''")
    case True
    with a Cons show ?thesis by (auto simp: parse_unsigned_def prepend_Some dest!: parse_frac_length)
  next
    case False
    with a Cons have d: "is_digit c" by (auto simp: parse_unsigned_def split: if_splits)
    with a Cons False obtain t' where "parse_frac (dropWhile is_digit s') = Some (t', r)"
      by (auto simp: parse_unsigned_def prepend_Some digits_prefix_def)
    then have "length r \<le> length (dropWhile is_digit s')" by (rule parse_frac_length)
    also have "\<dots> \<le> length s'" by (rule length_dropWhile_le)
    finally show ?thesis using Cons by simp
  qed
qed (simp add: parse_unsigned_def)

lemma parse_num_length: "parse_num s = Some (t, r) \<Longrightarrow> length r < length s"
  by (fastforce simp: parse_num_def prepend_Some split: list.splits if_splits
      dest!: parse_unsigned_length)

lemma parse_lit_length: "w \<noteq> [] \<Longrightarrow> parse_lit w v s = Some (x, r) \<Longrightarrow> length r < length s"
  by (cases s) (auto simp: parse_lit_def split: if_splits)

lemma parse_length:
  "parse_value n s = Some (v, r) \<Longrightarrow> length r < length s"
  "parse_elems n s = Some (vs, r) \<Longrightarrow> length r < length s"
  "parse_members n s = Some (ms, r) \<Longrightarrow> length r < length s"
proof (induction n s and n s and n s arbitrary: v r and vs r and ms r
    rule: parse_value_parse_elems_parse_members.induct)
  case (2 n s)
  obtain c s1 where s1: "skip_ws s = c # s1" using 2 by (cases "skip_ws s") auto
  then have l1: "length s1 < length s" by (rule skip_ws_Cons)
  show ?case
    using "2.prems" "2.IH" s1 l1 skip_ws_length [of s]
    by (auto split: if_splits list.splits dest!: parse_str_length parse_num_length
        parse_lit_length [rotated] skip_ws_Cons; fastforce)
next
  case (4 n s)
  then show ?case
    by (auto split: option.splits list.splits if_splits dest!: skip_ws_Cons) fastforce+
next
  case (6 n s)
  then show ?case
    by (auto split: option.splits list.splits if_splits dest!: skip_ws_Cons parse_str_length)
      fastforce+
qed simp_all

lemma parse_fuel:
  "2 * length s < m \<Longrightarrow> 2 * length s < n \<Longrightarrow> parse_value m s = parse_value n s"
  "2 * length s + 1 < m \<Longrightarrow> 2 * length s + 1 < n \<Longrightarrow> parse_elems m s = parse_elems n s"
  "2 * length s < m \<Longrightarrow> 2 * length s < n \<Longrightarrow> parse_members m s = parse_members n s"
proof (induction m s and m s and m s arbitrary: n and n and n
    rule: parse_value_parse_elems_parse_members.induct)
  case (2 m s)
  from "2.prems" obtain n' where n': "n = Suc n'" by (cases n) simp_all
  have e: "parse_elems m (d # r') = parse_elems n' (d # r')"
    if a: "skip_ws s = CHR ''['' # r" "skip_ws r = d # r'" "d \<noteq> CHR '']''" for r d r'
  proof -
    have "length (d # r') + 1 \<le> length s"
      using skip_ws_Cons [OF a(1)] skip_ws_length [of r] a(2) by simp
    with "2.prems" n' show ?thesis by (intro "2.IH"(2) [OF a(1) _ _ _ a(2)]) (simp_all add: a(3))
  qed
  have f: "parse_members m (d # r') = parse_members n' (d # r')"
    if a: "skip_ws s = CHR ''{'' # r" "skip_ws r = d # r'" "d \<noteq> CHR ''}''" for r d r'
  proof -
    have "length (d # r') + 1 \<le> length s"
      using skip_ws_Cons [OF a(1)] skip_ws_length [of r] a(2) by simp
    with "2.prems" n' show ?thesis by (intro "2.IH"(1) [OF a(1) _ _ a(2)]) (simp_all add: a(3))
  qed
  show ?case by (auto simp: n' e f split: list.splits)
next
  case (4 m s)
  from "4.prems" obtain n' where n': "n = Suc n'" by (cases n) simp_all
  have v: "parse_value m s = parse_value n' s"
    using "4.prems" n' by (intro "4.IH"(1)) simp_all
  have "parse_elems m r' = parse_elems n' r'"
    if a: "parse_value m s = Some (x, r)" "skip_ws r = CHR '','' # r'" for x r r'
  proof -
    have "length r' + 2 \<le> length s"
      using parse_length(1) [OF a(1)] skip_ws_Cons [OF a(2)] by simp
    with "4.prems" n' show ?thesis by (intro "4.IH"(2) [OF a(1) _ a(2)]) simp_all
  qed
  then show ?case by (auto simp: n' v [symmetric] split: list.splits option.splits)
next
  case (6 m s)
  from "6.prems" obtain n' where n': "n = Suc n'" by (cases n) simp_all
  have v: "parse_value m r2 = parse_value n' r2"
    if a: "skip_ws s = CHR 0x22 # r" "parse_str r = Some (k, r1)" "skip_ws r1 = CHR '':'' # r2"
    for r k r1 r2
  proof -
    have "length r2 + 3 \<le> length s"
      using skip_ws_Cons [OF a(1)] skip_ws_Cons [OF a(3)] parse_str_length [OF a(2)] by simp
    with "6.prems" n' show ?thesis
      by (intro "6.IH"(1) [OF a(1) _ a(2) _ a(3)]) simp_all
  qed
  have "parse_members m r4 = parse_members n' r4"
    if a: "skip_ws s = CHR 0x22 # r" "parse_str r = Some (k, r1)" "skip_ws r1 = CHR '':'' # r2"
      "parse_value m r2 = Some (x, r3)" "skip_ws r3 = CHR '','' # r4" for r k r1 r2 x r3 r4
  proof -
    have "length r4 + 4 \<le> length s"
      using skip_ws_Cons [OF a(1)] skip_ws_Cons [OF a(3)] parse_str_length [OF a(2)]
        parse_length(1) [OF a(4)] skip_ws_Cons [OF a(5)] by simp
    with "6.prems" n' show ?thesis
      by (intro "6.IH"(2) [OF a(1) _ a(2) _ a(3) _ a(4) _ a(5)]) simp_all
  qed
  then show ?case by (auto simp: n' v [symmetric] split: list.splits option.splits)
qed simp_all

section \<open>What is printed parses back\<close>

lemma hex_val_hex_char: "n < 16 \<Longrightarrow> hex_val (hex_char n) = Some n"
proof -
  have "\<forall>n \<in> {..<16}. hex_val (hex_char n) = Some n" by code_simp
  then show "n < 16 \<Longrightarrow> hex_val (hex_char n) = Some n" by simp
qed

lemma parse_str_u00:
  "n < 128 \<Longrightarrow> parse_str (u00 n @ s) = prepend [char_of n] (parse_str s)"
proof -
  assume n: "n < 128"
  then have "hex4 (CHR ''0'') (CHR ''0'') (hex_char (n div 16)) (hex_char (n mod 16)) = Some n"
    by (simp add: hex4_def hex_val_hex_char) (simp add: hex_val_def)
  with n show ?thesis by (simp add: u00_def parse_str.simps(2) utf8_def)
qed

lemma char_of_eq: "(of_char c :: nat) = n \<Longrightarrow> c = char_of n"
  by auto

lemma parse_str_escape_char: "parse_str (escape_char c @ s) = prepend [c] (parse_str s)"
proof -
  let ?n = "of_char c :: nat"
  consider "?n \<in> {34, 92, 8, 12, 10, 13, 9}"
    | "?n \<notin> {34, 92, 8, 12, 10, 13, 9}" "?n < 32 \<or> ?n = 60 \<or> ?n = 62 \<or> ?n = 38"
    | "?n \<notin> {34, 92, 8, 12, 10, 13, 9}" "\<not> (?n < 32 \<or> ?n = 60 \<or> ?n = 62 \<or> ?n = 38)" by blast
  then show ?thesis
  proof cases
    case 1
    have *: "simple_escape (CHR 0x22) = Some (CHR 0x22)" "simple_escape (CHR 0x5C) = Some (CHR 0x5C)"
      "simple_escape (CHR ''b'') = Some (CHR 0x08)" "simple_escape (CHR ''f'') = Some (CHR 0x0C)"
      "simple_escape (CHR ''n'') = Some (CHR 0x0A)" "simple_escape (CHR ''r'') = Some (CHR 0x0D)"
      "simple_escape (CHR ''t'') = Some (CHR 0x09)" by (simp_all add: simple_escape_def)
    have chars: "(of_char (CHR 0x22) :: nat) = 34" by simp
    from 1 have "c \<in> {CHR 0x22, CHR 0x5C, CHR 0x08, CHR 0x0C, CHR 0x0A, CHR 0x0D, CHR 0x09}"
      by (auto dest!: char_of_eq simp: char_of_def bit_0)
    then show ?thesis by (auto simp: escape_char_def parse_str.simps(2) *)
  next
    case 2
    then have "escape_char c = u00 ?n" by (simp add: escape_char_def Let_def)
    moreover from 2 have "?n < 128" by auto
    ultimately show ?thesis using parse_str_u00 [of ?n s] by simp
  next
    case 3
    then have "escape_char c = [c]" by (simp add: escape_char_def Let_def)
    moreover have "c \<noteq> CHR 0x22" "c \<noteq> CHR 0x5C" using 3 by auto
    ultimately show ?thesis using 3 by (simp add: parse_str.simps(2))
  qed
qed

lemma parse_str_line_sep:
  "c \<in> {CHR 0xA8, CHR 0xA9} \<Longrightarrow>
   parse_str ([CHR 0x5C, CHR ''u'', CHR ''2'', CHR ''0'', CHR ''2'',
     if c = CHR 0xA8 then CHR ''8'' else CHR ''9''] @ s) = prepend [CHR 0xE2, CHR 0x80, c] (parse_str s)"
proof -
  have h: "hex4 (CHR ''2'') (CHR ''0'') (CHR ''2'') (CHR ''8'') = Some 8232"
    "hex4 (CHR ''2'') (CHR ''0'') (CHR ''2'') (CHR ''9'') = Some 8233"
    "utf8 8232 = [CHR 0xE2, CHR 0x80, CHR 0xA8]" "utf8 8233 = [CHR 0xE2, CHR 0x80, CHR 0xA9]"
    by (simp_all add: hex4_def hex_val_def utf8_def char_of_def bit_iff_odd_drop_bit drop_bit_eq_div)
  assume "c \<in> {CHR 0xA8, CHR 0xA9}"
  then consider "c = CHR 0xA8" | "c = CHR 0xA9" by blast
  then show ?thesis by cases (simp_all add: parse_str.simps(2) h)
qed

lemma parse_str_quote: "parse_str (escape_str s @ CHR 0x22 # t) = Some (s, t)"
proof (induction s rule: escape_str.induct)
  case (2 c s)
  show ?case
  proof (cases "line_sep (c # s)")
    case True
    then obtain e r where s: "s = CHR 0x80 # e # r" "c = CHR 0xE2" "e \<in> {CHR 0xA8, CHR 0xA9}"
      by (auto simp: line_sep_def split: list.splits)
    have "parse_str (escape_str r @ CHR 0x22 # t) = Some (r, t)" using 2(1) [OF True] s(1) by simp
    then show ?thesis using parse_str_line_sep [OF s(3), of "escape_str r @ CHR 0x22 # t"]
        True unfolding s(1,2) by (simp add: escape_str.simps(2) [of _ "CHR 0x80 # e # r"] prepend_def)
  next
    case False
    then show ?thesis using 2(2) by (simp add: escape_str.simps(2) [of c s] parse_str_escape_char prepend_def)
  qed
qed (simp add: parse_str.simps(2) [of "CHR 0x22"])

definition num_end :: "string \<Rightarrow> bool" where
  "num_end t \<longleftrightarrow> (case t of [] \<Rightarrow> True
     | c # _ \<Rightarrow> \<not> is_digit c \<and> c \<noteq> CHR ''.'' \<and> c \<noteq> CHR ''e'' \<and> c \<noteq> CHR ''E'')"

lemma num_end_simps [simp]: "num_end []" "num_end (CHR '','' # t)" "num_end (CHR '']'' # t)"
  "num_end (CHR ''}'' # t)"
  by (simp_all add: num_end_def is_digit_def)

lemma parse_frac_end: "num_end t \<Longrightarrow> parse_frac t = Some ([], t)"
  by (auto simp: num_end_def parse_frac_def parse_exp_def split: list.splits)

lemma takeWhile_digits: "num_end t \<Longrightarrow> (\<And>c. c \<in> set ds \<Longrightarrow> is_digit c) \<Longrightarrow>
  takeWhile is_digit (ds @ t) = ds \<and> dropWhile is_digit (ds @ t) = t"
  by (auto simp: num_end_def split: list.splits)

lemma parse_unsigned_digits:
  assumes t: "num_end t"
  shows "parse_unsigned (nat_digits n @ t) = Some (nat_digits n, t)"
proof (cases "n = 0")
  case True
  with t show ?thesis by (simp add: nat_digits_zero parse_unsigned_def parse_frac_end prepend_def)
next
  case False
  obtain c r where cr: "nat_digits n = c # r" by (cases "nat_digits n") auto
  have "is_digit c" using nat_digits_hd [of n] cr by simp
  moreover have "c \<noteq> CHR ''0''" using nat_digits_no_lead_zero [of n] cr False by auto
  moreover have "digits_prefix ((c # r) @ t) = (c # r, t)"
    unfolding digits_prefix_def using takeWhile_digits [OF t, of "c # r"] nat_digits_all [of _ n] cr
    by metis
  ultimately show ?thesis using cr t by (simp add: parse_unsigned_def parse_frac_end prepend_def)
qed

lemma Itoa_hd: "\<exists>c r. Itoa i = c # r \<and> (c = CHR ''-'' \<or> is_digit c)"
  using nat_digits_hd [of "nat i"] by (cases "nat_digits (nat i)") (auto simp: Itoa_def)

lemma parse_num_Itoa: "num_end t \<Longrightarrow> parse_num (Itoa i @ t) = Some (Itoa i, t)"
proof -
  assume t: "num_end t"
  obtain c r where cr: "nat_digits (nat i) = c # r" by (cases "nat_digits (nat i)") auto
  have "is_digit c" using nat_digits_hd [of "nat i"] cr by simp
  then have "c \<noteq> CHR ''-''" by auto
  with cr parse_unsigned_digits [OF t, of "nat i"] parse_unsigned_digits [OF t, of "nat (- i)"]
  show ?thesis by (simp add: parse_num_def Itoa_def prepend_def)
qed

text \<open>Values whose numbers are the canonical text of an integer: all that the sources print.\<close>

fun int_json :: "json \<Rightarrow> bool" where
  "int_json (JNum l) = (\<exists>i. l = Itoa i)"
| "int_json (JArr vs) = list_all int_json vs"
| "int_json (JObj ms) = list_all (\<lambda>(k, v). int_json v) ms"
| "int_json _ = True"

definition value_start :: "char \<Rightarrow> bool" where
  "value_start c \<longleftrightarrow> \<not> is_ws c \<and> c \<noteq> CHR '']'' \<and> c \<noteq> CHR ''}''"

lemma json_print_hd: "int_json v \<Longrightarrow> \<exists>c r. json_print v = c # r \<and> value_start c"
proof (cases v)
  case (JNum l)
  moreover assume "int_json v"
  ultimately obtain i where "l = Itoa i" by auto
  with JNum Itoa_hd [of i] show ?thesis by (auto simp: value_start_def is_ws_def is_digit_def)
qed (auto simp: value_start_def is_ws_def quote_def)

lemma skip_ws_start: "value_start c \<Longrightarrow> skip_ws (c # r) = c # r"
  by (simp add: skip_ws_def value_start_def)

lemma skip_ws_punct [simp]: "skip_ws (CHR '','' # t) = CHR '','' # t" "skip_ws (CHR '']'' # t) = CHR '']'' # t"
  "skip_ws (CHR ''}'' # t) = CHR ''}'' # t" "skip_ws (CHR '':'' # t) = CHR '':'' # t"
  "skip_ws (CHR 0x22 # t) = CHR 0x22 # t" "skip_ws (CHR ''['' # t) = CHR ''['' # t"
  "skip_ws (CHR ''{'' # t) = CHR ''{'' # t" "skip_ws (CHR ''t'' # t) = CHR ''t'' # t"
  "skip_ws (CHR ''f'' # t) = CHR ''f'' # t" "skip_ws (CHR ''n'' # t) = CHR ''n'' # t"
  "skip_ws [] = []"
  by (simp_all add: skip_ws_def is_ws_def)

text \<open>A value is parsed back from its text, before any \<open>t\<close>, with enough fuel.\<close>

definition parses :: "json \<Rightarrow> bool" where
  "parses v \<longleftrightarrow> (\<forall>t. num_end t \<longrightarrow> (\<exists>N. \<forall>n \<ge> N. parse_value n (json_print v @ t) = Some (v, t)))"

lemma parsesE:
  assumes "parses v" "num_end t"
  obtains N where "\<And>n. n \<ge> N \<Longrightarrow> parse_value n (json_print v @ t) = Some (v, t)"
  using assms unfolding parses_def by metis

lemma parse_elems_print:
  "vs \<noteq> [] \<Longrightarrow> (\<And>v. v \<in> set vs \<Longrightarrow> parses v) \<Longrightarrow>
   \<exists>N. \<forall>n \<ge> N. parse_elems n (join '','' (map json_print vs) @ CHR '']'' # t) = Some (vs, t)"
proof (induction vs)
  case (Cons v vs)
  let ?rest = "if vs = [] then CHR '']'' # t
               else CHR '','' # join '','' (map json_print vs) @ CHR '']'' # t"
  have eq: "join '','' (map json_print (v # vs)) @ CHR '']'' # t = json_print v @ ?rest"
    by (cases vs) simp_all
  obtain N where N: "\<And>n. n \<ge> N \<Longrightarrow> parse_value n (json_print v @ ?rest) = Some (v, ?rest)"
    by (rule parsesE [of v ?rest]) (use Cons.prems in auto)
  show ?case
  proof (cases "vs = []")
    case True
    have "parse_elems n (json_print v @ ?rest) = Some (v # vs, t)" if "n \<ge> Suc N" for n
      using that N [of "n - 1"] True by (cases n) auto
    then show ?thesis unfolding eq by blast
  next
    case False
    then obtain M where M: "\<And>n. n \<ge> M \<Longrightarrow>
        parse_elems n (join '','' (map json_print vs) @ CHR '']'' # t) = Some (vs, t)"
      using Cons.IH Cons.prems by auto
    have "parse_elems n (json_print v @ ?rest) = Some (v # vs, t)" if "n \<ge> Suc (max N M)" for n
      using that N [of "n - 1"] M [of "n - 1"] False by (cases n) auto
    then show ?thesis unfolding eq by blast
  qed
qed simp

lemma parse_members_print:
  "ms \<noteq> [] \<Longrightarrow> (\<And>k v. (k, v) \<in> set ms \<Longrightarrow> parses v) \<Longrightarrow>
   \<exists>N. \<forall>n \<ge> N. parse_members n
     (join '','' (map (\<lambda>(k, v). quote k @ CHR '':'' # json_print v) ms) @ CHR ''}'' # t) = Some (ms, t)"
proof (induction ms)
  case (Cons kv ms)
  obtain k v where kv: "kv = (k, v)" by (cases kv)
  let ?p = "\<lambda>(k, v). quote k @ CHR '':'' # json_print v"
  let ?rest = "if ms = [] then CHR ''}'' # t
               else CHR '','' # join '','' (map ?p ms) @ CHR ''}'' # t"
  have eq: "join '','' (map ?p (kv # ms)) @ CHR ''}'' # t =
      CHR 0x22 # escape_str k @ CHR 0x22 # CHR '':'' # json_print v @ ?rest"
    by (cases ms) (simp_all add: kv quote_def)
  obtain N where N: "\<And>n. n \<ge> N \<Longrightarrow> parse_value n (json_print v @ ?rest) = Some (v, ?rest)"
    by (rule parsesE [of v ?rest]) (use Cons.prems kv in auto)
  show ?case
  proof (cases "ms = []")
    case True
    have "parse_members n (join '','' (map ?p (kv # ms)) @ CHR ''}'' # t) = Some (kv # ms, t)"
      if "n \<ge> Suc N" for n
      unfolding eq using that N [of "n - 1"] True
      by (cases n) (auto simp: parse_str_quote kv)
    then show ?thesis by blast
  next
    case False
    then obtain M where M: "\<And>n. n \<ge> M \<Longrightarrow>
        parse_members n (join '','' (map ?p ms) @ CHR ''}'' # t) = Some (ms, t)"
      using Cons.IH Cons.prems by auto
    have "parse_members n (join '','' (map ?p (kv # ms)) @ CHR ''}'' # t) = Some (kv # ms, t)"
      if "n \<ge> Suc (max N M)" for n
      unfolding eq using that N [of "n - 1"] M [of "n - 1"] False
      by (cases n) (auto simp: parse_str_quote kv)
    then show ?thesis by blast
  qed
qed simp

lemma parses_arr:
  assumes "\<And>v. v \<in> set vs \<Longrightarrow> parses v \<and> int_json v"
  shows "parses (JArr vs)"
  unfolding parses_def
proof (intro allI impI)
  fix t
  show "\<exists>N. \<forall>n \<ge> N. parse_value n (json_print (JArr vs) @ t) = Some (JArr vs, t)"
  proof (cases vs)
    case Nil
    have "parse_value n (json_print (JArr vs) @ t) = Some (JArr vs, t)" if "n \<ge> 1" for n
      using that Nil by (cases n) auto
    then show ?thesis by blast
  next
    case (Cons v vs')
    obtain N where N: "\<And>n. n \<ge> N \<Longrightarrow>
        parse_elems n (join '','' (map json_print vs) @ CHR '']'' # t) = Some (vs, t)"
      using parse_elems_print [of vs t] assms Cons by auto
    obtain c r where c: "json_print v = c # r" "value_start c"
      using json_print_hd [of v] assms Cons by auto
    define u where "u = join '','' (map json_print vs) @ CHR '']'' # t"
    obtain r' where r': "u = c # r'" using c Cons by (cases vs') (auto simp: u_def)
    have "parse_value n (CHR ''['' # u) = Some (JArr vs, t)" if "n \<ge> Suc N" for n
      using that N [of "n - 1", folded u_def] c r' skip_ws_start [OF c(2)]
      by (cases n) (auto simp: value_start_def)
    then show ?thesis by (auto simp: u_def)
  qed
qed

lemma parses_obj:
  assumes "\<And>k v. (k, v) \<in> set ms \<Longrightarrow> parses v"
  shows "parses (JObj ms)"
  unfolding parses_def
proof (intro allI impI)
  fix t
  let ?p = "\<lambda>(k, v). quote k @ CHR '':'' # json_print v"
  show "\<exists>N. \<forall>n \<ge> N. parse_value n (json_print (JObj ms) @ t) = Some (JObj ms, t)"
  proof (cases ms)
    case Nil
    have "parse_value n (json_print (JObj ms) @ t) = Some (JObj ms, t)" if "n \<ge> 1" for n
      using that Nil by (cases n) auto
    then show ?thesis by blast
  next
    case (Cons kv ms')
    obtain N where N: "\<And>n. n \<ge> N \<Longrightarrow>
        parse_members n (join '','' (map ?p ms) @ CHR ''}'' # t) = Some (ms, t)"
      using parse_members_print [of ms t] assms Cons by auto
    define u where "u = join '','' (map ?p ms) @ CHR ''}'' # t"
    obtain r' where r': "u = CHR 0x22 # r'"
      using Cons by (cases kv; cases ms') (simp_all add: u_def quote_def)
    have "parse_value n (CHR ''{'' # u) = Some (JObj ms, t)" if "n \<ge> Suc N" for n
      using that N [of "n - 1", folded u_def] r' by (cases n) auto
    then show ?thesis by (auto simp: u_def)
  qed
qed

lemma parses_num: "parses (JNum (Itoa i))"
  unfolding parses_def
proof (intro allI impI)
  fix t assume t: "num_end t"
  obtain c r where c: "Itoa i = c # r" "c = CHR ''-'' \<or> is_digit c" using Itoa_hd by blast
  then have s: "skip_ws (Itoa i @ t) = Itoa i @ t"
    by (auto simp: skip_ws_def is_ws_def is_digit_def)
  have "c \<notin> {CHR 0x22, CHR ''{'', CHR ''['', CHR ''t'', CHR ''f'', CHR ''n''}"
    using c by (auto simp: is_digit_def)
  then have "parse_value n (Itoa i @ t) = Some (JNum (Itoa i), t)" if "n \<ge> 1" for n
    using that s c parse_num_Itoa [OF t, of i] by (cases n) auto
  then show "\<exists>N. \<forall>n \<ge> N. parse_value n (json_print (JNum (Itoa i)) @ t) = Some (JNum (Itoa i), t)"
    by auto
qed

lemma parses_atom: "v \<in> {JNull, JBool b, JStr s} \<Longrightarrow> parses v"
  unfolding parses_def
proof (intro allI impI)
  fix t assume v: "v \<in> {JNull, JBool b, JStr s}"
  have "parse_value n (json_print v @ t) = Some (v, t)" if "n \<ge> 1" for n
    using that v by (cases n) (auto simp: parse_lit_def quote_def parse_str_quote)
  then show "\<exists>N. \<forall>n \<ge> N. parse_value n (json_print v @ t) = Some (v, t)" by blast
qed

lemma int_json_parses: "int_json v \<Longrightarrow> parses v"
proof (induction v)
  case (JArr vs)
  then show ?case by (intro parses_arr) (auto simp: list_all_iff)
next
  case (JObj ms)
  then show ?case by (intro parses_obj) (fastforce simp: list_all_iff)
qed (auto simp: parses_num intro: parses_atom)

theorem parse_value_print:
  assumes "int_json v" "num_end t" "n > 2 * length (json_print v @ t)"
  shows "parse_value n (json_print v @ t) = Some (v, t)"
proof -
  obtain N where "\<And>n. n \<ge> N \<Longrightarrow> parse_value n (json_print v @ t) = Some (v, t)"
    using int_json_parses [OF assms(1)] assms(2) unfolding parses_def by blast
  then have "parse_value (max N n) (json_print v @ t) = Some (v, t)" by simp
  then show ?thesis using parse_fuel(1) [of "json_print v @ t" n "max N n"] assms(3) by simp
qed

theorem json_parse_print: "int_json v \<Longrightarrow> json_parse (json_print v) = Some v"
  using parse_value_print [of v "[]"] by (simp add: json_parse_def del: parse_value.simps)

theorem json_parse_prefix_print:
  "int_json v \<Longrightarrow> num_end t \<Longrightarrow> json_parse_prefix (json_print v @ t) = Some v"
  using parse_value_print [of v t] by (simp add: json_parse_prefix_def del: parse_value.simps)

section \<open>Filling a struct\<close>

text \<open>
  The values an object gives to the field with a JSON name, in the order of the keys.
  Keys are compared without regard to ASCII case. A member whose value is \<^verbatim>\<open>null\<close> leaves a
  string or number field as it was.
\<close>

definition field_values :: "string \<Rightarrow> (string \<times> json) list \<Rightarrow> json list" where
  "field_values f ms =
     filter (\<lambda>v. v \<noteq> JNull) (map snd (filter (\<lambda>(k, _). to_lower k = to_lower f) ms))"

fun json_str :: "json \<Rightarrow> string option" where
  "json_str (JStr s) = Some s"
| "json_str _ = None"

fun json_int :: "json \<Rightarrow> int option" where
  "json_int (JNum l) = ParseInt l"
| "json_int _ = None"

fun json_bool :: "json \<Rightarrow> bool option" where
  "json_bool (JBool b) = Some b"
| "json_bool _ = None"

text \<open>
  \<open>get_field conv zero f ms\<close>: the field's value after decoding, \<^const>\<open>None\<close> when some member has
  the wrong type.
\<close>

definition get_field :: "(json \<Rightarrow> 'a option) \<Rightarrow> 'a \<Rightarrow> string \<Rightarrow> (string \<times> json) list \<Rightarrow> 'a option" where
  "get_field conv z f ms =
     (let vs = map conv (field_values f ms)
      in if None \<in> set vs then None else if vs = [] then Some z else last vs)"

abbreviation get_str :: "string \<Rightarrow> (string \<times> json) list \<Rightarrow> string option" where
  "get_str \<equiv> get_field json_str []"

abbreviation get_int :: "string \<Rightarrow> (string \<times> json) list \<Rightarrow> int option" where
  "get_int \<equiv> get_field json_int 0"

lemma field_values_simps [simp]:
  "field_values f [] = []"
  "field_values f ((k, v) # ms) =
     (if to_lower k = to_lower f \<and> v \<noteq> JNull then v # field_values f ms else field_values f ms)"
  by (simp_all add: field_values_def)

lemma get_field_single:
  "field_values f ms = [v] \<Longrightarrow> conv v = Some x \<Longrightarrow> get_field conv z f ms = Some x"
  by (simp add: get_field_def)

lemma get_field_none: "field_values f ms = [] \<Longrightarrow> get_field conv z f ms = Some z"
  by (simp add: get_field_def)

text \<open>The members of a decoded value: \<^verbatim>\<open>null\<close> leaves the whole struct at its zero value.\<close>

fun json_members :: "json \<Rightarrow> (string \<times> json) list option" where
  "json_members (JObj ms) = Some ms"
| "json_members JNull = Some []"
| "json_members _ = None"

text \<open>\<^verbatim>\<open>DisallowUnknownFields\<close>.\<close>

definition known_fields :: "string list \<Rightarrow> (string \<times> json) list \<Rightarrow> bool" where
  "known_fields fs ms \<longleftrightarrow>
     (\<forall>k \<in> set (map fst ms). to_lower k \<in> set (map to_lower fs))"

section \<open>Raw members\<close>

text \<open>
  Decoding into \<^verbatim>\<open>map[string]json.RawMessage\<close>: the members of an object with the source text
  of their values. Marshalling a raw value compacts it: white space between tokens goes away and
  the HTML characters are escaped; inside of string literals everything else stays as it is.
\<close>

fun compact_str :: "string \<Rightarrow> string"
  and compact :: "string \<Rightarrow> string" where
  "compact [] = []"
| "compact (c # s) =
     (if is_ws c then compact s
      else if c = CHR 0x22 then c # compact_str s
      else c # compact s)"
| "compact_str [] = []"
| "compact_str (c # s) =
     (if c = CHR 0x22 then c # compact s
      else if c = CHR 0x5C then
        (case s of [] \<Rightarrow> [c] | e # s' \<Rightarrow> c # e # compact_str s')
      else if line_sep (c # s)
      then [CHR 0x5C, CHR ''u'', CHR ''2'', CHR ''0'', CHR ''2'',
            if s ! 1 = CHR 0xA8 then CHR ''8'' else CHR ''9''] @ compact_str (drop 2 s)
      else if c = CHR ''<'' \<or> c = CHR ''>'' \<or> c = CHR ''&'' then u00 (of_char c) @ compact_str s
      else c # compact_str s)"

fun raw_members :: "nat \<Rightarrow> string \<Rightarrow> (string \<times> string) list" where
  "raw_members 0 s = []"
| "raw_members (Suc n) s =
     (case skip_ws s of
        q # r \<Rightarrow>
          (case parse_str r of
             Some (k, r1) \<Rightarrow>
               (let r2 = skip_ws (tl (skip_ws r1)) in
                case parse_value (2 * length r2 + 1) r2 of
                  Some (_, r3) \<Rightarrow>
                    (k, take (length r2 - length r3) r2) #
                    (case skip_ws r3 of
                       d # r4 \<Rightarrow> if d = CHR '','' then raw_members n r4 else []
                     | [] \<Rightarrow> [])
                | None \<Rightarrow> [])
           | None \<Rightarrow> [])
      | [] \<Rightarrow> [])"

text \<open>The members of the text of an object that \<^const>\<open>json_parse\<close> accepts.\<close>

definition json_raw_members :: "string \<Rightarrow> (string \<times> string) list" where
  "json_raw_members s = raw_members (length s) (tl (skip_ws s))"

end
