(* ===== verification/Jwt.thy ===== *)
theory Jwt
  imports Base64 Json
begin

text \<open>
  Session tokens: how \<^verbatim>\<open>playgate-server/internal/auth/jwt.go\<close> issues and checks them, how
  \<^verbatim>\<open>playgate-host/internal/session/jwt.go\<close> verifies them, and how the host reads the
  server's public key (\<^verbatim>\<open>session.go\<close>). Signing and verifying are Go's \<^verbatim>\<open>crypto/ed25519\<close>:
  the functions \<open>sign\<close> (private key, message) and \<open>verify\<close> (public key, message,
  signature) are parameters.
\<close>

type_synonym sign_fun = "string \<Rightarrow> string \<Rightarrow> string"
type_synonym verify_fun = "string \<Rightarrow> string \<Rightarrow> string \<Rightarrow> bool"

record Claims =
  c_Issuer :: string
  c_IssuedAt :: int
  c_ExpiresAt :: int
  c_RoomID :: string
  c_ViewerID :: string
  c_SessionSeconds :: int

record KeyPair =
  kp_Private :: string
  kp_Public :: string

datatype jwt_error =
    Malformed | DecodeHeader | ParseHeader | UnsupportedAlg string string
  | DecodePayload | DecodeSignature | BadKeySize nat | BadSignature | ParseClaims
  | MissingExp | Expired | MissingRoomID | MissingViewerID | BadSessionSeconds

definition PublicKeySize :: nat where
  "PublicKeySize = 32"

definition jwtHeader :: string where
  "jwtHeader = json_print (JObj [(''alg'', JStr ''EdDSA''), (''typ'', JStr ''JWT'')])"

text \<open>\<^verbatim>\<open>json.Marshal\<close> and \<^verbatim>\<open>json.Unmarshal\<close> on \<^verbatim>\<open>Claims\<close>.\<close>

definition claims_json :: "Claims \<Rightarrow> json" where
  "claims_json c = JObj
     [(''iss'', JStr (c_Issuer c)), (''iat'', JNum (Itoa (c_IssuedAt c))),
      (''exp'', JNum (Itoa (c_ExpiresAt c))), (''room_id'', JStr (c_RoomID c)),
      (''viewer_id'', JStr (c_ViewerID c)),
      (''session_seconds'', JNum (Itoa (c_SessionSeconds c)))]"

definition claims_of_json :: "json \<Rightarrow> Claims option" where
  "claims_of_json j =
     do { ms \<leftarrow> json_members j;
          iss \<leftarrow> get_str ''iss'' ms;
          iat \<leftarrow> get_int ''iat'' ms;
          expi \<leftarrow> get_int ''exp'' ms;
          rid \<leftarrow> get_str ''room_id'' ms;
          vid \<leftarrow> get_str ''viewer_id'' ms;
          secs \<leftarrow> get_int ''session_seconds'' ms;
          Some \<lparr>c_Issuer = iss, c_IssuedAt = iat, c_ExpiresAt = expi,
                c_RoomID = rid, c_ViewerID = vid, c_SessionSeconds = secs\<rparr> }"

definition unmarshal_claims :: "string \<Rightarrow> Claims option" where
  "unmarshal_claims s = Option.bind (json_parse s) claims_of_json"

section \<open>The server's side\<close>

definition PublicKeyBase64 :: "KeyPair \<Rightarrow> string" where
  "PublicKeyBase64 kp = StdEncoding_EncodeToString (kp_Public kp)"

definition IssueJWT :: "sign_fun \<Rightarrow> KeyPair \<Rightarrow> Claims \<Rightarrow> string" where
  "IssueJWT sign kp c =
     (let headerB64 = RawURLEncoding_EncodeToString jwtHeader;
          payload = json_print (claims_json c);
          payloadB64 = RawURLEncoding_EncodeToString payload;
          sigInput = headerB64 @ ''.'' @ payloadB64;
          sig = sign (kp_Private kp) sigInput;
          sigB64 = RawURLEncoding_EncodeToString sig
      in sigInput @ ''.'' @ sigB64)"

text \<open>
  \<^verbatim>\<open>ed25519.Verify\<close> panics on a public key of another size than 32 bytes; the model
  returns \<^const>\<open>BadKeySize\<close> there.
\<close>

definition VerifyJWT :: "verify_fun \<Rightarrow> instant \<Rightarrow> string \<Rightarrow> string \<Rightarrow> jwt_error + Claims" where
  "VerifyJWT verify now token pub =
     (case split_on (CHR ''.'') token of
        [p0, p1, p2] \<Rightarrow>
          (case RawURLEncoding_DecodeString p2 of
             None \<Rightarrow> Inl DecodeSignature
           | Some sig \<Rightarrow>
               if length pub \<noteq> PublicKeySize then Inl (BadKeySize (length pub))
               else if \<not> verify pub (p0 @ ''.'' @ p1) sig then Inl BadSignature
               else (case RawURLEncoding_DecodeString p1 of
                       None \<Rightarrow> Inl DecodePayload
                     | Some payloadJSON \<Rightarrow>
                         (case unmarshal_claims payloadJSON of
                            None \<Rightarrow> Inl ParseClaims
                          | Some c \<Rightarrow> if Unix now > c_ExpiresAt c then Inl Expired else Inr c)))
      | _ \<Rightarrow> Inl Malformed)"

section \<open>The host's side\<close>

definition base64URLDecode :: "string \<Rightarrow> string option" where
  "base64URLDecode s =
     URLEncoding_DecodeString
       (s @ (if length s mod 4 = 2 then ''=='' else if length s mod 4 = 3 then ''='' else []))"

definition unmarshal_header :: "string \<Rightarrow> (string \<times> string) option" where
  "unmarshal_header s =
     do { j \<leftarrow> json_parse s;
          ms \<leftarrow> json_members j;
          alg \<leftarrow> get_str ''alg'' ms;
          typ \<leftarrow> get_str ''typ'' ms;
          Some (alg, typ) }"

definition check_claims :: "instant \<Rightarrow> Claims \<Rightarrow> jwt_error + Claims" where
  "check_claims now c =
     (if c_ExpiresAt c = 0 then Inl MissingExp
      else if Unix now \<ge> c_ExpiresAt c then Inl Expired
      else if c_RoomID c = [] then Inl MissingRoomID
      else if c_ViewerID c = [] then Inl MissingViewerID
      else if c_SessionSeconds c \<le> 0 then Inl BadSessionSeconds
      else Inr c)"

definition ParseAndVerify :: "verify_fun \<Rightarrow> string \<Rightarrow> string \<Rightarrow> instant \<Rightarrow> jwt_error + Claims" where
  "ParseAndVerify verify token pubKey now =
     (case split_on (CHR ''.'') token of
        [p0, p1, p2] \<Rightarrow>
          (case base64URLDecode p0 of
             None \<Rightarrow> Inl DecodeHeader
           | Some headerJSON \<Rightarrow>
               (case unmarshal_header headerJSON of
                  None \<Rightarrow> Inl ParseHeader
                | Some (alg, typ) \<Rightarrow>
                    if alg \<noteq> ''EdDSA'' \<or> typ \<noteq> ''JWT'' then Inl (UnsupportedAlg alg typ)
                    else (case base64URLDecode p1 of
                            None \<Rightarrow> Inl DecodePayload
                          | Some payloadJSON \<Rightarrow>
                              (case base64URLDecode p2 of
                                 None \<Rightarrow> Inl DecodeSignature
                               | Some sig \<Rightarrow>
                                   if length pubKey \<noteq> PublicKeySize
                                   then Inl (BadKeySize (length pubKey))
                                   else if \<not> verify pubKey (p0 @ ''.'' @ p1) sig
                                   then Inl BadSignature
                                   else (case unmarshal_claims payloadJSON of
                                           None \<Rightarrow> Inl ParseClaims
                                         | Some c \<Rightarrow> check_claims now c)))))
      | _ \<Rightarrow> Inl Malformed)"

datatype key_error = KeyBothSet | KeyNeitherSet | KeyReadFile | KeyDecode | KeySize nat

definition decodePublicKey :: "string \<Rightarrow> key_error + string" where
  "decodePublicKey s0 =
     (let s = trim_right (CHR ''='') s0
      in case (case RawURLEncoding_DecodeString s of
                 Some b \<Rightarrow> Some b
               | None \<Rightarrow> RawStdEncoding_DecodeString s) of
           None \<Rightarrow> Inl KeyDecode
         | Some b \<Rightarrow> if length b \<noteq> PublicKeySize then Inl (KeySize (length b)) else Inr b)"

text \<open>\<open>readFile\<close> is \<^verbatim>\<open>os.ReadFile\<close>.\<close>

definition loadPublicKey ::
    "(string \<Rightarrow> string option) \<Rightarrow> string \<Rightarrow> string \<Rightarrow> key_error + string" where
  "loadPublicKey readFile keyBase64 keyFile =
     (if keyBase64 \<noteq> [] \<and> keyFile \<noteq> [] then Inl KeyBothSet
      else if keyBase64 \<noteq> [] then decodePublicKey keyBase64
      else if keyFile \<noteq> [] then
        (case readFile keyFile of
           None \<Rightarrow> Inl KeyReadFile
         | Some data \<Rightarrow> decodePublicKey (trim_space data))
      else Inl KeyNeitherSet)"

section \<open>Round trips\<close>

lemma jwtHeader_text:
  "jwtHeader = [CHR ''{'', CHR 0x22] @ ''alg'' @ [CHR 0x22, CHR '':'', CHR 0x22] @ ''EdDSA''
     @ [CHR 0x22, CHR '','', CHR 0x22] @ ''typ'' @ [CHR 0x22, CHR '':'', CHR 0x22] @ ''JWT''
     @ [CHR 0x22, CHR ''}'']"
  by (simp add: jwtHeader_def quote_def escape_str.simps(2) line_sep_def escape_char_def)

lemma base64URLDecode_encode [simp]:
  "base64URLDecode (RawURLEncoding_EncodeToString s) = Some s"
proof -
  have "RawURLEncoding_EncodeToString s @ b64_pad (RawURLEncoding_EncodeToString s)
        = b64_encode url_alphabet True s"
    by (simp add: b64_encode_pad)
  then show ?thesis by (simp add: base64URLDecode_def b64_pad_def b64_roundtrip)
qed

definition claims_int64 :: "Claims \<Rightarrow> bool" where
  "claims_int64 c \<longleftrightarrow>
     in_int64 (c_IssuedAt c) \<and> in_int64 (c_ExpiresAt c) \<and> in_int64 (c_SessionSeconds c)"

lemma claims_json_roundtrip: "claims_int64 c \<Longrightarrow> claims_of_json (claims_json c) = Some c"
  by (simp add: claims_json_def claims_of_json_def claims_int64_def get_field_single
      to_lower_def to_lower_char_def ParseInt_Itoa)

lemma claims_int_json: "int_json (claims_json c)"
  by (auto simp: claims_json_def)

lemma unmarshal_marshal: "claims_int64 c \<Longrightarrow> unmarshal_claims (json_print (claims_json c)) = Some c"
  by (simp add: unmarshal_claims_def json_parse_print claims_int_json claims_json_roundtrip)

lemma unmarshal_jwtHeader: "unmarshal_header jwtHeader = Some (''EdDSA'', ''JWT'')"
  by (simp add: unmarshal_header_def jwtHeader_def json_parse_print get_field_single
      to_lower_def to_lower_char_def del: json_print.simps)

lemma split_token:
  "split_on (CHR ''.'') (RawURLEncoding_EncodeToString a @ ''.'' @ RawURLEncoding_EncodeToString b
     @ ''.'' @ RawURLEncoding_EncodeToString c) =
   [RawURLEncoding_EncodeToString a, RawURLEncoding_EncodeToString b, RawURLEncoding_EncodeToString c]"
  by (simp add: split_on_append_sep split_on_no_sep b64_encode_no_dot)

text \<open>The host's checks pass exactly on claims that are complete and not expired.\<close>

lemma check_claims_Inr:
  "check_claims now c = Inr c' \<longleftrightarrow>
   c' = c \<and> Unix now < c_ExpiresAt c \<and> c_ExpiresAt c \<noteq> 0 \<and> c_RoomID c \<noteq> [] \<and>
   c_ViewerID c \<noteq> [] \<and> 0 < c_SessionSeconds c"
  by (auto simp: check_claims_def)

lemma ParseAndVerify_issued:
  assumes "\<And>m. verify (kp_Public kp) m (sign (kp_Private kp) m)"
    and "length (kp_Public kp) = PublicKeySize" and "claims_int64 c"
  shows "ParseAndVerify verify (IssueJWT sign kp c) (kp_Public kp) now = check_claims now c"
  using assms
  by (simp only: ParseAndVerify_def IssueJWT_def Let_def split_token append_assoc list.case
      base64URLDecode_encode option.case unmarshal_jwtHeader prod.case unmarshal_marshal
      simp_thms if_False if_True)

lemma VerifyJWT_issued:
  assumes "\<And>m. verify (kp_Public kp) m (sign (kp_Private kp) m)"
    and "length (kp_Public kp) = PublicKeySize" and "claims_int64 c"
  shows "VerifyJWT verify now (IssueJWT sign kp c) (kp_Public kp) =
         (if Unix now > c_ExpiresAt c then Inl Expired else Inr c)"
  using assms
  by (simp only: VerifyJWT_def IssueJWT_def Let_def split_token append_assoc list.case
      b64_roundtrip url_alphabet_ok option.case unmarshal_marshal simp_thms if_False if_True)

lemma ParseAndVerify_facts:
  assumes "ParseAndVerify verify token pubKey now = Inr c"
  shows "Unix now < c_ExpiresAt c" "c_RoomID c \<noteq> []" "c_ViewerID c \<noteq> []" "0 < c_SessionSeconds c"
  using assms unfolding ParseAndVerify_def
  by (auto simp: check_claims_Inr split: list.splits option.splits prod.splits if_splits)

section \<open>Properties\<close>

text \<open>
  Token round trip. A token the server issues for complete claims (a room, a viewer, a
  positive session length, 64-bit integers) is accepted by the host holding the matching
  public key, at any time before its expiry, and the host reads exactly the claims the server
  signed. The hypothesis on \<open>sign\<close> and \<open>verify\<close> is that ed25519 accepts its own signatures.
\<close>

theorem issue_verify_roundtrip:
  assumes "\<And>m. verify (kp_Public kp) m (sign (kp_Private kp) m)"
    and "length (kp_Public kp) = PublicKeySize" and "claims_int64 c"
    and "c_RoomID c \<noteq> []" and "c_ViewerID c \<noteq> []" and "0 < c_SessionSeconds c"
    and "c_ExpiresAt c \<noteq> 0" and "Unix now < c_ExpiresAt c"
  shows "ParseAndVerify verify (IssueJWT sign kp c) (kp_Public kp) now = Inr c"
  using ParseAndVerify_issued [of verify kp sign c now] assms by (simp add: check_claims_Inr)

theorem issue_verify_roundtrip_witness:
  "ParseAndVerify (\<lambda>p m s. s = p @ m)
     (IssueJWT (\<lambda>k m. k @ m) \<lparr>kp_Private = replicate 32 (CHR ''k''), kp_Public = replicate 32 (CHR ''k'')\<rparr>
       \<lparr>c_Issuer = ''playgate-server'', c_IssuedAt = 1700000000, c_ExpiresAt = 1700000300,
        c_RoomID = ''r1'', c_ViewerID = ''v1'', c_SessionSeconds = 300\<rparr>)
     (replicate 32 (CHR ''k'')) (1700000100 * Second) =
   Inr \<lparr>c_Issuer = ''playgate-server'', c_IssuedAt = 1700000000, c_ExpiresAt = 1700000300,
        c_RoomID = ''r1'', c_ViewerID = ''v1'', c_SessionSeconds = 300\<rparr>"
  using issue_verify_roundtrip
    [of "\<lambda>p m s. s = p @ m"
       "\<lparr>kp_Private = replicate 32 (CHR ''k''), kp_Public = replicate 32 (CHR ''k'')\<rparr>"
       "\<lambda>k m. k @ m"
       "\<lparr>c_Issuer = ''playgate-server'', c_IssuedAt = 1700000000, c_ExpiresAt = 1700000300,
        c_RoomID = ''r1'', c_ViewerID = ''v1'', c_SessionSeconds = 300\<rparr>" "1700000100 * Second"]
  by (simp add: PublicKeySize_def claims_int64_def in_int64_def int64_min_def int64_max_def
      Unix_def Second_def)

text \<open>
  C36. Soundness of verification. Whatever token text the host accepts has three parts; the
  header names EdDSA/JWT; the third part decodes to a signature that verifies over the exact
  text of the first two under a 32-byte key; and the returned claims are those of the signed
  payload, complete and not expired at \<open>now\<close>. No other token yields claims.
\<close>

theorem ParseAndVerify_sound:
  assumes "ParseAndVerify verify token pubKey now = Inr c"
  shows "\<exists>p0 p1 p2 hdr payload sig. split_on (CHR ''.'') token = [p0, p1, p2]
    \<and> base64URLDecode p0 = Some hdr \<and> unmarshal_header hdr = Some (''EdDSA'', ''JWT'')
    \<and> base64URLDecode p1 = Some payload \<and> unmarshal_claims payload = Some c
    \<and> base64URLDecode p2 = Some sig \<and> length pubKey = PublicKeySize
    \<and> verify pubKey (p0 @ ''.'' @ p1) sig
    \<and> Unix now < c_ExpiresAt c \<and> c_RoomID c \<noteq> [] \<and> c_ViewerID c \<noteq> [] \<and> 0 < c_SessionSeconds c"
  using assms unfolding ParseAndVerify_def
  by (auto simp: check_claims_Inr split: list.splits option.splits prod.splits if_splits)

theorem ParseAndVerify_sound_witness:
  "\<exists>p0 p1 p2 hdr payload sig.
     split_on (CHR ''.'') (IssueJWT (\<lambda>k m. k @ m)
       \<lparr>kp_Private = replicate 32 (CHR ''k''), kp_Public = replicate 32 (CHR ''k'')\<rparr>
       \<lparr>c_Issuer = ''s'', c_IssuedAt = 1, c_ExpiresAt = 9, c_RoomID = ''r1'', c_ViewerID = ''v1'',
        c_SessionSeconds = 8\<rparr>) = [p0, p1, p2]
    \<and> base64URLDecode p0 = Some hdr \<and> unmarshal_header hdr = Some (''EdDSA'', ''JWT'')
    \<and> base64URLDecode p1 = Some payload
    \<and> unmarshal_claims payload = Some \<lparr>c_Issuer = ''s'', c_IssuedAt = 1, c_ExpiresAt = 9,
        c_RoomID = ''r1'', c_ViewerID = ''v1'', c_SessionSeconds = 8\<rparr>
    \<and> base64URLDecode p2 = Some sig \<and> sig = replicate 32 (CHR ''k'') @ p0 @ ''.'' @ p1"
proof -
  let ?kp = "\<lparr>kp_Private = replicate 32 (CHR ''k''), kp_Public = replicate 32 (CHR ''k'')\<rparr>"
  let ?c = "\<lparr>c_Issuer = ''s'', c_IssuedAt = 1, c_ExpiresAt = 9, c_RoomID = ''r1'',
    c_ViewerID = ''v1'', c_SessionSeconds = 8\<rparr>"
  let ?v = "\<lambda>p m s. s = p @ m"
  have "ParseAndVerify ?v (IssueJWT (\<lambda>k m. k @ m) ?kp ?c) (kp_Public ?kp) 0 = check_claims 0 ?c"
    by (rule ParseAndVerify_issued)
      (simp_all add: PublicKeySize_def claims_int64_def in_int64_def int64_min_def int64_max_def)
  also have "\<dots> = Inr ?c" by (simp add: check_claims_Inr Unix_def)
  finally have "ParseAndVerify ?v (IssueJWT (\<lambda>k m. k @ m) ?kp ?c) (kp_Public ?kp) 0 = Inr ?c" .
  from ParseAndVerify_sound [OF this] show ?thesis by (elim exE conjE) (intro exI conjI; assumption?; simp)
qed

text \<open>
  Key exchange. The base64 text under which the server publishes its 32-byte public key
  is read back by the host as the same key, given inline or in a file, with white space around
  it in the file.
\<close>

theorem public_key_exchange:
  assumes "length (kp_Public kp) = PublicKeySize"
    and "keyFile \<noteq> []" and "readFile keyFile = Some (w1 @ PublicKeyBase64 kp @ w2)"
    and "list_all is_space w1" and "list_all is_space w2"
  shows "loadPublicKey readFile (PublicKeyBase64 kp) [] = Inr (kp_Public kp)
       \<and> loadPublicKey readFile [] keyFile = Inr (kp_Public kp)"
proof -
  let ?k = "PublicKeyBase64 kp"
  have dec: "decodePublicKey ?k = Inr (kp_Public kp)"
    using decode_std_either [of "kp_Public kp"] assms(1)
    by (simp add: decodePublicKey_def PublicKeyBase64_def trim_b64_encode split: option.splits)
  have ne: "?k \<noteq> []" using assms(1)
    by (cases "(std_alphabet, True, kp_Public kp)" rule: b64_encode.cases)
      (auto simp: PublicKeyBase64_def PublicKeySize_def Let_def)
  have "set ?k \<subseteq> set std_alphabet \<union> {CHR ''=''}"
    using b64_encode_chars [OF std_alphabet_ok, of True "kp_Public kp"]
    by (simp add: PublicKeyBase64_def)
  moreover have "\<forall>c \<in> set std_alphabet \<union> {CHR ''=''}. \<not> is_space c"
    by (simp add: std_alphabet_def is_space_def)
  ultimately have ns: "\<forall>c \<in> set ?k. \<not> is_space c" by blast
  have "trim_space (w1 @ ?k @ w2) = ?k"
    using ne ns assms(4,5) by (simp add: trim_space_surround)
  with dec ne assms(2,3) show ?thesis by (simp add: loadPublicKey_def)
qed

theorem public_key_exchange_witness:
  "loadPublicKey (\<lambda>_. Some (PublicKeyBase64 \<lparr>kp_Private = [], kp_Public = replicate 32 (CHR 0xFB)\<rparr> @ [CHR 0x0A]))
     [] ''k.pub'' = Inr (replicate 32 (CHR 0xFB))"
  using public_key_exchange
    [of "\<lparr>kp_Private = [], kp_Public = replicate 32 (CHR 0xFB)\<rparr>" "''k.pub''"
        "\<lambda>_. Some (PublicKeyBase64 \<lparr>kp_Private = [], kp_Public = replicate 32 (CHR 0xFB)\<rparr> @ [CHR 0x0A])"
        "[]" "[CHR 0x0A]"]
  by (simp add: PublicKeySize_def is_space_def)

text \<open>
  The two ends read the expiry instant differently. For an issued token with complete
  claims the server's check accepts during the whole second \<open>exp\<close> while the host already
  rejects it; at every other time the two agree.
\<close>

theorem expiry_boundary:
  assumes "\<And>m. verify (kp_Public kp) m (sign (kp_Private kp) m)"
    and "length (kp_Public kp) = PublicKeySize" and "claims_int64 c"
    and "c_RoomID c \<noteq> []" and "c_ViewerID c \<noteq> []" and "0 < c_SessionSeconds c" and "0 < c_ExpiresAt c"
  shows "(VerifyJWT verify now (IssueJWT sign kp c) (kp_Public kp) = Inr c
          \<longleftrightarrow> ParseAndVerify verify (IssueJWT sign kp c) (kp_Public kp) now = Inr c)
         \<longleftrightarrow> Unix now \<noteq> c_ExpiresAt c"
  using VerifyJWT_issued [of verify kp sign c now] ParseAndVerify_issued [of verify kp sign c now] assms
  by (auto simp: check_claims_def)

theorem expiry_boundary_witness:
  "\<not> (VerifyJWT (\<lambda>p m s. s = p @ m) (9 * Second)
        (IssueJWT (\<lambda>k m. k @ m) \<lparr>kp_Private = replicate 32 (CHR ''k''), kp_Public = replicate 32 (CHR ''k'')\<rparr>
          \<lparr>c_Issuer = ''s'', c_IssuedAt = 1, c_ExpiresAt = 9, c_RoomID = ''r1'', c_ViewerID = ''v1'',
           c_SessionSeconds = 8\<rparr>) (replicate 32 (CHR ''k'')) = Inr
          \<lparr>c_Issuer = ''s'', c_IssuedAt = 1, c_ExpiresAt = 9, c_RoomID = ''r1'', c_ViewerID = ''v1'',
           c_SessionSeconds = 8\<rparr>
      \<longleftrightarrow> ParseAndVerify (\<lambda>p m s. s = p @ m)
        (IssueJWT (\<lambda>k m. k @ m) \<lparr>kp_Private = replicate 32 (CHR ''k''), kp_Public = replicate 32 (CHR ''k'')\<rparr>
          \<lparr>c_Issuer = ''s'', c_IssuedAt = 1, c_ExpiresAt = 9, c_RoomID = ''r1'', c_ViewerID = ''v1'',
           c_SessionSeconds = 8\<rparr>) (replicate 32 (CHR ''k'')) (9 * Second) = Inr
          \<lparr>c_Issuer = ''s'', c_IssuedAt = 1, c_ExpiresAt = 9, c_RoomID = ''r1'', c_ViewerID = ''v1'',
           c_SessionSeconds = 8\<rparr>)"
  using expiry_boundary
    [of "\<lambda>p m s. s = p @ m"
        "\<lparr>kp_Private = replicate 32 (CHR ''k''), kp_Public = replicate 32 (CHR ''k'')\<rparr>" "\<lambda>k m. k @ m"
        "\<lparr>c_Issuer = ''s'', c_IssuedAt = 1, c_ExpiresAt = 9, c_RoomID = ''r1'', c_ViewerID = ''v1'',
           c_SessionSeconds = 8\<rparr>" "9 * Second"]
  by (simp add: PublicKeySize_def claims_int64_def in_int64_def int64_min_def int64_max_def
      Unix_def Second_def)

end
