(* ===== verification/Session.thy ===== *)
theory Session
  imports Core Jwt
begin

text \<open>
  The session manager of the host (\<^verbatim>\<open>playgate-host/internal/session/session.go\<close> and
  \<^verbatim>\<open>event.go\<close>): who holds the controller, the FIFO wait list behind it, session deadlines,
  idle kicks, the gates that let a viewer's commands through, and the lifecycle events.

  Session entries, gate handles and subscriber channels are heap objects in the source; here
  they live in lists and a pointer is an index. A critical section under \<^verbatim>\<open>Manager.mu\<close> is one
  operation. What the code does outside of it is a step of its own: the calls of
  \<^verbatim>\<open>endSession\<close> that \<^verbatim>\<open>Release\<close>, \<^verbatim>\<open>KickCurrentController\<close>, the watcher goroutine and the idle
  timer make after having let go of the lock are \<open>pending\<close> until they take it, and the goroutine
  of a gate has a program counter with one step for each access to shared state.
\<close>

section \<open>Data\<close>

datatype EventKind = EventGranted | EventExpired | EventIdleKicked | EventQueued | EventTick

record SessionEvent =
  se_Kind :: EventKind
  se_ViewerID :: string
  se_RemainingSeconds :: int
  se_QueuePosition :: int
  se_Ts :: int

definition newEvent :: "instant \<Rightarrow> EventKind \<Rightarrow> string \<Rightarrow> int \<Rightarrow> int \<Rightarrow> SessionEvent" where
  "newEvent now kind viewerID remaining queuePos =
     \<lparr>se_Kind = kind, se_ViewerID = viewerID, se_RemainingSeconds = remaining,
      se_QueuePosition = queuePos, se_Ts = Unix now\<rparr>"

datatype Policy = PolicyQueue | PolicyReject

record Config =
  cfg_RoomID :: string
  cfg_IdleTimeout :: duration
  cfg_TickInterval :: duration
  cfg_QueuePolicy :: Policy
  cfg_MaxQueueDepth :: int

definition tickInterval :: "Config \<Rightarrow> duration" where
  "tickInterval c = (if cfg_TickInterval c \<ge> 100 * Millisecond then cfg_TickInterval c else Second)"

text \<open>
  An idle timer (\<^verbatim>\<open>time.AfterFunc\<close>) is armed for an instant, or has fired and runs again only
  after a \<^verbatim>\<open>Reset\<close>. A context is its cancelled flag and its optional deadline.
\<close>

datatype timer = Armed instant | Fired

text \<open>Where the watcher goroutine of an entry is; a queued entry has none.\<close>

datatype watch_pc = NotStarted | Watching | Ticking int | WatchReturned

record sessionEntry =
  e_viewerID :: string
  e_claims :: Claims
  e_cancelled :: bool
  e_deadline :: "instant option"
  e_idleTimer :: "timer option"
  e_idleDuration :: duration
  e_gatesDone :: bool
  e_gates :: "nat list"
  e_watch :: watch_pc

definition ctx_done :: "instant \<Rightarrow> sessionEntry \<Rightarrow> bool" where
  "ctx_done now e \<longleftrightarrow> e_cancelled e \<or> (case e_deadline e of None \<Rightarrow> False | Some d \<Rightarrow> d \<le> now)"

text \<open>Where the goroutine of a gate is, with the values it holds.\<close>

datatype gate_pc = AtSelect | Got InputCommand | Found InputCommand "nat option"
  | Touched InputCommand | Checked InputCommand bool | Returned

record gateHandle =
  g_viewerID :: string
  g_ch :: "InputCommand chan"
  g_done :: "unit chan"
  g_closed :: bool
  g_pc :: gate_pc

record Manager =
  m_cfg :: Config
  m_pubKey :: string
  m_active :: "nat option"
  m_queue :: "nat list"
  m_eventsOut :: "SessionEvent chan"
  m_stopped :: bool
  m_subscribers :: "nat list"
  m_entries :: "sessionEntry list"
  m_gates :: "gateHandle list"
  m_subChans :: "SessionEvent chan list"

definition NewManager :: "Config \<Rightarrow> string \<Rightarrow> Manager" where
  "NewManager cfg pk =
     \<lparr>m_cfg = cfg, m_pubKey = pk, m_active = None, m_queue = [], m_eventsOut = make_chan 64,
      m_stopped = False, m_subscribers = [], m_entries = [], m_gates = [], m_subChans = []\<rparr>"

abbreviation entry :: "Manager \<Rightarrow> nat \<Rightarrow> sessionEntry" where
  "entry m p \<equiv> m_entries m ! p"

abbreviation gate :: "Manager \<Rightarrow> nat \<Rightarrow> gateHandle" where
  "gate m i \<equiv> m_gates m ! i"

definition upd_entry :: "nat \<Rightarrow> (sessionEntry \<Rightarrow> sessionEntry) \<Rightarrow> Manager \<Rightarrow> Manager" where
  "upd_entry p f m = m\<lparr>m_entries := (m_entries m)[p := f (m_entries m ! p)]\<rparr>"

definition upd_gate :: "nat \<Rightarrow> (gateHandle \<Rightarrow> gateHandle) \<Rightarrow> Manager \<Rightarrow> Manager" where
  "upd_gate i f m = m\<lparr>m_gates := (m_gates m)[i := f (m_gates m ! i)]\<rparr>"

section \<open>Operations\<close>

definition gate_close :: "gateHandle \<Rightarrow> gateHandle" where
  "gate_close g =
     (if \<not> g_closed g
      then g\<lparr>g_ch := close_chan (g_ch g), g_done := close_chan (g_done g), g_closed := True\<rparr>
      else g)"

definition closeGates :: "nat \<Rightarrow> Manager \<Rightarrow> Manager" where
  "closeGates p m =
     (let m1 = upd_entry p (\<lambda>e. e\<lparr>e_gatesDone := True\<rparr>) m;
          m2 = fold (\<lambda>h. upd_gate h gate_close) (e_gates (entry m1 p)) m1
      in upd_entry p (\<lambda>e. e\<lparr>e_gates := []\<rparr>) m2)"

definition cancel :: "nat \<Rightarrow> Manager \<Rightarrow> Manager" where
  "cancel p = upd_entry p (\<lambda>e. e\<lparr>e_cancelled := True\<rparr>)"

definition touchIdle :: "instant \<Rightarrow> sessionEntry \<Rightarrow> sessionEntry" where
  "touchIdle now e =
     (case e_idleTimer e of
        None \<Rightarrow> e
      | Some _ \<Rightarrow> e\<lparr>e_idleTimer := Some (Armed (now + e_idleDuration e))\<rparr>)"

definition emitEvent :: "SessionEvent \<Rightarrow> Manager \<Rightarrow> Manager" where
  "emitEvent ev m =
     (if m_stopped m then m
      else m\<lparr>m_eventsOut := try_send ev (m_eventsOut m),
             m_subChans := map (\<lambda>i. if i \<in> set (m_subscribers m)
                                    then try_send ev (m_subChans m ! i) else m_subChans m ! i)
                             [0..<length (m_subChans m)]\<rparr>)"

definition Subscribe :: "Manager \<Rightarrow> Manager \<times> nat" where
  "Subscribe m =
     (m\<lparr>m_subChans := m_subChans m @ [make_chan 64],
        m_subscribers := m_subscribers m @ [length (m_subChans m)]\<rparr>, length (m_subChans m))"

text \<open>The returned unsubscribe function; \<^verbatim>\<open>sync.Once\<close> makes a second call do nothing.\<close>

definition unsubscribe :: "nat \<Rightarrow> Manager \<Rightarrow> Manager" where
  "unsubscribe i m =
     (if i \<in> set (m_subscribers m)
      then m\<lparr>m_subscribers := removeAll i (m_subscribers m),
             m_subChans := (m_subChans m)[i := close_chan (m_subChans m ! i)]\<rparr>
      else m)"

definition CurrentViewerID :: "Manager \<Rightarrow> string" where
  "CurrentViewerID m = (case m_active m of None \<Rightarrow> [] | Some p \<Rightarrow> e_viewerID (entry m p))"

definition findEntryLocked :: "Manager \<Rightarrow> string \<Rightarrow> nat option" where
  "findEntryLocked m viewerID =
     (case m_active m of
        Some p \<Rightarrow>
          if e_viewerID (entry m p) = viewerID then Some p
          else find (\<lambda>q. e_viewerID (entry m q) = viewerID) (m_queue m)
      | None \<Rightarrow> find (\<lambda>q. e_viewerID (entry m q) = viewerID) (m_queue m))"

text \<open>The entries \<^verbatim>\<open>startSessionLocked\<close> and \<^verbatim>\<open>enqueueLocked\<close> build.\<close>

definition started_entry :: "instant \<Rightarrow> Config \<Rightarrow> Claims \<Rightarrow> sessionEntry" where
  "started_entry now cfg c =
     (let dur = seconds (c_SessionSeconds c); idle = cfg_IdleTimeout cfg
      in \<lparr>e_viewerID = c_ViewerID c, e_claims = c, e_cancelled = False,
          e_deadline = Some (now + dur),
          e_idleTimer = (if idle > 0 then Some (Armed (now + idle)) else None),
          e_idleDuration = (if idle > 0 then idle else 0),
          e_gatesDone = False, e_gates = [], e_watch = Watching\<rparr>)"

definition queued_entry :: "Claims \<Rightarrow> sessionEntry" where
  "queued_entry c =
     \<lparr>e_viewerID = c_ViewerID c, e_claims = c, e_cancelled = False, e_deadline = None,
      e_idleTimer = None, e_idleDuration = 0, e_gatesDone = False, e_gates = [],
      e_watch = NotStarted\<rparr>"

definition startSessionLocked :: "instant \<Rightarrow> Claims \<Rightarrow> Manager \<Rightarrow> Manager \<times> nat" where
  "startSessionLocked now c m =
     (let p = length (m_entries m);
          m1 = m\<lparr>m_entries := m_entries m @ [started_entry now (m_cfg m) c], m_active := Some p\<rparr>
      in (emitEvent (newEvent now EventGranted (c_ViewerID c) (c_SessionSeconds c) 0) m1, p))"

definition enqueueLocked :: "instant \<Rightarrow> Claims \<Rightarrow> Manager \<Rightarrow> Manager \<times> nat" where
  "enqueueLocked now c m =
     (let p = length (m_entries m);
          m1 = m\<lparr>m_entries := m_entries m @ [queued_entry c], m_queue := m_queue m @ [p]\<rparr>
      in (emitEvent (newEvent now EventQueued (c_ViewerID c) 0 (int (length (m_queue m1)))) m1, p))"

datatype claim_error = ClaimJWT jwt_error | RoomMismatch string string
  | ErrControllerActive | ErrQueueFull

text \<open>
  \<^verbatim>\<open>Claim\<close> returns the manager and, on success, the entry the caller's \<^verbatim>\<open>*Session\<close> points to.
\<close>

definition Claim ::
    "verify_fun \<Rightarrow> instant \<Rightarrow> string \<Rightarrow> Manager \<Rightarrow> Manager \<times> (claim_error + nat)" where
  "Claim verify now token m =
     (case ParseAndVerify verify token (m_pubKey m) now of
        Inl err \<Rightarrow> (m, Inl (ClaimJWT err))
      | Inr c \<Rightarrow>
          if c_RoomID c \<noteq> cfg_RoomID (m_cfg m)
          then (m, Inl (RoomMismatch (c_RoomID c) (cfg_RoomID (m_cfg m))))
          else if m_active m = None then
            (let (m', p) = startSessionLocked now c m in (m', Inr p))
          else if cfg_QueuePolicy (m_cfg m) = PolicyReject then (m, Inl ErrControllerActive)
          else if cfg_MaxQueueDepth (m_cfg m) > 0
                  \<and> int (length (m_queue m)) \<ge> cfg_MaxQueueDepth (m_cfg m)
          then (m, Inl ErrQueueFull)
          else (let (m', p) = enqueueLocked now c m in (m', Inr p)))"

text \<open>The second half of \<^verbatim>\<open>endSession\<close>: the head of the wait list gets a fresh timed entry.\<close>

definition promote :: "instant \<Rightarrow> Manager \<Rightarrow> Manager" where
  "promote now m =
     (case m_queue m of
        [] \<Rightarrow> m
      | next # rest \<Rightarrow>
          (let m1 = cancel next (m\<lparr>m_queue := rest\<rparr>);
               (m2, nextSess) = startSessionLocked now (e_claims (entry m1 next)) m1;
               m3 = upd_entry nextSess (\<lambda>e. e\<lparr>e_gates := e_gates (entry m2 next)\<rparr>) m2
           in upd_entry next (\<lambda>e. e\<lparr>e_gates := []\<rparr>) m3))"

definition endSession :: "instant \<Rightarrow> nat \<Rightarrow> EventKind \<Rightarrow> Manager \<Rightarrow> Manager" where
  "endSession now p kind m =
     (if m_active m \<noteq> Some p then m
      else (let m1 = upd_entry p (\<lambda>e. e\<lparr>e_idleTimer := None\<rparr>) m;
                m2 = cancel p m1;
                m3 = closeGates p m2;
                m4 = m3\<lparr>m_active := None\<rparr>;
                m5 = emitEvent (newEvent now kind (e_viewerID (entry m4 p)) 0 0) m4
            in promote now m5))"

text \<open>
  The locked part of \<^verbatim>\<open>Release\<close>, and the call of \<^verbatim>\<open>endSession\<close> it makes afterwards, if any;
  likewise for \<^verbatim>\<open>KickCurrentController\<close>.
\<close>

definition Release_locked :: "nat \<Rightarrow> Manager \<Rightarrow> Manager \<times> (nat \<times> EventKind) option" where
  "Release_locked p m =
     (if m_active m = Some p then (m, Some (p, EventExpired))
      else if p \<in> set (m_queue m)
      then (closeGates p (cancel p (m\<lparr>m_queue := remove1 p (m_queue m)\<rparr>)), None)
      else (m, None))"

definition end_call :: "instant \<Rightarrow> Manager \<times> (nat \<times> EventKind) option \<Rightarrow> Manager" where
  "end_call now r = (case r of (m, None) \<Rightarrow> m | (m, Some (p, k)) \<Rightarrow> endSession now p k m)"

definition Release :: "instant \<Rightarrow> nat \<Rightarrow> Manager \<Rightarrow> Manager" where
  "Release now p m = end_call now (Release_locked p m)"

definition Kick_locked :: "Manager \<Rightarrow> (nat \<times> EventKind) option" where
  "Kick_locked m = map_option (\<lambda>p. (p, EventIdleKicked)) (m_active m)"

definition KickCurrentController :: "instant \<Rightarrow> Manager \<Rightarrow> Manager" where
  "KickCurrentController now m = end_call now (m, Kick_locked m)"

text \<open>
  \<^verbatim>\<open>Gate\<close> up to the start of its goroutine: the handle is registered with the viewer's entry,
  or, without one, the returned channel is closed at once and there is no goroutine.
\<close>

definition Gate :: "string \<Rightarrow> Manager \<Rightarrow> Manager \<times> nat" where
  "Gate viewerID m =
     (let i = length (m_gates m);
          h = \<lparr>g_viewerID = viewerID, g_ch = make_chan 8, g_done = make_chan 0,
               g_closed = False, g_pc = AtSelect\<rparr>
      in case findEntryLocked m viewerID of
           Some p \<Rightarrow>
             if \<not> e_gatesDone (entry m p)
             then (upd_entry p (\<lambda>e. e\<lparr>e_gates := e_gates e @ [i]\<rparr>)
                     (m\<lparr>m_gates := m_gates m @ [h]\<rparr>), i)
             else (m\<lparr>m_gates := m_gates m @ [h\<lparr>g_ch := close_chan (make_chan 8), g_pc := Returned\<rparr>]\<rparr>, i)
         | None \<Rightarrow>
             (m\<lparr>m_gates := m_gates m @ [h\<lparr>g_ch := close_chan (make_chan 8), g_pc := Returned\<rparr>]\<rparr>, i))"

text \<open>Commands still reach a gate that is neither closed nor returned.\<close>

definition gate_open :: "gateHandle \<Rightarrow> bool" where
  "gate_open g \<longleftrightarrow> \<not> ch_closed (g_ch g)"

text \<open>The steps of the goroutine of gate \<open>i\<close>, in the order of its loop body.\<close>

definition gate_recv :: "nat \<Rightarrow> InputCommand \<Rightarrow> Manager \<Rightarrow> Manager option" where
  "gate_recv i cmd m =
     (if g_pc (gate m i) = AtSelect then Some (upd_gate i (\<lambda>g. g\<lparr>g_pc := Got cmd\<rparr>) m) else None)"

definition gate_return :: "nat \<Rightarrow> Manager \<Rightarrow> Manager option" where
  "gate_return i m =
     (if g_pc (gate m i) = AtSelect
      then Some (upd_gate i (\<lambda>g. (gate_close g)\<lparr>g_pc := Returned\<rparr>) m) else None)"

definition gate_find :: "nat \<Rightarrow> Manager \<Rightarrow> Manager option" where
  "gate_find i m =
     (case g_pc (gate m i) of
        Got cmd \<Rightarrow> Some (upd_gate i (\<lambda>g. g\<lparr>g_pc := Found cmd (findEntryLocked m (g_viewerID g))\<rparr>) m)
      | _ \<Rightarrow> None)"

definition gate_touch :: "instant \<Rightarrow> nat \<Rightarrow> Manager \<Rightarrow> Manager option" where
  "gate_touch now i m =
     (case g_pc (gate m i) of
        Found cmd cur \<Rightarrow>
          Some (upd_gate i (\<lambda>g. g\<lparr>g_pc := Touched cmd\<rparr>)
                 (case cur of None \<Rightarrow> m | Some p \<Rightarrow> upd_entry p (touchIdle now) m))
      | _ \<Rightarrow> None)"

definition gate_check :: "nat \<Rightarrow> Manager \<Rightarrow> Manager option" where
  "gate_check i m =
     (case g_pc (gate m i) of
        Touched cmd \<Rightarrow>
          (let isActive = (case m_active m of
                 None \<Rightarrow> False
               | Some p \<Rightarrow> e_viewerID (entry m p) = g_viewerID (gate m i))
           in Some (upd_gate i (\<lambda>g. g\<lparr>g_pc := Checked cmd isActive\<rparr>) m))
      | _ \<Rightarrow> None)"

definition gate_forward :: "nat \<Rightarrow> Manager \<Rightarrow> Manager option" where
  "gate_forward i m =
     (case g_pc (gate m i) of
        Checked cmd isActive \<Rightarrow>
          Some (upd_gate i (\<lambda>g. (if isActive \<and> \<not> g_closed g then g\<lparr>g_ch := try_send cmd (g_ch g)\<rparr>
                                 else g)\<lparr>g_pc := AtSelect\<rparr>) m)
      | _ \<Rightarrow> None)"

text \<open>
  One tick of \<^verbatim>\<open>watchSession\<close>: \<^verbatim>\<open>int(time.Until(deadline).Seconds())\<close>, not below zero, and the
  check that the entry still holds control; then, under the lock again, the event. The third
  operation is the case of the finished context, which goes on to call \<^verbatim>\<open>endSession\<close>.
\<close>

definition watch_tick :: "instant \<Rightarrow> nat \<Rightarrow> Manager \<Rightarrow> Manager option" where
  "watch_tick now p m =
     (if e_watch (entry m p) \<noteq> Watching then None
      else case e_deadline (entry m p) of
             None \<Rightarrow> Some m
           | Some d \<Rightarrow>
               (let remaining = max 0 (go_div (d - now) Second)
                in if m_active m = Some p
                   then Some (upd_entry p (\<lambda>e. e\<lparr>e_watch := Ticking remaining\<rparr>) m)
                   else Some m))"

definition watch_emit :: "instant \<Rightarrow> nat \<Rightarrow> Manager \<Rightarrow> Manager option" where
  "watch_emit now p m =
     (case e_watch (entry m p) of
        Ticking remaining \<Rightarrow>
          Some (upd_entry p (\<lambda>e. e\<lparr>e_watch := Watching\<rparr>)
                 (emitEvent (newEvent now EventTick (e_viewerID (entry m p)) remaining 0) m))
      | _ \<Rightarrow> None)"

definition watch_done :: "instant \<Rightarrow> nat \<Rightarrow> Manager \<Rightarrow> (Manager \<times> nat \<times> EventKind) option" where
  "watch_done now p m =
     (if e_watch (entry m p) = Watching \<and> ctx_done now (entry m p)
      then Some (upd_entry p (\<lambda>e. e\<lparr>e_watch := WatchReturned\<rparr>) m, p, EventExpired)
      else None)"

text \<open>The idle timer fires: its function runs in a goroutine and calls \<^verbatim>\<open>endSession\<close>.\<close>

definition idle_fire :: "instant \<Rightarrow> nat \<Rightarrow> Manager \<Rightarrow> (Manager \<times> nat \<times> EventKind) option" where
  "idle_fire now p m =
     (case e_idleTimer (entry m p) of
        Some (Armed t) \<Rightarrow>
          if t \<le> now
          then Some (upd_entry p (\<lambda>e. e\<lparr>e_idleTimer := Some Fired\<rparr>) m, p, EventIdleKicked)
          else None
      | _ \<Rightarrow> None)"

text \<open>\<^verbatim>\<open>Run\<close> after its context is cancelled: the locked part; then \<^verbatim>\<open>close(m.eventsOut)\<close>.\<close>

definition Run_locked :: "Manager \<Rightarrow> Manager" where
  "Run_locked m =
     (let m1 = m\<lparr>m_stopped := True\<rparr>;
          m2 = (case m_active m1 of None \<Rightarrow> m1 | Some p \<Rightarrow> closeGates p (cancel p m1))
      in fold (\<lambda>p m. closeGates p (cancel p m)) (m_queue m2) m2)"

definition Run_close :: "Manager \<Rightarrow> Manager" where
  "Run_close m = m\<lparr>m_eventsOut := close_chan (m_eventsOut m)\<rparr>"

section \<open>The manager among its goroutines\<close>

datatype run_pc = RunWaiting | RunClosing | RunReturned

text \<open>
  The manager, the clock, the calls of \<^verbatim>\<open>endSession\<close> on their way, and where \<^verbatim>\<open>Run\<close> is.
\<close>

record sess_state =
  st_m :: Manager
  st_now :: instant
  st_pending :: "(nat \<times> EventKind) list"
  st_run :: run_pc

definition sess_init :: "Config \<Rightarrow> string \<Rightarrow> instant \<Rightarrow> sess_state" where
  "sess_init cfg pk now =
     \<lparr>st_m = NewManager cfg pk, st_now = now, st_pending = [], st_run = RunWaiting\<rparr>"

datatype action = AClaim string | ARelease nat | AKick | AGate string
  | ARecv nat InputCommand | AReturn nat | AFind nat | ATouch nat | ACheck nat | AForward nat
  | ADrain nat | ATick nat | ATickEmit nat | AWatchDone nat | AIdleFire nat | AEndSession nat
  | AAdvance nat | ASubscribe | AUnsubscribe nat | AEventsDrain | ASubDrain nat
  | ARunStop | ARunClose

abbreviation set_m :: "sess_state \<Rightarrow> Manager \<Rightarrow> sess_state" where
  "set_m s m \<equiv> s\<lparr>st_m := m\<rparr>"

definition call_end :: "sess_state \<Rightarrow> Manager \<Rightarrow> nat \<times> EventKind \<Rightarrow> sess_state" where
  "call_end s m pk = s\<lparr>st_m := m, st_pending := st_pending s @ [pk]\<rparr>"

text \<open>One step; \<^const>\<open>None\<close> when the action is not enabled.\<close>

fun sess_step :: "verify_fun \<Rightarrow> action \<Rightarrow> sess_state \<Rightarrow> sess_state option" where
  "sess_step v (AClaim token) s = Some (set_m s (fst (Claim v (st_now s) token (st_m s))))"
| "sess_step v (ARelease p) s =
     (if p < length (m_entries (st_m s))
      then (case Release_locked p (st_m s) of
              (m, Some c) \<Rightarrow> Some (call_end s m c)
            | (m, None) \<Rightarrow> Some (set_m s m))
      else None)"
| "sess_step v AKick s =
     (case Kick_locked (st_m s) of
        Some c \<Rightarrow> Some (call_end s (st_m s) c)
      | None \<Rightarrow> Some s)"
| "sess_step v (AGate vid) s = Some (set_m s (fst (Gate vid (st_m s))))"
| "sess_step v (ARecv i cmd) s =
     (if i < length (m_gates (st_m s)) then map_option (set_m s) (gate_recv i cmd (st_m s)) else None)"
| "sess_step v (AReturn i) s =
     (if i < length (m_gates (st_m s)) then map_option (set_m s) (gate_return i (st_m s)) else None)"
| "sess_step v (AFind i) s =
     (if i < length (m_gates (st_m s)) then map_option (set_m s) (gate_find i (st_m s)) else None)"
| "sess_step v (ATouch i) s =
     (if i < length (m_gates (st_m s)) then map_option (set_m s) (gate_touch (st_now s) i (st_m s))
      else None)"
| "sess_step v (ACheck i) s =
     (if i < length (m_gates (st_m s)) then map_option (set_m s) (gate_check i (st_m s)) else None)"
| "sess_step v (AForward i) s =
     (if i < length (m_gates (st_m s)) then map_option (set_m s) (gate_forward i (st_m s)) else None)"
| "sess_step v (ADrain i) s =
     (if i < length (m_gates (st_m s))
      then Some (set_m s (upd_gate i (\<lambda>g. g\<lparr>g_ch := drop_one (g_ch g)\<rparr>) (st_m s))) else None)"
| "sess_step v (ATick p) s =
     (if p < length (m_entries (st_m s)) then map_option (set_m s) (watch_tick (st_now s) p (st_m s))
      else None)"
| "sess_step v (ATickEmit p) s =
     (if p < length (m_entries (st_m s)) then map_option (set_m s) (watch_emit (st_now s) p (st_m s))
      else None)"
| "sess_step v (AWatchDone p) s =
     (if p < length (m_entries (st_m s))
      then map_option (\<lambda>(m, c). call_end s m c) (watch_done (st_now s) p (st_m s)) else None)"
| "sess_step v (AIdleFire p) s =
     (if p < length (m_entries (st_m s))
      then map_option (\<lambda>(m, c). call_end s m c) (idle_fire (st_now s) p (st_m s)) else None)"
| "sess_step v (AEndSession k) s =
     (if k < length (st_pending s)
      then (let (p, kind) = st_pending s ! k
            in Some (s\<lparr>st_m := endSession (st_now s) p kind (st_m s),
                       st_pending := take k (st_pending s) @ drop (Suc k) (st_pending s)\<rparr>))
      else None)"
| "sess_step v (AAdvance d) s = Some (s\<lparr>st_now := st_now s + int d\<rparr>)"
| "sess_step v ASubscribe s = Some (set_m s (fst (Subscribe (st_m s))))"
| "sess_step v (AUnsubscribe i) s =
     (if i < length (m_subChans (st_m s)) then Some (set_m s (unsubscribe i (st_m s))) else None)"
| "sess_step v AEventsDrain s =
     Some (set_m s ((st_m s)\<lparr>m_eventsOut := drop_one (m_eventsOut (st_m s))\<rparr>))"
| "sess_step v (ASubDrain i) s =
     (if i < length (m_subChans (st_m s))
      then Some (set_m s ((st_m s)\<lparr>m_subChans :=
             (m_subChans (st_m s))[i := drop_one (m_subChans (st_m s) ! i)]\<rparr>)) else None)"
| "sess_step v ARunStop s =
     (if st_run s = RunWaiting
      then Some (s\<lparr>st_m := Run_locked (st_m s), st_run := RunClosing\<rparr>) else None)"
| "sess_step v ARunClose s =
     (if st_run s = RunClosing
      then Some (s\<lparr>st_m := Run_close (st_m s), st_run := RunReturned\<rparr>) else None)"

text \<open>The states a manager can get into, whatever the goroutines, the clock and the callers do.\<close>

inductive sess_reachable :: "verify_fun \<Rightarrow> Config \<Rightarrow> string \<Rightarrow> sess_state \<Rightarrow> bool"
  for v cfg pk where
  init: "sess_reachable v cfg pk (sess_init cfg pk now)"
| step: "sess_reachable v cfg pk s \<Longrightarrow> sess_step v a s = Some s' \<Longrightarrow> sess_reachable v cfg pk s'"

fun sess_run :: "verify_fun \<Rightarrow> action list \<Rightarrow> sess_state \<Rightarrow> sess_state option" where
  "sess_run v [] s = Some s"
| "sess_run v (a # as) s = Option.bind (sess_step v a s) (sess_run v as)"

lemma sess_run_reachable:
  "sess_reachable v cfg pk s \<Longrightarrow> sess_run v as s = Some s' \<Longrightarrow> sess_reachable v cfg pk s'"
  by (induction as arbitrary: s) (auto split: bind_splits intro: sess_reachable.step)

end
