(* ===== verification/SessionInv.thy ===== *)
theory SessionInv
  imports Session
begin

text \<open>
  The invariants of the session manager and their preservation by every operation and every
  step of its goroutines.
\<close>

section \<open>Effects of the operations on the parts of the state\<close>

lemma emitEvent_sel [simp]:
  "m_cfg (emitEvent ev m) = m_cfg m" "m_pubKey (emitEvent ev m) = m_pubKey m"
  "m_active (emitEvent ev m) = m_active m" "m_queue (emitEvent ev m) = m_queue m"
  "m_stopped (emitEvent ev m) = m_stopped m" "m_subscribers (emitEvent ev m) = m_subscribers m"
  "m_entries (emitEvent ev m) = m_entries m" "m_gates (emitEvent ev m) = m_gates m"
  "length (m_subChans (emitEvent ev m)) = length (m_subChans m)"
  by (simp_all add: emitEvent_def)

lemma upd_entry_sel [simp]:
  "m_cfg (upd_entry p f m) = m_cfg m" "m_pubKey (upd_entry p f m) = m_pubKey m"
  "m_active (upd_entry p f m) = m_active m" "m_queue (upd_entry p f m) = m_queue m"
  "m_stopped (upd_entry p f m) = m_stopped m" "m_subscribers (upd_entry p f m) = m_subscribers m"
  "m_gates (upd_entry p f m) = m_gates m" "m_subChans (upd_entry p f m) = m_subChans m"
  "m_eventsOut (upd_entry p f m) = m_eventsOut m"
  "length (m_entries (upd_entry p f m)) = length (m_entries m)"
  by (simp_all add: upd_entry_def)

lemma entry_upd_entry [simp]:
  "q < length (m_entries m) \<Longrightarrow>
   entry (upd_entry p f m) q = (if q = p then f (entry m q) else entry m q)"
  by (auto simp: upd_entry_def nth_list_update)

lemma upd_gate_sel [simp]:
  "m_cfg (upd_gate i f m) = m_cfg m" "m_pubKey (upd_gate i f m) = m_pubKey m"
  "m_active (upd_gate i f m) = m_active m" "m_queue (upd_gate i f m) = m_queue m"
  "m_stopped (upd_gate i f m) = m_stopped m" "m_subscribers (upd_gate i f m) = m_subscribers m"
  "m_entries (upd_gate i f m) = m_entries m" "m_subChans (upd_gate i f m) = m_subChans m"
  "m_eventsOut (upd_gate i f m) = m_eventsOut m"
  "length (m_gates (upd_gate i f m)) = length (m_gates m)"
  by (simp_all add: upd_gate_def)

lemma gate_upd_gate [simp]:
  "j < length (m_gates m) \<Longrightarrow>
   gate (upd_gate i f m) j = (if j = i then f (gate m j) else gate m j)"
  by (auto simp: upd_gate_def nth_list_update)

lemma gate_close_idem [simp]: "gate_close (gate_close g) = gate_close g"
  by (simp add: gate_close_def)

lemma gate_close_sel [simp]:
  "g_viewerID (gate_close g) = g_viewerID g" "g_pc (gate_close g) = g_pc g" "g_closed (gate_close g)"
  by (simp_all add: gate_close_def)

lemma fold_close_sel [simp]:
  "m_cfg (fold (\<lambda>h. upd_gate h gate_close) hs m) = m_cfg m"
  "m_pubKey (fold (\<lambda>h. upd_gate h gate_close) hs m) = m_pubKey m"
  "m_active (fold (\<lambda>h. upd_gate h gate_close) hs m) = m_active m"
  "m_queue (fold (\<lambda>h. upd_gate h gate_close) hs m) = m_queue m"
  "m_stopped (fold (\<lambda>h. upd_gate h gate_close) hs m) = m_stopped m"
  "m_subscribers (fold (\<lambda>h. upd_gate h gate_close) hs m) = m_subscribers m"
  "m_entries (fold (\<lambda>h. upd_gate h gate_close) hs m) = m_entries m"
  "m_subChans (fold (\<lambda>h. upd_gate h gate_close) hs m) = m_subChans m"
  "m_eventsOut (fold (\<lambda>h. upd_gate h gate_close) hs m) = m_eventsOut m"
  "length (m_gates (fold (\<lambda>h. upd_gate h gate_close) hs m)) = length (m_gates m)"
  by (induction hs arbitrary: m) simp_all

lemma fold_close_gate:
  "j < length (m_gates m) \<Longrightarrow>
   gate (fold (\<lambda>h. upd_gate h gate_close) hs m) j =
     (if j \<in> set hs then gate_close (gate m j) else gate m j)"
  by (induction hs arbitrary: m) auto

lemma closeGates_sel [simp]:
  "m_cfg (closeGates p m) = m_cfg m" "m_pubKey (closeGates p m) = m_pubKey m"
  "m_active (closeGates p m) = m_active m" "m_queue (closeGates p m) = m_queue m"
  "m_stopped (closeGates p m) = m_stopped m" "m_subscribers (closeGates p m) = m_subscribers m"
  "m_subChans (closeGates p m) = m_subChans m" "m_eventsOut (closeGates p m) = m_eventsOut m"
  "length (m_gates (closeGates p m)) = length (m_gates m)"
  "length (m_entries (closeGates p m)) = length (m_entries m)"
  by (simp_all add: closeGates_def Let_def)

lemma closeGates_entry [simp]:
  "q < length (m_entries m) \<Longrightarrow>
   entry (closeGates p m) q =
     (if q = p then (entry m q)\<lparr>e_gatesDone := True, e_gates := []\<rparr> else entry m q)"
  by (simp add: closeGates_def Let_def)

lemma closeGates_gate [simp]:
  "p < length (m_entries m) \<Longrightarrow> j < length (m_gates m) \<Longrightarrow>
   gate (closeGates p m) j =
     (if j \<in> set (e_gates (entry m p)) then gate_close (gate m j) else gate m j)"
  by (simp add: closeGates_def Let_def fold_close_gate)

lemma cancel_sel [simp]:
  "m_cfg (cancel p m) = m_cfg m" "m_pubKey (cancel p m) = m_pubKey m"
  "m_active (cancel p m) = m_active m" "m_queue (cancel p m) = m_queue m"
  "m_stopped (cancel p m) = m_stopped m" "m_subscribers (cancel p m) = m_subscribers m"
  "m_gates (cancel p m) = m_gates m" "m_subChans (cancel p m) = m_subChans m"
  "m_eventsOut (cancel p m) = m_eventsOut m"
  "length (m_entries (cancel p m)) = length (m_entries m)"
  "q < length (m_entries m) \<Longrightarrow>
   entry (cancel p m) q = (if q = p then (entry m q)\<lparr>e_cancelled := True\<rparr> else entry m q)"
  by (simp_all add: cancel_def)

section \<open>The entries in play\<close>

text \<open>The controller first, then the wait list: the order in which an entry is looked up.\<close>

definition live :: "Manager \<Rightarrow> nat list" where
  "live m = (case m_active m of None \<Rightarrow> [] | Some p \<Rightarrow> [p]) @ m_queue m"

lemma findEntry_live:
  "findEntryLocked m v = find (\<lambda>q. e_viewerID (entry m q) = v) (live m)"
  by (simp add: findEntryLocked_def live_def split: option.splits)

lemma findEntry_cong:
  "m_active m' = m_active m \<Longrightarrow> m_queue m' = m_queue m \<Longrightarrow> m_entries m' = m_entries m \<Longrightarrow>
   findEntryLocked m' v = findEntryLocked m v"
  by (simp add: findEntry_live live_def)

definition gate_ok :: "gateHandle \<Rightarrow> bool" where
  "gate_ok g \<longleftrightarrow> chan_ok (g_ch g) \<and> chan_ok (g_done g) \<and> (g_closed g \<longrightarrow> ch_closed (g_ch g))
     \<and> (ch_closed (g_ch g) \<and> \<not> g_closed g \<longrightarrow> g_pc g = Returned) \<and> (\<not> g_closed g \<longrightarrow> \<not> ch_closed (g_done g))"

definition entry_ok :: "Manager \<Rightarrow> sessionEntry \<Rightarrow> bool" where
  "entry_ok m e \<longleftrightarrow> e_viewerID e = c_ViewerID (e_claims e) \<and> c_ViewerID (e_claims e) \<noteq> []
     \<and> c_RoomID (e_claims e) = cfg_RoomID (m_cfg m) \<and> 0 < c_SessionSeconds (e_claims e)
     \<and> (\<forall>i \<in> set (e_gates e). i < length (m_gates m)
           \<and> g_viewerID (m_gates m ! i) = c_ViewerID (e_claims e)
           \<and> (ch_closed (g_ch (m_gates m ! i)) \<longrightarrow> g_closed (m_gates m ! i)))"

definition entries_ok :: "Manager \<Rightarrow> bool" where
  "entries_ok m \<longleftrightarrow> (\<forall>q < length (m_entries m). entry_ok m (entry m q))"

definition live_ok :: "Manager \<Rightarrow> bool" where
  "live_ok m \<longleftrightarrow> distinct (live m) \<and> (\<forall>q \<in> set (live m). q < length (m_entries m))
     \<and> (m_active m = None \<longrightarrow> m_queue m = [])"

definition gates_ok :: "Manager \<Rightarrow> bool" where
  "gates_ok m \<longleftrightarrow> (\<forall>i < length (m_gates m). gate_ok (gate m i))"

text \<open>An open gate is registered with the entry its viewer is looked up by.\<close>

definition registered :: "Manager \<Rightarrow> bool" where
  "registered m \<longleftrightarrow> (\<forall>i < length (m_gates m). gate_open (gate m i) \<longrightarrow>
     (\<exists>p. findEntryLocked m (g_viewerID (gate m i)) = Some p \<and> i \<in> set (e_gates (entry m p))))"

text \<open>
  A goroutine that has seen its viewer in control and whose gate is still open: the gate belongs
  to the entry in control now.
\<close>

definition checked_ok :: "Manager \<Rightarrow> bool" where
  "checked_ok m \<longleftrightarrow> (\<forall>i < length (m_gates m). \<forall>c. g_pc (gate m i) = Checked c True \<longrightarrow>
     gate_open (gate m i) \<longrightarrow> (\<exists>p. m_active m = Some p \<and> i \<in> set (e_gates (entry m p))))"

definition bound_ok :: "Manager \<Rightarrow> bool" where
  "bound_ok m \<longleftrightarrow> (0 < cfg_MaxQueueDepth (m_cfg m) \<longrightarrow> int (length (m_queue m)) \<le> cfg_MaxQueueDepth (m_cfg m))
     \<and> (cfg_QueuePolicy (m_cfg m) = PolicyReject \<longrightarrow> m_queue m = [])"

definition core_inv :: "Manager \<Rightarrow> bool" where
  "core_inv m \<longleftrightarrow> entries_ok m \<and> live_ok m \<and> gates_ok m \<and> registered m \<and> checked_ok m \<and> bound_ok m"

lemmas core_defs = core_inv_def entries_ok_def live_ok_def gates_ok_def registered_def checked_ok_def
  bound_ok_def

lemma core_inv_cong:
  "m_cfg m' = m_cfg m \<Longrightarrow> m_active m' = m_active m \<Longrightarrow> m_queue m' = m_queue m \<Longrightarrow>
   m_entries m' = m_entries m \<Longrightarrow> m_gates m' = m_gates m \<Longrightarrow> core_inv m' = core_inv m"
  by (simp add: core_defs live_def findEntry_cong [of m' m] entry_ok_def)

lemma core_inv_emit [simp]: "core_inv (emitEvent ev m) = core_inv m"
  by (rule core_inv_cong) simp_all

lemma find_cong_pred: "(\<And>x. x \<in> set xs \<Longrightarrow> P x = Q x) \<Longrightarrow> find P xs = find Q xs"
  by (induction xs) auto

lemma gate_ok_close: "gate_ok g \<Longrightarrow> (ch_closed (g_ch g) \<longrightarrow> g_closed g) \<Longrightarrow> gate_ok (gate_close g)"
  by (auto simp: gate_ok_def gate_close_def chan_ok_def)

lemma gate_close_closed: "gate_ok g \<Longrightarrow> ch_closed (g_ch (gate_close g))"
  by (auto simp: gate_ok_def gate_close_def)

lemma gate_close_open: "gate_open (gate_close g) \<Longrightarrow> gate_open g"
  by (auto simp: gate_close_def gate_open_def split: if_splits)

section \<open>Preservation: updates of one gate or one entry\<close>

lemma core_inv_upd_gate:
  assumes inv: "core_inv m" and i: "i < length (m_gates m)"
    and f: "g_viewerID (f (gate m i)) = g_viewerID (gate m i)" "gate_ok (f (gate m i))"
      "gate_open (f (gate m i)) \<Longrightarrow> gate_open (gate m i)"
      "(ch_closed (g_ch (gate m i)) \<longrightarrow> g_closed (gate m i)) \<Longrightarrow>
       ch_closed (g_ch (f (gate m i))) \<Longrightarrow> g_closed (f (gate m i))"
      "\<And>c. g_pc (f (gate m i)) = Checked c True \<Longrightarrow> gate_open (gate m i) \<Longrightarrow>
         \<exists>p. m_active m = Some p \<and> i \<in> set (e_gates (entry m p))"
  shows "core_inv (upd_gate i f m)"
proof -
  let ?m = "upd_gate i f m"
  have find: "findEntryLocked ?m v = findEntryLocked m v" for v
    by (rule findEntry_cong) simp_all
  have "entries_ok ?m"
    unfolding entries_ok_def entry_ok_def
  proof (intro allI impI conjI ballI)
    fix q j assume q: "q < length (m_entries ?m)" "j \<in> set (e_gates (entry ?m q))"
    then have j: "j < length (m_gates m)" "ch_closed (g_ch (gate m j)) \<longrightarrow> g_closed (gate m j)"
      "g_viewerID (gate m j) = c_ViewerID (e_claims (entry m q))"
      using inv by (auto simp: core_inv_def entries_ok_def entry_ok_def)
    show "j < length (m_gates ?m)" using j by simp
    show "g_viewerID (gate ?m j) = c_ViewerID (e_claims (entry ?m q))" using j f(1) by (cases "j = i") auto
    show "ch_closed (g_ch (gate ?m j)) \<Longrightarrow> g_closed (gate ?m j)" using j f(4) by (cases "j = i") auto
  qed (use inv in \<open>auto simp: core_inv_def entries_ok_def entry_ok_def\<close>)
  moreover have "live_ok ?m" using inv by (simp add: core_inv_def live_ok_def live_def)
  moreover have "gates_ok ?m" using inv f(2) by (simp add: core_inv_def gates_ok_def)
  moreover have "registered ?m" using inv f(1,3) by (auto simp: core_inv_def registered_def find)
  moreover have "checked_ok ?m" using inv f(3,5) by (fastforce simp: core_inv_def checked_ok_def)
  moreover have "bound_ok ?m" using inv by (simp add: core_inv_def bound_ok_def)
  ultimately show ?thesis by (simp add: core_inv_def)
qed

lemma core_inv_upd_entry:
  assumes inv: "core_inv m"
    and f: "\<And>e. e_viewerID (f e) = e_viewerID e" "\<And>e. e_claims (f e) = e_claims e"
      "\<And>e. e_gates (f e) = e_gates e"
  shows "core_inv (upd_entry p f m)"
proof -
  let ?m = "upd_entry p f m"
  have live: "live ?m = live m" by (simp add: live_def)
  have range: "\<forall>q \<in> set (live m). q < length (m_entries m)" using inv by (simp add: core_inv_def live_ok_def)
  have act: "p' < length (m_entries m)" if "m_active m = Some p'" for p'
    using range that by (simp add: live_def)
  have find: "findEntryLocked ?m v = findEntryLocked m v" for v
    unfolding findEntry_live live by (rule find_cong_pred) (use range f in auto)
  have found: "q < length (m_entries m)" if "findEntryLocked m v = Some q" for q v
    using that range by (auto simp: findEntry_live find_Some_iff)
  have "entries_ok ?m" using inv f by (auto simp: core_inv_def entries_ok_def entry_ok_def)
  moreover have "live_ok ?m" using inv live by (simp add: core_inv_def live_ok_def)
  moreover have "gates_ok ?m" using inv by (simp add: core_inv_def gates_ok_def)
  moreover have "registered ?m"
    unfolding registered_def find
  proof (intro allI impI)
    fix i assume "i < length (m_gates ?m)" "gate_open (gate ?m i)"
    then obtain q where q: "findEntryLocked m (g_viewerID (gate m i)) = Some q"
      "i \<in> set (e_gates (entry m q))"
      using inv unfolding core_inv_def registered_def by auto
    with found f(3) show "\<exists>q. findEntryLocked m (g_viewerID (gate ?m i)) = Some q
        \<and> i \<in> set (e_gates (entry ?m q))" by auto
  qed
  moreover have "checked_ok ?m"
    unfolding checked_ok_def
  proof (intro allI impI)
    fix i c assume "i < length (m_gates ?m)" "g_pc (gate ?m i) = Checked c True" "gate_open (gate ?m i)"
    then obtain q where "m_active m = Some q" "i \<in> set (e_gates (entry m q))"
      using inv unfolding core_inv_def checked_ok_def by auto
    with act f(3) show "\<exists>q. m_active ?m = Some q \<and> i \<in> set (e_gates (entry ?m q))" by auto
  qed
  moreover have "bound_ok ?m" using inv by (simp add: core_inv_def bound_ok_def)
  ultimately show ?thesis by (simp add: core_inv_def)
qed

lemma core_inv_cancel: "core_inv m \<Longrightarrow> core_inv (cancel p m)"
  unfolding cancel_def by (rule core_inv_upd_entry) simp_all

lemma core_inv_closeGates:
  assumes inv: "core_inv m" and p: "p < length (m_entries m)"
  shows "core_inv (closeGates p m)"
proof -
  let ?m = "closeGates p m"
  have live: "live ?m = live m" by (simp add: live_def)
  have range: "\<forall>q \<in> set (live m). q < length (m_entries m)" using inv by (simp add: core_inv_def live_ok_def)
  have act: "p' < length (m_entries m)" if "m_active m = Some p'" for p'
    using range that by (simp add: live_def)
  have find: "findEntryLocked ?m v = findEntryLocked m v" for v
    unfolding findEntry_live live by (rule find_cong_pred) (use range in auto)
  have found: "q < length (m_entries m)" if "findEntryLocked m v = Some q" for q v
    using that range by (auto simp: findEntry_live find_Some_iff)
  have reg: "j < length (m_gates m) \<and> (ch_closed (g_ch (gate m j)) \<longrightarrow> g_closed (gate m j))"
    if "q < length (m_entries m)" "j \<in> set (e_gates (entry m q))" for q j
    using inv that by (auto simp: core_inv_def entries_ok_def entry_ok_def)
  have gok: "gate_ok (gate m j)" if "j < length (m_gates m)" for j
    using inv that by (simp add: core_inv_def gates_ok_def)
  have closed: "\<not> gate_open (gate ?m j)" if "j \<in> set (e_gates (entry m p))" for j
    using that reg [OF p that] p gate_close_closed [OF gok] by (simp add: gate_open_def)
  have "entries_ok ?m" using inv p
    by (auto simp: core_inv_def entries_ok_def entry_ok_def)
  moreover have "live_ok ?m" using inv live by (simp add: core_inv_def live_ok_def)
  moreover have "gates_ok ?m" using gok reg [OF p] p by (auto simp: gates_ok_def intro: gate_ok_close)
  moreover have "registered ?m"
    unfolding registered_def
  proof (intro allI impI)
    fix j assume j: "j < length (m_gates ?m)" "gate_open (gate ?m j)"
    with closed have nin: "j \<notin> set (e_gates (entry m p))" by blast
    with j p obtain q where q: "findEntryLocked m (g_viewerID (gate m j)) = Some q"
      "j \<in> set (e_gates (entry m q))"
      using inv by (auto simp: core_inv_def registered_def)
    with nin found j p show "\<exists>q. findEntryLocked ?m (g_viewerID (gate ?m j)) = Some q
        \<and> j \<in> set (e_gates (entry ?m q))"
      by (auto simp: find)
  qed
  moreover have "checked_ok ?m"
    unfolding checked_ok_def
  proof (intro allI impI)
    fix j c assume j: "j < length (m_gates ?m)" "g_pc (gate ?m j) = Checked c True" "gate_open (gate ?m j)"
    with closed have nin: "j \<notin> set (e_gates (entry m p))" by blast
    with j p obtain q where "m_active m = Some q" "j \<in> set (e_gates (entry m q))"
      using inv by (auto simp: core_inv_def checked_ok_def)
    with nin act show "\<exists>q. m_active ?m = Some q \<and> j \<in> set (e_gates (entry ?m q))" by auto
  qed
  moreover have "bound_ok ?m" using inv by (simp add: core_inv_def bound_ok_def)
  ultimately show ?thesis by (simp add: core_inv_def)
qed

section \<open>Preservation: entries come and go\<close>

lemma started_entry_sel [simp]:
  "e_viewerID (started_entry now cfg c) = c_ViewerID c" "e_claims (started_entry now cfg c) = c"
  "e_gates (started_entry now cfg c) = []" "e_watch (started_entry now cfg c) = Watching"
  "e_cancelled (started_entry now cfg c) = False"
  "e_deadline (started_entry now cfg c) = Some (now + seconds (c_SessionSeconds c))"
  by (simp_all add: started_entry_def Let_def)

lemma queued_entry_sel [simp]:
  "e_viewerID (queued_entry c) = c_ViewerID c" "e_claims (queued_entry c) = c"
  "e_gates (queued_entry c) = []" "e_watch (queued_entry c) = NotStarted"
  by (simp_all add: queued_entry_def)

definition claims_ok :: "Manager \<Rightarrow> Claims \<Rightarrow> bool" where
  "claims_ok m c \<longleftrightarrow> c_ViewerID c \<noteq> [] \<and> c_RoomID c = cfg_RoomID (m_cfg m) \<and> 0 < c_SessionSeconds c"

text \<open>
  What a change of the entries in play has to keep: the gates stay, and every open gate of a
  viewer that was registered with the entry looked up before is with the one looked up now.
\<close>

lemma core_inv_replace:
  assumes inv: "entries_ok m'" "live_ok m'" "bound_ok m'" "gates_ok m"
    and gates: "m_gates m' = m_gates m"
    and reg: "\<And>i. i < length (m_gates m) \<Longrightarrow> gate_open (gate m i) \<Longrightarrow>
        \<exists>p. findEntryLocked m' (g_viewerID (gate m i)) = Some p \<and> i \<in> set (e_gates (entry m' p))"
    and chk: "\<And>i c. i < length (m_gates m) \<Longrightarrow> gate_open (gate m i) \<Longrightarrow> g_pc (gate m i) = Checked c True \<Longrightarrow>
        \<exists>p. m_active m' = Some p \<and> i \<in> set (e_gates (entry m' p))"
  shows "core_inv m'"
  using assms by (auto simp: core_inv_def gates_ok_def registered_def checked_ok_def)

lemma no_open_gate_idle:
  "core_inv m \<Longrightarrow> m_active m = None \<Longrightarrow> i < length (m_gates m) \<Longrightarrow> \<not> gate_open (gate m i)"
  by (force simp: core_inv_def registered_def live_ok_def findEntry_live live_def)

lemma core_inv_start:
  assumes inv: "core_inv m" and act: "m_active m = None" and c: "claims_ok m c"
  shows "core_inv (fst (startSessionLocked now c m))"
proof -
  let ?m = "m\<lparr>m_entries := m_entries m @ [started_entry now (m_cfg m) c], m_active := Some (length (m_entries m))\<rparr>"
  have q: "m_queue m = []" using inv act by (simp add: core_inv_def live_ok_def)
  have "core_inv ?m"
  proof (rule core_inv_replace [of _ m])
    show "entries_ok ?m" using inv c
      by (auto simp: core_inv_def entries_ok_def entry_ok_def nth_append less_Suc_eq claims_ok_def)
    show "live_ok ?m" using q by (simp add: live_ok_def live_def)
    show "bound_ok ?m" using inv by (simp add: core_inv_def bound_ok_def)
    show "gates_ok m" using inv by (simp add: core_inv_def)
  qed (use no_open_gate_idle [OF inv act] in auto)
  then show ?thesis by (simp add: startSessionLocked_def Let_def)
qed

lemma find_append: "find P (xs @ ys) = (case find P xs of None \<Rightarrow> find P ys | Some x \<Rightarrow> Some x)"
  by (induction xs) auto

lemma core_inv_enqueue:
  assumes inv: "core_inv m" and act: "m_active m \<noteq> None" and c: "claims_ok m c"
    and pol: "cfg_QueuePolicy (m_cfg m) \<noteq> PolicyReject"
    and room: "\<not> (0 < cfg_MaxQueueDepth (m_cfg m) \<and> cfg_MaxQueueDepth (m_cfg m) \<le> int (length (m_queue m)))"
  shows "core_inv (fst (enqueueLocked now c m))"
proof -
  let ?m = "m\<lparr>m_entries := m_entries m @ [queued_entry c], m_queue := m_queue m @ [length (m_entries m)]\<rparr>"
  have range: "\<forall>q \<in> set (live m). q < length (m_entries m)" using inv by (simp add: core_inv_def live_ok_def)
  have live: "live ?m = live m @ [length (m_entries m)]" by (simp add: live_def)
  have find: "findEntryLocked ?m v = Some p \<and> p < length (m_entries m)" if "findEntryLocked m v = Some p" for v p
  proof -
    have "find (\<lambda>q. e_viewerID (entry ?m q) = v) (live m) = find (\<lambda>q. e_viewerID (entry m q) = v) (live m)"
      by (rule find_cong_pred) (use range in \<open>auto simp: nth_append\<close>)
    moreover have "p \<in> set (live m)" using that by (auto simp: findEntry_live find_Some_iff)
    ultimately show ?thesis using that range by (simp add: findEntry_live live find_append)
  qed
  have "core_inv ?m"
  proof (rule core_inv_replace [of _ m])
    show "entries_ok ?m" using inv c
      by (auto simp: core_inv_def entries_ok_def entry_ok_def nth_append less_Suc_eq claims_ok_def)
    show "live_ok ?m" using inv act range
      by (auto simp: core_inv_def live_ok_def live less_Suc_eq)
    show "bound_ok ?m" using inv pol room by (auto simp: core_inv_def bound_ok_def)
    show "gates_ok m" using inv by (simp add: core_inv_def)
    fix i assume i: "i < length (m_gates m)" "gate_open (gate m i)"
    then obtain p where "findEntryLocked m (g_viewerID (gate m i)) = Some p" "i \<in> set (e_gates (entry m p))"
      using inv by (auto simp: core_inv_def registered_def)
    with find show "\<exists>p. findEntryLocked ?m (g_viewerID (gate m i)) = Some p \<and> i \<in> set (e_gates (entry ?m p))"
      by (fastforce simp: nth_append)
    fix d assume "g_pc (gate m i) = Checked d True"
    with i obtain p where "m_active m = Some p" "i \<in> set (e_gates (entry m p))"
      using inv by (auto simp: core_inv_def checked_ok_def)
    with range show "\<exists>p. m_active ?m = Some p \<and> i \<in> set (e_gates (entry ?m p))"
      by (simp add: live_def nth_append)
  qed simp
  then show ?thesis by (simp add: enqueueLocked_def Let_def)
qed

text \<open>The state after a promotion, in one piece.\<close>

lemma promote_Nil: "m_queue m = [] \<Longrightarrow> promote now m = m"
  by (simp add: promote_def)

lemma promote_Cons:
  assumes "m_queue m = nx # rest" and "nx < length (m_entries m)"
  shows "m_active (promote now m) = Some (length (m_entries m))" "m_queue (promote now m) = rest"
    "m_gates (promote now m) = m_gates m" "m_cfg (promote now m) = m_cfg m"
    "m_pubKey (promote now m) = m_pubKey m"
    "m_stopped (promote now m) = m_stopped m" "m_subscribers (promote now m) = m_subscribers m"
    "length (m_entries (promote now m)) = Suc (length (m_entries m))"
    "entry (promote now m) (length (m_entries m)) =
       (started_entry now (m_cfg m) (e_claims (entry m nx)))\<lparr>e_gates := e_gates (entry m nx)\<rparr>"
    "q < length (m_entries m) \<Longrightarrow> entry (promote now m) q =
       (if q = nx then (entry m q)\<lparr>e_cancelled := True, e_gates := []\<rparr> else entry m q)"
  using assms by (simp_all add: promote_def startSessionLocked_def Let_def nth_append)

text \<open>
  The slot is given up by \<open>p\<close>, whose gates are closed already, and handed to the head of the
  wait list.
\<close>

lemma core_inv_promote:
  assumes inv: "core_inv m" and act: "m_active m = Some p" and none: "e_gates (entry m p) = []"
  shows "core_inv (promote now (emitEvent ev (m\<lparr>m_active := None\<rparr>)))"
proof (cases "m_queue m")
  case Nil
  have closed: "\<not> gate_open (gate m i)" if i: "i < length (m_gates m)" for i
  proof
    assume "gate_open (gate m i)"
    with inv i obtain q where "findEntryLocked m (g_viewerID (gate m i)) = Some q"
      "i \<in> set (e_gates (entry m q))"
      by (auto simp: core_inv_def registered_def)
    with Nil act none show False by (auto simp: findEntry_live live_def split: if_splits)
  qed
  have "core_inv (m\<lparr>m_active := None\<rparr>)"
  proof (rule core_inv_replace [of _ m])
    show "entries_ok (m\<lparr>m_active := None\<rparr>)" "bound_ok (m\<lparr>m_active := None\<rparr>)" "gates_ok m"
      using inv by (simp_all add: core_inv_def entries_ok_def entry_ok_def bound_ok_def)
    show "live_ok (m\<lparr>m_active := None\<rparr>)" using Nil by (simp add: live_ok_def live_def)
  qed (use closed in auto)
  with Nil show ?thesis by (simp add: promote_Nil)
next
  case (Cons nx rest)
  let ?mm = "emitEvent ev (m\<lparr>m_active := None\<rparr>)" and ?n = "length (m_entries m)"
  let ?m = "promote now ?mm"
  have lv: "live m = p # nx # rest" using act Cons by (simp add: live_def)
  have dist: "distinct (p # nx # rest)" and range: "\<forall>q \<in> set (p # nx # rest). q < ?n"
    using inv lv by (simp_all add: core_inv_def live_ok_def)
  have nx: "nx < length (m_entries ?mm)" using range by simp
  note pro = promote_Cons [where m = ?mm and nx = nx and rest = rest and now = now, OF _ nx, simplified, OF Cons]
  have lv': "live ?m = ?n # rest" by (simp add: live_def pro)
  have vn: "e_viewerID (entry m nx) = c_ViewerID (e_claims (entry m nx))"
    using inv range by (auto simp: core_inv_def entries_ok_def entry_ok_def)
  have find: "\<exists>p'. findEntryLocked ?m v = Some p' \<and> i \<in> set (e_gates (entry ?m p'))"
    if q: "findEntryLocked m v = Some q" "i \<in> set (e_gates (entry m q))" for v q i
  proof (cases "e_viewerID (entry m nx) = v")
    case True
    then have "findEntryLocked ?m v = Some ?n" by (simp add: findEntry_live lv' pro vn)
    moreover have "q = p \<or> q = nx" using q(1) True by (auto simp: findEntry_live lv split: if_splits)
    ultimately show ?thesis using q(2) none by (auto simp: pro)
  next
    case False
    have "q \<noteq> p" using q(2) none by auto
    then have fr: "find (\<lambda>q. e_viewerID (entry m q) = v) rest = Some q"
      using q(1) False by (auto simp: findEntry_live lv split: if_splits)
    have "find (\<lambda>q. e_viewerID (entry ?m q) = v) rest = find (\<lambda>q. e_viewerID (entry m q) = v) rest"
      by (rule find_cong_pred) (use range dist in \<open>auto simp: pro\<close>)
    moreover have "q \<in> set rest" using fr by (auto simp: find_Some_iff)
    ultimately show ?thesis using fr False vn range dist q(2)
      by (auto simp: findEntry_live lv' pro)
  qed
  have "core_inv ?m"
  proof (rule core_inv_replace [of _ m])
    have "entry_ok m (entry m q)" if "q < ?n" for q
      using inv that by (simp add: core_inv_def entries_ok_def)
    then show "entries_ok ?m" using range vn
      by (auto simp: entries_ok_def pro less_Suc_eq entry_ok_def)
    show "live_ok ?m" using dist range by (auto simp: live_ok_def lv' pro less_Suc_eq)
    show "bound_ok ?m" using inv Cons by (auto simp: core_inv_def bound_ok_def pro)
    show "gates_ok m" using inv by (simp add: core_inv_def)
    show "m_gates ?m = m_gates m" by (simp add: pro)
    fix i assume i: "i < length (m_gates m)" "gate_open (gate m i)"
    then show "\<exists>p. findEntryLocked ?m (g_viewerID (gate m i)) = Some p \<and> i \<in> set (e_gates (entry ?m p))"
      using inv find unfolding core_inv_def registered_def by blast
    fix c assume "g_pc (gate m i) = Checked c True"
    with i inv act none show "\<exists>p. m_active ?m = Some p \<and> i \<in> set (e_gates (entry ?m p))"
      by (auto simp: core_inv_def checked_ok_def)
  qed
  then show ?thesis .
qed

lemma active_range: "core_inv m \<Longrightarrow> m_active m = Some p \<Longrightarrow> p < length (m_entries m)"
  by (simp add: core_inv_def live_ok_def live_def)

lemma queue_range: "core_inv m \<Longrightarrow> q \<in> set (m_queue m) \<Longrightarrow> q < length (m_entries m)"
  by (simp add: core_inv_def live_ok_def live_def)

lemma core_inv_endSession:
  assumes inv: "core_inv m"
  shows "core_inv (endSession now p kind m)"
proof (cases "m_active m = Some p")
  case True
  let ?m3 = "closeGates p (cancel p (upd_entry p (\<lambda>e. e\<lparr>e_idleTimer := None\<rparr>) m))"
  have p: "p < length (m_entries m)" using inv True by (rule active_range)
  have "core_inv ?m3"
    using p inv by (intro core_inv_closeGates core_inv_cancel core_inv_upd_entry) simp_all
  moreover have "m_active ?m3 = Some p" "e_gates (entry ?m3 p) = []" using True p by simp_all
  ultimately show ?thesis using True by (simp add: endSession_def Let_def core_inv_promote)
next
  case False
  with inv show ?thesis by (simp add: endSession_def)
qed

lemma core_inv_Claim:
  assumes "core_inv m" shows "core_inv (fst (Claim v now token m))"
proof (cases "ParseAndVerify v token (m_pubKey m) now")
  case (Inr c)
  show ?thesis
  proof (cases "c_RoomID c = cfg_RoomID (m_cfg m)")
    case True
    with ParseAndVerify_facts [OF Inr] have "claims_ok m c" by (simp add: claims_ok_def)
    with assms Inr True show ?thesis
      using core_inv_start [of m c now] core_inv_enqueue [of m c now]
      by (auto simp: Claim_def split: prod.splits)
  qed (use assms Inr in \<open>simp add: Claim_def\<close>)
qed (use assms in \<open>simp add: Claim_def\<close>)

lemma find_remove1:
  "find P xs = Some q \<Longrightarrow> q \<noteq> p \<Longrightarrow> find P (remove1 p xs) = Some q"
  by (induction xs) (auto split: if_splits)

text \<open>A waiting entry whose gates are closed already leaves the wait list.\<close>

lemma core_inv_unqueue:
  assumes inv: "core_inv m" and act: "m_active m \<noteq> Some p" and q: "p \<in> set (m_queue m)"
    and none: "e_gates (entry m p) = []"
  shows "core_inv (m\<lparr>m_queue := remove1 p (m_queue m)\<rparr>)"
proof -
  let ?m = "m\<lparr>m_queue := remove1 p (m_queue m)\<rparr>"
  have dist: "distinct (live m)" and range: "\<forall>q \<in> set (live m). q < length (m_entries m)"
    using inv by (simp_all add: core_inv_def live_ok_def)
  have lv: "live ?m = remove1 p (live m)" using act
    by (auto simp: live_def split: option.splits)
  have find: "findEntryLocked ?m v = Some r" if "findEntryLocked m v = Some r" "r \<noteq> p" for v r
    using that by (simp add: findEntry_live lv find_remove1)
  show ?thesis
  proof (rule core_inv_replace [of _ m])
    show "entries_ok ?m" "gates_ok m" using inv by (simp_all add: core_inv_def entries_ok_def entry_ok_def)
    show "live_ok ?m" unfolding live_ok_def lv
      using inv dist range q by (auto simp: core_inv_def live_ok_def dest: notin_set_remove1 [rotated])
    show "bound_ok ?m" using inv q by (auto simp: core_inv_def bound_ok_def length_remove1)
    fix i assume i: "i < length (m_gates m)" "gate_open (gate m i)"
    then obtain r where r: "findEntryLocked m (g_viewerID (gate m i)) = Some r" "i \<in> set (e_gates (entry m r))"
      using inv by (auto simp: core_inv_def registered_def)
    then have "r \<noteq> p" using none by auto
    with r find show "\<exists>p. findEntryLocked ?m (g_viewerID (gate m i)) = Some p \<and> i \<in> set (e_gates (entry ?m p))"
      by simp
    fix c assume "g_pc (gate m i) = Checked c True"
    with i inv show "\<exists>p. m_active ?m = Some p \<and> i \<in> set (e_gates (entry ?m p))"
      by (auto simp: core_inv_def checked_ok_def)
  qed simp
qed

lemma Release_unqueue:
  "closeGates p (cancel p (m\<lparr>m_queue := qs\<rparr>)) = (closeGates p (cancel p m))\<lparr>m_queue := qs\<rparr>"
proof -
  have u: "upd_gate i f (m'\<lparr>m_queue := qs\<rparr>) = (upd_gate i f m')\<lparr>m_queue := qs\<rparr>" for i f m'
    by (simp add: upd_gate_def)
  have "fold (\<lambda>h. upd_gate h gate_close) hs (m'\<lparr>m_queue := qs\<rparr>) =
        (fold (\<lambda>h. upd_gate h gate_close) hs m')\<lparr>m_queue := qs\<rparr>" for hs m'
    by (induction hs arbitrary: m') (simp_all add: u)
  moreover have "upd_entry r f (m'\<lparr>m_queue := qs\<rparr>) = (upd_entry r f m')\<lparr>m_queue := qs\<rparr>" for r f m'
    by (simp add: upd_entry_def)
  ultimately show ?thesis by (simp add: closeGates_def cancel_def Let_def)
qed

lemma core_inv_Release_locked:
  assumes inv: "core_inv m" shows "core_inv (fst (Release_locked p m))"
proof (cases "m_active m \<noteq> Some p \<and> p \<in> set (m_queue m)")
  case True
  let ?m = "closeGates p (cancel p m)"
  have p: "p < length (m_entries m)" using queue_range [OF inv] True by simp
  have "core_inv ?m" using inv p by (intro core_inv_closeGates core_inv_cancel) simp_all
  then have "core_inv (?m\<lparr>m_queue := remove1 p (m_queue ?m)\<rparr>)"
    using True p by (intro core_inv_unqueue) simp_all
  with True show ?thesis by (simp add: Release_locked_def Release_unqueue)
qed (use inv in \<open>auto simp: Release_locked_def\<close>)

lemma core_inv_add_closed_gate:
  assumes inv: "core_inv m" and h: "gate_ok h" "\<not> gate_open h"
  shows "core_inv (m\<lparr>m_gates := m_gates m @ [h]\<rparr>)"
proof -
  let ?m = "m\<lparr>m_gates := m_gates m @ [h]\<rparr>"
  have find: "findEntryLocked ?m v = findEntryLocked m v" for v by (rule findEntry_cong) simp_all
  have "live ?m = live m" by (simp add: live_def)
  moreover have "entries_ok ?m" using inv
    by (auto simp: core_inv_def entries_ok_def entry_ok_def nth_append less_Suc_eq)
  moreover have "gates_ok ?m" using inv h by (auto simp: core_inv_def gates_ok_def nth_append less_Suc_eq)
  moreover have "registered ?m" using inv h
    by (auto simp: core_inv_def registered_def nth_append less_Suc_eq find)
  moreover have "checked_ok ?m" using inv h
    by (auto simp: core_inv_def checked_ok_def nth_append less_Suc_eq)
  ultimately show ?thesis using inv by (simp add: core_inv_def live_ok_def bound_ok_def)
qed

lemma core_inv_register:
  assumes inv: "core_inv m" and found: "findEntryLocked m vid = Some p"
    and h: "gate_ok h" "g_viewerID h = vid" "g_pc h = AtSelect" "\<not> g_closed h"
  shows "core_inv (upd_entry p (\<lambda>e. e\<lparr>e_gates := e_gates e @ [length (m_gates m)]\<rparr>)
           (m\<lparr>m_gates := m_gates m @ [h]\<rparr>))" (is "core_inv ?m")
proof -
  have range: "\<forall>q \<in> set (live m). q < length (m_entries m)" using inv by (simp add: core_inv_def live_ok_def)
  have p: "p < length (m_entries m)" using found range by (auto simp: findEntry_live find_Some_iff)
  have live: "live ?m = live m" by (simp add: live_def)
  have find: "findEntryLocked ?m v = findEntryLocked m v" for v
    unfolding findEntry_live live by (rule find_cong_pred) (use range in auto)
  have fr: "q < length (m_entries m)" if "findEntryLocked m v = Some q" for q v
    using that range by (auto simp: findEntry_live find_Some_iff)
  have open_h: "\<not> ch_closed (g_ch h)" using h by (auto simp: gate_ok_def)
  have "e_viewerID (entry m p) = vid" using found by (auto simp: findEntry_live find_Some_iff)
  then have "g_viewerID h = c_ViewerID (e_claims (entry m p))"
    using h(2) inv p by (auto simp: core_inv_def entries_ok_def entry_ok_def)
  then have "entries_ok ?m" using inv p open_h
    by (auto simp: core_inv_def entries_ok_def entry_ok_def nth_append less_Suc_eq)
  moreover have "live_ok ?m" using inv live by (simp add: core_inv_def live_ok_def)
  moreover have "gates_ok ?m" using inv h by (auto simp: core_inv_def gates_ok_def nth_append less_Suc_eq)
  moreover have "registered ?m"
    unfolding registered_def find
  proof (intro allI impI)
    fix i assume i: "i < length (m_gates ?m)" "gate_open (gate ?m i)"
    show "\<exists>q. findEntryLocked m (g_viewerID (gate ?m i)) = Some q \<and> i \<in> set (e_gates (entry ?m q))"
    proof (cases "i < length (m_gates m)")
      case True
      with i inv obtain q where "findEntryLocked m (g_viewerID (gate m i)) = Some q" "i \<in> set (e_gates (entry m q))"
        by (auto simp: core_inv_def registered_def nth_append)
      with True fr show ?thesis by (auto simp: nth_append)
    next
      case False
      with i have "i = length (m_gates m)" by simp
      with found h(2) p show ?thesis by simp
    qed
  qed
  moreover have "checked_ok ?m"
    unfolding checked_ok_def
  proof (intro allI impI)
    fix i c assume i: "i < length (m_gates ?m)" "g_pc (gate ?m i) = Checked c True" "gate_open (gate ?m i)"
    then have "i < length (m_gates m)" using h(3) by (auto simp: nth_append less_Suc_eq)
    with i inv obtain q where "m_active m = Some q" "i \<in> set (e_gates (entry m q))"
      by (auto simp: core_inv_def checked_ok_def nth_append)
    with range show "\<exists>q. m_active ?m = Some q \<and> i \<in> set (e_gates (entry ?m q))"
      by (auto simp: live_def)
  qed
  moreover have "bound_ok ?m" using inv by (simp add: core_inv_def bound_ok_def)
  ultimately show ?thesis by (simp add: core_inv_def)
qed

lemma core_inv_Gate: "core_inv m \<Longrightarrow> core_inv (fst (Gate vid m))"
  unfolding Gate_def Let_def
  by (auto split: option.splits intro!: core_inv_register core_inv_add_closed_gate
      simp: gate_ok_def gate_open_def chan_ok_def)

lemma core_inv_fold_close:
  "core_inv m \<Longrightarrow> \<forall>q \<in> set qs. q < length (m_entries m) \<Longrightarrow>
   core_inv (fold (\<lambda>p m. closeGates p (cancel p m)) qs m)"
  by (induction qs arbitrary: m) (simp_all add: core_inv_closeGates core_inv_cancel)

lemma core_inv_Run_locked:
  assumes inv: "core_inv m" shows "core_inv (Run_locked m)"
proof -
  have s: "core_inv (m\<lparr>m_stopped := True\<rparr>)" by (rule core_inv_cong [THEN iffD2, OF _ _ _ _ _ inv]) simp_all
  show ?thesis
  proof (cases "m_active m")
    case None
    with s queue_range [OF inv] show ?thesis by (simp add: Run_locked_def Let_def core_inv_fold_close)
  next
    case (Some p)
    let ?m = "closeGates p (cancel p (m\<lparr>m_stopped := True\<rparr>))"
    have "core_inv ?m" using s active_range [OF inv Some]
      by (intro core_inv_closeGates core_inv_cancel) simp_all
    with Some queue_range [OF inv] show ?thesis
      by (simp add: Run_locked_def Let_def core_inv_fold_close)
  qed
qed

section \<open>Channels\<close>

text \<open>
  The event channels: none has panicked; the shared one is closed only once the manager is
  stopped; the channel of a current subscriber is open.
\<close>

definition chans_inv :: "Manager \<Rightarrow> bool" where
  "chans_inv m \<longleftrightarrow> chan_ok (m_eventsOut m) \<and> (ch_closed (m_eventsOut m) \<longrightarrow> m_stopped m)
     \<and> list_all chan_ok (m_subChans m)
     \<and> (\<forall>i \<in> set (m_subscribers m). i < length (m_subChans m) \<and> \<not> ch_closed (m_subChans m ! i))"

lemma chans_inv_cong:
  "m_eventsOut m' = m_eventsOut m \<Longrightarrow> m_stopped m' = m_stopped m \<Longrightarrow> m_subChans m' = m_subChans m \<Longrightarrow>
   m_subscribers m' = m_subscribers m \<Longrightarrow> chans_inv m' = chans_inv m"
  by (simp add: chans_inv_def)

lemma chans_inv_emit: "chans_inv m \<Longrightarrow> chans_inv (emitEvent ev m)"
  by (auto simp: chans_inv_def emitEvent_def list_all_length intro!: chan_ok_try_send)

lemma chans_inv_start: "chans_inv m \<Longrightarrow> chans_inv (fst (startSessionLocked now c m))"
  unfolding startSessionLocked_def Let_def fst_conv
  by (rule chans_inv_emit) (simp add: chans_inv_def)

lemma chans_inv_enqueue: "chans_inv m \<Longrightarrow> chans_inv (fst (enqueueLocked now c m))"
  unfolding enqueueLocked_def Let_def fst_conv
  by (rule chans_inv_emit) (simp add: chans_inv_def)

lemma chans_inv_Claim: "chans_inv m \<Longrightarrow> chans_inv (fst (Claim v now token m))"
  using chans_inv_start [of m now] chans_inv_enqueue [of m now]
  by (auto simp: Claim_def split: sum.splits prod.splits) (metis fst_conv)+

lemma chans_inv_simps [simp]:
  "chans_inv (upd_entry p f m) = chans_inv m" "chans_inv (upd_gate i g m) = chans_inv m"
  "chans_inv (closeGates p m) = chans_inv m" "chans_inv (cancel p m) = chans_inv m"
  "chans_inv (m\<lparr>m_active := a\<rparr>) = chans_inv m" "chans_inv (m\<lparr>m_queue := q\<rparr>) = chans_inv m"
  "chans_inv (m\<lparr>m_gates := gs\<rparr>) = chans_inv m"
  by (rule chans_inv_cong; simp)+

lemma chans_inv_promote: "chans_inv m \<Longrightarrow> chans_inv (promote now m)"
  using chans_inv_start [of "cancel x (m\<lparr>m_queue := xs\<rparr>)" now for x xs]
  by (auto simp: promote_def Let_def split: list.splits prod.splits) (metis fst_conv)

lemma chans_inv_endSession: "chans_inv m \<Longrightarrow> chans_inv (endSession now p kind m)"
  by (simp add: endSession_def Let_def chans_inv_promote chans_inv_emit)

lemma chans_inv_Release: "chans_inv m \<Longrightarrow> chans_inv (fst (Release_locked p m))"
  by (simp add: Release_locked_def)

lemma chans_inv_Gate: "chans_inv m \<Longrightarrow> chans_inv (fst (Gate vid m))"
  by (simp add: Gate_def Let_def split: option.splits)

lemma Run_fold_sel [simp]:
  "m_eventsOut (fold (\<lambda>p m. closeGates p (cancel p m)) qs m) = m_eventsOut m"
  "m_stopped (fold (\<lambda>p m. closeGates p (cancel p m)) qs m) = m_stopped m"
  "m_subChans (fold (\<lambda>p m. closeGates p (cancel p m)) qs m) = m_subChans m"
  "m_subscribers (fold (\<lambda>p m. closeGates p (cancel p m)) qs m) = m_subscribers m"
  "m_active (fold (\<lambda>p m. closeGates p (cancel p m)) qs m) = m_active m"
  "m_queue (fold (\<lambda>p m. closeGates p (cancel p m)) qs m) = m_queue m"
  "m_cfg (fold (\<lambda>p m. closeGates p (cancel p m)) qs m) = m_cfg m"
  "length (m_entries (fold (\<lambda>p m. closeGates p (cancel p m)) qs m)) = length (m_entries m)"
  by (induction qs arbitrary: m) simp_all

lemma Run_locked_sel [simp]:
  "m_eventsOut (Run_locked m) = m_eventsOut m" "m_stopped (Run_locked m)"
  "m_subChans (Run_locked m) = m_subChans m" "m_subscribers (Run_locked m) = m_subscribers m"
  "m_active (Run_locked m) = m_active m" "m_queue (Run_locked m) = m_queue m"
  "m_cfg (Run_locked m) = m_cfg m" "length (m_entries (Run_locked m)) = length (m_entries m)"
  by (simp_all add: Run_locked_def Let_def split: option.splits)

lemma chans_inv_Run_locked: "chans_inv m \<Longrightarrow> chans_inv (Run_locked m)"
  by (simp add: chans_inv_def)

lemma chans_inv_Subscribe: "chans_inv m \<Longrightarrow> chans_inv (fst (Subscribe m))"
  by (auto simp: chans_inv_def Subscribe_def nth_append)

lemma chans_inv_unsubscribe: "chans_inv m \<Longrightarrow> chans_inv (unsubscribe i m)"
  by (auto simp: chans_inv_def unsubscribe_def list_all_length nth_list_update intro!: chan_ok_close)

section \<open>The invariant of the running system\<close>

text \<open>
  Beyond the manager: every pending \<^verbatim>\<open>endSession\<close> names an existing entry; \<^verbatim>\<open>Run\<close> closes the
  event channel once; and somebody looks after the session in control: its watcher goroutine is
  still running, or a call that ends it is on its way.
\<close>

definition run_inv :: "sess_state \<Rightarrow> bool" where
  "run_inv s \<longleftrightarrow> (st_run s = RunWaiting \<longrightarrow> \<not> m_stopped (st_m s))
     \<and> (st_run s = RunClosing \<longrightarrow> m_stopped (st_m s) \<and> \<not> ch_closed (m_eventsOut (st_m s)))
     \<and> (st_run s = RunReturned \<longrightarrow> m_stopped (st_m s))"

definition watched :: "sess_state \<Rightarrow> bool" where
  "watched s \<longleftrightarrow> (\<forall>p. m_active (st_m s) = Some p \<longrightarrow>
     e_deadline (entry (st_m s) p) \<noteq> None \<and>
     (e_watch (entry (st_m s) p) \<in> {Watching} \<union> range Ticking \<or> p \<in> fst ` set (st_pending s)))"

definition sess_inv :: "sess_state \<Rightarrow> bool" where
  "sess_inv s \<longleftrightarrow> core_inv (st_m s) \<and> chans_inv (st_m s) \<and> run_inv s"

lemma sess_inv_init: "sess_inv (sess_init cfg pk now)"
  by (simp add: sess_inv_def sess_init_def NewManager_def core_defs chans_inv_def run_inv_def live_def)

lemma touchIdle_sel [simp]:
  "e_viewerID (touchIdle now e) = e_viewerID e" "e_claims (touchIdle now e) = e_claims e"
  "e_gates (touchIdle now e) = e_gates e" "e_watch (touchIdle now e) = e_watch e"
  "e_deadline (touchIdle now e) = e_deadline e"
  by (simp_all add: touchIdle_def split: option.splits)

lemma gate_steps_core:
  assumes inv: "core_inv m" and i: "i < length (m_gates m)"
  shows "gate_recv i cmd m = Some m' \<Longrightarrow> core_inv m'"
    "gate_return i m = Some m' \<Longrightarrow> core_inv m'"
    "gate_find i m = Some m' \<Longrightarrow> core_inv m'"
    "gate_touch now i m = Some m' \<Longrightarrow> core_inv m'"
    "gate_check i m = Some m' \<Longrightarrow> core_inv m'"
    "gate_forward i m = Some m' \<Longrightarrow> core_inv m'"
proof -
  have g: "gate_ok (gate m i)" using inv i by (simp add: core_inv_def gates_ok_def)
  have pc: "core_inv (upd_gate i (\<lambda>g. g\<lparr>g_pc := x\<rparr>) m'')"
    if "core_inv m''" "i < length (m_gates m'')" "g_pc (gate m'' i) \<noteq> Returned"
      "\<And>c. x = Checked c True \<Longrightarrow> gate_open (gate m'' i) \<Longrightarrow>
         \<exists>p. m_active m'' = Some p \<and> i \<in> set (e_gates (entry m'' p))" for x m''
    using that by (intro core_inv_upd_gate) (auto simp: gate_ok_def gate_open_def core_inv_def gates_ok_def)
  show "gate_recv i cmd m = Some m' \<Longrightarrow> core_inv m'"
    using pc [OF inv i] by (auto simp: gate_recv_def split: if_splits)
  show "gate_return i m = Some m' \<Longrightarrow> core_inv m'"
    using core_inv_upd_gate [OF inv i, of "\<lambda>g. (gate_close g)\<lparr>g_pc := Returned\<rparr>"] g
    by (auto simp: gate_return_def gate_ok_def gate_close_def gate_open_def chan_ok_def split: if_splits)
  show "gate_find i m = Some m' \<Longrightarrow> core_inv m'"
  proof -
    have "upd_gate i (\<lambda>g. g\<lparr>g_pc := Found cmd (findEntryLocked m (g_viewerID g))\<rparr>) m =
          upd_gate i (\<lambda>g. g\<lparr>g_pc := Found cmd (findEntryLocked m (g_viewerID (gate m i)))\<rparr>) m" for cmd
      by (simp add: upd_gate_def)
    then show "gate_find i m = Some m' \<Longrightarrow> core_inv m'"
      using pc [OF inv i] by (auto simp: gate_find_def split: gate_pc.splits)
  qed
  show "gate_touch now i m = Some m' \<Longrightarrow> core_inv m'"
    using pc [OF core_inv_upd_entry [OF inv, of "touchIdle now"]] pc [OF inv i] i
    by (auto simp: gate_touch_def split: gate_pc.splits option.splits)
  have act: "\<exists>p. m_active m = Some p \<and> i \<in> set (e_gates (entry m p))"
    if "m_active m = Some p" "e_viewerID (entry m p) = g_viewerID (gate m i)" "gate_open (gate m i)" for p
  proof -
    have "findEntryLocked m (g_viewerID (gate m i)) = Some p" using that by (simp add: findEntryLocked_def)
    with inv i that show ?thesis by (auto simp: core_inv_def registered_def)
  qed
  show "gate_check i m = Some m' \<Longrightarrow> core_inv m'"
  proof -
    define isA where "isA = (case m_active m of None \<Rightarrow> False
      | Some p \<Rightarrow> e_viewerID (entry m p) = g_viewerID (gate m i))"
    have "core_inv (upd_gate i (\<lambda>g. g\<lparr>g_pc := Checked cmd isA\<rparr>) m)" if "g_pc (gate m i) = Touched cmd" for cmd
    proof (rule pc [OF inv i])
      fix c assume "Checked cmd isA = Checked c True" and o: "gate_open (gate m i)"
      then obtain p where "m_active m = Some p" "e_viewerID (entry m p) = g_viewerID (gate m i)"
        by (auto simp: isA_def split: option.splits)
      with o act show "\<exists>p. m_active m = Some p \<and> i \<in> set (e_gates (entry m p))" by blast
    qed (use that in simp)
    moreover have "gate_check i m = (case g_pc (gate m i) of
        Touched cmd \<Rightarrow> Some (upd_gate i (\<lambda>g. g\<lparr>g_pc := Checked cmd isA\<rparr>) m) | _ \<Rightarrow> None)"
      unfolding gate_check_def Let_def isA_def ..
    ultimately show "gate_check i m = Some m' \<Longrightarrow> core_inv m'"
      by (cases "g_pc (gate m i)") simp_all
  qed
  have fwd: "core_inv (upd_gate i (\<lambda>g. (if isA \<and> \<not> g_closed g
      then g\<lparr>g_ch := try_send cmd (g_ch g)\<rparr> else g)\<lparr>g_pc := AtSelect\<rparr>) m)"
    if "g_pc (gate m i) = Checked cmd isA" for cmd isA
    by (rule core_inv_upd_gate [OF inv i])
      (use g that in \<open>auto simp: gate_ok_def gate_open_def intro!: chan_ok_try_send\<close>)
  then show "gate_forward i m = Some m' \<Longrightarrow> core_inv m'"
    by (cases "g_pc (gate m i)") (simp_all add: gate_forward_def)
qed

lemma gate_steps_sel:
  assumes "gate_recv i cmd m = Some m' \<or> gate_return i m = Some m' \<or> gate_find i m = Some m'
    \<or> gate_touch now i m = Some m' \<or> gate_check i m = Some m' \<or> gate_forward i m = Some m'"
  shows "chans_inv m' = chans_inv m" "m_stopped m' = m_stopped m" "m_eventsOut m' = m_eventsOut m"
    "m_active m' = m_active m" "m_queue m' = m_queue m" "m_cfg m' = m_cfg m"
    "length (m_entries m') = length (m_entries m)"
    "q < length (m_entries m) \<Longrightarrow> e_claims (entry m' q) = e_claims (entry m q)"
    "q < length (m_entries m) \<Longrightarrow> e_watch (entry m' q) = e_watch (entry m q)"
    "q < length (m_entries m) \<Longrightarrow> e_deadline (entry m' q) = e_deadline (entry m q)"
  using assms
  by (auto simp: gate_recv_def gate_return_def gate_find_def gate_touch_def gate_check_def
      gate_forward_def Let_def split: if_splits gate_pc.splits option.splits)

lemma core_inv_step:
  assumes c: "core_inv (st_m s)" and st: "sess_step v a s = Some s'"
  shows "core_inv (st_m s')"
proof (cases a)
  case (AEndSession k)
  with st c show ?thesis
    by (auto simp: core_inv_endSession split: if_splits prod.splits)
next
  case (ADrain i)
  moreover have "core_inv (upd_gate i (\<lambda>g. g\<lparr>g_ch := drop_one (g_ch g)\<rparr>) (st_m s))"
    if i: "i < length (m_gates (st_m s))"
    by (rule core_inv_upd_gate [OF c i])
      (use c i in \<open>auto simp: core_inv_def gates_ok_def gate_ok_def gate_open_def checked_ok_def
        intro: chan_ok_drop_one\<close>)
  ultimately show ?thesis using st by (auto split: if_splits)
next
  case (ATick p)
  with st c show ?thesis
    by (auto simp: watch_tick_def Let_def split: if_splits option.splits intro!: core_inv_upd_entry)
next
  case (ATickEmit p)
  with st c show ?thesis
    by (auto simp: watch_emit_def split: if_splits watch_pc.splits intro!: core_inv_upd_entry)
next
  case (AWatchDone p)
  with st c show ?thesis
    by (auto simp: watch_done_def call_end_def split: if_splits intro!: core_inv_upd_entry)
next
  case (AIdleFire p)
  with st c show ?thesis
    by (auto simp: idle_fire_def call_end_def split: if_splits option.splits timer.splits
        intro!: core_inv_upd_entry)
next
  case ASubscribe
  moreover have "core_inv (fst (Subscribe (st_m s)))" using c
    by (subst core_inv_cong [where m = "st_m s"]) (simp_all add: Subscribe_def)
  ultimately show ?thesis using st by auto
next
  case (AUnsubscribe i)
  moreover have "core_inv (unsubscribe i (st_m s))" using c
    by (subst core_inv_cong [where m = "st_m s"]) (simp_all add: unsubscribe_def)
  ultimately show ?thesis using st by (auto split: if_splits)
next
  case AEventsDrain
  moreover have "core_inv ((st_m s)\<lparr>m_eventsOut := x\<rparr>)" for x using c
    by (subst core_inv_cong [where m = "st_m s"]) simp_all
  ultimately show ?thesis using st by auto
next
  case (ASubDrain i)
  moreover have "core_inv ((st_m s)\<lparr>m_subChans := x\<rparr>)" for x using c
    by (subst core_inv_cong [where m = "st_m s"]) simp_all
  ultimately show ?thesis using st by (auto split: if_splits)
next
  case ARunClose
  moreover have "core_inv (Run_close (st_m s))" using c
    by (subst core_inv_cong [where m = "st_m s"]) (simp_all add: Run_close_def)
  ultimately show ?thesis using st by (auto split: if_splits)
next
  case (ARelease p)
  with st core_inv_Release_locked [OF c, of p] show ?thesis
    by (auto simp: call_end_def split: if_splits prod.splits option.splits)
next
  case AKick
  with st c show ?thesis by (auto simp: call_end_def split: option.splits)
qed (use st c in \<open>auto simp: core_inv_Claim core_inv_Gate core_inv_Run_locked split: if_splits
  dest: gate_steps_core [OF c]\<close>)

lemma Gate_sel [simp]:
  "m_eventsOut (fst (Gate vid m)) = m_eventsOut m" "m_stopped (fst (Gate vid m)) = m_stopped m"
  "m_active (fst (Gate vid m)) = m_active m" "m_queue (fst (Gate vid m)) = m_queue m"
  "m_cfg (fst (Gate vid m)) = m_cfg m"
  "length (m_entries (fst (Gate vid m))) = length (m_entries m)"
  "q < length (m_entries m) \<Longrightarrow> e_claims (entry (fst (Gate vid m)) q) = e_claims (entry m q)"
  "q < length (m_entries m) \<Longrightarrow> e_watch (entry (fst (Gate vid m)) q) = e_watch (entry m q)"
  "q < length (m_entries m) \<Longrightarrow> e_deadline (entry (fst (Gate vid m)) q) = e_deadline (entry m q)"
  unfolding Gate_def Let_def by (auto split: option.split)

definition run_frame :: "Manager \<Rightarrow> Manager \<Rightarrow> bool" where
  "run_frame m m' \<longleftrightarrow> m_stopped m' = m_stopped m \<and> ch_closed (m_eventsOut m') = ch_closed (m_eventsOut m)"

lemma run_frame_emit: "run_frame m (emitEvent ev m)"
  by (simp add: run_frame_def emitEvent_def)

lemma run_frame_start:
  "run_frame m (fst (startSessionLocked now c m))" "run_frame m (fst (enqueueLocked now c m))"
  by (simp_all add: run_frame_def startSessionLocked_def enqueueLocked_def Let_def emitEvent_def)

lemma run_frame_Claim: "run_frame m (fst (Claim v now token m))"
  using run_frame_start [of m now]
  by (auto simp: Claim_def run_frame_def split: sum.splits prod.splits) (metis fst_conv)+

lemma run_frame_endSession: "run_frame m (endSession now p kind m)"
  by (auto simp: run_frame_def endSession_def promote_def startSessionLocked_def Let_def emitEvent_def
      split: list.splits)

lemma sess_step_frame:
  assumes "sess_step v a s = Some s'" and "a \<noteq> ARunStop" and "a \<noteq> ARunClose"
  shows "run_frame (st_m s) (st_m s') \<and> st_run s' = st_run s"
proof (cases a)
  case (AClaim token)
  with assms show ?thesis using run_frame_Claim by auto
next
  case (AEndSession k)
  with assms show ?thesis using run_frame_endSession by (auto split: if_splits prod.splits)
next
  case (ARelease p)
  with assms show ?thesis
    by (auto simp: Release_locked_def call_end_def run_frame_def split: if_splits)
next
  case AKick
  with assms show ?thesis by (auto simp: call_end_def run_frame_def split: option.splits)
next
  case (ATickEmit p)
  with assms show ?thesis using run_frame_emit
    by (auto simp: watch_emit_def run_frame_def split: if_splits watch_pc.splits)
next
  case (AGate vid)
  with assms show ?thesis by (auto simp: run_frame_def)
qed (use assms in \<open>auto simp: run_frame_def watch_tick_def watch_done_def idle_fire_def Let_def
  Subscribe_def unsubscribe_def call_end_def gate_recv_def gate_return_def gate_find_def gate_touch_def
  gate_check_def gate_forward_def
  split: if_splits option.splits timer.splits gate_pc.splits\<close>)

lemma run_inv_step:
  assumes r: "run_inv s" and ch: "chans_inv (st_m s)" and st: "sess_step v a s = Some s'"
  shows "run_inv s'"
proof -
  consider "a = ARunStop" | "a = ARunClose" | "a \<noteq> ARunStop" "a \<noteq> ARunClose" by blast
  then show ?thesis
  proof cases
    case 3
    with sess_step_frame [OF st] r show ?thesis by (simp add: run_inv_def run_frame_def)
  qed (use r ch st in \<open>auto simp: run_inv_def chans_inv_def Run_close_def split: if_splits\<close>)
qed

lemma chans_inv_step:
  assumes r: "run_inv s" and ch: "chans_inv (st_m s)" and st: "sess_step v a s = Some s'"
  shows "chans_inv (st_m s')"
proof (cases a)
  case (AEndSession k)
  with st ch show ?thesis by (auto simp: chans_inv_endSession split: if_splits prod.splits)
next
  case (ARelease p)
  with st ch show ?thesis
    by (auto simp: Release_locked_def call_end_def split: if_splits)
next
  case AKick
  with st ch show ?thesis by (auto simp: call_end_def split: option.splits)
next
  case (ATickEmit p)
  with st ch show ?thesis
    by (auto simp: watch_emit_def chans_inv_emit split: if_splits watch_pc.splits)
next
  case AEventsDrain
  with st ch show ?thesis by (auto simp: chans_inv_def chan_ok_drop_one)
next
  case (ASubDrain i)
  with st ch show ?thesis
    by (auto simp: chans_inv_def list_all_length nth_list_update chan_ok_drop_one split: if_splits)
next
  case ARunClose
  with st ch r show ?thesis
    by (auto simp: run_inv_def chans_inv_def Run_close_def chan_ok_close split: if_splits)
qed (use st ch in \<open>auto simp: chans_inv_Claim chans_inv_Gate chans_inv_Run_locked chans_inv_Subscribe
  chans_inv_unsubscribe watch_tick_def watch_done_def idle_fire_def call_end_def Let_def
  gate_recv_def gate_return_def gate_find_def gate_touch_def gate_check_def gate_forward_def
  split: if_splits option.splits timer.splits gate_pc.splits\<close>)

lemma sess_inv_reachable: "sess_reachable v cfg pk s \<Longrightarrow> sess_inv s"
proof (induction rule: sess_reachable.induct)
  case (init now)
  show ?case by (rule sess_inv_init)
next
  case (step s a s')
  then show ?case using core_inv_step chans_inv_step run_inv_step unfolding sess_inv_def by blast
qed

lemma cfg_endSession [simp]: "m_cfg (endSession now p k m) = m_cfg m"
  by (simp add: endSession_def promote_def startSessionLocked_def Let_def split: list.splits)

end
