(* ===== verification/SessionProps.thy ===== *)
theory SessionProps
  imports SessionInv "HOL-Library.Sublist"
begin

text \<open>
  What the session manager promises: only the controller's commands pass, the wait list is a
  FIFO queue of verified claims behind at most one controller (a refinement of a two-line
  abstract machine), a finished session always hands over, and no channel is ever misused.
\<close>

lemma Claim_cases:
  obtains (error) e where "Claim v now token m = (m, Inl e)"
  | (start) c where "ParseAndVerify v token (m_pubKey m) now = Inr c" "c_RoomID c = cfg_RoomID (m_cfg m)"
      "m_active m = None"
      "Claim v now token m = (fst (startSessionLocked now c m), Inr (length (m_entries m)))"
  | (enqueue) c where "ParseAndVerify v token (m_pubKey m) now = Inr c" "c_RoomID c = cfg_RoomID (m_cfg m)"
      "m_active m \<noteq> None" "cfg_QueuePolicy (m_cfg m) = PolicyQueue"
      "cfg_MaxQueueDepth (m_cfg m) > 0 \<longrightarrow> int (length (m_queue m)) < cfg_MaxQueueDepth (m_cfg m)"
      "Claim v now token m = (fst (enqueueLocked now c m), Inr (length (m_entries m)))"
proof (cases "ParseAndVerify v token (m_pubKey m) now")
  case (Inl e)
  then show ?thesis using error by (simp add: Claim_def)
next
  case (Inr c)
  have pol: "cfg_QueuePolicy (m_cfg m) \<noteq> PolicyReject \<Longrightarrow> cfg_QueuePolicy (m_cfg m) = PolicyQueue"
    by (cases "cfg_QueuePolicy (m_cfg m)") auto
  have st: "startSessionLocked now c m = (fst (startSessionLocked now c m), length (m_entries m))"
    by (simp add: startSessionLocked_def Let_def)
  have en: "enqueueLocked now c m = (fst (enqueueLocked now c m), length (m_entries m))"
    by (simp add: enqueueLocked_def Let_def)
  consider "c_RoomID c \<noteq> cfg_RoomID (m_cfg m)"
    | "c_RoomID c = cfg_RoomID (m_cfg m)" "m_active m = None"
    | "c_RoomID c = cfg_RoomID (m_cfg m)" "m_active m \<noteq> None" "cfg_QueuePolicy (m_cfg m) = PolicyReject"
    | "c_RoomID c = cfg_RoomID (m_cfg m)" "m_active m \<noteq> None" "cfg_QueuePolicy (m_cfg m) \<noteq> PolicyReject"
      "cfg_MaxQueueDepth (m_cfg m) > 0 \<and> int (length (m_queue m)) \<ge> cfg_MaxQueueDepth (m_cfg m)"
    | "c_RoomID c = cfg_RoomID (m_cfg m)" "m_active m \<noteq> None" "cfg_QueuePolicy (m_cfg m) \<noteq> PolicyReject"
      "\<not> (cfg_MaxQueueDepth (m_cfg m) > 0 \<and> int (length (m_queue m)) \<ge> cfg_MaxQueueDepth (m_cfg m))"
    by blast
  then show ?thesis
  proof cases
    case 2
    have "Claim v now token m = (fst (startSessionLocked now c m), Inr (length (m_entries m)))"
      unfolding Claim_def Inr sum.case using 2 by (subst (1) st) simp
    with 2 Inr show ?thesis by (intro start)
  next
    case 5
    have "Claim v now token m = (fst (enqueueLocked now c m), Inr (length (m_entries m)))"
      unfolding Claim_def Inr sum.case using 5 by (subst (1) en) auto
    with 5 Inr pol show ?thesis by (intro enqueue) auto
  next
    case 1
    then show ?thesis using Inr error [of "RoomMismatch (c_RoomID c) (cfg_RoomID (m_cfg m))"]
      by (simp add: Claim_def)
  next
    case 3
    then show ?thesis using Inr error [of ErrControllerActive] by (auto simp: Claim_def)
  next
    case 4
    then show ?thesis using Inr error [of ErrQueueFull] by (auto simp: Claim_def)
  qed
qed

section \<open>Commands pass a gate only for the controller\<close>

text \<open>The commands waiting in the output channels of all gates.\<close>

definition gbufs :: "Manager \<Rightarrow> InputCommand list list" where
  "gbufs m = map (\<lambda>g. ch_buf (g_ch g)) (m_gates m)"

lemma gbufs_upd_gate:
  "(\<And>g. ch_buf (g_ch (f g)) = ch_buf (g_ch g)) \<Longrightarrow> gbufs (upd_gate i f m) = gbufs m"
  by (simp add: gbufs_def upd_gate_def map_update) (metis list_update_id list_update_beyond map_update not_le nth_map length_map)

lemma gate_close_buf [simp]: "ch_buf (g_ch (gate_close g)) = ch_buf (g_ch g)"
  by (simp add: gate_close_def)

lemma gbufs_cong: "m_gates m' = m_gates m \<Longrightarrow> gbufs m' = gbufs m"
  by (simp add: gbufs_def)

lemma gbufs_simps [simp]:
  "gbufs (upd_entry p f m) = gbufs m" "gbufs (emitEvent ev m) = gbufs m" "gbufs (cancel p m) = gbufs m"
  "gbufs (m\<lparr>m_active := a\<rparr>) = gbufs m" "gbufs (m\<lparr>m_queue := q\<rparr>) = gbufs m"
  "gbufs (m\<lparr>m_entries := es\<rparr>) = gbufs m" "gbufs (m\<lparr>m_stopped := b\<rparr>) = gbufs m"
  "gbufs (m\<lparr>m_eventsOut := ch\<rparr>) = gbufs m" "gbufs (m\<lparr>m_subChans := cs\<rparr>) = gbufs m"
  "gbufs (m\<lparr>m_subscribers := is\<rparr>) = gbufs m"
  by (rule gbufs_cong; simp)+

lemma gbufs_closeGates [simp]: "gbufs (closeGates p m) = gbufs m"
proof -
  have "gbufs (fold (\<lambda>h. upd_gate h gate_close) hs m') = gbufs m'" for hs m'
    by (induction hs arbitrary: m') (simp_all add: gbufs_upd_gate)
  then show ?thesis by (simp add: closeGates_def Let_def)
qed

lemma gbufs_start [simp]:
  "gbufs (fst (startSessionLocked now c m)) = gbufs m" "gbufs (fst (enqueueLocked now c m)) = gbufs m"
  by (simp_all add: startSessionLocked_def enqueueLocked_def Let_def)

lemma gbufs_endSession [simp]: "gbufs (endSession now p k m) = gbufs m"
  by (auto simp: endSession_def promote_def startSessionLocked_def Let_def split: list.splits)

lemma gbufs_Claim [simp]: "gbufs (fst (Claim v now token m)) = gbufs m"
  by (cases rule: Claim_cases [of v now token m]) simp_all

lemma gbufs_Run_locked [simp]: "gbufs (Run_locked m) = gbufs m"
proof -
  have "gbufs (fold (\<lambda>p m. closeGates p (cancel p m)) qs m') = gbufs m'" for qs m'
    by (induction qs arbitrary: m') simp_all
  then show ?thesis by (simp add: Run_locked_def Let_def split: option.splits)
qed

lemma gbufs_Gate: "gbufs (fst (Gate vid m)) = gbufs m @ [[]]"
  by (auto simp: Gate_def Let_def gbufs_def split: option.splits)

text \<open>Only a forward step and only on its own gate lengthens a gate's channel.\<close>

lemma gbufs_step_suffix:
  assumes "sess_step v a s = Some s'" and "a \<noteq> AForward i" and "i < length (m_gates (st_m s))"
  shows "suffix (gbufs (st_m s') ! i) (gbufs (st_m s) ! i)"
proof (cases a)
  case (AForward j)
  with assms show ?thesis
    by (auto simp: gate_forward_def gbufs_def split: if_splits gate_pc.splits)
next
  case (ADrain j)
  with assms show ?thesis by (auto simp: gbufs_def split: if_splits)
next
  case (AGate vid)
  moreover have "i < length (gbufs (st_m s))" using assms(3) by (simp add: gbufs_def)
  ultimately show ?thesis using assms(1) by (auto simp: gbufs_Gate nth_append)
next
  case (AEndSession k)
  with assms show ?thesis by (auto split: if_splits prod.splits)
next
  case (ARelease p)
  with assms show ?thesis by (auto simp: Release_locked_def call_end_def split: if_splits)
next
  case AKick
  with assms show ?thesis by (auto simp: call_end_def split: option.splits)
qed (use assms in \<open>auto simp: gbufs_upd_gate watch_tick_def watch_emit_def watch_done_def idle_fire_def
  Subscribe_def unsubscribe_def call_end_def gate_recv_def gate_return_def gate_find_def gate_touch_def
  gate_check_def Run_close_def Let_def
  split: if_splits option.splits timer.splits gate_pc.splits watch_pc.splits\<close>)

lemma gbufs_step:
  assumes "sess_step v a s = Some s'" and "a \<noteq> AForward i" and "i < length (m_gates (st_m s))"
  shows "length (gbufs (st_m s') ! i) \<le> length (gbufs (st_m s) ! i)"
  using gbufs_step_suffix [OF assms] by (rule suffix_length_le)

lemma gates_length:
  assumes "sess_step v a s = Some s'"
  shows "length (m_gates (st_m s')) = (case a of AGate vid \<Rightarrow> Suc (length (m_gates (st_m s))) | _ \<Rightarrow> length (m_gates (st_m s)))"
proof -
  have c: "length (m_gates (fst (Claim v now t m))) = length (m_gates m)" for now t m
    by (cases rule: Claim_cases [of v now t m]) (simp_all add: startSessionLocked_def enqueueLocked_def Let_def)
  have e: "length (m_gates (endSession now p k m)) = length (m_gates m)" for now p k m
    by (simp add: endSession_def promote_def startSessionLocked_def Let_def split: list.splits)
  have "length (m_gates (fold (\<lambda>p m. closeGates p (cancel p m)) qs m)) = length (m_gates m)" for qs m
    by (induction qs arbitrary: m) simp_all
  then have r: "length (m_gates (Run_locked m)) = length (m_gates m)" for m
    by (simp add: Run_locked_def Let_def split: option.splits)
  have g: "length (m_gates (fst (Gate vid m))) = Suc (length (m_gates m))" for vid m
    unfolding Gate_def Let_def by (auto split: option.split)
  show ?thesis using assms
    by (cases a) (auto simp: c e r g Release_locked_def call_end_def watch_tick_def watch_emit_def
      watch_done_def idle_fire_def Subscribe_def unsubscribe_def gate_recv_def gate_return_def gate_find_def
      gate_touch_def gate_check_def gate_forward_def Run_close_def Let_def
      split: if_splits prod.splits option.splits timer.splits gate_pc.splits watch_pc.splits)
qed

lemma gates_grow: "sess_step v a s = Some s' \<Longrightarrow> length (m_gates (st_m s)) \<le> length (m_gates (st_m s'))"
  using gates_length [of v a s s'] by (auto split: action.splits)

lemma new_gate_empty:
  assumes "sess_step v a s = Some s'" "i < length (gbufs (st_m s'))" "\<not> i < length (gbufs (st_m s))"
  shows "gbufs (st_m s') ! i = []"
proof -
  obtain vid where a: "a = AGate vid" using gates_length [OF assms(1)] assms(2,3) by (auto simp: gbufs_def split: action.splits)
  then have "gbufs (st_m s') = gbufs (st_m s) @ [[]]" using assms(1) by (auto simp: gbufs_Gate)
  then show ?thesis using assms(2,3) by (simp add: nth_append)
qed

lemma checked_open_controller:
  assumes inv: "core_inv m" and i: "i < length (m_gates m)"
    and pc: "g_pc (gate m i) = Checked c True" and op: "gate_open (gate m i)"
  shows "CurrentViewerID m = g_viewerID (gate m i)"
proof -
  obtain p where p: "m_active m = Some p" "i \<in> set (e_gates (entry m p))"
    using inv i pc op by (auto simp: core_inv_def checked_ok_def)
  with inv active_range [OF inv p(1)] show ?thesis
    by (auto simp: CurrentViewerID_def core_inv_def entries_ok_def entry_ok_def)
qed

lemma forward_controller:
  assumes "sess_reachable v cfg pk s" and "i < length (m_gates (st_m s))"
    and st: "sess_step v a s = Some s'"
    and more: "length (gbufs (st_m s') ! i) > length (gbufs (st_m s) ! i)"
  shows "a = AForward i \<and> CurrentViewerID (st_m s) = g_viewerID (gate (st_m s) i)"
proof -
  have a: "a = AForward i" using gbufs_step [OF st _ assms(2)] more by fastforce
  let ?m = "st_m s"
  have inv: "core_inv ?m" using sess_inv_reachable [OF assms(1)] by (simp add: sess_inv_def)
  obtain c b where pc: "g_pc (gate ?m i) = Checked c b"
    and m': "st_m s' = upd_gate i (\<lambda>g. (if b \<and> \<not> g_closed g then g\<lparr>g_ch := try_send c (g_ch g)\<rparr>
                                 else g)\<lparr>g_pc := AtSelect\<rparr>) ?m"
    using st a by (auto simp: gate_forward_def split: if_splits gate_pc.splits)
  have "b \<and> \<not> ch_closed (g_ch (gate ?m i))"
    using more assms(2) m' by (auto simp: gbufs_def try_send_buf split: if_splits)
  with pc checked_open_controller [OF inv assms(2)] a show ?thesis by (simp add: gate_open_def)
qed

section \<open>The abstract machine\<close>

text \<open>
  At most one controller and the claims waiting behind it, oldest first.
\<close>

type_synonym turn = "Claims option \<times> Claims list"

definition turn_of :: "Manager \<Rightarrow> turn" where
  "turn_of m = (map_option (\<lambda>p. e_claims (entry m p)) (m_active m),
                map (\<lambda>p. e_claims (entry m p)) (m_queue m))"

definition turn_claim :: "Claims \<Rightarrow> turn \<Rightarrow> turn" where
  "turn_claim c t = (case t of (None, q) \<Rightarrow> (Some c, q) | (Some a, q) \<Rightarrow> (Some a, q @ [c]))"

definition turn_end :: "turn \<Rightarrow> turn" where
  "turn_end t = (case t of (_, []) \<Rightarrow> (None, []) | (_, c # q) \<Rightarrow> (Some c, q))"

definition turn_leave :: "nat \<Rightarrow> turn \<Rightarrow> turn" where
  "turn_leave i t = (fst t, take i (snd t) @ drop (Suc i) (snd t))"

lemma turn_of_cong:
  "m_active m' = m_active m \<Longrightarrow> m_queue m' = m_queue m \<Longrightarrow>
   (\<And>q. q \<in> set (live m) \<Longrightarrow> e_claims (entry m' q) = e_claims (entry m q)) \<Longrightarrow> turn_of m' = turn_of m"
  by (cases "m_active m") (auto simp: turn_of_def live_def)

lemma turn_of_emit [simp]: "turn_of (emitEvent ev m) = turn_of m"
  by (rule turn_of_cong) simp_all

lemma live_range: "core_inv m \<Longrightarrow> q \<in> set (live m) \<Longrightarrow> q < length (m_entries m)"
  by (simp add: core_inv_def live_ok_def)

lemma turn_of_start:
  assumes "core_inv m" "m_active m = None"
  shows "turn_of (fst (startSessionLocked now c m)) = turn_claim c (turn_of m)"
  using assms by (simp add: startSessionLocked_def Let_def turn_of_def turn_claim_def core_inv_def live_ok_def)

lemma turn_of_enqueue:
  assumes "core_inv m" "m_active m \<noteq> None"
  shows "turn_of (fst (enqueueLocked now c m)) = turn_claim c (turn_of m)"
  using assms queue_range [OF assms(1)] active_range [OF assms(1)]
  by (auto simp: enqueueLocked_def Let_def turn_of_def turn_claim_def nth_append)

lemma turn_of_endSession:
  assumes inv: "core_inv m" and act: "m_active m = Some p"
  shows "turn_of (endSession now p kind m) = turn_end (turn_of m)"
proof -
  define m3 where "m3 = closeGates p (cancel p (upd_entry p (\<lambda>e. e\<lparr>e_idleTimer := None\<rparr>) m))"
  define mm where "mm = emitEvent (newEvent now kind (e_viewerID (entry (m3\<lparr>m_active := None\<rparr>) p)) 0 0) (m3\<lparr>m_active := None\<rparr>)"
  have eq: "endSession now p kind m = promote now mm"
    using act by (simp add: endSession_def Let_def m3_def mm_def)
  have c: "e_claims (entry mm q) = e_claims (entry m q)" if "q < length (m_entries m)" for q
    using that by (simp add: m3_def mm_def)
  have q: "m_queue mm = m_queue m" "length (m_entries mm) = length (m_entries m)"
    by (simp_all add: m3_def mm_def)
  show ?thesis
  proof (cases "m_queue m")
    case Nil
    with q show ?thesis by (simp add: eq promote_Nil turn_of_def turn_end_def mm_def)
  next
    case (Cons nx rest)
    have r: "nx < length (m_entries m)" "\<forall>q \<in> set rest. q < length (m_entries m)"
      using queue_range [OF inv] Cons by auto
    have d: "nx \<notin> set rest" using inv Cons by (auto simp: core_inv_def live_ok_def live_def)
    note pro = promote_Cons [where m = mm and nx = nx and rest = rest and now = now]
    show ?thesis using Cons q r d c act
      by (auto simp: eq turn_of_def turn_end_def pro pro(9) [unfolded q(2)])
  qed
qed

lemma remove1_at:
  "distinct xs \<Longrightarrow> i < length xs \<Longrightarrow> remove1 (xs ! i) xs = take i xs @ drop (Suc i) xs"
proof (induction xs arbitrary: i)
  case (Cons x xs)
  then show ?case by (cases i) auto
qed simp

lemma turn_of_Release_locked:
  assumes inv: "core_inv m" and q: "m_active m \<noteq> Some p" "p \<in> set (m_queue m)"
  shows "\<exists>i < length (m_queue m). m_queue m ! i = p \<and> turn_of (fst (Release_locked p m)) = turn_leave i (turn_of m)"
proof -
  obtain i where i: "i < length (m_queue m)" "m_queue m ! i = p" using q by (auto simp: in_set_conv_nth)
  have d: "distinct (m_queue m)" using inv by (simp add: core_inv_def live_ok_def live_def)
  have rm: "remove1 p (m_queue m) = take i (m_queue m) @ drop (Suc i) (m_queue m)"
    using remove1_at [OF d i(1)] i(2) by simp
  have c: "e_claims (entry (closeGates p (cancel p m)) r) = e_claims (entry m r)"
    if "r < length (m_entries m)" for r using that by simp
  have "turn_of (fst (Release_locked p m)) = turn_leave i (turn_of m)"
    using q queue_range [OF inv] active_range [OF inv] c
    by (cases "m_active m") (auto simp: Release_locked_def Release_unqueue turn_of_def turn_leave_def rm
        take_map drop_map dest!: in_set_takeD in_set_dropD)
  with i show ?thesis by blast
qed

text \<open>
  The abstract machine: a claim verified for this room arrives (if the policy and the depth of
  the wait list allow it), the controller's turn ends, or a waiting claim leaves.
\<close>

inductive turn_step :: "Config \<Rightarrow> turn \<Rightarrow> turn \<Rightarrow> bool" for cfg where
  claim: "c_RoomID c = cfg_RoomID cfg \<Longrightarrow> c_ViewerID c \<noteq> [] \<Longrightarrow> 0 < c_SessionSeconds c \<Longrightarrow>
     fst t = None \<or> cfg_QueuePolicy cfg = PolicyQueue \<and>
       (cfg_MaxQueueDepth cfg > 0 \<longrightarrow> int (length (snd t)) < cfg_MaxQueueDepth cfg) \<Longrightarrow>
     turn_step cfg t (turn_claim c t)"
| finish: "fst t \<noteq> None \<Longrightarrow> turn_step cfg t (turn_end t)"
| leave: "i < length (snd t) \<Longrightarrow> turn_step cfg t (turn_leave i t)"

inductive_cases turn_stepE: "turn_step cfg t t'"

lemma cfg_reachable: "sess_reachable v cfg pk s \<Longrightarrow> m_cfg (st_m s) = cfg \<and> m_pubKey (st_m s) = pk"
proof (induction rule: sess_reachable.induct)
  case (init now)
  then show ?case by (simp add: sess_init_def NewManager_def)
next
  case (step s a s')
  have "m_cfg (fst (Claim v now t m)) = m_cfg m \<and> m_pubKey (fst (Claim v now t m)) = m_pubKey m" for now t m
    by (cases rule: Claim_cases [of v now t m]) (simp_all add: startSessionLocked_def enqueueLocked_def Let_def)
  moreover have "m_pubKey (endSession now p k m) = m_pubKey m" for now p k m
    by (simp add: endSession_def promote_def startSessionLocked_def Let_def split: list.splits)
  moreover have "m_pubKey (fst (Gate vid m)) = m_pubKey m" for vid m
    unfolding Gate_def Let_def by (auto split: option.split)
  moreover have "m_pubKey (fold (\<lambda>p m. closeGates p (cancel p m)) qs m) = m_pubKey m" for qs m
    by (induction qs arbitrary: m) simp_all
  then have "m_pubKey (Run_locked m) = m_pubKey m" for m
    by (simp add: Run_locked_def Let_def split: option.splits)
  ultimately show ?case using step
    by (cases a) (auto simp: Release_locked_def call_end_def watch_tick_def watch_emit_def watch_done_def
      idle_fire_def Subscribe_def unsubscribe_def gate_recv_def gate_return_def gate_find_def gate_touch_def
      gate_check_def gate_forward_def Run_close_def Let_def
      split: if_splits prod.splits option.splits timer.splits gate_pc.splits watch_pc.splits)
qed

lemma turn_of_Run_locked: "core_inv m \<Longrightarrow> turn_of (Run_locked m) = turn_of m"
proof -
  assume inv: "core_inv m"
  have f: "e_claims (entry (fold (\<lambda>p m. closeGates p (cancel p m)) qs m') r) = e_claims (entry m' r)"
    if "r < length (m_entries m')" for qs m' r
    using that by (induction qs arbitrary: m') simp_all
  show ?thesis
    by (rule turn_of_cong)
      (use live_range [OF inv] f in \<open>auto simp: Run_locked_def Let_def split: option.splits\<close>)
qed

section \<open>A concrete manager\<close>

text \<open>A key pair under a toy signature, a configuration and tokens, for the examples below.\<close>

definition ex_verify :: verify_fun where "ex_verify p m s = (s = p @ m)"
definition ex_sign :: sign_fun where "ex_sign k m = k @ m"

definition ex_kp :: KeyPair where
  "ex_kp = \<lparr>kp_Private = replicate 32 (CHR ''k''), kp_Public = replicate 32 (CHR ''k'')\<rparr>"

definition ex_claims :: "string \<Rightarrow> Claims" where
  "ex_claims vid = \<lparr>c_Issuer = ''playgate-server'', c_IssuedAt = 1, c_ExpiresAt = 1000,
     c_RoomID = ''r1'', c_ViewerID = vid, c_SessionSeconds = 60\<rparr>"

definition ex_token :: "string \<Rightarrow> string" where
  "ex_token vid = IssueJWT ex_sign ex_kp (ex_claims vid)"

definition ex_cfg :: Config where
  "ex_cfg = \<lparr>cfg_RoomID = ''r1'', cfg_IdleTimeout = 30 * Second, cfg_TickInterval = 0,
     cfg_QueuePolicy = PolicyQueue, cfg_MaxQueueDepth = 4\<rparr>"

definition ex_init :: sess_state where
  "ex_init = sess_init ex_cfg (kp_Public ex_kp) 0"

lemma ex_parse:
  assumes "vid \<noteq> []" "now < 1000 * Second"
  shows "ParseAndVerify ex_verify (ex_token vid) (kp_Public ex_kp) now = Inr (ex_claims vid)"
proof -
  have "Unix now < 1000" using assms(2) by (simp add: Unix_def Second_def)
  then show ?thesis
    unfolding ex_token_def using assms(1)
    by (subst ParseAndVerify_issued)
      (simp_all add: ex_verify_def ex_sign_def ex_kp_def ex_claims_def PublicKeySize_def claims_int64_def
        in_int64_def int64_min_def int64_max_def check_claims_Inr)
qed

lemma ex_Claim:
  assumes "vid \<noteq> []" "now < 1000 * Second" "m_pubKey m = kp_Public ex_kp" "m_cfg m = ex_cfg"
  shows "Claim ex_verify now (ex_token vid) m =
    (if m_active m = None
     then let (m', p) = startSessionLocked now (ex_claims vid) m in (m', Inr p)
     else if 4 \<le> length (m_queue m) then (m, Inl ErrQueueFull)
     else let (m', p) = enqueueLocked now (ex_claims vid) m in (m', Inr p))"
  unfolding Claim_def assms(3) ex_parse [OF assms(1,2)] using assms(4)
  by (simp add: ex_cfg_def ex_claims_def)

text \<open>The state once \<open>v1\<close> has claimed control, and once \<open>v2\<close> waits behind it.\<close>

definition ex_s1 :: sess_state where
  "ex_s1 = set_m ex_init (fst (startSessionLocked 0 (ex_claims ''v1'') (st_m ex_init)))"

definition ex_s2 :: sess_state where
  "ex_s2 = set_m ex_s1 (fst (enqueueLocked 0 (ex_claims ''v2'') (st_m ex_s1)))"

lemma ex_init_reachable: "sess_reachable ex_verify ex_cfg (kp_Public ex_kp) ex_init"
  unfolding ex_init_def by (rule sess_reachable.init)

lemma ex_step1: "sess_step ex_verify (AClaim (ex_token ''v1'')) ex_init = Some ex_s1"
  by (simp add: ex_Claim ex_s1_def ex_init_def sess_init_def NewManager_def Second_def split: prod.split)

lemma ex_step2: "sess_step ex_verify (AClaim (ex_token ''v2'')) ex_s1 = Some ex_s2"
proof -
  have "m_pubKey (st_m ex_s1) = kp_Public ex_kp" "m_cfg (st_m ex_s1) = ex_cfg"
    "m_active (st_m ex_s1) \<noteq> None" "m_queue (st_m ex_s1) = []" "st_now ex_s1 = 0"
    by (simp_all add: ex_s1_def ex_init_def sess_init_def NewManager_def startSessionLocked_def Let_def)
  then show ?thesis by (auto simp: ex_Claim ex_s2_def Second_def split: prod.split)
qed

lemma ex_s1_reachable: "sess_reachable ex_verify ex_cfg (kp_Public ex_kp) ex_s1"
  by (rule sess_reachable.step [OF ex_init_reachable ex_step1])

lemma ex_s2_reachable: "sess_reachable ex_verify ex_cfg (kp_Public ex_kp) ex_s2"
  by (rule sess_reachable.step [OF ex_s1_reachable ex_step2])

text \<open>Viewer \<open>v1\<close> in control with a command on its way through its gate.\<close>

definition ex_state :: sess_state where
  "ex_state = the (sess_run ex_verify
     [AGate ''v1'', ARecv 0 neutral_command, AFind 0, ATouch 0, ACheck 0] ex_s2)"

lemma ex_run: "sess_run ex_verify
     [AGate ''v1'', ARecv 0 neutral_command, AFind 0, ATouch 0, ACheck 0] ex_s2 = Some ex_state"
proof -
  have "\<not> Option.is_none (sess_run ex_verify
     [AGate ''v1'', ARecv 0 neutral_command, AFind 0, ATouch 0, ACheck 0] ex_s2)" by code_simp
  then show ?thesis by (auto simp: ex_state_def Option.is_none_def)
qed

lemma ex_reachable: "sess_reachable ex_verify ex_cfg (kp_Public ex_kp) ex_state"
  by (rule sess_run_reachable [OF ex_s2_reachable ex_run])

text \<open>Steps that concern neither the controller nor the wait list leave both, and the claims, alone.\<close>

definition turn_action :: "action \<Rightarrow> bool" where
  "turn_action a \<longleftrightarrow> (case a of AClaim _ \<Rightarrow> True | AEndSession _ \<Rightarrow> True | ARelease _ \<Rightarrow> True | ARunStop \<Rightarrow> True
     | _ \<Rightarrow> False)"

definition watch_action :: "action \<Rightarrow> bool" where
  "watch_action a \<longleftrightarrow> (case a of ATick _ \<Rightarrow> True | ATickEmit _ \<Rightarrow> True | AWatchDone _ \<Rightarrow> True | _ \<Rightarrow> False)"

lemma quiet_step:
  assumes "sess_step v a s = Some s'" and "\<not> turn_action a"
  shows "m_active (st_m s') = m_active (st_m s)" "m_queue (st_m s') = m_queue (st_m s)"
    "length (m_entries (st_m s')) = length (m_entries (st_m s))"
    "q < length (m_entries (st_m s)) \<Longrightarrow> e_claims (entry (st_m s') q) = e_claims (entry (st_m s) q)"
    "q < length (m_entries (st_m s)) \<Longrightarrow> e_deadline (entry (st_m s') q) = e_deadline (entry (st_m s) q)"
    "set (st_pending s) \<subseteq> set (st_pending s')"
    "q < length (m_entries (st_m s)) \<Longrightarrow> \<not> watch_action a \<Longrightarrow>
       e_watch (entry (st_m s') q) = e_watch (entry (st_m s) q)"
  using assms
  by (cases a; auto simp: turn_action_def watch_action_def call_end_def watch_tick_def watch_emit_def
      watch_done_def idle_fire_def Subscribe_def unsubscribe_def Run_close_def Let_def gate_recv_def
      gate_return_def gate_find_def gate_touch_def gate_check_def gate_forward_def
      split: if_splits option.splits timer.splits watch_pc.splits gate_pc.splits)+

section \<open>A session is always looked after\<close>

lemma watched_frame:
  assumes w: "watched s" and inv: "core_inv (st_m s)"
    and a: "m_active (st_m s') = m_active (st_m s)"
    and e: "\<And>p. p < length (m_entries (st_m s)) \<Longrightarrow>
       e_watch (entry (st_m s') p) = e_watch (entry (st_m s) p) \<or>
       e_watch (entry (st_m s') p) \<in> {Watching} \<union> range Ticking \<or> p \<in> fst ` set (st_pending s')"
    and d: "\<And>p. p < length (m_entries (st_m s)) \<Longrightarrow> e_deadline (entry (st_m s') p) = e_deadline (entry (st_m s) p)"
    and pe: "set (st_pending s) \<subseteq> set (st_pending s')"
  shows "watched s'"
  unfolding watched_def
proof (intro allI impI)
  fix p assume p: "m_active (st_m s') = Some p"
  then have r: "p < length (m_entries (st_m s))" using a active_range [OF inv] by simp
  have "e_deadline (entry (st_m s) p) \<noteq> None" "e_watch (entry (st_m s) p) \<in> {Watching} \<union> range Ticking
    \<or> p \<in> fst ` set (st_pending s)"
    using w p a by (auto simp: watched_def)
  then show "e_deadline (entry (st_m s') p) \<noteq> None \<and>
     (e_watch (entry (st_m s') p) \<in> {Watching} \<union> range Ticking \<or> p \<in> fst ` set (st_pending s'))"
    using d [OF r] e [OF r] pe by auto
qed

lemma endSession_watch:
  assumes "core_inv m" and "m_active m = Some p" and "m_active (endSession now p kind m) = Some q"
  shows "e_deadline (entry (endSession now p kind m) q) \<noteq> None
       \<and> e_watch (entry (endSession now p kind m) q) = Watching"
proof -
  define m3 where "m3 = closeGates p (cancel p (upd_entry p (\<lambda>e. e\<lparr>e_idleTimer := None\<rparr>) m))"
  define mm where "mm = emitEvent (newEvent now kind (e_viewerID (entry (m3\<lparr>m_active := None\<rparr>) p)) 0 0) (m3\<lparr>m_active := None\<rparr>)"
  have eq: "endSession now p kind m = promote now mm"
    using assms(2) by (simp add: endSession_def Let_def m3_def mm_def)
  have q: "m_queue mm = m_queue m" "length (m_entries mm) = length (m_entries m)" "m_active mm = None"
    by (simp_all add: m3_def mm_def)
  show ?thesis
  proof (cases "m_queue m")
    case Nil
    with q assms(3) show ?thesis by (simp add: eq promote_Nil)
  next
    case (Cons nx rest)
    then have "nx < length (m_entries mm)" using queue_range [OF assms(1)] q by simp
    note pro = promote_Cons [of mm nx rest, OF _ this]
    show ?thesis using assms(3) Cons q by (auto simp: eq pro pro(9) [unfolded q(2)])
  qed
qed

lemma pending_other:
  assumes k: "k < length xs" and q: "q \<in> fst ` set xs" "q \<noteq> fst (xs ! k)"
  shows "q \<in> fst ` set (take k xs @ drop (Suc k) xs)"
proof -
  have "set xs = set (take k xs @ xs ! k # drop (Suc k) xs)" using id_take_nth_drop [OF k] by simp
  with q show ?thesis by auto
qed

lemma watched_quiet:
  assumes w: "watched s" and inv: "core_inv (st_m s)" and st: "sess_step v a s = Some s'"
    and q: "\<not> turn_action a" "\<not> watch_action a"
  shows "watched s'"
proof (rule watched_frame [OF w inv])
  show "m_active (st_m s') = m_active (st_m s)" "set (st_pending s) \<subseteq> set (st_pending s')"
    using quiet_step [OF st q(1)] by blast+
  fix p assume "p < length (m_entries (st_m s))"
  then show "e_deadline (entry (st_m s') p) = e_deadline (entry (st_m s) p)"
    "e_watch (entry (st_m s') p) = e_watch (entry (st_m s) p) \<or>
       e_watch (entry (st_m s') p) \<in> {Watching} \<union> range Ticking \<or> p \<in> fst ` set (st_pending s')"
    using quiet_step [OF st q(1)] q(2) by simp_all
qed

lemma watched_step:
  assumes w: "watched s" and inv: "core_inv (st_m s)" and st: "sess_step v a s = Some s'"
  shows "watched s'"
proof (cases a)
  case (AClaim token)
  then have s': "s' = set_m s (fst (Claim v (st_now s) token (st_m s)))" using st by simp
  show ?thesis
  proof (cases rule: Claim_cases [of v "st_now s" token "st_m s"])
    case (start c)
    then show ?thesis by (simp add: s' watched_def startSessionLocked_def Let_def)
  next
    case (enqueue c)
    then show ?thesis
      by (intro watched_frame [OF w inv]) (simp_all add: s' enqueueLocked_def Let_def nth_append)
  qed (use w s' in simp)
next
  case (AEndSession k)
  then obtain p kind where k: "k < length (st_pending s)" "st_pending s ! k = (p, kind)"
    and s': "s' = s\<lparr>st_m := endSession (st_now s) p kind (st_m s),
                st_pending := take k (st_pending s) @ drop (Suc k) (st_pending s)\<rparr>"
    using st by (auto split: if_splits prod.splits)
  show ?thesis
  proof (cases "m_active (st_m s) = Some p")
    case True
    then show ?thesis using endSession_watch [OF inv True] by (simp add: watched_def s')
  next
    case False
    then have "endSession (st_now s) p kind (st_m s) = st_m s" by (simp add: endSession_def)
    moreover have "q \<in> fst ` set (st_pending s')" if "m_active (st_m s) = Some q" "q \<in> fst ` set (st_pending s)" for q
      using pending_other [OF k(1) that(2)] that(1) False k(2) by (simp add: s')
    ultimately show ?thesis using w by (simp add: watched_def s') blast
  qed
next
  case (ARelease p)
  with st show ?thesis
    by (intro watched_frame [OF w inv]) (auto simp: Release_locked_def call_end_def split: if_splits)
next
  case AKick
  with st show ?thesis
    by (intro watched_frame [OF w inv]) (auto simp: call_end_def split: option.splits)
next
  case ARunStop
  have "e_watch (entry (fold (\<lambda>p m. closeGates p (cancel p m)) qs m') r) = e_watch (entry m' r)
      \<and> e_deadline (entry (fold (\<lambda>p m. closeGates p (cancel p m)) qs m') r) = e_deadline (entry m' r)"
    if "r < length (m_entries m')" for qs m' r
    using that by (induction qs arbitrary: m') simp_all
  then have "e_watch (entry (Run_locked m') r) = e_watch (entry m' r)
      \<and> e_deadline (entry (Run_locked m') r) = e_deadline (entry m' r)"
    if "r < length (m_entries m')" for m' r
    using that by (simp add: Run_locked_def Let_def split: option.splits)
  with ARunStop st show ?thesis by (intro watched_frame [OF w inv]) (auto split: if_splits)
next
  case (ATick p)
  with st show ?thesis
    by (intro watched_frame [OF w inv])
      (auto simp: watch_tick_def Let_def split: if_splits option.splits)
next
  case (ATickEmit p)
  with st show ?thesis
    by (intro watched_frame [OF w inv]) (auto simp: watch_emit_def split: if_splits watch_pc.splits)
next
  case (AWatchDone p)
  with st show ?thesis
    by (intro watched_frame [OF w inv]) (auto simp: watch_done_def call_end_def split: if_splits)
qed (use watched_quiet [OF w inv st] in \<open>simp_all add: turn_action_def watch_action_def\<close>)

lemma watched_reachable: "sess_reachable v cfg pk s \<Longrightarrow> watched s"
proof (induction rule: sess_reachable.induct)
  case (init now)
  show ?case by (simp add: sess_init_def watched_def NewManager_def)
next
  case (step s a s')
  then show ?case using watched_step sess_inv_reachable unfolding sess_inv_def by blast
qed

lemma sess_run_append:
  "sess_run v (as @ bs) s = Option.bind (sess_run v as s) (sess_run v bs)"
  by (induction as arbitrary: s) (auto split: bind_splits)

text \<open>A finished context stays finished: deadlines are fixed, and nothing revives a cancelled context.\<close>

lemma endSession_ctx:
  assumes "core_inv m" and "q < length (m_entries m)"
  shows "q < length (m_entries (endSession now p kind m))"
    "e_deadline (entry (endSession now p kind m) q) = e_deadline (entry m q)"
    "e_cancelled (entry m q) \<Longrightarrow> e_cancelled (entry (endSession now p kind m) q)"
    "m_active (endSession now p kind m) = Some q \<longleftrightarrow> p \<noteq> q \<and> m_active m = Some q"
proof -
  define m3 where "m3 = closeGates p (cancel p (upd_entry p (\<lambda>e. e\<lparr>e_idleTimer := None\<rparr>) m))"
  define mm where "mm = emitEvent (newEvent now kind (e_viewerID (entry (m3\<lparr>m_active := None\<rparr>) p)) 0 0) (m3\<lparr>m_active := None\<rparr>)"
  have eq: "endSession now p kind m = (if m_active m = Some p then promote now mm else m)"
    by (simp add: endSession_def Let_def m3_def mm_def)
  have mm: "m_queue mm = m_queue m" "length (m_entries mm) = length (m_entries m)" "m_active mm = None"
    "e_deadline (entry mm q) = e_deadline (entry m q)" "e_cancelled (entry m q) \<Longrightarrow> e_cancelled (entry mm q)"
    using assms(2) by (simp_all add: m3_def mm_def)
  have "q < length (m_entries (promote now mm)) \<and> e_deadline (entry (promote now mm) q) = e_deadline (entry m q)
      \<and> (e_cancelled (entry m q) \<longrightarrow> e_cancelled (entry (promote now mm) q)) \<and> m_active (promote now mm) \<noteq> Some q"
  proof (cases "m_queue m")
    case Nil
    then show ?thesis using mm assms(2) by (simp add: promote_def)
  next
    case (Cons nx rest)
    then have nx: "nx < length (m_entries mm)" using queue_range [OF assms(1)] mm by simp
    note pro = promote_Cons(1,8,10) [where m = mm and now = now, OF mm(1) [unfolded Cons] nx]
    have "entry (promote now mm) q = (if q = nx then (entry mm q)\<lparr>e_cancelled := True, e_gates := []\<rparr> else entry mm q)"
      using pro(3) [of q] mm(2) assms(2) by simp
    then show ?thesis using mm(2,4,5) assms(2) pro(1,2) by (cases "q = nx") simp_all
  qed
  then show "q < length (m_entries (endSession now p kind m))"
    "e_deadline (entry (endSession now p kind m) q) = e_deadline (entry m q)"
    "e_cancelled (entry m q) \<Longrightarrow> e_cancelled (entry (endSession now p kind m) q)"
    "m_active (endSession now p kind m) = Some q \<longleftrightarrow> p \<noteq> q \<and> m_active m = Some q"
    using assms(2) by (auto simp: eq)
qed

lemma ctx_done_mono:
  "ctx_done now e \<Longrightarrow> now \<le> now' \<Longrightarrow> e_deadline e' = e_deadline e \<Longrightarrow> (e_cancelled e \<Longrightarrow> e_cancelled e') \<Longrightarrow> ctx_done now' e'"
  by (auto simp: ctx_done_def split: option.splits)

lemma touchIdle_cancelled [simp]: "e_cancelled (touchIdle now e) = e_cancelled e"
  by (simp add: touchIdle_def split: option.splits)

lemma Gate_cancelled [simp]:
  "q < length (m_entries m) \<Longrightarrow> e_cancelled (entry (fst (Gate vid m)) q) = e_cancelled (entry m q)"
  by (auto simp: Gate_def Let_def split: option.splits)

lemma quiet_cancelled:
  assumes "sess_step v a s = Some s'" and "\<not> turn_action a" and "q < length (m_entries (st_m s))"
  shows "e_cancelled (entry (st_m s') q) = e_cancelled (entry (st_m s) q) \<and> st_now s \<le> st_now s'"
  using assms
  by (cases a; auto simp: turn_action_def call_end_def watch_tick_def watch_emit_def
      watch_done_def idle_fire_def Subscribe_def unsubscribe_def Run_close_def Let_def gate_recv_def
      gate_return_def gate_find_def gate_touch_def gate_check_def gate_forward_def
      split: if_splits option.splits timer.splits watch_pc.splits gate_pc.splits)

lemma Run_locked_ctx:
  assumes "q < length (m_entries m)"
  shows "q < length (m_entries (Run_locked m)) \<and> e_deadline (entry (Run_locked m) q) = e_deadline (entry m q)
    \<and> (e_cancelled (entry m q) \<longrightarrow> e_cancelled (entry (Run_locked m) q))"
proof -
  have "q < length (m_entries (fold (\<lambda>p m. closeGates p (cancel p m)) qs m'))
      \<and> e_deadline (entry (fold (\<lambda>p m. closeGates p (cancel p m)) qs m') q) = e_deadline (entry m' q)
      \<and> (e_cancelled (entry m' q) \<longrightarrow> e_cancelled (entry (fold (\<lambda>p m. closeGates p (cancel p m)) qs m') q))"
    if "q < length (m_entries m')" for qs m'
    using that by (induction qs arbitrary: m') simp_all
  with assms show ?thesis by (simp add: Run_locked_def Let_def split: option.splits)
qed

lemma turn_actionE:
  assumes "turn_action a"
  obtains token where "a = AClaim token" | k where "a = AEndSession k" | q where "a = ARelease q" | "a = ARunStop"
  using assms by (auto simp: turn_action_def split: action.splits)

text \<open>What no step does to an entry: an entry that has lost control does not get it back, either.\<close>

lemma entry_step:
  assumes inv: "core_inv (st_m s)" and st: "sess_step v a s = Some s'" and p: "p < length (m_entries (st_m s))"
  shows "p < length (m_entries (st_m s')) \<and> st_now s \<le> st_now s'
    \<and> e_deadline (entry (st_m s') p) = e_deadline (entry (st_m s) p)
    \<and> (e_cancelled (entry (st_m s) p) \<longrightarrow> e_cancelled (entry (st_m s') p))
    \<and> (m_active (st_m s') = Some p \<longrightarrow> m_active (st_m s) = Some p)"
proof (cases "turn_action a")
  case False
  show ?thesis using quiet_step(1,3,5) [OF st False] quiet_cancelled [OF st False p] p by auto
next
  case True
  then show ?thesis
  proof (cases rule: turn_actionE)
    case (1 token)
    then have "s' = set_m s (fst (Claim v (st_now s) token (st_m s)))" using st by simp
    then show ?thesis using p
      by (cases rule: Claim_cases [of v "st_now s" token "st_m s"])
        (simp_all add: startSessionLocked_def enqueueLocked_def Let_def nth_append)
  next
    case (2 k)
    then show ?thesis using st endSession_ctx [OF inv p] p by (auto split: if_splits prod.splits)
  next
    case (3 q)
    then show ?thesis using st p by (auto simp: Release_locked_def call_end_def split: if_splits)
  next
    case 4
    then show ?thesis using st Run_locked_ctx [OF p] by (auto split: if_splits)
  qed
qed

lemma core_inv_run: "core_inv (st_m s) \<Longrightarrow> sess_run v as s = Some s' \<Longrightarrow> core_inv (st_m s')"
  by (induction as arbitrary: s) (auto split: bind_splits dest: core_inv_step)

lemma entry_run:
  "core_inv (st_m s) \<Longrightarrow> sess_run v as s = Some s' \<Longrightarrow> p < length (m_entries (st_m s)) \<Longrightarrow>
   st_now s \<le> st_now s' \<and> e_deadline (entry (st_m s') p) = e_deadline (entry (st_m s) p)
    \<and> (e_cancelled (entry (st_m s) p) \<longrightarrow> e_cancelled (entry (st_m s') p))
    \<and> (m_active (st_m s') = Some p \<longrightarrow> m_active (st_m s) = Some p)"
proof (induction as arbitrary: s)
  case (Cons a as)
  then obtain s1 where st: "sess_step v a s = Some s1" and run: "sess_run v as s1 = Some s'" by (auto split: bind_splits)
  have "p < length (m_entries (st_m s1))" using entry_step [OF Cons.prems(1) st Cons.prems(3)] by blast
  from Cons.IH [OF core_inv_step [OF Cons.prems(1) st] run this] entry_step [OF Cons.prems(1) st Cons.prems(3)]
  show ?case by auto
qed simp

lemma done_run:
  assumes "core_inv (st_m s)" "sess_run v as s = Some s'" "p < length (m_entries (st_m s))"
    and "ctx_done (st_now s) (entry (st_m s) p)"
  shows "ctx_done (st_now s') (entry (st_m s') p)"
  using entry_run [OF assms(1-3)] ctx_done_mono [OF assms(4)] by blast

text \<open>A call of \<^verbatim>\<open>endSession\<close> stays pending as long as the turn it names lasts.\<close>

lemma pending_pair:
  assumes k: "k < length xs" and q: "x \<in> set xs" "x \<noteq> xs ! k"
  shows "x \<in> set (take k xs @ drop (Suc k) xs)"
proof -
  have "set xs = set (take k xs @ xs ! k # drop (Suc k) xs)" using id_take_nth_drop [OF k] by simp
  with q show ?thesis by auto
qed

lemma pending_step:
  assumes inv: "core_inv (st_m s)" and st: "sess_step v a s = Some s'" and p: "p < length (m_entries (st_m s))"
    and c: "(p, kind) \<in> set (st_pending s)" and act: "m_active (st_m s') = Some p"
  shows "(p, kind) \<in> set (st_pending s')"
proof (cases "turn_action a")
  case False
  then show ?thesis using quiet_step(6) [OF st] c by blast
next
  case True
  then show ?thesis
  proof (cases rule: turn_actionE)
    case (2 k)
    then have k: "k < length (st_pending s)" using st by (simp split: if_splits)
    then have "(p, kind) \<noteq> st_pending s ! k"
      using 2 st act endSession_ctx(4) [OF inv p] by (auto split: prod.splits)
    from pending_pair [OF k c this] show ?thesis using 2 st k by (simp split: prod.splits) (auto)
  next
    case (3 q)
    then show ?thesis using st c by (auto simp: call_end_def split: if_splits option.splits prod.splits)
  qed (use st c in \<open>auto split: if_splits\<close>)
qed

lemma pending_run:
  "core_inv (st_m s) \<Longrightarrow> sess_run v as s = Some s' \<Longrightarrow> p < length (m_entries (st_m s)) \<Longrightarrow>
   (p, kind) \<in> set (st_pending s) \<Longrightarrow> m_active (st_m s') = Some p \<Longrightarrow> (p, kind) \<in> set (st_pending s')"
proof (induction as arbitrary: s)
  case (Cons a as)
  then obtain s1 where st: "sess_step v a s = Some s1" and run: "sess_run v as s1 = Some s'" by (auto split: bind_splits)
  have inv: "core_inv (st_m s1)" by (rule core_inv_step [OF Cons.prems(1) st])
  have p: "p < length (m_entries (st_m s1))" using entry_step [OF Cons.prems(1) st Cons.prems(3)] by blast
  have "m_active (st_m s1) = Some p" using entry_run [OF inv run p] Cons.prems(5) by blast
  then have "(p, kind) \<in> set (st_pending s1)" by (rule pending_step [OF Cons.prems(1) st Cons.prems(3,4)])
  then show ?case by (rule Cons.IH [OF inv run p _ Cons.prems(5)])
qed simp

text \<open>A pending call that names the controller ends its turn.\<close>

lemma end_pending:
  assumes "core_inv (st_m s)" and "m_active (st_m s) = Some p" and "p \<in> fst ` set (st_pending s)"
  shows "\<exists>k s'. k < length (st_pending s) \<and> fst (st_pending s ! k) = p
    \<and> sess_step v (AEndSession k) s = Some s' \<and> turn_of (st_m s') = turn_end (turn_of (st_m s))"
proof -
  obtain kind where "(p, kind) \<in> set (st_pending s)" using assms(3) by auto
  then obtain k where k: "k < length (st_pending s)" "st_pending s ! k = (p, kind)"
    by (auto simp: in_set_conv_nth)
  then show ?thesis using turn_of_endSession [OF assms(1,2), of "st_now s" kind]
    by (intro exI [of _ k]) simp
qed

text \<open>The watcher at its \<^verbatim>\<open>select\<close> takes the finished context, and the call it makes ends the turn.\<close>

lemma end_expired:
  assumes inv: "core_inv (st_m s)" and act: "m_active (st_m s) = Some p"
    and w: "e_watch (entry (st_m s) p) = Watching" and d: "ctx_done (st_now s) (entry (st_m s) p)"
  shows "\<exists>s1 k s'. sess_run v [AWatchDone p] s = Some s1 \<and> k < length (st_pending s1) \<and> fst (st_pending s1 ! k) = p
    \<and> sess_step v (AEndSession k) s1 = Some s' \<and> turn_of (st_m s') = turn_end (turn_of (st_m s))"
proof -
  let ?m = "upd_entry p (\<lambda>e. e\<lparr>e_watch := WatchReturned\<rparr>) (st_m s)"
  let ?s = "call_end s ?m (p, EventExpired)"
  have p: "p < length (m_entries (st_m s))" by (rule active_range [OF inv act])
  have 1: "sess_step v (AWatchDone p) s = Some ?s" using p w d by (simp add: watch_done_def)
  have "core_inv (st_m ?s)" using core_inv_step [OF inv 1] .
  moreover have "m_active (st_m ?s) = Some p" "p \<in> fst ` set (st_pending ?s)"
    using act by (simp_all add: call_end_def)
  ultimately obtain k s' where 2: "k < length (st_pending ?s)" "fst (st_pending ?s ! k) = p"
    "sess_step v (AEndSession k) ?s = Some s'" "turn_of (st_m s') = turn_end (turn_of (st_m ?s))" using end_pending by blast
  have "turn_of (st_m ?s) = turn_of (st_m s)"
    by (rule turn_of_cong) (use live_range [OF inv] in \<open>simp_all add: call_end_def\<close>)
  with 1 2 show ?thesis by (intro exI [of _ ?s] exI [of _ k] exI [of _ s']) simp
qed

lemma end_turn:
  assumes r: "sess_reachable v cfg pk s" and act: "m_active (st_m s) = Some p" and d: "ctx_done (st_now s) (entry (st_m s) p)"
  shows "\<exists>pre s1 k s'. pre \<in> {[], [AWatchDone p], [ATickEmit p, AWatchDone p]} \<and> sess_run v pre s = Some s1
    \<and> k < length (st_pending s1) \<and> fst (st_pending s1 ! k) = p
    \<and> sess_step v (AEndSession k) s1 = Some s' \<and> turn_of (st_m s') = turn_end (turn_of (st_m s))"
proof -
  have inv: "core_inv (st_m s)" using sess_inv_reachable [OF r] by (simp add: sess_inv_def)
  have p: "p < length (m_entries (st_m s))" by (rule active_range [OF inv act])
  consider "e_watch (entry (st_m s) p) = Watching" | n where "e_watch (entry (st_m s) p) = Ticking n"
    | "p \<in> fst ` set (st_pending s)"
    using watched_reachable [OF r] act by (auto simp: watched_def)
  then show ?thesis
  proof cases
    case 1
    then show ?thesis using end_expired [OF inv act _ d] by blast
  next
    case (2 n)
    define s1 where "s1 = the (sess_step v (ATickEmit p) s)"
    have st: "sess_step v (ATickEmit p) s = Some s1" using 2 p by (simp add: watch_emit_def s1_def)
    have m1: "e_watch (entry (st_m s1) p) = Watching" "ctx_done (st_now s1) (entry (st_m s1) p)"
      "m_active (st_m s1) = Some p"
      using 2 p act d by (simp_all add: s1_def watch_emit_def ctx_done_def)
    have "turn_of (st_m s1) = turn_of (st_m s)"
      by (rule turn_of_cong) (use 2 p live_range [OF inv] in \<open>simp_all add: s1_def watch_emit_def\<close>)
    then show ?thesis using end_expired [OF core_inv_step [OF inv st] m1(3,1,2), of v] st
      by (intro exI [of _ "[ATickEmit p, AWatchDone p]"]) simp
  next
    case 3
    then obtain k s' where "k < length (st_pending s)" "fst (st_pending s ! k) = p"
      "sess_step v (AEndSession k) s = Some s'" "turn_of (st_m s') = turn_end (turn_of (st_m s))"
      using end_pending [OF inv act] by blast
    then show ?thesis by (intro exI [of _ "[]"] exI [of _ s] exI [of _ k] exI [of _ s']) simp
  qed
qed

section \<open>Properties\<close>

text \<open>
  C1. Only the controller plays. In every state the manager can reach, whatever the interleaving
  of claims, releases, kicks, timers, watchers and gate goroutines: if a step puts a command into
  the output channel of a gate, it is the forward step of that gate's goroutine and the viewer of
  the gate holds control at that very moment, although the goroutine looked at the controller in
  an earlier step and without keeping the lock.
\<close>

theorem only_controller_forwards:
  assumes "sess_reachable v cfg pk s" and "i < length (m_gates (st_m s))"
    and "sess_step v a s = Some s'"
    and "length (ch_buf (g_ch (gate (st_m s') i))) > length (ch_buf (g_ch (gate (st_m s) i)))"
  shows "a = AForward i \<and> CurrentViewerID (st_m s) = g_viewerID (gate (st_m s) i)"
proof -
  have "length (m_gates (st_m s)) \<le> length (m_gates (st_m s'))"
    using gates_grow [OF assms(3)] .
  then have "length (gbufs (st_m s') ! i) > length (gbufs (st_m s) ! i)"
    using assms(2,4) by (simp add: gbufs_def)
  then show ?thesis by (rule forward_controller [OF assms(1,2,3)])
qed

theorem only_controller_forwards_witness:
  "CurrentViewerID (st_m ex_state) = g_viewerID (gate (st_m ex_state) 0)
   \<and> ch_buf (g_ch (gate (st_m (the (sess_step ex_verify (AForward 0) ex_state))) 0)) = [neutral_command]"
proof -
  have n: "0 < length (m_gates (st_m ex_state))" by code_simp
  have "\<not> Option.is_none (sess_step ex_verify (AForward 0) ex_state)" by code_simp
  then obtain s' where s': "sess_step ex_verify (AForward 0) ex_state = Some s'"
    by (auto simp: Option.is_none_def)
  have "length (ch_buf (g_ch (gate (st_m (the (sess_step ex_verify (AForward 0) ex_state))) 0)))
      > length (ch_buf (g_ch (gate (st_m ex_state) 0)))" by code_simp
  moreover have "ch_buf (g_ch (gate (st_m (the (sess_step ex_verify (AForward 0) ex_state))) 0))
     = [neutral_command]" by code_simp
  ultimately show ?thesis
    using only_controller_forwards [OF ex_reachable n s'] s' by simp
qed

text \<open>
  C3. No channel is misused. In every reachable state no goroutine has sent on a closed channel
  or closed one twice, on the shared event channel, on any subscriber's channel, and on any
  gate's output and done channel; and no channel holds more than its capacity.
\<close>

theorem session_no_panic:
  assumes "sess_reachable v cfg pk s"
  shows "chan_ok (m_eventsOut (st_m s)) \<and> list_all chan_ok (m_subChans (st_m s))
    \<and> list_all (\<lambda>g. chan_ok (g_ch g) \<and> chan_ok (g_done g)) (m_gates (st_m s))"
  using sess_inv_reachable [OF assms]
  by (auto simp: sess_inv_def chans_inv_def core_inv_def gates_ok_def gate_ok_def list_all_length)

theorem session_no_panic_witness:
  "chan_ok (m_eventsOut (st_m ex_state)) \<and> list_all chan_ok (m_subChans (st_m ex_state))
    \<and> list_all (\<lambda>g. chan_ok (g_ch g) \<and> chan_ok (g_done g)) (m_gates (st_m ex_state))"
  by (rule session_no_panic [OF ex_reachable])

text \<open>
  C2. Refinement. Every step of the manager, seen through the claims of its controller and of
  its wait list, either changes nothing or is a step of the abstract machine: a claim verified
  for this room takes the free slot or goes to the end of the list if policy and depth allow,
  the controller's turn ends and the longest-waiting claim takes over, or a waiting claim leaves.
\<close>

theorem session_refines_fifo:
  assumes "sess_reachable v cfg pk s" and "sess_step v a s = Some s'"
  shows "turn_of (st_m s') = turn_of (st_m s) \<or> turn_step cfg (turn_of (st_m s)) (turn_of (st_m s'))"
proof -
  let ?m = "st_m s"
  have inv: "core_inv ?m" using sess_inv_reachable [OF assms(1)] by (simp add: sess_inv_def)
  have cfg: "m_cfg ?m = cfg" using cfg_reachable [OF assms(1)] by simp
  have cong: ?thesis if "m_active (st_m s') = m_active ?m" "m_queue (st_m s') = m_queue ?m"
    "\<And>q. q < length (m_entries ?m) \<Longrightarrow> e_claims (entry (st_m s') q) = e_claims (entry ?m q)"
    using turn_of_cong [of "st_m s'" ?m] live_range [OF inv] that by blast
  show ?thesis
  proof (cases a)
    case (AClaim token)
    then have s': "st_m s' = fst (Claim v (st_now s) token ?m)" using assms(2) by auto
    show ?thesis
    proof (cases rule: Claim_cases [of v "st_now s" token ?m])
      case (start c)
      then show ?thesis using s' turn_of_start [OF inv] ParseAndVerify_facts [OF start(1)] cfg
        by (auto intro!: turn_step.claim simp: turn_of_def)
    next
      case (enqueue c)
      then show ?thesis using s' turn_of_enqueue [OF inv] ParseAndVerify_facts [OF enqueue(1)] cfg
        by (auto intro!: turn_step.claim simp: turn_of_def)
    qed (use s' in simp)
  next
    case (AEndSession k)
    then obtain p kind where s': "st_m s' = endSession (st_now s) p kind ?m"
      using assms(2) by (auto split: if_splits prod.splits)
    show ?thesis
    proof (cases "m_active ?m = Some p")
      case True
      then show ?thesis using s' turn_of_endSession [OF inv True] turn_step.finish [of "turn_of ?m" cfg]
        by (simp add: turn_of_def)
    qed (simp add: s' endSession_def)
  next
    case (ARelease p)
    then have "st_m s' = fst (Release_locked p ?m)" using assms(2)
      by (auto simp: call_end_def split: if_splits prod.splits option.splits)
    then show ?thesis
      using turn_of_Release_locked [OF inv, of p] turn_step.leave [of _ "turn_of ?m" cfg]
      by (fastforce simp: Release_locked_def turn_of_def [of ?m])
  next
    case ARunStop
    with assms(2) turn_of_Run_locked [OF inv] show ?thesis by (auto split: if_splits)
  qed (use quiet_step [OF assms(2)] cong in \<open>auto simp: turn_action_def\<close>)
qed

theorem session_refines_fifo_witness:
  "turn_of (st_m ex_s1) \<noteq> turn_of (st_m ex_s2)
   \<and> turn_step ex_cfg (turn_of (st_m ex_s1)) (turn_of (st_m ex_s2))"
proof -
  have "snd (turn_of (st_m ex_s1)) \<noteq> snd (turn_of (st_m ex_s2))" by code_simp
  then have "turn_of (st_m ex_s1) \<noteq> turn_of (st_m ex_s2)" by auto
  then show ?thesis using session_refines_fifo [OF ex_s1_reachable ex_step2] by simp
qed

text \<open>
  C4. Hand-over. Once the context of the controller is done (its deadline has passed or it was
  cancelled) it stays done, and as long as the viewer is still in control, whatever claims,
  releases, kicks, timers and clients have done in between (\<open>as\<close>), the turn's own goroutines can end it
  at once and without anybody's help: a call of \<^verbatim>\<open>endSession\<close> for this turn is pending already, or its
  watcher makes one in at most two steps of its own (it finishes the tick it is in and takes the
  finished context); when that call gets the lock, the longest-waiting claim, if any, is in control,
  and the slot is free otherwise.
\<close>

theorem session_hands_over:
  assumes "sess_reachable v cfg pk s" and "m_active (st_m s) = Some p"
    and "ctx_done (st_now s) (entry (st_m s) p)"
    and "sess_run v as s = Some s1" and "m_active (st_m s1) = Some p"
  shows "ctx_done (st_now s1) (entry (st_m s1) p)
    \<and> (\<exists>own s2 k s'. own \<in> {[], [AWatchDone p], [ATickEmit p, AWatchDone p]} \<and> sess_run v own s1 = Some s2
        \<and> k < length (st_pending s2) \<and> fst (st_pending s2 ! k) = p
        \<and> sess_step v (AEndSession k) s2 = Some s' \<and> turn_of (st_m s') = turn_end (turn_of (st_m s1)))"
proof -
  have inv: "core_inv (st_m s)" using sess_inv_reachable [OF assms(1)] by (simp add: sess_inv_def)
  have d: "ctx_done (st_now s1) (entry (st_m s1) p)"
    by (rule done_run [OF inv assms(4) active_range [OF inv assms(2)] assms(3)])
  then show ?thesis using end_turn [OF sess_run_reachable [OF assms(1,4)] assms(5)] by blast
qed

definition ex_late :: sess_state where
  "ex_late = ex_s2\<lparr>st_now := 60000000000\<rparr>"

theorem session_hands_over_witness:
  "\<exists>s1 s2 k s'. sess_run ex_verify [AGate ''v2'', ATick 0, ASubscribe] ex_late = Some s1
     \<and> sess_run ex_verify [ATickEmit 0, AWatchDone 0] s1 = Some s2
     \<and> sess_step ex_verify (AEndSession k) s2 = Some s'
     \<and> map_option c_ViewerID (fst (turn_of (st_m s'))) = Some ''v2''"
proof -
  let ?as = "[AGate ''v2'', ATick 0, ASubscribe]"
  have n: "st_now ex_s2 = 0" by code_simp
  have "sess_step ex_verify (AAdvance 60000000000) ex_s2 = Some ex_late" by (simp add: ex_late_def n)
  then have r: "sess_reachable ex_verify ex_cfg (kp_Public ex_kp) ex_late"
    by (rule sess_reachable.step [OF ex_s2_reachable])
  have a: "m_active (st_m ex_late) = Some 0" by code_simp
  have d: "ctx_done (st_now ex_late) (entry (st_m ex_late) 0)" by code_simp
  define s1 where "s1 = the (sess_run ex_verify ?as ex_late)"
  have "\<not> Option.is_none (sess_run ex_verify ?as ex_late)" by code_simp
  then have s1: "sess_run ex_verify ?as ex_late = Some s1" by (auto simp: s1_def Option.is_none_def)
  have a1: "m_active (st_m s1) = Some 0" unfolding s1_def by code_simp
  have t: "map_option c_ViewerID (fst (turn_end (turn_of (st_m s1)))) = Some ''v2''" unfolding s1_def by code_simp
  have no: "st_pending s1 = []" "Option.is_none (sess_run ex_verify [AWatchDone 0] s1)" unfolding s1_def by code_simp+
  from session_hands_over [OF r a d s1 a1] obtain own s2 k s' where
    o: "own \<in> {[], [AWatchDone 0], [ATickEmit 0, AWatchDone 0]}" "sess_run ex_verify own s1 = Some s2"
    "k < length (st_pending s2)" "sess_step ex_verify (AEndSession k) s2 = Some s'"
    "turn_of (st_m s') = turn_end (turn_of (st_m s1))" by blast
  have "own = [ATickEmit 0, AWatchDone 0]" using o(1-3) no by (auto simp: Option.is_none_def)
  with o s1 t show ?thesis by metis
qed

text \<open>
  The wait list. In every reachable state nobody waits while the slot is free, the list is
  no longer than \<^verbatim>\<open>MaxQueueDepth\<close> when one is set, it is empty under \<^verbatim>\<open>PolicyReject\<close>, and every
  claim in play was verified for this room, names a viewer and has a positive length.
\<close>

theorem wait_list_bounded:
  assumes "sess_reachable v cfg pk s"
  shows "(m_active (st_m s) = None \<longrightarrow> m_queue (st_m s) = [])
    \<and> (0 < cfg_MaxQueueDepth cfg \<longrightarrow> int (length (m_queue (st_m s))) \<le> cfg_MaxQueueDepth cfg)
    \<and> (cfg_QueuePolicy cfg = PolicyReject \<longrightarrow> m_queue (st_m s) = [])
    \<and> (\<forall>c \<in> set_option (fst (turn_of (st_m s))) \<union> set (snd (turn_of (st_m s))).
         c_RoomID c = cfg_RoomID cfg \<and> c_ViewerID c \<noteq> [] \<and> 0 < c_SessionSeconds c)"
proof -
  have inv: "core_inv (st_m s)" using sess_inv_reachable [OF assms] by (simp add: sess_inv_def)
  have cfg: "m_cfg (st_m s) = cfg" using cfg_reachable [OF assms] by simp
  have "entry_ok (st_m s) (entry (st_m s) q)" if "q \<in> set (live (st_m s))" for q
    using inv live_range [OF inv that] by (simp add: core_inv_def entries_ok_def)
  then have "\<forall>c \<in> set_option (fst (turn_of (st_m s))) \<union> set (snd (turn_of (st_m s))).
         c_RoomID c = cfg_RoomID cfg \<and> c_ViewerID c \<noteq> [] \<and> 0 < c_SessionSeconds c"
    using cfg by (cases "m_active (st_m s)") (auto simp: turn_of_def live_def entry_ok_def)
  with inv cfg show ?thesis by (auto simp: core_inv_def live_ok_def bound_ok_def)
qed

theorem wait_list_bounded_witness:
  "int (length (m_queue (st_m ex_s2))) \<le> 4 \<and> length (m_queue (st_m ex_s2)) = 1"
proof -
  have "length (m_queue (st_m ex_s2)) = 1" by code_simp
  moreover have "cfg_MaxQueueDepth ex_cfg = 4" by (simp add: ex_cfg_def)
  ultimately show ?thesis using wait_list_bounded [OF ex_s2_reachable] by simp
qed

text \<open>
  The outcome of a claim, on every branch. An error leaves the manager as it was. Otherwise
  the token verified for this room; with a free slot the new entry is in control at once and its
  deadline is \<open>session_seconds\<close> away; else it is the last of the wait list and the controller
  stays.
\<close>

theorem claim_outcome:
  "case Claim v now token m of
     (m', Inl e) \<Rightarrow> m' = m
   | (m', Inr p) \<Rightarrow>
       (\<exists>c. ParseAndVerify v token (m_pubKey m) now = Inr c \<and> c_RoomID c = cfg_RoomID (m_cfg m)
          \<and> p = length (m_entries m) \<and> e_claims (entry m' p) = c
          \<and> (case m_active m of
               None \<Rightarrow> m_active m' = Some p \<and> m_queue m' = m_queue m
                 \<and> e_deadline (entry m' p) = Some (now + seconds (c_SessionSeconds c))
             | Some q \<Rightarrow> m_active m' = Some q \<and> m_queue m' = m_queue m @ [p]
                 \<and> cfg_QueuePolicy (m_cfg m) = PolicyQueue))"
  by (cases rule: Claim_cases [of v now token m])
    (auto simp: startSessionLocked_def enqueueLocked_def Let_def split: option.splits)

text \<open>
  Releasing a promoted session does nothing. When the turn ends and the head \<open>nx\<close> of the wait
  list is promoted, a fresh entry is put in control while the \<^verbatim>\<open>Session\<close> that the promoted viewer
  got from \<^verbatim>\<open>Claim\<close> still points to \<open>nx\<close>: the viewer is in control, yet that session's context is
  already done, and \<^verbatim>\<open>Release\<close> on it leaves the manager unchanged, so the slot is not freed when the
  viewer disconnects.
\<close>

theorem promoted_release_noop:
  assumes "sess_reachable v cfg pk s" and "m_active (st_m s) = Some p" and "m_queue (st_m s) = nx # rest"
  shows "CurrentViewerID (endSession now p kind (st_m s)) = e_viewerID (entry (st_m s) nx)
    \<and> ctx_done t (entry (endSession now p kind (st_m s)) nx)
    \<and> Release t nx (endSession now p kind (st_m s)) = endSession now p kind (st_m s)"
proof -
  let ?m = "st_m s"
  have inv: "core_inv ?m" using sess_inv_reachable [OF assms(1)] by (simp add: sess_inv_def)
  define m3 where "m3 = closeGates p (cancel p (upd_entry p (\<lambda>e. e\<lparr>e_idleTimer := None\<rparr>) ?m))"
  define mm where "mm = emitEvent (newEvent now kind (e_viewerID (entry (m3\<lparr>m_active := None\<rparr>) p)) 0 0) (m3\<lparr>m_active := None\<rparr>)"
  have eq: "endSession now p kind ?m = promote now mm"
    using assms(2) by (simp add: endSession_def Let_def m3_def mm_def)
  have q: "m_queue mm = nx # rest" "length (m_entries mm) = length (m_entries ?m)"
    using assms(3) by (simp_all add: m3_def mm_def)
  have nx: "nx < length (m_entries ?m)" "nx \<notin> set rest" "nx \<noteq> p"
    using inv assms(2,3) by (auto simp: core_inv_def live_ok_def live_def)
  then have c: "e_claims (entry mm nx) = e_claims (entry ?m nx)" by (simp add: m3_def mm_def)
  note pro = promote_Cons [where m = mm and nx = nx and rest = rest and now = now, OF q(1)]
  have "c_ViewerID (e_claims (entry ?m nx)) = e_viewerID (entry ?m nx)"
    using inv nx by (auto simp: core_inv_def entries_ok_def entry_ok_def)
  then show ?thesis using nx q c
    by (auto simp: eq CurrentViewerID_def pro pro(9) [unfolded q(2)] ctx_done_def Release_def
        Release_locked_def end_call_def)
qed

theorem promoted_release_noop_witness:
  "CurrentViewerID (endSession 0 0 EventExpired (st_m ex_s2)) = ''v2''
    \<and> Release 5 1 (endSession 0 0 EventExpired (st_m ex_s2)) = endSession 0 0 EventExpired (st_m ex_s2)"
proof -
  have a: "m_active (st_m ex_s2) = Some 0" by code_simp
  have q: "m_queue (st_m ex_s2) = [1]" by code_simp
  have "e_viewerID (entry (st_m ex_s2) 1) = ''v2''" by code_simp
  with promoted_release_noop [OF ex_s2_reachable a q, of 0 EventExpired 5] show ?thesis by simp
qed

end
