(* ===== verification/ServerDb.thy ===== *)
theory ServerDb
  imports Prelude
begin

text \<open>
  The server's tables and the statements it runs on them
  (\<^verbatim>\<open>playgate-server/internal/db/schema.go\<close>, \<^verbatim>\<open>db.go\<close>) and its in-memory redemption counters
  (\<^verbatim>\<open>playgate-server/internal/queue/queue.go\<close>).

  A table is the list of its rows in insertion order. Primary keys, the unique \<^verbatim>\<open>api_key\<close> and
  the references between tables are enforced as the schema declares them (the connection is
  opened with \<^verbatim>\<open>foreign_keys=ON\<close>). Every statement may fail in the driver: \<open>db_fail\<close> lists
  whether the statements to come fail; statements beyond its end succeed. With
  \<^verbatim>\<open>SetMaxOpenConns(1)\<close> a statement is atomic.
\<close>

record Host =
  h_ID :: string
  h_APIKey :: string
  h_Name :: string
  h_CreatedAt :: instant

record Room =
  r_ID :: string
  r_HostID :: string
  r_Name :: string
  r_SessionSeconds :: int
  r_Online :: bool
  r_CurrentViewer :: "string option"
  r_KickRequested :: bool
  r_CreatedAt :: instant
  r_UpdatedAt :: instant

record Token =
  t_Code :: string
  t_RoomID :: string
  t_HostID :: string
  t_Redeemed :: bool
  t_Revoked :: bool
  t_ViewerID :: "string option"
  t_CreatedAt :: instant
  t_RedeemedAt :: "instant option"

record SessionRow =
  s_ID :: string
  s_RoomID :: string
  s_ViewerID :: string
  s_TokenCode :: string
  s_JWT :: string
  s_QueuePos :: int
  s_Active :: bool
  s_CreatedAt :: instant
  s_ExpiresAt :: instant

record DB =
  db_hosts :: "Host list"
  db_rooms :: "Room list"
  db_tokens :: "Token list"
  db_sessions :: "SessionRow list"
  db_fail :: "bool list"

datatype db_error = ErrNoRows | ErrConstraint | ErrDriver

text \<open>\<open>stmt d\<close>: does the next statement fail, and the database after it was tried.\<close>

definition stmt :: "DB \<Rightarrow> bool \<times> DB" where
  "stmt d = (case db_fail d of [] \<Rightarrow> (False, d) | b # bs \<Rightarrow> (b, d\<lparr>db_fail := bs\<rparr>))"

text \<open>\<^verbatim>\<open>Exec\<close>: an update of the tables, or \<^const>\<open>None\<close> when it violates a constraint.\<close>

definition exec :: "(DB \<Rightarrow> DB option) \<Rightarrow> DB \<Rightarrow> DB \<times> db_error option" where
  "exec f d =
     (case stmt d of
        (True, d') \<Rightarrow> (d', Some ErrDriver)
      | (False, d') \<Rightarrow> (case f d' of None \<Rightarrow> (d', Some ErrConstraint) | Some d'' \<Rightarrow> (d'', None)))"

text \<open>\<^verbatim>\<open>QueryRow\<close> and \<^verbatim>\<open>Scan\<close>: the row found, or \<^verbatim>\<open>sql.ErrNoRows\<close>.\<close>

definition query_row :: "(DB \<Rightarrow> 'a option) \<Rightarrow> DB \<Rightarrow> DB \<times> (db_error + 'a)" where
  "query_row f d =
     (case stmt d of
        (True, d') \<Rightarrow> (d', Inl ErrDriver)
      | (False, d') \<Rightarrow> (d', case f d' of None \<Rightarrow> Inl ErrNoRows | Some x \<Rightarrow> Inr x))"

definition query_all :: "(DB \<Rightarrow> 'a list) \<Rightarrow> DB \<Rightarrow> DB \<times> (db_error + 'a list)" where
  "query_all f d =
     (case stmt d of (True, d') \<Rightarrow> (d', Inl ErrDriver) | (False, d') \<Rightarrow> (d', Inr (f d')))"

section \<open>Hosts\<close>

definition CreateHost :: "Host \<Rightarrow> DB \<Rightarrow> DB \<times> db_error option" where
  "CreateHost h = exec (\<lambda>d.
     if \<exists>x \<in> set (db_hosts d). h_ID x = h_ID h \<or> h_APIKey x = h_APIKey h then None
     else Some (d\<lparr>db_hosts := db_hosts d @ [h]\<rparr>))"

definition GetHostByAPIKey :: "string \<Rightarrow> DB \<Rightarrow> DB \<times> (db_error + Host)" where
  "GetHostByAPIKey key = query_row (\<lambda>d. find (\<lambda>h. h_APIKey h = key) (db_hosts d))"

section \<open>Rooms\<close>

definition has_host :: "string \<Rightarrow> DB \<Rightarrow> bool" where
  "has_host i d \<longleftrightarrow> (\<exists>h \<in> set (db_hosts d). h_ID h = i)"

definition has_room :: "string \<Rightarrow> DB \<Rightarrow> bool" where
  "has_room i d \<longleftrightarrow> (\<exists>r \<in> set (db_rooms d). r_ID r = i)"

text \<open>The column \<^verbatim>\<open>kick_requested\<close> is not among those inserted: it takes its default.\<close>

definition CreateRoom :: "Room \<Rightarrow> DB \<Rightarrow> DB \<times> db_error option" where
  "CreateRoom r = exec (\<lambda>d.
     if has_room (r_ID r) d \<or> \<not> has_host (r_HostID r) d then None
     else Some (d\<lparr>db_rooms := db_rooms d @ [r\<lparr>r_KickRequested := False\<rparr>]\<rparr>))"

definition GetRoom :: "string \<Rightarrow> DB \<Rightarrow> DB \<times> (db_error + Room)" where
  "GetRoom i = query_row (\<lambda>d. find (\<lambda>r. r_ID r = i) (db_rooms d))"

definition GetRoomByIDAndHostID :: "string \<Rightarrow> string \<Rightarrow> DB \<Rightarrow> DB \<times> (db_error + Room)" where
  "GetRoomByIDAndHostID i hostID =
     query_row (\<lambda>d. find (\<lambda>r. r_ID r = i \<and> r_HostID r = hostID) (db_rooms d))"

text \<open>\<^verbatim>\<open>ORDER BY created_at DESC\<close>; rows of equal age stay in insertion order here.\<close>

definition ListRoomsByHostID :: "string \<Rightarrow> DB \<Rightarrow> DB \<times> (db_error + Room list)" where
  "ListRoomsByHostID hostID =
     query_all (\<lambda>d. sort_key (\<lambda>r. - r_CreatedAt r) (filter (\<lambda>r. r_HostID r = hostID) (db_rooms d)))"

definition upd_rooms :: "string \<Rightarrow> (Room \<Rightarrow> Room) \<Rightarrow> DB \<Rightarrow> DB" where
  "upd_rooms i f d = d\<lparr>db_rooms := map (\<lambda>r. if r_ID r = i then f r else r) (db_rooms d)\<rparr>"

definition UpdateRoomHeartbeat ::
    "instant \<Rightarrow> string \<Rightarrow> bool \<Rightarrow> string option \<Rightarrow> DB \<Rightarrow> DB \<times> db_error option" where
  "UpdateRoomHeartbeat now i online currentViewer = exec (\<lambda>d. Some (upd_rooms i
     (\<lambda>r. r\<lparr>r_Online := online, r_CurrentViewer := currentViewer, r_UpdatedAt := now\<rparr>) d))"

definition SetRoomKickRequested :: "instant \<Rightarrow> string \<Rightarrow> bool \<Rightarrow> DB \<Rightarrow> DB \<times> db_error option" where
  "SetRoomKickRequested now i requested = exec (\<lambda>d. Some (upd_rooms i
     (\<lambda>r. r\<lparr>r_KickRequested := requested, r_UpdatedAt := now\<rparr>) d))"

section \<open>Tokens\<close>

definition find_token :: "string \<Rightarrow> DB \<Rightarrow> Token option" where
  "find_token code d = find (\<lambda>t. t_Code t = code) (db_tokens d)"

definition upd_tokens :: "(Token \<Rightarrow> bool) \<Rightarrow> (Token \<Rightarrow> Token) \<Rightarrow> DB \<Rightarrow> DB" where
  "upd_tokens P f d = d\<lparr>db_tokens := map (\<lambda>t. if P t then f t else t) (db_tokens d)\<rparr>"

definition insert_token :: "Token \<Rightarrow> DB \<Rightarrow> DB option" where
  "insert_token t d =
     (if find_token (t_Code t) d \<noteq> None \<or> \<not> has_room (t_RoomID t) d \<or> \<not> has_host (t_HostID t) d
      then None
      else Some (d\<lparr>db_tokens := db_tokens d @
        [t\<lparr>t_Redeemed := False, t_Revoked := False, t_ViewerID := None, t_RedeemedAt := None\<rparr>]\<rparr>))"

definition redeem_token :: "instant \<Rightarrow> string \<Rightarrow> string \<Rightarrow> DB \<Rightarrow> DB" where
  "redeem_token now code viewerID =
     upd_tokens (\<lambda>t. t_Code t = code \<and> \<not> t_Redeemed t \<and> \<not> t_Revoked t)
       (\<lambda>t. t\<lparr>t_Redeemed := True, t_ViewerID := Some viewerID, t_RedeemedAt := Some now\<rparr>)"

definition revoke_token :: "string \<Rightarrow> DB \<Rightarrow> DB" where
  "revoke_token code =
     upd_tokens (\<lambda>t. t_Code t = code \<and> \<not> t_Redeemed t) (\<lambda>t. t\<lparr>t_Revoked := True\<rparr>)"

definition CreateToken :: "Token \<Rightarrow> DB \<Rightarrow> DB \<times> db_error option" where
  "CreateToken t = exec (insert_token t)"

definition GetToken :: "string \<Rightarrow> DB \<Rightarrow> DB \<times> (db_error + Token)" where
  "GetToken code = query_row (find_token code)"

text \<open>The number of rows the update touched is not looked at: zero rows is no error.\<close>

definition RedeemToken :: "instant \<Rightarrow> string \<Rightarrow> string \<Rightarrow> DB \<Rightarrow> DB \<times> db_error option" where
  "RedeemToken now code viewerID = exec (\<lambda>d. Some (redeem_token now code viewerID d))"

definition RevokeToken :: "string \<Rightarrow> DB \<Rightarrow> DB \<times> db_error option" where
  "RevokeToken code = exec (\<lambda>d. Some (revoke_token code d))"

definition ListTokensByRoomID :: "string \<Rightarrow> DB \<Rightarrow> DB \<times> (db_error + Token list)" where
  "ListTokensByRoomID roomID =
     query_all (\<lambda>d. sort_key (\<lambda>t. - t_CreatedAt t) (filter (\<lambda>t. t_RoomID t = roomID) (db_tokens d)))"

definition GetTokenByCodeAndHostID :: "string \<Rightarrow> string \<Rightarrow> DB \<Rightarrow> DB \<times> (db_error + Token)" where
  "GetTokenByCodeAndHostID code hostID =
     query_row (\<lambda>d. find (\<lambda>t. t_Code t = code \<and> t_HostID t = hostID) (db_tokens d))"

section \<open>Sessions\<close>

definition CreateSession :: "SessionRow \<Rightarrow> DB \<Rightarrow> DB \<times> db_error option" where
  "CreateSession s = exec (\<lambda>d.
     if (\<exists>x \<in> set (db_sessions d). s_ID x = s_ID s) \<or> \<not> has_room (s_RoomID s) d
        \<or> find_token (s_TokenCode s) d = None then None
     else Some (d\<lparr>db_sessions := db_sessions d @ [s]\<rparr>))"

text \<open>
  \<open>after\<close> is how the database compares the stored \<^verbatim>\<open>expires_at\<close> text with \<^verbatim>\<open>datetime('now')\<close>.
\<close>

definition CountActiveSessionsInRoom ::
    "(instant \<Rightarrow> instant \<Rightarrow> bool) \<Rightarrow> instant \<Rightarrow> string \<Rightarrow> DB \<Rightarrow> DB \<times> (db_error + int)" where
  "CountActiveSessionsInRoom after now roomID = query_row (\<lambda>d.
     Some (int (length (filter (\<lambda>s. s_RoomID s = roomID \<and> s_Active s \<and> after (s_ExpiresAt s) now)
       (db_sessions d)))))"

section \<open>Redemption counters\<close>

type_synonym counters = "string \<Rightarrow> int"

definition queue_New :: counters where
  "queue_New = (\<lambda>_. 0)"

definition queue_Next :: "string \<Rightarrow> counters \<Rightarrow> counters \<times> int" where
  "queue_Next roomID c = (c(roomID := wrap64 (c roomID + 1)), wrap64 (c roomID + 1))"

definition queue_Current :: "string \<Rightarrow> counters \<Rightarrow> int" where
  "queue_Current roomID c = c roomID"

section \<open>Laws of the token table\<close>

lemma stmt_sel [simp]:
  "db_hosts (snd (stmt d)) = db_hosts d" "db_rooms (snd (stmt d)) = db_rooms d"
  "db_tokens (snd (stmt d)) = db_tokens d" "db_sessions (snd (stmt d)) = db_sessions d"
  by (simp_all add: stmt_def split: list.splits)

lemma stmt_eq: "stmt d = (b, d') \<Longrightarrow> db_hosts d' = db_hosts d \<and> db_rooms d' = db_rooms d
  \<and> db_tokens d' = db_tokens d \<and> db_sessions d' = db_sessions d"
  using stmt_sel [of d] by simp

lemma find_map_upd:
  "(\<And>x. P (g x) = P x) \<Longrightarrow> find P (map g xs) = map_option g (find P xs)"
  by (induction xs) auto

lemma find_conj_False: "find P xs = None \<Longrightarrow> find (\<lambda>x. P x \<and> Q x) xs = None"
  by (auto simp: find_None_iff)

text \<open>
  The contract of a store of single-use codes. A code is looked up by its text; it starts out
  fresh, \<open>redeem\<close> uses up a fresh code only, \<open>revoke\<close> any code not yet used, and neither touches
  another code. Clients rest on what follows from it: a used code stays used by the same viewer
  and a revoked one is never used, whatever operations come after.
\<close>

locale code_store =
  fixes lookup :: "string \<Rightarrow> 'd \<Rightarrow> Token option"
    and ins :: "Token \<Rightarrow> 'd \<Rightarrow> 'd option"
    and redeem :: "instant \<Rightarrow> string \<Rightarrow> string \<Rightarrow> 'd \<Rightarrow> 'd"
    and revoke :: "string \<Rightarrow> 'd \<Rightarrow> 'd"
  assumes lookup_ins: "ins t d = Some d' \<Longrightarrow> lookup c d' =
      (if c = t_Code t
       then Some (t\<lparr>t_Redeemed := False, t_Revoked := False, t_ViewerID := None, t_RedeemedAt := None\<rparr>)
       else lookup c d)"
    and ins_fresh: "ins t d = Some d' \<Longrightarrow> lookup (t_Code t) d = None"
    and lookup_redeem: "lookup c (redeem now code v d) =
      map_option (\<lambda>t. if c = code \<and> \<not> t_Redeemed t \<and> \<not> t_Revoked t
         then t\<lparr>t_Redeemed := True, t_ViewerID := Some v, t_RedeemedAt := Some now\<rparr> else t) (lookup c d)"
    and lookup_revoke: "lookup c (revoke code d) =
      map_option (\<lambda>t. if c = code \<and> \<not> t_Redeemed t then t\<lparr>t_Revoked := True\<rparr> else t) (lookup c d)"
begin

definition used :: "string \<Rightarrow> string \<Rightarrow> 'd \<Rightarrow> bool" where
  "used c v d \<longleftrightarrow> (\<exists>t. lookup c d = Some t \<and> t_Redeemed t \<and> t_ViewerID t = Some v)"

definition spent :: "string \<Rightarrow> 'd \<Rightarrow> bool" where
  "spent c d \<longleftrightarrow> (\<exists>t. lookup c d = Some t \<and> (t_Redeemed t \<or> t_Revoked t))"

lemma spent_ins: "spent c d \<Longrightarrow> ins t d = Some d' \<Longrightarrow> spent c d'"
  using lookup_ins [of t d d' c] ins_fresh [of t d d'] by (auto simp: spent_def)

lemma spent_redeem: "spent c d \<Longrightarrow> spent c (redeem now code v d)"
  by (cases "lookup c d") (auto simp: spent_def lookup_redeem)

lemma spent_revoke: "spent c d \<Longrightarrow> spent c (revoke code d)"
  by (cases "lookup c d") (auto simp: spent_def lookup_revoke)

lemma used_ins: "used c v d \<Longrightarrow> ins t d = Some d' \<Longrightarrow> used c v d'"
  using lookup_ins [of t d d' c] ins_fresh [of t d d'] by (auto simp: used_def)

lemma used_redeem: "used c v d \<Longrightarrow> used c v (redeem now code w d)"
  by (cases "lookup c d") (auto simp: used_def lookup_redeem)

lemma used_revoke: "used c v d \<Longrightarrow> used c v (revoke code d)"
  by (cases "lookup c d") (auto simp: used_def lookup_revoke)

lemma redeem_uses:
  "lookup c d = Some t \<Longrightarrow> \<not> t_Redeemed t \<Longrightarrow> \<not> t_Revoked t \<Longrightarrow> used c v (redeem now c v d)"
  by (simp add: used_def lookup_redeem)

lemma used_spent: "used c v d \<Longrightarrow> spent c d"
  by (auto simp: used_def spent_def)

lemma used_unique: "used c v d \<Longrightarrow> used c w d \<Longrightarrow> v = w"
  by (auto simp: used_def)

end

interpretation tok: code_store find_token insert_token redeem_token revoke_token
proof
  fix t d d' c
  assume "insert_token t d = Some d'"
  then have new: "find_token (t_Code t) d = None" and d': "d' = d\<lparr>db_tokens := db_tokens d @
        [t\<lparr>t_Redeemed := False, t_Revoked := False, t_ViewerID := None, t_RedeemedAt := None\<rparr>]\<rparr>"
    by (auto simp: insert_token_def split: if_splits)
  show "find_token (t_Code t) d = None" by (rule new)
  have "find P (xs @ [x]) = (case find P xs of None \<Rightarrow> if P x then Some x else None | Some y \<Rightarrow> Some y)"
    for P :: "Token \<Rightarrow> bool" and xs x by (induction xs) auto
  with new show "find_token c d' = (if c = t_Code t
       then Some (t\<lparr>t_Redeemed := False, t_Revoked := False, t_ViewerID := None, t_RedeemedAt := None\<rparr>)
       else find_token c d)"
    by (auto simp: find_token_def d' split: option.splits)
next
  fix c now code v d
  have c: "t_Code t = c" if "find_token c d = Some t" for t
    using that by (auto simp: find_token_def find_Some_iff)
  show "find_token c (redeem_token now code v d) =
      map_option (\<lambda>t. if c = code \<and> \<not> t_Redeemed t \<and> \<not> t_Revoked t
         then t\<lparr>t_Redeemed := True, t_ViewerID := Some v, t_RedeemedAt := Some now\<rparr> else t) (find_token c d)"
    using c by (cases "find_token c d")
      (auto simp: find_token_def redeem_token_def upd_tokens_def find_map_upd)
next
  fix c code d
  have c: "t_Code t = c" if "find_token c d = Some t" for t
    using that by (auto simp: find_token_def find_Some_iff)
  show "find_token c (revoke_token code d) =
      map_option (\<lambda>t. if c = code \<and> \<not> t_Redeemed t then t\<lparr>t_Revoked := True\<rparr> else t) (find_token c d)"
    using c by (cases "find_token c d")
      (auto simp: find_token_def revoke_token_def upd_tokens_def find_map_upd)
qed

end
