(* ===== verification/Server.thy ===== *)
theory Server
  imports ServerDb Jwt Core
begin

text \<open>
  The HTTP API of the server (\<^verbatim>\<open>playgate-server/internal/api/server.go\<close>, \<^verbatim>\<open>helpers.go\<close>): one
  definition per handler over the state of the process (tables, counters, key pair and the
  bytes the random source will yield), with every error branch, and the routing in front of them.

  A request carries the decoded segments of its path, the \<^verbatim>\<open>Authorization\<close> header (empty when
  absent) and its body. A handler returns the new state and the response.
\<close>

record Request =
  rq_Method :: string
  rq_Path :: "string list"
  rq_Authorization :: string
  rq_Body :: string

record Response =
  rs_Status :: nat
  rs_Body :: "json option"

record Server =
  sv_db :: DB
  sv_keys :: KeyPair
  sv_queue :: counters
  sv_rand :: "byte list"

section \<open>Helpers\<close>

definition writeJSON :: "nat \<Rightarrow> json \<Rightarrow> Response" where
  "writeJSON status v = \<lparr>rs_Status = status, rs_Body = Some v\<rparr>"

definition writeError :: "nat \<Rightarrow> string \<Rightarrow> Response" where
  "writeError status msg = writeJSON status (JObj [(''error'', JStr msg)])"

text \<open>\<^verbatim>\<open>decodeJSON\<close>: the members of the first JSON value, all of them naming a field.\<close>

definition decodeJSON :: "string list \<Rightarrow> Request \<Rightarrow> (string \<times> json) list option" where
  "decodeJSON names r =
     do { j \<leftarrow> json_parse_prefix (rq_Body r);
          ms \<leftarrow> json_members j;
          if known_fields names ms then Some ms else None }"

definition bearerToken :: "Request \<Rightarrow> string" where
  "bearerToken r =
     (let a = rq_Authorization r
      in if length a > 7 \<and> take 7 a = ''Bearer '' then drop 7 a else [])"

text \<open>
  \<^verbatim>\<open>rand.Read\<close> into a zeroed buffer of \<open>n\<close> bytes; its error is ignored, so bytes that do not
  come stay zero. The identifiers are the bytes in lower-case hexadecimal.
\<close>

definition rand_read :: "nat \<Rightarrow> Server \<Rightarrow> Server \<times> byte list" where
  "rand_read n s = (s\<lparr>sv_rand := drop n (sv_rand s)\<rparr>, take n (sv_rand s @ replicate n 0))"

definition hex_string :: "byte list \<Rightarrow> string" where
  "hex_string bs = concat (map (\<lambda>b. [hex_char (unat b div 16), hex_char (unat b mod 16)]) bs)"

definition newID :: "Server \<Rightarrow> Server \<times> string" where
  "newID s = (let (s', b) = rand_read 16 s in (s', hex_string b))"

definition newSecret :: "Server \<Rightarrow> Server \<times> string" where
  "newSecret s = (let (s', b) = rand_read 32 s in (s', hex_string b))"

definition newTokenCode :: "Server \<Rightarrow> Server \<times> string" where
  "newTokenCode s = (let (s', b) = rand_read 10 s in (s', hex_string b))"

text \<open>Run a statement on the server's database.\<close>

definition on_db :: "(DB \<Rightarrow> DB \<times> 'a) \<Rightarrow> Server \<Rightarrow> Server \<times> 'a" where
  "on_db f s = (let (d, x) = f (sv_db s) in (s\<lparr>sv_db := d\<rparr>, x))"

definition requireHost :: "Request \<Rightarrow> Server \<Rightarrow> Server \<times> (Response + Host)" where
  "requireHost r s =
     (let key = bearerToken r
      in if key = [] then (s, Inl (writeError 401 ''missing API key''))
         else case on_db (GetHostByAPIKey key) s of
                (s', Inl ErrNoRows) \<Rightarrow> (s', Inl (writeError 401 ''invalid API key''))
              | (s', Inl _) \<Rightarrow> (s', Inl (writeError 500 ''db error''))
              | (s', Inr h) \<Rightarrow> (s', Inr h))"

section \<open>Handlers\<close>

definition handleGetPublicKey :: "Server \<Rightarrow> Server \<times> Response" where
  "handleGetPublicKey s =
     (s, writeJSON 200 (JObj [(''algorithm'', JStr ''EdDSA''),
                              (''public_key'', JStr (PublicKeyBase64 (sv_keys s)))]))"

definition handleRegisterHost :: "instant \<Rightarrow> Request \<Rightarrow> Server \<Rightarrow> Server \<times> Response" where
  "handleRegisterHost now r s =
     (case Option.bind (decodeJSON [''name''] r) (get_str ''name'') of
        None \<Rightarrow> (s, writeError 400 ''name is required'')
      | Some name \<Rightarrow>
          if name = [] then (s, writeError 400 ''name is required'')
          else
            (let (s1, hostID) = newID s;
                 (s2, apiKey) = newSecret s1;
                 h = \<lparr>h_ID = hostID, h_APIKey = apiKey, h_Name = name, h_CreatedAt = now\<rparr>
             in case on_db (CreateHost h) s2 of
                  (s3, Some _) \<Rightarrow> (s3, writeError 500 ''create host failed'')
                | (s3, None) \<Rightarrow>
                    (s3, writeJSON 201 (JObj [(''host_id'', JStr hostID), (''api_key'', JStr apiKey)]))))"

definition opt_json :: "string option \<Rightarrow> json" where
  "opt_json v = (case v of None \<Rightarrow> JNull | Some x \<Rightarrow> JStr x)"

definition roomResponse :: "string \<Rightarrow> string \<Rightarrow> int \<Rightarrow> bool \<Rightarrow> string option \<Rightarrow> int \<Rightarrow> json" where
  "roomResponse i name secs online viewer depth =
     JObj [(''id'', JStr i), (''name'', JStr name), (''session_seconds'', JNum (Itoa secs)),
           (''online'', JBool online), (''current_viewer'', opt_json viewer),
           (''queue_depth'', JNum (Itoa depth))]"

definition handleCreateRoom :: "instant \<Rightarrow> Request \<Rightarrow> Server \<Rightarrow> Server \<times> Response" where
  "handleCreateRoom now r s =
     (case requireHost r s of
        (s1, Inl resp) \<Rightarrow> (s1, resp)
      | (s1, Inr host) \<Rightarrow>
          (case do { ms \<leftarrow> decodeJSON [''name'', ''session_seconds''] r;
                     name \<leftarrow> get_str ''name'' ms;
                     secs \<leftarrow> get_int ''session_seconds'' ms;
                     if name = [] then None else Some (name, secs) } of
             None \<Rightarrow> (s1, writeError 400 ''name is required'')
           | Some (name, secs0) \<Rightarrow>
               (let secs = (if secs0 \<le> 0 then 60 else secs0);
                    (s2, i) = newID s1;
                    room = \<lparr>r_ID = i, r_HostID = h_ID host, r_Name = name, r_SessionSeconds = secs,
                            r_Online = False, r_CurrentViewer = None, r_KickRequested = False,
                            r_CreatedAt = now, r_UpdatedAt = now\<rparr>
                in case on_db (CreateRoom room) s2 of
                     (s3, Some _) \<Rightarrow> (s3, writeError 500 ''create room failed'')
                   | (s3, None) \<Rightarrow> (s3, writeJSON 201 (roomResponse i name secs False None 0)))))"

text \<open>The queue depth shown with a room; a failing count is shown as zero.\<close>

definition room_depth ::
    "(instant \<Rightarrow> instant \<Rightarrow> bool) \<Rightarrow> instant \<Rightarrow> string \<Rightarrow> Server \<Rightarrow> Server \<times> int" where
  "room_depth after now i s =
     (case on_db (CountActiveSessionsInRoom after now i) s of
        (s', Inr n) \<Rightarrow> (s', n)
      | (s', Inl _) \<Rightarrow> (s', 0))"

fun list_rooms ::
    "(instant \<Rightarrow> instant \<Rightarrow> bool) \<Rightarrow> instant \<Rightarrow> Room list \<Rightarrow> Server \<Rightarrow> Server \<times> json list" where
  "list_rooms after now [] s = (s, [])"
| "list_rooms after now (room # rooms) s =
     (let (s1, depth) = room_depth after now (r_ID room) s;
          (s2, out) = list_rooms after now rooms s1
      in (s2, roomResponse (r_ID room) (r_Name room) (r_SessionSeconds room) (r_Online room)
                (r_CurrentViewer room) depth # out))"

definition handleListRooms ::
    "(instant \<Rightarrow> instant \<Rightarrow> bool) \<Rightarrow> instant \<Rightarrow> Request \<Rightarrow> Server \<Rightarrow> Server \<times> Response" where
  "handleListRooms after now r s =
     (case requireHost r s of
        (s1, Inl resp) \<Rightarrow> (s1, resp)
      | (s1, Inr host) \<Rightarrow>
          (case on_db (ListRoomsByHostID (h_ID host)) s1 of
             (s2, Inl _) \<Rightarrow> (s2, writeError 500 ''db error'')
           | (s2, Inr rooms) \<Rightarrow>
               (let (s3, out) = list_rooms after now rooms s2
                in (s3, writeJSON 200 (JObj [(''rooms'', JArr out)])))))"

definition handleGetRoom ::
    "(instant \<Rightarrow> instant \<Rightarrow> bool) \<Rightarrow> instant \<Rightarrow> string \<Rightarrow> Server \<Rightarrow> Server \<times> Response" where
  "handleGetRoom after now i s =
     (case on_db (GetRoom i) s of
        (s1, Inl ErrNoRows) \<Rightarrow> (s1, writeError 404 ''room not found'')
      | (s1, Inl _) \<Rightarrow> (s1, writeError 500 ''db error'')
      | (s1, Inr room) \<Rightarrow>
          (let (s2, depth) = room_depth after now i s1
           in (s2, writeJSON 200 (roomResponse (r_ID room) (r_Name room) (r_SessionSeconds room)
                     (r_Online room) (r_CurrentViewer room) depth))))"

text \<open>The room of the path, if it belongs to the authenticated host.\<close>

definition own_room :: "Request \<Rightarrow> string \<Rightarrow> Server \<Rightarrow> Server \<times> (Response + Host \<times> Room)" where
  "own_room r i s =
     (case requireHost r s of
        (s1, Inl resp) \<Rightarrow> (s1, Inl resp)
      | (s1, Inr host) \<Rightarrow>
          (case on_db (GetRoomByIDAndHostID i (h_ID host)) s1 of
             (s2, Inl ErrNoRows) \<Rightarrow> (s2, Inl (writeError 404 ''room not found''))
           | (s2, Inl _) \<Rightarrow> (s2, Inl (writeError 500 ''db error''))
           | (s2, Inr room) \<Rightarrow> (s2, Inr (host, room))))"

text \<open>A pointer field: \<^verbatim>\<open>null\<close> sets it to nil.\<close>

fun json_ptr_str :: "json \<Rightarrow> string option option" where
  "json_ptr_str JNull = Some None"
| "json_ptr_str (JStr x) = Some (Some x)"
| "json_ptr_str _ = None"

definition get_ptr_str :: "string \<Rightarrow> (string \<times> json) list \<Rightarrow> string option option" where
  "get_ptr_str f ms =
     (let vs = map (\<lambda>(_, v). json_ptr_str v) (filter (\<lambda>(k, _). to_lower k = to_lower f) ms)
      in if None \<in> set vs then None else if vs = [] then Some None else last vs)"

definition handleHeartbeat :: "instant \<Rightarrow> Request \<Rightarrow> string \<Rightarrow> Server \<Rightarrow> Server \<times> Response" where
  "handleHeartbeat now r i s =
     (case own_room r i s of
        (s1, Inl resp) \<Rightarrow> (s1, resp)
      | (s1, Inr (host, room)) \<Rightarrow>
          (case do { ms \<leftarrow> decodeJSON [''online'', ''current_viewer''] r;
                     online \<leftarrow> get_field json_bool False ''online'' ms;
                     viewer \<leftarrow> get_ptr_str ''current_viewer'' ms;
                     Some (online, viewer) } of
             None \<Rightarrow> (s1, writeError 400 ''invalid request body'')
           | Some (online, viewer) \<Rightarrow>
               (case on_db (UpdateRoomHeartbeat now i online viewer) s1 of
                  (s2, Some _) \<Rightarrow> (s2, writeError 500 ''update failed'')
                | (s2, None) \<Rightarrow>
                    (let kick = r_KickRequested room;
                         resp = writeJSON 200 (JObj [(''status'', JStr ''ok''), (''kick_requested'', JBool kick)])
                     in if kick
                        then (case on_db (SetRoomKickRequested now i False) s2 of
                                (s3, Some _) \<Rightarrow> (s3, writeError 500 ''clear kick failed'')
                              | (s3, None) \<Rightarrow> (s3, resp))
                        else (s2, resp)))))"

definition handleKick :: "instant \<Rightarrow> Request \<Rightarrow> string \<Rightarrow> Server \<Rightarrow> Server \<times> Response" where
  "handleKick now r i s =
     (case own_room r i s of
        (s1, Inl resp) \<Rightarrow> (s1, resp)
      | (s1, Inr _) \<Rightarrow>
          (case on_db (SetRoomKickRequested now i True) s1 of
             (s2, Some _) \<Rightarrow> (s2, writeError 500 ''set kick failed'')
           | (s2, None) \<Rightarrow> (s2, writeJSON 200 (JObj [(''status'', JStr ''kick_requested'')]))))"

text \<open>The loop of \<^verbatim>\<open>handleIssueTokens\<close>: \<^const>\<open>None\<close> when a token could not be created.\<close>

fun issue_tokens ::
    "instant \<Rightarrow> string \<Rightarrow> string \<Rightarrow> nat \<Rightarrow> Server \<Rightarrow> Server \<times> string list option" where
  "issue_tokens now i hostID 0 s = (s, Some [])"
| "issue_tokens now i hostID (Suc n) s =
     (let (s1, code) = newTokenCode s;
          t = \<lparr>t_Code = code, t_RoomID = i, t_HostID = hostID, t_Redeemed = False, t_Revoked = False,
               t_ViewerID = None, t_CreatedAt = now, t_RedeemedAt = None\<rparr>
      in case on_db (CreateToken t) s1 of
           (s2, Some _) \<Rightarrow> (s2, None)
         | (s2, None) \<Rightarrow>
             (let (s3, codes) = issue_tokens now i hostID n s2
              in (s3, map_option ((#) code) codes)))"

definition handleIssueTokens :: "instant \<Rightarrow> Request \<Rightarrow> string \<Rightarrow> Server \<Rightarrow> Server \<times> Response" where
  "handleIssueTokens now r i s =
     (case own_room r i s of
        (s1, Inl resp) \<Rightarrow> (s1, resp)
      | (s1, Inr (host, _)) \<Rightarrow>
          (case Option.bind (decodeJSON [''count''] r) (get_int ''count'') of
             None \<Rightarrow> (s1, writeError 400 ''count must be > 0'')
           | Some count \<Rightarrow>
               if count \<le> 0 then (s1, writeError 400 ''count must be > 0'')
               else if count > 100 then (s1, writeError 400 ''count must be <= 100'')
               else (case issue_tokens now i (h_ID host) (nat count) s1 of
                       (s2, None) \<Rightarrow> (s2, writeError 500 ''create token failed'')
                     | (s2, Some codes) \<Rightarrow>
                         (s2, writeJSON 201 (JObj [(''codes'', JArr (map JStr codes))])))))"

definition tokenInfo :: "Token \<Rightarrow> json" where
  "tokenInfo t =
     JObj [(''code'', JStr (t_Code t)),
           (''status'', JStr (if t_Revoked t then ''revoked'' else if t_Redeemed t then ''redeemed'' else ''issued'')),
           (''redeemed'', JBool (t_Redeemed t)), (''revoked'', JBool (t_Revoked t))]"

definition handleListTokens :: "Request \<Rightarrow> string \<Rightarrow> Server \<Rightarrow> Server \<times> Response" where
  "handleListTokens r i s =
     (case own_room r i s of
        (s1, Inl resp) \<Rightarrow> (s1, resp)
      | (s1, Inr _) \<Rightarrow>
          (case on_db (ListTokensByRoomID i) s1 of
             (s2, Inl _) \<Rightarrow> (s2, writeError 500 ''db error'')
           | (s2, Inr tokens) \<Rightarrow>
               (s2, writeJSON 200 (JObj [(''tokens'', JArr (map tokenInfo tokens))]))))"

definition handleRevokeToken :: "Request \<Rightarrow> string \<Rightarrow> Server \<Rightarrow> Server \<times> Response" where
  "handleRevokeToken r code s =
     (case requireHost r s of
        (s1, Inl resp) \<Rightarrow> (s1, resp)
      | (s1, Inr host) \<Rightarrow>
          (case on_db (GetTokenByCodeAndHostID code (h_ID host)) s1 of
             (s2, Inl ErrNoRows) \<Rightarrow> (s2, writeError 404 ''token not found'')
           | (s2, Inl _) \<Rightarrow> (s2, writeError 500 ''db error'')
           | (s2, Inr tok) \<Rightarrow>
               if t_Redeemed tok then (s2, writeError 409 ''token already redeemed'')
               else if t_Revoked tok then (s2, writeError 409 ''token already revoked'')
               else (case on_db (RevokeToken code) s2 of
                       (s3, Some _) \<Rightarrow> (s3, writeError 500 ''revoke failed'')
                     | (s3, None) \<Rightarrow> (s3, \<lparr>rs_Status = 204, rs_Body = None\<rparr>))))"

text \<open>
  \<^verbatim>\<open>handleRedeemToken\<close>, one access to shared state at a time, so that two requests may interleave:
  look up the code; look up its room and sign; mark the code; take a queue position; store the
  session.
\<close>

datatype redeem_pc =
    RLookup string
  | RRoom string Token
  | RMark string Token string string instant instant
  | RQueue string Token string string instant instant
  | RStore string Token string string instant instant int
  | RDone Response

definition redeem_claims :: "instant \<Rightarrow> instant \<Rightarrow> string \<Rightarrow> string \<Rightarrow> int \<Rightarrow> Claims" where
  "redeem_claims now expiresAt roomID viewerID secs =
     \<lparr>c_Issuer = ''playgate-server'', c_IssuedAt = Unix now, c_ExpiresAt = Unix expiresAt,
      c_RoomID = roomID, c_ViewerID = viewerID, c_SessionSeconds = secs\<rparr>"

fun redeem_step :: "sign_fun \<Rightarrow> instant \<Rightarrow> redeem_pc \<Rightarrow> Server \<Rightarrow> Server \<times> redeem_pc" where
  "redeem_step sign now (RLookup code) s =
     (case on_db (GetToken code) s of
        (s1, Inl ErrNoRows) \<Rightarrow> (s1, RDone (writeError 404 ''token not found''))
      | (s1, Inl _) \<Rightarrow> (s1, RDone (writeError 500 ''db error''))
      | (s1, Inr tok) \<Rightarrow>
          if t_Revoked tok then (s1, RDone (writeError 410 ''token revoked''))
          else if t_Redeemed tok then (s1, RDone (writeError 409 ''token already redeemed''))
          else (s1, RRoom code tok))"
| "redeem_step sign now (RRoom code tok) s =
     (case on_db (GetRoom (t_RoomID tok)) s of
        (s1, Inl _) \<Rightarrow> (s1, RDone (writeError 500 ''room not found''))
      | (s1, Inr room) \<Rightarrow>
          (let (s2, viewerID) = newID s1;
               expiresAt = now + seconds (r_SessionSeconds room);
               jwt = IssueJWT sign (sv_keys s2)
                 (redeem_claims now expiresAt (t_RoomID tok) viewerID (r_SessionSeconds room))
           in (s2, RMark code tok viewerID jwt now expiresAt)))"
| "redeem_step sign now' (RMark code tok viewerID jwt now expiresAt) s =
     (case on_db (RedeemToken now' code viewerID) s of
        (s1, Some _) \<Rightarrow> (s1, RDone (writeError 500 ''redeem failed''))
      | (s1, None) \<Rightarrow> (s1, RQueue code tok viewerID jwt now expiresAt))"
| "redeem_step sign now' (RQueue code tok viewerID jwt now expiresAt) s =
     (let (q, pos) = queue_Next (t_RoomID tok) (sv_queue s)
      in (s\<lparr>sv_queue := q\<rparr>, RStore code tok viewerID jwt now expiresAt pos))"
| "redeem_step sign now' (RStore code tok viewerID jwt now expiresAt pos) s =
     (let (s1, i) = newID s;
          sess = \<lparr>s_ID = i, s_RoomID = t_RoomID tok, s_ViewerID = viewerID, s_TokenCode = code,
                  s_JWT = jwt, s_QueuePos = pos, s_Active = True, s_CreatedAt = now,
                  s_ExpiresAt = expiresAt\<rparr>
      in case on_db (CreateSession sess) s1 of
           (s2, Some _) \<Rightarrow> (s2, RDone (writeError 500 ''create session failed''))
         | (s2, None) \<Rightarrow>
             (s2, RDone (writeJSON 200 (JObj
                [(''session_token'', JStr jwt), (''queue_position'', JNum (Itoa pos)),
                 (''expires_at'', JNum (Itoa (Unix expiresAt))),
                 (''room_id'', JStr (t_RoomID tok)), (''viewer_id'', JStr viewerID)]))))"
| "redeem_step sign now (RDone resp) s = (s, RDone resp)"

text \<open>A request that is not interrupted: at most five steps.\<close>

fun redeem_iter :: "nat \<Rightarrow> sign_fun \<Rightarrow> instant \<Rightarrow> redeem_pc \<Rightarrow> Server \<Rightarrow> Server \<times> redeem_pc" where
  "redeem_iter 0 sign now pc s = (s, pc)"
| "redeem_iter (Suc n) sign now pc s =
     (let (s', pc') = redeem_step sign now pc s in redeem_iter n sign now pc' s')"

definition handleRedeemToken :: "sign_fun \<Rightarrow> instant \<Rightarrow> string \<Rightarrow> Server \<Rightarrow> Server \<times> Response" where
  "handleRedeemToken sign now code s =
     (case redeem_iter 5 sign now (RLookup code) s of
        (s', RDone resp) \<Rightarrow> (s', resp)
      | (s', _) \<Rightarrow> (s', writeError 500 []))"

section \<open>Routing\<close>

definition not_found :: Response where
  "not_found = \<lparr>rs_Status = 404, rs_Body = None\<rparr>"

definition not_allowed :: Response where
  "not_allowed = \<lparr>rs_Status = 405, rs_Body = None\<rparr>"

definition is_get :: "string \<Rightarrow> bool" where
  "is_get m \<longleftrightarrow> m = ''GET'' \<or> m = ''HEAD''"

text \<open>The method patterns of \<^verbatim>\<open>routes\<close>; a path wildcard stands for one non-empty segment.\<close>

definition mux :: "sign_fun \<Rightarrow> (instant \<Rightarrow> instant \<Rightarrow> bool) \<Rightarrow> instant \<Rightarrow> Request \<Rightarrow> Server \<Rightarrow> Server \<times> Response" where
  "mux sign after now r s =
     (let m = rq_Method r; post = (m = ''POST'')
      in case rq_Path r of
           [a, b] \<Rightarrow>
             if a = ''api'' \<and> b = ''public-key'' then
               (if is_get m then handleGetPublicKey s else (s, not_allowed))
             else if a = ''api'' \<and> b = ''rooms'' then
               (if is_get m then handleListRooms after now r s
                else if post then handleCreateRoom now r s else (s, not_allowed))
             else (s, not_found)
         | [a, b, c] \<Rightarrow>
             if a = ''api'' \<and> b = ''hosts'' \<and> c = ''register'' then
               (if post then handleRegisterHost now r s else (s, not_allowed))
             else if a = ''api'' \<and> b = ''rooms'' \<and> c \<noteq> [] then
               (if is_get m then handleGetRoom after now c s else (s, not_allowed))
             else if a = ''api'' \<and> b = ''tokens'' \<and> c \<noteq> [] then
               (if m = ''DELETE'' then handleRevokeToken r c s else (s, not_allowed))
             else (s, not_found)
         | [a, b, c, d] \<Rightarrow>
             if a = ''api'' \<and> b = ''rooms'' \<and> c \<noteq> [] \<and> d = ''heartbeat'' then
               (if post then handleHeartbeat now r c s else (s, not_allowed))
             else if a = ''api'' \<and> b = ''rooms'' \<and> c \<noteq> [] \<and> d = ''kick'' then
               (if post then handleKick now r c s else (s, not_allowed))
             else if a = ''api'' \<and> b = ''rooms'' \<and> c \<noteq> [] \<and> d = ''tokens'' then
               (if post then handleIssueTokens now r c s
                else if is_get m then handleListTokens r c s else (s, not_allowed))
             else if a = ''api'' \<and> b = ''tokens'' \<and> c \<noteq> [] \<and> d = ''redeem'' then
               (if post then handleRedeemToken sign now c s else (s, not_allowed))
             else (s, not_found)
         | _ \<Rightarrow> (s, not_found))"

text \<open>\<^verbatim>\<open>ServeHTTP\<close>: a preflight request is answered before routing. (CORS headers are not modelled.)\<close>

definition ServeHTTP :: "sign_fun \<Rightarrow> (instant \<Rightarrow> instant \<Rightarrow> bool) \<Rightarrow> instant \<Rightarrow> Request \<Rightarrow> Server \<Rightarrow> Server \<times> Response" where
  "ServeHTTP sign after now r s =
     (if rq_Method r = ''OPTIONS'' then (s, \<lparr>rs_Status = 204, rs_Body = None\<rparr>)
      else mux sign after now r s)"

end
