(* ===== verification/ServerProps.thy ===== *)
theory ServerProps
  imports Server
begin

text \<open>
  What the server's API guarantees: a code is redeemed at most once when requests are served one
  after the other (and twice when they race), a request other than a redemption reaches the
  rooms and tokens of its own host only (without a registered key none), a redemption at most the token it
  names, a kick is delivered exactly once, and issued
  codes are fresh.
\<close>

section \<open>What a request can do to the tables\<close>

inductive db_op :: "DB \<Rightarrow> DB \<Rightarrow> bool" where
  fail: "db_op d (d\<lparr>db_fail := bs\<rparr>)"
| host: "\<forall>x \<in> set (db_hosts d). h_ID x \<noteq> h_ID h \<and> h_APIKey x \<noteq> h_APIKey h \<Longrightarrow>
     db_op d (d\<lparr>db_hosts := db_hosts d @ [h]\<rparr>)"
| room: "\<not> has_room (r_ID r) d \<Longrightarrow> has_host (r_HostID r) d \<Longrightarrow>
     db_op d (d\<lparr>db_rooms := db_rooms d @ [r\<lparr>r_KickRequested := False\<rparr>]\<rparr>)"
| beat: "db_op d (upd_rooms i
     (\<lambda>r. r\<lparr>r_Online := online, r_CurrentViewer := viewer, r_UpdatedAt := now\<rparr>) d)"
| kick: "db_op d (upd_rooms i (\<lambda>r. r\<lparr>r_KickRequested := b, r_UpdatedAt := now\<rparr>) d)"
| token: "insert_token t d = Some d' \<Longrightarrow> db_op d d'"
| redeem: "db_op d (redeem_token now code v d)"
| revoke: "db_op d (revoke_token code d)"
| session: "db_op d (d\<lparr>db_sessions := db_sessions d @ [x]\<rparr>)"

abbreviation db_ops :: "DB \<Rightarrow> DB \<Rightarrow> bool" where
  "db_ops \<equiv> db_op\<^sup>*\<^sup>*"

abbreviation srv_ops :: "Server \<Rightarrow> Server \<Rightarrow> bool" where
  "srv_ops s s' \<equiv> db_ops (sv_db s) (sv_db s')"

lemma stmt_op: "db_ops d (snd (stmt d))"
  by (auto simp: stmt_def intro: db_op.fail split: list.splits)

lemma exec_op:
  assumes "\<And>d d'. f d = Some d' \<Longrightarrow> db_op d d'"
  shows "db_ops d (fst (exec f d))"
proof -
  obtain b d' where st: "stmt d = (b, d')" by (cases "stmt d")
  then have 1: "db_ops d d'" using stmt_op [of d] by simp
  show ?thesis
  proof (cases b)
    case True
    with st 1 show ?thesis by (simp add: exec_def)
  next
    case False
    with st 1 assms show ?thesis by (auto simp: exec_def split: option.splits intro: rtranclp.rtrancl_into_rtrancl)
  qed
qed

lemma query_op: "db_ops d (fst (query_row f d))" "db_ops d (fst (query_all g d))"
  using stmt_op [of d] by (auto simp: query_row_def query_all_def split: prod.splits bool.splits)

lemma statement_ops:
  "db_ops d (fst (CreateHost h d))" "db_ops d (fst (CreateRoom r d))"
  "db_ops d (fst (UpdateRoomHeartbeat now i online viewer d))"
  "db_ops d (fst (SetRoomKickRequested now i b d))" "db_ops d (fst (CreateToken t d))"
  "db_ops d (fst (RedeemToken now code v d))" "db_ops d (fst (RevokeToken code d))"
  "db_ops d (fst (CreateSession x d))"
  unfolding CreateHost_def CreateRoom_def UpdateRoomHeartbeat_def SetRoomKickRequested_def
    CreateToken_def RedeemToken_def RevokeToken_def CreateSession_def
  by (rule exec_op; auto split: if_splits intro: db_op.intros)+

lemma query_ops:
  "db_ops d (fst (GetHostByAPIKey key d))" "db_ops d (fst (GetRoom i d))"
  "db_ops d (fst (GetRoomByIDAndHostID i h d))" "db_ops d (fst (ListRoomsByHostID h d))"
  "db_ops d (fst (GetToken code d))" "db_ops d (fst (ListTokensByRoomID i d))"
  "db_ops d (fst (GetTokenByCodeAndHostID code h d))"
  "db_ops d (fst (CountActiveSessionsInRoom after now i d))"
  unfolding GetHostByAPIKey_def GetRoom_def GetRoomByIDAndHostID_def ListRoomsByHostID_def GetToken_def
    ListTokensByRoomID_def GetTokenByCodeAndHostID_def CountActiveSessionsInRoom_def
  by (rule query_op)+

lemma on_db_sel [simp]:
  "sv_db (fst (on_db f s)) = fst (f (sv_db s))" "snd (on_db f s) = snd (f (sv_db s))"
  "sv_keys (fst (on_db f s)) = sv_keys s" "sv_queue (fst (on_db f s)) = sv_queue s"
  "sv_rand (fst (on_db f s)) = sv_rand s"
  by (simp_all add: on_db_def split: prod.splits)

lemma on_db_eq: "on_db f s = (s', x) \<longleftrightarrow> s' = s\<lparr>sv_db := fst (f (sv_db s))\<rparr> \<and> x = snd (f (sv_db s))"
  by (auto simp: on_db_def split: prod.splits)

lemma newID_db: "newID s = (s', i) \<Longrightarrow> sv_db s' = sv_db s \<and> sv_keys s' = sv_keys s \<and> sv_queue s' = sv_queue s"
  by (auto simp: newID_def rand_read_def)

lemma newSecret_db: "newSecret s = (s', i) \<Longrightarrow> sv_db s' = sv_db s \<and> sv_keys s' = sv_keys s \<and> sv_queue s' = sv_queue s"
  by (auto simp: newSecret_def rand_read_def)

lemma newTokenCode_db: "newTokenCode s = (s', i) \<Longrightarrow> sv_db s' = sv_db s \<and> sv_keys s' = sv_keys s \<and> sv_queue s' = sv_queue s"
  by (auto simp: newTokenCode_def rand_read_def)

lemmas gen_db = newID_db newSecret_db newTokenCode_db

text \<open>The only effect of authentication on the tables is that of a failing statement.\<close>

definition same_tables :: "Server \<Rightarrow> Server \<Rightarrow> bool" where
  "same_tables s s' \<longleftrightarrow> db_hosts (sv_db s') = db_hosts (sv_db s) \<and> db_rooms (sv_db s') = db_rooms (sv_db s)
     \<and> db_tokens (sv_db s') = db_tokens (sv_db s) \<and> db_sessions (sv_db s') = db_sessions (sv_db s)
     \<and> sv_keys s' = sv_keys s \<and> sv_queue s' = sv_queue s"

lemma same_tables_refl [simp]: "same_tables s s"
  by (simp add: same_tables_def)

lemma same_tables_trans: "same_tables s s' \<Longrightarrow> same_tables s' s'' \<Longrightarrow> same_tables s s''"
  by (simp add: same_tables_def)

lemma query_tables:
  "db_hosts (fst (query_row f d)) = db_hosts d" "db_rooms (fst (query_row f d)) = db_rooms d"
  "db_tokens (fst (query_row f d)) = db_tokens d" "db_sessions (fst (query_row f d)) = db_sessions d"
  "db_hosts (fst (query_all g d)) = db_hosts d" "db_rooms (fst (query_all g d)) = db_rooms d"
  "db_tokens (fst (query_all g d)) = db_tokens d" "db_sessions (fst (query_all g d)) = db_sessions d"
  by (auto simp: query_row_def query_all_def split: prod.splits bool.splits dest!: stmt_eq)

lemma requireHost_spec:
  assumes "requireHost r s = (s', x)"
  shows "same_tables s s'" "srv_ops s s'"
    and "x = Inr h \<Longrightarrow> h \<in> set (db_hosts (sv_db s)) \<and> h_APIKey h = bearerToken r \<and> bearerToken r \<noteq> []"
    and "x = Inl resp \<Longrightarrow> rs_Status resp \<in> {401, 500}"
  using assms query_ops(1) [of "sv_db s" "bearerToken r"]
  by (auto simp: requireHost_def Let_def on_db_eq same_tables_def GetHostByAPIKey_def query_tables
      writeError_def writeJSON_def query_row_def find_Some_iff
      split: if_splits sum.splits db_error.splits prod.splits bool.splits option.splits dest!: stmt_eq)

lemma own_room_all:
  assumes "own_room r i s = (s', x)"
  shows "same_tables s s' \<and> srv_ops s s' \<and>
      (\<forall>h room. x = Inr (h, room) \<longrightarrow> h \<in> set (db_hosts (sv_db s)) \<and> h_APIKey h = bearerToken r \<and> bearerToken r \<noteq> []
          \<and> room \<in> set (db_rooms (sv_db s)) \<and> r_ID room = i \<and> r_HostID room = h_ID h) \<and>
      (\<forall>resp. x = Inl resp \<longrightarrow> rs_Status resp \<in> {401, 404, 500})"
proof -
  obtain s1 y where rh: "requireHost r s = (s1, y)" by (cases "requireHost r s")
  note sp = requireHost_spec [OF rh]
  show ?thesis
  proof (cases y)
    case (Inl a)
    with assms rh sp(1,2) sp(4) [OF Inl] show ?thesis by (auto simp: own_room_def)
  next
    case (Inr h')
    have tb: "same_tables s s1" and ops: "srv_ops s s1" and h': "h' \<in> set (db_hosts (sv_db s))" "h_APIKey h' = bearerToken r" "bearerToken r \<noteq> []"
      using sp Inr by auto
    let ?q = "GetRoomByIDAndHostID i (h_ID h') (sv_db s1)"
    have s': "s' = s1\<lparr>sv_db := fst ?q\<rparr>" using assms rh Inr
      by (auto simp: own_room_def on_db_def split: prod.splits sum.splits db_error.splits)
    have "same_tables s1 s'" by (simp add: s' same_tables_def GetRoomByIDAndHostID_def query_tables)
    moreover have "srv_ops s1 s'" using query_ops(3) by (simp add: s')
    moreover have "\<forall>h room. x = Inr (h, room) \<longrightarrow> h = h' \<and> room \<in> set (db_rooms (sv_db s1)) \<and> r_ID room = i \<and> r_HostID room = h_ID h"
      "\<forall>resp. x = Inl resp \<longrightarrow> rs_Status resp \<in> {401, 404, 500}"
      using assms rh Inr by (auto simp: own_room_def on_db_def GetRoomByIDAndHostID_def query_row_def
          find_Some_iff writeError_def writeJSON_def
          split: prod.splits sum.splits db_error.splits bool.splits option.splits dest!: stmt_eq)
    ultimately show ?thesis
      using tb ops h' by (auto simp: same_tables_def)
  qed
qed

lemma own_room_spec:
  assumes "own_room r i s = (s', x)"
  shows "same_tables s s'" "srv_ops s s'"
    and "x = Inr (h, room) \<Longrightarrow> h \<in> set (db_hosts (sv_db s)) \<and> h_APIKey h = bearerToken r \<and> bearerToken r \<noteq> []
          \<and> room \<in> set (db_rooms (sv_db s)) \<and> r_ID room = i \<and> r_HostID room = h_ID h"
    and "x = Inl resp \<Longrightarrow> rs_Status resp \<in> {401, 404, 500}"
  using own_room_all [OF assms] by auto

text \<open>Every handler is a sequence of such operations.\<close>

lemma srv_ops_trans: "srv_ops s s' \<Longrightarrow> db_ops (sv_db s') d \<Longrightarrow> db_ops (sv_db s) d"
  by (rule rtranclp_trans)

lemma issue_tokens_ops: "srv_ops s (fst (issue_tokens now i h n s))"
proof (induction n arbitrary: s)
  case (Suc n)
  obtain s1 code where g: "newTokenCode s = (s1, code)" by (cases "newTokenCode s")
  let ?t = "\<lparr>t_Code = code, t_RoomID = i, t_HostID = h, t_Redeemed = False, t_Revoked = False,
               t_ViewerID = None, t_CreatedAt = now, t_RedeemedAt = None\<rparr>"
  obtain s2 e where c: "on_db (CreateToken ?t) s1 = (s2, e)" by (cases "on_db (CreateToken ?t) s1")
  have "srv_ops s s2" using c newTokenCode_db [OF g] statement_ops(5) [of "sv_db s1" ?t]
    by (auto simp: on_db_eq)
  with Suc.IH [of s2] show ?case
    by (cases e) (auto simp: g c split: prod.splits intro: rtranclp_trans)
qed simp

lemma list_rooms_ops: "srv_ops s (fst (list_rooms after now rooms s))"
proof (induction rooms arbitrary: s)
  case (Cons room rooms)
  have "srv_ops s (fst (room_depth after now (r_ID room) s))"
    using query_ops(8) [of "sv_db s" after now "r_ID room"]
    by (auto simp: room_depth_def on_db_def split: prod.splits sum.splits)
  with Cons.IH show ?case by (fastforce split: prod.splits intro: rtranclp_trans)
qed simp

lemma redeem_step_ops: "srv_ops s (fst (redeem_step sign now pc s))"
proof (cases pc)
  case (RLookup code)
  then show ?thesis using query_ops(5) [of "sv_db s" code]
    by (auto simp: on_db_def split: prod.splits sum.splits db_error.splits)
next
  case (RRoom code tok)
  then show ?thesis using query_ops(2) [of "sv_db s" "t_RoomID tok"]
    by (auto simp: on_db_def Let_def split: prod.splits sum.splits dest!: newID_db)
next
  case (RMark code tok v jwt t e)
  then show ?thesis using statement_ops(6) [of "sv_db s" now code v]
    by (auto simp: on_db_def split: prod.splits option.splits)
next
  case (RStore code tok v jwt t e pos)
  obtain s1 i where g: "newID s = (s1, i)" by (cases "newID s")
  let ?x = "\<lparr>s_ID = i, s_RoomID = t_RoomID tok, s_ViewerID = v, s_TokenCode = code, s_JWT = jwt,
    s_QueuePos = pos, s_Active = True, s_CreatedAt = t, s_ExpiresAt = e\<rparr>"
  obtain s2 er where c: "on_db (CreateSession ?x) s1 = (s2, er)" by (cases "on_db (CreateSession ?x) s1")
  have "srv_ops s s2" using c newID_db [OF g] statement_ops(8) [of "sv_db s1" ?x] by (auto simp: on_db_eq)
  with RStore g c show ?thesis by (cases er) simp_all
qed (simp_all add: queue_Next_def)

lemma redeem_iter_ops: "srv_ops s (fst (redeem_iter n sign now pc s))"
proof (induction n arbitrary: pc s)
  case (Suc n)
  with redeem_step_ops [of s sign now pc] show ?case
    by (auto split: prod.splits intro: rtranclp_trans)
qed simp

lemma handler_ops:
  "srv_ops s (fst (handleRegisterHost now r s))"
  "srv_ops s (fst (handleCreateRoom now r s))"
  "srv_ops s (fst (handleListRooms after now r s))"
  "srv_ops s (fst (handleGetRoom after now i s))"
  "srv_ops s (fst (handleHeartbeat now r i s))"
  "srv_ops s (fst (handleKick now r i s))"
  "srv_ops s (fst (handleIssueTokens now r i s))"
  "srv_ops s (fst (handleListTokens r i s))"
  "srv_ops s (fst (handleRevokeToken r code s))"
  "srv_ops s (fst (handleRedeemToken sign now code s))"
proof -
  have db: "db_ops d (fst (f d')) \<Longrightarrow> db_ops d (sv_db (s1\<lparr>sv_db := fst (f d')\<rparr>))"
    for d d' :: DB and f :: "DB \<Rightarrow> DB \<times> 'z" and s1 by simp
  show "srv_ops s (fst (handleRegisterHost now r s))"
    using statement_ops(1)
    by (auto simp: handleRegisterHost_def Let_def on_db_eq split: option.splits prod.splits dest!: gen_db)
  show "srv_ops s (fst (handleCreateRoom now r s))"
    using statement_ops(2)
    by (auto simp: handleCreateRoom_def Let_def on_db_eq split: option.splits prod.splits sum.splits
        dest!: gen_db dest: requireHost_spec(2) intro: rtranclp_trans)
  show "srv_ops s (fst (handleListRooms after now r s))"
  proof -
    obtain s1 x where rh: "requireHost r s = (s1, x)" by (cases "requireHost r s")
    have 1: "srv_ops s s1" by (rule requireHost_spec(2) [OF rh])
    show ?thesis
    proof (cases x)
      case (Inr h)
      let ?s2 = "s1\<lparr>sv_db := fst (ListRoomsByHostID (h_ID h) (sv_db s1))\<rparr>"
      have "srv_ops s ?s2" using 1 query_ops(4) [of "sv_db s1" "h_ID h"] by (auto intro: rtranclp_trans)
      then have "srv_ops s (fst (list_rooms after now rooms ?s2))" for rooms
        using list_rooms_ops [of ?s2 after now rooms] by (auto intro: rtranclp_trans)
      with \<open>srv_ops s ?s2\<close> show ?thesis
        by (auto simp: handleListRooms_def rh Inr on_db_def split: prod.splits sum.splits) (metis fst_conv)+
    qed (use rh 1 in \<open>simp add: handleListRooms_def\<close>)
  qed
  show "srv_ops s (fst (handleGetRoom after now i s))"
    using query_ops(2) [of "sv_db s" i] rtranclp_trans [OF query_ops(2) [of "sv_db s" i] query_ops(8)]
    by (auto simp: handleGetRoom_def room_depth_def on_db_eq split: prod.splits sum.splits db_error.splits)
  show "srv_ops s (fst (handleHeartbeat now r i s))"
  proof -
    have "db_ops d (fst (SetRoomKickRequested now i False (fst (UpdateRoomHeartbeat now i a b d))))" for d a b
      by (rule rtranclp_trans [OF statement_ops(3) statement_ops(4)])
    then show ?thesis using statement_ops(3)
      by (auto simp: handleHeartbeat_def Let_def on_db_eq split: option.splits prod.splits sum.splits if_splits
        dest: own_room_spec(2) intro: rtranclp_trans)
  qed
  show "srv_ops s (fst (handleKick now r i s))"
    using statement_ops(4)
    by (auto simp: handleKick_def on_db_eq split: option.splits prod.splits sum.splits
        dest: own_room_spec(2) intro: rtranclp_trans)
  show "srv_ops s (fst (handleIssueTokens now r i s))"
  proof -
    have "srv_ops x x'" if "issue_tokens now j h n x = (x', y)" for x x' j h n y
      using issue_tokens_ops [of x now j h n] that by simp
    then show ?thesis
      by (auto simp: handleIssueTokens_def split: option.splits prod.splits sum.splits
        dest: own_room_spec(2) intro: rtranclp_trans)
  qed
  show "srv_ops s (fst (handleListTokens r i s))"
    using query_ops(6)
    by (auto simp: handleListTokens_def on_db_eq split: prod.splits sum.splits
        dest: own_room_spec(2) intro: rtranclp_trans)
  show "srv_ops s (fst (handleRevokeToken r code s))"
  proof -
    have "db_ops d (fst (RevokeToken code (fst (GetTokenByCodeAndHostID code h d))))" for d h
      by (rule rtranclp_trans [OF query_ops(7) statement_ops(7)])
    then show ?thesis using query_ops(7)
      by (auto simp: handleRevokeToken_def on_db_eq split: option.splits prod.splits sum.splits db_error.splits
        dest: requireHost_spec(2) intro: rtranclp_trans)
  qed
  show "srv_ops s (fst (handleRedeemToken sign now code s))"
    using redeem_iter_ops [of s 5 sign now "RLookup code"]
    by (auto simp: handleRedeemToken_def split: prod.splits redeem_pc.splits)
qed

lemma ServeHTTP_ops: "srv_ops s (fst (ServeHTTP sign after now r s))"
proof -
  have "srv_ops s (fst (mux sign after now r s))"
  proof (cases "rq_Path r")
    case (Cons a p1)
    note 1 = Cons
    show ?thesis
    proof (cases p1)
      case (Cons b p2)
      note 2 = Cons
      show ?thesis
      proof (cases p2)
        case Nil
        with 1 2 show ?thesis by (simp add: mux_def Let_def handler_ops handleGetPublicKey_def)
      next
        case (Cons c p3)
        note 3 = Cons
        show ?thesis
        proof (cases p3)
          case Nil
          with 1 2 3 show ?thesis by (simp add: mux_def Let_def handler_ops)
        next
          case (Cons d p4)
          with 1 2 3 show ?thesis by (cases p4) (simp_all add: mux_def Let_def handler_ops)
        qed
      qed
    qed (use 1 in \<open>simp add: mux_def\<close>)
  qed (simp add: mux_def)
  then show ?thesis by (simp add: ServeHTTP_def)
qed

lemma db_ops_invariant:
  assumes "db_ops d d'" and "Q d" and "\<And>d d'. db_op d d' \<Longrightarrow> Q d \<Longrightarrow> Q d'"
  shows "Q d'"
  using assms by (induction rule: rtranclp_induct) auto

section \<open>A code is used once\<close>

lemma find_token_cong: "db_tokens d' = db_tokens d \<Longrightarrow> find_token c d' = find_token c d"
  by (simp add: find_token_def)

lemma spent_op: "db_op d d' \<Longrightarrow> tok.spent c d \<Longrightarrow> tok.spent c d'"
proof (induction rule: db_op.induct)
  case (token t d d')
  then show ?case by (rule tok.spent_ins [rotated])
next
  case (redeem d now code v)
  then show ?case by (rule tok.spent_redeem)
next
  case (revoke d code)
  then show ?case by (rule tok.spent_revoke)
qed (auto simp: tok.spent_def find_token_def upd_rooms_def)

lemma used_op: "db_op d d' \<Longrightarrow> tok.used c v d \<Longrightarrow> tok.used c v d'"
proof (induction rule: db_op.induct)
  case (token t d d')
  then show ?case by (rule tok.used_ins [rotated])
next
  case (redeem d now code v)
  then show ?case by (rule tok.used_redeem)
next
  case (revoke d code)
  then show ?case by (rule tok.used_revoke)
qed (auto simp: tok.used_def find_token_def upd_rooms_def)

lemma used_ops: "db_ops d d' \<Longrightarrow> tok.used c v d \<Longrightarrow> tok.used c v d'"
  by (rule db_ops_invariant [where Q = "tok.used c v"]) (auto intro: used_op)

lemma spent_ops: "db_ops d d' \<Longrightarrow> tok.spent c d \<Longrightarrow> tok.spent c d'"
  by (rule db_ops_invariant [where Q = "tok.spent c"]) (auto intro: spent_op)

lemma redeem_done: "redeem_iter n sign now (RDone resp) s = (s, RDone resp)"
  by (induction n) simp_all

text \<open>
  The progress of an uninterrupted request: it stops with an error, or the code was fresh at the
  start and is marked from the third step on.
\<close>

definition ok_pc :: "string \<Rightarrow> Server \<Rightarrow> Server \<times> redeem_pc \<Rightarrow> bool" where
  "ok_pc code s x = (case snd x of
     RLookup c \<Rightarrow> c = code \<and> fst x = s
   | RRoom c tok \<Rightarrow> c = code \<and> \<not> tok.spent code (sv_db s) \<and> find_token code (sv_db (fst x)) = find_token code (sv_db s)
       \<and> find_token code (sv_db s) \<noteq> None
   | RMark c tok v jwt t e \<Rightarrow> c = code \<and> \<not> tok.spent code (sv_db s)
       \<and> find_token code (sv_db (fst x)) = find_token code (sv_db s) \<and> find_token code (sv_db s) \<noteq> None
   | RQueue c tok v jwt t e \<Rightarrow> c = code \<and> \<not> tok.spent code (sv_db s) \<and> tok.used code v (sv_db (fst x))
   | RStore c tok v jwt t e p \<Rightarrow> c = code \<and> \<not> tok.spent code (sv_db s) \<and> tok.used code v (sv_db (fst x))
   | RDone resp \<Rightarrow> rs_Status resp = 200 \<longrightarrow>
       \<not> tok.spent code (sv_db s) \<and> (\<exists>v. tok.used code v (sv_db (fst x))))"

lemma query_tokens:
  "find_token c (fst (GetToken code d)) = find_token c d" "find_token c (fst (GetRoom i d)) = find_token c d"
  by (rule find_token_cong, simp add: GetToken_def GetRoom_def query_tables)+

lemma GetToken_Inr: "GetToken code d = (d', Inr t) \<Longrightarrow> find_token code d = Some t"
  using query_tokens(1) [of code code d]
  by (auto simp: GetToken_def query_row_def split: prod.splits bool.splits option.splits)

lemma RedeemToken_None:
  "RedeemToken now code v d = (d', None) \<Longrightarrow> find_token c d' = find_token c (redeem_token now code v d)"
  by (auto simp: RedeemToken_def exec_def redeem_token_def upd_tokens_def find_token_def
      split: prod.splits bool.splits dest!: stmt_eq)

lemma ok_pc_step:
  assumes ok: "ok_pc code s (s1, pc)"
  shows "ok_pc code s (redeem_step sign now pc s1)"
proof (cases pc)
  case (RLookup c)
  then have c: "c = code" "s1 = s" using ok by (simp_all add: ok_pc_def)
  obtain d x where g: "GetToken code (sv_db s) = (d, x)" by (cases "GetToken code (sv_db s)")
  then have d: "find_token code d = find_token code (sv_db s)" using query_tokens(1) [of code code "sv_db s"] by simp
  show ?thesis
  proof (cases x)
    case (Inl e)
    with RLookup c g show ?thesis
      by (cases e) (simp_all add: ok_pc_def on_db_def writeError_def writeJSON_def)
  next
    case (Inr t)
    with RLookup c g d GetToken_Inr [of code "sv_db s" d t] show ?thesis
      by (auto simp: ok_pc_def on_db_def writeError_def writeJSON_def tok.spent_def)
  qed
next
  case (RRoom c tk)
  obtain d x where g: "GetRoom (t_RoomID tk) (sv_db s1) = (d, x)" by (cases "GetRoom (t_RoomID tk) (sv_db s1)")
  then have d: "find_token code d = find_token code (sv_db s1)" using query_tokens(2) [of code _ "sv_db s1"] by (metis fst_conv)
  show ?thesis using RRoom ok g d
    by (auto simp: ok_pc_def on_db_def writeError_def writeJSON_def Let_def
        split: sum.splits prod.splits dest!: newID_db)
next
  case (RMark c tk v jwt t e)
  obtain d x where g: "RedeemToken now code v (sv_db s1) = (d, x)" by (cases "RedeemToken now code v (sv_db s1)")
  have "tok.used code v d" if "x = None"
  proof -
    have f: "find_token code d = find_token code (redeem_token now code v (sv_db s1))"
      using RedeemToken_None [of now code v "sv_db s1" d code] g that by simp
    obtain tt where "find_token code (sv_db s1) = Some tt" "\<not> t_Redeemed tt" "\<not> t_Revoked tt"
      using ok RMark by (auto simp: ok_pc_def tok.spent_def)
    then have "tok.used code v (redeem_token now code v (sv_db s1))" by (rule tok.redeem_uses)
    with f show ?thesis by (simp add: tok.used_def)
  qed
  with RMark ok g show ?thesis
    by (auto simp: ok_pc_def on_db_def writeError_def writeJSON_def split: option.splits)
next
  case (RQueue c tk v jwt t e)
  with ok show ?thesis by (simp add: ok_pc_def queue_Next_def)
next
  case (RStore c tk v jwt t e pos)
  have "tok.used code v (sv_db (fst (redeem_step sign now pc s1)))"
    using used_ops [OF redeem_step_ops] ok RStore by (simp add: ok_pc_def del: redeem_step.simps)
  moreover have "\<exists>resp. snd (redeem_step sign now pc s1) = RDone resp"
    using RStore by (auto simp: Let_def split: prod.split option.split)
  ultimately show ?thesis using ok RStore by (auto simp: ok_pc_def simp del: redeem_step.simps)
next
  case (RDone resp)
  with ok show ?thesis by (simp add: ok_pc_def)
qed

lemma ok_pc_iter: "ok_pc code s (s1, pc) \<Longrightarrow> ok_pc code s (redeem_iter n sign now pc s1)"
proof (induction n arbitrary: pc s1)
  case (Suc n)
  obtain s2 pc2 where st: "redeem_step sign now pc s1 = (s2, pc2)" by (cases "redeem_step sign now pc s1")
  with ok_pc_step [OF Suc.prems, of sign now] Suc.IH show ?case by simp
qed simp

lemma redeem_success:
  assumes "handleRedeemToken sign now code s = (s', resp)" and "rs_Status resp = 200"
  shows "\<not> tok.spent code (sv_db s) \<and> (\<exists>v. tok.used code v (sv_db s'))"
proof -
  have "ok_pc code s (redeem_iter 5 sign now (RLookup code) s)"
    by (rule ok_pc_iter) (simp add: ok_pc_def)
  with assms show ?thesis
    by (auto simp: handleRedeemToken_def ok_pc_def writeError_def writeJSON_def
        split: prod.splits redeem_pc.splits)
qed

text \<open>
  What a redemption writes, however far it comes: up to the third step no table changes, and from then
  on the token table is as it was with at most the code of the request marked.
\<close>

definition marked :: "instant \<Rightarrow> string \<Rightarrow> DB \<Rightarrow> DB \<Rightarrow> bool" where
  "marked now code d d' \<longleftrightarrow> db_hosts d' = db_hosts d \<and> db_rooms d' = db_rooms d
     \<and> (db_tokens d' = db_tokens d \<or> (\<exists>v. db_tokens d' = db_tokens (redeem_token now code v d)))"

definition marks_pc :: "instant \<Rightarrow> string \<Rightarrow> Server \<Rightarrow> Server \<times> redeem_pc \<Rightarrow> bool" where
  "marks_pc now code s x \<longleftrightarrow> marked now code (sv_db s) (sv_db (fst x)) \<and> (case snd x of
     RLookup c \<Rightarrow> c = code \<and> db_tokens (sv_db (fst x)) = db_tokens (sv_db s)
   | RRoom c tok \<Rightarrow> c = code \<and> db_tokens (sv_db (fst x)) = db_tokens (sv_db s)
   | RMark c tok v jwt t e \<Rightarrow> c = code \<and> db_tokens (sv_db (fst x)) = db_tokens (sv_db s)
   | _ \<Rightarrow> True)"

lemma marked_cong:
  "marked now code d d1 \<Longrightarrow> db_hosts d2 = db_hosts d1 \<Longrightarrow> db_rooms d2 = db_rooms d1 \<Longrightarrow> db_tokens d2 = db_tokens d1
    \<Longrightarrow> marked now code d d2"
  by (simp add: marked_def)

lemma get_tables:
  "GetToken c d = (d', x) \<Longrightarrow> db_hosts d' = db_hosts d \<and> db_rooms d' = db_rooms d \<and> db_tokens d' = db_tokens d"
  "GetRoom i d = (d', y) \<Longrightarrow> db_hosts d' = db_hosts d \<and> db_rooms d' = db_rooms d \<and> db_tokens d' = db_tokens d"
  by (auto simp: GetToken_def GetRoom_def query_row_def split: prod.splits bool.splits dest!: stmt_eq)

lemma CreateSession_tables:
  "CreateSession x d = (d', e) \<Longrightarrow> db_hosts d' = db_hosts d \<and> db_rooms d' = db_rooms d \<and> db_tokens d' = db_tokens d"
  by (auto simp: CreateSession_def exec_def split: prod.splits bool.splits if_splits dest!: stmt_eq)

lemma RedeemToken_marked:
  assumes "RedeemToken now code v d1 = (d2, e)" "marked now code d d1" "db_tokens d1 = db_tokens d"
  shows "marked now code d d2"
  using assms by (auto simp: RedeemToken_def exec_def marked_def redeem_token_def upd_tokens_def
      split: prod.splits bool.splits dest!: stmt_eq)

lemma marks_pc_step:
  assumes m: "marks_pc now code s (s1, pc)"
  shows "marks_pc now code s (redeem_step sign now pc s1)"
proof (cases pc)
  case (RLookup c)
  obtain d x where g: "GetToken c (sv_db s1) = (d, x)" by (cases "GetToken c (sv_db s1)")
  with get_tables(1) [OF g] m RLookup have "marked now code (sv_db s) d" "db_tokens d = db_tokens (sv_db s)" "c = code"
    by (auto simp: marks_pc_def intro: marked_cong)
  then show ?thesis using RLookup g by (auto simp: marks_pc_def on_db_def split: sum.splits db_error.splits)
next
  case (RRoom c tk)
  obtain d x where g: "GetRoom (t_RoomID tk) (sv_db s1) = (d, x)" by (cases "GetRoom (t_RoomID tk) (sv_db s1)")
  with get_tables(2) [OF g] m RRoom have "marked now code (sv_db s) d" "db_tokens d = db_tokens (sv_db s)" "c = code"
    by (auto simp: marks_pc_def intro: marked_cong)
  then show ?thesis using RRoom g by (auto simp: marks_pc_def on_db_def Let_def split: sum.splits prod.splits dest!: newID_db)
next
  case (RMark c tk v jwt t e)
  obtain d x where g: "RedeemToken now c v (sv_db s1) = (d, x)" by (cases "RedeemToken now c v (sv_db s1)")
  have "marked now code (sv_db s) d" using RedeemToken_marked [of now code v "sv_db s1"] g m RMark by (auto simp: marks_pc_def)
  then show ?thesis using RMark g by (auto simp: marks_pc_def on_db_def split: option.splits)
next
  case (RQueue c tk v jwt t e)
  then show ?thesis using m by (simp add: marks_pc_def queue_Next_def)
next
  case (RStore c tk v jwt t e pos)
  then show ?thesis using m
    by (auto simp: marks_pc_def on_db_def Let_def split: prod.splits option.splits
        dest!: newID_db CreateSession_tables intro: marked_cong)
qed (use m in simp)

lemma handleRedeemToken_marks: "marked now code (sv_db s) (sv_db (fst (handleRedeemToken sign now code s)))"
proof -
  have "marks_pc now code s (s1, pc) \<Longrightarrow> marks_pc now code s (redeem_iter n sign now pc s1)" for n s1 pc
  proof (induction n arbitrary: s1 pc)
    case (Suc n)
    obtain s2 pc2 where st: "redeem_step sign now pc s1 = (s2, pc2)" by (cases "redeem_step sign now pc s1")
    with marks_pc_step [OF Suc.prems, of sign] Suc.IH show ?case by simp
  qed simp
  from this [of s "RLookup code" 5] show ?thesis
    by (auto simp: handleRedeemToken_def marks_pc_def marked_def split: prod.splits redeem_pc.splits)
qed

text \<open>Requests served one after the other, with the responses.\<close>

fun serve :: "sign_fun \<Rightarrow> (instant \<Rightarrow> instant \<Rightarrow> bool) \<Rightarrow> (instant \<times> Request) list \<Rightarrow> Server \<Rightarrow>
    Server \<times> Response list" where
  "serve sign after [] s = (s, [])"
| "serve sign after ((now, r) # rs) s =
     (let (s1, resp) = ServeHTTP sign after now r s; (s2, resps) = serve sign after rs s1
      in (s2, resp # resps))"

definition is_redeem :: "string \<Rightarrow> Request \<Rightarrow> bool" where
  "is_redeem code r \<longleftrightarrow> rq_Method r = ''POST'' \<and> rq_Path r = [''api'', ''tokens'', code, ''redeem''] \<and> code \<noteq> []"

lemma ServeHTTP_redeem: "is_redeem code r \<Longrightarrow> ServeHTTP sign after now r s = handleRedeemToken sign now code s"
  by (simp add: is_redeem_def ServeHTTP_def mux_def Let_def)

definition redeemed_ok :: "string \<Rightarrow> (instant \<times> Request) \<times> Response \<Rightarrow> bool" where
  "redeemed_ok code x \<longleftrightarrow> is_redeem code (snd (fst x)) \<and> rs_Status (snd x) = 200"

lemma redeemed_ok_iff [simp]: "redeemed_ok code ((now, r), resp) \<longleftrightarrow> is_redeem code r \<and> rs_Status resp = 200"
  by (simp add: redeemed_ok_def)

lemma serve_spent:
  "tok.spent code (sv_db s) \<Longrightarrow> filter (redeemed_ok code) (zip rs (snd (serve sign after rs s))) = []"
proof (induction rs arbitrary: s)
  case (Cons x rs)
  obtain now r where x: "x = (now, r)" by (cases x)
  obtain s1 resp where s1: "ServeHTTP sign after now r s = (s1, resp)" by (cases "ServeHTTP sign after now r s")
  have "tok.spent code (sv_db s1)" using spent_ops [OF ServeHTTP_ops Cons.prems, of sign after now r] s1 by simp
  moreover have "\<not> (is_redeem code r \<and> rs_Status resp = 200)"
    using redeem_success [of sign now code s s1 resp] Cons.prems s1 by (auto simp: ServeHTTP_redeem)
  ultimately show ?case using Cons.IH [of s1] s1 x by (auto split: prod.split)
qed simp

section \<open>Hosts are kept apart\<close>

definition keys_ok :: "DB \<Rightarrow> bool" where
  "keys_ok d \<longleftrightarrow> distinct (map h_ID (db_hosts d)) \<and> distinct (map h_APIKey (db_hosts d))
     \<and> distinct (map r_ID (db_rooms d)) \<and> distinct (map t_Code (db_tokens d))"

lemma map_upd_ids: "(\<And>x. k (f x) = k x) \<Longrightarrow> map k (map (\<lambda>x. if P x then f x else x) xs) = map k xs"
  by simp

lemma keys_ok_op: "db_op d d' \<Longrightarrow> keys_ok d \<Longrightarrow> keys_ok d'"
proof (induction rule: db_op.induct)
  case (token t d d')
  then show ?case
    by (auto simp: insert_token_def keys_ok_def find_token_def find_None_iff split: if_splits) metis
qed (auto simp: keys_ok_def has_room_def upd_rooms_def redeem_token_def revoke_token_def upd_tokens_def
    map_upd_ids simp del: map_map)

lemma keys_ok_ops: "db_ops d d' \<Longrightarrow> keys_ok d \<Longrightarrow> keys_ok d'"
  by (rule db_ops_invariant [where Q = keys_ok]) (auto intro: keys_ok_op)

lemma distinct_map_eq: "distinct (map k xs) \<Longrightarrow> x \<in> set xs \<Longrightarrow> y \<in> set xs \<Longrightarrow> k x = k y \<Longrightarrow> x = y"
  by (metis distinct_map inj_onD)

lemma filter_map_frame:
  "(\<And>x. x \<in> set xs \<Longrightarrow> P (g x) = P x) \<Longrightarrow> (\<And>x. x \<in> set xs \<Longrightarrow> P x \<Longrightarrow> g x = x) \<Longrightarrow>
   filter P (map g xs) = filter P xs"
  by (induction xs) auto

text \<open>The host a request is authenticated as, by its id.\<close>

definition auth_id :: "Request \<Rightarrow> Server \<Rightarrow> string option" where
  "auth_id r s = (if bearerToken r = [] then None
     else map_option h_ID (find (\<lambda>h. h_APIKey h = bearerToken r) (db_hosts (sv_db s))))"

definition rooms_but :: "string option \<Rightarrow> Server \<Rightarrow> Room list" where
  "rooms_but a s = filter (\<lambda>x. Some (r_HostID x) \<noteq> a) (db_rooms (sv_db s))"

definition tokens_but :: "string option \<Rightarrow> Server \<Rightarrow> Token list" where
  "tokens_but a s = filter (\<lambda>x. Some (t_HostID x) \<noteq> a) (db_tokens (sv_db s))"

definition iso :: "string option \<Rightarrow> Server \<Rightarrow> Server \<Rightarrow> bool" where
  "iso a s s' \<longleftrightarrow> rooms_but a s' = rooms_but a s \<and> tokens_but a s' = tokens_but a s"

lemma iso_refl [simp]: "iso a s s"
  by (simp add: iso_def)

lemma iso_trans: "iso a s s' \<Longrightarrow> iso a s' s'' \<Longrightarrow> iso a s s''"
  by (simp add: iso_def)

lemma iso_same_tables: "same_tables s s' \<Longrightarrow> iso a s s'"
  by (simp add: iso_def same_tables_def rooms_but_def tokens_but_def)

lemma iso_cong: "sv_db s' = sv_db s \<Longrightarrow> iso a s s'"
  by (simp add: iso_def rooms_but_def tokens_but_def)

lemma auth_id_host:
  "h \<in> set (db_hosts (sv_db s)) \<Longrightarrow> h_APIKey h = bearerToken r \<Longrightarrow> bearerToken r \<noteq> [] \<Longrightarrow>
   keys_ok (sv_db s) \<Longrightarrow> auth_id r s = Some (h_ID h)"
proof -
  assume h: "h \<in> set (db_hosts (sv_db s))" "h_APIKey h = bearerToken r" "bearerToken r \<noteq> []"
    and k: "keys_ok (sv_db s)"
  obtain h' where f: "find (\<lambda>h. h_APIKey h = bearerToken r) (db_hosts (sv_db s)) = Some h'"
    using h by (cases "find (\<lambda>h. h_APIKey h = bearerToken r) (db_hosts (sv_db s))") (auto simp: find_None_iff)
  then have "h' \<in> set (db_hosts (sv_db s))" "h_APIKey h' = bearerToken r" by (auto simp: find_Some_iff)
  with h k have "h' = h" by (auto simp: keys_ok_def intro: distinct_map_eq)
  with f h(3) show ?thesis by (simp add: auth_id_def)
qed

lemma iso_exec:
  assumes "\<And>d d'. db_rooms d = db_rooms (sv_db s) \<Longrightarrow> db_tokens d = db_tokens (sv_db s) \<Longrightarrow> f d = Some d' \<Longrightarrow>
      iso a s (s\<lparr>sv_db := d'\<rparr>)"
  shows "iso a s (s\<lparr>sv_db := fst (exec f (sv_db s))\<rparr>)"
proof -
  obtain b d where st: "stmt (sv_db s) = (b, d)" by (cases "stmt (sv_db s)")
  have t: "db_rooms d = db_rooms (sv_db s)" "db_tokens d = db_tokens (sv_db s)" using stmt_eq [OF st] by simp_all
  then have "iso a s (s\<lparr>sv_db := d\<rparr>)" by (simp add: iso_def rooms_but_def tokens_but_def)
  with st assms [OF t] show ?thesis by (auto simp: exec_def split: option.splits bool.splits)
qed

lemma iso_room_update:
  assumes "keys_ok (sv_db s)" "room \<in> set (db_rooms (sv_db s))" "r_ID room = i" "a = Some (r_HostID room)"
    and f: "\<And>r. r_HostID (f r) = r_HostID r"
  shows "iso a s (s\<lparr>sv_db := fst (exec (\<lambda>d. Some (upd_rooms i f d)) (sv_db s))\<rparr>)"
proof (rule iso_exec)
  fix d d' assume d: "db_rooms d = db_rooms (sv_db s)" "db_tokens d = db_tokens (sv_db s)"
    "Some (upd_rooms i f d) = Some d'"
  have "r_HostID x = r_HostID room" if "x \<in> set (db_rooms (sv_db s))" "r_ID x = i" for x
    using assms(1-3) that distinct_map_eq [of r_ID "db_rooms (sv_db s)" x room] by (auto simp: keys_ok_def)
  then have "filter (\<lambda>x. Some (r_HostID x) \<noteq> a) (map (\<lambda>r. if r_ID r = i then f r else r) (db_rooms (sv_db s)))
      = filter (\<lambda>x. Some (r_HostID x) \<noteq> a) (db_rooms (sv_db s))"
    using assms(4) f by (intro filter_map_frame) auto
  with d show "iso a s (s\<lparr>sv_db := d'\<rparr>)"
    by (auto simp: iso_def rooms_but_def tokens_but_def upd_rooms_def)
qed

lemma iso_issue_tokens: "iso (Some hid) s (fst (issue_tokens now i hid n s))"
proof (induction n arbitrary: s)
  case (Suc n)
  obtain s1 code where g: "newTokenCode s = (s1, code)" by (cases "newTokenCode s")
  let ?t = "\<lparr>t_Code = code, t_RoomID = i, t_HostID = hid, t_Redeemed = False, t_Revoked = False,
               t_ViewerID = None, t_CreatedAt = now, t_RedeemedAt = None\<rparr>"
  obtain s2 e where c: "on_db (CreateToken ?t) s1 = (s2, e)" by (cases "on_db (CreateToken ?t) s1")
  have "iso (Some hid) s s1" using newTokenCode_db [OF g] by (simp add: iso_cong)
  moreover have "iso (Some hid) s1 s2"
  proof -
    have "iso (Some hid) s1 (s1\<lparr>sv_db := fst (exec (insert_token ?t) (sv_db s1))\<rparr>)"
      by (rule iso_exec) (auto simp: iso_def rooms_but_def tokens_but_def insert_token_def split: if_splits)
    then show ?thesis using c by (simp add: on_db_eq CreateToken_def)
  qed
  ultimately have 2: "iso (Some hid) s s2" by (rule iso_trans)
  then show ?case using Suc.IH [of s2] by (cases e) (auto simp: g c split: prod.splits intro: iso_trans)
qed simp

lemma iso_handlers:
  assumes k: "keys_ok (sv_db s)"
  shows "iso (auth_id r s) s (fst (handleRegisterHost now r s))"
    "iso (auth_id r s) s (fst (handleCreateRoom now r s))"
    "iso (auth_id r s) s (fst (handleHeartbeat now r i s))"
    "iso (auth_id r s) s (fst (handleKick now r i s))"
    "iso (auth_id r s) s (fst (handleIssueTokens now r i s))"
    "iso (auth_id r s) s (fst (handleRevokeToken r code s))"
proof -
  have own: "iso (auth_id r s) s s1 \<and> keys_ok (sv_db s1) \<and> (\<forall>h room. x = Inr (h, room) \<longrightarrow>
      room \<in> set (db_rooms (sv_db s1)) \<and> r_ID room = i \<and> auth_id r s = Some (r_HostID room) \<and> r_HostID room = h_ID h)"
    if o: "own_room r i s = (s1, x)" for s1 x
  proof -
    have t: "same_tables s s1" by (rule own_room_spec(1) [OF o])
    then have "keys_ok (sv_db s1)" using k by (simp add: keys_ok_def same_tables_def)
    moreover have "room \<in> set (db_rooms (sv_db s1)) \<and> r_ID room = i \<and> auth_id r s = Some (r_HostID room)
        \<and> r_HostID room = h_ID h" if x: "x = Inr (h, room)" for h room
      using own_room_spec(3) [OF o x] auth_id_host [of h s r] k t by (simp add: same_tables_def)
    ultimately show ?thesis using iso_same_tables [OF t] by blast
  qed
  have req: "iso (auth_id r s) s s1 \<and> keys_ok (sv_db s1) \<and> (\<forall>h. x = Inr h \<longrightarrow> auth_id r s = Some (h_ID h))"
    if q: "requireHost r s = (s1, x)" for s1 x
  proof -
    have t: "same_tables s s1" by (rule requireHost_spec(1) [OF q])
    then have "keys_ok (sv_db s1)" using k by (simp add: keys_ok_def same_tables_def)
    then show ?thesis using iso_same_tables [OF t] requireHost_spec(3) [OF q] auth_id_host [of _ s r] k by blast
  qed
  show "iso (auth_id r s) s (fst (handleRegisterHost now r s))"
  proof -
    have "iso a s (s2\<lparr>sv_db := fst (CreateHost h (sv_db s2))\<rparr>)" if "sv_db s2 = sv_db s" for a s2 h
    proof -
      have "iso a s2 (s2\<lparr>sv_db := fst (CreateHost h (sv_db s2))\<rparr>)" unfolding CreateHost_def
        by (rule iso_exec) (auto simp: iso_def rooms_but_def tokens_but_def split: if_splits)
      then show ?thesis using iso_trans [OF iso_cong [OF that]] by blast
    qed
    then show ?thesis
      by (auto simp: handleRegisterHost_def Let_def on_db_eq split: option.splits prod.splits dest!: gen_db)
  qed
  show "iso (auth_id r s) s (fst (handleCreateRoom now r s))"
  proof -
    have c: "iso (Some (r_HostID room)) s2 (s2\<lparr>sv_db := fst (CreateRoom room (sv_db s2))\<rparr>)" for s2 room
      unfolding CreateRoom_def
      by (rule iso_exec) (auto simp: iso_def rooms_but_def tokens_but_def split: if_splits)
    obtain s1 x where q: "requireHost r s = (s1, x)" by (cases "requireHost r s")
    obtain s2 i where g: "newID s1 = (s2, i)" by (cases "newID s1")
    have i2: "iso a s1 s2" for a using newID_db [OF g] by (simp add: iso_cong)
    show ?thesis
    proof (cases x)
      case (Inr h)
      have a: "auth_id r s = Some (h_ID h)" "iso (auth_id r s) s s1" using req [OF q] Inr by auto
      have "iso (auth_id r s) s (s2\<lparr>sv_db := fst (CreateRoom room (sv_db s2))\<rparr>)" if "r_HostID room = h_ID h" for room
        using iso_trans [OF iso_trans [OF a(2) i2] c [of room s2, unfolded that, folded a(1)]] .
      with a q Inr g show ?thesis
        by (auto simp: handleCreateRoom_def Let_def on_db_eq split: option.splits prod.splits)
    qed (use q req [OF q] in \<open>simp add: handleCreateRoom_def\<close>)
  qed
  have upd: "iso (auth_id r s) s (s1\<lparr>sv_db := fst (exec (\<lambda>d. Some (upd_rooms i f d)) (sv_db s1))\<rparr>)"
    if "own_room r i s = (s1, Inr (h, room))" "\<And>r. r_HostID (f r) = r_HostID r" for s1 h room f
    using own [OF that(1)] iso_room_update [of s1 room i "auth_id r s" f] that(2) by (blast intro: iso_trans)
  show "iso (auth_id r s) s (fst (handleHeartbeat now r i s))"
  proof -
    obtain s1 x where q: "own_room r i s = (s1, x)" by (cases "own_room r i s")
    show ?thesis
    proof (cases x)
      case (Inr y)
      obtain h room where y: "y = (h, room)" by (cases y)
      note o = own [OF q, unfolded Inr y]
      let ?f = "\<lambda>on v (r::Room). r\<lparr>r_Online := on, r_CurrentViewer := v, r_UpdatedAt := now\<rparr>"
      let ?s2 = "\<lambda>on v. s1\<lparr>sv_db := fst (UpdateRoomHeartbeat now i on v (sv_db s1))\<rparr>"
      have 2: "iso (auth_id r s) s (?s2 on v)" for on v
        unfolding UpdateRoomHeartbeat_def by (rule upd) (use q Inr y in simp_all)
      have rm: "\<exists>room'. room' \<in> set (db_rooms (sv_db (?s2 on v))) \<and> r_ID room' = i \<and> r_HostID room' = r_HostID room"
        for on v
      proof -
        have "room \<in> set (db_rooms (sv_db s1))" "r_ID room = i" using o by auto
        then have "room \<in> set (db_rooms (sv_db (?s2 on v))) \<or> ?f on v room \<in> set (db_rooms (sv_db (?s2 on v)))"
          by (auto simp: UpdateRoomHeartbeat_def exec_def upd_rooms_def split: prod.splits bool.splits dest!: stmt_eq)
        with \<open>r_ID room = i\<close> show ?thesis by (elim disjE) (auto intro!: exI)
      qed
      have k2: "keys_ok (sv_db (?s2 on v))" for on v
        using keys_ok_ops [OF statement_ops(3), of "sv_db s1" now i on v] o by simp
      have 3: "iso (auth_id r s) s ((?s2 on v)\<lparr>sv_db := fst (SetRoomKickRequested now i False (sv_db (?s2 on v)))\<rparr>)" for on v
      proof -
        obtain room' where "room' \<in> set (db_rooms (sv_db (?s2 on v)))" "r_ID room' = i" "r_HostID room' = r_HostID room"
          using rm by blast
        then show ?thesis unfolding SetRoomKickRequested_def
          using iso_room_update [OF k2, of room' on v i "auth_id r s"] o 2 [of on v] iso_trans by auto
      qed
      show ?thesis using q Inr y o 2 3
        by (auto simp: handleHeartbeat_def Let_def on_db_eq split: option.splits prod.splits)
    qed (use q own [OF q] in \<open>simp add: handleHeartbeat_def\<close>)
  qed
  show "iso (auth_id r s) s (fst (handleKick now r i s))"
    using own upd
    by (auto simp: handleKick_def on_db_eq SetRoomKickRequested_def split: option.splits prod.splits sum.splits)
  show "iso (auth_id r s) s (fst (handleIssueTokens now r i s))"
  proof -
    obtain s1 x where q: "own_room r i s = (s1, x)" by (cases "own_room r i s")
    show ?thesis
    proof (cases x)
      case (Inr y)
      obtain h room where y: "y = (h, room)" by (cases y)
      note o = own [OF q, unfolded Inr y]
      have "iso (auth_id r s) s (fst (issue_tokens now i (h_ID h) n s1))" for n
        using o iso_issue_tokens [of "h_ID h" s1 now i n] by (auto intro: iso_trans)
      then have "iso (auth_id r s) s s2" if "issue_tokens now i (h_ID h) n s1 = (s2, z)" for n s2 z
        using that by (metis fst_conv)
      with q Inr y o show ?thesis by (auto simp: handleIssueTokens_def split: option.splits prod.splits)
    qed (use q own [OF q] in \<open>simp add: handleIssueTokens_def\<close>)
  qed
  show "iso (auth_id r s) s (fst (handleRevokeToken r code s))"
  proof -
    obtain s1 x where q: "requireHost r s = (s1, x)" by (cases "requireHost r s")
    show ?thesis
    proof (cases x)
      case (Inr h)
      have a: "auth_id r s = Some (h_ID h)" "iso (auth_id r s) s s1" "keys_ok (sv_db s1)" using req [OF q] Inr by auto
      let ?s2 = "s1\<lparr>sv_db := fst (GetTokenByCodeAndHostID code (h_ID h) (sv_db s1))\<rparr>"
      have t: "same_tables s1 ?s2" by (simp add: same_tables_def GetTokenByCodeAndHostID_def query_tables)
      have 2: "iso (auth_id r s) s ?s2" using a(2) iso_same_tables [OF t] by (rule iso_trans)
      have 3: "iso (auth_id r s) s (?s2\<lparr>sv_db := fst (RevokeToken code (sv_db ?s2))\<rparr>)"
        if "snd (GetTokenByCodeAndHostID code (h_ID h) (sv_db s1)) = Inr tk" for tk
      proof -
        have tk: "tk \<in> set (db_tokens (sv_db s1))" "t_Code tk = code" "t_HostID tk = h_ID h"
          using that by (auto simp: GetTokenByCodeAndHostID_def query_row_def find_Some_iff
              split: prod.splits bool.splits option.splits dest!: stmt_eq)
        have "iso (auth_id r s) ?s2 (?s2\<lparr>sv_db := fst (RevokeToken code (sv_db ?s2))\<rparr>)"
          unfolding RevokeToken_def
        proof (rule iso_exec)
          fix d d' assume d: "db_rooms d = db_rooms (sv_db ?s2)" "db_tokens d = db_tokens (sv_db ?s2)"
            "Some (revoke_token code d) = Some d'"
          have "t_HostID y = h_ID h" if "y \<in> set (db_tokens (sv_db s1))" "t_Code y = code" for y
            using distinct_map_eq [of t_Code "db_tokens (sv_db s1)" y tk] a(3) tk that by (auto simp: keys_ok_def)
          then have "filter (\<lambda>x. Some (t_HostID x) \<noteq> auth_id r s) (map (\<lambda>t. if t_Code t = code \<and> \<not> t_Redeemed t
               then t\<lparr>t_Revoked := True\<rparr> else t) (db_tokens (sv_db s1)))
             = filter (\<lambda>x. Some (t_HostID x) \<noteq> auth_id r s) (db_tokens (sv_db s1))"
            using a(1) by (intro filter_map_frame) auto
          with d t show "iso (auth_id r s) ?s2 (?s2\<lparr>sv_db := d'\<rparr>)"
            by (auto simp: iso_def rooms_but_def tokens_but_def revoke_token_def upd_tokens_def same_tables_def)
        qed
        with 2 show ?thesis by (rule iso_trans)
      qed
      show ?thesis using q Inr 2 3
        by (auto simp: handleRevokeToken_def on_db_eq split: option.splits prod.splits sum.splits db_error.splits)
    qed (use q req [OF q] in \<open>simp add: handleRevokeToken_def\<close>)
  qed
qed

lemma on_query: "same_tables s (fst (on_db (query_row f) s))" "same_tables s (fst (on_db (query_all g) s))"
  by (simp_all add: same_tables_def query_tables)

lemma room_depth_same: "same_tables s (fst (room_depth after now i s))"
proof -
  have "fst (room_depth after now i s) = fst (on_db (CountActiveSessionsInRoom after now i) s)"
    by (simp add: room_depth_def split: prod.split sum.split)
  then show ?thesis unfolding CountActiveSessionsInRoom_def by (simp add: on_query)
qed

lemma list_rooms_same: "same_tables s (fst (list_rooms after now rooms s))"
proof (induction rooms arbitrary: s)
  case (Cons room rooms)
  obtain s1 d where 1: "room_depth after now (r_ID room) s = (s1, d)" by (cases "room_depth after now (r_ID room) s")
  have "same_tables s s1" using room_depth_same [of s after now "r_ID room"] 1 by simp
  then show ?case using Cons.IH [of s1] 1 by (auto split: prod.split intro: same_tables_trans)
qed simp

lemma reads_same:
  "same_tables s (fst (handleListRooms after now r s))" "same_tables s (fst (handleGetRoom after now i s))"
  "same_tables s (fst (handleListTokens r i s))"
proof -
  have q: "same_tables s1 (fst (on_db (GetRoom j) s1))" "same_tables s1 (fst (on_db (ListRoomsByHostID h) s1))"
    "same_tables s1 (fst (on_db (ListTokensByRoomID j) s1))" for s1 j h
    unfolding GetRoom_def ListRoomsByHostID_def ListTokensByRoomID_def by (rule on_query)+
  show "same_tables s (fst (handleListRooms after now r s))"
  proof -
    obtain s1 x where r: "requireHost r s = (s1, x)" by (cases "requireHost r s")
    have 1: "same_tables s s1" by (rule requireHost_spec(1) [OF r])
    show ?thesis
    proof (cases x)
      case (Inr h)
      obtain s2 y where d: "on_db (ListRoomsByHostID (h_ID h)) s1 = (s2, y)" by (cases "on_db (ListRoomsByHostID (h_ID h)) s1")
      have 2: "same_tables s s2" using q(2) [of s1 "h_ID h"] d 1 by (auto intro: same_tables_trans)
      show ?thesis
      proof (cases y)
        case (Inr rooms)
        obtain s3 o3 where l: "list_rooms after now rooms s2 = (s3, o3)" by (cases "list_rooms after now rooms s2")
        have "same_tables s s3" using list_rooms_same [of s2 after now rooms] l 2 by (auto intro: same_tables_trans)
        with r \<open>x = Inr h\<close> d Inr l show ?thesis by (simp add: handleListRooms_def)
      qed (use r \<open>x = Inr h\<close> d 2 in \<open>simp add: handleListRooms_def\<close>)
    qed (use r 1 in \<open>simp add: handleListRooms_def\<close>)
  qed
  show "same_tables s (fst (handleGetRoom after now i s))"
  proof -
    obtain s1 x where d: "on_db (GetRoom i) s = (s1, x)" by (cases "on_db (GetRoom i) s")
    have 1: "same_tables s s1" using q(1) [of s i] d by simp
    show ?thesis
    proof (cases x)
      case (Inl e)
      with d 1 show ?thesis by (cases e) (simp_all add: handleGetRoom_def)
    next
      case (Inr room)
      obtain s2 n where l: "room_depth after now i s1 = (s2, n)" by (cases "room_depth after now i s1")
      have "same_tables s s2" using room_depth_same [of s1 after now i] l 1 by (auto intro: same_tables_trans)
      with d Inr l show ?thesis by (simp add: handleGetRoom_def)
    qed
  qed
  show "same_tables s (fst (handleListTokens r i s))"
  proof -
    obtain s1 x where o: "own_room r i s = (s1, x)" by (cases "own_room r i s")
    have 1: "same_tables s s1" by (rule own_room_spec(1) [OF o])
    obtain s2 y where d: "on_db (ListTokensByRoomID i) s1 = (s2, y)" by (cases "on_db (ListTokensByRoomID i) s1")
    have 2: "same_tables s s2" using q(3) [of s1 i] d 1 by (auto intro: same_tables_trans)
    show ?thesis using o d 1 2 by (cases x; cases y) (simp_all add: handleListTokens_def)
  qed
qed

lemmas iso_reads = reads_same [THEN iso_same_tables]

lemma iso_ServeHTTP:
  assumes k: "keys_ok (sv_db s)" and r: "\<forall>code. \<not> is_redeem code r"
  shows "iso (auth_id r s) s (fst (ServeHTTP sign after now r s))"
proof -
  note h = iso_handlers [OF k] iso_reads
  have "iso (auth_id r s) s (fst (mux sign after now r s))"
  proof (cases "rq_Path r")
    case (Cons a p1)
    note 1 = Cons
    show ?thesis
    proof (cases p1)
      case (Cons b p2)
      note 2 = Cons
      show ?thesis
      proof (cases p2)
        case Nil
        with 1 2 show ?thesis by (simp add: mux_def Let_def h handleGetPublicKey_def)
      next
        case (Cons c p3)
        note 3 = Cons
        show ?thesis
        proof (cases p3)
          case Nil
          with 1 2 3 show ?thesis by (simp add: mux_def Let_def h)
        next
          case (Cons d p4)
          have "\<not> (a = ''api'' \<and> b = ''tokens'' \<and> c \<noteq> [] \<and> d = ''redeem'' \<and> rq_Method r = ''POST'' \<and> p4 = [])"
            using r 1 2 3 Cons by (auto simp: is_redeem_def)
          with 1 2 3 Cons show ?thesis by (cases p4) (auto simp: mux_def Let_def h)
        qed
      qed
    qed (use 1 in \<open>simp add: mux_def\<close>)
  qed (simp add: mux_def)
  then show ?thesis by (simp add: ServeHTTP_def)
qed

section \<open>Kick requests and issued codes\<close>

text \<open>The rooms with their pending kick flags.\<close>

definition kicks :: "Server \<Rightarrow> (string \<times> bool) list" where
  "kicks s = map (\<lambda>r. (r_ID r, r_KickRequested r)) (db_rooms (sv_db s))"

definition set_kick :: "string \<Rightarrow> bool \<Rightarrow> (string \<times> bool) list \<Rightarrow> (string \<times> bool) list" where
  "set_kick i b = map (\<lambda>(j, k). (j, if j = i then b else k))"

lemma kicks_same_tables: "same_tables s s' \<Longrightarrow> kicks s' = kicks s"
  by (simp add: kicks_def same_tables_def)

lemma UpdateRoomHeartbeat_kicks:
  "kicks (s\<lparr>sv_db := fst (UpdateRoomHeartbeat now i on v (sv_db s))\<rparr>) = kicks s"
  by (auto simp: kicks_def UpdateRoomHeartbeat_def exec_def upd_rooms_def split: prod.splits bool.splits dest!: stmt_eq)

lemma SetRoomKickRequested_kicks:
  "kicks (s\<lparr>sv_db := fst (SetRoomKickRequested now i b (sv_db s))\<rparr>) =
   (if snd (SetRoomKickRequested now i b (sv_db s)) = None then set_kick i b (kicks s) else kicks s)"
  by (auto simp: kicks_def set_kick_def SetRoomKickRequested_def exec_def upd_rooms_def
      split: prod.splits bool.splits dest!: stmt_eq)

lemma kicks_distinct: "keys_ok (sv_db s) \<Longrightarrow> distinct (map fst (kicks s))"
  by (simp add: keys_ok_def kicks_def comp_def)

lemma set_kick_id:
  assumes "distinct (map fst ks)" and "(i, b) \<in> set ks"
  shows "set_kick i b ks = ks"
  unfolding set_kick_def
proof (rule map_idI)
  fix x assume x: "x \<in> set ks"
  obtain j k where jk: "x = (j, k)" by fastforce
  have "j = i \<Longrightarrow> (i, b) = x" using distinct_map_eq [OF assms(1) assms(2) x] jk by simp
  then show "(case x of (j, k) \<Rightarrow> (j, if j = i then b else k)) = x" using jk by auto
qed

lemma heartbeat_kicks:
  assumes k: "keys_ok (sv_db s)" and h: "handleHeartbeat now r i s = (s', resp)"
  shows "(rs_Status resp = 200 \<and> kicks s' = set_kick i False (kicks s) \<and>
      (\<exists>b. (i, b) \<in> set (kicks s) \<and> rs_Body resp = Some (JObj [(''status'', JStr ''ok''), (''kick_requested'', JBool b)])))
    \<or> (rs_Status resp \<noteq> 200 \<and> kicks s' = kicks s)"
proof -
  obtain s1 x where o: "own_room r i s = (s1, x)" by (cases "own_room r i s")
  have k1: "kicks s1 = kicks s" by (rule kicks_same_tables [OF own_room_spec(1) [OF o]])
  show ?thesis
  proof (cases x)
    case (Inl e)
    with o h k1 own_room_spec(4) [OF o Inl] show ?thesis by (auto simp: handleHeartbeat_def)
  next
    case (Inr y)
    obtain host room where y: "y = (host, room)" by (cases y)
    have rm: "(i, r_KickRequested room) \<in> set (kicks s)"
      using own_room_spec(3) [OF o] Inr y by (force simp: kicks_def)
    have "set_kick i False (kicks s) = kicks s" if "\<not> r_KickRequested room"
      using set_kick_id [OF kicks_distinct [OF k]] rm that by simp
    then show ?thesis using o h Inr y k1 rm UpdateRoomHeartbeat_kicks [of now i _ _ s1]
        SetRoomKickRequested_kicks [of now i False "s1\<lparr>sv_db := fst (UpdateRoomHeartbeat now i on v (sv_db s1))\<rparr>" for on v]
      by (auto simp: handleHeartbeat_def Let_def on_db_eq writeError_def writeJSON_def split: option.splits prod.splits if_splits)
  qed
qed

lemma kick_kicks:
  assumes "handleKick now r i s = (s', resp)"
  shows "(rs_Status resp = 200 \<and> kicks s' = set_kick i True (kicks s)) \<or> (rs_Status resp \<noteq> 200 \<and> kicks s' = kicks s)"
proof -
  obtain s1 x where o: "own_room r i s = (s1, x)" by (cases "own_room r i s")
  have k1: "kicks s1 = kicks s" by (rule kicks_same_tables [OF own_room_spec(1) [OF o]])
  show ?thesis using assms o k1 own_room_spec(4) [OF o] SetRoomKickRequested_kicks [of now i True s1]
    by (cases x) (auto simp: handleKick_def on_db_eq writeError_def writeJSON_def split: option.splits prod.splits)
qed

lemma issue_tokens_fresh:
  "issue_tokens now i h n s = (s', Some codes) \<Longrightarrow>
   length codes = n \<and> distinct codes
   \<and> (\<forall>c \<in> set codes. find_token c (sv_db s) = None \<and>
        find_token c (sv_db s') = Some \<lparr>t_Code = c, t_RoomID = i, t_HostID = h, t_Redeemed = False,
          t_Revoked = False, t_ViewerID = None, t_CreatedAt = now, t_RedeemedAt = None\<rparr>)
   \<and> (\<forall>c. c \<notin> set codes \<longrightarrow> find_token c (sv_db s') = find_token c (sv_db s))"
proof (induction n arbitrary: s codes)
  case (Suc n)
  obtain s1 code where g: "newTokenCode s = (s1, code)" by (cases "newTokenCode s")
  let ?t = "\<lparr>t_Code = code, t_RoomID = i, t_HostID = h, t_Redeemed = False, t_Revoked = False,
               t_ViewerID = None, t_CreatedAt = now, t_RedeemedAt = None\<rparr>"
  obtain s2 where c: "on_db (CreateToken ?t) s1 = (s2, None)"
    using Suc.prems g by (auto simp: Let_def split: prod.splits option.splits)
  obtain codes' where i: "issue_tokens now i h n s2 = (s', Some codes')" and codes: "codes = code # codes'"
    using Suc.prems g c by (auto split: prod.splits)
  obtain d where d: "db_tokens d = db_tokens (sv_db s)" "insert_token ?t d = Some (sv_db s2)"
    using c newTokenCode_db [OF g]
    by (auto simp: on_db_eq CreateToken_def exec_def split: prod.splits bool.splits option.splits dest!: stmt_eq)
  have f: "find_token c (sv_db s2) = (if c = code then Some ?t else find_token c (sv_db s))" for c
    using tok.lookup_ins [OF d(2), of c] find_token_cong [OF d(1), of c] by simp
  have new: "find_token code (sv_db s) = None"
    using tok.ins_fresh [OF d(2)] find_token_cong [OF d(1), of code] by simp
  note IH = Suc.IH [OF i]
  have nin: "code \<notin> set codes'" using IH f [of code] by force
  have "find_token c (sv_db s) = None" if "c \<in> set codes'" for c
    using IH f [of c] that nin by (metis option.distinct(1))
  moreover have "find_token code (sv_db s') = Some ?t" using IH f nin by simp
  ultimately show ?case using IH f new codes nin by simp
qed simp

section \<open>Properties\<close>

text \<open>
  C9. A token code is good for one session. Over any sequence of requests served one at a time,
  with any driver failures, at most one redemption of a given code succeeds.
\<close>

theorem redeemed_at_most_once:
  "length (filter (redeemed_ok code) (zip rs (snd (serve sign after rs s)))) \<le> 1"
proof (induction rs arbitrary: s)
  case (Cons x rs)
  obtain now r where x: "x = (now, r)" by (cases x)
  obtain s1 resp where s1: "ServeHTTP sign after now r s = (s1, resp)" by (cases "ServeHTTP sign after now r s")
  obtain s2 resps where s2: "serve sign after rs s1 = (s2, resps)" by (cases "serve sign after rs s1")
  show ?case
  proof (cases "is_redeem code r \<and> rs_Status resp = 200")
    case True
    then obtain v where "tok.used code v (sv_db s1)"
      using redeem_success [of sign now code s s1 resp] s1 by (auto simp: ServeHTTP_redeem)
    then have "tok.spent code (sv_db s1)" by (rule tok.used_spent)
    from serve_spent [OF this, of rs sign after] show ?thesis using s1 s2 x True by simp
  next
    case False
    then show ?thesis using Cons.IH [of s1] s1 s2 x by auto
  qed
qed simp

text \<open>Two redemptions in flight at once; \<open>True\<close> in the schedule lets the first take a step.\<close>

fun race :: "bool list \<Rightarrow> sign_fun \<Rightarrow> instant \<Rightarrow> redeem_pc \<Rightarrow> redeem_pc \<Rightarrow> Server \<Rightarrow>
    Server \<times> redeem_pc \<times> redeem_pc" where
  "race [] sign now pa pb s = (s, pa, pb)"
| "race (b # bs) sign now pa pb s =
     (if b then (let (s', pa') = redeem_step sign now pa s in race bs sign now pa' pb s')
      else (let (s', pb') = redeem_step sign now pb s in race bs sign now pa pb' s'))"

definition ex_server :: Server where
  "ex_server = \<lparr>sv_db = \<lparr>
       db_hosts = [\<lparr>h_ID = ''h'', h_APIKey = ''key'', h_Name = ''n'', h_CreatedAt = 0\<rparr>],
       db_rooms = [\<lparr>r_ID = ''r'', r_HostID = ''h'', r_Name = ''room'', r_SessionSeconds = 60, r_Online = False,
         r_CurrentViewer = None, r_KickRequested = False, r_CreatedAt = 0, r_UpdatedAt = 0\<rparr>],
       db_tokens = [\<lparr>t_Code = ''c'', t_RoomID = ''r'', t_HostID = ''h'', t_Redeemed = False, t_Revoked = False,
         t_ViewerID = None, t_CreatedAt = 0, t_RedeemedAt = None\<rparr>],
       db_sessions = [], db_fail = []\<rparr>,
     sv_keys = \<lparr>kp_Private = ''k'', kp_Public = replicate 32 (CHR ''k'')\<rparr>, sv_queue = queue_New,
     sv_rand = map word_of_nat [0..<64]\<rparr>"

text \<open>The status of a finished redemption and the viewer it was granted to.\<close>

fun granted :: "redeem_pc \<Rightarrow> (nat \<times> json option) option" where
  "granted (RDone resp) = Some (rs_Status resp,
     (case rs_Body resp of Some (JObj ms) \<Rightarrow> map_of ms ''viewer_id'' | _ \<Rightarrow> None))"
| "granted _ = None"

lemma race_run:
  "case race [True, False, True, False, True, False, True, False, True, False] sign 0
      (RLookup ''c'') (RLookup ''c'') ex_server of
     (s, pa, pb) \<Rightarrow>
       map_option fst (granted pa) = Some 200 \<and> map_option fst (granted pb) = Some 200
       \<and> map_option snd (granted pa) \<noteq> map_option snd (granted pb)
       \<and> length (filter (\<lambda>x. s_TokenCode x = ''c'') (db_sessions (sv_db s))) = 2"
  by code_simp

text \<open>
  C15. Two redemptions of one code that run at the same time can both succeed: each looks the code
  up before the other has marked it, the marking update that changes no row is not noticed, and
  both answer 200 with a session for a different viewer. Whatever the signing function.
\<close>

theorem double_redemption_race:
  "\<exists>sched s s' ra rb. race sched sign 0 (RLookup ''c'') (RLookup ''c'') s = (s', RDone ra, RDone rb)
     \<and> length (filter (\<lambda>t. t_Code t = ''c'') (db_tokens (sv_db s))) = 1
     \<and> rs_Status ra = 200 \<and> rs_Status rb = 200 \<and> granted (RDone ra) \<noteq> granted (RDone rb)
     \<and> length (filter (\<lambda>x. s_TokenCode x = ''c'') (db_sessions (sv_db s'))) = 2"
proof -
  let ?sched = "[True, False, True, False, True, False, True, False, True, False]"
  obtain s' pa pb where r: "race ?sched sign 0 (RLookup ''c'') (RLookup ''c'') ex_server = (s', pa, pb)"
    by (cases "race ?sched sign 0 (RLookup ''c'') (RLookup ''c'') ex_server") auto
  note run = race_run [of sign, unfolded r prod.case]
  obtain ra where a: "pa = RDone ra" using run by (cases pa) auto
  obtain rb where b: "pb = RDone rb" using run by (cases pb) auto
  have "length (filter (\<lambda>t. t_Code t = ''c'') (db_tokens (sv_db ex_server))) = 1" by code_simp
  with r run a b show ?thesis
    by (intro exI [of _ ?sched] exI [of _ ex_server] exI [of _ s'] exI [of _ ra] exI [of _ rb]) auto
qed

text \<open>
  C12. Hosts are kept apart. A request other than a redemption, authenticated as some host or as
  none, leaves every room and every token of all other hosts exactly as they were; without a
  registered key that is every room and token. A redemption needs no key: whoever knows a code can use
  it up. It changes no room and no host, and of the tokens of all hosts at most the one with this code,
  which it marks as redeemed if it was neither redeemed nor revoked. The table keys are unique in every
  state the server gets into, which is the hypothesis, and stay so.
\<close>

theorem host_isolation:
  assumes "keys_ok (sv_db s)" and "s' = fst (ServeHTTP sign after now r s)"
  shows "((\<forall>code. \<not> is_redeem code r) \<longrightarrow>
        rooms_but (auth_id r s) s' = rooms_but (auth_id r s) s \<and> tokens_but (auth_id r s) s' = tokens_but (auth_id r s) s)
    \<and> (\<forall>code. is_redeem code r \<longrightarrow>
        db_hosts (sv_db s') = db_hosts (sv_db s) \<and> db_rooms (sv_db s') = db_rooms (sv_db s)
        \<and> (db_tokens (sv_db s') = db_tokens (sv_db s)
           \<or> (\<exists>viewer. db_tokens (sv_db s') = db_tokens (redeem_token now code viewer (sv_db s)))))
    \<and> keys_ok (sv_db s')"
  using iso_ServeHTTP [OF assms(1)] keys_ok_ops [OF ServeHTTP_ops assms(1)] handleRedeemToken_marks [unfolded marked_def]
  by (auto simp: iso_def assms(2) ServeHTTP_redeem)

theorem host_isolation_witness:
  "rooms_but (Some ''other'') (fst (ServeHTTP (\<lambda>_ _. []) (\<lambda>_ _. True) 5
     \<lparr>rq_Method = ''POST'', rq_Path = [''api'', ''rooms'', ''r'', ''kick''], rq_Authorization = ''Bearer nokey'', rq_Body = []\<rparr>
     ex_server)) = db_rooms (sv_db ex_server)"
proof -
  let ?r = "\<lparr>rq_Method = ''POST'', rq_Path = [''api'', ''rooms'', ''r'', ''kick''],
    rq_Authorization = ''Bearer nokey'', rq_Body = []\<rparr>"
  have k: "keys_ok (sv_db ex_server)" by code_simp
  have n: "\<forall>code. \<not> is_redeem code ?r" by (simp add: is_redeem_def)
  have a: "auth_id ?r ex_server = None" by code_simp
  have "db_rooms (sv_db (fst (ServeHTTP (\<lambda>_ _. []) (\<lambda>_ _. True) 5 ?r ex_server))) = db_rooms (sv_db ex_server)"
    using host_isolation [OF k refl, of ?r "\<lambda>_ _. []" "\<lambda>_ _. True" 5] n a by (simp add: rooms_but_def)
  moreover have "rooms_but (Some ''other'') ex_server = db_rooms (sv_db ex_server)" by code_simp
  ultimately show ?thesis by (simp add: rooms_but_def)
qed

text \<open>
  A kick is delivered once and is not lost. A kick request that answers 200 leaves the room's
  flag set and no other flag changed. A heartbeat that answers 200 reports the flag as it was and
  clears it, so the next one reports none; a heartbeat that fails, at whatever point, leaves the
  flag pending.
\<close>

theorem kick_consumed_once:
  assumes "keys_ok (sv_db s)" and "handleKick now r i s = (s1, resp1)" and "rs_Status resp1 = 200"
    and "handleHeartbeat now2 r2 i s1 = (s2, resp2)"
  shows "if rs_Status resp2 = 200
    then rs_Body resp2 = Some (JObj [(''status'', JStr ''ok''), (''kick_requested'', JBool True)])
      \<and> (\<forall>s3 resp3. handleHeartbeat now3 r3 i s2 = (s3, resp3) \<longrightarrow> rs_Status resp3 = 200 \<longrightarrow>
           rs_Body resp3 = Some (JObj [(''status'', JStr ''ok''), (''kick_requested'', JBool False)]))
    else kicks s2 = kicks s1"
proof -
  have k1: "keys_ok (sv_db s1)" using keys_ok_ops [OF handler_ops(6) assms(1), of now r i] assms(2) by simp
  have k2: "keys_ok (sv_db s2)" using keys_ok_ops [OF handler_ops(5) k1, of now2 r2 i] assms(4) by simp
  have on: "kicks s1 = set_kick i True (kicks s)" using kick_kicks [OF assms(2)] assms(3) by auto
  then have t: "b = True" if "(i, b) \<in> set (kicks s1)" for b using that by (auto simp: set_kick_def)
  have off: "b = False" if "(i, b) \<in> set (kicks s2)" "kicks s2 = set_kick i False (kicks s1)" for b
    using that by (auto simp: set_kick_def)
  show ?thesis using heartbeat_kicks [OF k1 assms(4)] heartbeat_kicks [OF k2] t off by fastforce
qed

definition ex_post :: "string list \<Rightarrow> string \<Rightarrow> Request" where
  "ex_post p b = \<lparr>rq_Method = ''POST'', rq_Path = p, rq_Authorization = ''Bearer key'', rq_Body = b\<rparr>"

theorem kick_consumed_once_witness:
  "rs_Body (snd (handleHeartbeat 2 (ex_post [] ''{}'') ''r'' (fst (handleKick 1 (ex_post [] []) ''r'' ex_server)))) =
   Some (JObj [(''status'', JStr ''ok''), (''kick_requested'', JBool True)])"
proof -
  let ?k = "handleKick 1 (ex_post [] []) ''r'' ex_server"
  let ?h = "handleHeartbeat 2 (ex_post [] ''{}'') ''r'' (fst ?k)"
  have k: "keys_ok (sv_db ex_server)" by code_simp
  have s1: "rs_Status (snd ?k) = 200" by code_simp
  have s2: "rs_Status (snd ?h) = 200" by code_simp
  have e1: "?k = (fst ?k, snd ?k)" and e2: "?h = (fst ?h, snd ?h)" by simp_all
  show ?thesis using kick_consumed_once [OF k e1 s1 e2] s2 by simp
qed

text \<open>
  Issued codes. A successful issue request returns between one and a hundred codes, all
  different and none of them known before; each is now a fresh token of that room, owned by the
  authenticated host, and no other token changed.
\<close>

theorem issued_codes_fresh:
  assumes "handleIssueTokens now r i s = (s', resp)" and "rs_Status resp = 201"
  shows "\<exists>codes h. rs_Body resp = Some (JObj [(''codes'', JArr (map JStr codes))])
    \<and> 1 \<le> length codes \<and> length codes \<le> 100 \<and> distinct codes
    \<and> h \<in> set (db_hosts (sv_db s)) \<and> h_APIKey h = bearerToken r
    \<and> (\<forall>c \<in> set codes. find_token c (sv_db s) = None \<and>
        find_token c (sv_db s') = Some \<lparr>t_Code = c, t_RoomID = i, t_HostID = h_ID h, t_Redeemed = False,
          t_Revoked = False, t_ViewerID = None, t_CreatedAt = now, t_RedeemedAt = None\<rparr>)
    \<and> (\<forall>c. c \<notin> set codes \<longrightarrow> find_token c (sv_db s') = find_token c (sv_db s))"
proof -
  obtain s1 x where o: "own_room r i s = (s1, x)" by (cases "own_room r i s")
  obtain h room where x: "x = Inr (h, room)"
    using assms o own_room_spec(4) [OF o] by (cases x) (auto simp: handleIssueTokens_def)
  have h: "h \<in> set (db_hosts (sv_db s))" "h_APIKey h = bearerToken r" using own_room_spec(3) [OF o x] by auto
  obtain n codes where n: "0 < n" "n \<le> 100" "issue_tokens now i (h_ID h) (nat n) s1 = (s', Some codes)"
    and b: "rs_Body resp = Some (JObj [(''codes'', JArr (map JStr codes))])"
    using assms o x
    by (auto simp: handleIssueTokens_def writeError_def writeJSON_def split: option.splits prod.splits if_splits)
      (use not_le in blast)
  have "find_token c (sv_db s1) = find_token c (sv_db s)" for c
    using own_room_spec(1) [OF o] by (intro find_token_cong) (simp add: same_tables_def)
  with issue_tokens_fresh [OF n(3)] n(1,2) b h show ?thesis
    by (intro exI [of _ codes] exI [of _ h]) auto
qed

definition ex_count3 :: string where
  "ex_count3 = [CHR ''{'', CHR 0x22, CHR ''c'', CHR ''o'', CHR ''u'', CHR ''n'', CHR ''t'', CHR 0x22, CHR '':'', CHR ''3'', CHR ''}'']"

theorem issued_codes_fresh_witness:
  "\<exists>codes (h :: Host). rs_Body (snd (handleIssueTokens 1 (ex_post [] ex_count3) ''r'' ex_server)) =
      Some (JObj [(''codes'', JArr (map JStr codes))]) \<and> distinct codes \<and> h_APIKey h = ''key''"
proof -
  let ?h = "handleIssueTokens 1 (ex_post [] ex_count3) ''r'' ex_server"
  have s: "rs_Status (snd ?h) = 201" by code_simp
  have e: "?h = (fst ?h, snd ?h)" by simp
  have k: "bearerToken (ex_post [] ex_count3) = ''key''" by code_simp
  obtain codes and h :: Host where "rs_Body (snd ?h) = Some (JObj [(''codes'', JArr (map JStr codes))])"
    "distinct codes" "h_APIKey h = bearerToken (ex_post [] ex_count3)"
    using issued_codes_fresh [OF e s] by (elim exE conjE) (rule that)
  with k show ?thesis by (intro exI [of _ codes] exI [of _ h]) simp
qed

end
