(* ===== verification/Floats.thy ===== *)
theory Floats
  imports Complex_Main "HOL-Library.Log_Nat"
begin

text \<open>
  Go's \<^verbatim>\<open>float32\<close> and \<^verbatim>\<open>float64\<close> values as the rational numbers they denote. An arithmetic
  operation is the exact one followed by rounding to the nearest value with 24 or 53 significant
  bits, ties to even. The values of the sources stay far inside the exponent range, so overflow,
  subnormal numbers, infinities and NaN are not modelled.
\<close>

text \<open>\<open>exponent x\<close> is the \<open>k\<close> with \<open>2\<^sup>k \<le> \<bar>x\<bar> < 2\<^sup>k\<^sup>+\<^sup>1\<close>, for \<open>x \<noteq> 0\<close>.\<close>

definition exponent :: "rat \<Rightarrow> int" where
  "exponent x =
     (let (n, d) = quotient_of \<bar>x\<bar>; k = bitlen n - bitlen d
      in if 2 powi k \<le> \<bar>x\<bar> then k else k - 1)"

text \<open>Round to the nearest integer, ties to even.\<close>

definition round_even :: "rat \<Rightarrow> int" where
  "round_even x =
     (let f = \<lfloor>x\<rfloor>; r = x - of_int f
      in if r < 1 / 2 \<or> r = 1 / 2 \<and> even f then f else f + 1)"

definition fl :: "nat \<Rightarrow> rat \<Rightarrow> rat" where
  "fl p x =
     (if x = 0 then 0
      else (let e = exponent x - (int p - 1) in of_int (round_even (x / 2 powi e)) * 2 powi e))"

definition f32 :: "rat \<Rightarrow> rat" where "f32 = fl 24"
definition f64 :: "rat \<Rightarrow> rat" where "f64 = fl 53"

text \<open>Conversion to an integer truncates towards zero.\<close>

definition trunc :: "rat \<Rightarrow> int" where
  "trunc x = (if 0 \<le> x then \<lfloor>x\<rfloor> else \<lceil>x\<rceil>)"

section \<open>Accuracy\<close>

lemma bitlen_powi:
  assumes "0 < (n :: int)"
  shows "2 powi (bitlen n - 1) \<le> (rat_of_int n)" "rat_of_int n < 2 powi (bitlen n)"
proof -
  have b: "2 ^ nat (bitlen n - 1) \<le> n" "n < 2 ^ nat (bitlen n)" using Log_Nat.bitlen_bounds [OF assms] by simp_all
  have pos: "1 \<le> bitlen n" using assms by (simp add: bitlen_ge_iff_power)
  have "rat_of_int (2 ^ nat (bitlen n - 1)) \<le> of_int n" using b(1) by (simp only: of_int_le_iff)
  then show "2 powi (bitlen n - 1) \<le> (rat_of_int n)" using pos by (simp add: power_int_def)
  have "rat_of_int n < of_int (2 ^ nat (bitlen n))" using b(2) by (simp only: of_int_less_iff)
  then show "rat_of_int n < 2 powi (bitlen n)" using pos by (simp add: power_int_def)
qed

lemma exponent_bounds:
  assumes "x \<noteq> 0"
  shows "2 powi exponent x \<le> \<bar>x\<bar>" "\<bar>x\<bar> < 2 powi (exponent x + 1)"
proof -
  obtain n d where q: "quotient_of \<bar>x\<bar> = (n, d)" by (cases "quotient_of \<bar>x\<bar>")
  have d: "0 < d" using quotient_of_denom_pos [OF q] .
  have x: "\<bar>x\<bar> = of_int n / of_int d" using quotient_of_div [OF q] .
  have "0 < \<bar>x\<bar>" using assms by simp
  with x d have n: "0 < n" by (simp add: zero_less_divide_iff)
  let ?k = "bitlen n - bitlen d"
  have "\<bar>x\<bar> < 2 powi (bitlen n) / 2 powi (bitlen d - 1)"
    unfolding x using bitlen_powi [OF n] bitlen_powi [OF d] d n by (intro frac_less) simp_all
  then have up: "\<bar>x\<bar> < 2 powi (?k + 1)" by (simp add: power_int_diff power_int_add field_simps)
  have "2 powi (bitlen n - 1) / 2 powi (bitlen d) \<le> \<bar>x\<bar>"
    unfolding x using bitlen_powi [OF n] bitlen_powi [OF d] d n by (intro frac_le) simp_all
  moreover have "2 powi (?k - 1) = (2 powi (bitlen n - 1) / 2 powi (bitlen d) :: rat)"
    using power_int_diff [of "2 :: rat" "bitlen n - 1" "bitlen d"] by (simp add: algebra_simps)
  ultimately have lo: "2 powi (?k - 1) \<le> \<bar>x\<bar>" by simp
  show "2 powi exponent x \<le> \<bar>x\<bar>" "\<bar>x\<bar> < 2 powi (exponent x + 1)"
    using up lo by (auto simp: exponent_def q Let_def)
qed

lemma round_even_error: "\<bar>of_int (round_even x) - x\<bar> \<le> 1 / 2"
proof -
  have "of_int \<lfloor>x\<rfloor> \<le> x" "x < of_int \<lfloor>x\<rfloor> + 1" by linarith+
  then show ?thesis by (simp add: round_even_def Let_def abs_if) linarith
qed

lemma round_even_int [simp]: "round_even (of_int k) = k"
  by (simp add: round_even_def)

theorem fl_error: "\<bar>fl p x - x\<bar> \<le> \<bar>x\<bar> / 2 ^ p"
proof (cases "x = 0")
  case False
  define e where "e = exponent x - (int p - 1)"
  have pos: "(0 :: rat) < 2 powi e" by simp
  have "fl p x = of_int (round_even (x / 2 powi e)) * 2 powi e"
    using False unfolding fl_def Let_def e_def by simp
  then have "fl p x - x = (of_int (round_even (x / 2 powi e)) - x / 2 powi e) * 2 powi e"
    using pos by (simp add: left_diff_distrib)
  then have "\<bar>fl p x - x\<bar> = \<bar>of_int (round_even (x / 2 powi e)) - x / 2 powi e\<bar> * 2 powi e"
    using pos by (simp add: abs_mult)
  also have "\<dots> \<le> 1 / 2 * 2 powi e"
    using round_even_error [of "x / 2 powi e"] pos by (intro mult_right_mono) simp_all
  also have "1 / 2 * 2 powi e = (2 powi exponent x / 2 ^ p :: rat)"
  proof -
    have "2 powi e = (2 powi (exponent x + 1) / 2 powi int p :: rat)"
      using power_int_diff [of "2 :: rat" "exponent x + 1" "int p"] by (simp add: e_def algebra_simps)
    then show ?thesis by (simp add: power_int_add)
  qed
  also have "\<dots> \<le> \<bar>x\<bar> / 2 ^ p" using exponent_bounds(1) [OF False] by (simp add: divide_right_mono)
  finally show ?thesis .
qed (simp add: fl_def)

lemma fl_zero [simp]: "fl p 0 = 0"
  by (simp add: fl_def)

lemma fl_between:
  assumes "l \<le> x" "x \<le> u"
  shows "l - \<bar>x\<bar> / 2 ^ p \<le> fl p x" "fl p x \<le> u + \<bar>x\<bar> / 2 ^ p"
  using fl_error [of p x] assms by (simp_all add: abs_le_iff)

text \<open>Integers with few enough bits are represented exactly.\<close>

lemma fl_int:
  assumes "\<bar>k\<bar> < 2 ^ p"
  shows "fl p (of_int k) = of_int k"
proof (cases "k = 0")
  case False
  define e where "e = exponent (of_int k) - (int p - 1)"
  have "2 powi exponent (of_int k) \<le> \<bar>rat_of_int k\<bar>" using exponent_bounds(1) [of "of_int k"] False by simp
  also have "\<dots> < 2 ^ p" using assms by (metis of_int_abs of_int_less_iff of_int_numeral of_int_power)
  also have "\<dots> = 2 powi int p" by simp
  finally have "exponent (of_int k) < int p"
    by (metis linorder_not_less one_le_numeral power_int_increasing)
  then have e: "e \<le> 0" by (simp add: e_def)
  then obtain m where m: "e = - int m" using nonpos_int_cases by blast
  have "of_int k / 2 powi e = rat_of_int (k * 2 ^ m)" by (simp add: m power_int_minus divide_inverse)
  then have "round_even (of_int k / 2 powi e) = k * 2 ^ m" by (metis round_even_int)
  then have "of_int (round_even (of_int k / 2 powi e)) * 2 powi e = (of_int k :: rat)"
    by (simp add: m power_int_minus)
  with False show ?thesis unfolding fl_def Let_def e_def by simp
qed simp

lemma trunc_unique:
  "0 \<le> x \<Longrightarrow> of_int n \<le> x \<Longrightarrow> x < of_int n + 1 \<Longrightarrow> trunc x = n"
  "x < 0 \<Longrightarrow> of_int n - 1 < x \<Longrightarrow> x \<le> of_int n \<Longrightarrow> trunc x = n"
  by (simp_all add: trunc_def floor_unique ceiling_unique)

lemma f64_bounds: "0 \<le> x \<Longrightarrow> x * (1 - 1 / 2 ^ 53) \<le> f64 x \<and> f64 x \<le> x * (1 + 1 / 2 ^ 53)"
  using fl_error [of 53 x] by (simp add: f64_def abs_if algebra_simps split: if_splits)

lemma f64_nonneg: "0 \<le> x \<Longrightarrow> 0 \<le> f64 x"
proof -
  assume x: "0 \<le> x"
  then have "0 \<le> x * (1 - 1 / 2 ^ 53)" by simp
  then show ?thesis using f64_bounds [OF x] by linarith
qed

end
