(* ===== verification/InputCodec.thy ===== *)
theory InputCodec
  imports Core Floats
begin

unbundle bit_operations_syntax

text \<open>
  The binary frame of the \<^verbatim>\<open>input\<close> data channel
  (\<^verbatim>\<open>playgate-host/internal/rtc/input_codec.go\<close>): seventeen little-endian bytes with a version,
  the buttons, four fixed-point axes and the sender's sequence number.
\<close>

definition InputWireVersion :: byte where "InputWireVersion = 2"
definition InputWireSize :: nat where "InputWireSize = 17"
definition AxisScale :: int where "AxisScale = 32767"

text \<open>\<^verbatim>\<open>binary.LittleEndian\<close>\<close>

definition put_uint16 :: "16 word \<Rightarrow> byte list" where
  "put_uint16 w = [ucast w, ucast (drop_bit 8 w)]"

definition put_uint32 :: "32 word \<Rightarrow> byte list" where
  "put_uint32 w = [ucast w, ucast (drop_bit 8 w), ucast (drop_bit 16 w), ucast (drop_bit 24 w)]"

definition get_uint16 :: "byte list \<Rightarrow> 16 word" where
  "get_uint16 b = (ucast (b ! 0) OR push_bit 8 (ucast (b ! 1)))"

definition get_uint32 :: "byte list \<Rightarrow> 32 word" where
  "get_uint32 b = (ucast (b ! 0) OR push_bit 8 (ucast (b ! 1)) OR push_bit 16 (ucast (b ! 2))
     OR push_bit 24 (ucast (b ! 3)))"

text \<open>
  \<^verbatim>\<open>axisToInt16\<close>: the scaled value is exact in \<^verbatim>\<open>float64\<close> when \<open>v\<close> is a \<^verbatim>\<open>float32\<close>; rounding is
  written out all the same.
\<close>

definition axisToInt16 :: "rat \<Rightarrow> 16 word" where
  "axisToInt16 v =
     (let scaled0 = f64 (v * of_int AxisScale);
          scaled = (if scaled0 > of_int AxisScale then of_int AxisScale
                    else if scaled0 < - of_int AxisScale then - of_int AxisScale else scaled0)
      in if scaled \<ge> 0 then word_of_int (trunc (f64 (scaled + 1 / 2)))
         else word_of_int (trunc (f64 (scaled - 1 / 2))))"

definition int16ToAxis :: "16 word \<Rightarrow> rat" where
  "int16ToAxis v = (if sint v \<le> - AxisScale then -1 else f32 (of_int (sint v) / of_int AxisScale))"

definition EncodeInputCommand :: "InputCommand \<Rightarrow> byte list" where
  "EncodeInputCommand cmd =
     [InputWireVersion] @ put_uint32 (ic_Buttons cmd)
       @ put_uint16 (axisToInt16 (ic_LX cmd)) @ put_uint16 (axisToInt16 (ic_LY cmd))
       @ put_uint16 (axisToInt16 (ic_RX cmd)) @ put_uint16 (axisToInt16 (ic_RY cmd))
       @ put_uint32 (ic_Seq cmd)"

datatype codec_error = BadFrameSize nat | BadWireVersion byte

definition DecodeInputCommand :: "byte list \<Rightarrow> instant \<Rightarrow> codec_error + InputCommand" where
  "DecodeInputCommand buf now =
     (if length buf \<noteq> InputWireSize then Inl (BadFrameSize (length buf))
      else if buf ! 0 \<noteq> InputWireVersion then Inl (BadWireVersion (buf ! 0))
      else Inr \<lparr>ic_Seq = get_uint32 (drop 13 buf), ic_Buttons = get_uint32 (drop 1 buf),
                ic_LX = int16ToAxis (get_uint16 (drop 5 buf)), ic_LY = int16ToAxis (get_uint16 (drop 7 buf)),
                ic_RX = int16ToAxis (get_uint16 (drop 9 buf)), ic_RY = int16ToAxis (get_uint16 (drop 11 buf)),
                ic_Timestamp = Some now\<rparr>)"

section \<open>Little-endian words\<close>

lemma get_put_uint16 [simp]: "get_uint16 (put_uint16 w @ r) = w"
  by (rule bit_word_eqI) (auto simp: get_uint16_def put_uint16_def bit_simps)

lemma get_put_uint32 [simp]: "get_uint32 (put_uint32 w @ r) = w"
proof (rule bit_word_eqI)
  fix n assume "n < LENGTH(32)"
  then consider "n < 8" | "8 \<le> n" "n < 16" | "16 \<le> n" "n < 24" | "24 \<le> n" "n < 32" by fastforce
  then show "bit (get_uint32 (put_uint32 w @ r)) n = bit w n"
    by cases (auto simp: get_uint32_def put_uint32_def bit_simps)
qed

lemma byte_high_bits [simp]:
  "\<not> bit (a :: byte) (8 + n)" "\<not> bit (a :: byte) (16 + n)" "\<not> bit (a :: byte) (24 + n)"
  using bit_imp_le_length [of a] by fastforce+

lemma put_get_uint16: "put_uint16 (get_uint16 (a # b # r)) = [a, b]"
  by (auto simp: get_uint16_def put_uint16_def bit_simps intro!: bit_word_eqI)

lemma put_get_uint32: "put_uint32 (get_uint32 (a # b # c # d # r)) = [a, b, c, d]"
  by (auto simp: get_uint32_def put_uint32_def bit_simps intro!: bit_word_eqI)

lemma length_put [simp]: "length (put_uint16 v) = 2" "length (put_uint32 w) = 4"
  by (simp_all add: put_uint16_def put_uint32_def)

section \<open>Axes\<close>

lemma sint16_range: "- 32768 \<le> sint (w :: 16 word)" "sint (w :: 16 word) \<le> 32767"
  using sint_ge [of w] sint_lt [of w] by simp_all

text \<open>
  Rounding of a value within a sixteenth of an integer: half is added and the fraction cut.
\<close>

lemma round_near:
  fixes x :: rat
  assumes near: "\<bar>x - of_int n\<bar> \<le> 1 / 16" and n: "\<bar>n\<bar> \<le> 32767"
  shows "0 \<le> x \<Longrightarrow> trunc (f64 (x + 1 / 2)) = n" "x < 0 \<Longrightarrow> trunc (f64 (x - 1 / 2)) = n"
proof -
  have nn: "\<bar>rat_of_int n\<bar> \<le> 32767" using n by linarith
  have small: "\<bar>y\<bar> / 2 ^ 53 \<le> 1 / 16" if "\<bar>y\<bar> \<le> 40000" for y :: rat
  proof -
    have "\<bar>y\<bar> / 2 ^ 53 \<le> 40000 / 2 ^ 53" using that by (simp add: divide_right_mono)
    then show ?thesis by simp
  qed
  show "trunc (f64 (x + 1 / 2)) = n" if x: "0 \<le> x"
  proof -
    have "\<bar>x + 1 / 2\<bar> \<le> 40000" using near nn x by linarith
    then have e: "\<bar>f64 (x + 1 / 2) - (x + 1 / 2)\<bar> \<le> 1 / 16"
      using fl_error [of 53 "x + 1 / 2"] small [of "x + 1 / 2"] unfolding f64_def by linarith
    show ?thesis by (rule trunc_unique(1)) (use e near x in linarith)+
  qed
  show "trunc (f64 (x - 1 / 2)) = n" if x: "x < 0"
  proof -
    have "\<bar>x - 1 / 2\<bar> \<le> 40000" using near nn x by linarith
    then have e: "\<bar>f64 (x - 1 / 2) - (x - 1 / 2)\<bar> \<le> 1 / 16"
      using fl_error [of 53 "x - 1 / 2"] small [of "x - 1 / 2"] unfolding f64_def by linarith
    show ?thesis by (rule trunc_unique(2)) (use e near x in linarith)+
  qed
qed

lemma axis_near:
  assumes n: "\<bar>n\<bar> \<le> 32767"
  shows "\<bar>f64 (f32 (of_int n / 32767) * 32767) - of_int n\<bar> \<le> 1 / 128"
proof -
  have nn: "\<bar>rat_of_int n\<bar> \<le> 32767" using n by linarith
  let ?q = "f32 (of_int n / 32767)"
  have "\<bar>?q - of_int n / 32767\<bar> \<le> \<bar>of_int n / 32767\<bar> / 2 ^ 24"
    using fl_error [of 24 "of_int n / 32767"] by (simp add: f32_def)
  also have "\<dots> \<le> 1 / 2 ^ 24" using nn by (intro divide_right_mono) (simp_all add: abs_mult)
  finally have q: "\<bar>?q - of_int n / 32767\<bar> \<le> 1 / 2 ^ 24" .
  have "\<bar>?q * 32767 - of_int n\<bar> = \<bar>?q - of_int n / 32767\<bar> * 32767"
  proof -
    have "?q * 32767 - of_int n = (?q - of_int n / 32767) * 32767" by (simp add: left_diff_distrib)
    then show ?thesis by (simp only: abs_mult abs_numeral)
  qed
  also have "\<dots> \<le> 1 / 2 ^ 24 * 32767" using q by (intro mult_right_mono) simp_all
  finally have a: "\<bar>?q * 32767 - of_int n\<bar> \<le> 1 / 512" by simp
  then have "\<bar>?q * 32767\<bar> \<le> 40000" using nn by linarith
  then have "\<bar>?q * 32767\<bar> / 2 ^ 53 \<le> 40000 / 2 ^ 53" by (simp add: divide_right_mono)
  then have "\<bar>f64 (?q * 32767) - ?q * 32767\<bar> \<le> 1 / 512"
    using fl_error [of 53 "?q * 32767"] unfolding f64_def by simp
  with a show ?thesis by linarith
qed

lemma axisToInt16_near:
  assumes n: "\<bar>n\<bar> \<le> 32767" and near: "\<bar>f64 (v * 32767) - of_int n\<bar> \<le> 1 / 128"
  shows "axisToInt16 v = word_of_int n"
proof -
  have nn: "\<bar>rat_of_int n\<bar> \<le> 32767" using n by linarith
  define x where "x = (if f64 (v * 32767) > 32767 then 32767
    else if f64 (v * 32767) < - 32767 then - 32767 else f64 (v * 32767))"
  have x: "\<bar>x - of_int n\<bar> \<le> 1 / 16" using near nn by (auto simp: x_def)
  have "axisToInt16 v = (if x \<ge> 0 then word_of_int (trunc (f64 (x + 1 / 2)))
      else word_of_int (trunc (f64 (x - 1 / 2))))"
    by (simp add: axisToInt16_def AxisScale_def x_def)
  then show ?thesis using round_near [OF x n] by auto
qed

lemma axisToInt16_minus_one: "axisToInt16 (-1) = word_of_int (- 32767)"
proof -
  have "f64 (-1 * 32767) = of_int (- 32767)" unfolding f64_def using fl_int [of "- 32767" 53] by simp
  then show ?thesis by (intro axisToInt16_near) simp_all
qed

theorem axis_roundtrip: "sint w \<noteq> - 32768 \<Longrightarrow> axisToInt16 (int16ToAxis w) = w"
proof (cases "sint w \<le> - 32767")
  case True
  assume "sint w \<noteq> - 32768"
  with True sint16_range [of w] have "sint w = - 32767" by linarith
  moreover have "word_of_int (sint w) = w" by simp
  ultimately have "w = word_of_int (- 32767)" by metis
  then show ?thesis using axisToInt16_minus_one \<open>sint w = - 32767\<close>
    by (simp add: int16ToAxis_def AxisScale_def)
next
  case False
  have n: "\<bar>sint w\<bar> \<le> 32767" using False sint16_range [of w] by linarith
  have "axisToInt16 (f32 (of_int (sint w) / 32767)) = word_of_int (sint w)"
    by (rule axisToInt16_near [OF n axis_near [OF n]])
  with False show ?thesis by (simp add: int16ToAxis_def AxisScale_def)
qed

text \<open>What a quantised axis is at most away from the original.\<close>

lemma axis_quantised:
  assumes "\<bar>v\<bar> \<le> 1"
  shows "\<bar>int16ToAxis (axisToInt16 v) - v\<bar> \<le> 1 / 32767"
proof -
  define x where "x = f64 (v * 32767)"
  have vb: "\<bar>v * 32767\<bar> \<le> 32767" using assms by (simp add: abs_mult)
  have xe: "\<bar>x - v * 32767\<bar> \<le> 1 / 2 ^ 37"
  proof -
    have "\<bar>x - v * 32767\<bar> \<le> \<bar>v * 32767\<bar> / 2 ^ 53" using fl_error [of 53 "v * 32767"] by (simp add: x_def f64_def)
    also have "\<dots> \<le> 32767 / 2 ^ 53" using vb by (intro divide_right_mono) simp_all
    also have "\<dots> \<le> 1 / 2 ^ 37" by simp
    finally show ?thesis .
  qed
  define c where "c = (if x > 32767 then 32767 else if x < - 32767 then - 32767 else x)"
  have ce: "\<bar>c - v * 32767\<bar> \<le> 1 / 2 ^ 37" "\<bar>c\<bar> \<le> 32767" using xe vb by (auto simp: c_def abs_if split: if_splits)
  define m where "m = (if c \<ge> 0 then trunc (f64 (c + 1 / 2)) else trunc (f64 (c - 1 / 2)))"
  have small: "\<bar>y\<bar> / 2 ^ 53 \<le> 1 / 2 ^ 37" if "\<bar>y\<bar> \<le> 40000" for y :: rat
  proof -
    have "\<bar>y\<bar> / 2 ^ 53 \<le> 40000 / 2 ^ 53" using that by (simp add: divide_right_mono)
    then show ?thesis by simp
  qed
  have m: "\<bar>of_int m - c\<bar> \<le> 1 / 2 + 1 / 2 ^ 37 \<and> \<bar>m\<bar> \<le> 32767"
  proof (cases "c \<ge> 0")
    case True
    have e: "\<bar>f64 (c + 1 / 2) - (c + 1 / 2)\<bar> \<le> 1 / 2 ^ 37"
      using fl_error [of 53 "c + 1 / 2"] small [of "c + 1 / 2"] ce(2) True unfolding f64_def by (simp add: abs_if split: if_splits)
    have pos: "0 \<le> f64 (c + 1 / 2)" using e True by (simp add: abs_if split: if_splits)
    then have mm: "m = \<lfloor>f64 (c + 1 / 2)\<rfloor>" using True by (simp add: m_def trunc_def)
    have "of_int m \<le> f64 (c + 1 / 2)" "f64 (c + 1 / 2) < of_int m + 1" unfolding mm by linarith+
    moreover have "f64 (c + 1 / 2) < 32768" using e ce(2) by (simp add: abs_if split: if_splits)
    ultimately have "m < 32768" "0 \<le> m" using pos mm by (auto simp: floor_less_iff)
    then show ?thesis using \<open>of_int m \<le> f64 (c + 1 / 2)\<close> \<open>f64 (c + 1 / 2) < of_int m + 1\<close> e
      by (simp add: abs_if split: if_splits)
  next
    case False
    have e: "\<bar>f64 (c - 1 / 2) - (c - 1 / 2)\<bar> \<le> 1 / 2 ^ 37"
      using fl_error [of 53 "c - 1 / 2"] small [of "c - 1 / 2"] ce(2) False unfolding f64_def by (simp add: abs_if split: if_splits)
    have neg: "f64 (c - 1 / 2) < 0" using e False by (simp add: abs_if split: if_splits)
    then have mm: "m = \<lceil>f64 (c - 1 / 2)\<rceil>" using False by (simp add: m_def trunc_def)
    have "f64 (c - 1 / 2) \<le> of_int m" "of_int m - 1 < f64 (c - 1 / 2)" unfolding mm by linarith+
    moreover have "- 32768 < f64 (c - 1 / 2)" using e ce(2) by (simp add: abs_if split: if_splits)
    ultimately have "- 32768 < m" "m \<le> 0" using neg mm by (auto simp: less_ceiling_iff)
    then show ?thesis using \<open>f64 (c - 1 / 2) \<le> of_int m\<close> \<open>of_int m - 1 < f64 (c - 1 / 2)\<close> e
      by (simp add: abs_if split: if_splits)
  qed
  have w: "axisToInt16 v = word_of_int m"
    by (simp add: axisToInt16_def AxisScale_def x_def c_def m_def)
  have sm: "sint (word_of_int m :: 16 word) = m"
  proof -
    have "- (2 ^ 15) \<le> m" "m < 2 ^ 15" using m by (simp_all add: abs_le_iff)
    then show ?thesis by (simp add: sint_sbintrunc' signed_take_bit_int_eq_self)
  qed
  have q: "\<bar>int16ToAxis (word_of_int m) - of_int m / 32767\<bar> \<le> 1 / 2 ^ 24"
  proof (cases "m = - 32767")
    case True
    then show ?thesis using sm by (simp add: int16ToAxis_def AxisScale_def)
  next
    case False
    have "\<bar>f32 (of_int m / 32767) - of_int m / 32767\<bar> \<le> \<bar>of_int m / 32767\<bar> / 2 ^ 24"
      using fl_error [of 24 "of_int m / 32767"] by (simp add: f32_def)
    also have "\<dots> \<le> 1 / 2 ^ 24"
    proof (intro divide_right_mono)
      have "\<bar>rat_of_int m\<bar> \<le> 32767" using m by linarith
      then show "\<bar>rat_of_int m / 32767\<bar> \<le> 1" by simp
    qed simp
    finally have "\<bar>f32 (of_int m / 32767) - of_int m / 32767\<bar> \<le> 1 / 2 ^ 24" .
    moreover have "\<not> m \<le> - 32767" using False m by arith
    ultimately show ?thesis using sm by (simp add: int16ToAxis_def AxisScale_def)
  qed
  have "\<bar>of_int m / 32767 - v\<bar> \<le> (1 / 2 + 1 / 2 ^ 36) / 32767"
  proof -
    have "of_int m / 32767 - v = (of_int m - v * 32767) / 32767" by (simp add: diff_divide_distrib)
    moreover have "\<bar>of_int m - v * 32767\<bar> \<le> 1 / 2 + 1 / 2 ^ 36" using m ce(1) by (simp add: abs_if split: if_splits)
    ultimately show ?thesis by (simp only: abs_divide abs_numeral) (rule divide_right_mono, simp_all)
  qed
  then show ?thesis using q unfolding w by (simp add: abs_if split: if_splits)
qed

section \<open>Properties\<close>

text \<open>
  C35. Commands survive the wire. Decoding what was encoded gives back the buttons and the
  sequence number bit for bit and the timestamp of reception; every axis in range comes back
  within one step of the sixteen-bit grid.
\<close>

theorem input_roundtrip:
  assumes "\<bar>ic_LX cmd\<bar> \<le> 1" "\<bar>ic_LY cmd\<bar> \<le> 1" "\<bar>ic_RX cmd\<bar> \<le> 1" "\<bar>ic_RY cmd\<bar> \<le> 1"
  shows "\<exists>d. DecodeInputCommand (EncodeInputCommand cmd) now = Inr d
    \<and> length (EncodeInputCommand cmd) = 17
    \<and> ic_Buttons d = ic_Buttons cmd \<and> ic_Seq d = ic_Seq cmd \<and> ic_Timestamp d = Some now
    \<and> \<bar>ic_LX d - ic_LX cmd\<bar> \<le> 1 / 32767 \<and> \<bar>ic_LY d - ic_LY cmd\<bar> \<le> 1 / 32767
    \<and> \<bar>ic_RX d - ic_RX cmd\<bar> \<le> 1 / 32767 \<and> \<bar>ic_RY d - ic_RY cmd\<bar> \<le> 1 / 32767"
proof -
  have "get_uint32 (put_uint32 (ic_Seq cmd)) = ic_Seq cmd" using get_put_uint32 [of _ "[]"] by simp
  then show ?thesis using assms [THEN axis_quantised]
    by (simp add: DecodeInputCommand_def EncodeInputCommand_def InputWireSize_def)
qed

theorem input_roundtrip_witness:
  "\<exists>d. DecodeInputCommand (EncodeInputCommand (neutral_command\<lparr>ic_Seq := 7, ic_Buttons := 5, ic_LX := 1 / 2\<rparr>)) 9 = Inr d
    \<and> ic_Buttons d = 5 \<and> ic_Seq d = 7 \<and> \<bar>ic_LX d - 1 / 2\<bar> \<le> 1 / 32767"
  using input_roundtrip [of "neutral_command\<lparr>ic_Seq := 7, ic_Buttons := 5, ic_LX := 1 / 2\<rparr>" 9]
  by (auto simp: neutral_command_def)

text \<open>
  Frames survive the host. Every seventeen-byte frame of the current version whose axes avoid
  the one pattern -32768 that encoders never produce decodes to a command that encodes to the
  very same bytes; every other length or version is rejected.
\<close>

theorem frame_roundtrip:
  assumes "length buf = 17"
    and "\<forall>k \<in> {5, 7, 9, 11}. sint (get_uint16 (drop k buf)) \<noteq> - 32768"
  shows "if buf ! 0 = 2 then \<exists>d. DecodeInputCommand buf now = Inr d \<and> EncodeInputCommand d = buf
    else DecodeInputCommand buf now = Inl (BadWireVersion (buf ! 0))"
proof (cases "buf ! 0 = 2")
  case True
  have b: "buf = [buf!0] @ [buf!1, buf!2, buf!3, buf!4] @ [buf!5, buf!6] @ [buf!7, buf!8]
      @ [buf!9, buf!10] @ [buf!11, buf!12] @ [buf!13, buf!14, buf!15, buf!16]"
    using assms(1) by (intro nth_equalityI) (auto simp: nth_Cons' less_Suc_eq numeral_eq_Suc)
  have dr: "drop k buf = buf ! k # drop (Suc k) buf" if "k < 17" for k
    using that assms(1) by (simp add: Cons_nth_drop_Suc)
  have d16: "put_uint16 (get_uint16 (drop k buf)) = [buf ! k, buf ! Suc k]" if "k < 16" for k
    using that dr [of k] dr [of "Suc k"] by (simp add: put_get_uint16)
  have d32: "put_uint32 (get_uint32 (drop k buf)) = [buf ! k, buf ! Suc k, buf ! Suc (Suc k), buf ! Suc (Suc (Suc k))]"
    if "k < 14" for k
    using that dr [of k] dr [of "Suc k"] dr [of "Suc (Suc k)"] dr [of "Suc (Suc (Suc k))"]
    by (simp add: put_get_uint32)
  have "EncodeInputCommand \<lparr>ic_Seq = get_uint32 (drop 13 buf), ic_Buttons = get_uint32 (drop 1 buf),
                ic_LX = int16ToAxis (get_uint16 (drop 5 buf)), ic_LY = int16ToAxis (get_uint16 (drop 7 buf)),
                ic_RX = int16ToAxis (get_uint16 (drop 9 buf)), ic_RY = int16ToAxis (get_uint16 (drop 11 buf)),
                ic_Timestamp = Some now\<rparr> = buf"
  proof (rule trans [OF _ b [symmetric]])
    note e16 = d16 [of 5, simplified] d16 [of 7, simplified] d16 [of 9, simplified] d16 [of 11, simplified]
    note e32 = d32 [of 1, simplified] d32 [of 13, simplified]
    have ax: "axisToInt16 (int16ToAxis (get_uint16 (drop k buf))) = get_uint16 (drop k buf)"
      if "k \<in> {5, 7, 9, 11}" for k using assms(2) that by (auto intro: axis_roundtrip)
    show "EncodeInputCommand \<lparr>ic_Seq = get_uint32 (drop 13 buf), ic_Buttons = get_uint32 (drop 1 buf),
                ic_LX = int16ToAxis (get_uint16 (drop 5 buf)), ic_LY = int16ToAxis (get_uint16 (drop 7 buf)),
                ic_RX = int16ToAxis (get_uint16 (drop 9 buf)), ic_RY = int16ToAxis (get_uint16 (drop 11 buf)),
                ic_Timestamp = Some now\<rparr> = [buf!0] @ [buf!1, buf!2, buf!3, buf!4] @ [buf!5, buf!6]
      @ [buf!7, buf!8] @ [buf!9, buf!10] @ [buf!11, buf!12] @ [buf!13, buf!14, buf!15, buf!16]"
      by (simp add: EncodeInputCommand_def InputWireVersion_def True ax e16 e32) (simp add: numeral_eq_Suc)
  qed
  with True assms(1) show ?thesis by (simp add: DecodeInputCommand_def InputWireSize_def InputWireVersion_def)
qed (use assms(1) in \<open>simp add: DecodeInputCommand_def InputWireSize_def InputWireVersion_def\<close>)

theorem frame_roundtrip_witness:
  "\<exists>d. DecodeInputCommand [2, 5, 0, 0, 0, 0, 0x40, 1, 0x80, 0, 0, 0xff, 0x7f, 9, 0, 0, 0] 3 = Inr d
     \<and> EncodeInputCommand d = [2, 5, 0, 0, 0, 0, 0x40, 1, 0x80, 0, 0, 0xff, 0x7f, 9, 0, 0, 0]"
  using frame_roundtrip [of "[2, 5, 0, 0, 0, 0, 0x40, 1, 0x80, 0, 0, 0xff, 0x7f, 9, 0, 0, 0]" 3]
  by (simp add: get_uint16_def)

end
