(* ===== verification/Peer.thy ===== *)
theory Peer
  imports InputCodec Json Base64 "HOL-Library.List_Lexorder" "HOL-Library.Char_ord" "HOL-Library.Sublist"
begin

text \<open>
  The WebRTC peer of the host (\<^verbatim>\<open>playgate-host/internal/rtc\<close>: \<^verbatim>\<open>peer.go\<close>, \<^verbatim>\<open>pump.go\<close>,
  \<^verbatim>\<open>stats.go\<close>, \<^verbatim>\<open>signaling.go\<close>). The Pion library is not part of the repository: its calls
  appear as parameters (whether a call fails) or as the messages and state changes it delivers.
  What the peer does to the outside is a list of effects.
\<close>

section \<open>Construction\<close>

datatype PeerConnectionState = PCUnknown | PCNew | PCConnecting | PCConnected | PCDisconnected
  | PCFailed | PCClosed

record PeerConfig =
  pcfg_ICEServers :: "string list list"
  pcfg_CommandBuffer :: int
  pcfg_HasKeyframeRequest :: bool
  pcfg_EnableAudio :: bool

definition rtc_DefaultConfig :: PeerConfig where
  "rtc_DefaultConfig = \<lparr>pcfg_ICEServers = [[''stun:stun.l.google.com:19302'']], pcfg_CommandBuffer = 64,
     pcfg_HasKeyframeRequest = False, pcfg_EnableAudio = False\<rparr>"

definition ICEServersFromURLs :: "string list \<Rightarrow> string list list" where
  "ICEServersFromURLs urls = (if urls = [] then [] else [urls])"

text \<open>
  How far \<^verbatim>\<open>Close\<close> has come. \<^verbatim>\<open>sync.Once\<close> lets one caller run it; the flag \<^verbatim>\<open>closed\<close> is set under
  the lock, the two channels are closed after it has been released.
\<close>

datatype close_pc = CloseNotCalled | CloseMarked | CloseCommandsDone | CloseDone

record Peer =
  p_cfg :: PeerConfig
  p_video :: bool
  p_audio :: bool
  p_control :: bool
  p_closed :: bool
  p_commands :: "InputCommand chan"
  p_connState :: "PeerConnectionState chan"
  p_lastInputSeq :: "32 word"
  p_haveInputSeq :: bool
  p_seenKeyframe :: bool
  p_onControl :: bool
  p_close :: close_pc

text \<open>The Pion calls of the constructor that may fail, in the order they are made.\<close>

datatype pion_call = RegisterH264 | RegisterRTX | RegisterOpus | RegisterInterceptors
  | NewPeerConnection | NewVideoTrack | AddVideoTrack | NewAudioTrack | AddAudioTrack
  | CreateInputChannel | CreateControlChannel

text \<open>
  A failing constructor says which call failed and whether the peer connection it had opened
  was closed again.
\<close>

record new_peer_error =
  npe_call :: pion_call
  npe_opened :: bool
  npe_closed :: bool

fun first_failure :: "(pion_call \<Rightarrow> bool) \<Rightarrow> pion_call list \<Rightarrow> pion_call option" where
  "first_failure fails [] = None"
| "first_failure fails (c # cs) = (if fails c then Some c else first_failure fails cs)"

definition setupVideoTrack :: "(pion_call \<Rightarrow> bool) \<Rightarrow> Peer \<Rightarrow> pion_call + Peer" where
  "setupVideoTrack fails p =
     (case first_failure fails [NewVideoTrack, AddVideoTrack] of
        Some c \<Rightarrow> Inl c
      | None \<Rightarrow> Inr (p\<lparr>p_video := True\<rparr>))"

definition setupAudioTrack :: "(pion_call \<Rightarrow> bool) \<Rightarrow> Peer \<Rightarrow> pion_call + Peer" where
  "setupAudioTrack fails p =
     (case first_failure fails [NewAudioTrack, AddAudioTrack] of
        Some c \<Rightarrow> Inl c
      | None \<Rightarrow> Inr (p\<lparr>p_audio := True\<rparr>))"

definition attachControlChannel :: "Peer \<Rightarrow> Peer" where
  "attachControlChannel p = p\<lparr>p_control := True\<rparr>"

definition setupDataChannels :: "(pion_call \<Rightarrow> bool) \<Rightarrow> Peer \<Rightarrow> pion_call + Peer" where
  "setupDataChannels fails p =
     (if fails CreateInputChannel then Inl CreateInputChannel
      else if fails CreateControlChannel then Inl CreateControlChannel
      else Inr (attachControlChannel p))"

definition NewPeer :: "(pion_call \<Rightarrow> bool) \<Rightarrow> PeerConfig \<Rightarrow> new_peer_error + Peer" where
  "NewPeer fails cfg0 =
     (let cfg = (if pcfg_CommandBuffer cfg0 \<le> 0 then cfg0\<lparr>pcfg_CommandBuffer := 64\<rparr> else cfg0) in
      case first_failure fails [RegisterH264, RegisterRTX, RegisterOpus, RegisterInterceptors, NewPeerConnection] of
        Some c \<Rightarrow> Inl \<lparr>npe_call = c, npe_opened = False, npe_closed = False\<rparr>
      | None \<Rightarrow>
          (let p = \<lparr>p_cfg = cfg, p_video = False, p_audio = False, p_control = False, p_closed = False,
                    p_commands = make_chan (nat (pcfg_CommandBuffer cfg)), p_connState = make_chan 8,
                    p_lastInputSeq = 0, p_haveInputSeq = False, p_seenKeyframe = False,
                    p_onControl = False, p_close = CloseNotCalled\<rparr>
           in case setupVideoTrack fails p of
                Inl c \<Rightarrow> Inl \<lparr>npe_call = c, npe_opened = True, npe_closed = True\<rparr>
              | Inr p1 \<Rightarrow>
                  (case (if pcfg_EnableAudio cfg then setupAudioTrack fails p1 else Inr p1) of
                     Inl c \<Rightarrow> Inl \<lparr>npe_call = c, npe_opened = True, npe_closed = True\<rparr>
                   | Inr p2 \<Rightarrow>
                       (case setupDataChannels fails p2 of
                          Inl c \<Rightarrow> Inl \<lparr>npe_call = c, npe_opened = True, npe_closed = True\<rparr>
                        | Inr p3 \<Rightarrow> Inr p3))))"

section \<open>Inbound messages\<close>

record DataChannelMessage =
  dcm_IsString :: bool
  dcm_Data :: "byte list"

text \<open>
  The handler of the input channel. The decoded command is stamped with \<open>now\<close>. The lock is held
  from the test of \<^verbatim>\<open>closed\<close> to the end.
\<close>

definition seq_accept :: "InputCommand \<Rightarrow> Peer \<Rightarrow> bool" where
  "seq_accept cmd p \<longleftrightarrow> ic_Seq cmd = 0 \<or> \<not> p_haveInputSeq p \<or> \<not> ic_Seq cmd \<le> p_lastInputSeq p"

definition seq_record :: "InputCommand \<Rightarrow> Peer \<Rightarrow> Peer" where
  "seq_record cmd p =
     (if ic_Seq cmd \<noteq> 0 then p\<lparr>p_lastInputSeq := ic_Seq cmd, p_haveInputSeq := True\<rparr> else p)"

definition onInputMessage :: "instant \<Rightarrow> DataChannelMessage \<Rightarrow> Peer \<Rightarrow> Peer \<times> InputCommand option" where
  "onInputMessage now msg p =
     (if dcm_IsString msg then (p, None)
      else case DecodeInputCommand (dcm_Data msg) now of
             Inl _ \<Rightarrow> (p, None)
           | Inr cmd \<Rightarrow>
               if p_closed p then (p, None)
               else if \<not> seq_accept cmd p then (p, None)
               else (let p1 = seq_record cmd p
                     in (p1\<lparr>p_commands := send_drop_oldest cmd (p_commands p1)\<rparr>, Some cmd)))"

definition onConnectionStateChange :: "PeerConnectionState \<Rightarrow> Peer \<Rightarrow> Peer" where
  "onConnectionStateChange s p =
     (if p_closed p then p else p\<lparr>p_connState := try_send s (p_connState p)\<rparr>)"

definition InputChannelLabel :: string where "InputChannelLabel = ''input''"
definition ControlChannelLabel :: string where "ControlChannelLabel = ''control''"

definition onDataChannel :: "string \<Rightarrow> Peer \<Rightarrow> Peer" where
  "onDataChannel label p = (if label = ControlChannelLabel then attachControlChannel p else p)"

text \<open>\<^verbatim>\<open>Close\<close>, one step for each thing other goroutines can observe.\<close>

fun Close_step :: "Peer \<Rightarrow> Peer option" where
  "Close_step p =
     (case p_close p of
        CloseNotCalled \<Rightarrow> Some (p\<lparr>p_closed := True, p_close := CloseMarked\<rparr>)
      | CloseMarked \<Rightarrow> Some (p\<lparr>p_commands := close_chan (p_commands p), p_close := CloseCommandsDone\<rparr>)
      | CloseCommandsDone \<Rightarrow> Some (p\<lparr>p_connState := close_chan (p_connState p), p_close := CloseDone\<rparr>)
      | CloseDone \<Rightarrow> None)"

definition OnControlMessage :: "bool \<Rightarrow> Peer \<Rightarrow> Peer" where
  "OnControlMessage cb p = p\<lparr>p_onControl := cb\<rparr>"

subsection \<open>Control messages\<close>

datatype peer_effect = SendText string | ControlCallback string | KeyframeRequest

text \<open>The text handed to the data channel, or the error that there is no channel yet.\<close>

definition SendControl :: "string \<Rightarrow> Peer \<Rightarrow> string + peer_effect" where
  "SendControl data p =
     (if \<not> p_control p then Inl ''rtc: control channel not ready'' else Inr (SendText data))"

text \<open>A Go map with string keys, as the list of its bindings in the order of the keys.\<close>

fun map_set :: "string \<Rightarrow> 'v \<Rightarrow> (string \<times> 'v) list \<Rightarrow> (string \<times> 'v) list" where
  "map_set k v [] = [(k, v)]"
| "map_set k v ((k', v') # m) =
     (if k < k' then (k, v) # (k', v') # m
      else if k = k' then (k, v) # m
      else (k', v') # map_set k v m)"

definition marshal_raw_map :: "(string \<times> string) list \<Rightarrow> string" where
  "marshal_raw_map m =
     CHR ''{'' # join '','' (map (\<lambda>(k, v). quote k @ CHR '':'' # compact v) m) @ ''}''"

definition pong :: "string \<Rightarrow> string" where
  "pong data =
     marshal_raw_map (map_set ''kind'' (quote ''pong'')
       (fold (\<lambda>(k, v). map_set k v) (json_raw_members data) []))"

definition handleControlMessage :: "string \<Rightarrow> Peer \<Rightarrow> peer_effect list" where
  "handleControlMessage data p =
     (case json_parse data of
        None \<Rightarrow> []
      | Some v \<Rightarrow>
          (case Option.bind (json_members v) (get_str ''kind'') of
             None \<Rightarrow> []
           | Some kind \<Rightarrow>
               if kind = ''ping'' then
                 (case SendControl (pong data) p of Inl _ \<Rightarrow> [] | Inr eff \<Rightarrow> [eff])
               else if p_onControl p then [ControlCallback data]
               else []))"

definition onControlMessage :: "DataChannelMessage \<Rightarrow> Peer \<Rightarrow> peer_effect list" where
  "onControlMessage msg p =
     (if \<not> dcm_IsString msg then []
      else handleControlMessage (map (\<lambda>b. char_of (unat b)) (dcm_Data msg)) p)"

text \<open>
  The RTCP reader of a sender: one round for each read. \<^const>\<open>None\<close> is a read error, which ends
  the loop, \<open>Some None\<close> a compound packet that does not unmarshal.
\<close>

datatype rtcp_packet = PictureLossIndication | FullIntraRequest | OtherRTCP

definition rtcp_requests :: "Peer \<Rightarrow> rtcp_packet list \<Rightarrow> peer_effect list" where
  "rtcp_requests p pkts =
     (if pcfg_HasKeyframeRequest (p_cfg p)
      then map (\<lambda>_. KeyframeRequest) (filter (\<lambda>k. k = PictureLossIndication \<or> k = FullIntraRequest) pkts)
      else [])"

fun readSenderRTCP :: "Peer \<Rightarrow> rtcp_packet list option option list \<Rightarrow> peer_effect list" where
  "readSenderRTCP p [] = []"
| "readSenderRTCP p (None # rs) = []"
| "readSenderRTCP p (Some None # rs) = readSenderRTCP p rs"
| "readSenderRTCP p (Some (Some pkts) # rs) = rtcp_requests p pkts @ readSenderRTCP p rs"

section \<open>Media\<close>

record Sample =
  s_Data :: "byte list"
  s_Duration :: duration

text \<open>
  \<^verbatim>\<open>WriteSample\<close> and \<^verbatim>\<open>WriteAudioSample\<close>: the sample handed to the track, if any, and whether the call
  returns an error. \<open>refused\<close> is the track's answer, should it be asked: its error is returned.
\<close>

definition WriteSample :: "bool \<Rightarrow> EncodedPacket \<Rightarrow> duration \<Rightarrow> Peer \<Rightarrow> Peer \<times> Sample option \<times> bool" where
  "WriteSample refused pkt dur p =
     (if \<not> p_seenKeyframe p \<and> \<not> ep_IsKeyframe pkt then (p, None, False)
      else (p\<lparr>p_seenKeyframe := True\<rparr>, Some \<lparr>s_Data = ep_Data pkt, s_Duration = dur\<rparr>, refused))"

lemma WriteSample_accepted: "WriteSample False pkt dur p = (p', sample, err) \<Longrightarrow> \<not> err"
  by (auto simp: WriteSample_def split: if_splits)

definition WriteAudioSample :: "bool \<Rightarrow> byte list \<Rightarrow> duration \<Rightarrow> Peer \<Rightarrow> Sample option \<times> bool" where
  "WriteAudioSample refused data dur p =
     (if \<not> p_audio p then (None, False) else (Some \<lparr>s_Data = data, s_Duration = dur\<rparr>, refused))"

definition option_list :: "'a option \<Rightarrow> 'a list" where
  "option_list x = (case x of None \<Rightarrow> [] | Some y \<Rightarrow> [y])"

definition DefaultSampleDuration :: duration where
  "DefaultSampleDuration = go_div Second 30"

definition SampleDuration :: "duration \<Rightarrow> duration \<Rightarrow> bool \<Rightarrow> duration" where
  "SampleDuration pts prevPTS havePrev =
     (if \<not> havePrev then DefaultSampleDuration
      else let d = wrap64 (pts - prevPTS) in if d \<le> 0 then DefaultSampleDuration else d)"

text \<open>What the \<^verbatim>\<open>select\<close> of the pump receives, in order.\<close>

datatype pump_event = PumpPacket EncodedPacket | PumpClosed | PumpCancelled

datatype pump_result = PumpDone | PumpCtxErr | PumpWriteErr | PumpWaiting

text \<open>
  The pump: the samples handed to the track and how it ended. \<open>fails\<close> says which write, by its
  number, the track refuses.
\<close>

fun pump_loop :: "(nat \<Rightarrow> bool) \<Rightarrow> pump_event list \<Rightarrow> bool \<Rightarrow> duration \<Rightarrow> Peer \<Rightarrow> Sample list
    \<Rightarrow> Peer \<times> Sample list \<times> pump_result" where
  "pump_loop fails [] havePrev prevPTS p out = (p, out, PumpWaiting)"
| "pump_loop fails (PumpCancelled # es) havePrev prevPTS p out = (p, out, PumpCtxErr)"
| "pump_loop fails (PumpClosed # es) havePrev prevPTS p out = (p, out, PumpDone)"
| "pump_loop fails (PumpPacket pkt # es) havePrev prevPTS p out =
     (let dur = SampleDuration (ep_PTS pkt) prevPTS havePrev in
      case WriteSample (fails (length out)) pkt dur p of
        (p', sample, err) \<Rightarrow>
          if err then (p', out @ option_list sample, PumpWriteErr)
          else pump_loop fails es True (ep_PTS pkt) p' (out @ option_list sample))"

definition PumpPackets :: "(nat \<Rightarrow> bool) \<Rightarrow> pump_event list \<Rightarrow> Peer \<Rightarrow> Peer \<times> Sample list \<times> pump_result" where
  "PumpPackets fails es p = pump_loop fails es False 0 p []"

section \<open>Transport statistics\<close>

record StatsSample =
  st_LossFraction :: rat
  st_RTT :: duration
  st_Valid :: bool

text \<open>The entries of a report: those for a remote inbound stream carry the loss and the RTT in seconds.\<close>

datatype stats_entry = RemoteInbound rat rat | OtherStats

fun stats_loop :: "stats_entry list \<Rightarrow> StatsSample \<Rightarrow> StatsSample" where
  "stats_loop [] out = out"
| "stats_loop (OtherStats # es) out = stats_loop es out"
| "stats_loop (RemoteInbound lost rtt # es) out =
     (let l0 = (if lost < 0 then 0 else lost); loss = (if l0 > 1 then 1 else l0) in
      if \<not> st_Valid out \<or> loss > st_LossFraction out
      then stats_loop es \<lparr>st_LossFraction = loss, st_RTT = trunc (f64 (rtt * of_int Second)), st_Valid = True\<rparr>
      else stats_loop es out)"

definition sampleFromReport :: "stats_entry list \<Rightarrow> StatsSample" where
  "sampleFromReport report = stats_loop report \<lparr>st_LossFraction = 0, st_RTT = 0, st_Valid = False\<rparr>"

section \<open>Offer and answer\<close>

text \<open>
  The exchange of descriptions. Parameters: the description Pion creates, whether it accepts it as
  the local one, whether the context ends before the gathering of candidates is complete, and the
  local description after that.
\<close>

datatype sdp_exchange_error = CreateFailed | SetLocalFailed | ExchangeCancelled | NilLocalDescription
  | SetRemoteFailed

definition gatherLocal :: "('d \<Rightarrow> bool) \<Rightarrow> bool \<Rightarrow> 'd option \<Rightarrow> 'd \<Rightarrow> sdp_exchange_error + 'd" where
  "gatherLocal setLocalFails cancelled local desc =
     (if setLocalFails desc then Inl SetLocalFailed
      else if cancelled then Inl ExchangeCancelled
      else case local of None \<Rightarrow> Inl NilLocalDescription | Some d \<Rightarrow> Inr d)"

definition CreateOffer :: "'d option \<Rightarrow> ('d \<Rightarrow> bool) \<Rightarrow> bool \<Rightarrow> 'd option \<Rightarrow> sdp_exchange_error + 'd" where
  "CreateOffer created setLocalFails cancelled local =
     (case created of None \<Rightarrow> Inl CreateFailed | Some offer \<Rightarrow> gatherLocal setLocalFails cancelled local offer)"

definition CreateAnswer :: "'d option \<Rightarrow> ('d \<Rightarrow> bool) \<Rightarrow> bool \<Rightarrow> 'd option \<Rightarrow> sdp_exchange_error + 'd" where
  "CreateAnswer created setLocalFails cancelled local =
     (case created of None \<Rightarrow> Inl CreateFailed | Some answer \<Rightarrow> gatherLocal setLocalFails cancelled local answer)"

definition SetRemoteDescription :: "('d \<Rightarrow> bool) \<Rightarrow> 'd \<Rightarrow> sdp_exchange_error option" where
  "SetRemoteDescription fails desc = (if fails desc then Some SetRemoteFailed else None)"

section \<open>Manual signalling\<close>

text \<open>
  A session description is a value of the Pion library with its own JSON form; \<open>marshal\<close> and
  \<open>unmarshal\<close> are \<^verbatim>\<open>json.Marshal\<close> and \<^verbatim>\<open>json.Unmarshal\<close> at that type.
\<close>

datatype sdp_error = SDPMarshal | SDPBase64 | SDPUnmarshal

definition EncodeSDP :: "('d \<Rightarrow> string option) \<Rightarrow> 'd \<Rightarrow> sdp_error + string" where
  "EncodeSDP marshal desc =
     (case marshal desc of None \<Rightarrow> Inl SDPMarshal | Some raw \<Rightarrow> Inr (StdEncoding_EncodeToString raw))"

definition DecodeSDP :: "(string \<Rightarrow> 'd option) \<Rightarrow> string \<Rightarrow> sdp_error + 'd" where
  "DecodeSDP unmarshal s =
     (case b64_decode std_alphabet True s of
        None \<Rightarrow> Inl SDPBase64
      | Some raw \<Rightarrow> (case unmarshal raw of None \<Rightarrow> Inl SDPUnmarshal | Some d \<Rightarrow> Inr d))"

end
