(* ===== verification/PeerProps.thy ===== *)
theory PeerProps
  imports Peer
begin

text \<open>
  Properties of the peer: what any interleaving of its callbacks, its consumer and \<^verbatim>\<open>Close\<close> does to
  the owned channels; the order of delivered commands; the stream the pump writes; the ping echo;
  the statistics; manual signalling; failures of the constructor.
\<close>

section \<open>Interleavings\<close>

text \<open>
  A state is the peer with the commands accepted so far and the commands its consumer has taken.
  In \<open>input_raced\<close> the consumer takes \<open>k\<close> values between the failed first send and the removal of
  the oldest value.
\<close>

type_synonym peer_state = "Peer \<times> InputCommand list \<times> InputCommand list"

inductive peer_step :: "peer_state \<Rightarrow> peer_state \<Rightarrow> bool" where
  input: "onInputMessage now msg p = (p', Some cmd) \<Longrightarrow>
    peer_step (p, acc, taken) (p', acc @ [cmd], taken)"
| input_ignored: "onInputMessage now msg p = (p', None) \<Longrightarrow> peer_step (p, acc, taken) (p', acc, taken)"
| input_raced: "onInputMessage now msg p = (p', Some cmd) \<Longrightarrow> \<not> can_send (p_commands p) \<Longrightarrow>
    0 < k \<Longrightarrow> k \<le> length (ch_buf (p_commands p)) \<Longrightarrow>
    peer_step (p, acc, taken)
      (p'\<lparr>p_commands := (p_commands p)\<lparr>ch_buf := tl (drop k (ch_buf (p_commands p))) @ [cmd]\<rparr>\<rparr>,
       acc @ [cmd], taken @ take k (ch_buf (p_commands p)))"
| take_command: "ch_buf (p_commands p) = c # cs \<Longrightarrow>
    peer_step (p, acc, taken) (p\<lparr>p_commands := (p_commands p)\<lparr>ch_buf := cs\<rparr>\<rparr>, acc, taken @ [c])"
| conn_state: "peer_step (p, acc, taken) (onConnectionStateChange s p, acc, taken)"
| take_state: "peer_step (p, acc, taken) (p\<lparr>p_connState := drop_one (p_connState p)\<rparr>, acc, taken)"
| data_channel: "peer_step (p, acc, taken) (onDataChannel label p, acc, taken)"
| on_control: "peer_step (p, acc, taken) (OnControlMessage cb p, acc, taken)"
| write_sample: "peer_step (p, acc, taken) (fst (WriteSample refused pkt dur p), acc, taken)"
| close: "Close_step p = Some p' \<Longrightarrow> peer_step (p, acc, taken) (p', acc, taken)"

definition seqs :: "InputCommand list \<Rightarrow> 32 word list" where
  "seqs cmds = filter (\<lambda>s. s \<noteq> 0) (map ic_Seq cmds)"

lemma seqs_simps [simp]: "seqs [] = []"
  "seqs (xs @ [c]) = (if ic_Seq c \<noteq> 0 then seqs xs @ [ic_Seq c] else seqs xs)"
  by (simp_all add: seqs_def)

definition gate_inv :: "Peer \<Rightarrow> InputCommand list \<Rightarrow> bool" where
  "gate_inv p acc \<longleftrightarrow> sorted_wrt (<) (seqs acc) \<and>
     (if p_haveInputSeq p then \<forall>s \<in> set (seqs acc). s \<le> p_lastInputSeq p else seqs acc = [])"

definition chans_inv :: "Peer \<Rightarrow> bool" where
  "chans_inv p \<longleftrightarrow> chan_ok (p_commands p) \<and> chan_ok (p_connState p) \<and> 0 < ch_cap (p_commands p)
     \<and> (p_closed p \<longleftrightarrow> p_close p \<noteq> CloseNotCalled)
     \<and> (ch_closed (p_commands p) \<longleftrightarrow> p_close p \<in> {CloseCommandsDone, CloseDone})
     \<and> (ch_closed (p_connState p) \<longleftrightarrow> p_close p = CloseDone)"

definition peer_inv :: "peer_state \<Rightarrow> bool" where
  "peer_inv = (\<lambda>(p, acc, taken). chans_inv p \<and> gate_inv p acc \<and> subseq (taken @ ch_buf (p_commands p)) acc)"

lemma onInputMessage_Some:
  assumes "onInputMessage now msg p = (p', Some cmd)"
  shows "\<not> p_closed p \<and> seq_accept cmd p \<and>
    p' = (seq_record cmd p)\<lparr>p_commands := send_drop_oldest cmd (p_commands p)\<rparr>"
proof -
  have "p_commands (seq_record cmd p) = p_commands p" by (simp add: seq_record_def)
  then show ?thesis using assms by (auto simp: onInputMessage_def Let_def split: if_splits sum.splits)
qed

lemma onInputMessage_None: "onInputMessage now msg p = (p', None) \<Longrightarrow> p' = p"
  by (auto simp: onInputMessage_def Let_def split: if_splits sum.splits)

lemma gate_inv_accept:
  assumes "gate_inv p acc" "seq_accept cmd p"
  shows "gate_inv (seq_record cmd p) (acc @ [cmd])"
  using assms
  by (auto simp: gate_inv_def seq_accept_def seq_record_def sorted_wrt_append split: if_splits
      intro: le_less_trans less_imp_le)

lemma gate_inv_cong: "p_haveInputSeq p' = p_haveInputSeq p \<Longrightarrow> p_lastInputSeq p' = p_lastInputSeq p \<Longrightarrow>
  gate_inv p' acc = gate_inv p acc"
  by (simp add: gate_inv_def)

lemma seq_record_sel [simp]:
  "p_closed (seq_record cmd p) = p_closed p" "p_close (seq_record cmd p) = p_close p"
  "p_connState (seq_record cmd p) = p_connState p" "p_commands (seq_record cmd p) = p_commands p"
  by (simp_all add: seq_record_def)

lemma chans_inv_open: "chans_inv p \<Longrightarrow> \<not> p_closed p \<Longrightarrow>
  \<not> ch_closed (p_commands p) \<and> \<not> ch_closed (p_connState p)"
  by (auto simp: chans_inv_def)

lemma sdo_closed: "ch_closed (send_drop_oldest x c) = ch_closed c"
  by (rule sdo.push_closed)

lemma sdo_cap: "ch_cap (send_drop_oldest x c) = ch_cap c"
  by (rule sdo.push_cap)

lemma chans_inv_push:
  assumes "chans_inv p" "\<not> p_closed p"
  shows "chans_inv ((seq_record cmd p)\<lparr>p_commands := send_drop_oldest cmd (p_commands p)\<rparr>)"
proof -
  have o: "\<not> ch_closed (p_commands p)" using chans_inv_open [OF assms] by simp
  then have "chan_ok (send_drop_oldest cmd (p_commands p))"
    using assms(1) by (intro sdo.push_ok) (simp_all add: chans_inv_def)
  then show ?thesis using assms o by (auto simp: chans_inv_def sdo_closed sdo_cap)
qed

lemma subseq_push:
  assumes "subseq (taken @ buf) acc"
  shows "subseq (taken @ drop k buf @ [c]) (acc @ [c])"
proof -
  have "subseq (taken @ drop k buf) (taken @ buf)"
    using list_emb_append_mono [OF subseq_order.refl, of "drop k buf" buf taken] suffix_imp_subseq [OF suffix_drop]
    by blast
  then have "subseq (taken @ drop k buf) acc" using assms by (rule subseq_order.trans)
  then show ?thesis using list_emb_append_mono [of "(=)" "taken @ drop k buf" acc "[c]" "[c]"] by simp
qed

lemma peer_step_inv: "peer_step s t \<Longrightarrow> peer_inv s \<Longrightarrow> peer_inv t"
proof (induction rule: peer_step.induct)
  case (input now msg p p' cmd acc taken)
  note i = onInputMessage_Some [OF input(1)]
  have "chan_ok (p_commands p)" "0 < ch_cap (p_commands p)" using input(2) by (simp_all add: peer_inv_def chans_inv_def)
  moreover have "\<not> ch_closed (p_commands p)" using input(2) i chans_inv_open by (auto simp: peer_inv_def)
  ultimately have buf: "ch_buf (send_drop_oldest cmd (p_commands p)) =
    drop (Suc (length (ch_buf (p_commands p))) - ch_cap (p_commands p)) (ch_buf (p_commands p) @ [cmd])"
    by (intro sdo.push_suffix)
  have le: "length (ch_buf (p_commands p)) \<le> ch_cap (p_commands p)" "0 < ch_cap (p_commands p)"
    using \<open>chan_ok (p_commands p)\<close> \<open>0 < ch_cap (p_commands p)\<close> by (simp_all add: chan_ok_def)
  let ?k = "Suc (length (ch_buf (p_commands p))) - ch_cap (p_commands p)"
  have buf2: "ch_buf (send_drop_oldest cmd (p_commands p)) = drop ?k (ch_buf (p_commands p)) @ [cmd]"
    using buf le by (cases "?k = 0") (simp_all add: drop_append)
  have "gate_inv p' (acc @ [cmd])"
    using gate_inv_accept [of p acc cmd] gate_inv_cong [of p' "seq_record cmd p"] i input(2) by (simp add: peer_inv_def)
  then show ?case using input(2) i chans_inv_push subseq_push [of taken "ch_buf (p_commands p)" acc ?k cmd] buf2
    by (simp add: peer_inv_def)
next
  case (input_raced now msg p p' cmd k acc taken)
  note i = onInputMessage_Some [OF input_raced(1)]
  let ?b = "ch_buf (p_commands p)"
  have c: "chans_inv p" "gate_inv p acc" "subseq (taken @ ?b) acc" using input_raced(5) by (simp_all add: peer_inv_def)
  have "gate_inv p' (acc @ [cmd])"
    using gate_inv_accept [of p acc cmd] gate_inv_cong [of p' "seq_record cmd p"] i c by simp
  moreover have "subseq ((taken @ take k ?b) @ tl (drop k ?b) @ [cmd]) (acc @ [cmd])"
    using subseq_push [of "taken @ take k ?b" "drop k ?b" acc 1 cmd] c(3) by (simp add: drop_Suc tl_drop)
  moreover have "chans_inv (p'\<lparr>p_commands := (p_commands p)\<lparr>ch_buf := tl (drop k ?b) @ [cmd]\<rparr>\<rparr>)"
    using c(1) i input_raced(3,4) by (auto simp: chans_inv_def chan_ok_def)
  ultimately show ?case using gate_inv_cong [of "p'\<lparr>p_commands := (p_commands p)\<lparr>ch_buf := tl (drop k ?b) @ [cmd]\<rparr>\<rparr>" p']
    by (simp add: peer_inv_def)
next
  case (take_command p c cs acc taken)
  then show ?case by (auto simp: peer_inv_def chans_inv_def gate_inv_def chan_ok_def)
next
  case (conn_state p acc taken s)
  then show ?case
    by (auto simp: peer_inv_def gate_inv_def onConnectionStateChange_def chans_inv_def intro!: chan_ok_try_send)
next
  case (close p p' acc taken)
  then show ?case
    by (auto simp: peer_inv_def gate_inv_def chans_inv_def split: close_pc.splits intro!: chan_ok_close)
qed (auto simp: peer_inv_def gate_inv_def chans_inv_def onDataChannel_def attachControlChannel_def
       OnControlMessage_def WriteSample_def dest: onInputMessage_None intro!: chan_ok_drop_one)

definition fresh_peer :: "PeerConfig \<Rightarrow> Peer" where
  "fresh_peer cfg =
     \<lparr>p_cfg = cfg, p_video = True, p_audio = pcfg_EnableAudio cfg, p_control = True, p_closed = False,
      p_commands = make_chan (nat (pcfg_CommandBuffer cfg)), p_connState = make_chan 8,
      p_lastInputSeq = 0, p_haveInputSeq = False, p_seenKeyframe = False, p_onControl = False,
      p_close = CloseNotCalled\<rparr>"

definition with_buffer :: "PeerConfig \<Rightarrow> PeerConfig" where
  "with_buffer cfg = (if pcfg_CommandBuffer cfg \<le> 0 then cfg\<lparr>pcfg_CommandBuffer := 64\<rparr> else cfg)"

lemma NewPeer_Inr: "NewPeer fails cfg = Inr p \<Longrightarrow> p = fresh_peer (with_buffer cfg)"
  by (auto simp: NewPeer_def Let_def setupVideoTrack_def setupAudioTrack_def setupDataChannels_def
      attachControlChannel_def fresh_peer_def with_buffer_def split: option.splits if_splits sum.splits)

lemma peer_inv_new: "NewPeer fails cfg = Inr p \<Longrightarrow> peer_inv (p, [], [])"
  by (drule NewPeer_Inr) (auto simp: peer_inv_def fresh_peer_def with_buffer_def chans_inv_def gate_inv_def)

lemma peer_reach_inv: "NewPeer fails cfg = Inr p \<Longrightarrow> peer_step\<^sup>*\<^sup>* (p, [], []) s \<Longrightarrow> peer_inv s"
proof -
  assume n: "NewPeer fails cfg = Inr p"
  assume "peer_step\<^sup>*\<^sup>* (p, [], []) s"
  then show ?thesis by induction (auto simp: peer_inv_new [OF n] intro: peer_step_inv)
qed

section \<open>Helper lemmas\<close>

lemma WriteSample_seen: "p_seenKeyframe p \<Longrightarrow>
  WriteSample refused pkt dur p = (p\<lparr>p_seenKeyframe := True\<rparr>, Some \<lparr>s_Data = ep_Data pkt, s_Duration = dur\<rparr>, refused)"
  by (simp add: WriteSample_def)

text \<open>The durations the pump computes for a whole stream.\<close>

fun durations :: "EncodedPacket list \<Rightarrow> bool \<Rightarrow> duration \<Rightarrow> duration list" where
  "durations [] hp pp = []"
| "durations (k # ks) hp pp = SampleDuration (ep_PTS k) pp hp # durations ks True (ep_PTS k)"

lemma length_durations [simp]: "length (durations ks hp pp) = length ks"
  by (induction ks arbitrary: hp pp) auto

definition samples_of :: "EncodedPacket list \<Rightarrow> duration list \<Rightarrow> Sample list" where
  "samples_of ks ds = map2 (\<lambda>k d. \<lparr>s_Data = ep_Data k, s_Duration = d\<rparr>) ks ds"

lemma pump_loop_seen:
  "p_seenKeyframe p \<Longrightarrow>
   pump_loop (\<lambda>_. False) (map PumpPacket ks @ es) hp pp p out =
     pump_loop (\<lambda>_. False) es (hp \<or> ks \<noteq> []) (if ks = [] then pp else ep_PTS (last ks)) p
       (out @ samples_of ks (durations ks hp pp))"
proof (induction ks arbitrary: hp pp out)
  case (Cons k ks)
  have p: "p\<lparr>p_seenKeyframe := True\<rparr> = p" using Cons.prems by simp
  show ?case using Cons by (auto simp: WriteSample_seen p samples_of_def option_list_def)
qed (simp add: samples_of_def)

lemma pump_loop_wait:
  "\<not> p_seenKeyframe p \<Longrightarrow>
   fst (snd (pump_loop (\<lambda>_. False) (map PumpPacket ks) hp pp p out)) =
     out @ samples_of (dropWhile (\<lambda>k. \<not> ep_IsKeyframe k) ks)
       (drop (length (takeWhile (\<lambda>k. \<not> ep_IsKeyframe k) ks)) (durations ks hp pp))"
proof (induction ks arbitrary: hp pp)
  case (Cons k ks)
  show ?case
  proof (cases "ep_IsKeyframe k")
    case True
    have "pump_loop (\<lambda>_. False) (map PumpPacket (k # ks)) hp pp p out =
      pump_loop (\<lambda>_. False) (map PumpPacket ks) True (ep_PTS k) (p\<lparr>p_seenKeyframe := True\<rparr>)
        (out @ [\<lparr>s_Data = ep_Data k, s_Duration = SampleDuration (ep_PTS k) pp hp\<rparr>])"
      using True by (simp add: WriteSample_def option_list_def)
    then show ?thesis
      using True pump_loop_seen [of "p\<lparr>p_seenKeyframe := True\<rparr>" ks "[]"] by (simp add: samples_of_def)
  next
    case False
    with Cons show ?thesis by (simp add: WriteSample_def option_list_def)
  qed
qed (simp add: samples_of_def)

lemma DefaultSampleDuration_pos: "0 < DefaultSampleDuration"
  by (simp add: DefaultSampleDuration_def go_simps)

lemma SampleDuration_pos: "0 < SampleDuration pts prev hp"
  by (simp add: SampleDuration_def Let_def DefaultSampleDuration_pos)

lemma durations_pos: "list_all (\<lambda>d. 0 < d) (durations ks hp pp)"
  by (induction ks arbitrary: hp pp) (simp_all add: SampleDuration_pos)

definition clamp01 :: "rat \<Rightarrow> rat" where "clamp01 x = (if x < 0 then 0 else if x > 1 then 1 else x)"

fun losses :: "stats_entry list \<Rightarrow> rat list" where
  "losses [] = []"
| "losses (OtherStats # es) = losses es"
| "losses (RemoteInbound l r # es) = clamp01 l # losses es"

lemma stats_loop_valid: "0 \<le> st_LossFraction s \<Longrightarrow> st_Valid s \<Longrightarrow>
  st_Valid (stats_loop es s) \<and> st_LossFraction (stats_loop es s) = fold max (losses es) (st_LossFraction s)"
  by (induction es s rule: stats_loop.induct)
    (auto simp: Let_def clamp01_def max_def split: if_splits)

lemma losses_range: "x \<in> set (losses es) \<Longrightarrow> 0 \<le> x \<and> x \<le> 1"
  by (induction es rule: losses.induct) (auto simp: clamp01_def)

lemma stats_loop_invalid: "\<not> st_Valid s \<Longrightarrow> st_LossFraction s = 0 \<Longrightarrow>
  st_Valid (stats_loop es s) = (losses es \<noteq> []) \<and> st_LossFraction (stats_loop es s) = fold max (losses es) 0"
proof (induction es arbitrary: s)
  case (Cons e es)
  then show ?case
  proof (cases e)
    case (RemoteInbound l r)
    have "0 \<le> clamp01 l" by (simp add: clamp01_def)
    with RemoteInbound Cons.prems show ?thesis
      using stats_loop_valid [of "\<lparr>st_LossFraction = clamp01 l, st_RTT = trunc (f64 (r * of_int Second)), st_Valid = True\<rparr>" es]
      by (auto simp: Let_def clamp01_def max_absorb1)
  qed simp
qed simp

lemma raw_members_member:
  assumes "int_json v" "t = CHR '','' # r \<or> t = CHR ''}'' # r"
  shows "raw_members (Suc n) (quote k @ CHR '':'' # json_print v @ t) =
    (k, json_print v) # (if hd t = CHR '','' then raw_members n r else [])"
proof -
  have ne: "num_end t" using assms(2) by auto
  obtain c r' where c: "json_print v = c # r'" "value_start c" using json_print_hd [OF assms(1)] by blast
  have s: "skip_ws (json_print v @ t) = json_print v @ t" using c skip_ws_start [of c "r' @ t"] by simp
  have p: "parse_value (2 * length (json_print v @ t) + 1) (json_print v @ t) = Some (v, t)"
    by (rule parse_value_print [OF assms(1) ne]) simp
  have st: "skip_ws t = t" using assms(2) by auto
  have q: "skip_ws (quote k @ u) = quote k @ u" for u by (simp add: quote_def skip_ws_def is_ws_def)
  have colon: "skip_ws (CHR '':'' # u) = CHR '':'' # u" for u by (simp add: skip_ws_def is_ws_def)
  have p': "parse_value (Suc (2 * length (json_print v) + 2 * length t)) (json_print v @ t) = Some (v, t)"
    using p by (simp del: parse_value.simps)
  show ?thesis unfolding raw_members.simps q using assms(2) st
    by (auto simp: quote_def parse_str_quote colon s p' Let_def simp del: parse_value.simps)
qed

lemma raw_members_comma: "int_json v \<Longrightarrow>
  raw_members (Suc n) (quote k @ CHR '':'' # json_print v @ CHR '','' # r) = (k, json_print v) # raw_members n r"
  using raw_members_member [of v "CHR '','' # r" r n k] by simp

lemma raw_members_last: "int_json v \<Longrightarrow>
  raw_members (Suc n) (quote k @ CHR '':'' # json_print v @ CHR ''}'' # r) = [(k, json_print v)]"
  using raw_members_member [of v "CHR ''}'' # r" r n k] by simp

lemma compact_plain: "list_all (\<lambda>c. \<not> is_ws c \<and> c \<noteq> CHR 0x22) s \<Longrightarrow> compact s = s"
  by (induction s) auto

lemma compact_Itoa: "compact (Itoa n) = Itoa n"
proof (rule compact_plain)
  have d: "\<not> is_ws c \<and> c \<noteq> CHR 0x22" if "is_digit c" for c using that by (auto simp: is_ws_def is_digit_def)
  show "list_all (\<lambda>c. \<not> is_ws c \<and> c \<noteq> CHR 0x22) (Itoa n)"
    by (auto simp: Itoa_def list_all_iff is_ws_def dest!: nat_digits_all d)
qed

section \<open>Concrete runs\<close>

definition ex_frame :: "32 word \<Rightarrow> DataChannelMessage" where
  "ex_frame n = \<lparr>dcm_IsString = False, dcm_Data = EncodeInputCommand (neutral_command\<lparr>ic_Seq := n\<rparr>)\<rparr>"

definition ex_cmd :: "32 word \<Rightarrow> InputCommand" where
  "ex_cmd n = neutral_command\<lparr>ic_Seq := n, ic_Timestamp := Some 1\<rparr>"

lemma ex_decode: "DecodeInputCommand (dcm_Data (ex_frame n)) 1 = Inr (ex_cmd n)"
proof -
  have "int16ToAxis (axisToInt16 0) = 0" by code_simp
  then show ?thesis by (simp add: ex_frame_def ex_cmd_def DecodeInputCommand_def EncodeInputCommand_def
      InputWireSize_def neutral_command_def get_put_uint32 [of _ "[]", simplified])
qed

definition ex_peer :: Peer where "ex_peer = fresh_peer rtc_DefaultConfig"

lemma ex_NewPeer: "NewPeer (\<lambda>_. False) rtc_DefaultConfig = Inr ex_peer"
  by code_simp

definition ex_peer7 :: Peer where "ex_peer7 = fst (onInputMessage 1 (ex_frame 7) ex_peer)"

lemma ex_input7: "onInputMessage 1 (ex_frame 7) ex_peer = (ex_peer7, Some (ex_cmd 7))"
  by (simp add: ex_peer7_def onInputMessage_def ex_decode [simplified] ex_decode Let_def)
    (simp add: ex_frame_def ex_peer_def fresh_peer_def seq_accept_def)

lemma ex_peer7_sel [simp]: "p_close ex_peer7 = CloseNotCalled" "p_haveInputSeq ex_peer7" "p_lastInputSeq ex_peer7 = 7"
proof -
  have e: "ex_peer7 = (seq_record (ex_cmd 7) ex_peer)\<lparr>p_commands := send_drop_oldest (ex_cmd 7) (p_commands ex_peer)\<rparr>"
    using onInputMessage_Some [OF ex_input7] by blast
  show "p_close ex_peer7 = CloseNotCalled" "p_haveInputSeq ex_peer7" "p_lastInputSeq ex_peer7 = 7"
    unfolding e by (simp_all add: seq_record_def ex_cmd_def ex_peer_def fresh_peer_def neutral_command_def)
qed

lemma ex_input5: "onInputMessage 1 (ex_frame 5) ex_peer7 = (ex_peer7, None)"
proof -
  have "\<not> seq_accept (ex_cmd 5) ex_peer7" "\<not> dcm_IsString (ex_frame 5)"
    by (simp_all add: seq_accept_def ex_cmd_def ex_frame_def neutral_command_def)
  then show ?thesis by (simp add: onInputMessage_def ex_decode)
qed

definition ex_peer_closed :: Peer where
  "ex_peer_closed = the (Close_step (the (Close_step (the (Close_step ex_peer7)))))"

lemma ex_close: "peer_step\<^sup>*\<^sup>* (ex_peer7, acc, tk) (ex_peer_closed, acc, tk)"
proof -
  have st: "peer_step (p, acc, tk) (the (Close_step p), acc, tk)" if "p_close p \<noteq> CloseDone" for p
    using that by (intro peer_step.close) (cases "p_close p", simp_all)
  let ?p1 = "the (Close_step ex_peer7)" and ?p2 = "the (Close_step (the (Close_step ex_peer7)))"
  have "peer_step (ex_peer7, acc, tk) (?p1, acc, tk)" by (rule st) simp
  moreover have "peer_step (?p1, acc, tk) (?p2, acc, tk)" by (rule st) simp
  moreover have "peer_step (?p2, acc, tk) (ex_peer_closed, acc, tk)" unfolding ex_peer_closed_def by (rule st) simp
  ultimately show ?thesis by (meson converse_rtranclp_into_rtranclp r_into_rtranclp)
qed

lemma ex_peer_run: "peer_step\<^sup>*\<^sup>* (ex_peer, [], []) (ex_peer_closed, [ex_cmd 7], [])"
proof -
  have "peer_step (ex_peer, [], []) (ex_peer7, [ex_cmd 7], [])" using peer_step.input [OF ex_input7, of "[]" "[]"] by simp
  moreover have "peer_step (ex_peer7, [ex_cmd 7], []) (ex_peer7, [ex_cmd 7], [])" by (rule peer_step.input_ignored [OF ex_input5])
  ultimately show ?thesis using ex_close [of "[ex_cmd 7]" "[]"] by (meson converse_rtranclp_into_rtranclp)
qed

section \<open>Properties\<close>

text \<open>
  C13. Only fresh commands pass. Whatever the network delivers and however callbacks, consumer and
  \<^verbatim>\<open>Close\<close> interleave, the non-zero sequence numbers of accepted commands are strictly increasing
  and the consumer sees a subsequence of the accepted commands in their order.
\<close>

theorem input_seq_monotone:
  assumes "NewPeer fails cfg = Inr p0" "peer_step\<^sup>*\<^sup>* (p0, [], []) (p, acc, taken)"
  shows "sorted_wrt (<) (filter (\<lambda>s. s \<noteq> 0) (map ic_Seq acc))
    \<and> subseq (taken @ ch_buf (p_commands p)) acc"
  using peer_reach_inv [OF assms] by (simp add: peer_inv_def gate_inv_def seqs_def)

theorem input_seq_monotone_witness:
  "peer_step\<^sup>*\<^sup>* (ex_peer, [], []) (ex_peer_closed, [ex_cmd 7], [])
   \<and> sorted_wrt (<) (filter (\<lambda>s. s \<noteq> 0) (map ic_Seq [ex_cmd 7]))
   \<and> subseq ([] @ ch_buf (p_commands ex_peer_closed)) [ex_cmd 7]"
  using ex_peer_run input_seq_monotone [OF ex_NewPeer ex_peer_run] by simp

text \<open>
  C17. The owned channels are used safely. In every interleaving nothing is sent on a closed
  channel, no channel is closed twice, the buffers stay within their capacity, and once \<^verbatim>\<open>Close\<close> has
  finished both channels are closed.
\<close>

theorem peer_channels_safe:
  assumes "NewPeer fails cfg = Inr p0" "peer_step\<^sup>*\<^sup>* (p0, [], []) (p, acc, taken)"
  shows "chan_ok (p_commands p) \<and> chan_ok (p_connState p)
    \<and> ch_closed (p_connState p) = (p_close p = CloseDone)
    \<and> (ch_closed (p_connState p) \<longrightarrow> ch_closed (p_commands p) \<and> p_closed p)"
  using peer_reach_inv [OF assms] by (auto simp: peer_inv_def chans_inv_def)

theorem peer_channels_safe_witness:
  "chan_ok (p_commands ex_peer_closed) \<and> chan_ok (p_connState ex_peer_closed) \<and> p_close ex_peer_closed = CloseDone
   \<and> ch_closed (p_commands ex_peer_closed)"
proof -
  have "p_close ex_peer_closed = CloseDone" by (simp add: ex_peer_closed_def)
  then show ?thesis using peer_channels_safe [OF ex_NewPeer ex_peer_run] by simp
qed

text \<open>
  The video track starts on a keyframe and then carries everything. The pump writes exactly the
  packets from the first keyframe on, in order, each with a positive duration.
\<close>

theorem pump_starts_on_keyframe:
  assumes "\<not> p_seenKeyframe p"
  shows "case PumpPackets (\<lambda>_. False) (map PumpPacket ks) p of (p', out, r) \<Rightarrow>
    map s_Data out = map ep_Data (dropWhile (\<lambda>k. \<not> ep_IsKeyframe k) ks)
    \<and> list_all (\<lambda>s. 0 < s_Duration s) out"
proof -
  let ?ks = "dropWhile (\<lambda>k. \<not> ep_IsKeyframe k) ks" and ?tk = "takeWhile (\<lambda>k. \<not> ep_IsKeyframe k) ks"
  let ?ds = "drop (length ?tk) (durations ks False 0)"
  have len: "length ?ds = length ?ks"
    using arg_cong [OF takeWhile_dropWhile_id [of "\<lambda>k. \<not> ep_IsKeyframe k" ks], of length]
    unfolding length_append by simp
  have "list_all (\<lambda>d. 0 < d) ?ds" using durations_pos [of ks False 0] by (auto simp: list_all_iff dest: in_set_dropD)
  then have "list_all (\<lambda>s. 0 < s_Duration s) (samples_of ?ks ?ds)"
    by (auto simp: samples_of_def list_all_iff dest: set_zip_rightD)
  moreover have "map s_Data (samples_of ?ks ?ds) = map ep_Data ?ks"
    using len by (simp add: samples_of_def comp_def case_prod_unfold flip: map_map [of ep_Data fst, unfolded comp_def])
  ultimately show ?thesis using pump_loop_wait [OF assms, of ks False 0 "[]"]
    by (simp add: PumpPackets_def case_prod_unfold)
qed

theorem pump_starts_on_keyframe_witness:
  "map s_Data (fst (snd (PumpPackets (\<lambda>_. False) (map PumpPacket
     [\<lparr>ep_Data = [1], ep_PTS = 0, ep_IsKeyframe = False\<rparr>, \<lparr>ep_Data = [2], ep_PTS = 5, ep_IsKeyframe = True\<rparr>,
      \<lparr>ep_Data = [3], ep_PTS = 9, ep_IsKeyframe = False\<rparr>]) ex_peer))) = [[2], [3]]"
  using pump_starts_on_keyframe [of ex_peer "[\<lparr>ep_Data = [1], ep_PTS = 0, ep_IsKeyframe = False\<rparr>,
      \<lparr>ep_Data = [2], ep_PTS = 5, ep_IsKeyframe = True\<rparr>, \<lparr>ep_Data = [3], ep_PTS = 9, ep_IsKeyframe = False\<rparr>]"]
  by (simp add: ex_peer_def fresh_peer_def case_prod_unfold)

text \<open>
  The latency ping is echoed. A ping with any timestamp is answered on the control channel by
  the same message with its kind replaced, and is not handed to the control callback.
\<close>

theorem ping_echo:
  assumes "p_control p"
  shows "handleControlMessage (json_print (JObj [(''kind'', JStr ''ping''), (''ts'', JNum (Itoa n))])) p =
    [SendText (json_print (JObj [(''kind'', JStr ''pong''), (''ts'', JNum (Itoa n))]))]"
proof -
  let ?m = "json_print (JObj [(''kind'', JStr ''ping''), (''ts'', JNum (Itoa n))])"
  have m: "?m = CHR ''{'' # quote ''kind'' @ CHR '':'' # json_print (JStr ''ping'') @ CHR '','' #
      (quote ''ts'' @ CHR '':'' # json_print (JNum (Itoa n)) @ CHR ''}'' # [])" by simp
  have ij: "int_json (JObj [(''kind'', JStr ''ping''), (''ts'', JNum (Itoa n))])" "int_json (JNum (Itoa n))" by auto
  obtain k where k: "length ?m = Suc (Suc k)" by (cases "length ?m"; cases "length ?m - 1") (auto simp: quote_def)
  have tl: "tl (skip_ws ?m) = tl ?m" by (simp add: skip_ws_def is_ws_def)
  have raw: "json_raw_members ?m = [(''kind'', json_print (JStr ''ping'')), (''ts'', json_print (JNum (Itoa n)))]"
    unfolding json_raw_members_def k tl unfolding m list.sel
    by (simp only: raw_members_comma raw_members_last [OF ij(2)] int_json.simps)
  have "pong ?m = json_print (JObj [(''kind'', JStr ''pong''), (''ts'', JNum (Itoa n))])"
    unfolding pong_def raw by (simp add: marshal_raw_map_def compact_Itoa less_char_def)
      (simp add: quote_def escape_str.simps(2) line_sep_def escape_char_def is_ws_def)
  then show ?thesis using assms json_parse_print [OF ij(1)]
    by (simp add: handleControlMessage_def SendControl_def get_field_def field_values_def to_lower_def to_lower_char_def del: json_print.simps)
qed

theorem ping_echo_witness:
  "handleControlMessage (json_print (JObj [(''kind'', JStr ''ping''), (''ts'', JNum (Itoa 42))])) ex_peer =
    [SendText (json_print (JObj [(''kind'', JStr ''pong''), (''ts'', JNum (Itoa 42))]))]"
  by (rule ping_echo) (simp add: ex_peer_def fresh_peer_def)

text \<open>
  Statistics show the worst path. The loss is the largest one any remote inbound stream reports,
  clamped to the unit interval, in whatever order the report is iterated; without such a stream the
  sample is invalid.
\<close>

theorem stats_worst_path:
  "(let s = sampleFromReport report; ls = map clamp01 (concat (map (\<lambda>e. case e of RemoteInbound l r \<Rightarrow> [l] | OtherStats \<Rightarrow> []) report))
    in st_Valid s = (ls \<noteq> []) \<and> st_LossFraction s = fold max ls 0
       \<and> 0 \<le> st_LossFraction s \<and> st_LossFraction s \<le> 1)"
proof -
  have ls: "map clamp01 (concat (map (\<lambda>e. case e of RemoteInbound l r \<Rightarrow> [l] | OtherStats \<Rightarrow> []) report)) = losses report"
    by (induction report rule: losses.induct) simp_all
  have "0 \<le> fold max xs a \<and> fold max xs a \<le> 1" if "\<forall>x \<in> set xs. 0 \<le> x \<and> x \<le> 1" "0 \<le> a" "a \<le> 1"
    for xs and a :: rat using that by (induction xs arbitrary: a) (auto simp: max_def)
  from this [of "losses report" 0] losses_range show ?thesis
    using stats_loop_invalid [of "\<lparr>st_LossFraction = 0, st_RTT = 0, st_Valid = False\<rparr>" report]
    by (simp add: ls Let_def sampleFromReport_def)
qed

text \<open>
  A constructor that fails leaks nothing. The error names the first failing call in the order the
  constructor makes them, and a peer connection that was opened by then has been closed.
\<close>

theorem new_peer_failure:
  "(let calls = [RegisterH264, RegisterRTX, RegisterOpus, RegisterInterceptors, NewPeerConnection,
        NewVideoTrack, AddVideoTrack] @ (if pcfg_EnableAudio cfg then [NewAudioTrack, AddAudioTrack] else [])
        @ [CreateInputChannel, CreateControlChannel]
    in case NewPeer fails cfg of
         Inr p \<Rightarrow> first_failure fails calls = None \<and> p_video p \<and> p_control p \<and> p_audio p = pcfg_EnableAudio cfg
       | Inl e \<Rightarrow> first_failure fails calls = Some (npe_call e)
           \<and> npe_opened e = (npe_call e \<notin> {RegisterH264, RegisterRTX, RegisterOpus, RegisterInterceptors, NewPeerConnection})
           \<and> npe_closed e = npe_opened e)"
  by (auto simp: NewPeer_def Let_def setupVideoTrack_def setupAudioTrack_def setupDataChannels_def
      attachControlChannel_def split: option.split sum.split)

text \<open>
  Session descriptions survive manual signalling, for every JSON codec of descriptions that
  decodes what it has encoded.
\<close>

theorem sdp_roundtrip:
  assumes "marshal desc = Some raw" "unmarshal raw = Some desc"
  shows "\<exists>s. EncodeSDP marshal desc = Inr s \<and> DecodeSDP unmarshal s = Inr desc
    \<and> set s \<subseteq> set std_alphabet \<union> {CHR ''=''}"
  using assms b64_roundtrip [of std_alphabet True raw] b64_encode_chars [of std_alphabet True raw]
  by (simp add: EncodeSDP_def DecodeSDP_def)

theorem sdp_roundtrip_witness:
  "\<exists>s. EncodeSDP (\<lambda>d. Some (json_print (JStr d))) ''v=0'' = Inr s
     \<and> DecodeSDP (\<lambda>r. case json_parse r of Some (JStr d) \<Rightarrow> Some d | _ \<Rightarrow> None) s = Inr ''v=0''
     \<and> set s \<subseteq> set std_alphabet \<union> {CHR ''=''}"
  by (rule sdp_roundtrip [of _ _ "json_print (JStr ''v=0'')"]) (simp_all only: json_parse_print int_json.simps json.case option.case)

end
