(* ===== verification/AnnexB.thy ===== *)
theory AnnexB
  imports Core "HOL-Library.Sublist"
begin

unbundle bit_operations_syntax

text \<open>
  The H.264 Annex-B splitter (\<^verbatim>\<open>playgate-host/internal/encoder/ffmpeg/annexb.go\<close>): start codes, NAL
  units, and the streaming grouping of NAL units into access units. Offsets are natural numbers and
  the pair \<^verbatim>\<open>(-1, 0)\<close> of \<^verbatim>\<open>findStartCode\<close> is \<^const>\<open>None\<close>.
\<close>

section \<open>NAL units\<close>

definition nalTypeNonIDR :: byte where "nalTypeNonIDR = 1"
definition nalTypeIDR :: byte where "nalTypeIDR = 5"
definition nalTypeAUD :: byte where "nalTypeAUD = 9"

lemmas nal_types = nalTypeNonIDR_def nalTypeIDR_def nalTypeAUD_def

record nalUnit =
  n_start :: nat
  n_end :: nat
  n_type :: byte
  n_firstSlice :: bool

definition isVCL :: "nalUnit \<Rightarrow> bool" where
  "isVCL n \<longleftrightarrow> n_type n = nalTypeNonIDR \<or> n_type n = nalTypeIDR"

definition startCodeLen :: "byte list \<Rightarrow> nat \<Rightarrow> nat" where
  "startCodeLen b i =
     (if i + 3 \<le> length b \<and> b ! i = 0 \<and> b ! (i + 1) = 0 \<and> b ! (i + 2) = 1 then 3
      else if i + 4 \<le> length b \<and> b ! i = 0 \<and> b ! (i + 1) = 0 \<and> b ! (i + 2) = 0 \<and> b ! (i + 3) = 1 then 4
      else 0)"

function findStartCode :: "byte list \<Rightarrow> nat \<Rightarrow> (nat \<times> nat) option" where
  "findStartCode b i =
     (if i + 3 \<le> length b then
        (let l = startCodeLen b i in if l \<noteq> 0 then Some (i, l) else findStartCode b (i + 1))
      else None)"
  by pat_completeness auto

termination by (relation "measure (\<lambda>(b, i). length b - i)") auto

declare findStartCode.simps [simp del]

text \<open>The NAL unit of the start code of length \<open>scLen\<close> at \<open>start\<close> that ends before \<open>end\<close>, if it has a payload.\<close>

definition mk_nal :: "byte list \<Rightarrow> nat \<Rightarrow> nat \<Rightarrow> nat \<Rightarrow> nalUnit list" where
  "mk_nal buf start scLen end =
     (let payloadStart = start + scLen in
      if payloadStart < end then
        (let t = (if payloadStart < length buf then (buf ! payloadStart) AND 0x1f else 0);
             sliceStart = payloadStart + 1;
             fs = (t = nalTypeNonIDR \<or> t = nalTypeIDR) \<and> sliceStart < end
                    \<and> (buf ! sliceStart) AND 0x80 \<noteq> 0
         in [\<lparr>n_start = start, n_end = end, n_type = t, n_firstSlice = fs\<rparr>])
      else [])"

text \<open>A start code that is found lies at or after the place the search starts from.\<close>

lemma findStartCode_Some:
  "findStartCode b i = Some (j, l) \<Longrightarrow>
   i \<le> j \<and> j + 3 \<le> length b \<and> l = startCodeLen b j \<and> l \<noteq> 0 \<and> (\<forall>k. i \<le> k \<and> k < j \<longrightarrow> startCodeLen b k = 0)"
proof (induction b i rule: findStartCode.induct)
  case (1 b i)
  from 1(2) have a: "i + 3 \<le> length b" by (subst (asm) findStartCode.simps) (simp split: if_splits)
  show ?case
  proof (cases "startCodeLen b i = 0")
    case True
    with 1(2) a have "findStartCode b (i + 1) = Some (j, l)" by (subst (asm) findStartCode.simps) simp
    from 1(1) [OF a refl _ this] True show ?thesis by (auto simp: Suc_le_eq) (metis le_neq_implies_less)
  next
    case False
    with 1(2) a have "j = i" "l = startCodeLen b i" by (subst (asm) findStartCode.simps, simp)+
    with False a show ?thesis by auto
  qed
qed

function nalus_from :: "byte list \<Rightarrow> (nat \<times> nat) option \<Rightarrow> nalUnit list" where
  "nalus_from buf None = []"
| "nalus_from buf (Some (start, scLen)) =
     (if scLen = 0 \<or> length buf < start + 3 then []
      else (let next = findStartCode buf (start + scLen);
                end = (case next of None \<Rightarrow> length buf | Some (j, _) \<Rightarrow> j)
            in mk_nal buf start scLen end @ nalus_from buf next))"
  by pat_completeness auto

termination
proof (relation "measure (\<lambda>(b, p). case p of None \<Rightarrow> 0 | Some (s, l) \<Rightarrow> Suc (length b) - s)")
  fix buf :: "byte list" and start scLen :: nat and x e
  assume a: "\<not> (scLen = 0 \<or> length buf < start + 3)" and x: "x = findStartCode buf (start + scLen)"
  show "((buf, x), buf, Some (start, scLen)) \<in> measure (\<lambda>(b, p). case p of None \<Rightarrow> 0 | Some (s, l) \<Rightarrow> Suc (length b) - s)"
    using a x by (auto split: option.split dest!: findStartCode_Some)
qed simp

text \<open>
  The guard of \<^const>\<open>nalus_from\<close> only serves termination: a start code that was found is three or
  four bytes long and lies inside of the buffer.
\<close>

definition splitNALUs :: "byte list \<Rightarrow> nalUnit list" where
  "splitNALUs buf = nalus_from buf (findStartCode buf 0)"

section \<open>Access units\<close>

record accessUnit =
  au_data :: "byte list"
  au_isKeyframe :: bool

record drain_state =
  d_aus :: "accessUnit list"
  d_auStart :: nat
  d_seenVCL :: bool
  d_auHasIDR :: bool
  d_emittedEnd :: nat

definition byte_slice :: "byte list \<Rightarrow> nat \<Rightarrow> nat \<Rightarrow> byte list" where
  "byte_slice b i j = take (j - i) (drop i b)"

definition startsNewAU :: "nalUnit \<Rightarrow> bool" where
  "startsNewAU n \<longleftrightarrow> n_type n = nalTypeAUD \<or> isVCL n \<and> n_firstSlice n"

definition drain_nal :: "byte list \<Rightarrow> nalUnit \<Rightarrow> drain_state \<Rightarrow> drain_state" where
  "drain_nal buf n d =
     (let d1 = (if d_seenVCL d \<and> startsNewAU n
                then \<lparr>d_aus = d_aus d @ [\<lparr>au_data = byte_slice buf (d_auStart d) (n_start n), au_isKeyframe = d_auHasIDR d\<rparr>],
                      d_auStart = n_start n, d_seenVCL = False, d_auHasIDR = False, d_emittedEnd = n_start n\<rparr>
                else d)
      in if isVCL n then d1\<lparr>d_seenVCL := True, d_auHasIDR := d_auHasIDR d1 \<or> n_type n = nalTypeIDR\<rparr> else d1)"

definition drain_init :: "nat \<Rightarrow> drain_state" where
  "drain_init s = \<lparr>d_aus = [], d_auStart = s, d_seenVCL = False, d_auHasIDR = False, d_emittedEnd = 0\<rparr>"

text \<open>\<^verbatim>\<open>AnnexBSplitter\<close> is its buffer; \<^verbatim>\<open>drain\<close> returns the new buffer and the access units.\<close>

definition drain :: "bool \<Rightarrow> byte list \<Rightarrow> byte list \<times> accessUnit list" where
  "drain final buf =
     (let nalus = splitNALUs buf in
      if nalus = [] then (buf, [])
      else
        (let d = fold (drain_nal buf) nalus (drain_init (n_start (hd nalus)))
         in if final then
              ([], d_aus d @ (if d_auStart d < length buf
                              then [\<lparr>au_data = drop (d_auStart d) buf, au_isKeyframe = d_auHasIDR d\<rparr>] else []))
            else (if d_emittedEnd d > 0 then drop (d_emittedEnd d) buf else buf, d_aus d)))"

definition Push :: "byte list \<Rightarrow> byte list \<Rightarrow> byte list \<times> accessUnit list" where
  "Push chunk buf = drain False (buf @ chunk)"

definition Flush :: "byte list \<Rightarrow> byte list \<times> accessUnit list" where
  "Flush buf = drain True buf"

definition NewAnnexBSplitter :: "byte list" where
  "NewAnnexBSplitter = []"

text \<open>A whole stream: push every chunk, then flush.\<close>

fun push_all :: "byte list list \<Rightarrow> byte list \<Rightarrow> byte list \<times> accessUnit list" where
  "push_all [] buf = (buf, [])"
| "push_all (c # cs) buf =
     (let (b1, a1) = Push c buf; (b2, a2) = push_all cs b1 in (b2, a1 @ a2))"

definition split_stream :: "byte list list \<Rightarrow> accessUnit list" where
  "split_stream chunks = (let (b, a) = push_all chunks NewAnnexBSplitter in a @ snd (Flush b))"

end
