(* ===== verification/Encoder.thy ===== *)
theory Encoder
  imports AnnexB Strconv Json
begin

text \<open>
  The ffmpeg encoder (\<^verbatim>\<open>playgate-host/internal/encoder/ffmpeg\<close>: \<^verbatim>\<open>args.go\<close>, \<^verbatim>\<open>codec.go\<close>, \<^verbatim>\<open>detect.go\<close>,
  \<^verbatim>\<open>encoder.go\<close>): the command line, the choice and detection of codecs, and the module that feeds raw
  frames to a subprocess and turns its output into packets. The subprocess is what it writes, when
  it exits and with which error.
\<close>

section \<open>Codecs and command line\<close>

datatype Codec = LibX264 | V4L2M2M | VAAPI string | NVENC

definition CodecLibX264 :: string where "CodecLibX264 = ''libx264''"
definition CodecV4L2M2M :: string where "CodecV4L2M2M = ''h264_v4l2m2m''"
definition CodecVAAPI :: string where "CodecVAAPI = ''h264_vaapi''"
definition CodecNVENC :: string where "CodecNVENC = ''h264_nvenc''"
definition DefaultVAAPIDevice :: string where "DefaultVAAPIDevice = ''/dev/dri/renderD128''"

fun Codec_Name :: "Codec \<Rightarrow> string" where
  "Codec_Name LibX264 = ''libx264''"
| "Codec_Name V4L2M2M = CodecV4L2M2M"
| "Codec_Name (VAAPI d) = CodecVAAPI"
| "Codec_Name NVENC = CodecNVENC"

definition CodecFromName :: "string \<Rightarrow> string \<Rightarrow> string + Codec" where
  "CodecFromName name vaapiDevice =
     (if name = [] \<or> name = CodecLibX264 then Inr LibX264
      else if name = CodecV4L2M2M then Inr V4L2M2M
      else if name = CodecVAAPI then
        Inr (VAAPI (if vaapiDevice = [] then DefaultVAAPIDevice else vaapiDevice))
      else if name = CodecNVENC then Inr NVENC
      else Inl name)"

record Options =
  o_FFmpegPath :: string
  o_Width :: int
  o_Height :: int
  o_FPS :: int
  o_InputFormat :: PixelFormat
  o_Bitrate :: int
  o_GOPSize :: int
  o_Preset :: string
  o_Tune :: string
  o_Codec :: "Codec option"

definition DefaultOptions :: "int \<Rightarrow> int \<Rightarrow> int \<Rightarrow> PixelFormat \<Rightarrow> Options" where
  "DefaultOptions width height fps fmt =
     \<lparr>o_FFmpegPath = ''ffmpeg'', o_Width = width, o_Height = height, o_FPS = fps, o_InputFormat = fmt,
      o_Bitrate = 6000000, o_GOPSize = 30, o_Preset = ''ultrafast'', o_Tune = ''zerolatency'',
      o_Codec = Some LibX264\<rparr>"

definition Options_normalise :: "Options \<Rightarrow> Options" where
  "Options_normalise opt =
     opt\<lparr>o_FFmpegPath := (if o_FFmpegPath opt = [] then ''ffmpeg'' else o_FFmpegPath opt),
         o_FPS := (if o_FPS opt \<le> 0 then 30 else o_FPS opt),
         o_Bitrate := (if o_Bitrate opt \<le> 0 then 6000000 else o_Bitrate opt),
         o_GOPSize := (if o_GOPSize opt \<le> 0 then 30 else o_GOPSize opt),
         o_Preset := (if o_Preset opt = [] then ''ultrafast'' else o_Preset opt),
         o_Tune := (if o_Tune opt = [] then ''zerolatency'' else o_Tune opt),
         o_Codec := (case o_Codec opt of None \<Rightarrow> Some LibX264 | Some c \<Rightarrow> Some c)\<rparr>"

datatype enc_error = BadFrameSize int int | UnsupportedInput PixelFormat

definition Options_Validate :: "Options \<Rightarrow> enc_error option" where
  "Options_Validate opt =
     (if o_Width opt \<le> 0 \<or> o_Height opt \<le> 0 then Some (BadFrameSize (o_Width opt) (o_Height opt))
      else case o_InputFormat opt of
             PixelFormatYUYV \<Rightarrow> None
           | PixelFormatNV12 \<Rightarrow> None
           | PixelFormatMJPEG \<Rightarrow> None
           | PixelFormatUnknown \<Rightarrow> Some (UnsupportedInput (o_InputFormat opt)))"

definition rateControlArgs :: "Options \<Rightarrow> string list" where
  "rateControlArgs opt =
     [''-b:v'', Itoa (o_Bitrate opt), ''-maxrate'', Itoa (o_Bitrate opt),
      ''-bufsize'', Itoa (go_div (o_Bitrate opt) 2)]"

definition gopArgs :: "Options \<Rightarrow> string list" where
  "gopArgs opt = [''-g'', Itoa (o_GOPSize opt), ''-keyint_min'', Itoa (o_GOPSize opt), ''-bf'', ''0'']"

definition LibX264_OutputArgs :: "Options \<Rightarrow> string list" where
  "LibX264_OutputArgs opt =
     [''-c:v'', CodecLibX264, ''-preset'', o_Preset opt, ''-tune'', o_Tune opt]
     @ rateControlArgs opt @ gopArgs opt @ [''-pix_fmt'', ''yuv420p'', ''-slices'', ''1'']"

definition V4L2M2M_OutputArgs :: "Options \<Rightarrow> string list" where
  "V4L2M2M_OutputArgs opt =
     [''-c:v'', CodecV4L2M2M] @ rateControlArgs opt @ gopArgs opt @ [''-pix_fmt'', ''yuv420p'']"

definition VAAPI_OutputArgs :: "Options \<Rightarrow> string list" where
  "VAAPI_OutputArgs opt =
     [''-c:v'', CodecVAAPI] @ rateControlArgs opt @ gopArgs opt @ [''-rc_mode'', ''CBR'']"

definition NVENC_OutputArgs :: "Options \<Rightarrow> string list" where
  "NVENC_OutputArgs opt =
     [''-c:v'', CodecNVENC, ''-preset'', ''p1'', ''-tune'', ''ll'', ''-rc'', ''cbr'', ''-zerolatency'', ''1'',
      ''-delay'', ''0''] @ rateControlArgs opt @ gopArgs opt @ [''-pix_fmt'', ''yuv420p'']"

lemmas codec_args = LibX264_OutputArgs_def V4L2M2M_OutputArgs_def VAAPI_OutputArgs_def NVENC_OutputArgs_def

text \<open>The method of the codec interface.\<close>

fun OutputArgs :: "Codec \<Rightarrow> Options \<Rightarrow> string list" where
  "OutputArgs LibX264 opt = LibX264_OutputArgs opt"
| "OutputArgs V4L2M2M opt = V4L2M2M_OutputArgs opt"
| "OutputArgs (VAAPI d) opt = VAAPI_OutputArgs opt"
| "OutputArgs NVENC opt = NVENC_OutputArgs opt"

text \<open>Only the VA-API codec implements the hardware hooks.\<close>

fun InitArgs :: "Codec \<Rightarrow> string list" where
  "InitArgs (VAAPI d) = [''-vaapi_device'', if d = [] then DefaultVAAPIDevice else d]"
| "InitArgs _ = []"

fun FilterArgs :: "Codec \<Rightarrow> string list" where
  "FilterArgs (VAAPI d) = [''-vf'', ''format=nv12,hwupload'']"
| "FilterArgs _ = []"

definition video_size :: "Options \<Rightarrow> string" where
  "video_size opt = Itoa (o_Width opt) @ ''x'' @ Itoa (o_Height opt)"

fun inputArgs_for :: "PixelFormat \<Rightarrow> Options \<Rightarrow> enc_error + string list" where
  "inputArgs_for PixelFormatYUYV opt =
     Inr [''-f'', ''rawvideo'', ''-pixel_format'', ''yuyv422'', ''-video_size'', video_size opt,
          ''-framerate'', Itoa (o_FPS opt), ''-i'', ''pipe:0'']"
| "inputArgs_for PixelFormatNV12 opt =
     Inr [''-f'', ''rawvideo'', ''-pixel_format'', ''nv12'', ''-video_size'', video_size opt,
          ''-framerate'', Itoa (o_FPS opt), ''-i'', ''pipe:0'']"
| "inputArgs_for PixelFormatMJPEG opt =
     Inr [''-f'', ''mjpeg'', ''-framerate'', Itoa (o_FPS opt), ''-i'', ''pipe:0'']"
| "inputArgs_for PixelFormatUnknown opt = Inl (UnsupportedInput PixelFormatUnknown)"

definition inputArgs :: "Options \<Rightarrow> enc_error + string list" where
  "inputArgs opt = inputArgs_for (o_InputFormat opt) opt"

definition BuildArgs :: "Options \<Rightarrow> enc_error + string list" where
  "BuildArgs opt0 =
     (let opt = Options_normalise opt0; codec = the (o_Codec opt) in
      case Options_Validate opt of
        Some err \<Rightarrow> Inl err
      | None \<Rightarrow>
          (case inputArgs opt of
             Inl err \<Rightarrow> Inl err
           | Inr inp \<Rightarrow>
               Inr ([''-hide_banner'', ''-loglevel'', ''error'', ''-fflags'', ''nobuffer'']
                    @ InitArgs codec @ inp @ FilterArgs codec @ OutputArgs codec opt
                    @ [''-f'', ''h264'', ''-bsf:v'', ''h264_mp4toannexb'', ''pipe:1''])))"

section \<open>Detection\<close>

text \<open>
  \<^verbatim>\<open>bufio.Scanner\<close> with its default of lines: the line end and a carriage return before it are
  removed; a line of 64 KiB or more stops the scan.
\<close>

definition drop_cr :: "string \<Rightarrow> string" where
  "drop_cr s = (if s \<noteq> [] \<and> last s = CHR 0x0D then butlast s else s)"

definition scan_lines :: "string \<Rightarrow> string list" where
  "scan_lines s =
     (let ls = split_on (CHR 0x0A) s; ls' = (if last ls = [] then butlast ls else ls)
      in map drop_cr (takeWhile (\<lambda>l. length l < 65536) ls'))"

text \<open>\<^verbatim>\<open>strings.Fields\<close>\<close>

fun fields_acc :: "string \<Rightarrow> string \<Rightarrow> string list" where
  "fields_acc w [] = (if w = [] then [] else [w])"
| "fields_acc w (c # s) =
     (if is_space c then (if w = [] then fields_acc [] s else w # fields_acc [] s)
      else fields_acc (w @ [c]) s)"

definition Fields :: "string \<Rightarrow> string list" where
  "Fields s = fields_acc [] s"

definition is_upper :: "char \<Rightarrow> bool" where
  "is_upper c \<longleftrightarrow> 65 \<le> (of_char c :: nat) \<and> (of_char c :: nat) \<le> 90"

definition is_lower :: "char \<Rightarrow> bool" where
  "is_lower c \<longleftrightarrow> 97 \<le> (of_char c :: nat) \<and> (of_char c :: nat) \<le> 122"

definition validFlags :: "string \<Rightarrow> bool" where
  "validFlags s \<longleftrightarrow> (hd s = CHR ''V'' \<or> hd s = CHR ''A'' \<or> hd s = CHR ''S'')
     \<and> list_all (\<lambda>c. c = CHR ''.'' \<or> is_upper c) (tl s)"

definition validEncoderName :: "string \<Rightarrow> bool" where
  "validEncoderName name \<longleftrightarrow> name \<noteq> [] \<and>
     list_all (\<lambda>c. is_lower c \<or> is_upper c \<or> is_digit c \<or> c = CHR ''_'') name"

text \<open>The set of names, as the list of the keys in the order they were found.\<close>

definition encoder_of_line :: "string \<Rightarrow> string list" where
  "encoder_of_line line =
     (case Fields line of
        flags # name # _ \<Rightarrow>
          if length flags \<noteq> 6 \<or> \<not> validFlags flags then []
          else if \<not> validEncoderName name then [] else [name]
      | _ \<Rightarrow> [])"

definition parseEncoderList :: "string \<Rightarrow> string list" where
  "parseEncoderList out = concat (map encoder_of_line (scan_lines out))"

definition h264EncodersIn :: "string list \<Rightarrow> string" where
  "h264EncodersIn available =
     (let found = filter (\<lambda>c. c \<in> set available) [CodecLibX264, CodecV4L2M2M, CodecVAAPI, CodecNVENC]
      in if found = [] then ''(none detected)'' else join '', '' found)"

definition DetectCodec :: "string \<Rightarrow> string list \<Rightarrow> (string \<times> string) option" where
  "DetectCodec codecName available =
     (let name = (if codecName = [] then CodecLibX264 else codecName) in
      if available = [] then None
      else if name \<in> set available then None
      else Some (name, h264EncodersIn available))"

section \<open>The encoder module\<close>

definition packetBufferSize :: nat where "packetBufferSize = 4"
definition frameQueueSize :: nat where "frameQueueSize = 2"
definition forceKeyframeDebounce :: duration where "forceKeyframeDebounce = Second"

datatype subprocess_error = FFmpegExited string | StdoutError string | ExitedUnexpectedly

record Encoder =
  enc_opts :: Options
  enc_packets :: "EncodedPacket chan"
  enc_errs :: "subprocess_error chan"
  enc_framesOut :: int
  enc_restart :: "unit chan"
  enc_lastForce :: "instant option"

definition Encoder_New :: "Options \<Rightarrow> enc_error + Encoder" where
  "Encoder_New opts =
     (let opt = Options_normalise opts in
      case Options_Validate opt of
        Some err \<Rightarrow> Inl err
      | None \<Rightarrow> Inr \<lparr>enc_opts = opt, enc_packets = make_chan packetBufferSize, enc_errs = make_chan 1,
                     enc_framesOut = 0, enc_restart = make_chan 1, enc_lastForce = None\<rparr>)"

text \<open>
  \<^verbatim>\<open>SetBitrate\<close> takes the lock to store the rate and sends the restart signal after having let go of
  it: two steps, of which the second is \<open>request_restart\<close>.
\<close>

definition SetBitrate_store :: "int \<Rightarrow> Encoder \<Rightarrow> Encoder \<times> bool" where
  "SetBitrate_store bps e =
     (if bps \<le> 0 then (e, False)
      else if o_Bitrate (enc_opts e) \<noteq> bps then (e\<lparr>enc_opts := (enc_opts e)\<lparr>o_Bitrate := bps\<rparr>\<rparr>, True)
      else (e, False))"

definition request_restart :: "Encoder \<Rightarrow> Encoder" where
  "request_restart e = e\<lparr>enc_restart := try_send () (enc_restart e)\<rparr>"

definition SetBitrate :: "int \<Rightarrow> Encoder \<Rightarrow> Encoder" where
  "SetBitrate bps e = (let (e1, changed) = SetBitrate_store bps e in if changed then request_restart e1 else e1)"

definition ForceKeyframe_store :: "instant \<Rightarrow> Encoder \<Rightarrow> Encoder \<times> bool" where
  "ForceKeyframe_store now e =
     (case enc_lastForce e of
        Some prev \<Rightarrow> if now - prev < forceKeyframeDebounce then (e, False)
                     else (e\<lparr>enc_lastForce := Some now\<rparr>, True)
      | None \<Rightarrow> (e\<lparr>enc_lastForce := Some now\<rparr>, True))"

definition ForceKeyframe :: "instant \<Rightarrow> Encoder \<Rightarrow> Encoder" where
  "ForceKeyframe now e = (let (e1, go) = ForceKeyframe_store now e in if go then request_restart e1 else e1)"

definition currentArgs :: "Encoder \<Rightarrow> enc_error + string list" where
  "currentArgs e = BuildArgs (enc_opts e)"

text \<open>\<^verbatim>\<open>emitPacket\<close>: the packet of an access unit goes to the output channel.\<close>

definition packet_of :: "accessUnit \<Rightarrow> Encoder \<Rightarrow> EncodedPacket" where
  "packet_of au e =
     (let fps = (if o_FPS (enc_opts e) \<le> 0 then 30 else o_FPS (enc_opts e))
      in \<lparr>ep_Data = au_data au, ep_PTS = go_div (wrap64 (enc_framesOut e * Second)) fps, ep_IsKeyframe = au_isKeyframe au\<rparr>)"

definition push_packet :: "EncodedPacket \<Rightarrow> EncodedPacket chan \<Rightarrow> EncodedPacket chan" where
  "push_packet pkt ch =
     (if ch_closed ch \<or> can_send ch then try_send pkt ch
      else case ch_buf ch of
             [] \<Rightarrow> try_send pkt ch
           | old # rest \<Rightarrow>
               if ep_IsKeyframe old then try_send old (drop_one ch)
               else try_send pkt (drop_one ch))"

definition emitPacket :: "accessUnit \<Rightarrow> Encoder \<Rightarrow> Encoder" where
  "emitPacket au e =
     e\<lparr>enc_framesOut := wrap64 (enc_framesOut e + 1), enc_packets := push_packet (packet_of au e) (enc_packets e)\<rparr>"

text \<open>
  The reader of the subprocess: what each \<^verbatim>\<open>Read\<close> returns, the bytes and the error that came with
  them, and whether the context had ended after it.
\<close>

datatype read_status = ReadOK | ReadOKCancelled | ReadEOF | ReadErr string

fun read_loop :: "(byte list \<times> read_status) list \<Rightarrow> byte list \<Rightarrow> Encoder \<Rightarrow> Encoder \<times> string option" where
  "read_loop [] buf e = (e, None)"
| "read_loop ((bs, st) # rs) buf e =
     (let (buf1, aus) = (if bs = [] then (buf, []) else Push bs buf); e1 = fold emitPacket aus e in
      case st of
        ReadEOF \<Rightarrow> (fold emitPacket (snd (Flush buf1)) e1, None)
      | ReadErr err \<Rightarrow> (e1, Some err)
      | ReadOKCancelled \<Rightarrow> (e1, None)
      | ReadOK \<Rightarrow> read_loop rs buf1 e1)"

definition readPackets :: "(byte list \<times> read_status) list \<Rightarrow> Encoder \<Rightarrow> Encoder \<times> string option" where
  "readPackets rs e = read_loop rs NewAnnexBSplitter e"

text \<open>The writer: frames that fit the command line are queued, the oldest one makes room.\<close>

definition enqueueFrame :: "VideoFrame \<Rightarrow> VideoFrame chan \<Rightarrow> VideoFrame chan" where
  "enqueueFrame frame q =
     (if ch_closed q \<or> can_send q then try_send frame q else try_send frame (drop_one q))"

definition frame_fits :: "Options \<Rightarrow> VideoFrame \<Rightarrow> bool" where
  "frame_fits opt f \<longleftrightarrow> vf_PixelFormat f = o_InputFormat opt \<and> vf_Width f = o_Width opt \<and> vf_Height f = o_Height opt"

text \<open>What the two goroutines of \<^verbatim>\<open>writeFrames\<close> do, in the order it happens.\<close>

datatype writer_event = FrameIn VideoFrame | WriterTakes

fun writeFrames :: "Options \<Rightarrow> writer_event list \<Rightarrow> VideoFrame chan \<times> byte list \<Rightarrow> VideoFrame chan \<times> byte list" where
  "writeFrames opt [] (q, stdin) = (q, stdin)"
| "writeFrames opt (FrameIn f # es) (q, stdin) =
     writeFrames opt es (if frame_fits opt f then enqueueFrame f q else q, stdin)"
| "writeFrames opt (WriterTakes # es) (q, stdin) =
     (case ch_buf q of
        [] \<Rightarrow> writeFrames opt es (q, stdin)
      | f # _ \<Rightarrow> writeFrames opt es (drop_one q, stdin @ vf_Data f))"

definition reportSubprocessExit :: "string option \<Rightarrow> string option \<Rightarrow> Encoder \<Rightarrow> Encoder" where
  "reportSubprocessExit waitErr readErr e =
     (let msg = (case waitErr of Some w \<Rightarrow> FFmpegExited w
               | None \<Rightarrow> (case readErr of Some r \<Rightarrow> StdoutError r | None \<Rightarrow> ExitedUnexpectedly))
      in e\<lparr>enc_errs := try_send msg (enc_errs e)\<rparr>)"

definition expectedRawSize :: "int \<Rightarrow> int \<Rightarrow> PixelFormat \<Rightarrow> int" where
  "expectedRawSize w h f =
     (case f of
        PixelFormatNV12 \<Rightarrow> go_div (wrap64 (w * h * 3)) 2
      | PixelFormatYUYV \<Rightarrow> wrap64 (w * h * 2)
      | _ \<Rightarrow> -1)"

text \<open>
  How one subprocess ends: a pipe or the start fails, the context ends, a restart signal is taken,
  or ffmpeg exits by itself. Until then its output is read as \<open>reads\<close> says.
\<close>

datatype subprocess_end = SetupFails string | CtxEnds | TakesRestart | FFmpegExits "string option"

type_synonym subprocess = "(byte list \<times> read_status) list \<times> subprocess_end"

definition runSubprocess :: "subprocess \<Rightarrow> Encoder \<Rightarrow> Encoder \<times> (enc_error + string + bool)" where
  "runSubprocess = (\<lambda>(reads, how) e.
     (case currentArgs e of
        Inl err \<Rightarrow> (e, Inl err)
      | Inr args \<Rightarrow>
          (let (e1, readErr) = readPackets reads e in
           case how of
             SetupFails err \<Rightarrow> (e, Inr (Inl err))
           | CtxEnds \<Rightarrow> (e1, Inr (Inr False))
           | TakesRestart \<Rightarrow> (e1\<lparr>enc_restart := drop_one (enc_restart e1)\<rparr>, Inr (Inr True))
           | FFmpegExits waitErr \<Rightarrow> (reportSubprocessExit waitErr readErr e1, Inr (Inr False)))))"

text \<open>
  The supervision loop, over its successive subprocesses; the flag says whether the context has
  ended when the subprocess has. The result is the error of \<^verbatim>\<open>Run\<close>, if it has returned.
\<close>

fun encoder_loop :: "(subprocess \<times> bool) list \<Rightarrow> Encoder \<Rightarrow> Encoder \<times> (enc_error + string) option option" where
  "encoder_loop [] e = (e, None)"
| "encoder_loop ((sub, ctxErr) # hs) e =
     (case runSubprocess sub e of
        (e1, Inl err) \<Rightarrow> (e1, Some (Some (Inl err)))
      | (e1, Inr (Inl err)) \<Rightarrow> (e1, Some (Some (Inr err)))
      | (e1, Inr (Inr restart)) \<Rightarrow>
          if ctxErr then (e1, Some None)
          else if \<not> restart then (e1, Some None)
          else encoder_loop hs e1)"

definition Encoder_Run :: "(subprocess \<times> bool) list \<Rightarrow> Encoder \<Rightarrow> Encoder \<times> (enc_error + string) option option" where
  "Encoder_Run hs e =
     (case encoder_loop hs e of
        (e1, None) \<Rightarrow> (e1, None)
      | (e1, Some r) \<Rightarrow>
          (e1\<lparr>enc_packets := close_chan (enc_packets e1), enc_errs := close_chan (enc_errs e1)\<rparr>, Some r))"

end
