(* ===== verification/AnnexBProps.thy ===== *)
theory AnnexBProps
  imports AnnexB
begin

unbundle bit_operations_syntax

text \<open>
  The streaming splitter against the splitter that sees the whole stream at once: the access units
  do not depend on how the stream was cut into chunks, and no byte after the first start code is
  lost or duplicated.
\<close>

section \<open>Start codes in longer and in shorter buffers\<close>

lemma startCodeLen_bound: "startCodeLen b i \<noteq> 0 \<Longrightarrow> i + startCodeLen b i \<le> length b \<and> 3 \<le> startCodeLen b i"
  by (auto simp: startCodeLen_def split: if_splits)

lemma startCodeLen_append:
  "i + 4 \<le> length b \<or> startCodeLen b i \<noteq> 0 \<Longrightarrow> startCodeLen (b @ x) i = startCodeLen b i"
  by (auto simp: startCodeLen_def nth_append split: if_splits)

lemma startCodeLen_first: "startCodeLen b i \<noteq> 0 \<Longrightarrow> b ! i = 0"
  by (auto simp: startCodeLen_def split: if_splits)

lemma startCodeLen_drop: "d \<le> length b \<Longrightarrow> startCodeLen (drop d b) i = startCodeLen b (i + d)"
  by (auto simp: startCodeLen_def ac_simps)

lemma findStartCode_NoneD: "findStartCode b i = None \<Longrightarrow> i \<le> k \<Longrightarrow> startCodeLen b k = 0"
proof (induction b i rule: findStartCode.induct)
  case (1 b i)
  show ?case
  proof (cases "i + 3 \<le> length b")
    case True
    with 1(2) have z: "startCodeLen b i = 0" "findStartCode b (i + 1) = None"
      by (subst (asm) findStartCode.simps, simp add: Let_def split: if_splits)+
    from 1(1) [OF True refl _ z(2)] z(1) 1(3) show ?thesis by (cases "k = i") auto
  next
    case False
    with 1(3) show ?thesis by (auto simp: startCodeLen_def)
  qed
qed

lemma findStartCodeI:
  assumes "i \<le> j" "startCodeLen b j \<noteq> 0" "\<And>k. i \<le> k \<Longrightarrow> k < j \<Longrightarrow> startCodeLen b k = 0"
  shows "findStartCode b i = Some (j, startCodeLen b j)"
proof (cases "findStartCode b i")
  case None
  with findStartCode_NoneD [OF None assms(1)] assms(2) show ?thesis by simp
next
  case (Some q)
  obtain j' l' where q: "q = (j', l')" by (cases q)
  from findStartCode_Some [OF Some [unfolded q]] assms have "j' = j"
    by (metis linorder_neqE_nat)
  with findStartCode_Some [OF Some [unfolded q]] Some q show ?thesis by simp
qed

lemma findStartCode_append:
  assumes "findStartCode b i = Some (j, l)"
  shows "findStartCode (b @ x) i = Some (j, l)"
proof -
  note f = findStartCode_Some [OF assms]
  have nz: "startCodeLen b j \<noteq> 0" using f by simp
  have s: "startCodeLen (b @ x) j = startCodeLen b j" by (rule startCodeLen_append) (use nz in simp)
  have "findStartCode (b @ x) i = Some (j, startCodeLen (b @ x) j)"
  proof (rule findStartCodeI)
    show "i \<le> j" "startCodeLen (b @ x) j \<noteq> 0" using f s by simp_all
    fix k assume k: "i \<le> k" "k < j"
    then have "k + 4 \<le> length b" using f by simp
    then show "startCodeLen (b @ x) k = 0" using startCodeLen_append [of k b x] f k by simp
  qed
  with s f show ?thesis by simp
qed

definition shift :: "nat \<Rightarrow> nat \<times> nat \<Rightarrow> nat \<times> nat" where
  "shift d = (\<lambda>(j, l). (j + d, l))"

lemma findStartCode_drop:
  assumes "d \<le> length b"
  shows "findStartCode b (i + d) = map_option (shift d) (findStartCode (drop d b) i)"
proof (cases "findStartCode (drop d b) i")
  case None
  have "startCodeLen b k = 0" if "i + d \<le> k" for k
    using findStartCode_NoneD [OF None, of "k - d"] startCodeLen_drop [OF assms, of "k - d"] that by simp
  then have "findStartCode b (i + d) = None"
    by (cases "findStartCode b (i + d)") (auto dest!: findStartCode_Some)
  with None show ?thesis by simp
next
  case (Some q)
  obtain j l where q: "q = (j, l)" by (cases q)
  note f = findStartCode_Some [OF Some [unfolded q]]
  have "findStartCode b (i + d) = Some (j + d, startCodeLen b (j + d))"
  proof (rule findStartCodeI)
    show "i + d \<le> j + d" "startCodeLen b (j + d) \<noteq> 0" using f startCodeLen_drop [OF assms, of j] by simp_all
    fix k assume k: "i + d \<le> k" "k < j + d"
    then have "i \<le> k - d" "k - d < j" by auto
    then have "startCodeLen (drop d b) (k - d) = 0" using f by blast
    then show "startCodeLen b k = 0" using startCodeLen_drop [OF assms, of "k - d"] k by simp
  qed
  then show ?thesis using Some q f startCodeLen_drop [OF assms, of j] by (simp add: shift_def)
qed

section \<open>NAL units in longer and in shorter buffers\<close>

definition code_at :: "byte list \<Rightarrow> (nat \<times> nat) option \<Rightarrow> bool" where
  "code_at b p = (case p of None \<Rightarrow> True | Some (s, l) \<Rightarrow> l = startCodeLen b s \<and> l \<noteq> 0)"

lemma code_at_find [simp]: "code_at b (findStartCode b i)"
  by (cases "findStartCode b i") (auto simp: code_at_def dest: findStartCode_Some)

lemma nalus_from_Some:
  assumes "code_at b (Some (s, l))"
  shows "nalus_from b (Some (s, l)) =
    mk_nal b s l (case findStartCode b (s + l) of None \<Rightarrow> length b | Some (j, _) \<Rightarrow> j)
      @ nalus_from b (findStartCode b (s + l))"
  using assms startCodeLen_bound [of b s] by (auto simp: code_at_def Let_def)

declare nalus_from.simps(2) [simp del]

definition shiftN :: "nat \<Rightarrow> nalUnit \<Rightarrow> nalUnit" where
  "shiftN d n = n\<lparr>n_start := n_start n + d, n_end := n_end n + d\<rparr>"

lemma mk_nal_drop: "d \<le> length b \<Longrightarrow> e + d \<le> length b \<Longrightarrow>
  mk_nal b (s + d) l (e + d) = map (shiftN d) (mk_nal (drop d b) s l e)"
  by (auto simp: mk_nal_def Let_def shiftN_def add.commute add.left_commute)

lemma nalus_from_drop:
  assumes "d \<le> length b" "code_at (drop d b) p"
  shows "nalus_from b (map_option (shift d) p) = map (shiftN d) (nalus_from (drop d b) p)"
  using assms
proof (induction "drop d b" p rule: nalus_from.induct)
  case (2 s l)
  let ?n = "findStartCode (drop d b) (s + l)"
  have c: "\<not> (l = 0 \<or> length (drop d b) < s + 3)"
    using 2(3) startCodeLen_bound [of "drop d b" s] by (auto simp: code_at_def)
  have cb: "code_at b (Some (s + d, l))" using 2(2,3) by (simp add: code_at_def startCodeLen_drop)
  have n: "findStartCode b (s + l + d) = map_option (shift d) ?n" by (rule findStartCode_drop [OF 2(2)])
  let ?e = "case ?n of None \<Rightarrow> length (drop d b) | Some (j, _) \<Rightarrow> j"
  have e: "(case map_option (shift d) ?n of None \<Rightarrow> length b | Some (j, _) \<Rightarrow> j) = ?e + d"
    using 2(2) by (auto simp: shift_def split: option.split)
  have le: "?e + d \<le> length b" using 2(2) by (auto split: option.split dest!: findStartCode_Some)
  have sl: "s + d + l = s + l + d" by simp
  have "nalus_from b (Some (s + d, l)) = mk_nal b (s + d) l (?e + d) @ nalus_from b (map_option (shift d) ?n)"
    unfolding nalus_from_Some [OF cb] sl n e ..
  also have "\<dots> = map (shiftN d) (nalus_from (drop d b) (Some (s, l)))"
    using 2(1) [OF c refl refl 2(2) code_at_find] mk_nal_drop [OF 2(2) le] by (simp add: nalus_from_Some [OF 2(3)])
  finally show ?case by (simp add: shift_def)
qed simp

text \<open>The end of a NAL unit plays no role in the grouping.\<close>

definition forget :: "nalUnit \<Rightarrow> nalUnit" where "forget n = n\<lparr>n_end := 0\<rparr>"

lemma forget_sel [simp]: "n_start (forget n) = n_start n" "n_type (forget n) = n_type n"
  "n_firstSlice (forget n) = n_firstSlice n" "isVCL (forget n) = isVCL n" "startsNewAU (forget n) = startsNewAU n"
  by (simp_all add: forget_def isVCL_def startsNewAU_def)

lemma drain_nal_forget [simp]: "drain_nal b (forget n) = drain_nal b n"
  by (rule ext) (simp add: drain_nal_def)

lemma fold_drain_forget: "fold (drain_nal b) (map forget ns) = fold (drain_nal b) ns"
  by (induction ns) (auto simp: fun_eq_iff)

text \<open>A NAL unit that can end an access unit is already recognised as such at the end of the buffer.\<close>

lemma mk_nal_decided:
  assumes "mk_nal b s l (length b) = [n]" "startsNewAU n"
    and e: "s + l \<le> e" "e \<le> length (b @ x)" "e < length (b @ x) \<longrightarrow> (b @ x) ! e = 0"
    and "length b \<le> e + 3"
  shows "map forget (mk_nal (b @ x) s l e) = [forget n]"
proof -
  have lt: "s + l < length b" using assms(1) by (auto simp: mk_nal_def Let_def split: if_splits)
  have n: "n_type n = b ! (s + l) AND 0x1f" "n_start n = s"
    "n_firstSlice n = ((n_type n = 1 \<or> n_type n = 5) \<and> s + l + 1 < length b \<and> (b ! (s + l + 1)) AND 0x80 \<noteq> 0)"
    using assms(1) lt by (auto simp: mk_nal_def Let_def nal_types split: if_splits)
  have "n_type n \<noteq> 0" using assms(2) by (auto simp: startsNewAU_def isVCL_def nal_types)
  then have h: "b ! (s + l) \<noteq> 0" using n by auto
  then have e1: "e \<noteq> s + l" using e(3) lt by (auto simp: nth_append)
  have e2: "s + l + 1 < e \<and> s + l + 1 < length b" if "n_firstSlice n"
  proof -
    have "s + l + 1 < length b" "b ! (s + l + 1) \<noteq> 0" using n that by auto
    then have "e \<noteq> s + l + 1" using e(3) by (auto simp: nth_append)
    with e1 e(1) \<open>s + l + 1 < length b\<close> show ?thesis by simp
  qed
  have fs: "n_firstSlice n \<or> n_type n = 9" using assms(2) by (auto simp: startsNewAU_def nal_types)
  then show ?thesis
  proof
    assume f: "n_firstSlice n"
    then show ?thesis using n lt e1 e(1) e2 [OF f]
      by (cases n) (auto simp: mk_nal_def Let_def forget_def nth_append nal_types)
  next
    assume f: "n_type n = 9"
    then show ?thesis using n lt e1 e(1)
      by (cases n) (auto simp: mk_nal_def Let_def forget_def nth_append nal_types)
  qed
qed

lemma nalus_from_append:
  assumes "code_at b p"
  shows "\<exists>ms ns'. map forget (nalus_from (b @ x) p) = ms @ ns' \<and>
    (map forget (nalus_from b p) = ms \<or> (\<exists>n. map forget (nalus_from b p) = ms @ [n] \<and> \<not> startsNewAU n))"
  using assms
proof (induction b p rule: nalus_from.induct)
  case (2 b s l)
  have c: "\<not> (l = 0 \<or> length b < s + 3)" using 2(2) startCodeLen_bound [of b s] by (auto simp: code_at_def)
  have sl: "s + l \<le> length b" using 2(2) startCodeLen_bound [of b s] by (auto simp: code_at_def)
  have cx: "code_at (b @ x) (Some (s, l))" using 2(2) startCodeLen_append [of s b x] by (auto simp: code_at_def)
  let ?e = "case findStartCode (b @ x) (s + l) of None \<Rightarrow> length (b @ x) | Some (j, _) \<Rightarrow> j"
  show ?case
  proof (cases "findStartCode b (s + l)")
    case None
    have nb: "nalus_from b (Some (s, l)) = mk_nal b s l (length b)" using nalus_from_Some [OF 2(2)] None by simp
    show ?thesis
    proof (cases "\<exists>n. mk_nal b s l (length b) = [n] \<and> startsNewAU n")
      case False
      then have "map forget (nalus_from b (Some (s, l))) = [] \<or>
          (\<exists>n. map forget (nalus_from b (Some (s, l))) = [n] \<and> \<not> startsNewAU n)"
        unfolding nb by (auto simp: mk_nal_def Let_def)
      then show ?thesis by (metis append_Nil)
    next
      case True
      then obtain n where n: "mk_nal b s l (length b) = [n]" "startsNewAU n" by blast
      have e: "s + l \<le> ?e" "?e \<le> length (b @ x)" "?e < length (b @ x) \<longrightarrow> (b @ x) ! ?e = 0" "length b \<le> ?e + 3"
      proof -
        show "s + l \<le> ?e" "?e \<le> length (b @ x)"
          using sl by (auto split: option.split dest!: findStartCode_Some)
        show "?e < length (b @ x) \<longrightarrow> (b @ x) ! ?e = 0"
          by (auto split: option.split dest!: findStartCode_Some intro: startCodeLen_first)
        show "length b \<le> ?e + 3"
        proof (cases "findStartCode (b @ x) (s + l)")
          case (Some q)
          then obtain j l' where q: "q = (j, l')" by (cases q)
          have "\<not> j + 4 \<le> length b"
            using findStartCode_Some [OF Some [unfolded q]] startCodeLen_append [of j b x] findStartCode_NoneD [OF None, of j] by auto
          with Some q show ?thesis by simp
        qed simp
      qed
      from mk_nal_decided [OF n e] have "map forget (nalus_from (b @ x) (Some (s, l))) =
          [forget n] @ map forget (nalus_from (b @ x) (findStartCode (b @ x) (s + l)))"
        using nalus_from_Some [OF cx] by simp
      with n nb show ?thesis by auto
    qed
  next
    case (Some q)
    obtain j l' where q: "q = (j, l')" by (cases q)
    have fx: "findStartCode (b @ x) (s + l) = Some q" using Some q findStartCode_append by blast
    have jl: "j \<le> length b" using findStartCode_Some [OF Some [unfolded q]] by simp
    have mk: "mk_nal (b @ x) s l j = mk_nal b s l j" using jl by (auto simp: mk_nal_def Let_def nth_append)
    have cq: "code_at b (Some q)" using code_at_find [of b "s + l"] Some by simp
    obtain ms ns' where ih: "map forget (nalus_from (b @ x) (Some q)) = ms @ ns'"
      "map forget (nalus_from b (Some q)) = ms \<or> (\<exists>n. map forget (nalus_from b (Some q)) = ms @ [n] \<and> \<not> startsNewAU n)"
      using 2(1) [OF c refl refl] Some cq by auto
    let ?m = "map forget (mk_nal b s l j)"
    have "map forget (nalus_from (b @ x) (Some (s, l))) = (?m @ ms) @ ns'"
      using nalus_from_Some [OF cx] fx q mk ih(1) by simp
    moreover have "map forget (nalus_from b (Some (s, l))) = ?m @ map forget (nalus_from b (Some q))"
      using nalus_from_Some [OF 2(2)] Some q by simp
    ultimately show ?thesis using ih(2) by (metis append.assoc)
  qed
qed simp

text \<open>Every NAL unit of a buffer begins a tail of the list that is found from its own start code.\<close>

lemma nalus_from_tail:
  assumes "code_at b p" "nalus_from b p = L1 @ N # L2"
  shows "code_at b (Some (n_start N, startCodeLen b (n_start N))) \<and>
    nalus_from b (Some (n_start N, startCodeLen b (n_start N))) = N # L2"
  using assms
proof (induction b p arbitrary: L1 rule: nalus_from.induct)
  case (2 b s l)
  have c: "\<not> (l = 0 \<or> length b < s + 3)" using 2(2) startCodeLen_bound [of b s] by (auto simp: code_at_def)
  let ?e = "case findStartCode b (s + l) of None \<Rightarrow> length b | Some (j, _) \<Rightarrow> j"
  let ?m = "mk_nal b s l ?e" and ?r = "nalus_from b (findStartCode b (s + l))"
  have eq: "?m @ ?r = L1 @ N # L2" using nalus_from_Some [OF 2(2)] 2(3) by simp
  have ms: "?m = [] \<or> (\<exists>n. ?m = [n] \<and> n_start n = s)" by (auto simp: mk_nal_def Let_def)
  show ?case
  proof (cases "\<exists>L. L1 = ?m @ L")
    case True
    then obtain L where "?r = L @ N # L2" using eq by auto
    then show ?thesis using 2(1) [OF c refl refl code_at_find] by blast
  next
    case False
    with ms eq have "?m = [N]" "L1 = []" "?r = L2" "n_start N = s" by (auto simp: Cons_eq_append_conv)
    then show ?thesis using 2(2) nalus_from_Some [OF 2(2)] by (auto simp: code_at_def)
  qed
qed simp

lemma nalus_from_starts:
  assumes "code_at b p"
  shows "sorted_wrt (<) (map n_start (nalus_from b p)) \<and>
    (\<forall>n \<in> set (nalus_from b p). n_start n + 3 \<le> length b \<and> (\<forall>s l. p = Some (s, l) \<longrightarrow> s \<le> n_start n))"
  using assms
proof (induction b p rule: nalus_from.induct)
  case (2 b s l)
  have c: "\<not> (l = 0 \<or> length b < s + 3)" using 2(2) startCodeLen_bound [of b s] by (auto simp: code_at_def)
  let ?e = "case findStartCode b (s + l) of None \<Rightarrow> length b | Some (j, _) \<Rightarrow> j"
  note ih = 2(1) [OF c refl refl code_at_find]
  have after: "s < n_start n" if "n \<in> set (nalus_from b (findStartCode b (s + l)))" for n
  proof (cases "findStartCode b (s + l)")
    case None
    with that show ?thesis by simp
  next
    case (Some q)
    then obtain j l' where "q = (j, l')" by (cases q)
    with Some ih that findStartCode_Some [of b "s + l" j l'] c show ?thesis by fastforce
  qed
  have ms: "mk_nal b s l ?e = [] \<or> (\<exists>n. mk_nal b s l ?e = [n] \<and> n_start n = s)" by (auto simp: mk_nal_def Let_def)
  show ?case unfolding nalus_from_Some [OF 2(2)] using ms ih after c
    by (elim disjE exE) (auto intro: less_imp_le)
qed simp

section \<open>The grouping\<close>

lemma drain_nal_sel:
  "d_aus (drain_nal b n d) = (if d_seenVCL d \<and> startsNewAU n
     then d_aus d @ [\<lparr>au_data = byte_slice b (d_auStart d) (n_start n), au_isKeyframe = d_auHasIDR d\<rparr>] else d_aus d)"
  "d_auStart (drain_nal b n d) = (if d_seenVCL d \<and> startsNewAU n then n_start n else d_auStart d)"
  "d_emittedEnd (drain_nal b n d) = (if d_seenVCL d \<and> startsNewAU n then n_start n else d_emittedEnd d)"
  "d_seenVCL (drain_nal b n d) = (isVCL n \<or> d_seenVCL d \<and> \<not> startsNewAU n)"
  "d_auHasIDR (drain_nal b n d) = (n_type n = nalTypeIDR \<or> d_auHasIDR d \<and> \<not> (d_seenVCL d \<and> startsNewAU n))"
  by (auto simp: drain_nal_def isVCL_def)

lemma drain_nal_append:
  "n_start n \<le> length b \<Longrightarrow> drain_nal (b @ x) n d = drain_nal b n d"
proof -
  assume n: "n_start n \<le> length b"
  have "byte_slice (b @ x) i (n_start n) = byte_slice b i (n_start n)" for i
    using n by (cases "i \<le> length b") (auto simp: byte_slice_def)
  then show ?thesis by (simp add: drain_nal_def)
qed

lemma fold_drain_append:
  "list_all (\<lambda>n. n_start n \<le> length b) ns \<Longrightarrow> fold (drain_nal (b @ x)) ns d = fold (drain_nal b) ns d"
  by (induction ns arbitrary: d) (simp_all add: drain_nal_append)

lemma drain_nal_quiet: "\<not> startsNewAU n \<Longrightarrow>
  d_aus (drain_nal b n d) = d_aus d \<and> d_emittedEnd (drain_nal b n d) = d_emittedEnd d"
  by (simp add: drain_nal_sel)

text \<open>The state right after the last access unit was emitted.\<close>

lemma last_emission:
  assumes "d_emittedEnd (fold (drain_nal b) ns (drain_init s)) > 0"
  shows "\<exists>ms n ms'. ns = ms @ n # ms' \<and> startsNewAU n \<and> d_seenVCL (fold (drain_nal b) ms (drain_init s))
    \<and> d_emittedEnd (fold (drain_nal b) ns (drain_init s)) = n_start n
    \<and> d_aus (fold (drain_nal b) ns (drain_init s)) = d_aus (drain_nal b n (fold (drain_nal b) ms (drain_init s)))"
  using assms
proof (induction ns rule: rev_induct)
  case (snoc n ns)
  let ?d = "fold (drain_nal b) ns (drain_init s)"
  show ?case
  proof (cases "d_seenVCL ?d \<and> startsNewAU n")
    case True
    then show ?thesis by (intro exI [of _ ns] exI [of _ n] exI [of _ "[]"]) (simp add: drain_nal_sel)
  next
    case False
    then have same: "d_aus (drain_nal b n ?d) = d_aus ?d" "d_emittedEnd (drain_nal b n ?d) = d_emittedEnd ?d"
      by (auto simp: drain_nal_sel)
    with snoc obtain ms k ms' where "ns = ms @ k # ms'" "startsNewAU k" "d_seenVCL (fold (drain_nal b) ms (drain_init s))"
      "d_emittedEnd ?d = n_start k" "d_aus ?d = d_aus (drain_nal b k (fold (drain_nal b) ms (drain_init s)))" by auto
    with same show ?thesis by (intro exI [of _ ms] exI [of _ k] exI [of _ "ms' @ [n]"]) simp
  qed
qed (simp add: drain_init_def)

lemma no_emission: "sorted_wrt (<) (s # map n_start ns) \<or> sorted_wrt (<) (map n_start ns) \<and> ns \<noteq> [] \<and> s = n_start (hd ns) \<Longrightarrow>
  d_emittedEnd (fold (drain_nal b) ns (drain_init s)) = 0 \<Longrightarrow> d_aus (fold (drain_nal b) ns (drain_init s)) = []"
proof -
  assume st: "sorted_wrt (<) (s # map n_start ns) \<or> sorted_wrt (<) (map n_start ns) \<and> ns \<noteq> [] \<and> s = n_start (hd ns)"
  have pos: "0 < n_start n" if "ns = ms @ n # ms'" "ms \<noteq> []" for ms n ms'
    using st that by (cases ms) (auto simp: sorted_wrt_append)
  have "d_emittedEnd (fold (drain_nal b) ms (drain_init s)) = 0 \<longrightarrow> d_aus (fold (drain_nal b) ms (drain_init s)) = []"
    if "ns = ms @ ms'" for ms ms'
    using that
  proof (induction ms arbitrary: ms' rule: rev_induct)
    case (snoc n ms)
    have "\<not> (d_seenVCL (fold (drain_nal b) ms (drain_init s)) \<and> startsNewAU n) \<or> 0 < n_start n"
      using pos [of ms n ms'] snoc(2) by (cases "ms = []") (auto simp: drain_init_def)
    then show ?case using snoc by (auto simp: drain_nal_sel)
  qed (simp add: drain_init_def)
  from this [of ns "[]"] show "d_emittedEnd (fold (drain_nal b) ns (drain_init s)) = 0 \<Longrightarrow>
    d_aus (fold (drain_nal b) ns (drain_init s)) = []" by simp
qed

text \<open>A grouping that restarts at an emitted boundary agrees with the one that goes on.\<close>

definition restarted :: "nat \<Rightarrow> accessUnit list \<Rightarrow> drain_state \<Rightarrow> drain_state \<Rightarrow> bool" where
  "restarted e a d d' \<longleftrightarrow> d_aus d = a @ d_aus d' \<and> d_auStart d = d_auStart d' + e
     \<and> d_seenVCL d = d_seenVCL d' \<and> d_auHasIDR d = d_auHasIDR d'"

lemma restarted_step:
  assumes "restarted e a d d'" "e \<le> length b"
  shows "restarted e a (drain_nal b (shiftN e n) d) (drain_nal (drop e b) n d')"
proof -
  have "byte_slice b (i + e) (j + e) = byte_slice (drop e b) i j" for i j by (simp add: byte_slice_def add.commute)
  then show ?thesis using assms by (auto simp: restarted_def drain_nal_sel shiftN_def startsNewAU_def isVCL_def)
qed

lemma restarted_fold:
  assumes "e \<le> length b"
  shows "restarted e a d d' \<Longrightarrow>
    restarted e a (fold (drain_nal b) (map (shiftN e) ns) d) (fold (drain_nal (drop e b)) ns d')"
  by (induction ns arbitrary: d d') (use assms in \<open>simp_all add: restarted_step\<close>)

definition final_aus :: "byte list \<Rightarrow> drain_state \<Rightarrow> accessUnit list" where
  "final_aus b d = d_aus d @ (if d_auStart d < length b
     then [\<lparr>au_data = drop (d_auStart d) b, au_isKeyframe = d_auHasIDR d\<rparr>] else [])"

lemma Flush_final: "snd (Flush b) = (if splitNALUs b = [] then []
    else final_aus b (fold (drain_nal b) (splitNALUs b) (drain_init (n_start (hd (splitNALUs b))))))"
  by (simp add: Flush_def drain_def Let_def final_aus_def)

lemma restarted_final: "restarted e a d d' \<Longrightarrow> e \<le> length b \<Longrightarrow> final_aus b d = a @ final_aus (drop e b) d'"
  by (auto simp: restarted_def final_aus_def add.commute)

lemma splitNALUs_props:
  "sorted_wrt (<) (map n_start (splitNALUs b))" "list_all (\<lambda>n. n_start n \<le> length b) (splitNALUs b)"
  using nalus_from_starts [OF code_at_find, of b 0] by (auto simp: splitNALUs_def list_all_iff)

text \<open>What a drain keeps back is enough: more input gives the same as if nothing had been drained.\<close>

lemma drain_restart:
  "snd (drain False b) @ snd (Flush (fst (drain False b) @ x)) = snd (Flush (b @ x))"
proof (cases "splitNALUs b = [] \<or>
    d_emittedEnd (fold (drain_nal b) (splitNALUs b) (drain_init (n_start (hd (splitNALUs b))))) = 0")
  case True
  then have "fst (drain False b) = b" by (auto simp: drain_def Let_def)
  moreover have "snd (drain False b) = []"
    using True no_emission [of "n_start (hd (splitNALUs b))" "splitNALUs b" b] splitNALUs_props(1)
    by (auto simp: drain_def Let_def)
  ultimately show ?thesis by simp
next
  case False
  let ?ns = "splitNALUs b" and ?B = "b @ x"
  let ?s = "n_start (hd ?ns)"
  let ?d = "fold (drain_nal b) ?ns (drain_init ?s)"
  have ne: "?ns \<noteq> []" and em: "d_emittedEnd ?d > 0" using False by auto
  then have out: "drain False b = (drop (d_emittedEnd ?d) b, d_aus ?d)" by (simp add: drain_def Let_def)
  have fp: "findStartCode ?B 0 = findStartCode b 0"
    using ne findStartCode_append [of b 0] by (cases "findStartCode b 0") (auto simp: splitNALUs_def)
  obtain ms ns' where st: "map forget (splitNALUs ?B) = ms @ ns'"
    "map forget ?ns = ms \<or> (\<exists>n. map forget ?ns = ms @ [n] \<and> \<not> startsNewAU n)"
    using nalus_from_append [of b "findStartCode b 0" x, OF code_at_find] fp by (auto simp: splitNALUs_def)
  let ?q = "fold (drain_nal b) ms (drain_init ?s)"
  have fd: "?d = fold (drain_nal b) (map forget ?ns) (drain_init ?s)" by (simp only: fold_drain_forget)
  have dd: "d_aus ?q = d_aus ?d" "d_emittedEnd ?q = d_emittedEnd ?d"
    using st(2) unfolding fd by (elim disjE exE conjE; simp add: drain_nal_quiet)+
  with em obtain m1 n m2 where m: "ms = m1 @ n # m2" "startsNewAU n" "d_seenVCL (fold (drain_nal b) m1 (drain_init ?s))"
    "d_emittedEnd ?d = n_start n" "d_aus ?d = d_aus (drain_nal b n (fold (drain_nal b) m1 (drain_init ?s)))"
    using last_emission [of b ms ?s] by metis
  obtain L1 N L2 where L: "splitNALUs ?B = L1 @ N # L2" "map forget L1 = m1" "forget N = n"
    using st(1) unfolding m(1) by (auto simp: map_eq_append_conv map_eq_Cons_conv)
  let ?e = "n_start N"
  have e: "?e = n_start n" using L(3) by auto
  have m_in: "set ms \<subseteq> set (map forget ?ns)" using st(2) by (elim disjE exE conjE) (simp_all del: set_map, auto)
  have le: "list_all (\<lambda>k. n_start k \<le> length b) (m1 @ [n])"
    using m_in splitNALUs_props(2) [of b] unfolding m(1) by (auto simp: list_all_iff)
  have eb: "?e \<le> length b" using le e by simp
  have hd: "n_start (hd (splitNALUs ?B)) = ?s"
  proof -
    have "ms \<noteq> []" using m(1) by simp
    then have "hd (map forget (splitNALUs ?B)) = hd ms" "hd (map forget ?ns) = hd ms" using st by auto
    moreover have "splitNALUs ?B \<noteq> []" using L by simp
    ultimately show ?thesis using ne by (metis forget_sel(1) hd_map)
  qed
  let ?f = "fold (drain_nal ?B) L1 (drain_init ?s)"
  have f: "?f = fold (drain_nal b) m1 (drain_init ?s)"
    using fold_drain_append [of b m1 x] le fold_drain_forget [of ?B L1] L(2) by auto
  have tailc: "code_at ?B (Some (?e, startCodeLen ?B ?e))" "nalus_from ?B (Some (?e, startCodeLen ?B ?e)) = N # L2"
    using nalus_from_tail [of ?B "findStartCode ?B 0" L1 N L2, OF code_at_find] L(1) by (auto simp: splitNALUs_def)
  have eB: "?e \<le> length ?B" using eb by simp
  have f0: "findStartCode (drop ?e ?B) 0 = Some (0, startCodeLen ?B ?e)"
    using findStartCodeI [of 0 0 "drop ?e ?B"] tailc(1) startCodeLen_drop [OF eB, of 0] by (simp add: code_at_def)
  have tail: "map (shiftN ?e) (splitNALUs (drop ?e ?B)) = N # L2"
    using nalus_from_drop [OF eB code_at_find [of _ 0]] tailc(2) unfolding splitNALUs_def f0
    by (simp add: shift_def)
  then obtain N' L2' where t: "splitNALUs (drop ?e ?B) = N' # L2'" "shiftN ?e N' = N" "map (shiftN ?e) L2' = L2" by auto
  have n0: "n_start N' = 0" using arg_cong [OF t(2), of n_start] by (simp add: shiftN_def)
  have r1: "restarted ?e (d_aus ?d) (drain_nal ?B N ?f) (drain_nal (drop ?e ?B) N' (drain_init 0))"
  proof -
    have "drain_nal ?B N ?f = drain_nal b n (fold (drain_nal b) m1 (drain_init ?s))"
      using f drain_nal_append [of n b x] eb e L(3) by (metis drain_nal_forget)
    moreover have ty: "n_type N' = n_type n"
      using arg_cong [OF t(2), of n_type] arg_cong [OF L(3), of n_type] by (simp add: shiftN_def)
    moreover have "isVCL N' = isVCL n" using ty by (simp add: isVCL_def)
    ultimately show ?thesis using m(2,3,5) e n0 by (auto simp: restarted_def drain_nal_sel drain_init_def)
  qed
  have "snd (Flush ?B) = final_aus ?B (fold (drain_nal ?B) L2 (drain_nal ?B N ?f))"
    using L(1) hd by (simp add: Flush_final)
  also have "\<dots> = d_aus ?d @ final_aus (drop ?e ?B) (fold (drain_nal (drop ?e ?B)) L2' (drain_nal (drop ?e ?B) N' (drain_init 0)))"
    using restarted_final [OF restarted_fold [OF eB r1, of L2'] eB] t(3) by simp
  also have "\<dots> = d_aus ?d @ snd (Flush (drop ?e ?B))" using t(1) n0 by (simp add: Flush_final)
  finally show ?thesis using out m(4) e eb by simp
qed

lemma push_all_flush:
  "(let (b, a) = push_all cs buf in a @ snd (Flush b)) = snd (Flush (buf @ concat cs))"
proof (induction cs arbitrary: buf)
  case (Cons c cs)
  have "(let (b, a) = push_all (c # cs) buf in a @ snd (Flush b)) =
      snd (drain False (buf @ c)) @ (let (b, a) = push_all cs (fst (drain False (buf @ c))) in a @ snd (Flush b))"
    by (simp add: Push_def Let_def case_prod_unfold)
  also have "\<dots> = snd (Flush (buf @ concat (c # cs)))" using Cons drain_restart [of "buf @ c" "concat cs"] by simp
  finally show ?case .
qed simp

text \<open>No byte is lost.\<close>

lemma grouped_bytes:
  assumes "sorted_wrt (<) (map n_start ns)" "list_all (\<lambda>n. s \<le> n_start n \<and> n_start n \<le> length b) ns" "s \<le> length b"
  shows "let d = fold (drain_nal b) ns (drain_init s) in
    s \<le> d_auStart d \<and> d_auStart d \<le> length b \<and> (d_auStart d = s \<or> d_auStart d \<in> set (map n_start ns))
    \<and> concat (map au_data (d_aus d)) = byte_slice b s (d_auStart d)"
  using assms
proof (induction ns rule: rev_induct)
  case (snoc n ns)
  let ?d = "fold (drain_nal b) ns (drain_init s)"
  have ih: "s \<le> d_auStart ?d" "d_auStart ?d \<le> length b" "d_auStart ?d = s \<or> d_auStart ?d \<in> set (map n_start ns)"
    "concat (map au_data (d_aus ?d)) = byte_slice b s (d_auStart ?d)"
    using snoc by (simp_all add: sorted_wrt_append Let_def)
  have le: "d_auStart ?d \<le> n_start n" using ih(3) snoc(2,3) by (auto simp: sorted_wrt_append intro: less_imp_le)
  have "byte_slice b s (d_auStart ?d) @ byte_slice b (d_auStart ?d) (n_start n) = byte_slice b s (n_start n)"
  proof -
    define i where "i = d_auStart ?d - s"
    have a: "d_auStart ?d = i + s" using ih(1) by (simp add: i_def)
    with le obtain k where k: "n_start n = i + s + k" using le_Suc_ex by metis
    have "n_start n - s = i + k" using k by simp
    then show ?thesis unfolding byte_slice_def a using take_add [of i k "drop s b"] k by simp
  qed
  then show ?case using ih snoc(3) by (auto simp: Let_def drain_nal_sel)
qed (simp add: drain_init_def byte_slice_def)

section \<open>Properties\<close>

text \<open>
  C25. The splitter does not care how the stream was cut. However the bytes of ffmpeg's output arrive
  in chunks (start codes and byte_slice headers cut anywhere), the access units are those of the whole
  stream.
\<close>

theorem split_chunk_independent:
  "split_stream chunks = split_stream [concat chunks]"
  using push_all_flush [of chunks "[]"] push_all_flush [of "[concat chunks]" "[]"]
  by (simp add: split_stream_def NewAnnexBSplitter_def)

text \<open>
  The splitter loses nothing. The access units, one after the other, are the stream from its first
  NAL unit on; a stream without one gives none.
\<close>

theorem split_lossless:
  "concat (map au_data (split_stream chunks)) =
     (case splitNALUs (concat chunks) of
        [] \<Rightarrow> []
      | n # _ \<Rightarrow> drop (n_start n) (concat chunks))"
proof (cases "splitNALUs (concat chunks)")
  case Nil
  then show ?thesis using push_all_flush [of chunks "[]"]
    by (simp add: split_stream_def NewAnnexBSplitter_def Flush_final)
next
  case (Cons n ns)
  let ?b = "concat chunks" and ?s = "n_start n"
  have "list_all (\<lambda>k. ?s \<le> n_start k \<and> n_start k \<le> length ?b) (n # ns)" "sorted_wrt (<) (map n_start (n # ns))"
    using splitNALUs_props [of ?b] Cons by (auto simp: list_all_iff intro: less_imp_le)
  from grouped_bytes [OF this(2,1)] this(1)
  have g: "let d = fold (drain_nal ?b) (n # ns) (drain_init ?s) in
     ?s \<le> d_auStart d \<and> d_auStart d \<le> length ?b \<and> concat (map au_data (d_aus d)) = byte_slice ?b ?s (d_auStart d)"
    by (simp add: Let_def)
  have sl: "byte_slice ?b ?s i @ drop i ?b = drop ?s ?b" if "?s \<le> i" for i
    using that append_take_drop_id [of "i - ?s" "drop ?s ?b"] by (simp add: byte_slice_def)
  have "concat (map au_data (final_aus ?b d)) = drop ?s ?b"
    if "?s \<le> d_auStart d" "d_auStart d \<le> length ?b" "concat (map au_data (d_aus d)) = byte_slice ?b ?s (d_auStart d)" for d
    using that sl [of "d_auStart d"] by (auto simp: final_aus_def byte_slice_def)
  then show ?thesis using g push_all_flush [of chunks "[]"] Cons
    by (simp add: split_stream_def NewAnnexBSplitter_def Flush_final Let_def)
qed

end
