(* ===== verification/EncoderProps.thy ===== *)
theory EncoderProps
  imports Encoder AnnexBProps
begin

text \<open>
  Properties of the encoder: the command line, the restart protocol behind \<^verbatim>\<open>SetBitrate\<close> and
  \<^verbatim>\<open>ForceKeyframe\<close>, the queues with their drop policies, and the reader on top of the splitter.
\<close>

section \<open>Queues\<close>

interpretation enqf: drop_oldest enqueueFrame
proof unfold_locales
  fix c :: "VideoFrame chan" and x
  assume c: "\<not> ch_closed c" "0 < ch_cap c" "length (ch_buf c) = ch_cap c"
  then show "ch_buf (enqueueFrame x c) = tl (ch_buf c) @ [x]"
    by (cases "ch_buf c") (auto simp: enqueueFrame_def try_send_buf can_send_def)
qed (auto simp: enqueueFrame_def try_send_buf)

lemma push_packet_cases:
  assumes "chan_ok ch" "\<not> ch_closed ch" "0 < ch_cap ch"
  shows "can_send ch \<and> ch_buf (push_packet pkt ch) = ch_buf ch @ [pkt]
    \<or> (\<exists>old rest. ch_buf ch = old # rest \<and> ep_IsKeyframe old \<and> ch_buf (push_packet pkt ch) = rest @ [old])
    \<or> (\<exists>old rest. ch_buf ch = old # rest \<and> \<not> ep_IsKeyframe old \<and> ch_buf (push_packet pkt ch) = rest @ [pkt])"
proof (cases "can_send ch")
  case True
  then show ?thesis using assms by (simp add: push_packet_def try_send_buf)
next
  case False
  then have full: "length (ch_buf ch) = ch_cap ch" using assms by (simp add: chan_ok_def can_send_def)
  then obtain old rest where "ch_buf ch = old # rest" using assms(3) by (cases "ch_buf ch") auto
  then show ?thesis using False assms full
    by (cases "ep_IsKeyframe old") (auto simp: push_packet_def try_send_buf can_send_def)
qed

lemma push_packet_ok:
  assumes "chan_ok ch" "\<not> ch_closed ch" "0 < ch_cap ch"
  shows "chan_ok (push_packet pkt ch) \<and> \<not> ch_closed (push_packet pkt ch) \<and> ch_cap (push_packet pkt ch) = ch_cap ch"
  using assms
  by (auto simp: push_packet_def split: list.split intro!: chan_ok_try_send chan_ok_drop_one)

section \<open>Restarts\<close>

text \<open>
  \<^verbatim>\<open>Run\<close> and \<^verbatim>\<open>runSubprocess\<close> among the goroutines they share the encoder with: where the loop is (the
  command line built but not started yet, a running ffmpeg, one being stopped, for a restart or for
  good, one that has exited by itself), the number of callers of \<^verbatim>\<open>SetBitrate\<close> and \<^verbatim>\<open>ForceKeyframe\<close> that
  have stored their change but not yet sent the restart signal, and whether the context has ended.
\<close>

datatype loop_pc = Launching | Starting "string list" | Running "string list" | Stopping bool
  | Exited "string option" | Returned "(enc_error + string) option"

record loop_state =
  ls_enc :: Encoder
  ls_callers :: nat
  ls_ctxDone :: bool
  ls_pc :: loop_pc

definition loop_start :: "Encoder \<Rightarrow> loop_state" where
  "loop_start e = \<lparr>ls_enc = e, ls_callers = 0, ls_ctxDone = False, ls_pc = Launching\<rparr>"

definition close_outputs :: "Encoder \<Rightarrow> Encoder" where
  "close_outputs e = e\<lparr>enc_packets := close_chan (enc_packets e), enc_errs := close_chan (enc_errs e)\<rparr>"

definition return_with :: "(enc_error + string) option \<Rightarrow> loop_state \<Rightarrow> loop_state" where
  "return_with r s = s\<lparr>ls_enc := close_outputs (ls_enc s), ls_pc := Returned r\<rparr>"

text \<open>
  The steps of \<^verbatim>\<open>Run\<close> itself. A pipe or the start can fail, for whatever reason; the start does not
  succeed with a context that has ended.
\<close>

inductive run_step :: "loop_state \<Rightarrow> loop_state \<Rightarrow> bool" where
  build: "ls_pc s = Launching \<Longrightarrow> currentArgs (ls_enc s) = Inr args \<Longrightarrow> run_step s (s\<lparr>ls_pc := Starting args\<rparr>)"
| build_fails: "ls_pc s = Launching \<Longrightarrow> currentArgs (ls_enc s) = Inl err \<Longrightarrow> run_step s (return_with (Some (Inl err)) s)"
| start: "ls_pc s = Starting args \<Longrightarrow> \<not> ls_ctxDone s \<Longrightarrow> run_step s (s\<lparr>ls_pc := Running args\<rparr>)"
| start_fails: "ls_pc s = Starting args \<Longrightarrow> run_step s (return_with (Some (Inr err)) s)"
| takes_ctx: "ls_pc s = Running args \<Longrightarrow> ls_ctxDone s \<Longrightarrow> run_step s (s\<lparr>ls_pc := Stopping False\<rparr>)"
| takes_restart: "ls_pc s = Running args \<Longrightarrow> ch_buf (enc_restart (ls_enc s)) \<noteq> [] \<Longrightarrow>
    run_step s (s\<lparr>ls_enc := (ls_enc s)\<lparr>enc_restart := drop_one (enc_restart (ls_enc s))\<rparr>, ls_pc := Stopping True\<rparr>)"
| takes_exit: "ls_pc s = Running args \<Longrightarrow> run_step s (s\<lparr>ls_pc := Exited waitErr\<rparr>)"
| relaunch: "ls_pc s = Stopping True \<Longrightarrow> \<not> ls_ctxDone s \<Longrightarrow> run_step s (s\<lparr>ls_pc := Launching\<rparr>)"
| stopped: "ls_pc s = Stopping restart \<Longrightarrow> ls_ctxDone s \<or> \<not> restart \<Longrightarrow> run_step s (return_with None s)"
| reported: "ls_pc s = Exited waitErr \<Longrightarrow>
    run_step s (return_with None (s\<lparr>ls_enc := reportSubprocessExit waitErr readErr (ls_enc s)\<rparr>))"

text \<open>The other goroutines: callers, the reader of ffmpeg's output, and whoever ends the context.\<close>

inductive encoder_step :: "loop_state \<Rightarrow> loop_state \<Rightarrow> bool" where
  run: "run_step s t \<Longrightarrow> encoder_step s t"
| set_bitrate: "SetBitrate_store bps (ls_enc s) = (e, changed) \<Longrightarrow>
    encoder_step s (s\<lparr>ls_enc := e, ls_callers := ls_callers s + of_bool changed\<rparr>)"
| force: "ForceKeyframe_store now (ls_enc s) = (e, go) \<Longrightarrow>
    encoder_step s (s\<lparr>ls_enc := e, ls_callers := ls_callers s + of_bool go\<rparr>)"
| signal: "ls_callers s = Suc n \<Longrightarrow> encoder_step s (s\<lparr>ls_enc := request_restart (ls_enc s), ls_callers := n\<rparr>)"
| emit: "(case ls_pc s of Running _ \<Rightarrow> True | Stopping _ \<Rightarrow> True | Exited _ \<Rightarrow> True | _ \<Rightarrow> False) \<Longrightarrow>
    encoder_step s (s\<lparr>ls_enc := emitPacket au (ls_enc s)\<rparr>)"
| ctx_ends: "encoder_step s (s\<lparr>ls_ctxDone := True\<rparr>)"

definition restart_inv :: "loop_state \<Rightarrow> bool" where
  "restart_inv s \<longleftrightarrow> (let e = ls_enc s in
     Options_normalise (enc_opts e) = enc_opts e \<and> Options_Validate (enc_opts e) = None
     \<and> ch_cap (enc_restart e) = 1 \<and> \<not> ch_closed (enc_restart e) \<and> chan_ok (enc_restart e)
     \<and> (\<forall>args. (ls_pc s = Starting args \<or> ls_pc s = Running args) \<and> currentArgs e \<noteq> Inr args \<longrightarrow>
          0 < ls_callers s \<or> ch_buf (enc_restart e) \<noteq> [])
     \<and> (\<forall>err. ls_pc s \<noteq> Returned (Some (Inl err))))"

lemma BuildArgs_valid: "Options_Validate (Options_normalise opt) = None \<Longrightarrow> \<exists>args. BuildArgs opt = Inr args"
  by (auto simp: BuildArgs_def Let_def inputArgs_def Options_Validate_def split: PixelFormat.splits if_splits)

lemma inv_args: "restart_inv s \<Longrightarrow> \<exists>args. currentArgs (ls_enc s) = Inr args"
  using BuildArgs_valid [of "enc_opts (ls_enc s)"] by (auto simp: restart_inv_def currentArgs_def Let_def)

lemma encoder_sel [simp]:
  "enc_opts (close_outputs e) = enc_opts e" "enc_restart (close_outputs e) = enc_restart e"
  "enc_opts (reportSubprocessExit w r e) = enc_opts e" "enc_restart (reportSubprocessExit w r e) = enc_restart e"
  "enc_opts (emitPacket au e) = enc_opts e" "enc_restart (emitPacket au e) = enc_restart e"
  by (simp_all add: close_outputs_def reportSubprocessExit_def emitPacket_def Let_def)

lemma restart_inv_run: "run_step s t \<Longrightarrow> restart_inv s \<Longrightarrow> restart_inv t"
proof (induction rule: run_step.induct)
  case (build_fails s err)
  then show ?case using inv_args by fastforce
qed (auto simp: restart_inv_def return_with_def currentArgs_def Let_def intro!: chan_ok_drop_one)

lemma SetBitrate_store_cases:
  assumes "SetBitrate_store bps e = (e', changed)"
  obtains "e' = e" "\<not> changed" | "e' = e\<lparr>enc_opts := (enc_opts e)\<lparr>o_Bitrate := bps\<rparr>\<rparr>" "0 < bps" "changed"
  using assms by (auto simp: SetBitrate_store_def split: if_splits)

lemma set_bitrate_opts:
  "Options_normalise opt = opt \<Longrightarrow> 0 < bps \<Longrightarrow> Options_normalise (opt\<lparr>o_Bitrate := bps\<rparr>) = opt\<lparr>o_Bitrate := bps\<rparr>"
  "Options_Validate (opt\<lparr>o_Bitrate := bps\<rparr>) = Options_Validate opt"
proof -
  show "Options_normalise (opt\<lparr>o_Bitrate := bps\<rparr>) = opt\<lparr>o_Bitrate := bps\<rparr>"
    if "Options_normalise opt = opt" "0 < bps"
  proof -
    have "Options_normalise (opt\<lparr>o_Bitrate := bps\<rparr>) = (Options_normalise opt)\<lparr>o_Bitrate := bps\<rparr>"
      using that(2) by (simp add: Options_normalise_def)
    with that(1) show ?thesis by simp
  qed
qed (simp add: Options_Validate_def split: PixelFormat.split)

lemma restart_inv_step: "encoder_step s t \<Longrightarrow> restart_inv s \<Longrightarrow> restart_inv t"
proof (induction rule: encoder_step.induct)
  case (set_bitrate bps s e changed)
  from set_bitrate(1) show ?case
  proof (cases rule: SetBitrate_store_cases)
    case 2
    then show ?thesis using set_bitrate(2) set_bitrate_opts [where opt = "enc_opts (ls_enc s)" and bps = bps]
      by (simp add: restart_inv_def Let_def)
  qed (use set_bitrate(2) in \<open>simp add: restart_inv_def Let_def\<close>)
next
  case (signal s n)
  then show ?case
    by (auto simp: restart_inv_def request_restart_def currentArgs_def try_send_buf can_send_def Let_def intro!: chan_ok_try_send)
qed (auto simp: restart_inv_run, auto simp: restart_inv_def ForceKeyframe_store_def currentArgs_def Let_def split: if_splits option.splits)

lemma normalise_idem: "Options_normalise (Options_normalise opt) = Options_normalise opt"
  by (simp add: Options_normalise_def split: option.split)

lemma restart_inv_init: "Encoder_New opts = Inr e \<Longrightarrow> restart_inv (loop_start e)"
  by (auto simp: Encoder_New_def Let_def restart_inv_def loop_start_def normalise_idem split: option.splits)

lemma restart_reach:
  assumes "Encoder_New opts = Inr e0" "encoder_step\<^sup>*\<^sup>* (loop_start e0) s"
  shows "restart_inv s"
  using assms(2) by induction (auto simp: restart_inv_init [OF assms(1)] intro: restart_inv_step)

text \<open>Once the signal has been taken, the loop gets to a command line of the options as they are.\<close>

lemma restart_taken:
  assumes inv: "restart_inv s" and pc: "ls_pc s = Running args" and sig: "ch_buf (enc_restart (ls_enc s)) \<noteq> []"
    and ctx: "\<not> ls_ctxDone s"
  shows "\<exists>t args'. run_step\<^sup>*\<^sup>* s t \<and> ls_pc t = Starting args' \<and> currentArgs (ls_enc s) = Inr args'
    \<and> ls_enc t = (ls_enc s)\<lparr>enc_restart := drop_one (enc_restart (ls_enc s))\<rparr> \<and> run_step t (t\<lparr>ls_pc := Running args'\<rparr>)"
proof -
  let ?e = "(ls_enc s)\<lparr>enc_restart := drop_one (enc_restart (ls_enc s))\<rparr>"
  obtain args' where a: "currentArgs (ls_enc s) = Inr args'" using inv_args [OF inv] by blast
  have a': "currentArgs ?e = Inr args'" using a by (simp add: currentArgs_def)
  let ?s1 = "s\<lparr>ls_enc := ?e, ls_pc := Stopping True\<rparr>" and ?s2 = "s\<lparr>ls_enc := ?e, ls_pc := Launching\<rparr>"
    and ?t = "s\<lparr>ls_enc := ?e, ls_pc := Starting args'\<rparr>"
  have "run_step s ?s1" using run_step.takes_restart [OF pc sig] by simp
  moreover have "run_step ?s1 ?s2" using run_step.relaunch [of ?s1] ctx by simp
  moreover have "run_step ?s2 ?t" using run_step.build [of ?s2 args'] a' by simp
  ultimately have "run_step\<^sup>*\<^sup>* s ?t" by (meson converse_rtranclp_into_rtranclp r_into_rtranclp)
  moreover have "run_step ?t (?t\<lparr>ls_pc := Running args'\<rparr>)" using run_step.start [of ?t args'] ctx by simp
  ultimately show ?thesis using a by (intro exI [of _ ?t] exI [of _ args']) simp
qed

text \<open>
  The sequential reading of one subprocess, \<^const>\<open>runSubprocess\<close>, is one of its interleavings: its
  output is emitted while ffmpeg runs, and the loop ends up where the result says.
\<close>

lemma read_loop_emits: "\<exists>aus. fst (read_loop rs buf e) = fold emitPacket aus e"
proof (induction rs buf e rule: read_loop.induct)
  case (1 buf e)
  show ?case by (rule exI [of _ "[]"]) simp
next
  case (2 bs st rs buf e)
  obtain buf1 aus where p: "(if bs = [] then (buf, []) else Push bs buf) = (buf1, aus)" by fastforce
  have "\<exists>bs'. fst (read_loop rs buf1 (fold emitPacket aus e)) = fold emitPacket bs' (fold emitPacket aus e)" if "st = ReadOK"
    using 2 [OF p [symmetric] refl refl that] .
  then obtain bs' where "st = ReadOK \<longrightarrow> fst (read_loop rs buf1 (fold emitPacket aus e)) = fold emitPacket (aus @ bs') e" by auto
  moreover have "fold emitPacket (snd (Flush buf1)) (fold emitPacket aus e) = fold emitPacket (aus @ snd (Flush buf1)) e" by simp
  ultimately show ?case using p by (cases st) (auto simp: Let_def simp del: fold_append)
qed

abbreviation loop_at :: "Encoder \<Rightarrow> nat \<Rightarrow> bool \<Rightarrow> loop_pc \<Rightarrow> loop_state" where
  "loop_at e n c pc \<equiv> \<lparr>ls_enc = e, ls_callers = n, ls_ctxDone = c, ls_pc = pc\<rparr>"

lemma emit_run: "encoder_step\<^sup>*\<^sup>* (loop_at e n c (Running args)) (loop_at (fold emitPacket aus e) n c (Running args))"
proof (induction aus arbitrary: e)
  case (Cons au aus)
  have "encoder_step (loop_at e n c (Running args)) (loop_at (emitPacket au e) n c (Running args))"
    using encoder_step.emit [of "loop_at e n c (Running args)" au] by simp
  with Cons.IH [of "emitPacket au e"] show ?case by (simp add: converse_rtranclp_into_rtranclp)
qed simp

lemma emits_restart: "enc_restart (fold emitPacket aus e) = enc_restart e"
  by (induction aus arbitrary: e) simp_all

lemma runSubprocess_steps:
  assumes run: "runSubprocess (reads, how) e = (e1, Inr res)"
    and r: "how = TakesRestart \<Longrightarrow> ch_buf (enc_restart e) \<noteq> []"
  shows "encoder_step\<^sup>*\<^sup>* (loop_at e n False Launching) (case res of
      Inl err \<Rightarrow> loop_at (close_outputs e1) n False (Returned (Some (Inr err)))
    | Inr True \<Rightarrow> loop_at e1 n False (Stopping True)
    | Inr False \<Rightarrow> loop_at (close_outputs e1) n (how = CtxEnds) (Returned None))"
proof -
  obtain args where a: "currentArgs e = Inr args" using run by (auto simp: runSubprocess_def split: sum.splits)
  obtain e2 err where rd: "readPackets reads e = (e2, err)" by fastforce
  obtain aus where aus: "e2 = fold emitPacket aus e"
    using read_loop_emits [of reads NewAnnexBSplitter e] rd by (auto simp: readPackets_def)
  have s1: "encoder_step\<^sup>*\<^sup>* (loop_at e n False Launching) (loop_at e n False (Starting args))"
    using encoder_step.run [OF run_step.build [of "loop_at e n False Launching" args]] a by auto
  have "encoder_step (loop_at e n False (Starting args)) (loop_at e n False (Running args))"
    using encoder_step.run [OF run_step.start [of "loop_at e n False (Starting args)" args]] by simp
  from rtranclp_trans [OF rtranclp.rtrancl_into_rtrancl [OF s1 this] emit_run [of e n False args aus]]
  have s3: "encoder_step\<^sup>*\<^sup>* (loop_at e n False Launching) (loop_at e2 n False (Running args))" by (simp only: aus)
  note go = rtranclp.rtrancl_into_rtrancl [OF s3]
  show ?thesis
  proof (cases how)
    case (SetupFails x)
    then show ?thesis using run a rd rtranclp.rtrancl_into_rtrancl [OF s1
          encoder_step.run [OF run_step.start_fails [of "loop_at e n False (Starting args)" args x]]]
      by (simp add: runSubprocess_def return_with_def) (auto)
  next
    case CtxEnds
    have 1: "encoder_step (loop_at e2 n False (Running args)) (loop_at e2 n True (Running args))"
      using encoder_step.ctx_ends [of "loop_at e2 n False (Running args)"] by simp
    have 2: "encoder_step (loop_at e2 n True (Running args)) (loop_at e2 n True (Stopping False))"
      using encoder_step.run [OF run_step.takes_ctx [of "loop_at e2 n True (Running args)" args]] by simp
    have 3: "encoder_step (loop_at e2 n True (Stopping False)) (loop_at (close_outputs e2) n True (Returned None))"
      using encoder_step.run [OF run_step.stopped [of "loop_at e2 n True (Stopping False)" False]] by (simp add: return_with_def)
    show ?thesis using CtxEnds run a rd rtranclp.rtrancl_into_rtrancl [OF rtranclp.rtrancl_into_rtrancl [OF go [OF 1] 2] 3]
      by (auto simp: runSubprocess_def)
  next
    case TakesRestart
    then have "ch_buf (enc_restart e2) \<noteq> []" using r by (simp add: aus emits_restart)
    then have "encoder_step (loop_at e2 n False (Running args)) (loop_at (e2\<lparr>enc_restart := drop_one (enc_restart e2)\<rparr>) n False (Stopping True))"
      using encoder_step.run [OF run_step.takes_restart [of "loop_at e2 n False (Running args)" args]] by simp
    from go [OF this] show ?thesis using TakesRestart run a rd by (auto simp: runSubprocess_def)
  next
    case (FFmpegExits w)
    have 1: "encoder_step (loop_at e2 n False (Running args)) (loop_at e2 n False (Exited w))"
      using encoder_step.run [OF run_step.takes_exit [of "loop_at e2 n False (Running args)" args w]] by simp
    have 2: "encoder_step (loop_at e2 n False (Exited w)) (loop_at (close_outputs (reportSubprocessExit w err e2)) n False (Returned None))"
      using encoder_step.run [OF run_step.reported [of "loop_at e2 n False (Exited w)" w err]] by (simp add: return_with_def)
    show ?thesis using FFmpegExits run a rd rtranclp.rtrancl_into_rtrancl [OF go [OF 1] 2]
      by (auto simp: runSubprocess_def)
  qed
qed

lemma OutputArgs_split:
  "\<exists>c d. OutputArgs codec opt = [''-c:v'', Codec_Name codec] @ c @ rateControlArgs opt @ gopArgs opt @ d"
  by (cases codec) (simp_all add: CodecLibX264_def codec_args, (metis append_Cons append_Nil)+)

lemma inputArgs_split: "o_InputFormat opt \<noteq> PixelFormatUnknown \<Longrightarrow> \<exists>a. inputArgs opt = Inr (a @ [''-i'', ''pipe:0''])"
  by (cases "o_InputFormat opt") (simp_all add: inputArgs_def)

lemma BuildArgs_split:
  assumes "0 < o_Width opt" "0 < o_Height opt" "o_InputFormat opt \<noteq> PixelFormatUnknown"
  shows "\<exists>a b c d. BuildArgs opt = Inr (a @ [''-i'', ''pipe:0''] @ b
      @ [''-c:v'', Codec_Name (case o_Codec opt of None \<Rightarrow> LibX264 | Some c \<Rightarrow> c)] @ c
      @ rateControlArgs (Options_normalise opt) @ gopArgs (Options_normalise opt)
      @ d @ [''-f'', ''h264'', ''-bsf:v'', ''h264_mp4toannexb'', ''pipe:1''])"
proof -
  let ?o = "Options_normalise opt"
  have n: "o_Width ?o = o_Width opt" "o_Height ?o = o_Height opt" "o_InputFormat ?o = o_InputFormat opt"
    "the (o_Codec ?o) = (case o_Codec opt of None \<Rightarrow> LibX264 | Some c \<Rightarrow> c)"
    by (simp_all add: Options_normalise_def split: option.split)
  have v: "Options_Validate ?o = None"
    using assms n by (cases "o_InputFormat opt") (simp_all add: Options_Validate_def)
  obtain a where a: "inputArgs ?o = Inr (a @ [''-i'', ''pipe:0''])" using inputArgs_split [of ?o] n assms by auto
  obtain c d where cd: "OutputArgs (the (o_Codec ?o)) ?o =
      [''-c:v'', Codec_Name (the (o_Codec ?o))] @ c @ rateControlArgs ?o @ gopArgs ?o @ d"
    using OutputArgs_split by blast
  have "BuildArgs opt = Inr (([''-hide_banner'', ''-loglevel'', ''error'', ''-fflags'', ''nobuffer'']
      @ InitArgs (the (o_Codec ?o)) @ a) @ [''-i'', ''pipe:0''] @ FilterArgs (the (o_Codec ?o))
      @ [''-c:v'', Codec_Name (the (o_Codec ?o))] @ c @ rateControlArgs ?o @ gopArgs ?o @ d
      @ [''-f'', ''h264'', ''-bsf:v'', ''h264_mp4toannexb'', ''pipe:1''])"
    by (simp add: BuildArgs_def Let_def v a cd)
  then show ?thesis unfolding n(4) by blast
qed

lemma sublist_concat:
  assumes "sublist x y" "y \<in> set yss"
  shows "sublist x (concat yss)"
proof -
  obtain p q where "yss = p @ y # q" using assms(2) by (meson split_list)
  moreover obtain u v where "y = u @ x @ v" using assms(1) by (auto simp: sublist_def)
  ultimately have "concat yss = (concat p @ u) @ x @ (v @ concat q)" by simp
  then show ?thesis unfolding sublist_def by blast
qed

section \<open>Forced keyframes\<close>

text \<open>The times at which calls of \<^verbatim>\<open>ForceKeyframe\<close>, made at the given times, ask for a restart.\<close>

fun forced_at :: "instant list \<Rightarrow> Encoder \<Rightarrow> instant list" where
  "forced_at [] e = []"
| "forced_at (t # ts) e =
     (case ForceKeyframe_store t e of
        (e', True) \<Rightarrow> t # forced_at ts e'
      | (e', False) \<Rightarrow> forced_at ts e')"

lemma forced_at_spaced:
  assumes "enc_lastForce e = Some l"
  shows "successively (\<lambda>a b. b - a \<ge> Second) (l # forced_at ts e)"
  using assms
proof (induction ts arbitrary: e l)
  case (Cons t ts)
  show ?case
  proof (cases "t - l < Second")
    case True
    then have "ForceKeyframe_store t e = (e, False)" using Cons.prems by (simp add: ForceKeyframe_store_def forceKeyframeDebounce_def)
    then show ?thesis using Cons by simp
  next
    case False
    let ?e = "e\<lparr>enc_lastForce := Some t\<rparr>"
    have "ForceKeyframe_store t e = (?e, True)" using Cons.prems False by (simp add: ForceKeyframe_store_def forceKeyframeDebounce_def)
    then show ?thesis using Cons.IH [of ?e t] False by simp
  qed
qed simp

section \<open>The reader\<close>

lemma read_loop_chunks:
  "read_loop (map (\<lambda>c. (c, ReadOK)) cs @ [(lst, ReadEOF)]) buf e =
     (fold emitPacket (let (b, a) = push_all (filter (\<lambda>c. c \<noteq> []) (cs @ [lst])) buf in a @ snd (Flush b)) e, None)"
  by (induction cs arbitrary: buf e) (auto simp: Let_def case_prod_unfold)

lemma concat_nonempty: "concat (filter (\<lambda>c. c \<noteq> []) cs) = concat cs"
  by (induction cs) auto

lemma writeFrames_bytes:
  assumes "chan_ok q" "\<not> ch_closed q" "0 < ch_cap q"
    and "list_all (\<lambda>f. frame_fits opt f) (ch_buf q)"
  shows "\<exists>fs. snd (writeFrames opt es (q, stdin)) = stdin @ concat (map vf_Data fs)
    \<and> list_all (frame_fits opt) fs \<and> subseq fs (ch_buf q @ [f. FrameIn f \<leftarrow> es])"
  using assms
proof (induction es arbitrary: q stdin)
  case Nil
  then show ?case by (intro exI [of _ "[]"]) simp
next
  case (Cons ev es)
  let ?in = "[f. FrameIn f \<leftarrow> es]"
  show ?case
  proof (cases ev)
    case (FrameIn f)
    let ?q = "if frame_fits opt f then enqueueFrame f q else q"
    let ?k = "Suc (length (ch_buf q)) - ch_cap q"
    have e: "chan_ok (enqueueFrame f q)" "\<not> ch_closed (enqueueFrame f q)" "0 < ch_cap (enqueueFrame f q)"
      "ch_buf (enqueueFrame f q) = drop ?k (ch_buf q @ [f])"
      using Cons.prems enqf.push_ok enqf.push_closed enqf.push_cap enqf.push_suffix by auto
    have all: "list_all (frame_fits opt) (ch_buf ?q)"
      using e(4) Cons.prems(4) by (auto simp: list_all_iff dest!: in_set_dropD)
    obtain fs where fs: "snd (writeFrames opt es (?q, stdin)) = stdin @ concat (map vf_Data fs)"
      "list_all (frame_fits opt) fs" "subseq fs (ch_buf ?q @ ?in)"
      using Cons.IH [of ?q stdin] Cons.prems e all by (auto split: if_splits)
    have "subseq (drop ?k (ch_buf q @ [f])) (ch_buf q @ [f])" by (rule suffix_imp_subseq [OF suffix_drop])
    moreover have "subseq (ch_buf q) (ch_buf q @ [f])" by (rule prefix_imp_subseq) simp
    ultimately have "subseq (ch_buf ?q) (ch_buf q @ [f])" using e(4) by simp
    then have "subseq (ch_buf ?q @ ?in) ((ch_buf q @ [f]) @ ?in)" by (rule list_emb_append_mono) simp
    with fs(3) have "subseq fs ((ch_buf q @ [f]) @ ?in)" by (rule subseq_order.trans)
    with fs FrameIn show ?thesis by (intro exI [of _ fs]) simp
  next
    case WriterTakes
    show ?thesis
    proof (cases "ch_buf q")
      case Nil
      then show ?thesis using Cons.IH [of q stdin] Cons.prems WriterTakes by simp
    next
      case (Cons f rest)
      have "chan_ok (drop_one q)" "ch_buf (drop_one q) = rest" using Cons.prems(1) Cons by (simp_all add: chan_ok_drop_one)
      then obtain fs where "snd (writeFrames opt es (drop_one q, stdin @ vf_Data f)) = (stdin @ vf_Data f) @ concat (map vf_Data fs)"
        "list_all (frame_fits opt) fs" "subseq fs (rest @ ?in)"
        using Cons.IH [of "drop_one q" "stdin @ vf_Data f"] Cons.prems Cons by auto
      then show ?thesis using Cons Cons.prems(4) WriterTakes by (intro exI [of _ "f # fs"]) simp
    qed
  qed
qed

section \<open>Properties\<close>

text \<open>
  C19. A bitrate change is never lost while the encoder runs. In every interleaving of callers, the reader,
  the end of the context and the supervision loop, an ffmpeg that runs or is being started with a command
  line other than the one of the current options has a restart signal pending or a caller about to send
  it; there is never more than one signal; and \<^verbatim>\<open>Run\<close> never returns because a command line cannot be
  built. While the context lives, a running ffmpeg with a signal pending can be stopped and replaced: the
  loop's own steps lead to the start of an ffmpeg with exactly the current options, which then runs unless
  its pipes or \<^verbatim>\<open>cmd.Start\<close> fail.
\<close>

theorem bitrate_change_applied:
  assumes "Encoder_New opts = Inr e0" "encoder_step\<^sup>*\<^sup>* (loop_start e0) s"
  shows "(\<forall>args. (ls_pc s = Starting args \<or> ls_pc s = Running args) \<and> currentArgs (ls_enc s) \<noteq> Inr args \<longrightarrow>
        0 < ls_callers s \<or> ch_buf (enc_restart (ls_enc s)) \<noteq> [])
    \<and> length (ch_buf (enc_restart (ls_enc s))) \<le> 1
    \<and> (\<forall>err. ls_pc s \<noteq> Returned (Some (Inl err)))
    \<and> (\<forall>args. ls_pc s = Running args \<longrightarrow> ch_buf (enc_restart (ls_enc s)) \<noteq> [] \<longrightarrow> \<not> ls_ctxDone s \<longrightarrow>
        (\<exists>t args'. run_step\<^sup>*\<^sup>* s t \<and> ls_pc t = Starting args' \<and> currentArgs (ls_enc s) = Inr args'
          \<and> ls_enc t = (ls_enc s)\<lparr>enc_restart := drop_one (enc_restart (ls_enc s))\<rparr>
          \<and> run_step t (t\<lparr>ls_pc := Running args'\<rparr>)))"
proof -
  have inv: "restart_inv s" by (rule restart_reach [OF assms])
  then show ?thesis using restart_taken [OF inv] by (intro conjI) (auto simp: restart_inv_def chan_ok_def Let_def)
qed

definition ex_encoder :: Encoder where
  "ex_encoder = projr (Encoder_New (DefaultOptions 1280 720 30 PixelFormatYUYV))"

lemma ex_Encoder_New: "Encoder_New (DefaultOptions 1280 720 30 PixelFormatYUYV) = Inr ex_encoder"
  by (simp add: ex_encoder_def Encoder_New_def DefaultOptions_def Options_normalise_def Options_Validate_def Let_def)

definition ex_args :: "string list" where "ex_args = projr (currentArgs ex_encoder)"

text \<open>The bitrate is changed while the first ffmpeg runs, and the caller sends the signal.\<close>

definition ex_changed :: Encoder where
  "ex_changed = request_restart (fst (SetBitrate_store 2000000 ex_encoder))"

theorem bitrate_change_applied_witness:
  "\<exists>t args'. o_Bitrate (enc_opts ex_changed) = 2000000 \<and> currentArgs ex_changed = Inr args'
     \<and> run_step\<^sup>*\<^sup>* (loop_start ex_changed\<lparr>ls_pc := Running ex_args\<rparr>) t \<and> ls_pc t = Starting args'"
proof -
  let ?e = "fst (SetBitrate_store 2000000 ex_encoder)"
  let ?s = "\<lambda>e n pc. \<lparr>ls_enc = e, ls_callers = n, ls_ctxDone = False, ls_pc = pc\<rparr>"
  have "Options_Validate (Options_normalise (enc_opts ex_encoder)) = None" by code_simp
  then have a: "currentArgs ex_encoder = Inr ex_args"
    using BuildArgs_valid [of "enc_opts ex_encoder"] by (auto simp: ex_args_def currentArgs_def)
  have 1: "encoder_step (loop_start ex_encoder) (?s ex_encoder 0 (Starting ex_args))"
    using encoder_step.run [OF run_step.build [of "loop_start ex_encoder"]] a by (simp add: loop_start_def)
  have 2: "encoder_step (?s ex_encoder 0 (Starting ex_args)) (?s ex_encoder 0 (Running ex_args))"
    using encoder_step.run [OF run_step.start [of "?s ex_encoder 0 (Starting ex_args)"]] by simp
  have "SetBitrate_store 2000000 ex_encoder = (?e, True)" by code_simp
  then have 3: "encoder_step (?s ex_encoder 0 (Running ex_args)) (?s ?e 1 (Running ex_args))"
    using encoder_step.set_bitrate [of 2000000 "?s ex_encoder 0 (Running ex_args)" ?e True] by simp
  have 4: "encoder_step (?s ?e 1 (Running ex_args)) (?s ex_changed 0 (Running ex_args))"
    using encoder_step.signal [of "?s ?e 1 (Running ex_args)" 0] by (simp add: ex_changed_def)
  have r: "encoder_step\<^sup>*\<^sup>* (loop_start ex_encoder) (?s ex_changed 0 (Running ex_args))"
    using 1 2 3 4 by (meson converse_rtranclp_into_rtranclp r_into_rtranclp)
  have b: "ch_buf (enc_restart ex_changed) \<noteq> []" by code_simp
  have n: "o_Bitrate (enc_opts ex_changed) = 2000000" by code_simp
  note last = conjunct2 [OF conjunct2 [OF conjunct2 [OF bitrate_change_applied [OF ex_Encoder_New r]]]]
  have eq: "loop_start ex_changed\<lparr>ls_pc := Running ex_args\<rparr> = ?s ex_changed 0 (Running ex_args)" by (simp add: loop_start_def)
  obtain t args' where t: "run_step\<^sup>*\<^sup>* (?s ex_changed 0 (Running ex_args)) t" "ls_pc t = Starting args'"
    "currentArgs ex_changed = Inr args'"
    using last [rule_format, of ex_args] b by auto
  show ?thesis unfolding eq using n t by blast
qed

text \<open>
  A storm of keyframe requests restarts ffmpeg at most once a second.
\<close>

theorem force_keyframe_debounced:
  "successively (\<lambda>a b. b - a \<ge> Second) (forced_at ts e)"
proof (induction ts arbitrary: e)
  case (Cons t ts)
  show ?case
  proof (cases "ForceKeyframe_store t e")
    case (Pair e' ok)
    show ?thesis
    proof (cases ok)
      case True
      then have "enc_lastForce e' = Some t" using Pair by (auto simp: ForceKeyframe_store_def split: option.splits if_splits)
      then show ?thesis using forced_at_spaced [of e' t ts] Pair True by simp
    next
      case False
      then show ?thesis using Cons Pair by simp
    qed
  qed
qed simp

text \<open>
  The command line honours the options. For every codec it selects that encoder, asks for the
  effective bitrate as target and as maximum, forbids B-frames, reads the frames from standard input
  and writes Annex-B to standard output.
\<close>

theorem build_args_shape:
  assumes "0 < o_Width opt" "0 < o_Height opt" "o_InputFormat opt \<noteq> PixelFormatUnknown"
  shows "\<exists>args. BuildArgs opt = Inr args
    \<and> (let br = Itoa (if o_Bitrate opt \<le> 0 then 6000000 else o_Bitrate opt)
       in sublist [''-b:v'', br, ''-maxrate'', br] args)
    \<and> sublist [''-c:v'', Codec_Name (case o_Codec opt of None \<Rightarrow> LibX264 | Some c \<Rightarrow> c)] args
    \<and> sublist [''-bf'', ''0''] args \<and> sublist [''-i'', ''pipe:0''] args
    \<and> suffix [''-f'', ''h264'', ''-bsf:v'', ''h264_mp4toannexb'', ''pipe:1''] args"
proof -
  obtain a b c d where args: "BuildArgs opt = Inr (a @ [''-i'', ''pipe:0''] @ b
      @ [''-c:v'', Codec_Name (case o_Codec opt of None \<Rightarrow> LibX264 | Some c \<Rightarrow> c)] @ c
      @ rateControlArgs (Options_normalise opt) @ gopArgs (Options_normalise opt)
      @ d @ [''-f'', ''h264'', ''-bsf:v'', ''h264_mp4toannexb'', ''pipe:1''])"
    using BuildArgs_split [OF assms] by blast
  let ?r = "rateControlArgs (Options_normalise opt)" and ?g = "gopArgs (Options_normalise opt)"
  let ?br = "Itoa (if o_Bitrate opt \<le> 0 then 6000000 else o_Bitrate opt)"
  have "?r = [] @ [''-b:v'', ?br, ''-maxrate'', ?br] @ drop 4 ?r" "?g = take 4 ?g @ [''-bf'', ''0'']"
    by (simp_all add: rateControlArgs_def gopArgs_def Options_normalise_def)
  then have rg: "sublist [''-b:v'', ?br, ''-maxrate'', ?br] ?r" "sublist [''-bf'', ''0''] ?g"
    unfolding sublist_def by (metis, metis append_Nil2)
  let ?c = "[''-c:v'', Codec_Name (case o_Codec opt of None \<Rightarrow> LibX264 | Some c \<Rightarrow> c)]"
  let ?l = "[a, [''-i'', ''pipe:0''], b, ?c, c, ?r, ?g, d, [''-f'', ''h264'', ''-bsf:v'', ''h264_mp4toannexb'', ''pipe:1'']]"
  have "BuildArgs opt = Inr (concat ?l)" using args by simp
  moreover have "suffix [''-f'', ''h264'', ''-bsf:v'', ''h264_mp4toannexb'', ''pipe:1''] (concat ?l)"
    unfolding suffix_def by (rule exI [of _ "concat (butlast ?l)"]) simp
  ultimately show ?thesis unfolding Let_def
    using sublist_concat [OF rg(1), of ?l] sublist_concat [OF rg(2), of ?l]
      sublist_concat [of ?c ?c ?l] sublist_concat [of "[''-i'', ''pipe:0'']" "[''-i'', ''pipe:0'']" ?l]
    by (intro exI [of _ "concat ?l"] conjI) (simp_all only: list.set insert_iff simp_thms sublist_order.order.refl)
qed

theorem build_args_shape_witness:
  "\<exists>args. BuildArgs (DefaultOptions 1280 720 30 PixelFormatNV12) = Inr args
    \<and> sublist [''-c:v'', ''libx264''] args \<and> sublist [''-bf'', ''0''] args"
  using build_args_shape [of "DefaultOptions 1280 720 30 PixelFormatNV12"] by (auto simp: DefaultOptions_def)

text \<open>
  The packet queue keeps the keyframes it holds: whatever is emitted, no keyframe that is waiting
  for a slow consumer is evicted, and the queue stays within its bound.
\<close>

theorem queued_keyframes_kept:
  assumes "chan_ok (enc_packets e)" "\<not> ch_closed (enc_packets e)" "0 < ch_cap (enc_packets e)"
  shows "chan_ok (enc_packets (emitPacket au e))
    \<and> set (filter ep_IsKeyframe (ch_buf (enc_packets e))) \<subseteq> set (ch_buf (enc_packets (emitPacket au e)))"
  using push_packet_cases [OF assms, of "packet_of au e"] push_packet_ok [OF assms, of "packet_of au e"]
  by (auto simp: emitPacket_def)

theorem queued_keyframes_kept_witness:
  "chan_ok (enc_packets (emitPacket \<lparr>au_data = [1], au_isKeyframe = True\<rparr> ex_encoder))"
proof -
  have "chan_ok (enc_packets ex_encoder)" "\<not> ch_closed (enc_packets ex_encoder)" "0 < ch_cap (enc_packets ex_encoder)"
    by code_simp+
  then show ?thesis using queued_keyframes_kept [of ex_encoder "\<lparr>au_data = [1], au_isKeyframe = True\<rparr>"] by blast
qed

text \<open>
  The price of that: with a full queue whose oldest packet is a keyframe, emitting a packet drops
  the new one, even a keyframe, and moves the old keyframe behind the packets that depend on it, out
  of the order of presentation.
\<close>

definition ex_full :: Encoder where
  "ex_full = fold emitPacket [\<lparr>au_data = [1], au_isKeyframe = True\<rparr>, \<lparr>au_data = [2], au_isKeyframe = False\<rparr>,
     \<lparr>au_data = [3], au_isKeyframe = False\<rparr>, \<lparr>au_data = [4], au_isKeyframe = False\<rparr>] ex_encoder"

theorem keyframe_requeued_out_of_order:
  "map ep_Data (ch_buf (enc_packets ex_full)) = [[1], [2], [3], [4]]
   \<and> map ep_Data (ch_buf (enc_packets (emitPacket \<lparr>au_data = [5], au_isKeyframe = True\<rparr> ex_full))) = [[2], [3], [4], [1]]
   \<and> \<not> sorted (map ep_PTS (ch_buf (enc_packets (emitPacket \<lparr>au_data = [5], au_isKeyframe = True\<rparr> ex_full))))"
  by code_simp

text \<open>
  C29. The reader emits the access units of the whole output. Reading the subprocess to its end emits
  exactly the access units of the concatenated output, in order, whatever the sizes of the reads.
\<close>

theorem reader_emits_stream:
  "readPackets (map (\<lambda>c. (c, ReadOK)) cs @ [(lst, ReadEOF)]) e =
     (fold emitPacket (split_stream [concat (cs @ [lst])]) e, None)"
proof -
  have "(let (b, a) = push_all (filter (\<lambda>c. c \<noteq> []) (cs @ [lst])) [] in a @ snd (Flush b)) = snd (Flush (concat (cs @ [lst])))"
    using push_all_flush [of "filter (\<lambda>c. c \<noteq> []) (cs @ [lst])" "[]"] concat_nonempty [of "cs @ [lst]"] by simp
  then show ?thesis using push_all_flush [of "[concat (cs @ [lst])]" "[]"]
    by (simp only: readPackets_def read_loop_chunks split_stream_def NewAnnexBSplitter_def) simp
qed

text \<open>
  Only frames of the configured geometry reach ffmpeg: its standard input is the concatenation of
  some of the captured frames, in order, all of the configured format and size.
\<close>

theorem stdin_frames_fit:
  "\<exists>fs. snd (writeFrames opt es (make_chan frameQueueSize, [])) = concat (map vf_Data fs)
    \<and> list_all (frame_fits opt) fs \<and> subseq fs [f. FrameIn f \<leftarrow> es]"
  using writeFrames_bytes [of "make_chan frameQueueSize" opt es "[]"] by (simp add: frameQueueSize_def)

end
