(* ===== verification/Configuration.thy ===== *)
theory Configuration
  imports Encoder Floats
begin

text \<open>
  The configuration of the host (\<^verbatim>\<open>playgate-host/internal/config/config.go\<close>): its sections, the
  defaults that \<^verbatim>\<open>Load\<close> overlays the file on, and the validation. The YAML library is a parameter:
  the function that overlays a file on a configuration, or fails.
\<close>

section \<open>Sections\<close>

definition CaptureV4L2 :: string where "CaptureV4L2 = ''v4l2''"
definition CaptureSynthetic :: string where "CaptureSynthetic = ''synthetic''"
definition InputNXBT :: string where "InputNXBT = ''nxbt''"
definition InputLog :: string where "InputLog = ''log''"

record CaptureConfig =
  cc_Source :: string
  cc_Device :: string
  cc_Width :: int
  cc_Height :: int
  cc_FPS :: int
  cc_Format :: string

record EncoderConfig =
  ec_Bitrate :: int
  ec_Preset :: string
  ec_KeyframeInterval :: int
  ec_FFmpegPath :: string
  ec_Codec :: string
  ec_VAAPIDevice :: string

record AudioConfig =
  auc_Enabled :: bool
  auc_Device :: string
  auc_SampleRate :: int
  auc_Channels :: int
  auc_Bitrate :: int
  auc_FFmpegPath :: string

record ABRConfig =
  abc_Enabled :: bool
  abc_MinBitrate :: int
  abc_MaxBitrate :: int
  abc_LossThreshold :: rat
  abc_SampleIntervalMS :: int
  abc_CooldownSeconds :: int

record WebRTCConfig =
  wc_ICEServers :: "string list"

record InputConfig =
  inc_Target :: string
  inc_SocketPath :: string
  inc_RateHz :: int
  inc_DisabledButtons :: "string list"

record SessionConfig =
  sc_Enabled :: bool
  sc_PublicKeyBase64 :: string
  sc_PublicKeyFile :: string
  sc_IdleTimeoutSeconds :: int

record SignalingConfig =
  sgc_URL :: string
  sgc_RoomID :: string
  sgc_Token :: string
  sgc_PollIntervalMS :: int
  sgc_UseTURN :: bool

record MetricsConfig =
  mc_ReportIntervalSeconds :: int
  mc_ListenAddr :: string

record ServerConfig =
  svc_URL :: string
  svc_APIKey :: string
  svc_HeartbeatIntervalSeconds :: int

record HostConfig =
  hc_Capture :: CaptureConfig
  hc_Encoder :: EncoderConfig
  hc_Audio :: AudioConfig
  hc_ABR :: ABRConfig
  hc_WebRTC :: WebRTCConfig
  hc_Input :: InputConfig
  hc_Session :: SessionConfig
  hc_Signaling :: SignalingConfig
  hc_Metrics :: MetricsConfig
  hc_Server :: ServerConfig

section \<open>Defaults and validation\<close>

definition config_Default :: HostConfig where
  "config_Default =
     \<lparr>hc_Capture = \<lparr>cc_Source = CaptureV4L2, cc_Device = ''/dev/video0'', cc_Width = 1280, cc_Height = 720,
                    cc_FPS = 30, cc_Format = ''YUYV''\<rparr>,
      hc_Encoder = \<lparr>ec_Bitrate = 6000000, ec_Preset = ''ultrafast'', ec_KeyframeInterval = 60,
                    ec_FFmpegPath = ''ffmpeg'', ec_Codec = CodecLibX264, ec_VAAPIDevice = []\<rparr>,
      hc_Audio = \<lparr>auc_Enabled = False, auc_Device = ''default'', auc_SampleRate = 48000, auc_Channels = 2,
                  auc_Bitrate = 128000, auc_FFmpegPath = []\<rparr>,
      hc_ABR = \<lparr>abc_Enabled = False, abc_MinBitrate = 1000000, abc_MaxBitrate = 8000000,
                abc_LossThreshold = f64 (5 / 100), abc_SampleIntervalMS = 2000, abc_CooldownSeconds = 10\<rparr>,
      hc_WebRTC = \<lparr>wc_ICEServers = [''stun:stun.l.google.com:19302'']\<rparr>,
      hc_Input = \<lparr>inc_Target = InputNXBT, inc_SocketPath = ''/run/nxbt/nxbt.sock'', inc_RateHz = 120,
                  inc_DisabledButtons = []\<rparr>,
      hc_Session = \<lparr>sc_Enabled = False, sc_PublicKeyBase64 = [], sc_PublicKeyFile = [], sc_IdleTimeoutSeconds = 0\<rparr>,
      hc_Signaling = \<lparr>sgc_URL = ''http://localhost:8787'', sgc_RoomID = ''default'', sgc_Token = [],
                      sgc_PollIntervalMS = 500, sgc_UseTURN = False\<rparr>,
      hc_Metrics = \<lparr>mc_ReportIntervalSeconds = 5, mc_ListenAddr = ''127.0.0.1:9091''\<rparr>,
      hc_Server = \<lparr>svc_URL = [], svc_APIKey = [], svc_HeartbeatIntervalSeconds = 30\<rparr>\<rparr>"

datatype config_error = ReadConfig | ParseConfig
  | BadCaptureSource string | BadResolution int int | BadFPS int | BadBitrate int | BadCodec string
  | AudioNeedsDevice | BadAudioFormat int int | BadAudioBitrate int
  | BadABRBounds int int | ABRMaxBelowMin int int | BadLossThreshold rat
  | BadInputTarget string | SessionNeedsKey | EmptySignalingURL | EmptyRoomID

text \<open>The first check that fails decides.\<close>

definition check_capture :: "CaptureConfig \<Rightarrow> config_error option" where
  "check_capture c =
     (if cc_Source c \<noteq> [] \<and> cc_Source c \<noteq> CaptureV4L2 \<and> cc_Source c \<noteq> CaptureSynthetic
      then Some (BadCaptureSource (cc_Source c))
      else if cc_Width c \<le> 0 \<or> cc_Height c \<le> 0 then Some (BadResolution (cc_Width c) (cc_Height c))
      else if cc_FPS c \<le> 0 then Some (BadFPS (cc_FPS c))
      else None)"

definition check_encoder :: "EncoderConfig \<Rightarrow> config_error option" where
  "check_encoder c =
     (if ec_Bitrate c \<le> 0 then Some (BadBitrate (ec_Bitrate c))
      else if ec_Codec c \<notin> {[], CodecLibX264, CodecV4L2M2M, CodecVAAPI, CodecNVENC} then Some (BadCodec (ec_Codec c))
      else None)"

definition check_audio :: "AudioConfig \<Rightarrow> config_error option" where
  "check_audio c =
     (if \<not> auc_Enabled c then None
      else if auc_Device c = [] then Some AudioNeedsDevice
      else if auc_SampleRate c \<le> 0 \<or> auc_Channels c \<le> 0 then Some (BadAudioFormat (auc_SampleRate c) (auc_Channels c))
      else if auc_Bitrate c \<le> 0 then Some (BadAudioBitrate (auc_Bitrate c))
      else None)"

definition check_abr :: "ABRConfig \<Rightarrow> config_error option" where
  "check_abr c =
     (if \<not> abc_Enabled c then None
      else if abc_MinBitrate c \<le> 0 \<or> abc_MaxBitrate c \<le> 0 then Some (BadABRBounds (abc_MinBitrate c) (abc_MaxBitrate c))
      else if abc_MaxBitrate c < abc_MinBitrate c then Some (ABRMaxBelowMin (abc_MaxBitrate c) (abc_MinBitrate c))
      else if abc_LossThreshold c < 0 \<or> abc_LossThreshold c \<ge> 1 then Some (BadLossThreshold (abc_LossThreshold c))
      else None)"

definition check_rest :: "HostConfig \<Rightarrow> config_error option" where
  "check_rest c =
     (if inc_Target (hc_Input c) \<notin> {[], InputNXBT, InputLog} then Some (BadInputTarget (inc_Target (hc_Input c)))
      else if sc_Enabled (hc_Session c) \<and> sc_PublicKeyBase64 (hc_Session c) = [] \<and> sc_PublicKeyFile (hc_Session c) = []
      then Some SessionNeedsKey
      else if sgc_URL (hc_Signaling c) = [] then Some EmptySignalingURL
      else if sgc_RoomID (hc_Signaling c) = [] then Some EmptyRoomID
      else None)"

fun first_error :: "'e option list \<Rightarrow> 'e option" where
  "first_error [] = None"
| "first_error (None # es) = first_error es"
| "first_error (Some e # es) = Some e"

definition config_Validate :: "HostConfig \<Rightarrow> config_error option" where
  "config_Validate c =
     first_error [check_capture (hc_Capture c), check_encoder (hc_Encoder c), check_audio (hc_Audio c),
       check_abr (hc_ABR c), check_rest c]"

definition config_Load :: "string option \<Rightarrow> (string \<Rightarrow> HostConfig \<Rightarrow> HostConfig option) \<Rightarrow> config_error + HostConfig" where
  "config_Load file yaml =
     (case file of
        None \<Rightarrow> Inl ReadConfig
      | Some data \<Rightarrow>
          (case yaml data config_Default of
             None \<Rightarrow> Inl ParseConfig
           | Some cfg \<Rightarrow> (case config_Validate cfg of Some err \<Rightarrow> Inl err | None \<Rightarrow> Inr cfg)))"

definition CaptureSourceKind :: "HostConfig \<Rightarrow> string" where
  "CaptureSourceKind c = (if cc_Source (hc_Capture c) = [] then CaptureV4L2 else cc_Source (hc_Capture c))"

definition InputTargetKind :: "HostConfig \<Rightarrow> string" where
  "InputTargetKind c = (if inc_Target (hc_Input c) = [] then InputNXBT else inc_Target (hc_Input c))"

definition EncoderCodecKind :: "HostConfig \<Rightarrow> string" where
  "EncoderCodecKind c = (if ec_Codec (hc_Encoder c) = [] then CodecLibX264 else ec_Codec (hc_Encoder c))"

section \<open>What a valid configuration guarantees\<close>

lemma first_error_None: "first_error es = None \<longleftrightarrow> list_all (\<lambda>e. e = None) es"
  by (induction es rule: first_error.induct) auto

lemma Load_valid: "config_Load file yaml = Inr cfg \<Longrightarrow> config_Validate cfg = None"
  by (auto simp: config_Load_def split: option.splits)

lemma valid_capture:
  "config_Validate c = None \<Longrightarrow>
   CaptureSourceKind c \<in> {CaptureV4L2, CaptureSynthetic} \<and> 0 < cc_Width (hc_Capture c)
   \<and> 0 < cc_Height (hc_Capture c) \<and> 0 < cc_FPS (hc_Capture c)"
  by (auto simp: config_Validate_def first_error_None check_capture_def CaptureSourceKind_def split: if_splits)

lemma valid_codec:
  "config_Validate c = None \<Longrightarrow> \<exists>k. CodecFromName (ec_Codec (hc_Encoder c)) dev = Inr k"
  by (auto simp: config_Validate_def first_error_None check_encoder_def CodecFromName_def split: if_splits)

lemma valid_codec_kind:
  "config_Validate c = None \<Longrightarrow> EncoderCodecKind c \<in> {CodecLibX264, CodecV4L2M2M, CodecVAAPI, CodecNVENC}"
  by (auto simp: config_Validate_def first_error_None check_encoder_def EncoderCodecKind_def split: if_splits)

lemma valid_input:
  "config_Validate c = None \<Longrightarrow> InputTargetKind c \<in> {InputNXBT, InputLog}"
  by (auto simp: config_Validate_def first_error_None check_rest_def InputTargetKind_def split: if_splits)

lemma Default_valid: "config_Validate config_Default = None"
  by code_simp

end
