(* ===== verification/Abr.thy ===== *)
theory Abr
  imports Configuration Peer
begin

text \<open>
  Adaptive bitrate: the AIMD controller (\<^verbatim>\<open>playgate-host/internal/abr/abr.go\<close>) and the runner that feeds
  it transport statistics and applies its decisions (\<^verbatim>\<open>internal/host/abr.go\<close>). Bitrates are 64-bit
  integers, fractions are \<^verbatim>\<open>float64\<close> values with their rounding.
\<close>

section \<open>Configuration\<close>

record AbrConfig =
  ac_Min :: int
  ac_Max :: int
  ac_Start :: int
  ac_LossThreshold :: rat
  ac_DecreaseFactor :: rat
  ac_IncreaseStep :: int
  ac_Cooldown :: duration
  ac_CleanWindow :: duration
  ac_MinChangeFraction :: rat

definition abr_DefaultConfig :: AbrConfig where
  "abr_DefaultConfig =
     \<lparr>ac_Min = 1000000, ac_Max = 8000000, ac_Start = 4000000, ac_LossThreshold = f64 (5 / 100),
      ac_DecreaseFactor = f64 (8 / 10), ac_IncreaseStep = 500000, ac_Cooldown = 10 * Second,
      ac_CleanWindow = 5 * Second, ac_MinChangeFraction = f64 (1 / 10)\<rparr>"

definition clamp :: "int \<Rightarrow> int \<Rightarrow> int \<Rightarrow> int" where
  "clamp v lo hi = (if v < lo then lo else if v > hi then hi else v)"

definition abr_normalise :: "AbrConfig \<Rightarrow> AbrConfig" where
  "abr_normalise c =
     (let d = abr_DefaultConfig;
          mn = (if ac_Min c \<le> 0 then ac_Min d else ac_Min c);
          mx1 = (if ac_Max c \<le> 0 then ac_Max d else ac_Max c);
          mx = (if mx1 < mn then mn else mx1);
          st = (if ac_Start c \<le> 0 then ac_Start d else ac_Start c)
      in \<lparr>ac_Min = mn, ac_Max = mx, ac_Start = clamp st mn mx,
          ac_LossThreshold = (if ac_LossThreshold c \<le> 0 then ac_LossThreshold d else ac_LossThreshold c),
          ac_DecreaseFactor = (if ac_DecreaseFactor c \<le> 0 \<or> ac_DecreaseFactor c \<ge> 1 then ac_DecreaseFactor d
                               else ac_DecreaseFactor c),
          ac_IncreaseStep = (if ac_IncreaseStep c \<le> 0 then ac_IncreaseStep d else ac_IncreaseStep c),
          ac_Cooldown = (if ac_Cooldown c \<le> 0 then ac_Cooldown d else ac_Cooldown c),
          ac_CleanWindow = (if ac_CleanWindow c \<le> 0 then ac_CleanWindow d else ac_CleanWindow c),
          ac_MinChangeFraction = (if ac_MinChangeFraction c < 0 then ac_MinChangeFraction d
                                  else ac_MinChangeFraction c)\<rparr>)"

datatype abr_config_error = AbrBoundsNotPositive int int | AbrMaxBelowMin int int | AbrBadThreshold rat

definition abr_Validate :: "AbrConfig \<Rightarrow> abr_config_error option" where
  "abr_Validate c =
     (if ac_Min c \<le> 0 \<or> ac_Max c \<le> 0 then Some (AbrBoundsNotPositive (ac_Min c) (ac_Max c))
      else if ac_Max c < ac_Min c then Some (AbrMaxBelowMin (ac_Max c) (ac_Min c))
      else if ac_LossThreshold c \<le> 0 \<or> ac_LossThreshold c \<ge> 1 then Some (AbrBadThreshold (ac_LossThreshold c))
      else None)"

section \<open>The controller\<close>

datatype Reason = ReasonNone | ReasonDecrease | ReasonIncrease

fun Reason_String :: "Reason \<Rightarrow> string" where
  "Reason_String ReasonDecrease = ''decrease''"
| "Reason_String ReasonIncrease = ''increase''"
| "Reason_String ReasonNone = ''none''"

record Decision =
  dec_Target :: int
  dec_Changed :: bool
  dec_Reason :: Reason

record Controller =
  ct_cfg :: AbrConfig
  ct_target :: int
  ct_lastChange :: instant
  ct_cleanSince :: instant
  ct_haveCleanTS :: bool

definition abr_New :: "AbrConfig \<Rightarrow> instant \<Rightarrow> Controller" where
  "abr_New cfg0 now =
     (let cfg = abr_normalise cfg0
      in \<lparr>ct_cfg = cfg, ct_target = ac_Start cfg, ct_lastChange = now, ct_cleanSince = 0, ct_haveCleanTS = False\<rparr>)"

text \<open>The clean-window timer is maintained first, whatever the cooldown says.\<close>

definition update_clean :: "instant \<Rightarrow> rat \<Rightarrow> Controller \<Rightarrow> Controller" where
  "update_clean now loss c =
     (if loss > ac_LossThreshold (ct_cfg c) then c\<lparr>ct_haveCleanTS := False\<rparr>
      else if \<not> ct_haveCleanTS c then c\<lparr>ct_cleanSince := now, ct_haveCleanTS := True\<rparr>
      else c)"

definition no_change :: "Controller \<Rightarrow> Decision" where
  "no_change c = \<lparr>dec_Target = ct_target c, dec_Changed = False, dec_Reason = ReasonNone\<rparr>"

text \<open>The candidate before clamping: a multiplicative decrease, an additive increase, or none.\<close>

definition abr_candidate :: "instant \<Rightarrow> rat \<Rightarrow> Controller \<Rightarrow> (int \<times> Reason) option" where
  "abr_candidate now loss c =
     (if loss > ac_LossThreshold (ct_cfg c)
      then Some (trunc (f64 (f64 (of_int (ct_target c)) * ac_DecreaseFactor (ct_cfg c))), ReasonDecrease)
      else if ct_haveCleanTS c \<and> now - ct_cleanSince c \<ge> ac_CleanWindow (ct_cfg c)
      then Some (wrap64 (ct_target c + ac_IncreaseStep (ct_cfg c)), ReasonIncrease)
      else None)"

definition too_small :: "int \<Rightarrow> Controller \<Rightarrow> bool" where
  "too_small candidate c \<longleftrightarrow>
     candidate = ct_target c \<or>
     f64 (of_int \<bar>candidate - ct_target c\<bar>) <
       f64 (ac_MinChangeFraction (ct_cfg c) * f64 (of_int (ct_target c)))"

definition abr_Observe :: "instant \<Rightarrow> rat \<Rightarrow> Controller \<Rightarrow> Controller \<times> Decision" where
  "abr_Observe now loss ctl =
     (let c = update_clean now loss ctl in
      if now - ct_lastChange c < ac_Cooldown (ct_cfg c) then (c, no_change c)
      else case abr_candidate now loss c of
             None \<Rightarrow> (c, no_change c)
           | Some (cand, reason) \<Rightarrow>
               (let candidate = clamp cand (ac_Min (ct_cfg c)) (ac_Max (ct_cfg c)) in
                if too_small candidate c then (c, no_change c)
                else (let c1 = c\<lparr>ct_target := candidate, ct_lastChange := now\<rparr>;
                          c2 = (if reason = ReasonIncrease then c1\<lparr>ct_cleanSince := now\<rparr> else c1)
                      in (c2, \<lparr>dec_Target = candidate, dec_Changed = True, dec_Reason = reason\<rparr>))))"

section \<open>The runner\<close>

record abrRunner =
  ar_ctrl :: Controller
  ar_interval :: duration

definition newABRRunnerWith :: "Controller \<Rightarrow> duration \<Rightarrow> abrRunner" where
  "newABRRunnerWith ctrl interval =
     \<lparr>ar_ctrl = ctrl, ar_interval = (if interval \<le> 0 then 2 * Second else interval)\<rparr>"

definition newABRRunner :: "HostConfig \<Rightarrow> instant \<Rightarrow> abrRunner option" where
  "newABRRunner cfg now =
     (if \<not> abc_Enabled (hc_ABR cfg) then None
      else
        (let acfg = \<lparr>ac_Min = abc_MinBitrate (hc_ABR cfg), ac_Max = abc_MaxBitrate (hc_ABR cfg),
                     ac_Start = ec_Bitrate (hc_Encoder cfg), ac_LossThreshold = abc_LossThreshold (hc_ABR cfg),
                     ac_DecreaseFactor = 0, ac_IncreaseStep = 0,
                     ac_Cooldown = seconds (abc_CooldownSeconds (hc_ABR cfg)),
                     ac_CleanWindow = 0, ac_MinChangeFraction = 0\<rparr>;
             interval0 = milliseconds (abc_SampleIntervalMS (hc_ABR cfg));
             interval = (if interval0 \<le> 0 then 2 * Second else interval0)
         in Some (newABRRunnerWith (abr_New acfg now) interval)))"

text \<open>One tick: the new runner and the bitrate handed to the encoder, if any.\<close>

definition abr_tick :: "instant \<Rightarrow> StatsSample \<Rightarrow> abrRunner \<Rightarrow> abrRunner \<times> int option" where
  "abr_tick now s a =
     (if \<not> st_Valid s then (a, None)
      else (let (c, d) = abr_Observe now (st_LossFraction s) (ar_ctrl a)
            in (a\<lparr>ar_ctrl := c\<rparr>, if dec_Changed d then Some (dec_Target d) else None)))"

text \<open>\<^verbatim>\<open>run\<close>: the bitrates applied at a sequence of ticks.\<close>

fun abr_run :: "(instant \<times> StatsSample) list \<Rightarrow> abrRunner \<Rightarrow> abrRunner \<times> (instant \<times> int) list" where
  "abr_run [] a = (a, [])"
| "abr_run ((now, s) # ts) a =
     (case abr_tick now s a of
        (a1, None) \<Rightarrow> abr_run ts a1
      | (a1, Some b) \<Rightarrow> (let (a2, bs) = abr_run ts a1 in (a2, (now, b) # bs)))"

section \<open>Lemmas\<close>

definition abr_inv :: "Controller \<Rightarrow> bool" where
  "abr_inv c \<longleftrightarrow> 0 < ac_Min (ct_cfg c) \<and> ac_Min (ct_cfg c) \<le> ct_target c \<and> ct_target c \<le> ac_Max (ct_cfg c)
     \<and> 0 < ac_Cooldown (ct_cfg c) \<and> 0 < ac_CleanWindow (ct_cfg c)"

lemma clamp_range: "lo \<le> hi \<Longrightarrow> lo \<le> clamp v lo hi \<and> clamp v lo hi \<le> hi"
  by (simp add: clamp_def)

lemma normalise_ok:
  "0 < ac_Min (abr_normalise c) \<and> ac_Min (abr_normalise c) \<le> ac_Start (abr_normalise c)
   \<and> ac_Start (abr_normalise c) \<le> ac_Max (abr_normalise c)
   \<and> 0 < ac_Cooldown (abr_normalise c) \<and> 0 < ac_CleanWindow (abr_normalise c)"
  by (auto simp: abr_normalise_def Let_def clamp_def abr_DefaultConfig_def Second_def)

lemma abr_inv_New: "abr_inv (abr_New cfg now)"
  using normalise_ok by (simp add: abr_inv_def abr_New_def Let_def)

lemma update_clean_sel [simp]:
  "ct_cfg (update_clean now loss c) = ct_cfg c" "ct_target (update_clean now loss c) = ct_target c"
  "ct_lastChange (update_clean now loss c) = ct_lastChange c"
  by (simp_all add: update_clean_def)

lemma Observe_cases:
  assumes "abr_Observe now loss c = (c', d)"
  shows "dec_Changed d \<and> ct_lastChange c' = now \<and> ac_Cooldown (ct_cfg c) \<le> now - ct_lastChange c \<and> dec_Target d = ct_target c'
      \<and> (\<exists>cand. abr_candidate now loss (update_clean now loss c) = Some (cand, dec_Reason d)
           \<and> ct_target c' = clamp cand (ac_Min (ct_cfg c)) (ac_Max (ct_cfg c)))
      \<and> \<not> too_small (ct_target c') (update_clean now loss c) \<and> ct_cfg c' = ct_cfg c
    \<or> \<not> dec_Changed d \<and> c' = update_clean now loss c \<and> dec_Target d = ct_target c \<and> dec_Reason d = ReasonNone"
  using assms
  by (auto simp: abr_Observe_def Let_def no_change_def split: if_splits option.splits)

lemma abr_inv_Observe: "abr_inv c \<Longrightarrow> abr_inv (fst (abr_Observe now loss c))"
  using Observe_cases [of now loss c "fst (abr_Observe now loss c)" "snd (abr_Observe now loss c)"]
  by (auto simp: abr_inv_def clamp_range)

lemma Observe_cfg [simp]: "ct_cfg (fst (abr_Observe now loss c)) = ct_cfg c"
  using Observe_cases [of now loss c "fst (abr_Observe now loss c)" "snd (abr_Observe now loss c)"] by auto

text \<open>
  A decrease with a factor below one by more than the rounding of the three operations never goes
  up.
\<close>

lemma decrease_le:
  assumes "0 \<le> t" "0 < f" "f \<le> 1 - 1 / 2 ^ 50"
  shows "trunc (f64 (f64 (of_int t) * f)) \<le> t"
proof -
  have t: "0 \<le> rat_of_int t" using assms(1) by simp
  have u: "f64 (of_int t) \<le> of_int t * (1 + 1 / 2 ^ 53)" "0 \<le> f64 (of_int t)"
    using f64_bounds [OF t] f64_nonneg [OF t] by simp_all
  have a: "f64 (of_int t) * f \<le> of_int t * (1 + 1 / 2 ^ 53) * (1 - 1 / 2 ^ 50)" "0 \<le> f64 (of_int t) * f"
  proof -
    have f: "f \<le> 1 - 1 / 2 ^ 50" "0 \<le> f" using assms by simp_all
    show "f64 (of_int t) * f \<le> of_int t * (1 + 1 / 2 ^ 53) * (1 - 1 / 2 ^ 50)"
      by (rule mult_mono [OF u(1) f(1) _ f(2)]) (use t in simp)
    show "0 \<le> f64 (of_int t) * f" by (rule mult_nonneg_nonneg [OF u(2) f(2)])
  qed
  have "f64 (f64 (of_int t) * f) \<le> (f64 (of_int t) * f) * (1 + 1 / 2 ^ 53)" using f64_bounds [OF a(2)] by simp
  also have "\<dots> \<le> of_int t * (1 + 1 / 2 ^ 53) * (1 - 1 / 2 ^ 50) * (1 + 1 / 2 ^ 53)"
    by (rule mult_right_mono [OF a(1)]) simp
  also have "\<dots> = of_int t * ((1 + 1 / 2 ^ 53) * (1 - 1 / 2 ^ 50) * (1 + 1 / 2 ^ 53))" by (simp only: mult.assoc)
  also have "\<dots> \<le> of_int t" using t by (intro mult_left_le) simp_all
  finally have le: "f64 (f64 (of_int t) * f) \<le> of_int t" .
  moreover have "0 \<le> f64 (f64 (of_int t) * f)" by (rule f64_nonneg [OF a(2)])
  ultimately show ?thesis by (simp add: trunc_def floor_le_iff)
qed

text \<open>The bitrates a controller commits to over a sequence of samples, with their times.\<close>

fun changes :: "(instant \<times> rat) list \<Rightarrow> Controller \<Rightarrow> (instant \<times> int) list" where
  "changes [] c = []"
| "changes ((now, loss) # ss) c =
     (case abr_Observe now loss c of (c', d) \<Rightarrow>
        (if dec_Changed d then [(now, dec_Target d)] else []) @ changes ss c')"

definition observed :: "(instant \<times> rat) list \<Rightarrow> Controller \<Rightarrow> Controller" where
  "observed ss c = fold (\<lambda>(now, loss) c. fst (abr_Observe now loss c)) ss c"

lemma observed_inv: "abr_inv c \<Longrightarrow> abr_inv (observed ss c) \<and> ct_cfg (observed ss c) = ct_cfg c"
  by (induction ss arbitrary: c) (auto simp: observed_def abr_inv_Observe)

lemma changes_spaced:
  "successively (\<lambda>a b. b - a \<ge> ac_Cooldown (ct_cfg c)) (ct_lastChange c # map fst (changes ss c))"
proof (induction ss c rule: changes.induct)
  case (2 now loss ss c)
  obtain c' d where o: "abr_Observe now loss c = (c', d)" by (cases "abr_Observe now loss c")
  note ih = 2 [OF o [symmetric]]
  from Observe_cases [OF o] show ?case
  proof
    assume "\<not> dec_Changed d \<and> c' = update_clean now loss c \<and> dec_Target d = ct_target c \<and> dec_Reason d = ReasonNone"
    with ih o show ?case by simp
  next
    assume a: "dec_Changed d \<and> ct_lastChange c' = now \<and> ac_Cooldown (ct_cfg c) \<le> now - ct_lastChange c \<and> dec_Target d = ct_target c'
      \<and> (\<exists>cand. abr_candidate now loss (update_clean now loss c) = Some (cand, dec_Reason d)
           \<and> ct_target c' = clamp cand (ac_Min (ct_cfg c)) (ac_Max (ct_cfg c)))
      \<and> \<not> too_small (ct_target c') (update_clean now loss c) \<and> ct_cfg c' = ct_cfg c"
    then have "ct_cfg c' = ct_cfg c" "ct_lastChange c' = now" "ac_Cooldown (ct_cfg c) \<le> now - ct_lastChange c" "dec_Changed d"
      by blast+
    with ih o show ?case by simp
  qed
qed simp

lemma run_changes:
  "snd (abr_run ts a) = changes (map (\<lambda>(now, s). (now, st_LossFraction s)) (filter (\<lambda>(now, s). st_Valid s) ts)) (ar_ctrl a)"
  by (induction ts a rule: abr_run.induct)
    (auto simp: abr_tick_def Let_def case_prod_unfold split: prod.splits if_splits option.splits)

text \<open>The last increase of the default configuration is the one that starts at five megabits.\<close>

lemma default_increase_bound:
  assumes "0 \<le> t" "\<not> f64 500000 < f64 (f64 (1 / 10) * f64 (of_int t))"
  shows "t \<le> 5000000"
proof (rule ccontr)
  assume "\<not> t \<le> 5000000"
  then have t: "5000001 \<le> rat_of_int t" by simp
  have k: "(1 / 10) * (1 - 1 / 2 ^ 53) \<le> f64 (1 / 10)" using f64_bounds [of "1 / 10"] by simp
  have "5000001 * (1 - 1 / 2 ^ 53) \<le> rat_of_int t * (1 - 1 / 2 ^ 53)" by (rule mult_right_mono [OF t]) simp
  also have "\<dots> \<le> f64 (of_int t)" using f64_bounds [of "rat_of_int t"] t by simp
  finally have u: "5000001 * (1 - 1 / 2 ^ 53) \<le> f64 (of_int t)" .
  have "((1 / 10) * (1 - 1 / 2 ^ 53)) * (5000001 * (1 - 1 / 2 ^ 53)) \<le> f64 (1 / 10) * f64 (of_int t)"
    by (rule mult_mono [OF k u]) (simp_all add: f64_nonneg)
  then have v: "500000 + 1 / 20 \<le> f64 (1 / 10) * f64 (of_int t)" by simp
  have "500000 < (500000 + 1 / 20) * (1 - 1 / 2 ^ 53 :: rat)" by simp
  also have "\<dots> \<le> (f64 (1 / 10) * f64 (of_int t)) * (1 - 1 / 2 ^ 53)" by (rule mult_right_mono [OF v]) simp
  also have "\<dots> \<le> f64 (f64 (1 / 10) * f64 (of_int t))" using f64_bounds [of "f64 (1 / 10) * f64 (of_int t)"] v by simp
  finally have "500000 < f64 (f64 (1 / 10) * f64 (of_int t))" .
  moreover have "f64 500000 = 500000" by code_simp
  ultimately show False using assms(2) by simp
qed

lemma default_normalised: "abr_normalise abr_DefaultConfig = abr_DefaultConfig"
proof -
  have "0 < (f64 (5 / 100) :: rat)" "0 < (f64 (8 / 10) :: rat)" "(f64 (8 / 10) :: rat) < 1" "0 \<le> (f64 (1 / 10) :: rat)"
    using f64_bounds [of "5 / 100"] f64_bounds [of "8 / 10"] f64_bounds [of "1 / 10"] by simp_all
  then show ?thesis by (simp add: abr_normalise_def abr_DefaultConfig_def Let_def clamp_def Second_def)
qed

lemma default_target_bound:
  assumes "ct_cfg c = abr_DefaultConfig" "abr_inv c" "ct_target c \<le> 5500000"
  shows "ct_target (fst (abr_Observe now loss c)) \<le> 5500000"
proof -
  obtain c' d where o: "abr_Observe now loss c = (c', d)" by (cases "abr_Observe now loss c")
  have t: "0 \<le> ct_target c" "ct_target c \<le> 8000000" using assms(2) assms(1) by (simp_all add: abr_inv_def abr_DefaultConfig_def)
  have ff: "0 < (f64 (4 / 5) :: rat)" "(f64 (4 / 5) :: rat) \<le> 1 - 1 / 2 ^ 50" using f64_bounds [of "4 / 5"] by simp_all
  consider "ct_target c' = ct_target c"
    | cand where "abr_candidate now loss (update_clean now loss c) = Some (cand, dec_Reason d)"
        "ct_target c' = clamp cand 1000000 8000000" "\<not> too_small (ct_target c') (update_clean now loss c)"
    using Observe_cases [OF o] assms(1) by (auto simp: abr_DefaultConfig_def)
  then have "ct_target c' \<le> 5500000"
  proof cases
    case (2 cand)
    show ?thesis
    proof (cases "loss > ac_LossThreshold (ct_cfg c)")
      case True
      then have "cand = trunc (f64 (f64 (of_int (ct_target c)) * f64 (4 / 5)))"
        using 2(1) assms(1) by (simp add: abr_candidate_def abr_DefaultConfig_def)
      then have "cand \<le> ct_target c" using decrease_le [OF t(1) ff] by simp
      then show ?thesis using 2(2) assms(3) by (auto simp: clamp_def)
    next
      case False
      then have "cand = wrap64 (ct_target c + 500000)"
        using 2(1) assms(1) by (auto simp: abr_candidate_def abr_DefaultConfig_def split: if_splits)
      then have cand: "cand = ct_target c + 500000" using t by (simp add: in_int64_def int64_min_def int64_max_def)
      show ?thesis
      proof (rule ccontr)
        assume big: "\<not> ct_target c' \<le> 5500000"
        then have "ct_target c' = ct_target c + 500000" using cand 2(2) assms(3) t by (auto simp: clamp_def split: if_splits)
        then have "\<not> f64 500000 < f64 (f64 (1 / 10) * f64 (of_int (ct_target c)))"
          using 2(3) assms(1) by (simp add: too_small_def abr_DefaultConfig_def)
        then have "ct_target c \<le> 5000000" using default_increase_bound t(1) by blast
        with big \<open>ct_target c' = ct_target c + 500000\<close> show False by simp
      qed
    qed
  qed (use assms(3) in simp)
  then show ?thesis using o by simp
qed

section \<open>Properties\<close>

text \<open>
  C39. The bitrate stays within its bounds. For every configuration and every sequence of samples the
  target lies between the normalised minimum and maximum, and the minimum is positive.
\<close>

theorem abr_bounded:
  "(let c = observed ss (abr_New cfg t0)
    in 0 < ac_Min (ct_cfg c) \<and> ac_Min (ct_cfg c) \<le> ct_target c \<and> ct_target c \<le> ac_Max (ct_cfg c))"
  using observed_inv [OF abr_inv_New, of ss cfg t0] unfolding abr_inv_def Let_def by blast

text \<open>
  The encoder is not restarted too often. Over any sequence of ticks the bitrates the runner
  applies are at least the cooldown apart, and at least the cooldown after its start.
\<close>

theorem abr_cooldown:
  "successively (\<lambda>a b. b - a \<ge> ac_Cooldown (abr_normalise cfg))
     (t0 # map fst (snd (abr_run ts (newABRRunnerWith (abr_New cfg t0) interval))))"
  using changes_spaced [of "abr_New cfg t0"]
  by (simp add: run_changes newABRRunnerWith_def abr_New_def Let_def)

text \<open>
  A change has a reason. A committed decrease follows a loss above the threshold and lowers the
  target, a committed increase follows a clean window and raises it.
\<close>

theorem abr_change_justified:
  assumes "abr_Observe now loss c = (c', d)" "dec_Changed d" "abr_inv c"
    and "0 < ac_DecreaseFactor (ct_cfg c)" "ac_DecreaseFactor (ct_cfg c) \<le> 1 - 1 / 2 ^ 50"
    and "0 < ac_IncreaseStep (ct_cfg c)" "ac_Max (ct_cfg c) + ac_IncreaseStep (ct_cfg c) < 2 ^ 63"
  shows "dec_Reason d = ReasonDecrease \<and> loss > ac_LossThreshold (ct_cfg c) \<and> ct_target c' < ct_target c
    \<or> dec_Reason d = ReasonIncrease \<and> loss \<le> ac_LossThreshold (ct_cfg c) \<and> ct_target c < ct_target c'
      \<and> (\<exists>t. t \<le> now - ac_CleanWindow (ct_cfg c) \<and> ct_haveCleanTS c \<and> ct_cleanSince c = t)"
proof -
  obtain cand where o: "abr_candidate now loss (update_clean now loss c) = Some (cand, dec_Reason d)"
    "ct_target c' = clamp cand (ac_Min (ct_cfg c)) (ac_Max (ct_cfg c))" "\<not> too_small (ct_target c') (update_clean now loss c)"
    using Observe_cases [OF assms(1)] assms(2) by blast
  have i: "0 < ac_Min (ct_cfg c)" "ac_Min (ct_cfg c) \<le> ct_target c" "ct_target c \<le> ac_Max (ct_cfg c)"
    "0 < ac_CleanWindow (ct_cfg c)" using assms(3) by (simp_all add: abr_inv_def)
  have ne: "ct_target c' \<noteq> ct_target c" using o(3) by (simp add: too_small_def)
  show ?thesis
  proof (cases "loss > ac_LossThreshold (ct_cfg c)")
    case True
    then have c: "cand = trunc (f64 (f64 (of_int (ct_target c)) * ac_DecreaseFactor (ct_cfg c)))" "dec_Reason d = ReasonDecrease"
      using o(1) by (simp_all add: abr_candidate_def)
    have "cand \<le> ct_target c" unfolding c(1) using i assms(4,5) by (intro decrease_le) simp_all
    then show ?thesis using True c(2) o(2) i ne by (auto simp: clamp_def split: if_splits)
  next
    case False
    then have c: "cand = wrap64 (ct_target c + ac_IncreaseStep (ct_cfg c))" "dec_Reason d = ReasonIncrease"
      "ct_haveCleanTS (update_clean now loss c)" "ac_CleanWindow (ct_cfg c) \<le> now - ct_cleanSince (update_clean now loss c)"
      using o(1) by (auto simp: abr_candidate_def split: if_splits)
    have "cand = ct_target c + ac_IncreaseStep (ct_cfg c)"
      using c(1) i assms(6,7) by (simp add: in_int64_def int64_min_def int64_max_def)
    then have "ct_target c < ct_target c'" using o(2) i ne assms(6) by (auto simp: clamp_def split: if_splits)
    moreover have "ct_haveCleanTS c \<and> ct_cleanSince c \<le> now - ac_CleanWindow (ct_cfg c)"
      using c(3,4) False i(4) by (auto simp: update_clean_def split: if_splits)
    ultimately show ?thesis using False c(2) by auto
  qed
qed

definition ex_abr :: Controller where
  "ex_abr = (abr_New abr_DefaultConfig 0)\<lparr>ct_haveCleanTS := True\<rparr>"

theorem abr_change_justified_witness:
  "dec_Reason (snd (abr_Observe (20 * Second) 0 ex_abr)) = ReasonIncrease
   \<and> ct_target ex_abr < ct_target (fst (abr_Observe (20 * Second) 0 ex_abr))"
proof -
  have "dec_Changed (snd (abr_Observe (20 * Second) 0 ex_abr))" "dec_Reason (snd (abr_Observe (20 * Second) 0 ex_abr)) = ReasonIncrease"
    "0 < ac_DecreaseFactor (ct_cfg ex_abr)" "ac_DecreaseFactor (ct_cfg ex_abr) \<le> 1 - 1 / 2 ^ 50"
    "0 < ac_IncreaseStep (ct_cfg ex_abr)" "ac_Max (ct_cfg ex_abr) + ac_IncreaseStep (ct_cfg ex_abr) < 2 ^ 63"
    by code_simp+
  moreover have "abr_inv ex_abr" using abr_inv_New [of abr_DefaultConfig 0] by (simp add: ex_abr_def abr_inv_def)
  ultimately show ?thesis using abr_change_justified [of "20 * Second" 0 ex_abr] by (metis Reason.distinct(5) prod.collapse)
qed

text \<open>
  The default configuration cannot reach its maximum. Although its maximum is eight megabits a
  second, no sequence of samples raises the target of a controller with the default configuration
  above five and a half: from five megabits on, the additive step is below the minimal change.
\<close>

theorem default_ramp_stalls:
  "ac_Max abr_DefaultConfig = 8000000 \<and> ct_target (observed ss (abr_New abr_DefaultConfig t0)) \<le> 5500000"
proof -
  have "ct_target (observed ss c) \<le> 5500000" if "ct_cfg c = abr_DefaultConfig" "abr_inv c" "ct_target c \<le> 5500000" for c
    using that
    by (induction ss arbitrary: c) (auto simp: observed_def abr_inv_Observe default_target_bound)
  from this [of "abr_New abr_DefaultConfig t0"] show ?thesis
    using abr_inv_New [of abr_DefaultConfig t0] default_normalised
    by (simp add: abr_New_def Let_def abr_DefaultConfig_def)
qed

end
