(* ===== verification/Metrics.thy ===== *)
theory Metrics
  imports Core Floats "HOL-Library.Multiset"
begin

text \<open>
  Latency histograms (\<^verbatim>\<open>playgate-host/internal/metrics/latency.go\<close>): a ring buffer of the most recent
  samples with percentile queries, and the collector of the pipeline stages.
\<close>

definition ringSize :: nat where "ringSize = 600"

record Histogram =
  h_buf :: "duration list"
  h_n :: nat
  h_next :: nat
  h_filled :: bool

definition NewHistogram :: Histogram where
  "NewHistogram = \<lparr>h_buf = replicate ringSize 0, h_n = 0, h_next = 0, h_filled = False\<rparr>"

definition Histogram_Observe :: "duration \<Rightarrow> Histogram \<Rightarrow> Histogram" where
  "Histogram_Observe d h =
     (let buf = (h_buf h)[h_next h := d]; nxt = (h_next h + 1) mod ringSize;
          filled = (nxt = 0 \<or> h_filled h)
      in \<lparr>h_buf = buf, h_n = (if \<not> filled then nxt else ringSize), h_next = nxt, h_filled = filled\<rparr>)"

record Stats =
  sts_Count :: nat
  sts_P50 :: duration
  sts_P95 :: duration
  sts_Max :: duration

definition percentile_rank :: "nat \<Rightarrow> rat \<Rightarrow> int" where
  "percentile_rank len p =
     (let r0 = trunc (f64 (p * f64 (of_int (int len - 1)))); r1 = (if r0 < 0 then 0 else r0)
      in if r1 \<ge> int len then int len - 1 else r1)"

definition percentile :: "duration list \<Rightarrow> rat \<Rightarrow> duration" where
  "percentile samples p =
     (if length samples = 1 then samples ! 0 else samples ! nat (percentile_rank (length samples) p))"

definition Snapshot :: "Histogram \<Rightarrow> Stats" where
  "Snapshot h =
     (if h_n h = 0 then \<lparr>sts_Count = 0, sts_P50 = 0, sts_P95 = 0, sts_Max = 0\<rparr>
      else (let samples = sort (take (h_n h) (h_buf h))
            in \<lparr>sts_Count = h_n h, sts_P50 = percentile samples (f64 (1 / 2)),
                sts_P95 = percentile samples (f64 (95 / 100)), sts_Max = samples ! (h_n h - 1)\<rparr>))"

record Collector =
  col_Capture :: Histogram
  col_Encode :: Histogram
  col_RTC :: Histogram
  col_Input :: Histogram
  col_DaemonApply :: Histogram
  col_E2ERTT :: Histogram

definition NewCollector :: Collector where
  "NewCollector = \<lparr>col_Capture = NewHistogram, col_Encode = NewHistogram, col_RTC = NewHistogram,
     col_Input = NewHistogram, col_DaemonApply = NewHistogram, col_E2ERTT = NewHistogram\<rparr>"

text \<open>One stage of the JSON report, with durations in milliseconds.\<close>

record stageJSON =
  sj_N :: nat
  sj_P50ms :: rat
  sj_P95ms :: rat

definition toStageJSON :: "Stats \<Rightarrow> stageJSON" where
  "toStageJSON s =
     (let ms = (\<lambda>d. f64 (f64 (of_int d) / of_int Millisecond))
      in \<lparr>sj_N = sts_Count s, sj_P50ms = ms (sts_P50 s), sj_P95ms = ms (sts_P95 s)\<rparr>)"

text \<open>The body of \<^verbatim>\<open>/metrics\<close>; Go prints a map in the order of its keys.\<close>

definition ServeMetrics :: "Collector \<Rightarrow> (string \<times> stageJSON) list" where
  "ServeMetrics c =
     [(''capture'', toStageJSON (Snapshot (col_Capture c))), (''daemon'', toStageJSON (Snapshot (col_DaemonApply c))),
      (''e2e_rtt'', toStageJSON (Snapshot (col_E2ERTT c))), (''encode'', toStageJSON (Snapshot (col_Encode c))),
      (''input'', toStageJSON (Snapshot (col_Input c))), (''rtc'', toStageJSON (Snapshot (col_RTC c)))]"

text \<open>The values of the log line of \<^verbatim>\<open>Report\<close>: count, median and 95th percentile of each stage.\<close>

definition Collector_Report :: "Collector \<Rightarrow> (string \<times> nat \<times> duration \<times> duration) list" where
  "Collector_Report c =
     map (\<lambda>(nm, h). (nm, let s = Snapshot h in (sts_Count s, sts_P50 s, sts_P95 s)))
       [(''capture'', col_Capture c), (''encode'', col_Encode c), (''rtc'', col_RTC c),
        (''input'', col_Input c), (''daemon'', col_DaemonApply c), (''e2e_rtt'', col_E2ERTT c)]"

definition report_interval :: "duration \<Rightarrow> duration" where
  "report_interval interval = (if interval \<le> 0 then 5 * Second else interval)"

section \<open>The ring buffer is a window over the observations\<close>

text \<open>The slots of the ring after the observations \<open>ds\<close>: slot \<open>i\<close> has the last one with that index.\<close>

definition ring_inv :: "duration list \<Rightarrow> Histogram \<Rightarrow> bool" where
  "ring_inv ds h \<longleftrightarrow>
     length (h_buf h) = ringSize \<and> h_next h = length ds mod ringSize
     \<and> h_filled h = (ringSize \<le> length ds) \<and> h_n h = min (length ds) ringSize
     \<and> (\<forall>j < length ds. length ds \<le> j + ringSize \<longrightarrow> h_buf h ! (j mod ringSize) = ds ! j)"

lemma ring_pos [simp]: "0 < ringSize" by (simp add: ringSize_def)

lemma mod_distinct:
  fixes j n :: nat
  assumes "j < n" "n < j + k" shows "j mod k \<noteq> n mod k"
proof
  assume "j mod k = n mod k"
  then have "k dvd n - j" using assms by (metis less_imp_le mod_eq_dvd_iff_nat)
  then have "k \<le> n - j" using assms(1) by (intro dvd_imp_le) auto
  with assms show False by simp
qed

lemma ring_inv_observe:
  assumes "ring_inv ds h"
  shows "ring_inv (ds @ [d]) (Histogram_Observe d h)"
proof -
  let ?n = "length ds"
  have i: "length (h_buf h) = ringSize" "h_next h = ?n mod ringSize" "h_filled h = (ringSize \<le> ?n)"
    "\<And>j. j < ?n \<Longrightarrow> ?n \<le> j + ringSize \<Longrightarrow> h_buf h ! (j mod ringSize) = ds ! j"
    using assms by (auto simp: ring_inv_def)
  have nx: "(h_next h + 1) mod ringSize = Suc ?n mod ringSize" using i(2) by (simp add: mod_Suc_eq)
  have f: "(Suc ?n mod ringSize = 0 \<or> ringSize \<le> ?n) = (ringSize \<le> Suc ?n)"
  proof (cases "Suc ?n < ringSize")
    case False
    then have "Suc ?n = ringSize \<or> ringSize \<le> ?n" by linarith
    then show ?thesis by (elim disjE) simp_all
  qed auto
  have b: "(h_buf h)[h_next h := d] ! (j mod ringSize) = (ds @ [d]) ! j"
    if "j < Suc ?n" "Suc ?n \<le> j + ringSize" for j
  proof (cases "j = ?n")
    case False
    then have "j mod ringSize \<noteq> ?n mod ringSize" using that mod_distinct [of j ?n ringSize] by simp
    then show ?thesis using that False i by (simp add: nth_append)
  qed (use i in simp)
  have "h_n (Histogram_Observe d h) = (if \<not> (Suc ?n mod ringSize = 0 \<or> ringSize \<le> ?n) then Suc ?n mod ringSize else ringSize)"
    by (simp only: Histogram_Observe_def Let_def nx i(3) Histogram.select_convs)
  then have hn: "h_n (Histogram_Observe d h) = min (Suc ?n) ringSize" unfolding f by simp
  have hf: "h_filled (Histogram_Observe d h) = (ringSize \<le> Suc ?n)"
    using f by (simp only: Histogram_Observe_def Let_def nx i(3) Histogram.select_convs)
  have "h_buf (Histogram_Observe d h) = (h_buf h)[h_next h := d]" "h_next (Histogram_Observe d h) = Suc ?n mod ringSize"
    by (simp_all only: Histogram_Observe_def Let_def nx Histogram.select_convs)
  then show ?thesis using i(1) b hn hf by (simp add: ring_inv_def)
qed

lemma ring_inv_fold: "ring_inv ds (fold Histogram_Observe ds NewHistogram)"
proof (induction ds rule: rev_induct)
  case Nil
  show ?case by (auto simp: ring_inv_def NewHistogram_def ringSize_def)
next
  case (snoc d ds)
  then show ?case by (simp add: ring_inv_observe)
qed

text \<open>So the retained samples are the last ones observed, whatever the position of the ring.\<close>

lemma ring_window:
  assumes "ring_inv ds h"
  shows "mset (take (h_n h) (h_buf h)) = mset (drop (length ds - ringSize) ds)"
proof (cases "length ds \<le> ringSize")
  case True
  have i: "length (h_buf h) = ringSize" "h_n h = min (length ds) ringSize"
    "\<forall>j < length ds. length ds \<le> j + ringSize \<longrightarrow> h_buf h ! (j mod ringSize) = ds ! j"
    using assms by (auto simp: ring_inv_def)
  have "take (h_n h) (h_buf h) = ds"
  proof (rule nth_equalityI)
    fix j assume "j < length (take (h_n h) (h_buf h))"
    then have j: "j < length ds" "j < ringSize" using i True by auto
    then show "take (h_n h) (h_buf h) ! j = ds ! j" using i(3) True i(2) by (metis add_leD2 min.absorb1 mod_less nth_take trans_le_add2)
  qed (use i True in simp)
  then show ?thesis using True by simp
next
  case False
  define m where "m = length ds - ringSize"
  have len: "length ds = m + ringSize" using False by (simp add: m_def)
  have i: "length (h_buf h) = ringSize" "h_n h = ringSize"
    "\<And>j. j < length ds \<Longrightarrow> length ds \<le> j + ringSize \<Longrightarrow> h_buf h ! (j mod ringSize) = ds ! j"
    using assms False by (auto simp: ring_inv_def)
  let ?f = "\<lambda>k. (m + k) mod ringSize"
  have inj: "inj_on ?f {..<ringSize}"
  proof (rule inj_onI)
    fix a b assume ab: "a \<in> {..<ringSize}" "b \<in> {..<ringSize}" "?f a = ?f b"
    show "a = b"
      using ab mod_distinct [of "m + a" "m + b" ringSize] mod_distinct [of "m + b" "m + a" ringSize]
      by (cases a b rule: linorder_cases) auto
  qed
  have im: "?f ` {..<ringSize} = {..<ringSize}"
    by (rule card_subset_eq) (auto simp: card_image [OF inj])
  have "mset (h_buf h) = image_mset (\<lambda>i. h_buf h ! i) (mset_set {..<ringSize})"
    using i(1) by (metis map_nth mset_map mset_upt lessThan_atLeast0)
  also have "mset_set {..<ringSize} = image_mset ?f (mset_set {..<ringSize})"
    using image_mset_mset_set [OF inj] im by simp
  also have "image_mset (\<lambda>i. h_buf h ! i) \<dots> = image_mset (\<lambda>k. ds ! (m + k)) (mset_set {..<ringSize})"
    using i(3) len by (auto simp: multiset.map_comp intro!: image_mset_cong)
  also have "\<dots> = mset (drop m ds)"
  proof -
    have "drop m ds = map (\<lambda>k. ds ! (m + k)) [0..<ringSize]" using len by (intro nth_equalityI) auto
    then show ?thesis by (metis mset_map mset_upt lessThan_atLeast0)
  qed
  finally show ?thesis using i(1,2) by (simp add: m_def)
qed

section \<open>Percentiles\<close>

lemma percentile_rank_range: "0 < len \<Longrightarrow> 0 \<le> percentile_rank len p \<and> percentile_rank len p < int len"
  by (auto simp: percentile_rank_def Let_def)

lemma percentile_in: "samples \<noteq> [] \<Longrightarrow> percentile samples p \<in> set samples"
  using percentile_rank_range [of "length samples" p] by (auto simp: percentile_def nat_less_iff)

lemma percentile_le_last: "sorted samples \<Longrightarrow> samples \<noteq> [] \<Longrightarrow> percentile samples p \<le> samples ! (length samples - 1)"
  using percentile_rank_range [of "length samples" p]
  by (auto simp: percentile_def intro!: sorted_nth_mono)

lemma sorted_last_Max:
  assumes "sorted xs" "xs \<noteq> []"
  shows "xs ! (length xs - 1) = Max (set xs)"
proof (rule Max_eqI [symmetric])
  fix x assume "x \<in> set xs"
  then obtain i where "i < length xs" "x = xs ! i" by (auto simp: in_set_conv_nth)
  then show "x \<le> xs ! (length xs - 1)" using assms by (auto intro: sorted_nth_mono)
qed (use assms in auto)

lemma percentile_ranks_ordered:
  assumes "0 < len"
  shows "percentile_rank len (f64 (1 / 2)) \<le> percentile_rank len (f64 (95 / 100))"
proof -
  let ?k = "f64 (rat_of_int (int len - 1))"
  have k: "0 \<le> ?k" by (rule f64_nonneg) (use assms in simp)
  have c: "f64 (1 / 2) * (1 + 1 / 2 ^ 53) \<le> f64 (95 / 100) * (1 - 1 / 2 ^ 53)" "0 \<le> f64 (1 / 2 :: rat)" "0 \<le> f64 (95 / 100 :: rat)"
    using f64_bounds [of "1 / 2"] f64_bounds [of "95 / 100"] f64_nonneg [of "1 / 2"] f64_nonneg [of "95 / 100"] by simp_all
  have "f64 (f64 (1 / 2) * ?k) \<le> (f64 (1 / 2) * ?k) * (1 + 1 / 2 ^ 53)"
    using f64_bounds [of "f64 (1 / 2) * ?k"] k c by simp
  also have "\<dots> \<le> (f64 (95 / 100) * ?k) * (1 - 1 / 2 ^ 53)"
    using mult_right_mono [OF c(1) k] by (simp add: algebra_simps)
  also have "\<dots> \<le> f64 (f64 (95 / 100) * ?k)" using f64_bounds [of "f64 (95 / 100) * ?k"] k c by simp
  finally have "f64 (f64 (1 / 2) * ?k) \<le> f64 (f64 (95 / 100) * ?k)" .
  moreover have "0 \<le> f64 (f64 (1 / 2) * ?k)" by (rule f64_nonneg) (use k c(2) in simp)
  ultimately have "trunc (f64 (f64 (1 / 2) * ?k)) \<le> trunc (f64 (f64 (95 / 100) * ?k))"
    by (auto simp: trunc_def intro: floor_mono)
  then show ?thesis using assms by (auto simp: percentile_rank_def Let_def)
qed

lemma percentiles_ordered:
  assumes "sorted xs" "xs \<noteq> []"
  shows "percentile xs (f64 (1 / 2)) \<le> percentile xs (f64 (95 / 100))"
proof -
  have l: "0 < length xs" using assms(2) by simp
  have "nat (percentile_rank (length xs) (f64 (1 / 2))) \<le> nat (percentile_rank (length xs) (f64 (95 / 100)))"
    by (rule nat_mono [OF percentile_ranks_ordered [OF l]])
  moreover have "nat (percentile_rank (length xs) (f64 (95 / 100))) < length xs"
    using percentile_rank_range [OF l, of "f64 (95 / 100)"] by linarith
  ultimately show ?thesis unfolding percentile_def by (auto intro: sorted_nth_mono [OF assms(1)])
qed

section \<open>Properties\<close>

text \<open>
  A snapshot summarises the last 600 observations. Whatever the sequence of observations, the
  retained samples are exactly the most recent ones, the count is theirs, the percentiles are among
  them and ordered, and the maximum is their maximum.
\<close>

theorem snapshot_window:
  "(let h = fold Histogram_Observe ds NewHistogram; w = drop (length ds - 600) ds; s = Snapshot h
    in mset (take (h_n h) (h_buf h)) = mset w \<and> sts_Count s = length w
       \<and> (if w = [] then s = \<lparr>sts_Count = 0, sts_P50 = 0, sts_P95 = 0, sts_Max = 0\<rparr>
          else {sts_P50 s, sts_P95 s} \<subseteq> set w \<and> sts_P50 s \<le> sts_P95 s \<and> sts_P95 s \<le> sts_Max s
            \<and> sts_Max s = Max (set w)))"
proof -
  define h w where "h = fold Histogram_Observe ds NewHistogram" and "w = drop (length ds - 600) ds"
  let ?h = h and ?w = w
  let ?t = "take (h_n ?h) (h_buf ?h)" and ?s = "sort (take (h_n ?h) (h_buf ?h))"
  have inv: "ring_inv ds ?h" unfolding h_def by (rule ring_inv_fold)
  have m: "mset ?t = mset ?w" using ring_window [OF inv] by (simp add: ringSize_def w_def)
  have n: "h_n ?h = length ?w" using inv by (auto simp: ring_inv_def ringSize_def min_def w_def)
  have len: "length ?s = h_n ?h" using arg_cong [OF m, of size] n by simp
  have st: "set ?s = set ?w" using arg_cong [OF m, of set_mset] by simp
  have last: "?s ! (length ?s - 1) = Max (set ?w)" if "?w \<noteq> []"
    using sorted_last_Max [of ?s] that st by (metis set_empty sorted_sort)
  show ?thesis
  proof (cases "?w = []")
    case True
    then show ?thesis using m n unfolding h_def [symmetric] w_def [symmetric] by (simp add: Let_def Snapshot_def)
  next
    case False
    then have ne: "?s \<noteq> []" "0 < h_n ?h" using st n by (metis set_empty, auto)
    have "percentile ?s (f64 (1 / 2)) \<le> percentile ?s (f64 (95 / 100))" by (rule percentiles_ordered) (use ne in simp_all)
    then show ?thesis unfolding h_def [symmetric] w_def [symmetric]
      using False m n ne len st last percentile_in [OF ne(1)] percentile_le_last [OF sorted_sort ne(1)]
      by (simp add: Let_def Snapshot_def)
  qed
qed

end
