(* ===== verification/Nxbt.thy ===== *)
theory Nxbt
  imports Json Metrics
begin

text \<open>
  The input targets of the host: the bridge to the NXBT daemon
  (\<^verbatim>\<open>playgate-host/internal/input/nxbt\<close>: \<^verbatim>\<open>ratelimit.go\<close>, \<^verbatim>\<open>protocol.go\<close>, \<^verbatim>\<open>target.go\<close>, \<^verbatim>\<open>dial.go\<close>)
  and the logging target (\<^verbatim>\<open>internal/input/logtarget\<close>). The socket is what it accepts and delivers.
\<close>

section \<open>The coalescer\<close>

text \<open>
  \<open>co_lastSent = None\<close> is the zero \<^verbatim>\<open>time.Time\<close>: the duration since it saturates at the largest
  duration.
\<close>

record coalescer =
  co_pending :: "InputCommand option"
  co_interval :: duration
  co_lastSent :: "instant option"
  co_notify :: "unit chan"

definition newCoalescer :: "int \<Rightarrow> coalescer" where
  "newCoalescer rateHz =
     \<lparr>co_pending = None, co_interval = (if rateHz > 0 then go_div Second rateHz else 0),
      co_lastSent = None, co_notify = make_chan 1\<rparr>"

definition since :: "instant \<Rightarrow> instant option \<Rightarrow> duration" where
  "since now t = (case t of None \<Rightarrow> int64_max | Some s \<Rightarrow> now - s)"

text \<open>\<^verbatim>\<open>push\<close> stores under the lock and signals after it: two steps.\<close>

definition push_store :: "InputCommand \<Rightarrow> coalescer \<Rightarrow> coalescer" where
  "push_store cmd c = c\<lparr>co_pending := Some cmd\<rparr>"

definition push_notify :: "coalescer \<Rightarrow> coalescer" where
  "push_notify c = c\<lparr>co_notify := try_send () (co_notify c)\<rparr>"

definition coalescer_push :: "InputCommand \<Rightarrow> coalescer \<Rightarrow> coalescer" where
  "coalescer_push cmd c = push_notify (push_store cmd c)"

definition coalescer_poll :: "instant \<Rightarrow> coalescer \<Rightarrow> coalescer \<times> InputCommand option" where
  "coalescer_poll now c =
     (case co_pending c of
        None \<Rightarrow> (c, None)
      | Some cmd \<Rightarrow>
          if co_interval c > 0 \<and> since now (co_lastSent c) < co_interval c then (c, None)
          else (c\<lparr>co_pending := None, co_lastSent := Some now\<rparr>, Some cmd))"

definition untilReady :: "instant \<Rightarrow> coalescer \<Rightarrow> duration" where
  "untilReady now c =
     (if co_pending c = None then -1
      else if co_interval c \<le> 0 then 0
      else (let remaining = co_interval c - since now (co_lastSent c)
            in if remaining < 0 then 0 else remaining))"

section \<open>Wire format\<close>

text \<open>
  The shortest decimal that reads back as the same \<^verbatim>\<open>float32\<close>, as \<^verbatim>\<open>encoding/json\<close> prints it. A value
  is \<open>0.ds * 10^dp\<close>. (The sign of a zero is not represented.)
\<close>

definition dec_exponent :: "rat \<Rightarrow> int" where
  "dec_exponent x = hd (filter (\<lambda>k. x < 10 powi (k + 1)) (map (\<lambda>i. int i - 46) [0..<86]) @ [39])"

definition decimal_of :: "rat \<Rightarrow> nat \<Rightarrow> int \<times> int" where
  "decimal_of x p = (let k = dec_exponent x - (int p - 1) in (round_even (x / 10 powi k), k))"

definition shortest_decimal :: "rat \<Rightarrow> string \<times> int" where
  "shortest_decimal x =
     (let cands = filter (\<lambda>p. let (d, k) = decimal_of x p in f32 (of_int d * 10 powi k) = x) [1..<10];
          (d, k) = decimal_of x (hd (cands @ [9]));
          ds = nat_digits (nat d)
      in (rev (dropWhile (\<lambda>c. c = CHR ''0'') (rev ds)), int (length ds) + k))"

definition zeros :: "int \<Rightarrow> string" where
  "zeros n = replicate (nat n) (CHR ''0'')"

definition format_f :: "string \<Rightarrow> int \<Rightarrow> string" where
  "format_f ds dp =
     (if dp \<le> 0 then ''0.'' @ zeros (- dp) @ ds
      else if int (length ds) \<le> dp then ds @ zeros (dp - int (length ds))
      else take (nat dp) ds @ ''.'' @ drop (nat dp) ds)"

definition format_e :: "string \<Rightarrow> int \<Rightarrow> string" where
  "format_e ds dp =
     (let m = (if length ds = 1 then ds else take 1 ds @ ''.'' @ drop 1 ds); e = dp - 1
      in m @ (if e < 0 then ''e-'' @ Itoa (- e) else ''e+'' @ Itoa e))"

definition json_float32 :: "rat \<Rightarrow> string" where
  "json_float32 x =
     (if x = 0 then ''0''
      else (let (ds, dp) = shortest_decimal \<bar>x\<bar>;
                body = (if f32 \<bar>x\<bar> < f32 (1 / 10 ^ 6) \<or> \<bar>x\<bar> \<ge> 10 ^ 21 then format_e ds dp else format_f ds dp)
            in if x < 0 then CHR ''-'' # body else body))"

record inputMsg =
  im_Type :: string
  im_Buttons :: "32 word"
  im_LX :: rat
  im_LY :: rat
  im_RX :: rat
  im_RY :: rat

definition encodeInput :: "inputMsg \<Rightarrow> string" where
  "encodeInput m =
     json_print (JObj [(''type'', JStr (im_Type m)), (''buttons'', JNum (Itoa (uint (im_Buttons m)))),
       (''lx'', JNum (json_float32 (im_LX m))), (''ly'', JNum (json_float32 (im_LY m))),
       (''rx'', JNum (json_float32 (im_RX m))), (''ry'', JNum (json_float32 (im_RY m)))]) @ [CHR 0x0A]"

definition encodePing :: string where
  "encodePing = json_print (JObj [(''type'', JStr ''ping'')]) @ [CHR 0x0A]"

datatype inbound = StatusMsg string string | PongMsg | InputLatMsg int

datatype inbound_error = BadEnvelope | BadStatus | BadInputLat | UnknownInbound string

definition decodeInbound :: "string \<Rightarrow> inbound_error + inbound" where
  "decodeInbound line =
     (case Option.bind (json_parse line) json_members of
        None \<Rightarrow> Inl BadEnvelope
      | Some ms \<Rightarrow>
          (case get_str ''type'' ms of
             None \<Rightarrow> Inl BadEnvelope
           | Some ty \<Rightarrow>
               if ty = ''status'' then
                 (case (get_str ''state'' ms, get_str ''detail'' ms) of
                    (Some st, Some d) \<Rightarrow> Inr (StatusMsg st d)
                  | _ \<Rightarrow> Inl BadStatus)
               else if ty = ''pong'' then Inr PongMsg
               else if ty = ''input_lat'' then
                 (case get_int ''us'' ms of None \<Rightarrow> Inl BadInputLat | Some us \<Rightarrow> Inr (InputLatMsg us))
               else Inl (UnknownInbound ty)))"

definition wireStateToTarget :: "string \<Rightarrow> TargetStatus" where
  "wireStateToTarget s =
     (if s = ''connecting'' then TargetStatusConnecting
      else if s = ''connected'' then TargetStatusConnected
      else if s = ''disconnected'' then TargetStatusDisconnected
      else TargetStatusUnknown)"

text \<open>Which network \<^verbatim>\<open>dialSocket\<close> dials.\<close>

definition dial_network :: "string \<Rightarrow> string" where
  "dial_network addr =
     (if CHR '':'' \<in> set addr \<and> CHR ''/'' \<notin> set addr then ''tcp'' else ''unix'')"

section \<open>The target\<close>

definition DefaultRateHz :: int where "DefaultRateHz = 120"
definition pingInterval :: duration where "pingInterval = 5 * Second"
definition reconnectBase :: duration where "reconnectBase = 500 * Millisecond"
definition reconnectMax :: duration where "reconnectMax = 30 * Second"

record NxbtTarget =
  nt_rateHz :: int
  nt_statusCh :: "TargetStatus chan"
  nt_coalescer :: coalescer
  nt_latency :: "Histogram option"
  nt_daemonLatency :: "Histogram option"
  nt_conn :: bool

datatype nxbt_option = WithRateHz int | WithLatencyHistogram "Histogram option" | WithDaemonHistogram "Histogram option"

fun apply_option :: "nxbt_option \<Rightarrow> NxbtTarget \<Rightarrow> NxbtTarget" where
  "apply_option (WithRateHz hz) t = t\<lparr>nt_rateHz := hz\<rparr>"
| "apply_option (WithLatencyHistogram h) t = t\<lparr>nt_latency := h\<rparr>"
| "apply_option (WithDaemonHistogram h) t = t\<lparr>nt_daemonLatency := h\<rparr>"

definition nxbt_New :: "nxbt_option list \<Rightarrow> NxbtTarget" where
  "nxbt_New opts =
     (let t = fold apply_option opts
                \<lparr>nt_rateHz = DefaultRateHz, nt_statusCh = make_chan 4, nt_coalescer = newCoalescer 0,
                 nt_latency = None, nt_daemonLatency = None, nt_conn = False\<rparr>
      in t\<lparr>nt_coalescer := newCoalescer (nt_rateHz t)\<rparr>)"

definition nxbt_Send :: "InputCommand \<Rightarrow> NxbtTarget \<Rightarrow> NxbtTarget" where
  "nxbt_Send cmd t = t\<lparr>nt_coalescer := coalescer_push cmd (nt_coalescer t)\<rparr>"

definition emitStatus :: "TargetStatus \<Rightarrow> NxbtTarget \<Rightarrow> NxbtTarget" where
  "emitStatus s t = t\<lparr>nt_statusCh := try_send s (nt_statusCh t)\<rparr>"

definition setConn :: "bool \<Rightarrow> NxbtTarget \<Rightarrow> NxbtTarget" where
  "setConn c t = t\<lparr>nt_conn := c\<rparr>"

definition handleInbound :: "string \<Rightarrow> NxbtTarget \<Rightarrow> NxbtTarget \<times> inbound_error option" where
  "handleInbound line t =
     (if line = [] then (t, None)
      else case decodeInbound line of
             Inl err \<Rightarrow> (t, Some err)
           | Inr (StatusMsg st d) \<Rightarrow> (emitStatus (wireStateToTarget st) t, None)
           | Inr PongMsg \<Rightarrow> (t, None)
           | Inr (InputLatMsg us) \<Rightarrow>
               (case nt_daemonLatency t of
                  Some h \<Rightarrow> (if us \<ge> 0 then t\<lparr>nt_daemonLatency := Some (Histogram_Observe (wrap64 (us * Microsecond)) h)\<rparr>
                             else t, None)
                | None \<Rightarrow> (t, None)))"

text \<open>
  \<^verbatim>\<open>writeInput\<close>: the line that is written. Up is positive for the browser and negative for the
  daemon, so the vertical axes change sign. \<open>fails\<close> says whether the socket refuses the write.
\<close>

definition input_line :: "InputCommand \<Rightarrow> string" where
  "input_line cmd =
     encodeInput \<lparr>im_Type = ''input'', im_Buttons = ic_Buttons cmd, im_LX = ic_LX cmd, im_LY = - ic_LY cmd,
       im_RX = ic_RX cmd, im_RY = - ic_RY cmd\<rparr>"

definition writeInput :: "bool \<Rightarrow> instant \<Rightarrow> InputCommand \<Rightarrow> NxbtTarget \<Rightarrow> NxbtTarget \<times> string option" where
  "writeInput fails now cmd t =
     (if fails then (t, None)
      else (case (nt_latency t, ic_Timestamp cmd) of
              (Some h, Some ts) \<Rightarrow> t\<lparr>nt_latency := Some (Histogram_Observe (now - ts) h)\<rparr>
            | _ \<Rightarrow> t, Some (input_line cmd)))"

subsection \<open>One session\<close>

text \<open>
  Where the loop of \<^verbatim>\<open>runSession\<close> is: waiting in its \<^verbatim>\<open>select\<close>, about to poll the coalescer, about to
  ask it how long to wait, or returned. The flush timer is armed for an instant or not.
\<close>

datatype session_pc = AtSelect | AtPoll | AtUntilReady | SessionOver

record nx_session =
  nx_target :: NxbtTarget
  nx_pc :: session_pc
  nx_timer :: "instant option"
  nx_lastPing :: "instant option"
  nx_wire :: "(instant \<times> string) list"

definition session_start :: "NxbtTarget \<Rightarrow> nx_session" where
  "session_start t = \<lparr>nx_target = t, nx_pc = AtPoll, nx_timer = None, nx_lastPing = None, nx_wire = []\<rparr>"

definition flush_poll :: "bool \<Rightarrow> instant \<Rightarrow> nx_session \<Rightarrow> nx_session \<times> InputCommand option" where
  "flush_poll fails now s =
     (let (c, r) = coalescer_poll now (nt_coalescer (nx_target s));
          s1 = s\<lparr>nx_target := (nx_target s)\<lparr>nt_coalescer := c\<rparr>\<rparr>
      in case r of
           None \<Rightarrow> (s1\<lparr>nx_pc := AtUntilReady\<rparr>, None)
         | Some cmd \<Rightarrow>
             (case writeInput fails now cmd (nx_target s1) of
                (t, None) \<Rightarrow> (s1\<lparr>nx_target := t, nx_pc := SessionOver\<rparr>, Some cmd)
              | (t, Some line) \<Rightarrow> (s1\<lparr>nx_target := t, nx_wire := nx_wire s @ [(now, line)]\<rparr>, Some cmd)))"

definition flush_wait :: "instant \<Rightarrow> nx_session \<Rightarrow> nx_session" where
  "flush_wait now s =
     (let d = untilReady now (nt_coalescer (nx_target s)) in
      if d < 0 then s\<lparr>nx_pc := AtSelect\<rparr>
      else if d = 0 then s\<lparr>nx_pc := AtPoll\<rparr>
      else s\<lparr>nx_timer := Some (now + d), nx_pc := AtSelect\<rparr>)"

text \<open>The branches of the \<^verbatim>\<open>select\<close>.\<close>

datatype read_result = ReadLine string | ReadFailed | ReadClosed

definition on_cancel :: "nx_session \<Rightarrow> nx_session" where
  "on_cancel s = s\<lparr>nx_pc := SessionOver\<rparr>"

definition on_read :: "read_result \<Rightarrow> nx_session \<Rightarrow> nx_session" where
  "on_read r s =
     (case r of
        ReadLine line \<Rightarrow> s\<lparr>nx_target := fst (handleInbound (trim_space line) (nx_target s))\<rparr>
      | _ \<Rightarrow> s\<lparr>nx_pc := SessionOver\<rparr>)"

definition on_notify :: "nx_session \<Rightarrow> nx_session" where
  "on_notify s =
     s\<lparr>nx_target := (nx_target s)\<lparr>nt_coalescer := (nt_coalescer (nx_target s))\<lparr>co_notify := drop_one (co_notify (nt_coalescer (nx_target s)))\<rparr>\<rparr>,
       nx_pc := AtPoll\<rparr>"

definition on_timer :: "nx_session \<Rightarrow> nx_session" where
  "on_timer s = s\<lparr>nx_timer := None, nx_pc := AtPoll\<rparr>"

definition on_ping :: "bool \<Rightarrow> instant \<Rightarrow> nx_session \<Rightarrow> nx_session" where
  "on_ping fails now s =
     (if since now (nx_lastPing s) \<ge> pingInterval then
        (if fails then s\<lparr>nx_pc := SessionOver\<rparr>
         else s\<lparr>nx_wire := nx_wire s @ [(now, encodePing)], nx_lastPing := Some now\<rparr>)
      else s)"

subsection \<open>Reconnecting\<close>

text \<open>
  One round of \<^verbatim>\<open>Run\<close>: the dial fails or a session runs and ends. In both cases the context may have
  ended, and it may end during the sleep that follows.
\<close>

record run_round =
  rr_dialed :: bool
  rr_ctxDone :: bool
  rr_sleepCut :: bool

fun nxbt_loop :: "run_round list \<Rightarrow> duration \<Rightarrow> NxbtTarget \<Rightarrow> duration list \<Rightarrow> NxbtTarget \<times> duration list \<times> bool" where
  "nxbt_loop [] backoff t sleeps = (t, sleeps, False)"
| "nxbt_loop (r # rs) backoff t0 sleeps =
     (let t = emitStatus TargetStatusConnecting t0 in
      if \<not> rr_dialed r then
        (if rr_ctxDone r then (t, sleeps, True)
         else (let t1 = emitStatus TargetStatusDisconnected t in
               if rr_sleepCut r then (t1, sleeps @ [backoff], True)
               else nxbt_loop rs (min (backoff * 2) reconnectMax) t1 (sleeps @ [backoff])))
      else
        (let t1 = setConn False (setConn True t) in
         if rr_ctxDone r then (t1, sleeps, True)
         else (let t2 = emitStatus TargetStatusDisconnected t1 in
               if rr_sleepCut r then (t2, sleeps @ [reconnectBase], True)
               else nxbt_loop rs (min (reconnectBase * 2) reconnectMax) t2 (sleeps @ [reconnectBase]))))"

text \<open>\<^verbatim>\<open>Run\<close> closes the status channel when it returns.\<close>

definition nxbt_Run :: "run_round list \<Rightarrow> NxbtTarget \<Rightarrow> NxbtTarget \<times> duration list" where
  "nxbt_Run rs t =
     (case nxbt_loop rs reconnectBase t [] of
        (t1, sleeps, returned) \<Rightarrow>
          (if returned then t1\<lparr>nt_statusCh := close_chan (nt_statusCh t1)\<rparr> else t1, sleeps))"

section \<open>The logging target\<close>

record LogTarget =
  lt_status :: "TargetStatus chan"
  lt_sampleEvery :: int
  lt_count :: int

definition logtarget_New :: "int \<Rightarrow> LogTarget" where
  "logtarget_New sampleEvery = \<lparr>lt_status = make_chan 4, lt_sampleEvery = sampleEvery, lt_count = 0\<rparr>"

text \<open>The command and its number, when it is logged.\<close>

definition logtarget_Send :: "InputCommand \<Rightarrow> LogTarget \<Rightarrow> LogTarget \<times> (InputCommand \<times> int) option" where
  "logtarget_Send cmd t =
     (let n = wrap64 (lt_count t + 1)
      in (t\<lparr>lt_count := n\<rparr>,
          if lt_sampleEvery t \<le> 0 \<or> n mod lt_sampleEvery t = 0 then Some (cmd, n) else None))"

definition logtarget_Run_start :: "LogTarget \<Rightarrow> LogTarget" where
  "logtarget_Run_start t = t\<lparr>lt_status := try_send TargetStatusConnected (lt_status t)\<rparr>"

definition logtarget_Run_end :: "LogTarget \<Rightarrow> LogTarget" where
  "logtarget_Run_end t = t\<lparr>lt_status := close_chan (lt_status t)\<rparr>"

end
