(* ===== verification/NxbtProps.thy ===== *)
theory NxbtProps
  imports Nxbt "HOL-Library.Sublist"
begin

text \<open>
  Properties of the NXBT bridge: the rate limit, the freedom from lost wake-ups between the callers
  of \<^verbatim>\<open>Send\<close> and the send loop, coalescing to the latest command, and the reconnection delays.
\<close>

section \<open>Senders and the send loop\<close>

text \<open>
  A session with a clock, the commands pushed so far, the commands taken from the coalescer with
  their times, and the number of pushes that have stored their command and not yet signalled it.
\<close>

record nx_world =
  nw_session :: nx_session
  nw_now :: instant
  nw_pushed :: "InputCommand list"
  nw_sent :: "(instant \<times> InputCommand) list"
  nw_inflight :: nat

abbreviation coal :: "nx_world \<Rightarrow> coalescer" where
  "coal w \<equiv> nt_coalescer (nx_target (nw_session w))"

definition upd_coal :: "(coalescer \<Rightarrow> coalescer) \<Rightarrow> nx_session \<Rightarrow> nx_session" where
  "upd_coal f s = s\<lparr>nx_target := (nx_target s)\<lparr>nt_coalescer := f (nt_coalescer (nx_target s))\<rparr>\<rparr>"

definition loop_poll :: "bool \<Rightarrow> nx_world \<Rightarrow> nx_world" where
  "loop_poll fails w =
     (case flush_poll fails (nw_now w) (nw_session w) of
        (s, r) \<Rightarrow> w\<lparr>nw_session := s,
          nw_sent := (case r of None \<Rightarrow> nw_sent w | Some cmd \<Rightarrow> nw_sent w @ [(nw_now w, cmd)])\<rparr>)"

inductive nx_step :: "nx_world \<Rightarrow> nx_world \<Rightarrow> bool" where
  tick: "0 \<le> d \<Longrightarrow> nx_step w (w\<lparr>nw_now := nw_now w + d\<rparr>)"
| store: "nx_step w (w\<lparr>nw_session := upd_coal (push_store cmd) (nw_session w), nw_pushed := nw_pushed w @ [cmd],
    nw_inflight := Suc (nw_inflight w)\<rparr>)"
| notify: "0 < nw_inflight w \<Longrightarrow>
    nx_step w (w\<lparr>nw_session := upd_coal push_notify (nw_session w), nw_inflight := nw_inflight w - 1\<rparr>)"
| poll: "nx_pc (nw_session w) = AtPoll \<Longrightarrow> nx_step w (loop_poll fails w)"
| wait: "nx_pc (nw_session w) = AtUntilReady \<Longrightarrow>
    nx_step w (w\<lparr>nw_session := flush_wait (nw_now w) (nw_session w)\<rparr>)"
| cancel: "nx_pc (nw_session w) = AtSelect \<Longrightarrow> nx_step w (w\<lparr>nw_session := on_cancel (nw_session w)\<rparr>)"
| read: "nx_pc (nw_session w) = AtSelect \<Longrightarrow> nx_step w (w\<lparr>nw_session := on_read r (nw_session w)\<rparr>)"
| woken: "nx_pc (nw_session w) = AtSelect \<Longrightarrow> ch_buf (co_notify (coal w)) \<noteq> [] \<Longrightarrow>
    nx_step w (w\<lparr>nw_session := on_notify (nw_session w)\<rparr>)"
| timer: "nx_pc (nw_session w) = AtSelect \<Longrightarrow> nx_timer (nw_session w) = Some t \<Longrightarrow> t \<le> nw_now w \<Longrightarrow>
    nx_step w (w\<lparr>nw_session := on_timer (nw_session w)\<rparr>)"
| ping: "nx_pc (nw_session w) = AtSelect \<Longrightarrow>
    nx_step w (w\<lparr>nw_session := on_ping fails (nw_now w) (nw_session w)\<rparr>)"

definition nx_init :: "nxbt_option list \<Rightarrow> instant \<Rightarrow> nx_world" where
  "nx_init opts now =
     \<lparr>nw_session = session_start (nxbt_New opts), nw_now = now, nw_pushed = [], nw_sent = [], nw_inflight = 0\<rparr>"

section \<open>The invariant\<close>

definition chan1_ok :: "unit chan \<Rightarrow> bool" where
  "chan1_ok c \<longleftrightarrow> ch_cap c = 1 \<and> \<not> ch_closed c \<and> length (ch_buf c) \<le> 1"

text \<open>Rate: times of sending are spaced, and the coalescer remembers the last one.\<close>

definition rate_inv :: "nx_world \<Rightarrow> bool" where
  "rate_inv w \<longleftrightarrow> successively (\<lambda>a b. b - a \<ge> co_interval (coal w)) (map fst (nw_sent w))
     \<and> co_lastSent (coal w) = (if nw_sent w = [] then None else Some (fst (last (nw_sent w))))"

text \<open>Wake-ups: a session that sleeps on a pending command will be woken.\<close>

definition wake_inv :: "nx_world \<Rightarrow> bool" where
  "wake_inv w \<longleftrightarrow> chan1_ok (co_notify (coal w))
     \<and> (nx_pc (nw_session w) = AtSelect \<and> co_pending (coal w) \<noteq> None \<longrightarrow>
          0 < nw_inflight w \<or> ch_buf (co_notify (coal w)) \<noteq> [] \<or> nx_timer (nw_session w) \<noteq> None)
     \<and> (\<forall>t. nx_timer (nw_session w) = Some t \<longrightarrow>
          (\<exists>l. co_lastSent (coal w) = Some l \<and> t \<le> l + co_interval (coal w)))"

text \<open>Coalescing: what was sent, then what is pending, is in the order of the pushes and ends with the last one.\<close>

definition fifo_inv :: "nx_world \<Rightarrow> bool" where
  "fifo_inv w \<longleftrightarrow>
     (case co_pending (coal w) of
        Some c \<Rightarrow> \<exists>ps. nw_pushed w = ps @ [c] \<and> subseq (map snd (nw_sent w)) ps
      | None \<Rightarrow> subseq (map snd (nw_sent w)) (nw_pushed w)
          \<and> (if nw_pushed w = [] then nw_sent w = []
             else nw_sent w \<noteq> [] \<and> snd (last (nw_sent w)) = last (nw_pushed w)))"

definition nx_inv :: "nx_world \<Rightarrow> bool" where
  "nx_inv w \<longleftrightarrow> rate_inv w \<and> wake_inv w \<and> fifo_inv w \<and> (\<forall>l. co_lastSent (coal w) = Some l \<longrightarrow> l \<le> nw_now w)"

lemma upd_coal_sel [simp]:
  "nt_coalescer (nx_target (upd_coal f s)) = f (nt_coalescer (nx_target s))"
  "nx_pc (upd_coal f s) = nx_pc s" "nx_timer (upd_coal f s) = nx_timer s"
  by (simp_all add: upd_coal_def)

lemma push_sel [simp]:
  "co_pending (push_store cmd c) = Some cmd" "co_interval (push_store cmd c) = co_interval c"
  "co_lastSent (push_store cmd c) = co_lastSent c" "co_notify (push_store cmd c) = co_notify c"
  "co_pending (push_notify c) = co_pending c" "co_interval (push_notify c) = co_interval c"
  "co_lastSent (push_notify c) = co_lastSent c" "co_notify (push_notify c) = try_send () (co_notify c)"
  by (simp_all add: push_store_def push_notify_def)

lemma chan1_ok_send: "chan1_ok c \<Longrightarrow> chan1_ok (try_send () c) \<and> ch_buf (try_send () c) \<noteq> []"
  by (cases "ch_buf c") (auto simp: chan1_ok_def try_send_buf can_send_def)

lemma chan1_ok_drop: "chan1_ok c \<Longrightarrow> chan1_ok (drop_one c)"
  by (auto simp: chan1_ok_def)

lemma writeInput_coal [simp]: "nt_coalescer (fst (writeInput fails now cmd t)) = nt_coalescer t"
  by (simp add: writeInput_def split: option.split)

lemma handleInbound_coal [simp]: "nt_coalescer (fst (handleInbound line t)) = nt_coalescer t"
  by (auto simp: handleInbound_def emitStatus_def split: sum.split inbound.split option.split)

text \<open>The two outcomes of a poll.\<close>

lemma loop_poll_cases:
  "(\<exists>cmd. co_pending (coal w) = Some cmd \<and> (co_interval (coal w) \<le> 0 \<or> co_interval (coal w) \<le> since (nw_now w) (co_lastSent (coal w)))
      \<and> coal (loop_poll fails w) = (coal w)\<lparr>co_pending := None, co_lastSent := Some (nw_now w)\<rparr>
      \<and> nw_sent (loop_poll fails w) = nw_sent w @ [(nw_now w, cmd)]
      \<and> nx_pc (nw_session (loop_poll fails w)) \<in> {nx_pc (nw_session w), SessionOver})
   \<or> (coal (loop_poll fails w) = coal w \<and> nw_sent (loop_poll fails w) = nw_sent w
      \<and> nx_pc (nw_session (loop_poll fails w)) = AtUntilReady)"
  by (cases "co_pending (coal w)")
    (auto simp: loop_poll_def flush_poll_def coalescer_poll_def writeInput_def Let_def split: option.splits)

lemma loop_poll_frame [simp]:
  "nx_timer (nw_session (loop_poll fails w)) = nx_timer (nw_session w)"
  "nw_now (loop_poll fails w) = nw_now w" "nw_pushed (loop_poll fails w) = nw_pushed w"
  "nw_inflight (loop_poll fails w) = nw_inflight w"
  by (auto simp: loop_poll_def flush_poll_def Let_def split: option.splits prod.splits)

lemma loop_poll_interval [simp]: "co_interval (coal (loop_poll fails w)) = co_interval (coal w)"
  using loop_poll_cases [of w fails] by auto

lemma loop_poll_notify [simp]: "co_notify (coal (loop_poll fails w)) = co_notify (coal w)"
  using loop_poll_cases [of w fails] by auto

lemma session_sel [simp]:
  "nt_coalescer (nx_target (flush_wait now s)) = nt_coalescer (nx_target s)"
  "nt_coalescer (nx_target (on_cancel s)) = nt_coalescer (nx_target s)"
  "nt_coalescer (nx_target (on_read r s)) = nt_coalescer (nx_target s)"
  "nt_coalescer (nx_target (on_timer s)) = nt_coalescer (nx_target s)"
  "nt_coalescer (nx_target (on_ping fails now s)) = nt_coalescer (nx_target s)"
  "nt_coalescer (nx_target (on_notify s)) =
     (nt_coalescer (nx_target s))\<lparr>co_notify := drop_one (co_notify (nt_coalescer (nx_target s)))\<rparr>"
  "nx_timer (on_cancel s) = nx_timer s" "nx_timer (on_read r s) = nx_timer s"
  "nx_timer (on_ping fails now s) = nx_timer s" "nx_timer (on_notify s) = nx_timer s"
  "nx_timer (on_timer s) = None"
  "nx_pc (on_cancel s) = SessionOver" "nx_pc (on_notify s) = AtPoll" "nx_pc (on_timer s) = AtPoll"
  by (auto simp: flush_wait_def on_cancel_def on_read_def on_timer_def on_ping_def on_notify_def Let_def
      split: read_result.split)

lemma session_pc_stays:
  "nx_pc (on_read r s) \<in> {nx_pc s, SessionOver}" "nx_pc (on_ping fails now s) \<in> {nx_pc s, SessionOver}"
  by (auto simp: on_read_def on_ping_def split: read_result.split)

section \<open>Preservation\<close>

lemma step_interval: "nx_step w w' \<Longrightarrow> co_interval (coal w') = co_interval (coal w)"
  by (induction rule: nx_step.induct) simp_all

lemma step_clock: "nx_step w w' \<Longrightarrow> nw_now w \<le> nw_now w'"
  by (induction rule: nx_step.induct) simp_all

lemma step_sent_past:
  "nx_step w w' \<Longrightarrow> \<forall>l. co_lastSent (coal w) = Some l \<longrightarrow> l \<le> nw_now w
    \<Longrightarrow> \<forall>l. co_lastSent (coal w') = Some l \<longrightarrow> l \<le> nw_now w'"
proof (induction rule: nx_step.induct)
  case (poll w fails) then show ?case using loop_poll_cases [of w fails] by auto
next
  case (tick d w) then show ?case by fastforce
qed simp_all

lemma rate_frame:
  "coal w' = coal w \<or> co_interval (coal w') = co_interval (coal w) \<and> co_lastSent (coal w') = co_lastSent (coal w)
    \<Longrightarrow> nw_sent w' = nw_sent w \<Longrightarrow> rate_inv w \<Longrightarrow> rate_inv w'"
  by (auto simp: rate_inv_def)

lemma step_rate: "nx_step w w' \<Longrightarrow> nx_inv w \<Longrightarrow> rate_inv w'"
proof (induction rule: nx_step.induct)
  case (poll w fails)
  then have r: "rate_inv w" and l: "\<forall>l. co_lastSent (coal w) = Some l \<longrightarrow> l \<le> nw_now w" by (simp_all add: nx_inv_def)
  show ?case
    using loop_poll_cases [of w fails] r l
    by (auto simp: rate_inv_def successively_append_iff since_def last_map split: if_splits)
qed (auto simp: nx_inv_def intro: rate_frame)

lemma wake_timer:
  assumes "nx_inv w" "co_interval (coal w) \<le> int64_max" "0 < untilReady (nw_now w) (coal w)"
  shows "\<exists>l. co_lastSent (coal w) = Some l \<and> nw_now w + untilReady (nw_now w) (coal w) = l + co_interval (coal w)"
  using assms by (auto simp: untilReady_def since_def Let_def split: if_splits option.splits)

lemma flush_wait_timer:
  "nx_timer (flush_wait now s) =
     (if 0 < untilReady now (nt_coalescer (nx_target s)) then Some (now + untilReady now (nt_coalescer (nx_target s)))
      else nx_timer s)"
  "nx_pc (flush_wait now s) = AtSelect \<longleftrightarrow> untilReady now (nt_coalescer (nx_target s)) \<noteq> 0"
  by (auto simp: flush_wait_def Let_def)

lemma untilReady_neg: "untilReady now c < 0 \<longleftrightarrow> co_pending c = None"
  by (simp add: untilReady_def Let_def)

lemma step_wake:
  assumes "nx_step w w'" "nx_inv w" "co_interval (coal w) \<le> int64_max"
  shows "wake_inv w'"
proof -
  have k: "wake_inv w" "\<forall>l. co_lastSent (coal w) = Some l \<longrightarrow> l \<le> nw_now w" using assms(2) by (simp_all add: nx_inv_def)
  show ?thesis
    using assms(1)
  proof (cases rule: nx_step.cases)
    case (poll fails)
    then show ?thesis using k loop_poll_cases [of w fails] unfolding wake_inv_def by fastforce
  next
    case wait
    let ?d = "untilReady (nw_now w) (coal w)"
    show ?thesis
      using k wait wake_timer [OF assms(2,3)] untilReady_neg [of "nw_now w" "coal w"]
      by (auto simp: wake_inv_def flush_wait_timer split: if_splits)
  next
    case (notify)
    then show ?thesis using k chan1_ok_send [of "co_notify (coal w)"] by (auto simp: wake_inv_def)
  next
    case (read r)
    then show ?thesis using k session_pc_stays(1) [of r "nw_session w"] by (auto simp: wake_inv_def)
  next
    case (ping fails)
    then show ?thesis using k session_pc_stays(2) [of fails "nw_now w" "nw_session w"] by (auto simp: wake_inv_def)
  qed (use k in \<open>auto simp: wake_inv_def chan1_ok_drop\<close>)
qed

lemma fifo_frame:
  "co_pending (coal w') = co_pending (coal w) \<Longrightarrow> nw_sent w' = nw_sent w \<Longrightarrow> nw_pushed w' = nw_pushed w
    \<Longrightarrow> fifo_inv w \<Longrightarrow> fifo_inv w'"
  unfolding fifo_inv_def by (simp only:)

lemma step_fifo: "nx_step w w' \<Longrightarrow> nx_inv w \<Longrightarrow> fifo_inv w'"
proof (induction rule: nx_step.induct)
  case (store w cmd)
  then have "fifo_inv w" by (simp add: nx_inv_def)
  then show ?case
    by (auto simp: fifo_inv_def subseq_rev_drop_many split: option.splits if_splits)
next
  case (poll w fails)
  then show ?case
    using loop_poll_cases [of w fails]
    by (auto simp: nx_inv_def fifo_inv_def split: option.splits if_splits)
qed (simp_all add: nx_inv_def fifo_frame)

lemma step_inv:
  assumes "nx_step w w'" "nx_inv w" "co_interval (coal w) \<le> int64_max"
  shows "nx_inv w'"
  using step_rate [OF assms(1,2)] step_wake [OF assms] step_fifo [OF assms(1,2)] step_sent_past [OF assms(1)] assms(2)
  by (simp add: nx_inv_def)

lemma div_le_dividend_int: "0 \<le> a \<Longrightarrow> 0 < b \<Longrightarrow> a div b \<le> (a::int)"
  by (metis div_by_1 zdiv_mono2 int_one_le_iff_zero_less zero_less_one)

lemma New_interval: "co_interval (coal (nx_init opts now)) \<le> Second"
  by (auto simp: nx_init_def session_start_def nxbt_New_def newCoalescer_def Let_def Second_def
      div_le_dividend_int)

lemma init_inv: "nx_inv (nx_init opts now)"
  by (simp add: nx_init_def session_start_def nxbt_New_def newCoalescer_def Let_def nx_inv_def rate_inv_def wake_inv_def
      fifo_inv_def chan1_ok_def make_chan_def)

lemma run_inv:
  assumes "nx_step\<^sup>*\<^sup>* (nx_init opts now) w"
  shows "nx_inv w \<and> co_interval (coal w) = co_interval (coal (nx_init opts now))"
  using assms
proof (induction rule: rtranclp_induct)
  case base then show ?case by (simp add: init_inv)
next
  case (step w w')
  moreover have "co_interval (coal w) \<le> int64_max"
    using step New_interval [of opts now] by (simp add: Second_def int64_max_def)
  ultimately show ?case using step_inv step_interval by metis
qed

section \<open>Properties\<close>

text \<open>
  With a rate of \<open>hz\<close> commands per second, whatever the callers of \<^verbatim>\<open>Send\<close>, the daemon and the
  timers do, two commands are taken for the wire at least \<open>1 s / hz\<close> apart, and what is taken is a
  subsequence of what was pushed: nothing is duplicated or reordered, only the overtaken are dropped.
\<close>

theorem nxbt_rate_limit:
  assumes "nx_step\<^sup>*\<^sup>* (nx_init [WithRateHz hz] now) w" and "0 < hz"
  shows "successively (\<lambda>a b. b - a \<ge> go_div Second hz) (map fst (nw_sent w))
     \<and> subseq (map snd (nw_sent w)) (nw_pushed w)"
proof -
  have "nx_inv w" and i: "co_interval (coal w) = go_div Second hz"
    using run_inv [OF assms(1)] assms(2)
    by (simp_all add: nx_init_def session_start_def nxbt_New_def newCoalescer_def Let_def)
  then have "rate_inv w" "fifo_inv w" by (simp_all add: nx_inv_def)
  then show ?thesis using i by (auto simp: rate_inv_def fifo_inv_def list_emb_append2 split: option.splits)
qed

text \<open>A run of three steps: a command is stored, signalled and taken for the wire.\<close>

lemma short_run:
  "nx_step\<^sup>*\<^sup>* (nx_init opts 0) (loop_poll False (nx_init opts 0\<lparr>nw_session := upd_coal push_notify
     (upd_coal (push_store cmd) (nw_session (nx_init opts 0))), nw_pushed := [cmd], nw_inflight := 0\<rparr>))"
proof -
  let ?w = "nx_init opts 0"
  let ?w1 = "?w\<lparr>nw_session := upd_coal (push_store cmd) (nw_session ?w), nw_pushed := nw_pushed ?w @ [cmd],
    nw_inflight := Suc (nw_inflight ?w)\<rparr>"
  let ?w2 = "?w1\<lparr>nw_session := upd_coal push_notify (nw_session ?w1), nw_inflight := nw_inflight ?w1 - 1\<rparr>"
  have "nx_step ?w ?w1" by (rule nx_step.store)
  moreover have "nx_step ?w1 ?w2" by (rule nx_step.notify) simp
  moreover have "nx_step ?w2 (loop_poll False ?w2)" by (rule nx_step.poll) (simp add: nx_init_def session_start_def)
  ultimately have "nx_step\<^sup>*\<^sup>* ?w (loop_poll False ?w2)" by (meson converse_rtranclp_into_rtranclp rtranclp.rtrancl_refl)
  then show ?thesis by (simp add: nx_init_def)
qed

lemmas short_run_simps = loop_poll_def flush_poll_def coalescer_poll_def nx_init_def session_start_def nxbt_New_def
  newCoalescer_def upd_coal_def push_store_def push_notify_def writeInput_def Let_def since_def

theorem nxbt_rate_limit_witness:
  "\<exists>w. nx_step\<^sup>*\<^sup>* (nx_init [WithRateHz 120] 0) w \<and> nw_sent w = [(0, neutral_command)]
     \<and> successively (\<lambda>a b. b - a \<ge> go_div Second 120) (map fst (nw_sent w))
     \<and> subseq (map snd (nw_sent w)) (nw_pushed w)"
  using short_run [of "[WithRateHz 120]" neutral_command] nxbt_rate_limit [OF short_run [of "[WithRateHz 120]" neutral_command]]
  by (auto simp: short_run_simps Second_def int64_max_def intro!: exI)

text \<open>
  C40. No command is lost by sleeping: whenever the send loop waits in its \<^verbatim>\<open>select\<close> with a command
  pending, a caller is still about to signal it, or the signal is in the channel, or the flush timer is
  armed for at most one interval after the last command. Whenever nothing is pending, the last command
  pushed is the last one taken for the wire; what is pending is always the last command pushed.
\<close>

theorem nxbt_no_lost_wakeup:
  assumes "nx_step\<^sup>*\<^sup>* (nx_init opts now) w"
  shows "(nx_pc (nw_session w) = AtSelect \<and> co_pending (coal w) \<noteq> None \<longrightarrow>
       0 < nw_inflight w \<or> ch_buf (co_notify (coal w)) \<noteq> []
       \<or> (\<exists>t l. nx_timer (nw_session w) = Some t \<and> co_lastSent (coal w) = Some l \<and> t \<le> l + co_interval (coal w)))
   \<and> (co_pending (coal w) = None \<and> nw_pushed w \<noteq> [] \<longrightarrow>
       nw_sent w \<noteq> [] \<and> snd (last (nw_sent w)) = last (nw_pushed w))
   \<and> (co_pending (coal w) \<noteq> None \<longrightarrow> co_pending (coal w) = Some (last (nw_pushed w)))"
proof -
  have "wake_inv w" "fifo_inv w" using run_inv [OF assms] by (simp_all add: nx_inv_def)
  then show ?thesis by (fastforce simp: wake_inv_def fifo_inv_def split: option.splits if_splits)
qed

theorem nxbt_no_lost_wakeup_witness:
  "\<exists>w. nx_step\<^sup>*\<^sup>* (nx_init [] 0) w \<and> nw_pushed w = [neutral_command] \<and> co_pending (coal w) = None
     \<and> nw_sent w \<noteq> [] \<and> snd (last (nw_sent w)) = last (nw_pushed w)"
  using short_run [of "[]" neutral_command] nxbt_no_lost_wakeup [OF short_run [of "[]" neutral_command]]
  by (auto simp: short_run_simps Second_def int64_max_def DefaultRateHz_def intro!: exI)

section \<open>Reconnecting\<close>

lemma loop_sleeps:
  assumes "nxbt_loop rs b t ss = (t', ss', ret)" and "reconnectBase \<le> b" "b \<le> reconnectMax"
  shows "\<exists>xs. ss' = ss @ xs \<and> (\<forall>d\<in>set xs. reconnectBase \<le> d \<and> d \<le> reconnectMax) \<and> length xs \<le> length rs
     \<and> (xs = [] \<or> hd xs \<in> {b, reconnectBase})
     \<and> successively (\<lambda>d e. e = min (d * 2) reconnectMax \<or> e = reconnectBase) xs"
  using assms
proof (induction rs b t ss rule: nxbt_loop.induct)
  case (2 r rs b t0 ss)
  have q: "reconnectBase \<le> reconnectMax" "0 < reconnectBase"
    by (simp_all add: reconnectBase_def reconnectMax_def Second_def Millisecond_def Microsecond_def)
  obtain b1 where b1: "b1 \<in> {b, reconnectBase}" "reconnectBase \<le> b1" "b1 \<le> reconnectMax"
    "ss' = ss \<or> ss' = ss @ [b1] \<or> (\<exists>t. nxbt_loop rs (min (b1 * 2) reconnectMax) t (ss @ [b1]) = (t', ss', ret)
       \<and> (\<exists>xs. ss' = (ss @ [b1]) @ xs \<and> (\<forall>d\<in>set xs. reconnectBase \<le> d \<and> d \<le> reconnectMax) \<and> length xs \<le> length rs
     \<and> (xs = [] \<or> hd xs \<in> {min (b1 * 2) reconnectMax, reconnectBase})
     \<and> successively (\<lambda>d e. e = min (d * 2) reconnectMax \<or> e = reconnectBase) xs))"
  proof (cases "rr_dialed r")
    case True
    then show ?thesis using 2 q that [of reconnectBase] by (auto simp: Let_def split: if_splits)
  next
    case False
    then show ?thesis using 2 q that [of b] by (auto simp: Let_def split: if_splits)
  qed
  from b1(4) show ?case
  proof (elim disjE exE conjE)
    assume "ss' = ss" then show ?case by simp
  next
    assume "ss' = ss @ [b1]" then show ?case using b1 by auto
  next
    fix xs
    assume "ss' = (ss @ [b1]) @ xs" "\<forall>d\<in>set xs. reconnectBase \<le> d \<and> d \<le> reconnectMax" "length xs \<le> length rs"
      "successively (\<lambda>d e. e = min (d * 2) reconnectMax \<or> e = reconnectBase) xs" "xs = []"
    then show ?case using b1 by (intro exI [of _ "b1 # xs"]) auto
  next
    fix xs
    assume "ss' = (ss @ [b1]) @ xs" "\<forall>d\<in>set xs. reconnectBase \<le> d \<and> d \<le> reconnectMax" "length xs \<le> length rs"
      "hd xs \<in> {min (b1 * 2) reconnectMax, reconnectBase}"
      "successively (\<lambda>d e. e = min (d * 2) reconnectMax \<or> e = reconnectBase) xs"
    then show ?case using b1 by (intro exI [of _ "b1 # xs"]) (auto simp: successively_Cons)
  qed
qed simp

lemma loop_all_failed:
  assumes "\<forall>r\<in>set rs. \<not> rr_dialed r \<and> \<not> rr_ctxDone r \<and> \<not> rr_sleepCut r" "0 \<le> b" "b \<le> reconnectMax"
  shows "fst (snd (nxbt_loop rs b t ss)) = ss @ map (\<lambda>i. min (b * 2 ^ i) reconnectMax) [0..<length rs]"
  using assms
proof (induction rs b t ss rule: nxbt_loop.induct)
  case (2 r rs b t0 ss)
  have "map (\<lambda>i. min (b * 2 ^ i) reconnectMax) [0..<Suc (length rs)]
      = b # map (\<lambda>i. min (min (b * 2) reconnectMax * 2 ^ i) reconnectMax) [0..<length rs]"
  proof -
    have "min (min (b * 2) reconnectMax * 2 ^ i) reconnectMax = min (b * 2 ^ Suc i) reconnectMax" for i
    proof (cases "b * 2 \<le> reconnectMax")
      case False
      have "1 * reconnectMax \<le> 2 ^ i * reconnectMax" by (rule mult_right_mono) (simp_all add: reconnectMax_def Second_def)
      moreover have "reconnectMax * 2 ^ i \<le> b * 2 * 2 ^ i" using False by (intro mult_right_mono) auto
      ultimately have "reconnectMax \<le> b * 2 ^ Suc i" by (simp only: power_Suc mult.commute mult.left_commute mult.assoc)
      then show ?thesis using False by (simp only: min_absorb2 min_def if_False not_False_eq_True)
          (metis \<open>1 * reconnectMax \<le> 2 ^ i * reconnectMax\<close> antisym mult.commute mult_1)
    qed (simp add: mult.assoc)
    then show ?thesis
      using 2(4,5) by (simp add: upt_conv_Cons map_Suc_upt [symmetric] del: upt_Suc)
  qed
  moreover have "fst (snd (nxbt_loop (r # rs) b t0 ss)) = fst (snd (nxbt_loop rs (min (b * 2) reconnectMax)
      (emitStatus TargetStatusDisconnected (emitStatus TargetStatusConnecting t0)) (ss @ [b])))"
    using 2(3) by (simp add: Let_def)
  moreover have "\<forall>r\<in>set rs. \<not> rr_dialed r \<and> \<not> rr_ctxDone r \<and> \<not> rr_sleepCut r" "\<not> rr_dialed r" "\<not> rr_ctxDone r" "\<not> rr_sleepCut r"
    using 2(3) by auto
  moreover have "0 \<le> min (b * 2) reconnectMax" "min (b * 2) reconnectMax \<le> reconnectMax"
    using 2(4) by (auto simp: reconnectMax_def Second_def)
  ultimately show ?case using 2(1) [OF refl] by (simp del: upt_Suc)
qed simp

text \<open>
  The delays of \<^verbatim>\<open>Run\<close> before it dials again stay between 500 ms and 30 s, each is the double of
  the one before (at most 30 s) or back at 500 ms after a session, there is at most one per round, and
  while no dial succeeds the delay of round \<open>i\<close> is \<open>500 ms * 2^i\<close>, at most 30 s.
\<close>

theorem nxbt_backoff:
  assumes "nxbt_Run rs t = (t', sleeps)"
  shows "(\<forall>d\<in>set sleeps. 500 * Millisecond \<le> d \<and> d \<le> 30 * Second) \<and> length sleeps \<le> length rs
     \<and> successively (\<lambda>d e. e = min (d * 2) (30 * Second) \<or> e = 500 * Millisecond) sleeps
     \<and> ((\<forall>r\<in>set rs. \<not> rr_dialed r \<and> \<not> rr_ctxDone r \<and> \<not> rr_sleepCut r)
          \<longrightarrow> sleeps = map (\<lambda>i. min (500 * Millisecond * 2 ^ i) (30 * Second)) [0..<length rs])"
proof -
  have q: "0 \<le> reconnectBase" "reconnectBase \<le> reconnectMax"
    by (simp_all add: reconnectBase_def reconnectMax_def Second_def Millisecond_def Microsecond_def)
  obtain ret t1 where l: "nxbt_loop rs reconnectBase t [] = (t1, sleeps, ret)"
    using assms by (auto simp: nxbt_Run_def split: prod.splits)
  have "fst (snd (nxbt_loop rs reconnectBase t [])) = sleeps" by (simp add: l)
  then have a: "(\<forall>r\<in>set rs. \<not> rr_dialed r \<and> \<not> rr_ctxDone r \<and> \<not> rr_sleepCut r)
      \<longrightarrow> sleeps = map (\<lambda>i. min (reconnectBase * 2 ^ i) reconnectMax) [0..<length rs]"
    using loop_all_failed [of rs reconnectBase t "[]", OF _ q] by simp
  show ?thesis
    using loop_sleeps [OF l order_refl q(2)] a
    unfolding reconnectBase_def reconnectMax_def append_Nil by blast
qed

theorem nxbt_backoff_witness:
  "snd (nxbt_Run (replicate 8 \<lparr>rr_dialed = False, rr_ctxDone = False, rr_sleepCut = False\<rparr>) (nxbt_New []))
     = map (\<lambda>i. min (500 * Millisecond * 2 ^ i) (30 * Second)) [0..<8]"
proof -
  let ?rs = "replicate 8 \<lparr>rr_dialed = False, rr_ctxDone = False, rr_sleepCut = False\<rparr>"
  obtain t ss where e: "nxbt_Run ?rs (nxbt_New []) = (t, ss)" by fastforce
  have "\<forall>r\<in>set ?rs. \<not> rr_dialed r \<and> \<not> rr_ctxDone r \<and> \<not> rr_sleepCut r" by simp
  then have "ss = map (\<lambda>i. min (500 * Millisecond * 2 ^ i) (30 * Second)) [0..<length ?rs]"
    using nxbt_backoff [OF e] by blast
  then show ?thesis by (simp only: e snd_conv length_replicate)
qed

end
