(* ===== verification/Opus.thy ===== *)
theory Opus
  imports Core Strconv
begin

text \<open>
  The audio source (\<^verbatim>\<open>playgate-host/internal/audio/opus/source.go\<close>): the command line of the capturing
  ffmpeg, the demultiplexer that recovers Opus packets from the segment tables of Ogg pages, the
  playing time of a packet, the bounded queue and the supervision loop. ffmpeg is the bytes it writes.
\<close>

unbundle bit_operations_syntax

section \<open>Configuration\<close>

definition opusClockRate :: int where "opusClockRate = 48000"
definition opus_packetBufferSize :: nat where "opus_packetBufferSize = 16"
definition restartBackoff :: duration where "restartBackoff = Second"

record OpusPacket =
  op_Data :: "byte list"
  op_Duration :: duration

record OpusConfig =
  oc_FFmpegPath :: string
  oc_Device :: string
  oc_SampleRate :: int
  oc_Channels :: int
  oc_Bitrate :: int

definition opus_DefaultConfig :: OpusConfig where
  "opus_DefaultConfig =
     \<lparr>oc_FFmpegPath = ''ffmpeg'', oc_Device = ''default'', oc_SampleRate = 48000, oc_Channels = 2, oc_Bitrate = 128000\<rparr>"

definition opus_normalise :: "OpusConfig \<Rightarrow> OpusConfig" where
  "opus_normalise c =
     \<lparr>oc_FFmpegPath = (if oc_FFmpegPath c = [] then ''ffmpeg'' else oc_FFmpegPath c),
      oc_Device = (if oc_Device c = [] then ''default'' else oc_Device c),
      oc_SampleRate = (if oc_SampleRate c \<le> 0 then 48000 else oc_SampleRate c),
      oc_Channels = (if oc_Channels c \<le> 0 then 2 else oc_Channels c),
      oc_Bitrate = (if oc_Bitrate c \<le> 0 then 128000 else oc_Bitrate c)\<rparr>"

record OpusSource =
  os_opts :: OpusConfig
  os_packets :: "OpusPacket chan"

definition opus_New :: "OpusConfig \<Rightarrow> OpusSource" where
  "opus_New cfg = \<lparr>os_opts = opus_normalise cfg, os_packets = make_chan opus_packetBufferSize\<rparr>"

definition opus_args :: "OpusSource \<Rightarrow> string list" where
  "opus_args s =
     [''-hide_banner'', ''-nostats'', ''-f'', ''alsa'', ''-ac'', Itoa (oc_Channels (os_opts s)),
      ''-ar'', Itoa (oc_SampleRate (os_opts s)), ''-i'', oc_Device (os_opts s), ''-c:a'', ''libopus'',
      ''-b:a'', Itoa (oc_Bitrate (os_opts s)), ''-ar'', Itoa opusClockRate, ''-ac'', ''2'',
      ''-application'', ''lowdelay'', ''-frame_duration'', ''20'', ''-page_duration'', ''20000'',
      ''-flush_packets'', ''1'', ''-f'', ''ogg'', ''pipe:1'']"

section \<open>Packets\<close>

definition frame_us :: "nat \<Rightarrow> int" where
  "frame_us config =
     (if config < 12 then [10000, 20000, 40000, 60000] ! (config mod 4)
      else if config < 16 then [10000, 20000] ! (config mod 2)
      else [2500, 5000, 10000, 20000] ! (config mod 4))"

definition frame_count :: "byte list \<Rightarrow> int" where
  "frame_count pkt =
     (let code = hd pkt AND 3
      in if code = 1 \<or> code = 2 then 2
         else if code = 3 then (if length pkt \<ge> 2 then uint (pkt ! 1 AND 0x3F) else 1)
         else 1)"

definition opusPacketDuration :: "byte list \<Rightarrow> duration" where
  "opusPacketDuration pkt = frame_us (unat (drop_bit 3 (hd pkt))) * frame_count pkt * Microsecond"

definition OpusHead :: "byte list" where
  "OpusHead = [0x4F, 0x70, 0x75, 0x73, 0x48, 0x65, 0x61, 0x64]"

definition OpusTags :: "byte list" where
  "OpusTags = [0x4F, 0x70, 0x75, 0x73, 0x54, 0x61, 0x67, 0x73]"

text \<open>What \<^verbatim>\<open>handlePacket\<close> hands to \<^verbatim>\<open>emit\<close>, if anything.\<close>

definition handlePacket :: "byte list \<Rightarrow> OpusPacket option" where
  "handlePacket pkt =
     (if pkt = [] then None
      else if length pkt \<ge> 8 \<and> (take 8 pkt = OpusHead \<or> take 8 pkt = OpusTags) then None
      else (let dur = opusPacketDuration pkt
            in if dur \<le> 0 then None else Some \<lparr>op_Data = pkt, op_Duration = dur\<rparr>))"

definition opus_emit :: "OpusPacket \<Rightarrow> OpusSource \<Rightarrow> OpusSource" where
  "opus_emit pkt s = s\<lparr>os_packets := send_drop_oldest pkt (os_packets s)\<rparr>"

section \<open>Pages\<close>

definition OggS :: "byte list" where "OggS = [0x4F, 0x67, 0x67, 0x53]"

text \<open>One pass over the segment table: the packets that end on the page, and what is carried over.\<close>

fun walk :: "nat list \<Rightarrow> byte list \<Rightarrow> byte list \<Rightarrow> byte list list \<times> byte list" where
  "walk [] dat acc = ([], acc)"
| "walk (v # vs) dat acc =
     (let acc' = acc @ take v dat
      in if v < 255 then (case walk vs (drop v dat) [] of (ps, rest) \<Rightarrow> (acc' # ps, rest))
         else walk vs (drop v dat) acc')"

datatype page_error = HeaderErr string | LostSync "byte list" | SegmentTableErr | PageDataErr

text \<open>
  \<^verbatim>\<open>io.ReadFull\<close> on a stream that holds some bytes and then ends, at its end or with an error. \<open>n\<close> is
  the number of pages after which the loop finds its context done. The loop ends at the end of the
  stream or because of the context (it returns nil for both), or with an error.
\<close>

datatype pages_end = PagesEOF | PagesCancelled | PagesFailed page_error

datatype read_end = CleanEOF | ReadError string

fun readPages :: "nat \<Rightarrow> read_end \<Rightarrow> byte list \<Rightarrow> byte list \<Rightarrow> byte list list \<times> pages_end" where
  "readPages 0 e stream partial = ([], PagesCancelled)"
| "readPages (Suc n) e stream partial =
     (if length stream < 27 then
        ([], case e of CleanEOF \<Rightarrow> PagesEOF | ReadError m \<Rightarrow> PagesFailed (HeaderErr m))
      else (let header = take 27 stream; rest = drop 27 stream in
        if take 4 header \<noteq> OggS then ([], PagesFailed (LostSync (take 4 header)))
        else (let nseg = unat (header ! 26) in
          if length rest < nseg then ([], PagesFailed SegmentTableErr)
          else (let segTable = map unat (take nseg rest); rest' = drop nseg rest; dataLen = sum_list segTable in
            if length rest' < dataLen then ([], PagesFailed PageDataErr)
            else (case walk segTable (take dataLen rest') partial of
                    (ps, acc) \<Rightarrow>
                      (case readPages n e (drop dataLen rest') acc of
                         (qs, err) \<Rightarrow> (ps @ qs, err)))))))"

section \<open>Supervision\<close>

text \<open>
  One launch of ffmpeg: it cannot be started, or it writes a stream and exits. \<open>ss_ctxDone\<close> says that
  the context is done when the subprocess has ended, \<open>ss_sleepCut\<close> that it ends during the backoff.
\<close>

record opus_launch =
  ol_setup :: "string option"
  ol_pages :: nat
  ol_stream :: "byte list"
  ol_end :: read_end
  ol_wait :: "string option"
  ol_ctxDone :: bool
  ol_sleepCut :: bool

datatype audio_error = AudioSetup string | AudioPages page_error | AudioExit string

definition opus_runSubprocess :: "opus_launch \<Rightarrow> OpusSource \<Rightarrow> OpusSource \<times> audio_error option" where
  "opus_runSubprocess l s =
     (case ol_setup l of
        Some m \<Rightarrow> (s, Some (AudioSetup m))
      | None \<Rightarrow>
          (case readPages (ol_pages l) (ol_end l) (ol_stream l) [] of
             (ps, readErr) \<Rightarrow>
               (fold opus_emit (List.map_filter handlePacket ps) s,
                if ol_ctxDone l then None
                else case readErr of
                       PagesFailed err \<Rightarrow> Some (AudioPages err)
                     | _ \<Rightarrow> map_option AudioExit (ol_wait l))))"

fun opus_loop :: "opus_launch list \<Rightarrow> OpusSource \<Rightarrow> OpusSource \<times> bool" where
  "opus_loop [] s = (s, False)"
| "opus_loop (l # ls) s =
     (let (s1, err) = opus_runSubprocess l s
      in if ol_ctxDone l \<or> ol_sleepCut l then (s1, True) else opus_loop ls s1)"

text \<open>\<^verbatim>\<open>Run\<close>, with whether it returned; the queue is closed when it does.\<close>

definition opus_Run :: "opus_launch list \<Rightarrow> OpusSource \<Rightarrow> OpusSource \<times> bool" where
  "opus_Run ls s =
     (case opus_loop ls s of
        (s1, ret) \<Rightarrow> (if ret then s1\<lparr>os_packets := close_chan (os_packets s1)\<rparr> else s1, ret))"

section \<open>Demultiplexing\<close>

text \<open>
  The reference: a packet is laced into segments of 255 bytes and a last shorter one; a page carries
  any number of consecutive segments up to 255 behind a header of 26 bytes and its segment count.
\<close>

function lace :: "byte list \<Rightarrow> byte list list" where
  "lace p = (if length p < 255 then [p] else take 255 p # lace (drop 255 p))"
  by pat_completeness auto
termination by (relation "measure length") auto

declare lace.simps [simp del]

definition ogg_page :: "byte list \<Rightarrow> byte list list \<Rightarrow> byte list" where
  "ogg_page h segs = OggS @ h @ [of_nat (length segs)] @ map (\<lambda>s. of_nat (length s)) segs @ concat segs"

definition page_ok :: "byte list \<times> byte list list \<Rightarrow> bool" where
  "page_ok = (\<lambda>(h, segs). length h = 22 \<and> length segs \<le> 255)"

definition ogg_stream :: "(byte list \<times> byte list list) list \<Rightarrow> byte list" where
  "ogg_stream pages = concat (map (\<lambda>(h, segs). ogg_page h segs) pages)"

text \<open>The walk over a whole list of segments, whatever pages they lie on.\<close>

fun join_segs :: "byte list list \<Rightarrow> byte list \<Rightarrow> byte list list \<times> byte list" where
  "join_segs [] acc = ([], acc)"
| "join_segs (s # ss) acc =
     (if length s < 255 then (case join_segs ss [] of (ps, rest) \<Rightarrow> ((acc @ s) # ps, rest))
      else join_segs ss (acc @ s))"

lemma walk_segs: "walk (map length segs) (concat segs) acc = join_segs segs acc"
  by (induction segs acc rule: join_segs.induct) (auto simp: Let_def split: prod.split)

lemma join_segs_append:
  "join_segs (as @ bs) acc = (case join_segs as acc of (ps, r) \<Rightarrow> (case join_segs bs r of (qs, r') \<Rightarrow> (ps @ qs, r')))"
  by (induction as acc rule: join_segs.induct) (auto split: prod.split)

lemma join_lace: "join_segs (lace p @ segs) acc = (case join_segs segs [] of (ps, r) \<Rightarrow> ((acc @ p) # ps, r))"
proof (induction p arbitrary: acc rule: lace.induct)
  case (1 p)
  show ?case
  proof (cases "length p < 255")
    case False
    then show ?thesis
      using 1 [of "acc @ take 255 p"] by (simp add: lace.simps [of p])
  qed (simp add: lace.simps [of p])
qed

lemma join_packets: "join_segs (concat (map lace ps)) [] = (ps, [])"
  by (induction ps) (simp_all add: join_lace)

lemma lace_short: "s \<in> set (lace p) \<Longrightarrow> length s \<le> 255"
proof (induction p rule: lace.induct)
  case (1 p)
  then show ?case by (cases "length p < 255") (auto simp: lace.simps [of p])
qed

lemma byte_of_nat: "n < 256 \<Longrightarrow> unat (of_nat n :: byte) = n"
  by (simp add: unsigned_of_nat take_bit_nat_eq_self)

lemma readPages_page:
  assumes "length h = 22" "length segs \<le> 255" "\<forall>s\<in>set segs. length s \<le> 255"
  shows "readPages (Suc n) e (ogg_page h segs @ rest) acc =
     (case join_segs segs acc of (ps, acc') \<Rightarrow> (case readPages n e rest acc' of (qs, err) \<Rightarrow> (ps @ qs, err)))"
proof -
  let ?tab = "map (\<lambda>s. of_nat (length s) :: byte) segs"
  have u: "unat (of_nat (length segs) :: byte) = length segs" using assms(2) by (simp add: byte_of_nat)
  have m: "map (\<lambda>s. unat (of_nat (length s) :: byte)) segs = map length segs"
    using assms(3) by (auto intro!: byte_of_nat)
  have t: "take 27 (ogg_page h segs @ rest) = OggS @ h @ [of_nat (length segs)]"
    "drop 27 (ogg_page h segs @ rest) = ?tab @ concat segs @ rest"
    by (simp_all add: ogg_page_def OggS_def assms(1))
  have l: "length (concat segs) = sum_list (map length segs)" by (simp add: length_concat)
  show ?thesis
    using l by (simp add: t u m walk_segs comp_def Let_def nth_append assms(1) OggS_def ogg_page_def [of h] split: prod.split)
qed

lemma readPages_pages:
  assumes "list_all page_ok pages" "\<forall>(h, segs)\<in>set pages. \<forall>s\<in>set segs. length s \<le> 255" "length pages < n"
  shows "readPages n CleanEOF (ogg_stream pages) acc = (fst (join_segs (concat (map snd pages)) acc), PagesEOF)"
  using assms
proof (induction pages arbitrary: n acc)
  case Nil
  then show ?case by (cases n) (simp_all add: ogg_stream_def)
next
  case (Cons pg pages)
  obtain h segs where pg: "pg = (h, segs)" by fastforce
  obtain m where n: "n = Suc m" "length pages < m" using Cons.prems(3) by (cases n) auto
  show ?case
    using readPages_page [of h segs m CleanEOF "ogg_stream pages" acc] Cons.IH [OF _ _ n(2)] Cons.prems
    by (simp add: ogg_stream_def pg n page_ok_def join_segs_append split: prod.splits)
qed

text \<open>
  C26. Whatever the pages into which ffmpeg's muxer puts the segments of its packets (packets that
  span pages and pages that carry several packets included), reading the stream recovers exactly the
  packets, in order, and ends at the end of the stream, without an error.
\<close>

theorem ogg_demux_roundtrip:
  assumes "list_all page_ok pages" and "concat (map snd pages) = concat (map lace pkts)" and "length pages < n"
  shows "readPages n CleanEOF (ogg_stream pages) [] = (pkts, PagesEOF)"
proof -
  have "\<forall>(h, segs)\<in>set pages. \<forall>s\<in>set segs. length s \<le> 255"
  proof clarify
    fix h segs s assume "(h, segs) \<in> set pages" "s \<in> set segs"
    then have "s \<in> set (concat (map snd pages))" by force
    then show "length s \<le> 255" using lace_short by (auto simp: assms(2))
  qed
  then show ?thesis using readPages_pages [OF assms(1) _ assms(3), of "[]"] by (simp add: assms(2) join_packets)
qed

theorem ogg_demux_roundtrip_witness:
  "readPages 9 CleanEOF
     (ogg_stream [(replicate 22 0, [OpusHead]), (replicate 22 7, [[0x78, 1, 2], replicate 255 3]), (replicate 22 9, [[4], [8]])]) []
   = ([OpusHead, [0x78, 1, 2], replicate 255 3 @ [4], [8]], PagesEOF)"
  by (rule ogg_demux_roundtrip) (simp_all add: page_ok_def lace.simps OpusHead_def)

text \<open>
  The rounds of the loop end by themselves: every page takes at least 27 bytes, so unless the context ends
  within \<open>k div 27\<close> pages, a stream of \<open>k\<close> bytes is read to its end or to an error.
\<close>

lemma readPages_ends: "length stream < 27 * n \<Longrightarrow> snd (readPages n e stream acc) \<noteq> PagesCancelled"
proof (induction n arbitrary: stream acc)
  case (Suc n)
  have "snd (readPages n e s a) \<noteq> PagesCancelled" if "\<not> length stream < 27" "length s \<le> length stream - 27" for s a
    using Suc.prems that by (intro Suc.IH) auto
  then have "snd (readPages n e (drop (d + (k + 27)) stream) a) \<noteq> PagesCancelled" if "\<not> length stream < 27" for d k a
    using that by (simp add: le_diff_conv)
  then show ?case
    by (cases "length stream < 27") (auto simp: Let_def split: prod.splits read_end.splits; metis snd_conv)+
qed simp

end
