(* ===== verification/V4l2Abi.thy ===== *)
theory V4l2Abi
  imports Core
begin

text \<open>
  The binary interface to the kernel (\<^verbatim>\<open>playgate-host/internal/capture/v4l2/v4l2_linux.go\<close>): the
  layout Go gives the ioctl structs on a 64-bit machine, the request codes computed from their sizes,
  and the small helpers of the file.
\<close>

unbundle bit_operations_syntax

section \<open>Layout\<close>

text \<open>
  A field is the size and the alignment of its type. Fields are placed at the next offset their
  alignment divides, and the whole is padded to its largest alignment (\<^verbatim>\<open>unsafe.Sizeof\<close>).
\<close>

type_synonym go_type = "nat \<times> nat"

definition align_up :: "nat \<Rightarrow> nat \<Rightarrow> nat" where
  "align_up n a = (n + a - 1) div a * a"

definition u8 :: go_type where "u8 = (1, 1)"
definition u32 :: go_type where "u32 = (4, 4)"
definition u64 :: go_type where "u64 = (8, 8)"

definition arr :: "nat \<Rightarrow> go_type \<Rightarrow> go_type" where
  "arr n t = (n * fst t, snd t)"

definition struct_align :: "go_type list \<Rightarrow> nat" where
  "struct_align fs = fold max (map snd fs) 1"

definition struct_end :: "go_type list \<Rightarrow> nat" where
  "struct_end fs = fold (\<lambda>(s, a) off. align_up off a + s) fs 0"

definition go_struct :: "go_type list \<Rightarrow> go_type" where
  "go_struct fs = (align_up (struct_end fs) (struct_align fs), struct_align fs)"

definition Sizeof :: "go_type \<Rightarrow> nat" where "Sizeof = fst"

definition v4l2Capability :: go_type where
  "v4l2Capability = go_struct [arr 16 u8, arr 32 u8, arr 32 u8, u32, u32, u32, arr 3 u32]"

definition v4l2Fmtdesc :: go_type where
  "v4l2Fmtdesc = go_struct [u32, u32, u32, arr 32 u8, u32, u32, arr 3 u32]"

definition v4l2PixFormat :: go_type where
  "v4l2PixFormat = go_struct [u32, u32, u32, u32, u32, u32, u32, u32, u32, u32, u32, u32]"

definition v4l2Format :: go_type where
  "v4l2Format = go_struct [u32, u32, arr 200 u8]"

definition v4l2Requestbuffers :: go_type where
  "v4l2Requestbuffers = go_struct [u32, u32, u32, u32, u8, arr 3 u8]"

definition v4l2Timeval :: go_type where "v4l2Timeval = go_struct [u64, u64]"

definition v4l2Timecode :: go_type where "v4l2Timecode = go_struct [u32, u32, u8, u8, u8, u8, arr 4 u8]"

definition v4l2Buffer :: go_type where
  "v4l2Buffer = go_struct [u32, u32, u32, u32, u32, u32, v4l2Timeval, v4l2Timecode, u32, u32, u64, u32, u32, u32]"

definition v4l2FrmsizeDiscrete :: go_type where "v4l2FrmsizeDiscrete = go_struct [u32, u32]"

definition v4l2FrmsizeStepwise :: go_type where "v4l2FrmsizeStepwise = go_struct [u32, u32, u32, u32, u32, u32]"

definition v4l2Frmsizeenum :: go_type where
  "v4l2Frmsizeenum = go_struct [u32, u32, u32, arr 24 u8, arr 2 u32]"

definition v4l2Fract :: go_type where "v4l2Fract = go_struct [u32, u32]"

definition v4l2CaptureParm :: go_type where
  "v4l2CaptureParm = go_struct [u32, u32, v4l2Fract, u32, u32, arr 4 u32]"

definition v4l2StreamParm :: go_type where "v4l2StreamParm = go_struct [u32, arr 200 u8]"

section \<open>Request codes\<close>

definition iocNRShift :: nat where "iocNRShift = 0"
definition iocTypeShift :: nat where "iocTypeShift = iocNRShift + 8"
definition iocSizeShift :: nat where "iocSizeShift = iocTypeShift + 8"
definition iocDirShift :: nat where "iocDirShift = iocSizeShift + 14"

definition iocWrite :: "64 word" where "iocWrite = 1"
definition iocRead :: "64 word" where "iocRead = 2"

definition ioc :: "64 word \<Rightarrow> 64 word \<Rightarrow> 64 word \<Rightarrow> 64 word \<Rightarrow> 64 word" where
  "ioc dir typ nr sz =
     push_bit iocDirShift dir OR push_bit iocTypeShift typ OR push_bit iocNRShift nr OR push_bit iocSizeShift sz"

definition ior :: "64 word \<Rightarrow> 64 word \<Rightarrow> 64 word \<Rightarrow> 64 word" where "ior = ioc iocRead"
definition iow :: "64 word \<Rightarrow> 64 word \<Rightarrow> 64 word \<Rightarrow> 64 word" where "iow = ioc iocWrite"
definition iowr :: "64 word \<Rightarrow> 64 word \<Rightarrow> 64 word \<Rightarrow> 64 word" where "iowr = ioc (iocRead OR iocWrite)"

definition vidiocType :: "64 word" where "vidiocType = 0x56"

definition size_of :: "go_type \<Rightarrow> 64 word" where "size_of t = of_nat (Sizeof t)"

definition vidioc_codes :: "(string \<times> 64 word) list" where
  "vidioc_codes =
     [(''QUERYCAP'', ior vidiocType 0 (size_of v4l2Capability)),
      (''ENUM_FMT'', iowr vidiocType 2 (size_of v4l2Fmtdesc)),
      (''S_FMT'', iowr vidiocType 5 (size_of v4l2Format)),
      (''REQBUFS'', iowr vidiocType 8 (size_of v4l2Requestbuffers)),
      (''QUERYBUF'', iowr vidiocType 9 (size_of v4l2Buffer)),
      (''S_PARM'', iowr vidiocType 22 (size_of v4l2StreamParm)),
      (''QBUF'', iowr vidiocType 15 (size_of v4l2Buffer)),
      (''DQBUF'', iowr vidiocType 17 (size_of v4l2Buffer)),
      (''STREAMON'', iow vidiocType 18 4),
      (''STREAMOFF'', iow vidiocType 19 4),
      (''ENUM_FRAMESIZES'', iowr vidiocType 74 (size_of v4l2Frmsizeenum))]"

section \<open>Helpers\<close>

text \<open>The answers of one system call after the other: \<^verbatim>\<open>EINTR\<close> is retried, the first other one returned.\<close>

datatype errno = EINTR | EINVAL | EIO | ENODEV | OtherErrno nat

fun ioctl :: "errno option list \<Rightarrow> errno option option" where
  "ioctl [] = None"
| "ioctl (None # _) = Some None"
| "ioctl (Some e # es) = (if e = EINTR then ioctl es else Some (Some e))"

definition cString :: "byte list \<Rightarrow> byte list" where
  "cString b = takeWhile (\<lambda>c. c \<noteq> 0) b"

definition MOffset :: "64 word \<Rightarrow> 32 word" where "MOffset m = ucast m"

section \<open>The interface of the kernel\<close>

lemmas layout_defs = u8_def u32_def u64_def arr_def struct_align_def struct_end_def go_struct_def align_up_def Sizeof_def
  v4l2Timeval_def v4l2Timecode_def v4l2Fract_def v4l2FrmsizeDiscrete_def v4l2FrmsizeStepwise_def

lemma struct_sizes:
  "Sizeof v4l2Capability = 104" "Sizeof v4l2Fmtdesc = 64" "Sizeof v4l2Format = 208" "Sizeof v4l2Requestbuffers = 20"
  "Sizeof v4l2Buffer = 88" "Sizeof v4l2StreamParm = 204" "Sizeof v4l2Frmsizeenum = 44"
  by (simp_all add: v4l2Capability_def v4l2Fmtdesc_def v4l2Format_def v4l2Requestbuffers_def v4l2Buffer_def
      v4l2StreamParm_def v4l2Frmsizeenum_def layout_defs)

text \<open>The views laid over the byte arrays fit into them.\<close>

lemma overlays_fit:
  "Sizeof v4l2PixFormat \<le> 200" "Sizeof v4l2CaptureParm \<le> 200" "Sizeof v4l2FrmsizeDiscrete \<le> 24"
  "Sizeof v4l2FrmsizeStepwise \<le> 24"
  by (simp_all add: v4l2PixFormat_def v4l2CaptureParm_def layout_defs)

text \<open>
  The request codes the package computes from its struct layouts are the ones of the 64-bit Linux
  interface (\<^verbatim>\<open>linux/videodev2.h\<close>).
\<close>

theorem vidioc_codes_match_kernel:
  "vidioc_codes =
     [(''QUERYCAP'', 0x80685600), (''ENUM_FMT'', 0xC0405602), (''S_FMT'', 0xC0D05605), (''REQBUFS'', 0xC0145608),
      (''QUERYBUF'', 0xC0585609), (''S_PARM'', 0xC0CC5616), (''QBUF'', 0xC058560F), (''DQBUF'', 0xC0585611),
      (''STREAMON'', 0x40045612), (''STREAMOFF'', 0x40045613), (''ENUM_FRAMESIZES'', 0xC02C564A)]"
  by (simp add: vidioc_codes_def size_of_def struct_sizes ior_def iow_def iowr_def ioc_def iocRead_def iocWrite_def
      vidiocType_def iocDirShift_def iocSizeShift_def iocTypeShift_def iocNRShift_def push_bit_eq_mult)

lemma ioctl_retries: "ioctl (replicate n (Some EINTR) @ r # rest) = (if r = Some EINTR then ioctl rest else Some r)"
  by (induction n) (cases r; auto)+

end
