(* ===== verification/V4l2.thy ===== *)
theory V4l2
  imports V4l2Abi Encoder "HOL-Library.Monad_Syntax"
begin

text \<open>
  Capture from a V4L2 device (\<^verbatim>\<open>playgate-host/internal/capture/v4l2\<close>: \<^verbatim>\<open>format.go\<close>, \<^verbatim>\<open>deviceinfo.go\<close>,
  \<^verbatim>\<open>list.go\<close>, \<^verbatim>\<open>device_linux.go\<close>, \<^verbatim>\<open>source.go\<close>): format negotiation, opening and starting a device,
  repacking of padded frames, and the capture loop. The kernel is the answers of its system calls.
\<close>

section \<open>Formats\<close>

definition FourCC :: "byte \<Rightarrow> byte \<Rightarrow> byte \<Rightarrow> byte \<Rightarrow> 32 word" where
  "FourCC a b c d = ucast a OR push_bit 8 (ucast b) OR push_bit 16 (ucast c) OR push_bit 24 (ucast d)"

definition FourCCYUYV :: "32 word" where "FourCCYUYV = FourCC 0x59 0x55 0x59 0x56"
definition FourCCMJPEG :: "32 word" where "FourCCMJPEG = FourCC 0x4D 0x4A 0x50 0x47"
definition FourCCNV12 :: "32 word" where "FourCCNV12 = FourCC 0x4E 0x56 0x31 0x32"

fun PixelFormatToFourCC :: "PixelFormat \<Rightarrow> 32 word option" where
  "PixelFormatToFourCC PixelFormatYUYV = Some FourCCYUYV"
| "PixelFormatToFourCC PixelFormatMJPEG = Some FourCCMJPEG"
| "PixelFormatToFourCC PixelFormatNV12 = Some FourCCNV12"
| "PixelFormatToFourCC PixelFormatUnknown = None"

definition FourCCToPixelFormat :: "32 word \<Rightarrow> PixelFormat \<times> bool" where
  "FourCCToPixelFormat f =
     (if f = FourCCYUYV then (PixelFormatYUYV, True)
      else if f = FourCCMJPEG then (PixelFormatMJPEG, True)
      else if f = FourCCNV12 then (PixelFormatNV12, True)
      else (PixelFormatUnknown, False))"

definition ParsePixelFormat :: "string \<Rightarrow> PixelFormat option" where
  "ParsePixelFormat s =
     (let u = to_upper (trim_space s) in
      if u = ''YUYV'' then Some PixelFormatYUYV
      else if u = ''MJPEG'' \<or> u = ''MJPG'' then Some PixelFormatMJPEG
      else if u = ''NV12'' then Some PixelFormatNV12
      else None)"

definition printable :: "byte \<Rightarrow> byte" where
  "printable c = (if c < 0x20 \<or> c > 0x7E then 0x3F else c)"

definition byte_string :: "byte list \<Rightarrow> string" where
  "byte_string = map (\<lambda>b. char_of (unat b))"

definition FourCCString :: "32 word \<Rightarrow> string" where
  "FourCCString f =
     byte_string (map printable [ucast f, ucast (drop_bit 8 f), ucast (drop_bit 16 f), ucast (drop_bit 24 f)])"

record V4l2Config =
  cc_Device :: string
  cc_Width :: int
  cc_Height :: int
  cc_FPS :: int
  cc_PreferredFormats :: "PixelFormat list"

definition DefaultPreferredFormats :: "PixelFormat list" where
  "DefaultPreferredFormats = [PixelFormatYUYV, PixelFormatMJPEG]"

definition capture_DefaultConfig :: V4l2Config where
  "capture_DefaultConfig =
     \<lparr>cc_Device = ''/dev/video0'', cc_Width = 1280, cc_Height = 720, cc_FPS = 30,
      cc_PreferredFormats = DefaultPreferredFormats\<rparr>"

datatype capture_config_error = EmptyDevice | BadResolution int int | BadFPS int | NotRequestable PixelFormat

definition capture_Validate :: "V4l2Config \<Rightarrow> capture_config_error option" where
  "capture_Validate c =
     (if cc_Device c = [] then Some EmptyDevice
      else if cc_Width c \<le> 0 \<or> cc_Height c \<le> 0 then Some (BadResolution (cc_Width c) (cc_Height c))
      else if cc_FPS c \<le> 0 then Some (BadFPS (cc_FPS c))
      else (case find (\<lambda>pf. PixelFormatToFourCC pf = None) (cc_PreferredFormats c) of
              Some pf \<Rightarrow> Some (NotRequestable pf)
            | None \<Rightarrow> None))"

definition preferred :: "V4l2Config \<Rightarrow> PixelFormat list" where
  "preferred c = (if cc_PreferredFormats c = [] then DefaultPreferredFormats else cc_PreferredFormats c)"

text \<open>\<open>available\<close> is the map of the formats the device reports; a missing key reads as \<open>False\<close>.\<close>

fun negotiate_loop :: "PixelFormat list \<Rightarrow> (32 word \<Rightarrow> bool) \<Rightarrow> (PixelFormat \<times> 32 word) option" where
  "negotiate_loop [] available = None"
| "negotiate_loop (pf # pfs) available =
     (case PixelFormatToFourCC pf of
        None \<Rightarrow> negotiate_loop pfs available
      | Some fourcc \<Rightarrow> if available fourcc then Some (pf, fourcc) else negotiate_loop pfs available)"

definition NegotiateFormat :: "PixelFormat list \<Rightarrow> (32 word \<Rightarrow> bool) \<Rightarrow> (PixelFormat \<times> 32 word) option" where
  "NegotiateFormat prefs available =
     negotiate_loop (if prefs = [] then DefaultPreferredFormats else prefs) available"

definition FrameBufferSize :: nat where "FrameBufferSize = 2"

section \<open>Device descriptions\<close>

type_synonym FrameSize = "int \<times> int"

record FormatInfo =
  fi_FourCC :: "32 word"
  fi_PixelFormat :: PixelFormat
  fi_Description :: string
  fi_FrameSizes :: "FrameSize list"

record DeviceInfo =
  di_Path :: string
  di_Driver :: string
  di_Card :: string
  di_Formats :: "FormatInfo list"

fun FrameSize_String :: "FrameSize \<Rightarrow> string" where
  "FrameSize_String (w, h) = Itoa w @ ''x'' @ Itoa h"

definition FormatInfo_String :: "FormatInfo \<Rightarrow> string" where
  "FormatInfo_String f =
     (let name = FourCCString (fi_FourCC f) @
            (if fi_Description f = [] then [] else '' ('' @ fi_Description f @ '')'')
      in if fi_FrameSizes f = [] then name
         else name @ '': '' @ join '', '' (map FrameSize_String (fi_FrameSizes f)))"

definition DeviceInfo_String :: "DeviceInfo \<Rightarrow> string" where
  "DeviceInfo_String d =
     di_Path d @ (if di_Card d = [] \<and> di_Driver d = [] then [] else ''  ['' @ di_Card d @ '' / '' @ di_Driver d @ '']'')
     @ [CHR 0x0A]
     @ (if di_Formats d = [] then ''    (no capture formats reported)'' @ [CHR 0x0A]
        else concat (map (\<lambda>f. ''    '' @ FormatInfo_String f @ [CHR 0x0A]) (di_Formats d)))"

text \<open>Devices are listed by path (the paths of distinct device nodes differ).\<close>

definition path_le :: "DeviceInfo \<Rightarrow> DeviceInfo \<Rightarrow> bool" where
  "path_le a b \<longleftrightarrow> lexordp_eq (map of_char (di_Path a)) (map of_char (di_Path b) :: nat list)"

fun insert_by_path :: "DeviceInfo \<Rightarrow> DeviceInfo list \<Rightarrow> DeviceInfo list" where
  "insert_by_path d [] = [d]"
| "insert_by_path d (e # es) = (if path_le d e then d # e # es else e # insert_by_path d es)"

definition FormatDeviceList :: "DeviceInfo list \<Rightarrow> string" where
  "FormatDeviceList ds =
     (if ds = [] then ''no V4L2 capture devices found'' @ [CHR 0x0A]
      else concat (map DeviceInfo_String (foldr insert_by_path ds [])))"

definition AvailableFourCCSet :: "DeviceInfo \<Rightarrow> 32 word \<Rightarrow> bool" where
  "AvailableFourCCSet d fourcc \<longleftrightarrow> fourcc \<in> set (map fi_FourCC (di_Formats d))"

section \<open>Devices\<close>

datatype v4l2_call = Open | QueryCap | SetFmt | SetParm | ReqBufs | QueryBuf nat | Mmap nat | QBuf nat | StreamOn

record v4l2_pix =
  px_Width :: int
  px_Height :: int
  px_PixelFormat :: "32 word"
  px_BytesPerLine :: int
  px_SizeImage :: int

record fmtdesc =
  fd_PixelFormat :: "32 word"
  fd_Description :: "byte list"

datatype frmsize = Discrete int int | Stepwise int int int int | OtherFrmsize

text \<open>
  What a device node answers: which calls fail, its capabilities, the descriptions \<^verbatim>\<open>ENUM_FMT\<close> gives
  and the error that ends them, the frame sizes of a format up to the first error, the format it grants,
  the number of buffers it grants and the memory they map.
\<close>

record hardware =
  hw_fails :: "v4l2_call \<Rightarrow> errno option"
  hw_Driver :: "byte list"
  hw_Card :: "byte list"
  hw_Capabilities :: "32 word"
  hw_DeviceCaps :: "32 word"
  hw_formats :: "fmtdesc list \<times> errno"
  hw_sizes :: "32 word \<Rightarrow> frmsize list"
  hw_grant :: "int \<Rightarrow> int \<Rightarrow> 32 word \<Rightarrow> v4l2_pix"
  hw_count :: nat
  hw_buffer :: "nat \<Rightarrow> byte list"

text \<open>What the kernel holds for the process: open descriptors, mapped buffers, a running stream.\<close>

record kernel =
  k_fds :: nat
  k_maps :: nat
  k_streaming :: bool

record device =
  dv_open :: bool
  dv_buffers :: "byte list option list"
  dv_started :: bool

datatype v4l2_error = Errno v4l2_call errno | NotCapture | EnumErr errno | NoFormat | WrongFormat "32 word" "32 word"
  | NoBuffers | NotStarted | Disappeared v4l2_call

definition openDevice :: "hardware \<Rightarrow> kernel \<Rightarrow> kernel \<times> (v4l2_error + device)" where
  "openDevice hw k =
     (case hw_fails hw Open of
        Some e \<Rightarrow> (k, Inl (Errno Open e))
      | None \<Rightarrow> (k\<lparr>k_fds := k_fds k + 1\<rparr>, Inr \<lparr>dv_open = True, dv_buffers = [], dv_started = False\<rparr>))"

definition device_close :: "device \<Rightarrow> kernel \<Rightarrow> kernel \<times> device" where
  "device_close d k =
     (let k1 = (if dv_started d then k\<lparr>k_streaming := False\<rparr> else k);
          k2 = k1\<lparr>k_maps := k_maps k1 - length (filter (\<lambda>b. b \<noteq> None) (dv_buffers d))\<rparr>
      in (if dv_open d then k2\<lparr>k_fds := k_fds k2 - 1\<rparr> else k2,
          \<lparr>dv_open = False, dv_buffers = [], dv_started = False\<rparr>))"

definition isCaptureCapable :: "hardware \<Rightarrow> bool" where
  "isCaptureCapable hw =
     (let caps = (if hw_DeviceCaps hw \<noteq> 0 then hw_DeviceCaps hw else hw_Capabilities hw) in caps AND 1 \<noteq> 0)"

definition enumFormats :: "hardware \<Rightarrow> fmtdesc list \<times> v4l2_error option" where
  "enumFormats hw = (case hw_formats hw of (ds, e) \<Rightarrow> (ds, if e = EINVAL then None else Some (EnumErr e)))"

fun enumFrameSizes :: "frmsize list \<Rightarrow> FrameSize list" where
  "enumFrameSizes [] = []"
| "enumFrameSizes (Discrete w h # es) = (w, h) # enumFrameSizes es"
| "enumFrameSizes (Stepwise w1 h1 w2 h2 # es) = [(w1, h1), (w2, h2)]"
| "enumFrameSizes (OtherFrmsize # es) = []"

definition formatInfo :: "hardware \<Rightarrow> fmtdesc \<Rightarrow> FormatInfo" where
  "formatInfo hw d =
     \<lparr>fi_FourCC = fd_PixelFormat d, fi_PixelFormat = fst (FourCCToPixelFormat (fd_PixelFormat d)),
      fi_Description = byte_string (cString (fd_Description d)),
      fi_FrameSizes = enumFrameSizes (hw_sizes hw (fd_PixelFormat d))\<rparr>"

definition query_open :: "string \<Rightarrow> hardware \<Rightarrow> v4l2_error + DeviceInfo" where
  "query_open path hw =
     (case hw_fails hw QueryCap of
        Some e \<Rightarrow> Inl (Errno QueryCap e)
      | None \<Rightarrow>
          if \<not> isCaptureCapable hw then Inl NotCapture
          else (let info = \<lparr>di_Path = path, di_Driver = byte_string (cString (hw_Driver hw)),
                            di_Card = byte_string (cString (hw_Card hw)), di_Formats = []\<rparr>
                in Inr (case enumFormats hw of
                          (_, Some _) \<Rightarrow> info
                        | (ds, None) \<Rightarrow> info\<lparr>di_Formats := map (formatInfo hw) ds\<rparr>)))"

definition QueryDevice :: "string \<Rightarrow> hardware \<Rightarrow> kernel \<Rightarrow> kernel \<times> (v4l2_error + DeviceInfo)" where
  "QueryDevice path hw k =
     (case openDevice hw k of
        (k1, Inl e) \<Rightarrow> (k1, Inl e)
      | (k1, Inr dev) \<Rightarrow> (fst (device_close dev k1), query_open path hw))"

text \<open>\<^verbatim>\<open>ListDevices\<close> over the nodes found, in path order.\<close>

fun list_loop :: "(string \<times> hardware) list \<Rightarrow> kernel \<Rightarrow> DeviceInfo list \<Rightarrow> v4l2_error option \<Rightarrow> bool
    \<Rightarrow> kernel \<times> DeviceInfo list \<times> v4l2_error option \<times> bool" where
  "list_loop [] k infos lastErr anyOpen = (k, infos, lastErr, anyOpen)"
| "list_loop ((p, hw) # ps) k infos lastErr anyOpen =
     (case QueryDevice p hw k of
        (k1, Inl e) \<Rightarrow> list_loop ps k1 infos (Some e) anyOpen
      | (k1, Inr info) \<Rightarrow> list_loop ps k1 (infos @ [info]) lastErr True)"

definition ListDevices :: "(string \<times> hardware) list \<Rightarrow> kernel \<Rightarrow> kernel \<times> (v4l2_error + DeviceInfo list)" where
  "ListDevices nodes k =
     (case list_loop nodes k [] None False of
        (k1, infos, Some e, False) \<Rightarrow> (k1, if infos = [] then Inl e else Inr infos)
      | (k1, infos, _, _) \<Rightarrow> (k1, Inr infos))"

definition setFormat :: "int \<Rightarrow> int \<Rightarrow> 32 word \<Rightarrow> hardware \<Rightarrow> v4l2_error + v4l2_pix" where
  "setFormat w h fourcc hw =
     (case hw_fails hw SetFmt of
        Some e \<Rightarrow> Inl (Errno SetFmt e)
      | None \<Rightarrow> Inr (hw_grant hw (w mod 2 ^ 32) (h mod 2 ^ 32) fourcc))"

definition setFrameRate :: "int \<Rightarrow> hardware \<Rightarrow> v4l2_error option" where
  "setFrameRate fps hw = (if fps mod 2 ^ 32 = 0 then None else map_option (Errno SetParm) (hw_fails hw SetParm))"

fun initBuffers_loop :: "hardware \<Rightarrow> nat list \<Rightarrow> device \<Rightarrow> kernel \<Rightarrow> kernel \<times> device \<times> v4l2_error option" where
  "initBuffers_loop hw [] d k = (k, d, None)"
| "initBuffers_loop hw (i # is) d k =
     (case hw_fails hw (QueryBuf i) of
        Some e \<Rightarrow> (k, d, Some (Errno (QueryBuf i) e))
      | None \<Rightarrow>
         (case hw_fails hw (Mmap i) of
            Some e \<Rightarrow> (k, d, Some (Errno (Mmap i) e))
          | None \<Rightarrow>
             (let d1 = d\<lparr>dv_buffers := (dv_buffers d)[i := Some (hw_buffer hw i)]\<rparr>; k1 = k\<lparr>k_maps := k_maps k + 1\<rparr>
              in case hw_fails hw (QBuf i) of
                   Some e \<Rightarrow> (k1, d1, Some (Errno (QBuf i) e))
                 | None \<Rightarrow> initBuffers_loop hw is d1 k1)))"

definition initBuffers :: "hardware \<Rightarrow> device \<Rightarrow> kernel \<Rightarrow> kernel \<times> device \<times> v4l2_error option" where
  "initBuffers hw d k =
     (case hw_fails hw ReqBufs of
        Some e \<Rightarrow> (k, d, Some (Errno ReqBufs e))
      | None \<Rightarrow>
          if hw_count hw < 1 then (k, d, Some NoBuffers)
          else initBuffers_loop hw [0..<hw_count hw] (d\<lparr>dv_buffers := replicate (hw_count hw) None\<rparr>) k)"

definition streamOn :: "hardware \<Rightarrow> device \<Rightarrow> kernel \<Rightarrow> kernel \<times> device \<times> v4l2_error option" where
  "streamOn hw d k =
     (case hw_fails hw StreamOn of
        Some e \<Rightarrow> (k, d, Some (Errno StreamOn e))
      | None \<Rightarrow> (k\<lparr>k_streaming := True\<rparr>, d\<lparr>dv_started := True\<rparr>, None))"

section \<open>The source\<close>

record V4l2Source =
  vs_cfg :: V4l2Config
  vs_frames :: "VideoFrame chan"
  vs_errs :: "v4l2_error chan"
  vs_dev :: "device option"
  vs_fourcc :: "32 word"
  vs_pixfmt :: PixelFormat
  vs_width :: int
  vs_height :: int
  vs_bytesPerLine :: int
  vs_sizeImage :: int

definition v4l2_New :: "V4l2Config \<Rightarrow> capture_config_error + V4l2Source" where
  "v4l2_New cfg =
     (case capture_Validate cfg of
        Some e \<Rightarrow> Inl e
      | None \<Rightarrow> Inr \<lparr>vs_cfg = cfg, vs_frames = make_chan FrameBufferSize, vs_errs = make_chan 1, vs_dev = None,
                     vs_fourcc = 0, vs_pixfmt = PixelFormatUnknown, vs_width = 0, vs_height = 0,
                     vs_bytesPerLine = 0, vs_sizeImage = 0\<rparr>)"

text \<open>The steps of \<^verbatim>\<open>Start\<close> on the open device: a failing one returns the device it leaves.\<close>

definition start_open :: "hardware \<Rightarrow> V4l2Config \<Rightarrow> 32 word \<Rightarrow> device \<Rightarrow> kernel
    \<Rightarrow> kernel \<times> device \<times> (v4l2_error + v4l2_pix)" where
  "start_open hw cfg fourcc dev k =
     (case setFormat (cc_Width cfg) (cc_Height cfg) fourcc hw of
        Inl e \<Rightarrow> (k, dev, Inl e)
      | Inr actual \<Rightarrow>
          if px_PixelFormat actual \<noteq> fourcc then (k, dev, Inl (WrongFormat (px_PixelFormat actual) fourcc))
          else (case initBuffers hw dev k of
                  (k1, dev1, Some e) \<Rightarrow> (k1, dev1, Inl e)
                | (k1, dev1, None) \<Rightarrow>
                    (case streamOn hw dev1 k1 of
                       (k2, dev2, Some e) \<Rightarrow> (k2, dev2, Inl e)
                     | (k2, dev2, None) \<Rightarrow> (k2, dev2, Inr actual))))"

definition v4l2_Start :: "hardware \<Rightarrow> V4l2Source \<Rightarrow> kernel \<Rightarrow> kernel \<times> (v4l2_error + V4l2Source)" where
  "v4l2_Start hw s k =
     (case QueryDevice (cc_Device (vs_cfg s)) hw k of
        (k1, Inl e) \<Rightarrow> (k1, Inl e)
      | (k1, Inr info) \<Rightarrow>
          (case NegotiateFormat (preferred (vs_cfg s)) (AvailableFourCCSet info) of
             None \<Rightarrow> (k1, Inl NoFormat)
           | Some (pixfmt, fourcc) \<Rightarrow>
               (case openDevice hw k1 of
                  (k2, Inl e) \<Rightarrow> (k2, Inl e)
                | (k2, Inr dev) \<Rightarrow>
                    (case start_open hw (vs_cfg s) fourcc dev k2 of
                       (k3, dev1, Inl e) \<Rightarrow> (fst (device_close dev1 k3), Inl e)
                     | (k3, dev1, Inr actual) \<Rightarrow>
                         (k3, Inr (s\<lparr>vs_dev := Some dev1, vs_fourcc := fourcc, vs_pixfmt := pixfmt,
                            vs_width := px_Width actual, vs_height := px_Height actual,
                            vs_bytesPerLine := px_BytesPerLine actual, vs_sizeImage := px_SizeImage actual\<rparr>))))))"

subsection \<open>Frame data\<close>

text \<open>
  Slices panic out of range. \<open>slice xs i j\<close> is \<^verbatim>\<open>xs[i:j]\<close>, and \<open>None\<close> is the panic; \<open>blit\<close> is \<^verbatim>\<open>copy\<close> into
  a slice of a buffer.
\<close>

definition go_slice :: "byte list \<Rightarrow> int \<Rightarrow> int \<Rightarrow> byte list option" where
  "go_slice xs i j =
     (if 0 \<le> i \<and> i \<le> j \<and> j \<le> int (length xs) then Some (take (nat (j - i)) (drop (nat i) xs)) else None)"

definition blit :: "byte list \<Rightarrow> int \<Rightarrow> byte list \<Rightarrow> byte list" where
  "blit dst off bs = take (nat off) dst @ bs @ drop (nat off + length bs) dst"

fun copyRows :: "nat list \<Rightarrow> byte list \<Rightarrow> int \<Rightarrow> byte list \<Rightarrow> int \<Rightarrow> byte list option" where
  "copyRows [] dst dstStride src srcStride = Some dst"
| "copyRows (y # ys) dst dstStride src srcStride =
     (let d0 = wrap64 (int y * dstStride); d1 = wrap64 ((int y + 1) * dstStride);
          s0 = wrap64 (int y * srcStride); s1 = wrap64 (wrap64 (int y * srcStride) + dstStride)
      in case (go_slice dst d0 d1, go_slice src s0 s1) of
           (Some old, Some row) \<Rightarrow> copyRows ys (blit dst d0 (take (length old) row)) dstStride src srcStride
         | _ \<Rightarrow> None)"

text \<open>\<^verbatim>\<open>make([]byte, n)\<close>, which panics on a negative size.\<close>

definition make_bytes :: "int \<Rightarrow> byte list option" where
  "make_bytes n = (if n < 0 then None else Some (replicate (nat n) 0))"

datatype copied = Copied "byte list" | DroppedFrame | CopyPanic

definition stride_of :: "int \<Rightarrow> V4l2Source \<Rightarrow> int" where
  "stride_of rowBytes s = (if vs_bytesPerLine s \<le> 0 then rowBytes else vs_bytesPerLine s)"

definition copied_of :: "byte list option \<Rightarrow> copied" where
  "copied_of r = (case r of Some dat \<Rightarrow> Copied dat | None \<Rightarrow> CopyPanic)"

definition copyYUYV :: "V4l2Source \<Rightarrow> byte list \<Rightarrow> copied" where
  "copyYUYV s src =
     (let rowBytes = wrap64 (vs_width s * 2); stride = stride_of rowBytes s in
      if stride < rowBytes then DroppedFrame
      else (let required = wrap64 (stride * vs_height s) in
        if int (length src) < required then DroppedFrame
        else copied_of (do {
          dat \<leftarrow> make_bytes (wrap64 (rowBytes * vs_height s));
          copyRows [0..<nat (vs_height s)] dat rowBytes src stride })))"

definition copyNV12 :: "V4l2Source \<Rightarrow> byte list \<Rightarrow> copied" where
  "copyNV12 s src =
     (let rowBytes = vs_width s; stride = stride_of rowBytes s in
      if stride < rowBytes then DroppedFrame
      else (let uvRows = go_div (vs_height s + 1) 2; required = wrap64 (stride * (vs_height s + uvRows)) in
        if int (length src) < required then DroppedFrame
        else copied_of (do {
          dat \<leftarrow> make_bytes (wrap64 (rowBytes * (vs_height s + uvRows)));
          let yBytes = wrap64 (rowBytes * vs_height s);
          let srcY = wrap64 (stride * vs_height s);
          lumaDst \<leftarrow> go_slice dat 0 yBytes;
          luma \<leftarrow> go_slice src 0 srcY;
          y \<leftarrow> copyRows [0..<nat (vs_height s)] lumaDst rowBytes luma stride;
          chromaDst \<leftarrow> go_slice dat yBytes (int (length dat));
          chroma \<leftarrow> go_slice src srcY (int (length src));
          uv \<leftarrow> copyRows [0..<nat uvRows] chromaDst rowBytes chroma stride;
          Some (y @ uv) })))"

definition copyMJPEG :: "byte list \<Rightarrow> int \<Rightarrow> copied" where
  "copyMJPEG src bytesUsed =
     (let n = (if bytesUsed > int (length src) then int (length src) else bytesUsed)
      in if n \<le> 0 then DroppedFrame else Copied (take (nat n) src))"

definition copyFrameData :: "V4l2Source \<Rightarrow> byte list \<Rightarrow> int \<Rightarrow> copied" where
  "copyFrameData s src bytesUsed =
     (case vs_pixfmt s of
        PixelFormatMJPEG \<Rightarrow> copyMJPEG src bytesUsed
      | PixelFormatNV12 \<Rightarrow> copyNV12 s src
      | PixelFormatYUYV \<Rightarrow> copyYUYV s src
      | PixelFormatUnknown \<Rightarrow> DroppedFrame)"

subsection \<open>The capture loop\<close>

record v4l2Buffer_view =
  vb_Index :: nat
  vb_BytesUsed :: int
  vb_Sec :: int
  vb_Usec :: int
  vb_data :: "byte list"

text \<open>
  Buffer timestamps are readings of the monotonic clock; they are moved to wall-clock time by the
  difference of the two clocks now. \<open>monoNow\<close> is 0 when the clock cannot be read.
\<close>

definition capture_time :: "instant \<Rightarrow> duration \<Rightarrow> v4l2Buffer_view \<Rightarrow> instant" where
  "capture_time now monoNow buf =
     (if vb_Sec buf = 0 \<and> vb_Usec buf = 0 then now
      else (let capMono = wrap64 (vb_Sec buf * Second + vb_Usec buf * Microsecond)
            in if monoNow > 0 \<and> capMono > 0 \<and> capMono \<le> monoNow then now - (monoNow - capMono) else now))"

datatype forwarded = Forwarded V4l2Source | NotForwarded | ForwardPanic

definition v4l2_forward :: "instant \<Rightarrow> duration \<Rightarrow> v4l2Buffer_view \<Rightarrow> device \<Rightarrow> V4l2Source \<Rightarrow> forwarded" where
  "v4l2_forward now monoNow buf dev s =
     (if vb_Index buf \<ge> length (dv_buffers dev) then NotForwarded
      else case copyFrameData s (vb_data buf) (vb_BytesUsed buf) of
             DroppedFrame \<Rightarrow> NotForwarded
           | CopyPanic \<Rightarrow> ForwardPanic
           | Copied dat \<Rightarrow>
               Forwarded (s\<lparr>vs_frames := send_drop_oldest
                 \<lparr>vf_Data = dat, vf_PixelFormat = vs_pixfmt s, vf_Width = vs_width s, vf_Height = vs_height s,
                  vf_Timestamp = capture_time now monoNow buf\<rparr> (vs_frames s)\<rparr>))"

definition classifyDQErr :: "errno \<Rightarrow> v4l2_error" where
  "classifyDQErr e = (if e = ENODEV then Disappeared (QBuf 0) else Errno (QBuf 0) e)"

definition v4l2_emitError :: "v4l2_error \<Rightarrow> V4l2Source \<Rightarrow> V4l2Source" where
  "v4l2_emitError e s = s\<lparr>vs_errs := try_send e (vs_errs s)\<rparr>"

text \<open>What the loop of \<^verbatim>\<open>Run\<close> takes up, and whether requeuing the buffer fails.\<close>

datatype capture_event = CaptureCancelled | Dequeued v4l2Buffer_view instant duration "errno option" | DequeueFailed errno

datatype capture_end = CaptureRunning | CaptureEnded | CapturePanicked

fun capture_loop :: "device \<Rightarrow> capture_event list \<Rightarrow> V4l2Source \<Rightarrow> V4l2Source \<times> capture_end" where
  "capture_loop dev [] s = (s, CaptureRunning)"
| "capture_loop dev (CaptureCancelled # es) s = (s, CaptureEnded)"
| "capture_loop dev (DequeueFailed e # es) s = (v4l2_emitError (classifyDQErr e) s, CaptureEnded)"
| "capture_loop dev (Dequeued buf now monoNow requeue # es) s =
     (case v4l2_forward now monoNow buf dev s of
        ForwardPanic \<Rightarrow> (s, CapturePanicked)
      | fwd \<Rightarrow>
          (let s1 = (case fwd of Forwarded s' \<Rightarrow> s' | _ \<Rightarrow> s)
           in case requeue of
                Some e \<Rightarrow> (v4l2_emitError (Errno (QBuf (vb_Index buf)) e) s1, CaptureEnded)
              | None \<Rightarrow> capture_loop dev es s1))"

text \<open>\<^verbatim>\<open>Run\<close> with its deferred calls: the device is closed, then both channels.\<close>

definition close_channels :: "V4l2Source \<Rightarrow> V4l2Source" where
  "close_channels s = s\<lparr>vs_errs := close_chan (vs_errs s), vs_frames := close_chan (vs_frames s)\<rparr>"

definition v4l2_Run :: "capture_event list \<Rightarrow> V4l2Source \<Rightarrow> kernel \<Rightarrow> kernel \<times> V4l2Source \<times> v4l2_error option \<times> capture_end" where
  "v4l2_Run es s k =
     (case vs_dev s of
        None \<Rightarrow> (k, close_channels s, Some NotStarted, CaptureEnded)
      | Some dev \<Rightarrow>
          (case capture_loop dev es s of
             (s1, CaptureRunning) \<Rightarrow> (k, s1, None, CaptureRunning)
           | (s1, e) \<Rightarrow> (case device_close dev k of (k1, dev1) \<Rightarrow> (k1, close_channels (s1\<lparr>vs_dev := Some dev1\<rparr>), None, e))))"

end
