(* ===== verification/V4l2Props.thy ===== *)
theory V4l2Props
  imports V4l2
begin

text \<open>
  Properties of V4L2 capture: padded frames are repacked exactly and never panic, the frames match what
  the encoder expects, a failing start leaks nothing, and negotiation takes the first format on offer.
\<close>

section \<open>Repacking\<close>

definition frame_rows :: "nat \<Rightarrow> nat \<Rightarrow> byte list \<Rightarrow> nat list \<Rightarrow> byte list" where
  "frame_rows rb stride src ys = concat (map (\<lambda>y. take rb (drop (y * stride) src)) ys)"

lemma go_slice_nat:
  "i \<le> j \<Longrightarrow> j \<le> length xs \<Longrightarrow> go_slice xs (int i) (int j) = Some (take (j - i) (drop i xs))"
  by (simp add: go_slice_def nat_diff_distrib)

lemma wrap64_nat: "int n < 2 ^ 63 \<Longrightarrow> wrap64 (int n) = int n"
  by (intro wrap64_id) (simp add: in_int64_def int64_min_def int64_max_def)

lemma wrap64_le: "n \<le> m \<Longrightarrow> int m < 2 ^ 63 \<Longrightarrow> wrap64 (int n) = int n"
  by (rule wrap64_nat) linarith

lemma make_bytes_nat: "make_bytes (int n) = Some (replicate n 0)"
  by (simp add: make_bytes_def)

lemma copyRows_rows:
  assumes "length dst = n * D" "D \<le> S" "n * S \<le> length src" "int (n * S) < 2 ^ 63" "k \<le> n"
  shows "copyRows [k..<n] dst (int D) src (int S) = Some (take (k * D) dst @ frame_rows D S src [k..<n])"
  using assms(1,5)
proof (induction "n - k" arbitrary: k dst)
  case 0
  then show ?case by (simp add: frame_rows_def)
next
  case (Suc m)
  then have k: "k < n" "m = n - Suc k" by auto
  have le: "k * S + S \<le> n * S" using k(1) by (metis mult_Suc add.commute mult_le_mono1 Suc_leI)
  have le': "k * D + D \<le> n * D" using k(1) by (metis mult_Suc add.commute mult_le_mono1 Suc_leI)
  have DS: "n * D \<le> n * S" using assms(2) by simp
  have w: "wrap64 (int (k * D)) = int (k * D)" "wrap64 (int (k * D + D)) = int (k * D + D)"
    "wrap64 (int (k * S)) = int (k * S)" "wrap64 (int (k * S + D)) = int (k * S + D)"
    using le le' DS assms(2,4) by (intro wrap64_nat; linarith)+
  have idx: "int k * int D = int (k * D)" "(int k + 1) * int D = int (k * D + D)" "int k * int S = int (k * S)"
    "int (k * S) + int D = int (k * S + D)"
    by (simp_all add: algebra_simps)
  have sl: "go_slice dst (int (k * D)) (int (k * D + D)) = Some (take D (drop (k * D) dst))"
    "go_slice src (int (k * S)) (int (k * S + D)) = Some (take D (drop (k * S) src))"
    using le le' assms(2,3) Suc.prems(1) by (subst go_slice_nat; simp)+
  have len: "length (take D (drop (k * D) dst)) = D" "length (take D (drop (k * S) src)) = D"
    using le le' assms(2,3) Suc.prems(1) by auto
  let ?dst = "blit dst (int (k * D)) (take D (drop (k * S) src))"
  have b: "?dst = take (k * D) dst @ take D (drop (k * S) src) @ drop (k * D + D) dst"
    by (simp only: blit_def nat_int len(2))
  have "length ?dst = n * D" using le' Suc.prems(1) len(2) unfolding b by simp
  then have "copyRows [Suc k..<n] ?dst (int D) src (int S) = Some (take (Suc k * D) ?dst @ frame_rows D S src [Suc k..<n])"
    using k by (intro Suc.hyps(1)) auto
  moreover have "take (Suc k * D) ?dst = take (k * D) dst @ take D (drop (k * S) src)"
  proof -
    have "min (n * D) (k * D) = k * D" using le' by linarith
    then show ?thesis using le' Suc.prems(1) len(2) unfolding b by (simp add: add.commute)
  qed
  moreover have "[k..<n] = k # [Suc k..<n]" using k(1) by (rule upt_conv_Cons)
  ultimately show ?case
    using len by (simp only: copyRows.simps Let_def idx w sl option.case prod.case take_all order_refl)
      (simp add: frame_rows_def)
qed

text \<open>Row length and number of rows of a raw frame.\<close>

definition row_bytes :: "V4l2Source \<Rightarrow> int" where
  "row_bytes s = (if vs_pixfmt s = PixelFormatYUYV then vs_width s * 2 else vs_width s)"

definition row_count :: "V4l2Source \<Rightarrow> int" where
  "row_count s = (if vs_pixfmt s = PixelFormatYUYV then vs_height s else vs_height s + (vs_height s + 1) div 2)"

definition raw_ok :: "V4l2Source \<Rightarrow> bool" where
  "raw_ok s \<longleftrightarrow> vs_pixfmt s \<in> {PixelFormatYUYV, PixelFormatNV12} \<and> 0 < vs_width s \<and> vs_width s < 2 ^ 32
     \<and> 0 < vs_height s \<and> stride_of (row_bytes s) s * row_count s < 2 ^ 62"

lemma rows_split:
  "frame_rows D S src ([0..<n] @ map (\<lambda>y. n + y) [0..<m]) = frame_rows D S (take (n * S) src) [0..<n] @ frame_rows D S (drop (n * S) src) [0..<m]"
  if "D \<le> S" "n * S \<le> length src"
proof -
  have "take D (drop (y * S) src) = take D (drop (y * S) (take (n * S) src))" if "y < n" for y
  proof -
    have "y * S + S \<le> n * S" using \<open>y < n\<close> by (metis mult_Suc add.commute mult_le_mono1 Suc_leI)
    then show ?thesis using \<open>D \<le> S\<close> by (simp add: drop_take min_def)
  qed
  then have "map (\<lambda>y. take D (drop (y * S) src)) [0..<n] = map (\<lambda>y. take D (drop (y * S) (take (n * S) src))) [0..<n]"
    by (intro map_cong) auto
  then have "frame_rows D S src [0..<n] = frame_rows D S (take (n * S) src) [0..<n]"
    unfolding frame_rows_def by (rule arg_cong)
  moreover have "frame_rows D S src (xs @ ys) = frame_rows D S src xs @ frame_rows D S src ys" for xs ys
    by (simp add: frame_rows_def)
  moreover have "frame_rows D S src (map (\<lambda>y. n + y) [0..<m]) = frame_rows D S (drop (n * S) src) [0..<m]"
    by (simp add: frame_rows_def comp_def add_mult_distrib add.commute)
  ultimately show ?thesis by simp
qed

lemma frame_rows_length:
  "D \<le> S \<Longrightarrow> n * S \<le> length src \<Longrightarrow> length (frame_rows D S src [0..<n]) = D * n"
proof (induction n)
  case (Suc n)
  then have "length (take D (drop (n * S) src)) = D" by simp
  then show ?case using Suc by (simp add: frame_rows_def)
qed (simp add: frame_rows_def)

lemma yuyv_repacks:
  assumes "vs_pixfmt s = PixelFormatYUYV" and w: "vs_width s = int w" "0 < w" "w < 2 ^ 32" and h: "vs_height s = int h" "0 < h"
    and S: "stride_of (int (2 * w)) s = int S" and nowrap: "int (h * S) < 2 ^ 63"
  shows "copyYUYV s src =
    (if S < 2 * w \<or> length src < h * S then DroppedFrame else Copied (frame_rows (2 * w) S src [0..<h]))"
proof -
  have rb: "wrap64 (vs_width s * 2) = int (2 * w)" using wrap64_nat [of "2 * w"] w by (simp add: mult.commute)
  have req: "wrap64 (int S * int h) = int (h * S)" using wrap64_nat [OF nowrap] by (simp add: mult.commute)
  show ?thesis
  proof (cases "S < 2 * w \<or> length src < h * S")
    case True
    then show ?thesis by (simp only: copyYUYV_def Let_def rb S req h(1) of_nat_less_iff) auto
  next
    case False
    then have le: "2 * w \<le> S" "h * S \<le> length src" by auto
    have "h * (2 * w) \<le> h * S" using le by simp
    then have "wrap64 (int (h * (2 * w))) = int (h * (2 * w))" by (rule wrap64_le [OF _ nowrap])
    then have "wrap64 (int (2 * w) * int h) = int (h * (2 * w))" by (simp only: of_nat_mult mult.commute)
    moreover have "copyRows [0..<h] (replicate (h * (2 * w)) 0) (int (2 * w)) src (int S) = Some (frame_rows (2 * w) S src [0..<h])"
      using copyRows_rows [of "replicate (h * (2 * w)) 0" h "2 * w" S src 0] le nowrap by simp
    ultimately show ?thesis
      using le by (simp only: copyYUYV_def Let_def rb S req h(1) of_nat_less_iff make_bytes_nat nat_int) (simp add: copied_of_def)
  qed
qed

lemma nv12_repacks:
  assumes w: "vs_width s = int w" "0 < w" and h: "vs_height s = int h" "0 < h"
    and S: "stride_of (int w) s = int S" and nowrap: "int ((h + (h + 1) div 2) * S) < 2 ^ 63"
  shows "copyNV12 s src =
    (if S < w \<or> length src < (h + (h + 1) div 2) * S then DroppedFrame
     else Copied (frame_rows w S src [0..<h + (h + 1) div 2]))"
proof -
  define u where "u = (h + 1) div 2"
  have uv: "go_div (int h + 1) 2 = int u" by (simp add: u_def zdiv_int add.commute)
  have req: "wrap64 (int S * (int h + int u)) = int ((h + u) * S)"
    using wrap64_nat [OF nowrap] by (simp add: u_def mult.commute)
  show ?thesis
  proof (cases "S < w \<or> length src < (h + u) * S")
    case True
    then show ?thesis unfolding u_def [symmetric]
      by (simp only: copyNV12_def Let_def w(1) S req h(1) uv of_nat_less_iff) auto
  next
    case False
    then have le: "w \<le> S" "(h + u) * S \<le> length src" by auto
    have big: "(h + u) * w \<le> (h + u) * S" "h * S \<le> (h + u) * S" "u * S \<le> (h + u) * S" "h * w \<le> h * S"
      using le by auto
    note nowrap' = nowrap [folded u_def]
    have n1: "wrap64 (int w * (int h + int u)) = int ((h + u) * w)"
      using wrap64_le [OF big(1) nowrap'] by (simp only: of_nat_mult of_nat_add mult.commute)
    have n2: "wrap64 (int w * int h) = int (h * w)"
      using wrap64_le [OF le_trans [OF big(4) big(2)] nowrap'] by (simp only: of_nat_mult of_nat_add mult.commute)
    have n3: "wrap64 (int S * int h) = int (h * S)"
      using wrap64_le [OF big(2) nowrap'] by (simp only: of_nat_mult of_nat_add mult.commute)
    have n4: "int (h * S) < 2 ^ 63" "int (u * S) < 2 ^ 63" using big nowrap' by linarith+
    have hw: "h * w \<le> (h + u) * w" by simp
    have sl: "go_slice (replicate ((h + u) * w) 0) 0 (int (h * w)) = Some (replicate (h * w) 0)"
      "go_slice (replicate ((h + u) * w) 0) (int (h * w)) (int ((h + u) * w)) = Some (replicate (u * w) 0)"
      "go_slice src 0 (int (h * S)) = Some (take (h * S) src)"
      "go_slice src (int (h * S)) (int (length src)) = Some (drop (h * S) src)"
      using go_slice_nat [of 0 "h * w" "replicate ((h + u) * w) 0"] go_slice_nat [of "h * w" "(h + u) * w" "replicate ((h + u) * w) 0"]
        go_slice_nat [of 0 "h * S" src] go_slice_nat [of "h * S" "length src" src] hw big le
      by (simp_all add: add_mult_distrib min_def)
    have c1: "copyRows [0..<h] (replicate (h * w) 0) (int w) (take (h * S) src) (int S) = Some (frame_rows w S (take (h * S) src) [0..<h])"
      using copyRows_rows [of "replicate (h * w) 0" h w S "take (h * S) src" 0] le big n4 by simp
    have c2: "copyRows [0..<u] (replicate (u * w) 0) (int w) (drop (h * S) src) (int S) = Some (frame_rows w S (drop (h * S) src) [0..<u])"
      using copyRows_rows [of "replicate (u * w) 0" u w S "drop (h * S) src" 0] le big n4
      by (simp add: add_mult_distrib)
    have "frame_rows w S src [0..<h + u] = frame_rows w S (take (h * S) src) [0..<h] @ frame_rows w S (drop (h * S) src) [0..<u]"
      using rows_split [of w S h src u] le big map_add_upt [of h u] upt_add_eq_append [of 0 h u] by (simp add: add.commute)
    moreover have "nat (int h) = h" "nat (int u) = u" by simp_all
    ultimately show ?thesis
      using le sl c1 c2 unfolding u_def [symmetric]
      by (simp only: copyNV12_def Let_def w(1) S req h(1) uv n1 n2 n3 of_nat_less_iff make_bytes_nat nat_int)
        (simp add: copied_of_def del: of_nat_mult of_nat_add)
  qed
qed

lemma raw_frames:
  assumes "raw_ok s"
  shows "copyFrameData s src used =
    (if stride_of (row_bytes s) s < row_bytes s \<or> int (length src) < stride_of (row_bytes s) s * row_count s then DroppedFrame
     else Copied (frame_rows (nat (row_bytes s)) (nat (stride_of (row_bytes s) s)) src [0..<nat (row_count s)]))"
proof -
  obtain w h where wh: "vs_width s = int w" "vs_height s = int h" "0 < w" "0 < h" "w < 2 ^ 32"
    using assms nonneg_int_cases [of "vs_width s"] nonneg_int_cases [of "vs_height s"]
    by (metis raw_ok_def less_imp_le of_nat_0_less_iff of_nat_less_numeral_power_cancel_iff)
  show ?thesis
  proof (cases "vs_pixfmt s = PixelFormatYUYV")
    case True
    then have rb: "row_bytes s = int (2 * w)" "row_count s = int h" by (simp_all add: row_bytes_def row_count_def wh)
    obtain S where S: "stride_of (int (2 * w)) s = int S"
      by (metis nonneg_int_cases stride_of_def of_nat_0_le_iff linear)
    have "int S * int h < 2 ^ 63" using assms by (simp only: raw_ok_def rb S) simp
    then have "int (h * S) < 2 ^ 63" by (simp only: of_nat_mult mult.commute)
    then show ?thesis
      using yuyv_repacks [OF True wh(1,3,5,2,4) S, of src] unfolding copyFrameData_def True rb S PixelFormat.case
      by (simp only: nat_int of_nat_less_iff of_nat_mult [symmetric] mult.commute)
  next
    case False
    then have f: "vs_pixfmt s = PixelFormatNV12" using assms by (simp add: raw_ok_def)
    let ?n = "h + (h + 1) div 2"
    have rb: "row_bytes s = int w" "row_count s = int ?n"
      using False by (simp_all add: row_bytes_def row_count_def wh zdiv_int add.commute)
    obtain S where S: "stride_of (int w) s = int S"
      by (metis nonneg_int_cases stride_of_def of_nat_0_le_iff linear)
    have "int S * int ?n < 2 ^ 63" using assms by (simp only: raw_ok_def rb S) simp
    then have "int (?n * S) < 2 ^ 63" by (simp only: of_nat_mult mult.commute)
    then show ?thesis
      using nv12_repacks [OF wh(1,3,2,4) S, of src] unfolding copyFrameData_def f rb S PixelFormat.case
      by (simp only: nat_int of_nat_less_iff of_nat_mult [symmetric] mult.commute)
  qed
qed

definition tiny_source :: V4l2Source where
  "tiny_source = \<lparr>vs_cfg = capture_DefaultConfig, vs_frames = make_chan FrameBufferSize, vs_errs = make_chan 1, vs_dev = None,
     vs_fourcc = FourCCYUYV, vs_pixfmt = PixelFormatYUYV, vs_width = 2, vs_height = 2, vs_bytesPerLine = 6, vs_sizeImage = 12\<rparr>"

lemma tiny_ok: "raw_ok tiny_source" "row_bytes tiny_source = 4" "row_count tiny_source = 2" "stride_of 4 tiny_source = 6"
  by (simp_all add: tiny_source_def raw_ok_def row_bytes_def row_count_def stride_of_def)

lemma frame_size:
  assumes "raw_ok s" "copyFrameData s src used = Copied dat"
  shows "int (length dat) = row_bytes s * row_count s \<and> row_bytes s * row_count s < 2 ^ 62"
proof -
  have pos: "0 < row_bytes s" "0 < row_count s" using assms(1) by (auto simp: raw_ok_def row_bytes_def row_count_def)
  have le: "row_bytes s \<le> stride_of (row_bytes s) s" "stride_of (row_bytes s) s * row_count s \<le> int (length src)"
    and d: "dat = frame_rows (nat (row_bytes s)) (nat (stride_of (row_bytes s) s)) src [0..<nat (row_count s)]"
    using raw_frames [OF assms(1), of src used] assms(2) by (auto split: if_splits)
  have "int (nat (row_count s) * nat (stride_of (row_bytes s) s)) \<le> int (length src)"
    using pos le by (simp add: mult.commute)
  then have "nat (row_count s) * nat (stride_of (row_bytes s) s) \<le> length src" by (simp only: of_nat_le_iff)
  then have "length dat = nat (row_bytes s) * nat (row_count s)"
    unfolding d using pos le by (intro frame_rows_length) (simp_all only: nat_mono)
  moreover have "row_bytes s * row_count s \<le> stride_of (row_bytes s) s * row_count s"
    using pos le by (intro mult_right_mono) auto
  moreover have "stride_of (row_bytes s) s * row_count s < 2 ^ 62" using assms(1) by (simp only: raw_ok_def)
  ultimately have "row_bytes s * row_count s < 2 ^ 62" by linarith
  then show ?thesis using \<open>length dat = _\<close> pos by simp
qed

text \<open>
  Row padding is removed and nothing else: for a raw format the driver granted with any row length,
  a buffer that is too short (or has rows shorter than the picture) is dropped, and any other becomes
  the rows of the picture, one after the other; no slice expression is out of range.
\<close>

theorem raw_frames_repacked:
  assumes "raw_ok s"
  shows "copyFrameData s src used =
    (if stride_of (row_bytes s) s < row_bytes s \<or> int (length src) < stride_of (row_bytes s) s * row_count s then DroppedFrame
     else Copied (frame_rows (nat (row_bytes s)) (nat (stride_of (row_bytes s) s)) src [0..<nat (row_count s)]))"
  using raw_frames [OF assms] .

theorem raw_frames_repacked_witness:
  "copyFrameData tiny_source [1, 2, 3, 4, 0, 0, 5, 6, 7, 8, 0, 0] 0 = Copied [1, 2, 3, 4, 5, 6, 7, 8]"
  using raw_frames_repacked [OF tiny_ok(1), of "[1, 2, 3, 4, 0, 0, 5, 6, 7, 8, 0, 0]" 0]
  by (simp add: tiny_ok frame_rows_def upt_rec)

text \<open>Every frame the capture loop queues has the size the encoder expects of it.\<close>

definition sized :: "VideoFrame \<Rightarrow> bool" where
  "sized f \<longleftrightarrow> int (length (vf_Data f)) = expectedRawSize (vf_Width f) (vf_Height f) (vf_PixelFormat f)"

lemma expected_size:
  assumes "raw_ok s" "vs_pixfmt s = PixelFormatNV12 \<longrightarrow> even (vs_height s)" "row_bytes s * row_count s < 2 ^ 62"
  shows "expectedRawSize (vs_width s) (vs_height s) (vs_pixfmt s) = row_bytes s * row_count s"
proof (cases "vs_pixfmt s = PixelFormatYUYV")
  case True
  then have e: "row_bytes s * row_count s = vs_width s * vs_height s * 2" by (simp add: row_bytes_def row_count_def)
  define P where "P = row_bytes s * row_count s"
  have "0 \<le> P" using assms(1) True by (simp add: P_def row_bytes_def row_count_def raw_ok_def)
  moreover have "P < 2 ^ 62" using assms(3) unfolding P_def .
  ultimately have "in_int64 P" by (simp add: in_int64_def int64_min_def int64_max_def)
  then have "in_int64 (vs_width s * vs_height s * 2)" unfolding P_def e .
  then show ?thesis using True e by (simp add: expectedRawSize_def)
next
  case False
  then have f: "vs_pixfmt s = PixelFormatNV12" using assms(1) by (simp add: raw_ok_def)
  then obtain m where m: "vs_height s = 2 * m" using assms(2) by blast
  have e: "row_bytes s * row_count s = vs_width s * (3 * m)" using False m by (simp add: row_bytes_def row_count_def algebra_simps)
  have pos: "0 < vs_width s" "0 < m" using assms(1) m by (simp_all add: raw_ok_def)
  have "0 \<le> vs_width s * (3 * m)" using pos by simp
  then have "in_int64 (vs_width s * vs_height s * 3)"
    using assms(3) e m by (simp add: in_int64_def int64_min_def int64_max_def algebra_simps)
  then show ?thesis using f e m pos by (simp add: expectedRawSize_def algebra_simps)
qed

lemma list_all_tl: "list_all P xs \<Longrightarrow> list_all P (tl xs)"
  by (cases xs) auto

lemma loop_frames:
  assumes "raw_ok s" "vs_pixfmt s = PixelFormatNV12 \<longrightarrow> even (vs_height s)" "list_all sized (ch_buf (vs_frames s))"
    "capture_loop dev es s = (s', e)"
  shows "list_all sized (ch_buf (vs_frames s')) \<and> e \<noteq> CapturePanicked"
  using assms
proof (induction dev es s arbitrary: s' e rule: capture_loop.induct)
  case (3 dev e es s)
  then show ?case by (auto simp: v4l2_emitError_def)
next
  case (4 dev buf now monoNow requeue es s)
  have np: "copyFrameData s (vb_data buf) (vb_BytesUsed buf) \<noteq> CopyPanic" using raw_frames [OF 4(3)] by simp
  show ?case
  proof (cases "v4l2_forward now monoNow buf dev s")
    case (Forwarded s1)
    then obtain dat t where dat: "copyFrameData s (vb_data buf) (vb_BytesUsed buf) = Copied dat"
      and s1: "s1 = s\<lparr>vs_frames := send_drop_oldest \<lparr>vf_Data = dat, vf_PixelFormat = vs_pixfmt s, vf_Width = vs_width s,
        vf_Height = vs_height s, vf_Timestamp = t\<rparr> (vs_frames s)\<rparr>"
      by (auto simp: v4l2_forward_def split: if_splits copied.splits)
    have "sized \<lparr>vf_Data = dat, vf_PixelFormat = vs_pixfmt s, vf_Width = vs_width s, vf_Height = vs_height s, vf_Timestamp = t\<rparr>"
      using frame_size [OF 4(3) dat] expected_size [OF 4(3,4)] by (simp add: sized_def)
    then have q: "list_all sized (ch_buf (vs_frames s1))"
      using 4(5) by (auto simp: s1 send_drop_oldest_def try_send_buf list_all_tl)
    have same: "row_bytes s1 = row_bytes s" "row_count s1 = row_count s" "stride_of r s1 = stride_of r s"
      "vs_pixfmt s1 = vs_pixfmt s" "vs_height s1 = vs_height s" "vs_width s1 = vs_width s" for r
      by (simp_all add: s1 row_bytes_def row_count_def stride_of_def)
    then have g: "raw_ok s1" "vs_pixfmt s1 = vs_pixfmt s" "vs_height s1 = vs_height s"
      using 4(3) unfolding raw_ok_def same by simp_all
    then show ?thesis using 4 Forwarded q by (auto simp: v4l2_emitError_def split: option.splits)
  next
    case NotForwarded
    then show ?thesis using 4 by (auto simp: v4l2_emitError_def split: option.splits)
  next
    case ForwardPanic
    then show ?thesis using np by (auto simp: v4l2_forward_def split: if_splits copied.splits)
  qed
qed auto

text \<open>
  C34. The capture loop and the encoder agree on the size of raw frames, for a source with a raw format
  and dimensions whose row and frame sizes do not overflow (\<^const>\<open>raw_ok\<close>) and, if the format is NV12, an
  even height: whatever buffers the driver delivers, with whatever row padding and byte counts, the
  loop does not panic, and every queued frame that passes the encoder's format check has exactly the
  size of one frame of that format, so that the frames written to ffmpeg stay aligned. (With NV12 and an
  odd height they do not agree, see \<open>nv12_odd_height\<close> below.)
\<close>

theorem captured_frames_sized:
  assumes "raw_ok s" and "vs_pixfmt s = PixelFormatNV12 \<longrightarrow> even (vs_height s)" and "ch_buf (vs_frames s) = []"
    and "capture_loop dev es s = (s', e)"
  shows "e \<noteq> CapturePanicked \<and> (\<forall>f\<in>set (ch_buf (vs_frames s')). frame_fits opt f \<longrightarrow>
    int (length (vf_Data f)) = expectedRawSize (o_Width opt) (o_Height opt) (o_InputFormat opt))"
  using loop_frames [OF assms(1,2) _ assms(4)] assms(3) by (auto simp: list_all_iff sized_def frame_fits_def)

theorem captured_frames_sized_witness:
  "\<exists>s' e. capture_loop \<lparr>dv_open = True, dv_buffers = [Some [], Some []], dv_started = True\<rparr>
      [Dequeued \<lparr>vb_Index = 0, vb_BytesUsed = 0, vb_Sec = 1, vb_Usec = 0, vb_data = replicate 12 7\<rparr> 5 9 None, CaptureCancelled]
      tiny_source = (s', e)
    \<and> e \<noteq> CapturePanicked \<and> (\<forall>f\<in>set (ch_buf (vs_frames s')). frame_fits (DefaultOptions 2 2 30 PixelFormatYUYV) f \<longrightarrow>
      int (length (vf_Data f)) = expectedRawSize 2 2 PixelFormatYUYV)"
proof -
  let ?dev = "\<lparr>dv_open = True, dv_buffers = [Some [], Some []], dv_started = True\<rparr>"
  let ?es = "[Dequeued \<lparr>vb_Index = 0, vb_BytesUsed = 0, vb_Sec = 1, vb_Usec = 0, vb_data = replicate 12 7\<rparr> 5 9 None, CaptureCancelled]"
  obtain s' e where l: "capture_loop ?dev ?es tiny_source = (s', e)" by fastforce
  show ?thesis
    using captured_frames_sized [OF tiny_ok(1) _ _ l, of "DefaultOptions 2 2 30 PixelFormatYUYV"] l
    by (simp add: tiny_source_def DefaultOptions_def)
qed

text \<open>With an odd height the two sizes differ: the capture rounds the chroma rows up, the encoder the total down.\<close>

lemma nv12_odd_height: "row_bytes s * row_count s \<noteq> expectedRawSize (vs_width s) (vs_height s) PixelFormatNV12"
  if "vs_pixfmt s = PixelFormatNV12" "vs_width s = 640" "vs_height s = 361"
  using that by (simp add: row_bytes_def row_count_def expectedRawSize_def in_int64_def int64_min_def int64_max_def)

section \<open>Negotiation\<close>

lemma fourcc_roundtrip: "PixelFormatToFourCC pf = Some f \<Longrightarrow> FourCCToPixelFormat f = (pf, True)"
  by (cases pf) (auto simp: FourCCToPixelFormat_def FourCCYUYV_def FourCCMJPEG_def FourCCNV12_def FourCC_def)

lemma negotiate_first:
  "negotiate_loop prefs av = Some (pf, f) \<Longrightarrow>
    av f \<and> PixelFormatToFourCC pf = Some f \<and>
    (\<exists>pre post. prefs = pre @ pf # post \<and> (\<forall>q\<in>set pre. \<forall>g. PixelFormatToFourCC q = Some g \<longrightarrow> \<not> av g))"
proof (induction prefs av rule: negotiate_loop.induct)
  case (2 q prefs av)
  show ?case
  proof (cases "\<exists>g. PixelFormatToFourCC q = Some g \<and> av g")
    case True
    then show ?thesis using 2(3) by (auto intro: exI [of _ "[]"])
  next
    case False
    then have "negotiate_loop prefs av = Some (pf, f)" using 2(3) by (auto split: option.splits)
    then obtain pre post where "av f" "PixelFormatToFourCC pf = Some f" "prefs = pre @ pf # post"
      "\<forall>q\<in>set pre. \<forall>g. PixelFormatToFourCC q = Some g \<longrightarrow> \<not> av g"
      using 2(1,2) False by (cases "PixelFormatToFourCC q") auto
    then show ?thesis using False by (intro conjI exI [of _ "q # pre"] exI [of _ post]) auto
  qed
qed simp

section \<open>Starting\<close>

abbreviation mapped :: "device \<Rightarrow> nat" where
  "mapped d \<equiv> length (filter (\<lambda>b. b \<noteq> None) (dv_buffers d))"

lemma filter_update:
  "i < length xs \<Longrightarrow> xs ! i = None \<Longrightarrow>
    length (filter (\<lambda>b. b \<noteq> None) (xs[i := Some x])) = Suc (length (filter (\<lambda>b. b \<noteq> None) xs))"
  by (induction xs arbitrary: i) (auto simp: nth_Cons' split: nat.splits if_splits elim: less_SucE)

lemma init_loop:
  assumes "initBuffers_loop hw is d k = (k', d', r)" "distinct is"
    "\<forall>i\<in>set is. i < length (dv_buffers d) \<and> dv_buffers d ! i = None"
  shows "mapped d \<le> mapped d' \<and> k' = k\<lparr>k_maps := k_maps k + (mapped d' - mapped d)\<rparr> \<and> dv_open d' = dv_open d
    \<and> dv_started d' = dv_started d \<and> (r = None \<longrightarrow> mapped d' = mapped d + length is)"
  using assms
proof (induction hw "is" d k rule: initBuffers_loop.induct)
  case (2 hw i "is" d k)
  let ?d = "d\<lparr>dv_buffers := (dv_buffers d)[i := Some (hw_buffer hw i)]\<rparr>" and ?k = "k\<lparr>k_maps := k_maps k + 1\<rparr>"
  have m: "mapped ?d = Suc (mapped d)" using 2(4) by (simp add: filter_update [simplified])
  show ?case
  proof (cases "hw_fails hw (QueryBuf i) = None \<and> hw_fails hw (Mmap i) = None \<and> hw_fails hw (QBuf i) = None")
    case True
    then have "initBuffers_loop hw is ?d ?k = (k', d', r)" using 2(2) by (simp add: Let_def)
    moreover have "\<forall>j\<in>set is. j < length (dv_buffers ?d) \<and> dv_buffers ?d ! j = None"
      using 2(3,4) by (auto simp: nth_list_update)
    ultimately show ?thesis using 2(1) [OF _ _ refl refl] True 2(3) m by auto
  next
    case False
    then show ?thesis using 2(2) m by (auto simp: Let_def split: option.splits)
  qed
qed auto

lemma initBuffers_leaves:
  assumes "initBuffers hw d k = (k', d', r)" "dv_buffers d = []"
  shows "k' = k\<lparr>k_maps := k_maps k + mapped d'\<rparr> \<and> dv_open d' = dv_open d \<and> dv_started d' = dv_started d
    \<and> (r = None \<longrightarrow> mapped d' = hw_count hw \<and> 0 < hw_count hw)"
proof (cases "hw_fails hw ReqBufs = None \<and> 0 < hw_count hw")
  case True
  let ?d = "d\<lparr>dv_buffers := replicate (hw_count hw) None\<rparr>"
  have "initBuffers_loop hw [0..<hw_count hw] ?d k = (k', d', r)" using assms(1) True by (simp add: initBuffers_def)
  from init_loop [OF this] show ?thesis using True by auto
next
  case False
  then show ?thesis using assms by (auto simp: initBuffers_def split: option.splits if_splits)
qed

lemma close_undoes:
  "mapped d = n \<Longrightarrow> dv_open d \<Longrightarrow> k_maps k1 = k_maps k + n \<Longrightarrow> k_fds k1 = k_fds k + 1
    \<Longrightarrow> fst (device_close d k1) = k1\<lparr>k_fds := k_fds k, k_maps := k_maps k,
          k_streaming := (if dv_started d then False else k_streaming k1)\<rparr>"
  by (simp add: device_close_def Let_def)

lemma open_device:
  "openDevice hw k = (k1, Inr d) \<Longrightarrow>
    k1 = k\<lparr>k_fds := k_fds k + 1\<rparr> \<and> d = \<lparr>dv_open = True, dv_buffers = [], dv_started = False\<rparr>"
  "openDevice hw k = (k1, Inl e) \<Longrightarrow> k1 = k"
  by (auto simp: openDevice_def split: option.splits)

lemma query_leaves: "fst (QueryDevice path hw k) = k"
  by (auto simp: QueryDevice_def device_close_def dest: open_device split: prod.split sum.split)

lemma start_open_leaves:
  assumes "start_open hw cfg fourcc d k = (k', d', r)" "d = \<lparr>dv_open = True, dv_buffers = [], dv_started = False\<rparr>"
  shows "dv_open d' \<and> (case r of
      Inl e \<Rightarrow> k' = k\<lparr>k_maps := k_maps k + mapped d'\<rparr> \<and> \<not> dv_started d'
    | Inr _ \<Rightarrow> k' = k\<lparr>k_maps := k_maps k + mapped d', k_streaming := True\<rparr> \<and> mapped d' = hw_count hw \<and> dv_started d')"
proof (cases "\<exists>actual. setFormat (cc_Width cfg) (cc_Height cfg) fourcc hw = Inr actual \<and> px_PixelFormat actual = fourcc")
  case True
  obtain k1 d1 r1 where i: "initBuffers hw d k = (k1, d1, r1)" by (metis prod_cases3)
  have l: "k1 = k\<lparr>k_maps := k_maps k + mapped d1\<rparr> \<and> dv_open d1 = dv_open d \<and> dv_started d1 = dv_started d
    \<and> (r1 = None \<longrightarrow> mapped d1 = hw_count hw \<and> 0 < hw_count hw)"
    by (rule initBuffers_leaves [OF i]) (simp add: assms(2))
  obtain actual where a: "setFormat (cc_Width cfg) (cc_Height cfg) fourcc hw = Inr actual" "px_PixelFormat actual = fourcc"
    using True by blast
  have "dv_open d" "\<not> dv_started d" by (simp_all add: assms(2))
  then show ?thesis
    using assms(1) l by (auto simp: start_open_def i a streamOn_def split: option.splits)
next
  case False
  then show ?thesis using assms by (auto simp: start_open_def split: sum.splits)
qed

lemma start_outcome:
  "(\<exists>e. v4l2_Start hw s k = (k, Inl e)) \<or>
   (\<exists>dev s'. v4l2_Start hw s k =
      (k\<lparr>k_fds := k_fds k + 1, k_maps := k_maps k + hw_count hw, k_streaming := True\<rparr>, Inr s')
      \<and> vs_dev s' = Some dev \<and> dv_open dev \<and> dv_started dev \<and> mapped dev = hw_count hw)"
proof -
  obtain q where q: "QueryDevice (cc_Device (vs_cfg s)) hw k = (k, q)" by (metis query_leaves prod.collapse)
  show ?thesis
  proof (cases "\<exists>info pf fc k2 dev. q = Inr info \<and> NegotiateFormat (preferred (vs_cfg s)) (AvailableFourCCSet info) = Some (pf, fc)
      \<and> openDevice hw k = (k2, Inr dev)")
    case False
    then show ?thesis
      by (auto simp: v4l2_Start_def q dest: open_device split: sum.split option.split prod.split)
  next
    case True
    then obtain info pf fc k2 dev where n: "q = Inr info"
      "NegotiateFormat (preferred (vs_cfg s)) (AvailableFourCCSet info) = Some (pf, fc)" "openDevice hw k = (k2, Inr dev)" by blast
    note d = open_device(1) [OF n(3)]
    obtain k3 dev1 r where r: "start_open hw (vs_cfg s) fc dev k2 = (k3, dev1, r)" by (metis prod_cases3)
    note l = start_open_leaves [OF r conjunct2 [OF d]]
    show ?thesis
    proof (cases r)
      case (Inl e)
      then have "fst (device_close dev1 k3) = k"
        using l d close_undoes [of dev1 "mapped dev1" k3 k] by simp
      then show ?thesis using n r Inl by (simp add: v4l2_Start_def q)
    next
      case (Inr actual)
      then have "k3 = k\<lparr>k_fds := k_fds k + 1, k_maps := k_maps k + hw_count hw, k_streaming := True\<rparr>" using l d by simp
      then show ?thesis
        using n r Inr l by (simp add: v4l2_Start_def q)
    qed
  qed
qed

text \<open>
  C37. A capture device that cannot be started is given back completely: whichever system call fails,
  and when negotiation finds no format or the driver grants another one, no descriptor, no mapping and
  no stream is left behind. A successful start holds one descriptor, every granted buffer and the
  stream, and the end of the capture loop releases them all.
\<close>

theorem start_all_or_nothing:
  "(v4l2_Start hw s k = (k', Inl e) \<longrightarrow> k' = k) \<and>
   (v4l2_Start hw s k = (k', Inr s') \<longrightarrow>
      k' = k\<lparr>k_fds := k_fds k + 1, k_maps := k_maps k + hw_count hw, k_streaming := True\<rparr> \<and>
      (v4l2_Run es s' k' = (k'', s'', err, how) \<and> how \<noteq> CaptureRunning \<longrightarrow> k'' = k\<lparr>k_streaming := False\<rparr>))"
proof (intro conjI impI)
  show "k' = k" if "v4l2_Start hw s k = (k', Inl e)" using start_outcome [of hw s k] that by auto
next
  assume st: "v4l2_Start hw s k = (k', Inr s')"
  then show "k' = k\<lparr>k_fds := k_fds k + 1, k_maps := k_maps k + hw_count hw, k_streaming := True\<rparr>"
    using start_outcome [of hw s k] by auto
next
  assume st: "v4l2_Start hw s k = (k', Inr s')" and run: "v4l2_Run es s' k' = (k'', s'', err, how) \<and> how \<noteq> CaptureRunning"
  then obtain dev where k': "k' = k\<lparr>k_fds := k_fds k + 1, k_maps := k_maps k + hw_count hw, k_streaming := True\<rparr>"
    and dev: "vs_dev s' = Some dev" "dv_open dev" "dv_started dev" "mapped dev = hw_count hw"
    using start_outcome [of hw s k] by auto
  have "fst (device_close dev k') = k\<lparr>k_streaming := False\<rparr>"
    using close_undoes [OF dev(4,2), of k' k] dev(3) k' by simp
  then show "k'' = k\<lparr>k_streaming := False\<rparr>"
    using run dev(1) by (auto simp: v4l2_Run_def split: prod.splits capture_end.splits)
qed

text \<open>A card that offers YUYV and whose calls all succeed, or fail when streaming starts.\<close>

definition card :: "errno option \<Rightarrow> hardware" where
  "card r = \<lparr>hw_fails = (\<lambda>c. if c = StreamOn then r else None), hw_Driver = [], hw_Card = [], hw_Capabilities = 1, hw_DeviceCaps = 0,
     hw_formats = ([\<lparr>fd_PixelFormat = FourCCYUYV, fd_Description = []\<rparr>], EINVAL), hw_sizes = (\<lambda>_. []),
     hw_grant = (\<lambda>w h f. \<lparr>px_Width = w, px_Height = h, px_PixelFormat = f, px_BytesPerLine = 2 * w, px_SizeImage = 2 * w * h\<rparr>),
     hw_count = 2, hw_buffer = (\<lambda>_. [])\<rparr>"

lemma card_start:
  "v4l2_Start (card r) tiny_source \<lparr>k_fds = 0, k_maps = 0, k_streaming = False\<rparr> = (k', q) \<Longrightarrow>
    (\<exists>e. q = Inl e) \<longleftrightarrow> r \<noteq> None"
  by (cases r) (auto simp: v4l2_Start_def QueryDevice_def openDevice_def query_open_def isCaptureCapable_def enumFormats_def
      card_def tiny_source_def capture_DefaultConfig_def DefaultPreferredFormats_def preferred_def NegotiateFormat_def
      AvailableFourCCSet_def formatInfo_def start_open_def setFormat_def initBuffers_def streamOn_def Let_def
      upt_rec split: prod.splits)

theorem start_all_or_nothing_witness:
  "(\<exists>e. v4l2_Start (card (Some EIO)) tiny_source \<lparr>k_fds = 0, k_maps = 0, k_streaming = False\<rparr>
      = (\<lparr>k_fds = 0, k_maps = 0, k_streaming = False\<rparr>, Inl e)) \<and>
   (\<exists>s. v4l2_Start (card None) tiny_source \<lparr>k_fds = 0, k_maps = 0, k_streaming = False\<rparr>
      = (\<lparr>k_fds = 1, k_maps = 2, k_streaming = True\<rparr>, Inr s))"
proof -
  let ?k = "\<lparr>k_fds = 0, k_maps = 0, k_streaming = False\<rparr>"
  obtain k1 q1 k2 q2 where a: "v4l2_Start (card (Some EIO)) tiny_source ?k = (k1, q1)"
    "v4l2_Start (card None) tiny_source ?k = (k2, q2)" by fastforce
  obtain e where e: "q1 = Inl e" using card_start [OF a(1)] by auto
  obtain s where s: "q2 = Inr s" using card_start [OF a(2)] by (cases q2) auto
  have "hw_count (card None) = 2" by (simp add: card_def)
  then show ?thesis
    using a start_all_or_nothing [of "card (Some EIO)" tiny_source ?k k1 e] start_all_or_nothing [of "card None" tiny_source ?k k2 _ s]
    by (simp add: e s)
qed

end
