(* ===== verification/Synthetic.thy ===== *)
theory Synthetic
  imports Encoder
begin

text \<open>
  The synthetic capture source (\<^verbatim>\<open>playgate-host/internal/capture/synthetic/source.go\<close>): the test pattern,
  frame by frame, and the drop-oldest queue. What is proved: the pattern fills its buffer exactly, so
  that no index is out of range and every frame has the size the encoder expects.
\<close>

definition synth_frameBufferSize :: nat where "synth_frameBufferSize = 2"

record SynthConfig =
  sc_Width :: int
  sc_Height :: int
  sc_FPS :: int

datatype synth_error = SynthResolution int int | SynthOddWidth int | SynthFPS int

definition synth_Validate :: "SynthConfig \<Rightarrow> synth_error option" where
  "synth_Validate c =
     (if sc_Width c \<le> 0 \<or> sc_Height c \<le> 0 then Some (SynthResolution (sc_Width c) (sc_Height c))
      else if sc_Width c mod 2 \<noteq> 0 then Some (SynthOddWidth (sc_Width c))
      else if sc_FPS c \<le> 0 then Some (SynthFPS (sc_FPS c))
      else None)"

record SynthSource =
  ss_cfg :: SynthConfig
  ss_frames :: "VideoFrame chan"
  ss_errs :: "unit chan"

definition synth_New :: "SynthConfig \<Rightarrow> synth_error + SynthSource" where
  "synth_New cfg =
     (case synth_Validate cfg of
        Some e \<Rightarrow> Inl e
      | None \<Rightarrow> Inr \<lparr>ss_cfg = cfg, ss_frames = make_chan synth_frameBufferSize, ss_errs = make_chan 1\<rparr>)"

text \<open>Go's remainder takes the sign of the dividend.\<close>

definition go_rem :: "int \<Rightarrow> int \<Rightarrow> int" where
  "go_rem a b = a - b * go_div a b"

text \<open>
  The four bytes of a macropixel; the loops write them one after the other from the start of the
  buffer of \<^verbatim>\<open>width*height*2\<close> bytes.
\<close>

definition macropixel :: "int \<Rightarrow> int \<Rightarrow> int \<Rightarrow> int \<Rightarrow> int \<Rightarrow> byte list" where
  "macropixel height phase barX y x =
     (let baseY = word_of_int (16 + go_div (wrap64 (y * 200)) height);
          u = word_of_int (go_rem (wrap64 (x + phase * 2)) 256);
          v = word_of_int (go_rem (wrap64 (y + phase)) 256);
          l = (if barX \<le> x \<and> x < barX + 8 then 235 else baseY)
      in [l, u, l, v])"

definition renderYUYV :: "int \<Rightarrow> int \<Rightarrow> int \<Rightarrow> byte list" where
  "renderYUYV width height phase =
     (let barX = go_rem (wrap64 (phase * 4)) width in
      concat (map (\<lambda>y. concat (map (\<lambda>i. macropixel height phase barX (int y) (2 * int i)) [0..<nat ((width + 1) div 2)]))
        [0..<nat height]))"

definition synth_forward :: "VideoFrame \<Rightarrow> SynthSource \<Rightarrow> SynthSource" where
  "synth_forward frame s = s\<lparr>ss_frames := send_drop_oldest frame (ss_frames s)\<rparr>"

definition synth_frame :: "SynthConfig \<Rightarrow> int \<Rightarrow> instant \<Rightarrow> VideoFrame" where
  "synth_frame cfg phase now =
     \<lparr>vf_Data = renderYUYV (sc_Width cfg) (sc_Height cfg) phase, vf_PixelFormat = PixelFormatYUYV,
      vf_Width = sc_Width cfg, vf_Height = sc_Height cfg, vf_Timestamp = now\<rparr>"

text \<open>\<^verbatim>\<open>Run\<close> over the ticks it sees, \<open>None\<close> being the end of the context; both channels are closed then.\<close>

definition synth_close :: "SynthSource \<Rightarrow> SynthSource" where
  "synth_close s = s\<lparr>ss_errs := close_chan (ss_errs s), ss_frames := close_chan (ss_frames s)\<rparr>"

fun synth_loop :: "instant option list \<Rightarrow> int \<Rightarrow> SynthSource \<Rightarrow> SynthSource \<times> bool" where
  "synth_loop [] phase s = (s, False)"
| "synth_loop (None # es) phase s = (synth_close s, True)"
| "synth_loop (Some now # es) phase s =
     synth_loop es (wrap64 (phase + 1)) (synth_forward (synth_frame (ss_cfg s) phase now) s)"

definition synth_Run :: "instant option list \<Rightarrow> SynthSource \<Rightarrow> SynthSource \<times> bool" where
  "synth_Run es s = synth_loop es 0 s"

section \<open>The pattern fills its buffer\<close>

lemma render_length:
  assumes "synth_Validate cfg = None"
  shows "int (length (renderYUYV (sc_Width cfg) (sc_Height cfg) phase)) = sc_Width cfg * sc_Height cfg * 2"
proof -
  have pos: "0 < sc_Width cfg" "0 < sc_Height cfg" "sc_Width cfg = 2 * (sc_Width cfg div 2)"
    using assms by (auto simp: synth_Validate_def split: if_splits)
  define w h where "w = nat (sc_Width cfg div 2)" and "h = nat (sc_Height cfg)"
  then have wh: "sc_Width cfg = 2 * int w" "sc_Height cfg = int h" using pos by linarith+
  have m: "length (macropixel hh p b y x) = 4" for hh p b y x by (simp add: macropixel_def Let_def)
  have "length (renderYUYV (2 * int w) (int h) phase) = h * (w * 4)"
    by (simp add: renderYUYV_def Let_def length_concat comp_def m sum_list_triv)
  then show ?thesis by (simp add: wh)
qed

lemma synth_loop_frames:
  assumes "synth_Validate (ss_cfg s) = None" "sc_Width (ss_cfg s) * sc_Height (ss_cfg s) * 2 \<le> int64_max"
    "\<forall>f\<in>set (ch_buf (ss_frames s)). P f" "\<And>phase now. P (synth_frame (ss_cfg s) phase now)"
    "synth_loop es phase s = (s', ret)"
  shows "\<forall>f\<in>set (ch_buf (ss_frames s')). P f"
  using assms
proof (induction es phase s rule: synth_loop.induct)
  case (3 now es phase s)
  let ?s = "synth_forward (synth_frame (ss_cfg s) phase now) s"
  have "\<forall>f\<in>set (ch_buf (ss_frames ?s)). P f"
    using 3(4,5) by (cases "ch_buf (ss_frames s)") (auto simp: synth_forward_def send_drop_oldest_def try_send_buf)
  then show ?case using 3 by (simp add: synth_forward_def)
qed (auto simp: synth_close_def)

text \<open>
  The synthetic source always fits the encoder: a configuration that passes validation yields, for
  any number of ticks, only frames of the configured format
  and size whose data has exactly the length the encoder expects.
\<close>

theorem synthetic_frames_fit:
  assumes "synth_New cfg = Inr s" and "sc_Width cfg * sc_Height cfg * 2 \<le> int64_max"
    and "synth_Run es s = (s', ret)" and "f \<in> set (ch_buf (ss_frames s'))"
  shows "frame_fits (DefaultOptions (sc_Width cfg) (sc_Height cfg) fps PixelFormatYUYV) f
    \<and> int (length (vf_Data f)) = expectedRawSize (sc_Width cfg) (sc_Height cfg) PixelFormatYUYV"
proof -
  have v: "synth_Validate cfg = None" and s: "ss_cfg s = cfg" "ch_buf (ss_frames s) = []"
    using assms(1) by (auto simp: synth_New_def split: option.splits)
  let ?P = "\<lambda>f. frame_fits (DefaultOptions (sc_Width cfg) (sc_Height cfg) fps PixelFormatYUYV) f
    \<and> int (length (vf_Data f)) = expectedRawSize (sc_Width cfg) (sc_Height cfg) PixelFormatYUYV"
  have pos: "0 < sc_Width cfg" "0 < sc_Height cfg" using v by (auto simp: synth_Validate_def split: if_splits)
  have "0 \<le> sc_Width cfg * sc_Height cfg * 2" using pos by simp
  then have r: "in_int64 (sc_Width cfg * sc_Height cfg * 2)"
    using assms(2) by (simp add: in_int64_def int64_min_def)
  have fit: "?P (synth_frame cfg phase now)" for phase now
    using render_length [OF v, of phase] r
    by (simp add: synth_frame_def frame_fits_def DefaultOptions_def expectedRawSize_def)
  have "\<forall>f\<in>set (ch_buf (ss_frames s')). ?P f"
  proof (rule synth_loop_frames)
    show "synth_loop es 0 s = (s', ret)" using assms(3) by (simp add: synth_Run_def)
    show "?P (synth_frame (ss_cfg s) phase now)" for phase now unfolding s by (rule fit)
  qed (use assms(2) v s in simp_all)
  then show ?thesis using assms(4) by blast
qed

theorem synthetic_frames_fit_witness:
  "\<exists>s s' ret f. synth_New \<lparr>sc_Width = 4, sc_Height = 2, sc_FPS = 30\<rparr> = Inr s \<and> synth_Run [Some 1, Some 2, Some 3] s = (s', ret)
     \<and> f \<in> set (ch_buf (ss_frames s')) \<and> frame_fits (DefaultOptions 4 2 30 PixelFormatYUYV) f \<and> length (vf_Data f) = 16"
proof -
  let ?cfg = "\<lparr>sc_Width = 4, sc_Height = 2, sc_FPS = 30\<rparr>"
  obtain s where s: "synth_New ?cfg = Inr s" by (simp add: synth_New_def synth_Validate_def)
  then have ss: "s = \<lparr>ss_cfg = ?cfg, ss_frames = make_chan 2, ss_errs = make_chan 1\<rparr>"
    by (simp add: synth_New_def synth_Validate_def synth_frameBufferSize_def)
  obtain s' ret where r: "synth_Run [Some 1, Some 2, Some 3] s = (s', ret)" by fastforce
  then have "synth_frame ?cfg 2 3 \<in> set (ch_buf (ss_frames s'))"
    by (auto simp: synth_Run_def ss synth_forward_def send_drop_oldest_def try_send_buf can_send_def in_int64_def int64_min_def int64_max_def)
  then show ?thesis
    using synthetic_frames_fit [OF s _ r, of "synth_frame ?cfg 2 3" 30] s r
    by (auto simp: int64_max_def expectedRawSize_def in_int64_def int64_min_def)
qed

end
