(* ===== verification/Sink.thy ===== *)
theory Sink
  imports SessionProps Json
begin

text \<open>
  The input sink of the host (\<^verbatim>\<open>playgate-host/internal/host/sink.go\<close>, and \<^verbatim>\<open>wireInput\<close> of \<^verbatim>\<open>connect.go\<close>):
  button masking, draining a command stream into the input target, and the authorization of viewer
  connections over the session manager, as steps of many connections and the manager together.
\<close>

unbundle bit_operations_syntax

section \<open>The sink\<close>

record inputSink =
  is_gated :: bool
  is_disabledMask :: "32 word"

definition disabled_mask :: "string list \<Rightarrow> 32 word" where
  "disabled_mask names =
     fold (\<lambda>name m. case ParseButtonName name of (bits, True) \<Rightarrow> m OR bits | (_, False) \<Rightarrow> m) names 0"

definition newInputSink :: "string list \<Rightarrow> bool \<Rightarrow> inputSink" where
  "newInputSink disabledButtons gated = \<lparr>is_gated = gated, is_disabledMask = disabled_mask disabledButtons\<rparr>"

definition mask_command :: "32 word \<Rightarrow> InputCommand \<Rightarrow> InputCommand" where
  "mask_command msk cmd = cmd\<lparr>ic_Buttons := ic_Buttons cmd AND NOT msk\<rparr>"

text \<open>
  What \<^verbatim>\<open>drainToTarget\<close> receives, and what it sends to the target. Errors of the target are logged.
\<close>

datatype drain_event = DrainCommand InputCommand | DrainClosed | DrainCancelled

fun drain_loop :: "32 word \<Rightarrow> drain_event list \<Rightarrow> InputCommand list \<times> bool" where
  "drain_loop msk [] = ([], False)"
| "drain_loop msk (DrainCommand cmd # es) =
     (case drain_loop msk es of (sent, ended) \<Rightarrow> (mask_command msk cmd # sent, ended))"
| "drain_loop msk (_ # es) = ([], True)"

definition drainToTarget :: "inputSink \<Rightarrow> drain_event list \<Rightarrow> InputCommand list \<times> bool" where
  "drainToTarget s es =
     (case drain_loop (is_disabledMask s) es of
        (sent, ended) \<Rightarrow> (if ended then sent @ [neutral_command] else sent, ended))"

text \<open>The token of an \<^verbatim>\<open>auth\<close> message of the control channel.\<close>

definition auth_token :: "string \<Rightarrow> string option" where
  "auth_token data =
     (case Option.bind (json_parse data) json_members of
        None \<Rightarrow> None
      | Some ms \<Rightarrow>
          (case (get_str ''kind'' ms, get_str ''token'' ms) of
             (Some k, Some t) \<Rightarrow> if k = ''auth'' \<and> t \<noteq> [] then Some t else None
           | _ \<Rightarrow> None))"

text \<open>\<^verbatim>\<open>forwardEvents\<close>: every event of the subscription goes to the viewer's control channel as JSON.\<close>

fun EventKind_String :: "EventKind \<Rightarrow> string" where
  "EventKind_String EventGranted = ''granted''"
| "EventKind_String EventExpired = ''expired''"
| "EventKind_String EventIdleKicked = ''idle_kicked''"
| "EventKind_String EventQueued = ''queued''"
| "EventKind_String EventTick = ''tick''"

definition marshal_event :: "SessionEvent \<Rightarrow> string" where
  "marshal_event ev =
     json_print (JObj [(''kind'', JStr (EventKind_String (se_Kind ev))), (''viewer_id'', JStr (se_ViewerID ev)),
       (''remaining_seconds'', JNum (Itoa (se_RemainingSeconds ev))), (''queue_position'', JNum (Itoa (se_QueuePosition ev))),
       (''ts'', JNum (Itoa (se_Ts ev)))])"

datatype event_input = EventIn SessionEvent | EventsClosed | EventsCancelled

fun forwardEvents :: "event_input list \<Rightarrow> string list" where
  "forwardEvents [] = []"
| "forwardEvents (EventIn ev # es) = marshal_event ev # forwardEvents es"
| "forwardEvents (_ # es) = []"

section \<open>Connections over the session manager\<close>

text \<open>
  Where the authorization of a connection is: none running, about to claim, about to open the gate for
  the claimed entry, draining the gate, about to release. The flag \<^verbatim>\<open>authorizing\<close> of the source is set
  in all but the first. \<open>vc_sent\<close> is what the connection's drains have sent to the target.
\<close>

datatype auth_pc = AuthIdle | AuthClaiming string | AuthGating nat | AuthDraining nat nat | AuthReleasing nat

record viewer_conn =
  vc_auth :: auth_pc
  vc_sent :: "InputCommand list"

text \<open>
  \<open>hs_log\<close> records, for every command that enters the output channel of a gate, who was in control at
  that moment, the viewer of the gate, and the command. \<open>hs_target\<close> is what the target was sent.
\<close>

record host_state =
  hs_sess :: sess_state
  hs_conn :: "nat \<Rightarrow> viewer_conn"
  hs_target :: "InputCommand list"
  hs_log :: "(string \<times> string \<times> InputCommand) list"

datatype host_action = HMessage nat string | HClaim nat | HGate nat | HDrain nat | HDrainClosed nat
  | HDrainCancelled nat | HRelease nat | HSession action

definition set_auth :: "nat \<Rightarrow> auth_pc \<Rightarrow> host_state \<Rightarrow> host_state" where
  "set_auth c pc h = h\<lparr>hs_conn := (hs_conn h)(c := (hs_conn h c)\<lparr>vc_auth := pc\<rparr>)\<rparr>"

definition send_target :: "nat \<Rightarrow> InputCommand \<Rightarrow> host_state \<Rightarrow> host_state" where
  "send_target c cmd h =
     h\<lparr>hs_target := hs_target h @ [cmd], hs_conn := (hs_conn h)(c := (hs_conn h c)\<lparr>vc_sent := vc_sent (hs_conn h c) @ [cmd]\<rparr>)\<rparr>"

text \<open>The commands a step of the manager puts into gate \<open>i\<close>.\<close>

definition forwarded_by :: "action \<Rightarrow> sess_state \<Rightarrow> sess_state \<Rightarrow> (string \<times> string \<times> InputCommand) list" where
  "forwarded_by a s s' =
     (case a of
        AForward i \<Rightarrow>
          map (\<lambda>cmd. (CurrentViewerID (st_m s), g_viewerID (gate (st_m s) i), cmd))
            (drop (length (ch_buf (g_ch (gate (st_m s) i)))) (ch_buf (g_ch (gate (st_m s') i))))
      | _ \<Rightarrow> [])"

definition gate_empty_closed :: "gateHandle \<Rightarrow> bool" where
  "gate_empty_closed g \<longleftrightarrow> ch_buf (g_ch g) = [] \<and> ch_closed (g_ch g)"

fun host_step :: "verify_fun \<Rightarrow> 32 word \<Rightarrow> host_action \<Rightarrow> host_state \<Rightarrow> host_state option" where
  "host_step v msk (HMessage c data) h =
     (case auth_token data of
        Some tok \<Rightarrow> Some (if vc_auth (hs_conn h c) = AuthIdle then set_auth c (AuthClaiming tok) h else h)
      | None \<Rightarrow> Some h)"
| "host_step v msk (HClaim c) h =
     (case vc_auth (hs_conn h c) of
        AuthClaiming tok \<Rightarrow>
          (case Claim v (st_now (hs_sess h)) tok (st_m (hs_sess h)) of
             (m, Inl e) \<Rightarrow> Some (set_auth c AuthIdle (h\<lparr>hs_sess := set_m (hs_sess h) m\<rparr>))
           | (m, Inr p) \<Rightarrow> Some (set_auth c (AuthGating p) (h\<lparr>hs_sess := set_m (hs_sess h) m\<rparr>)))
      | _ \<Rightarrow> None)"
| "host_step v msk (HGate c) h =
     (case vc_auth (hs_conn h c) of
        AuthGating p \<Rightarrow>
          (case Gate (e_viewerID (entry (st_m (hs_sess h)) p)) (st_m (hs_sess h)) of
             (m, i) \<Rightarrow> Some (set_auth c (AuthDraining p i) (h\<lparr>hs_sess := set_m (hs_sess h) m\<rparr>)))
      | _ \<Rightarrow> None)"
| "host_step v msk (HDrain c) h =
     (case vc_auth (hs_conn h c) of
        AuthDraining p i \<Rightarrow>
          (case ch_buf (g_ch (gate (st_m (hs_sess h)) i)) of
             [] \<Rightarrow> None
           | cmd # _ \<Rightarrow>
               map_option (\<lambda>s'. send_target c (mask_command msk cmd) (h\<lparr>hs_sess := s'\<rparr>)) (sess_step v (ADrain i) (hs_sess h)))
      | _ \<Rightarrow> None)"
| "host_step v msk (HDrainClosed c) h =
     (case vc_auth (hs_conn h c) of
        AuthDraining p i \<Rightarrow>
          (if gate_empty_closed (gate (st_m (hs_sess h)) i)
           then Some (set_auth c (AuthReleasing p) (send_target c neutral_command h)) else None)
      | _ \<Rightarrow> None)"
| "host_step v msk (HDrainCancelled c) h =
     (case vc_auth (hs_conn h c) of
        AuthDraining p i \<Rightarrow> Some (set_auth c (AuthReleasing p) (send_target c neutral_command h))
      | _ \<Rightarrow> None)"
| "host_step v msk (HRelease c) h =
     (case vc_auth (hs_conn h c) of
        AuthReleasing p \<Rightarrow> map_option (\<lambda>s'. set_auth c AuthIdle (h\<lparr>hs_sess := s'\<rparr>)) (sess_step v (ARelease p) (hs_sess h))
      | _ \<Rightarrow> None)"
| "host_step v msk (HSession a) h =
     (case a of
        ADrain i \<Rightarrow> None
      | _ \<Rightarrow> map_option (\<lambda>s'. h\<lparr>hs_sess := s', hs_log := hs_log h @ forwarded_by a (hs_sess h) s'\<rparr>) (sess_step v a (hs_sess h)))"

definition host_init :: "Config \<Rightarrow> string \<Rightarrow> instant \<Rightarrow> host_state" where
  "host_init cfg pk now =
     \<lparr>hs_sess = sess_init cfg pk now, hs_conn = (\<lambda>_. \<lparr>vc_auth = AuthIdle, vc_sent = []\<rparr>), hs_target = [], hs_log = []\<rparr>"

inductive host_reachable :: "verify_fun \<Rightarrow> 32 word \<Rightarrow> Config \<Rightarrow> string \<Rightarrow> host_state \<Rightarrow> bool"
  for v msk cfg pk where
  init: "host_reachable v msk cfg pk (host_init cfg pk now)"
| step: "host_reachable v msk cfg pk h \<Longrightarrow> host_step v msk a h = Some h' \<Longrightarrow> host_reachable v msk cfg pk h'"

fun host_run :: "verify_fun \<Rightarrow> 32 word \<Rightarrow> host_action list \<Rightarrow> host_state \<Rightarrow> host_state option" where
  "host_run v msk [] h = Some h"
| "host_run v msk (a # as) h = Option.bind (host_step v msk a h) (host_run v msk as)"

lemma host_run_reachable:
  "host_reachable v msk cfg pk h \<Longrightarrow> host_run v msk as h = Some h' \<Longrightarrow> host_reachable v msk cfg pk h'"
  by (induction as arbitrary: h) (auto split: bind_splits intro: host_reachable.step)

lemma auth_token_print:
  "auth_token (json_print (JObj [(''kind'', JStr ''auth''), (''token'', JStr tok)])) = (if tok = [] then None else Some tok)"
proof -
  have "int_json (JObj [(''kind'', JStr ''auth''), (''token'', JStr tok)])" by auto
  then show ?thesis
    by (simp add: auth_token_def json_parse_print get_field_def field_values_def to_lower_def to_lower_char_def del: json_print.simps)
qed

end
