(* ===== verification/SinkProps.thy ===== *)
theory SinkProps
  imports Sink
begin

text \<open>
  Properties of the input sink: what reaches the input target over any interleaving of connections,
  authorizations and the session manager, and what a drain leaves behind.
\<close>

unbundle bit_operations_syntax

section \<open>Steps of the host are steps of the manager\<close>

lemma set_auth_sel [simp]:
  "hs_sess (set_auth c pc h) = hs_sess h" "hs_target (set_auth c pc h) = hs_target h" "hs_log (set_auth c pc h) = hs_log h"
  "hs_conn (set_auth c pc h) = (hs_conn h)(c := (hs_conn h c)\<lparr>vc_auth := pc\<rparr>)"
  by (simp_all add: set_auth_def)

lemma send_target_sel [simp]:
  "hs_sess (send_target c cmd h) = hs_sess h" "hs_target (send_target c cmd h) = hs_target h @ [cmd]"
  "hs_log (send_target c cmd h) = hs_log h"
  "hs_conn (send_target c cmd h) = (hs_conn h)(c := (hs_conn h c)\<lparr>vc_sent := vc_sent (hs_conn h c) @ [cmd]\<rparr>)"
  by (simp_all add: send_target_def)

lemma host_step_sess:
  assumes "host_step v msk a h = Some h'"
  shows "hs_sess h' = hs_sess h \<and> hs_log h' = hs_log h \<or>
    (\<exists>b. sess_step v b (hs_sess h) = Some (hs_sess h') \<and> hs_log h' = hs_log h @ forwarded_by b (hs_sess h) (hs_sess h'))"
proof (cases a)
  case (HClaim c)
  with assms obtain tok where tok: "vc_auth (hs_conn h c) = AuthClaiming tok" by (auto split: auth_pc.splits)
  have "hs_sess h' = set_m (hs_sess h) (fst (Claim v (st_now (hs_sess h)) tok (st_m (hs_sess h)))) \<and> hs_log h' = hs_log h"
    using assms HClaim tok by (auto split: prod.splits sum.splits)
  then show ?thesis by (intro disjI2 exI [of _ "AClaim tok"]) (simp add: forwarded_by_def)
next
  case (HGate c)
  with assms obtain p where p: "vc_auth (hs_conn h c) = AuthGating p" by (auto split: auth_pc.splits)
  let ?vid = "e_viewerID (entry (st_m (hs_sess h)) p)"
  have "hs_sess h' = set_m (hs_sess h) (fst (Gate ?vid (st_m (hs_sess h)))) \<and> hs_log h' = hs_log h"
    using assms HGate p by (auto split: prod.splits)
  then show ?thesis by (intro disjI2 exI [of _ "AGate ?vid"]) (simp add: forwarded_by_def)
next
  case (HDrain c)
  with assms obtain p i where p: "vc_auth (hs_conn h c) = AuthDraining p i" by (auto split: auth_pc.splits)
  then have "sess_step v (ADrain i) (hs_sess h) = Some (hs_sess h') \<and> hs_log h' = hs_log h"
    using assms HDrain by (auto simp del: sess_step.simps split: list.splits)
  then show ?thesis by (intro disjI2 exI [of _ "ADrain i"]) (simp add: forwarded_by_def del: sess_step.simps)
next
  case (HRelease c)
  with assms obtain p where p: "vc_auth (hs_conn h c) = AuthReleasing p" by (auto split: auth_pc.splits)
  then have "sess_step v (ARelease p) (hs_sess h) = Some (hs_sess h') \<and> hs_log h' = hs_log h"
    using assms HRelease by (auto simp del: sess_step.simps)
  then show ?thesis by (intro disjI2 exI [of _ "ARelease p"]) (simp add: forwarded_by_def del: sess_step.simps)
next
  case (HSession b)
  then have "sess_step v b (hs_sess h) = Some (hs_sess h') \<and> hs_log h' = hs_log h @ forwarded_by b (hs_sess h) (hs_sess h')"
    using assms by (cases b) (auto simp del: sess_step.simps)
  then show ?thesis by blast
qed (use assms in \<open>auto split: option.splits auth_pc.splits if_splits\<close>)

lemma host_sess_reachable: "host_reachable v msk cfg pk h \<Longrightarrow> sess_reachable v cfg pk (hs_sess h)"
proof (induction rule: host_reachable.induct)
  case (init now)
  then show ?case by (simp add: host_init_def sess_reachable.init)
next
  case (step h a h')
  then show ?case using host_step_sess [OF step.hyps(2)] by (metis sess_reachable.step)
qed

section \<open>What is in the gates has been logged\<close>

abbreviation logged :: "host_state \<Rightarrow> InputCommand set" where
  "logged h \<equiv> (snd \<circ> snd) ` set (hs_log h)"

definition bufs_logged :: "host_state \<Rightarrow> bool" where
  "bufs_logged h \<longleftrightarrow> (\<forall>b\<in>set (gbufs (st_m (hs_sess h))). set b \<subseteq> logged h)"

lemma forward_bufs:
  assumes "sess_step v (AForward i) s = Some s'"
  shows "\<exists>new. gbufs (st_m s') = (gbufs (st_m s))[i := gbufs (st_m s) ! i @ new] \<and> i < length (m_gates (st_m s))
    \<and> (snd \<circ> snd) ` set (forwarded_by (AForward i) s s') = set new"
proof -
  have i: "i < length (m_gates (st_m s))" using assms by (simp split: if_splits)
  obtain c b where m': "st_m s' = upd_gate i (\<lambda>g. (if b \<and> \<not> g_closed g then g\<lparr>g_ch := try_send c (g_ch g)\<rparr>
                                 else g)\<lparr>g_pc := AtSelect\<rparr>) (st_m s)"
    using assms by (auto simp: gate_forward_def split: if_splits gate_pc.splits)
  define new where "new = drop (length (ch_buf (g_ch (gate (st_m s) i)))) (ch_buf (g_ch (gate (st_m s') i)))"
  have "ch_buf (g_ch (gate (st_m s') i)) = ch_buf (g_ch (gate (st_m s) i)) @ new"
    using i by (simp add: new_def m' try_send_buf)
  then have "gbufs (st_m s') = (gbufs (st_m s))[i := gbufs (st_m s) ! i @ new]"
    using i by (simp add: gbufs_def m' upd_gate_def map_update)
  moreover have "(snd \<circ> snd) ` set (forwarded_by (AForward i) s s') = set new"
    unfolding forwarded_by_def new_def by (simp add: image_image)
  ultimately show ?thesis using i by blast
qed

lemma forwarded_controller:
  assumes "sess_reachable v cfg pk s" "sess_step v a s = Some s'" "(ctl, vid, cmd) \<in> set (forwarded_by a s s')"
  shows "ctl = vid"
proof -
  obtain i where a: "a = AForward i" and c: "cmd \<in> set (drop (length (ch_buf (g_ch (gate (st_m s) i)))) (ch_buf (g_ch (gate (st_m s') i))))"
    and e: "ctl = CurrentViewerID (st_m s)" "vid = g_viewerID (gate (st_m s) i)"
    using assms(3) by (auto simp: forwarded_by_def split: action.splits)
  have i: "i < length (m_gates (st_m s))" using assms(2) a by (simp split: if_splits)
  have "length (ch_buf (g_ch (gate (st_m s') i))) > length (ch_buf (g_ch (gate (st_m s) i)))"
    using c by (metis drop_all empty_iff empty_set not_le)
  moreover have "i < length (m_gates (st_m s'))" using gates_grow [OF assms(2)] i by simp
  ultimately have "length (gbufs (st_m s') ! i) > length (gbufs (st_m s) ! i)" using i by (simp add: gbufs_def)
  then show ?thesis using forward_controller [OF assms(1) i assms(2)] e by simp
qed

lemma bufs_logged_sess:
  assumes "sess_step v b (hs_sess h) = Some (hs_sess h')" "hs_log h' = hs_log h @ forwarded_by b (hs_sess h) (hs_sess h')"
    "bufs_logged h"
  shows "bufs_logged h'"
proof (cases "\<exists>i. b = AForward i")
  case True
  then obtain i where b: "b = AForward i" by blast
  obtain new where n: "gbufs (st_m (hs_sess h')) = (gbufs (st_m (hs_sess h)))[i := gbufs (st_m (hs_sess h)) ! i @ new]"
    "i < length (m_gates (st_m (hs_sess h)))" "(snd \<circ> snd) ` set (forwarded_by b (hs_sess h) (hs_sess h')) = set new"
    using forward_bufs [OF assms(1) [unfolded b]] b by blast
  have l: "logged h' = logged h \<union> set new" using n(3) by (simp add: assms(2) image_Un)
  have "set (gbufs (st_m (hs_sess h)) ! i) \<subseteq> logged h" using assms(3) n(2) by (auto simp: bufs_logged_def gbufs_def)
  then show ?thesis
    using assms(3) unfolding bufs_logged_def l n(1) by (auto dest!: set_update_subset_insert [THEN subsetD])
next
  case False
  let ?old = "gbufs (st_m (hs_sess h))" and ?new = "gbufs (st_m (hs_sess h'))"
  have l: "logged h' = logged h" using False assms(2) by (auto simp: forwarded_by_def split: action.splits)
  have "set (?new ! i) \<subseteq> logged h" if i: "i < length ?new" for i
  proof (cases "i < length ?old")
    case True
    then have "suffix (?new ! i) (?old ! i)" using gbufs_step_suffix [OF assms(1), of i] False by (simp add: gbufs_def)
    then show ?thesis using assms(3) True unfolding bufs_logged_def by (meson nth_mem set_mono_suffix subset_trans)
  next
    case False
    have "?new ! i = []" by (rule new_gate_empty [OF assms(1) i False])
    then show ?thesis by simp
  qed
  then show ?thesis unfolding bufs_logged_def l by (metis in_set_conv_nth)
qed

section \<open>The invariant of the host\<close>

definition sent_ok :: "32 word \<Rightarrow> host_state \<Rightarrow> InputCommand \<Rightarrow> bool" where
  "sent_ok msk h cmd \<longleftrightarrow> cmd = neutral_command \<or> cmd \<in> mask_command msk ` logged h"

definition conn_ok :: "host_state \<Rightarrow> nat \<Rightarrow> bool" where
  "conn_ok h c \<longleftrightarrow>
     (case vc_auth (hs_conn h c) of
        AuthDraining p i \<Rightarrow> i < length (m_gates (st_m (hs_sess h)))
      | _ \<Rightarrow> vc_sent (hs_conn h c) = [] \<or> last (vc_sent (hs_conn h c)) = neutral_command)"

definition host_inv :: "32 word \<Rightarrow> host_state \<Rightarrow> bool" where
  "host_inv msk h \<longleftrightarrow> bufs_logged h \<and> (\<forall>(ctl, vid, cmd)\<in>set (hs_log h). ctl = vid)
     \<and> (\<forall>cmd\<in>set (hs_target h). sent_ok msk h cmd) \<and> (\<forall>c. conn_ok h c)"

lemma host_log_grows: "host_step v msk a h = Some h' \<Longrightarrow> logged h \<subseteq> logged h'"
  using host_step_sess [of v msk a h h'] by auto

lemma host_gates_grow: "host_step v msk a h = Some h' \<Longrightarrow> length (m_gates (st_m (hs_sess h))) \<le> length (m_gates (st_m (hs_sess h')))"
  using host_step_sess [of v msk a h h'] gates_grow [of v _ "hs_sess h" "hs_sess h'"] by auto

lemma drain_sent:
  assumes "bufs_logged h" "i < length (m_gates (st_m (hs_sess h)))" "ch_buf (g_ch (gate (st_m (hs_sess h)) i)) = cmd # rest"
  shows "cmd \<in> logged h"
proof -
  have "ch_buf (g_ch (gate (st_m (hs_sess h)) i)) \<in> set (gbufs (st_m (hs_sess h)))" using assms(2) by (simp add: gbufs_def)
  then show ?thesis using assms(1,3) unfolding bufs_logged_def by fastforce
qed

lemma sent_maskI: "cmd \<in> logged h \<Longrightarrow> sent_ok msk h (mask_command msk cmd)"
  unfolding sent_ok_def by (intro disjI2 imageI)

lemma sent_neutral [simp]: "sent_ok msk h neutral_command"
  by (simp add: sent_ok_def)

lemma host_target:
  assumes "host_step v msk a h = Some h'" "bufs_logged h" "\<forall>c. conn_ok h c"
  shows "hs_target h' = hs_target h \<or> (\<exists>cmd. hs_target h' = hs_target h @ [cmd] \<and> sent_ok msk h cmd)"
proof (cases a)
  case (HDrain c)
  with assms obtain p i where p: "vc_auth (hs_conn h c) = AuthDraining p i" by (auto split: auth_pc.splits)
  then obtain cmd rest where b: "ch_buf (g_ch (gate (st_m (hs_sess h)) i)) = cmd # rest"
    using assms(1) HDrain by (auto split: list.splits)
  have "i < length (m_gates (st_m (hs_sess h)))" using spec [OF assms(3), of c] p by (simp add: conn_ok_def)
  then have "cmd \<in> logged h" using drain_sent [OF assms(2) _ b] by blast
  then have "sent_ok msk h (mask_command msk cmd)" by (rule sent_maskI)
  then show ?thesis using assms(1) HDrain p b by (auto simp del: sess_step.simps)
next
  case (HSession b)
  then show ?thesis using assms(1) by (cases b) (auto simp del: sess_step.simps)
qed (use assms(1) in \<open>auto simp del: sess_step.simps split: option.splits auth_pc.splits if_splits prod.splits sum.splits\<close>)

lemma host_conns:
  assumes "host_step v msk a h = Some h'" "\<forall>c. conn_ok h c"
  shows "conn_ok h' c"
proof -
  have g: "length (m_gates (st_m (hs_sess h))) \<le> length (m_gates (st_m (hs_sess h')))" by (rule host_gates_grow [OF assms(1)])
  have stay: "conn_ok h' d" if "hs_conn h' d = hs_conn h d" for d
    using spec [OF assms(2), of d] g that by (simp add: conn_ok_def split: auth_pc.splits)
  have idle: "vc_sent (hs_conn h d) = [] \<or> last (vc_sent (hs_conn h d)) = neutral_command"
    if "\<And>p i. vc_auth (hs_conn h d) \<noteq> AuthDraining p i" for d
    using spec [OF assms(2), of d] that by (cases "vc_auth (hs_conn h d)") (auto simp: conn_ok_def)
  show ?thesis
  proof (cases a)
    case (HMessage d data)
    then show ?thesis using assms(1) stay [of c] idle [of d]
      by (cases "c = d") (auto simp: conn_ok_def split: option.splits if_splits)
  next
    case (HClaim d)
    then obtain tok where "vc_auth (hs_conn h d) = AuthClaiming tok" using assms(1) by (auto split: auth_pc.splits)
    then show ?thesis using HClaim assms(1) stay [of c] idle [of d]
      by (cases "c = d") (auto simp: conn_ok_def split: prod.splits sum.splits)
  next
    case (HGate d)
    then obtain p where p: "vc_auth (hs_conn h d) = AuthGating p" using assms(1) by (auto split: auth_pc.splits)
    obtain m i where gt: "Gate (e_viewerID (entry (st_m (hs_sess h)) p)) (st_m (hs_sess h)) = (m, i)" by fastforce
    have "i < length (m_gates m)" using gt by (auto simp: Gate_def Let_def split: option.splits if_splits)
    then show ?thesis using HGate p gt assms(1) stay [of c] by (cases "c = d") (auto simp: conn_ok_def)
  next
    case (HDrain d)
    then obtain p i where p: "vc_auth (hs_conn h d) = AuthDraining p i" using assms(1) by (auto split: auth_pc.splits)
    then have "i < length (m_gates (st_m (hs_sess h)))" using spec [OF assms(2), of d] p by (simp add: conn_ok_def)
    then show ?thesis using HDrain p assms(1) stay [of c] g
      by (cases "c = d") (auto simp: conn_ok_def simp del: sess_step.simps split: list.splits)
  next
    case (HDrainClosed d)
    then show ?thesis using assms(1) stay [of c]
      by (cases "c = d") (auto simp: conn_ok_def split: auth_pc.splits if_splits)
  next
    case (HDrainCancelled d)
    then show ?thesis using assms(1) stay [of c]
      by (cases "c = d") (auto simp: conn_ok_def split: auth_pc.splits if_splits)
  next
    case (HRelease d)
    then obtain p where p: "vc_auth (hs_conn h d) = AuthReleasing p" using assms(1) by (auto split: auth_pc.splits)
    then show ?thesis using HRelease assms(1) stay [of c] idle [of d]
      by (cases "c = d") (auto simp: conn_ok_def simp del: sess_step.simps)
  next
    case (HSession b)
    then have "hs_conn h' = hs_conn h" using assms(1) by (cases b) (auto simp del: sess_step.simps)
    then show ?thesis using stay by simp
  qed
qed

lemma host_inv_reachable: "host_reachable v msk cfg pk h \<Longrightarrow> host_inv msk h"
proof (induction rule: host_reachable.induct)
  case (init now)
  then show ?case by (simp add: host_inv_def host_init_def bufs_logged_def gbufs_def sess_init_def NewManager_def conn_ok_def)
next
  case (step h a h')
  have inv: "bufs_logged h" "\<forall>(ctl, vid, cmd)\<in>set (hs_log h). ctl = vid" "\<forall>cmd\<in>set (hs_target h). sent_ok msk h cmd" "\<forall>c. conn_ok h c"
    using step.IH by (simp_all add: host_inv_def)
  have sub: "logged h \<subseteq> logged h'" by (rule host_log_grows [OF step.hyps(2)])
  have "bufs_logged h'"
    using host_step_sess [OF step.hyps(2)]
  proof (elim disjE exE conjE)
    assume "hs_sess h' = hs_sess h" "hs_log h' = hs_log h"
    then show ?thesis using inv(1) by (simp only: bufs_logged_def)
  next
    fix b assume "sess_step v b (hs_sess h) = Some (hs_sess h')" "hs_log h' = hs_log h @ forwarded_by b (hs_sess h) (hs_sess h')"
    then show ?thesis by (rule bufs_logged_sess [OF _ _ inv(1)])
  qed
  moreover have "\<forall>(ctl, vid, cmd)\<in>set (hs_log h'). ctl = vid"
    using host_step_sess [OF step.hyps(2)] inv(2) forwarded_controller [OF host_sess_reachable [OF step.hyps(1)]] by fastforce
  moreover have "\<forall>cmd\<in>set (hs_target h'). sent_ok msk h' cmd"
  proof
    fix cmd assume "cmd \<in> set (hs_target h')"
    then have "sent_ok msk h cmd" using host_target [OF step.hyps(2) inv(1,4)] inv(3) by auto
    then show "sent_ok msk h' cmd" using image_mono [OF sub, of "mask_command msk"] unfolding sent_ok_def by blast
  qed
  ultimately show ?case using host_conns [OF step.hyps(2) inv(4)] by (simp add: host_inv_def)
qed

section \<open>What reaches the input target\<close>

text \<open>
  C5. The whole input path. In every interleaving of viewer connections, authorizations, gates, timers
  and the manager: each command the target gets is the neutral command, or a command that entered a
  gate while the viewer of that gate was in control, with the disabled buttons cleared; and a connection
  whose authorization has ended has sent the neutral command last, so that no button stays pressed.
\<close>

theorem gated_input_safe:
  assumes "host_reachable v msk cfg pk h"
  shows "(\<forall>cmd\<in>set (hs_target h). cmd = neutral_command \<or>
       (\<exists>vid raw. (vid, vid, raw) \<in> set (hs_log h) \<and> cmd = mask_command msk raw))
   \<and> (\<forall>cmd\<in>set (hs_target h). ic_Buttons cmd AND msk = 0)
   \<and> (vc_auth (hs_conn h c) = AuthIdle \<and> vc_sent (hs_conn h c) \<noteq> [] \<longrightarrow> last (vc_sent (hs_conn h c)) = neutral_command)"
proof -
  have inv: "\<forall>(ctl, vid, cmd)\<in>set (hs_log h). ctl = vid" "\<forall>cmd\<in>set (hs_target h). sent_ok msk h cmd" "conn_ok h c"
    using host_inv_reachable [OF assms] by (simp_all add: host_inv_def)
  have 1: "cmd = neutral_command \<or> (\<exists>vid raw. (vid, vid, raw) \<in> set (hs_log h) \<and> cmd = mask_command msk raw)"
    if "cmd \<in> set (hs_target h)" for cmd
    using inv(1,2) that by (fastforce simp: sent_ok_def)
  have m: "ic_Buttons (mask_command msk raw) AND msk = 0" for raw
    by (simp add: mask_command_def word_bw_assocs word_bw_comms(1) [of "NOT msk"])
  have 2: "ic_Buttons cmd AND msk = 0" if "cmd \<in> set (hs_target h)" for cmd
    using 1 [OF that] m by (auto simp: neutral_command_def)
  have 3: "vc_auth (hs_conn h c) = AuthIdle \<and> vc_sent (hs_conn h c) \<noteq> [] \<longrightarrow> last (vc_sent (hs_conn h c)) = neutral_command"
    using inv(3) by (auto simp: conn_ok_def)
  show ?thesis using 1 2 3 by blast
qed

definition ex_auth :: string where
  "ex_auth = json_print (JObj [(''kind'', JStr ''auth''), (''token'', JStr (ex_token ''v1''))])"

definition ex_h1 :: host_state where
  "ex_h1 = \<lparr>hs_sess = ex_s1, hs_conn = (\<lambda>c. \<lparr>vc_auth = (if c = 0 then AuthGating 0 else AuthIdle), vc_sent = []\<rparr>),
     hs_target = [], hs_log = []\<rparr>"

definition ex_press :: InputCommand where "ex_press = neutral_command\<lparr>ic_Buttons := 0x3\<rparr>"

lemma ex_token_ne: "ex_token vid \<noteq> []"
  by (simp add: ex_token_def IssueJWT_def Let_def)

lemma ex_h1_reachable: "host_reachable ex_verify 1 ex_cfg (kp_Public ex_kp) ex_h1"
proof -
  have "host_run ex_verify 1 [HMessage 0 ex_auth, HClaim 0] (host_init ex_cfg (kp_Public ex_kp) 0) = Some ex_h1"
    by (simp add: ex_auth_def auth_token_print ex_token_ne host_init_def set_auth_def ex_h1_def ex_Claim ex_s1_def ex_init_def
        sess_init_def NewManager_def Second_def startSessionLocked_def Let_def fun_eq_iff del: json_print.simps)
  then show ?thesis by (rule host_run_reachable [OF host_reachable.init])
qed

definition ex_host_actions :: "host_action list" where
  "ex_host_actions = [HGate 0, HSession (ARecv 0 ex_press), HSession (AFind 0), HSession (ATouch 0), HSession (ACheck 0),
     HSession (AForward 0), HDrain 0, HDrainCancelled 0, HRelease 0]"

theorem gated_input_safe_witness:
  "\<exists>h. host_run ex_verify 1 ex_host_actions ex_h1 = Some h \<and> hs_target h = [mask_command 1 ex_press, neutral_command]
     \<and> hs_log h = [(''v1'', ''v1'', ex_press)] \<and> (\<forall>cmd\<in>set (hs_target h). ic_Buttons cmd AND 1 = 0)"
proof -
  have "\<not> Option.is_none (host_run ex_verify 1 ex_host_actions ex_h1)" by code_simp
  then obtain h where h: "host_run ex_verify 1 ex_host_actions ex_h1 = Some h" by (auto simp: Option.is_none_def)
  have "map_option hs_target (host_run ex_verify 1 ex_host_actions ex_h1) = Some [mask_command 1 ex_press, neutral_command]"
    "map_option hs_log (host_run ex_verify 1 ex_host_actions ex_h1) = Some [(''v1'', ''v1'', ex_press)]" by code_simp+
  then show ?thesis
    using h gated_input_safe [OF host_run_reachable [OF ex_h1_reachable h]] by simp
qed

section \<open>A late neutral command\<close>

definition ex_auth2 :: string where
  "ex_auth2 = json_print (JObj [(''kind'', JStr ''auth''), (''token'', JStr (ex_token ''v2''))])"

definition ex_h2 :: host_state where
  "ex_h2 = \<lparr>hs_sess = ex_s2, hs_conn = (\<lambda>c. \<lparr>vc_auth = (if c = 0 then AuthGating 0 else if c = 1 then AuthGating 1 else AuthIdle), vc_sent = []\<rparr>),
     hs_target = [], hs_log = []\<rparr>"

lemma ex_h2_reachable: "host_reachable ex_verify 0 ex_cfg (kp_Public ex_kp) ex_h2"
proof -
  have k: "m_pubKey (st_m ex_s1) = kp_Public ex_kp" "m_cfg (st_m ex_s1) = ex_cfg" "m_active (st_m ex_s1) = Some 0"
    "m_queue (st_m ex_s1) = []" "st_now ex_s1 = 0" "length (m_entries (st_m ex_s1)) = 1"
    by (simp_all add: ex_s1_def ex_init_def sess_init_def NewManager_def startSessionLocked_def Let_def)
  have c1: "Claim ex_verify 0 (ex_token ''v1'') (st_m ex_init) = (st_m ex_s1, Inr 0)"
    by (simp add: ex_Claim ex_s1_def ex_init_def sess_init_def NewManager_def Second_def startSessionLocked_def Let_def)
  have c2: "Claim ex_verify 0 (ex_token ''v2'') (st_m ex_s1) = (st_m ex_s2, Inr 1)"
    using k by (simp add: ex_Claim ex_s2_def Second_def enqueueLocked_def Let_def)
  have i: "st_now ex_init = 0" "set_m ex_init (st_m ex_s1) = ex_s1" "set_m ex_s1 (st_m ex_s2) = ex_s2"
    by (simp_all add: ex_init_def sess_init_def ex_s1_def ex_s2_def)
  have "host_run ex_verify 0 [HMessage 0 ex_auth, HClaim 0, HMessage 1 ex_auth2, HClaim 1] (host_init ex_cfg (kp_Public ex_kp) 0) = Some ex_h2"
    by (simp add: ex_auth_def ex_auth2_def auth_token_print ex_token_ne host_init_def set_auth_def ex_h2_def ex_init_def [symmetric]
        c1 c2 i k fun_eq_iff del: json_print.simps)
  then show ?thesis by (rule host_run_reachable [OF host_reachable.init])
qed

definition ex_late :: "host_action list" where
  "ex_late = [HGate 0, HGate 1, HSession AKick, HSession (AEndSession 0), HSession (ARecv 1 ex_press), HSession (AFind 1),
     HSession (ATouch 1), HSession (ACheck 1), HSession (AForward 1), HDrain 1, HDrainClosed 0]"

text \<open>
  C23. The reset of a viewer that lost control can hit the next one: the neutral command a drain sends
  when its gate closes is not ordered with the commands of the promoted viewer, so that in a reachable
  state \<open>v2\<close> is in control and has just pressed buttons, and the last command of the target releases them.
\<close>

theorem late_neutral_hits_next_controller:
  "\<exists>h. host_reachable ex_verify 0 ex_cfg (kp_Public ex_kp) h \<and> CurrentViewerID (st_m (hs_sess h)) = ''v2''
     \<and> vc_sent (hs_conn h 1) = [ex_press] \<and> vc_auth (hs_conn h 1) \<noteq> AuthIdle \<and> hs_target h = [ex_press, neutral_command]"
proof -
  have "\<not> Option.is_none (host_run ex_verify 0 ex_late ex_h2)" by code_simp
  then obtain h where h: "host_run ex_verify 0 ex_late ex_h2 = Some h" by (auto simp: Option.is_none_def)
  have "map_option hs_target (host_run ex_verify 0 ex_late ex_h2) = Some [ex_press, neutral_command]"
    "map_option (\<lambda>h. CurrentViewerID (st_m (hs_sess h))) (host_run ex_verify 0 ex_late ex_h2) = Some ''v2''"
    "map_option (\<lambda>h. vc_sent (hs_conn h 1)) (host_run ex_verify 0 ex_late ex_h2) = Some [ex_press]"
    "map_option (\<lambda>h. vc_auth (hs_conn h 1)) (host_run ex_verify 0 ex_late ex_h2) = Some (AuthDraining 1 1)" by code_simp+
  then show ?thesis
    using h host_run_reachable [OF ex_h2_reachable h] by (intro exI [of _ h]) simp
qed

end
