(* ===== verification/Router.thy ===== *)
theory Router
  imports Peer Opus Metrics
begin

text \<open>
  The routers of the host (\<^verbatim>\<open>playgate-host/internal/host/router.go\<close>): one stream of packets is fanned
  out to the registered viewers. A sink is a number; what it is and what a write does to it is given
  by the system around the router. Registering is a set operation under a lock; forwarding takes a
  snapshot of the sinks under that lock and writes to them, in any order, after having released it.
\<close>

section \<open>The video router\<close>

record VideoRouter =
  vr_sinks :: "nat list"
  vr_prevPTS :: duration
  vr_havePrev :: bool
  vr_metrics :: "Histogram option"

definition NewVideoRouter :: "Histogram option \<Rightarrow> VideoRouter" where
  "NewVideoRouter mc = \<lparr>vr_sinks = [], vr_prevPTS = 0, vr_havePrev = False, vr_metrics = mc\<rparr>"

definition insert_sink :: "nat \<Rightarrow> nat list \<Rightarrow> nat list" where
  "insert_sink s ss = (if s \<in> set ss then ss else ss @ [s])"

definition delete_sink :: "nat \<Rightarrow> nat list \<Rightarrow> nat list" where
  "delete_sink s ss = filter (\<lambda>x. x \<noteq> s) ss"

definition VideoRouter_AddSink :: "nat \<Rightarrow> VideoRouter \<Rightarrow> VideoRouter" where
  "VideoRouter_AddSink s r = r\<lparr>vr_sinks := insert_sink s (vr_sinks r)\<rparr>"

definition VideoRouter_RemoveSink :: "nat \<Rightarrow> VideoRouter \<Rightarrow> VideoRouter" where
  "VideoRouter_RemoveSink s r = r\<lparr>vr_sinks := delete_sink s (vr_sinks r)\<rparr>"

definition sampleDuration :: "duration \<Rightarrow> duration \<Rightarrow> bool \<Rightarrow> duration" where
  "sampleDuration pts prevPTS havePrev =
     (if \<not> havePrev then go_div Second 30
      else let d = wrap64 (pts - prevPTS) in if d \<le> 0 then go_div Second 30 else d)"

text \<open>The part of \<^verbatim>\<open>forward\<close> under the lock: the duration, and the new time stamp of the stream.\<close>

definition VideoRouter_take :: "EncodedPacket \<Rightarrow> VideoRouter \<Rightarrow> VideoRouter \<times> duration" where
  "VideoRouter_take pkt r =
     (r\<lparr>vr_prevPTS := ep_PTS pkt, vr_havePrev := True\<rparr>, sampleDuration (ep_PTS pkt) (vr_prevPTS r) (vr_havePrev r))"

text \<open>The end of \<^verbatim>\<open>forward\<close>: the time all writes took.\<close>

definition VideoRouter_done :: "duration \<Rightarrow> VideoRouter \<Rightarrow> VideoRouter" where
  "VideoRouter_done elapsed r = r\<lparr>vr_metrics := map_option (Histogram_Observe elapsed) (vr_metrics r)\<rparr>"

section \<open>The audio router\<close>

record AudioRouter =
  ar_sinks :: "nat list"

definition NewAudioRouter :: AudioRouter where
  "NewAudioRouter = \<lparr>ar_sinks = []\<rparr>"

definition AudioRouter_AddSink :: "nat \<Rightarrow> AudioRouter \<Rightarrow> AudioRouter" where
  "AudioRouter_AddSink s r = r\<lparr>ar_sinks := insert_sink s (ar_sinks r)\<rparr>"

definition AudioRouter_RemoveSink :: "nat \<Rightarrow> AudioRouter \<Rightarrow> AudioRouter" where
  "AudioRouter_RemoveSink s r = r\<lparr>ar_sinks := delete_sink s (ar_sinks r)\<rparr>"

text \<open>A page carries its own duration; taking one leaves the router as it is.\<close>

definition AudioRouter_take :: "OpusPacket \<Rightarrow> AudioRouter \<Rightarrow> AudioRouter \<times> duration" where
  "AudioRouter_take pkt r = (r, op_Duration pkt)"

section \<open>A router and its sinks\<close>

text \<open>The operations of a router, as the loop and the connection manager use them.\<close>

record ('r, 'k) router_ops =
  ro_add :: "nat \<Rightarrow> 'r \<Rightarrow> 'r"
  ro_remove :: "nat \<Rightarrow> 'r \<Rightarrow> 'r"
  ro_sinks :: "'r \<Rightarrow> nat list"
  ro_take :: "'k \<Rightarrow> 'r \<Rightarrow> 'r \<times> duration"
  ro_done :: "duration \<Rightarrow> 'r \<Rightarrow> 'r"

definition video_ops :: "(VideoRouter, EncodedPacket) router_ops" where
  "video_ops = \<lparr>ro_add = VideoRouter_AddSink, ro_remove = VideoRouter_RemoveSink, ro_sinks = vr_sinks,
     ro_take = VideoRouter_take, ro_done = VideoRouter_done\<rparr>"

definition audio_ops :: "(AudioRouter, OpusPacket) router_ops" where
  "audio_ops = \<lparr>ro_add = AudioRouter_AddSink, ro_remove = AudioRouter_RemoveSink, ro_sinks = ar_sinks,
     ro_take = AudioRouter_take, ro_done = (\<lambda>_ r. r)\<rparr>"

text \<open>
  The loop of \<^verbatim>\<open>Run\<close> with the sinks it writes to: the router, the state of each sink, the packet being
  written with the sinks of the snapshot that are still to be served, what each sink has put out, and
  the lines \<^verbatim>\<open>write sample failed\<close> the router has logged, by sink.
\<close>

record ('r, 'k, 's, 'o) broadcast =
  bc_router :: 'r
  bc_sink :: "nat \<Rightarrow> 's"
  bc_pending :: "('k \<times> duration \<times> nat list) option"
  bc_out :: "nat \<Rightarrow> 'o list"
  bc_logged :: "nat list"

definition bc_init :: "'r \<Rightarrow> (nat \<Rightarrow> 's) \<Rightarrow> ('r, 'k, 's, 'o) broadcast" where
  "bc_init r sinks = \<lparr>bc_router = r, bc_sink = sinks, bc_pending = None, bc_out = (\<lambda>_. []), bc_logged = []\<rparr>"

text \<open>A write is told whether the sink's track would refuse the sample.\<close>

datatype 'k router_action = RAdd nat | RRemove nat | RPacket 'k | RWrite nat bool | RFinish duration

type_synonym ('k, 's, 'o) sink_write = "bool \<Rightarrow> 'k \<Rightarrow> duration \<Rightarrow> 's \<Rightarrow> 's \<times> 'o option \<times> bool"

fun router_step :: "('r, 'k) router_ops \<Rightarrow> ('k, 's, 'o) sink_write \<Rightarrow> 'k router_action
    \<Rightarrow> ('r, 'k, 's, 'o) broadcast \<Rightarrow> ('r, 'k, 's, 'o) broadcast option" where
  "router_step ops wr (RAdd s) b = Some (b\<lparr>bc_router := ro_add ops s (bc_router b)\<rparr>)"
| "router_step ops wr (RRemove s) b = Some (b\<lparr>bc_router := ro_remove ops s (bc_router b)\<rparr>)"
| "router_step ops wr (RPacket pkt) b =
     (case bc_pending b of
        Some _ \<Rightarrow> None
      | None \<Rightarrow>
          (case ro_take ops pkt (bc_router b) of
             (r, dur) \<Rightarrow>
               Some (if ro_sinks ops r = [] then b\<lparr>bc_router := r\<rparr>
                     else b\<lparr>bc_router := r, bc_pending := Some (pkt, dur, ro_sinks ops r)\<rparr>)))"
| "router_step ops wr (RWrite s refused) b =
     (case bc_pending b of
        Some (pkt, dur, todo) \<Rightarrow>
          (if s \<notin> set todo then None
           else case wr refused pkt dur (bc_sink b s) of
                  (st, out, err) \<Rightarrow>
                    (let b1 = b\<lparr>bc_sink := (bc_sink b)(s := st), bc_pending := Some (pkt, dur, delete_sink s todo),
                                bc_out := (bc_out b)(s := bc_out b s @ option_list out)\<rparr>
                     in Some (if err then b1\<lparr>bc_logged := bc_logged b1 @ [s]\<rparr> else b1)))
      | None \<Rightarrow> None)"
| "router_step ops wr (RFinish elapsed) b =
     (case bc_pending b of
        Some (pkt, dur, []) \<Rightarrow> Some (b\<lparr>bc_router := ro_done ops elapsed (bc_router b), bc_pending := None\<rparr>)
      | _ \<Rightarrow> None)"

fun router_run :: "('r, 'k) router_ops \<Rightarrow> ('k, 's, 'o) sink_write \<Rightarrow> 'k router_action list
    \<Rightarrow> ('r, 'k, 's, 'o) broadcast \<Rightarrow> ('r, 'k, 's, 'o) broadcast option" where
  "router_run ops wr [] b = Some b"
| "router_run ops wr (a # as) b = Option.bind (router_step ops wr a b) (router_run ops wr as)"

section \<open>What a sink is promised\<close>

text \<open>
  The view of one sink: the packets taken while it was registered, with durations from the whole
  stream. It is computed from the packets and the sink's own registrations alone: \<open>stamp\<close> is what
  taking a packet does to the state of the stream.
\<close>

fun sink_view :: "('k \<Rightarrow> 't \<Rightarrow> 't \<times> duration) \<Rightarrow> nat \<Rightarrow> 'k router_action list \<Rightarrow> bool \<Rightarrow> 't \<Rightarrow> ('k \<times> duration) list" where
  "sink_view stamp s [] reg t = []"
| "sink_view stamp s (RAdd s' # as) reg t = sink_view stamp s as (s = s' \<or> reg) t"
| "sink_view stamp s (RRemove s' # as) reg t = sink_view stamp s as (reg \<and> s \<noteq> s') t"
| "sink_view stamp s (RPacket pkt # as) reg t =
     (case stamp pkt t of (t', dur) \<Rightarrow> (if reg then [(pkt, dur)] else []) @ sink_view stamp s as reg t')"
| "sink_view stamp s (_ # as) reg t = sink_view stamp s as reg t"

text \<open>Writing a list of packets to one sink, one after the other, nothing being refused.\<close>

fun feed :: "('k, 's, 'o) sink_write \<Rightarrow> ('k \<times> duration) list \<Rightarrow> 's \<Rightarrow> 's \<times> 'o list" where
  "feed wr [] st = (st, [])"
| "feed wr ((pkt, dur) # ps) st =
     (case wr False pkt dur st of (st1, out, _) \<Rightarrow> (case feed wr ps st1 of (st2, outs) \<Rightarrow> (st2, option_list out @ outs)))"

lemma feed_append:
  "feed wr (ps @ qs) st = (case feed wr ps st of (st1, o1) \<Rightarrow> (case feed wr qs st1 of (st2, o2) \<Rightarrow> (st2, o1 @ o2)))"
  by (induction ps arbitrary: st) (auto split: prod.splits)

text \<open>What a write does to a sink does not depend on the answer of its track, which is only returned.\<close>

definition steady :: "('k, 's, 'o) sink_write \<Rightarrow> bool" where
  "steady wr \<longleftrightarrow> (\<forall>refused k d st. fst (wr refused k d st) = fst (wr False k d st)
     \<and> fst (snd (wr refused k d st)) = fst (snd (wr False k d st)))"

lemma steadyD: "steady wr \<Longrightarrow> wr refused k d st = (st', out, err) \<Longrightarrow> \<exists>err'. wr False k d st = (st', out, err')"
  unfolding steady_def by (metis fst_conv snd_conv prod.exhaust_sel)

lemma steady_WriteSample: "steady WriteSample"
  by (simp add: steady_def WriteSample_def)

locale fanout =
  fixes ops :: "('r, 'k) router_ops" and stamp :: "'k \<Rightarrow> 't \<Rightarrow> 't \<times> duration" and stream :: "'r \<Rightarrow> 't"
  assumes add_sinks: "set (ro_sinks ops (ro_add ops s r)) = insert s (set (ro_sinks ops r))"
    and remove_sinks: "set (ro_sinks ops (ro_remove ops s r)) = set (ro_sinks ops r) - {s}"
    and take_sinks: "ro_sinks ops (fst (ro_take ops k r)) = ro_sinks ops r"
    and done_sinks: "ro_sinks ops (ro_done ops d r) = ro_sinks ops r"
    and stream_inert: "stream (ro_add ops s r) = stream r" "stream (ro_remove ops s r) = stream r" "stream (ro_done ops d r) = stream r"
    and take_stamp: "stamp k (stream r) = (stream (fst (ro_take ops k r)), snd (ro_take ops k r))"
begin

text \<open>What sink \<open>s\<close> has still to be given of the packet in flight.\<close>

definition owed :: "nat \<Rightarrow> ('r, 'k, 's, 'o) broadcast \<Rightarrow> ('k \<times> duration) list" where
  "owed s b = (case bc_pending b of Some (pkt, dur, todo) \<Rightarrow> if s \<in> set todo then [(pkt, dur)] else [] | None \<Rightarrow> [])"

lemma step_view:
  assumes "router_step ops wr a b = Some b'" and steady: "steady wr"
  shows "\<exists>now. sink_view stamp s (a # as) (s \<in> set (ro_sinks ops (bc_router b))) (stream (bc_router b)) =
      now @ sink_view stamp s as (s \<in> set (ro_sinks ops (bc_router b'))) (stream (bc_router b'))
    \<and> (\<exists>o1. feed wr (owed s b @ now) (bc_sink b s) =
        (case feed wr (owed s b') (bc_sink b' s) of (st, o2) \<Rightarrow> (st, o1 @ o2)) \<and> bc_out b' s = bc_out b s @ o1)"
  using assms(1)
proof (cases a)
  case (RPacket pkt)
  obtain r dur where t: "ro_take ops pkt (bc_router b) = (r, dur)" by fastforce
  have p: "bc_pending b = None" using assms(1) RPacket by (auto split: option.splits)
  have b': "b' = (if ro_sinks ops r = [] then b\<lparr>bc_router := r\<rparr>
      else b\<lparr>bc_router := r, bc_pending := Some (pkt, dur, ro_sinks ops r)\<rparr>)"
    using assms(1) RPacket p t by simp
  have s: "ro_sinks ops r = ro_sinks ops (bc_router b)" using take_sinks [of pkt "bc_router b"] t by simp
  have st: "stamp pkt (stream (bc_router b)) = (stream r, dur)" using take_stamp [of pkt "bc_router b"] t by simp
  show ?thesis
    by (rule exI [of _ "if s \<in> set (ro_sinks ops (bc_router b)) then [(pkt, dur)] else []"])
      (auto simp: RPacket st b' s owed_def p split: prod.splits)
next
  case (RWrite s' refused)
  then obtain pkt dur todo where p: "bc_pending b = Some (pkt, dur, todo)" "s' \<in> set todo"
    using assms(1) by (auto split: option.splits if_splits)
  obtain st out err where w: "wr refused pkt dur (bc_sink b s') = (st, out, err)" by (metis prod.exhaust)
  obtain err' where w': "wr False pkt dur (bc_sink b s') = (st, out, err')" using steadyD [OF steady w] by blast
  have b': "bc_sink b' = (bc_sink b)(s' := st)" "bc_pending b' = Some (pkt, dur, delete_sink s' todo)"
    "bc_out b' = (bc_out b)(s' := bc_out b s' @ option_list out)" "bc_router b' = bc_router b"
    using assms(1) RWrite p w by (auto simp: Let_def)
  show ?thesis
    using RWrite p w' by (intro exI [of _ "[]"]) (auto simp: b' owed_def delete_sink_def)
qed (intro exI [of _ "[]"], auto simp: add_sinks remove_sinks done_sinks stream_inert owed_def split: prod.splits option.splits list.splits)

lemma run_view:
  "steady wr \<Longrightarrow> router_run ops wr as b = Some b' \<Longrightarrow>
   \<exists>o1. feed wr (owed s b @ sink_view stamp s as (s \<in> set (ro_sinks ops (bc_router b))) (stream (bc_router b))) (bc_sink b s) =
      (case feed wr (owed s b') (bc_sink b' s) of (st, o2) \<Rightarrow> (st, o1 @ o2)) \<and> bc_out b' s = bc_out b s @ o1"
proof (induction as arbitrary: b)
  case Nil
  then show ?case by (auto split: prod.splits)
next
  case (Cons a as)
  then obtain b1 where b1: "router_step ops wr a b = Some b1" "router_run ops wr as b1 = Some b'"
    by (auto split: bind_splits)
  obtain now o1 where now: "sink_view stamp s (a # as) (s \<in> set (ro_sinks ops (bc_router b))) (stream (bc_router b)) =
      now @ sink_view stamp s as (s \<in> set (ro_sinks ops (bc_router b1))) (stream (bc_router b1))"
    "feed wr (owed s b @ now) (bc_sink b s) = (case feed wr (owed s b1) (bc_sink b1 s) of (st, o2) \<Rightarrow> (st, o1 @ o2))"
    "bc_out b1 s = bc_out b s @ o1"
    using step_view [OF b1(1) Cons.prems(1), of s as] by blast
  obtain o2 where o2: "feed wr (owed s b1 @ sink_view stamp s as (s \<in> set (ro_sinks ops (bc_router b1))) (stream (bc_router b1))) (bc_sink b1 s) =
      (case feed wr (owed s b') (bc_sink b' s) of (st, o3) \<Rightarrow> (st, o2 @ o3))" "bc_out b' s = bc_out b1 s @ o2"
    using Cons.IH [OF Cons.prems(1) b1(2)] by blast
  show ?case
    by (rule exI [of _ "o1 @ o2"])
      (use now o2 in \<open>auto simp: feed_append simp del: sink_view.simps split: prod.splits\<close>; metis append_assoc)
qed

text \<open>
  A served sink has been written exactly its view, whatever the other sinks did and whichever writes,
  its own or those to others, were refused.
\<close>

lemma served:
  assumes "router_run ops wr as (bc_init r sinks) = Some b" "ro_sinks ops r = []" "owed s b = []" "steady wr"
  shows "(bc_sink b s, bc_out b s) = feed wr (sink_view stamp s as False (stream r)) (sinks s)"
  using run_view [OF assms(4,1), of s] assms(2,3) by (auto simp: bc_init_def owed_def)

end

section \<open>The routers keep the promise\<close>

definition video_stamp :: "EncodedPacket \<Rightarrow> duration \<times> bool \<Rightarrow> (duration \<times> bool) \<times> duration" where
  "video_stamp pkt t = ((ep_PTS pkt, True), SampleDuration (ep_PTS pkt) (fst t) (snd t))"

lemma sampleDuration_rtc: "sampleDuration = SampleDuration"
  by (intro ext) (simp add: sampleDuration_def SampleDuration_def DefaultSampleDuration_def Let_def)

lemmas router_defs = VideoRouter_AddSink_def VideoRouter_RemoveSink_def VideoRouter_take_def VideoRouter_done_def
  AudioRouter_AddSink_def AudioRouter_RemoveSink_def AudioRouter_take_def insert_sink_def delete_sink_def

interpretation video: fanout video_ops video_stamp "\<lambda>r. (vr_prevPTS r, vr_havePrev r)"
  by unfold_locales (auto simp: video_ops_def router_defs video_stamp_def sampleDuration_rtc)

interpretation audio: fanout audio_ops "\<lambda>pkt t. (t, op_Duration pkt)" "\<lambda>r. ()"
  by unfold_locales (auto simp: audio_ops_def router_defs)

end
