(* ===== verification/RouterProps.thy ===== *)
theory RouterProps
  imports Router PeerProps
begin

text \<open>
  Properties of the routers: what reaches a viewer depends on the stream and on its own registrations
  only, and starts on a keyframe.
\<close>

abbreviation served :: "nat \<Rightarrow> ('r, 'k, 's, 'o) broadcast \<Rightarrow> bool" where
  "served v b \<equiv> (case bc_pending b of Some (pkt, dur, todo) \<Rightarrow> v \<notin> set todo | None \<Rightarrow> True)"

lemma video_owed: "served v b \<Longrightarrow> video.owed v b = []"
  by (auto simp: video.owed_def split: option.splits)

lemma audio_owed: "served v b \<Longrightarrow> audio.owed v b = []"
  by (auto simp: audio.owed_def split: option.splits)

lemma video_start: "ro_sinks video_ops (NewVideoRouter mc) = []" "vr_prevPTS (NewVideoRouter mc) = 0" "\<not> vr_havePrev (NewVideoRouter mc)"
  by (simp_all add: video_ops_def NewVideoRouter_def)

section \<open>The view of a viewer\<close>

definition video_sample :: "EncodedPacket \<times> duration \<Rightarrow> Sample" where
  "video_sample p = \<lparr>s_Data = ep_Data (fst p), s_Duration = snd p\<rparr>"

lemma write_seen: "p_seenKeyframe p \<Longrightarrow> WriteSample x k d p = (p, Some (video_sample (k, d)), x)"
  by (cases p) (simp add: WriteSample_def video_sample_def)

lemma write_keyframe: "ep_IsKeyframe k \<Longrightarrow> WriteSample x k d p = (p\<lparr>p_seenKeyframe := True\<rparr>, Some (video_sample (k, d)), x)"
  by (simp add: WriteSample_def video_sample_def)

lemma feed_seen: "p_seenKeyframe p \<Longrightarrow> feed WriteSample ps p = (p, map video_sample ps)"
  by (induction ps) (auto simp: write_seen option_list_def)

lemma feed_unseen:
  "\<not> p_seenKeyframe p \<Longrightarrow>
   snd (feed WriteSample ps p) = map video_sample (dropWhile (\<lambda>q. \<not> ep_IsKeyframe (fst q)) ps)"
proof (induction ps)
  case (Cons q ps)
  show ?case
  proof (cases "ep_IsKeyframe (fst q)")
    case True
    then show ?thesis
      using feed_seen [of "p\<lparr>p_seenKeyframe := True\<rparr>" ps]
      by (cases q) (simp add: write_keyframe option_list_def)
  next
    case False
    then show ?thesis
      using Cons by (cases q) (auto simp: WriteSample_def option_list_def split: prod.splits)
  qed
qed simp

lemma view_positive: "(pkt, dur) \<in> set (sink_view video_stamp v as reg t) \<Longrightarrow> 0 < dur"
  by (induction video_stamp v as reg t rule: sink_view.induct)
    (auto simp: video_stamp_def SampleDuration_pos split: if_splits)

text \<open>
  C11. A viewer that joins late: whatever the other viewers do, and however the writes interleave, a
  served viewer has been handed exactly the packets of its own registrations from the first keyframe
  on, in stream order, each with a positive duration taken from the stream as a whole.
\<close>

theorem late_joiner_starts_on_keyframe:
  assumes "router_run video_ops WriteSample as (bc_init (NewVideoRouter mc) peers) = Some b"
    and "\<not> p_seenKeyframe (peers v)" and "served v b"
  shows "bc_out b v = map video_sample
      (dropWhile (\<lambda>q. \<not> ep_IsKeyframe (fst q)) (sink_view video_stamp v as False (0, False)))
    \<and> (\<forall>s\<in>set (bc_out b v). 0 < s_Duration s)"
proof -
  let ?view = "sink_view video_stamp v as False (0, False)"
  have "(bc_sink b v, bc_out b v) = feed WriteSample ?view (peers v)"
    using video.served [OF assms(1) video_start(1) video_owed [OF assms(3)] steady_WriteSample] by (simp add: video_start)
  then have out: "bc_out b v = map video_sample (dropWhile (\<lambda>q. \<not> ep_IsKeyframe (fst q)) ?view)"
    using feed_unseen [OF assms(2), of ?view] by (metis snd_conv)
  then show ?thesis by (auto simp: video_sample_def dest!: set_dropWhileD intro: view_positive)
qed

definition ex_new_peer :: Peer where
  "ex_new_peer = projr (NewPeer (\<lambda>_. False) rtc_DefaultConfig)"

definition ex_pkt :: "bool \<Rightarrow> duration \<Rightarrow> byte \<Rightarrow> EncodedPacket" where
  "ex_pkt key pts x = \<lparr>ep_Data = [x], ep_PTS = pts, ep_IsKeyframe = key\<rparr>"

text \<open>
  Viewer 7 joins while viewer 4 is being served, between two keyframes; the track of viewer 4 refuses
  every sample, that of viewer 7 refuses one, and viewer 4 leaves.
\<close>

definition ex_routing :: "EncodedPacket router_action list" where
  "ex_routing = [RAdd 4, RPacket (ex_pkt True 0 1), RAdd 7, RWrite 4 True, RFinish 5, RPacket (ex_pkt False 40 2), RWrite 4 True, RRemove 4,
     RWrite 7 False, RFinish 7, RPacket (ex_pkt True 80 3), RWrite 7 True, RFinish 3, RPacket (ex_pkt False 130 4), RWrite 7 False]"

definition ex_routed :: "(VideoRouter, EncodedPacket, Peer, Sample) broadcast option" where
  "ex_routed = router_run video_ops WriteSample ex_routing (bc_init (NewVideoRouter (Some NewHistogram)) (\<lambda>_. ex_new_peer))"

theorem late_joiner_starts_on_keyframe_witness:
  "\<exists>b. ex_routed = Some b \<and> bc_out b 7 = [\<lparr>s_Data = [3], s_Duration = 40\<rparr>, \<lparr>s_Data = [4], s_Duration = 50\<rparr>]"
proof -
  have "map_option (\<lambda>b. served 7 b) ex_routed = Some True" by code_simp
  then obtain b where b: "ex_routed = Some b" "served 7 b" by (cases ex_routed) auto
  have new: "\<not> p_seenKeyframe ex_new_peer" by code_simp
  have view: "map video_sample (dropWhile (\<lambda>q. \<not> ep_IsKeyframe (fst q)) (sink_view video_stamp 7 ex_routing False (0, False))) =
      [\<lparr>s_Data = [3], s_Duration = 40\<rparr>, \<lparr>s_Data = [4], s_Duration = 50\<rparr>]" by code_simp
  have "bc_out b 7 = [\<lparr>s_Data = [3], s_Duration = 40\<rparr>, \<lparr>s_Data = [4], s_Duration = 50\<rparr>]"
    using late_joiner_starts_on_keyframe [OF b(1) [unfolded ex_routed_def] new b(2)] view by simp
  then show ?thesis using b(1) by blast
qed

section \<open>Viewers do not interfere\<close>

fun concerns :: "nat \<Rightarrow> 'k router_action \<Rightarrow> bool" where
  "concerns v (RAdd s) = (s = v)"
| "concerns v (RRemove s) = (s = v)"
| "concerns v (RPacket pkt) = True"
| "concerns v _ = False"

lemma view_concerns: "sink_view stamp v (filter (concerns v) as) reg t = sink_view stamp v as reg t"
  by (induction stamp v as reg t rule: sink_view.induct) (auto split: prod.splits)

text \<open>
  C18. Isolation of the viewers: two runs of the video router with the same stream and the same
  registrations of a viewer, but any other viewers, any writes refused by any track, and any timings,
  hand the track of that viewer the same samples and leave its peer in the same state: a refused write
  is logged, and the other sinks of the packet are still written to.
\<close>

theorem viewers_isolated:
  assumes "router_run video_ops WriteSample as (bc_init (NewVideoRouter mc) peers) = Some b" "served v b"
    and "router_run video_ops WriteSample as' (bc_init (NewVideoRouter mc') peers') = Some b'" "served v b'"
    and "filter (concerns v) as = filter (concerns v) as'" "peers v = peers' v"
  shows "bc_out b v = bc_out b' v \<and> bc_sink b v = bc_sink b' v"
proof -
  have "sink_view video_stamp v as False (0, False) = sink_view video_stamp v as' False (0, False)"
    using assms(5) view_concerns by metis
  moreover have "(bc_sink b v, bc_out b v) = feed WriteSample (sink_view video_stamp v as False (0, False)) (peers v)"
    using video.served [OF assms(1) video_start(1) video_owed [OF assms(2)] steady_WriteSample] by (simp add: video_start)
  moreover have "(bc_sink b' v, bc_out b' v) = feed WriteSample (sink_view video_stamp v as' False (0, False)) (peers' v)"
    using video.served [OF assms(3) video_start(1) video_owed [OF assms(4)] steady_WriteSample] by (simp add: video_start)
  ultimately show ?thesis using assms(6) by (metis prod.inject)
qed

definition ex_alone :: "EncodedPacket router_action list" where
  "ex_alone = [RPacket (ex_pkt True 0 1), RAdd 7, RPacket (ex_pkt False 40 2), RWrite 7 False, RFinish 7, RPacket (ex_pkt True 80 3),
     RWrite 7 False, RFinish 3, RPacket (ex_pkt False 130 4), RWrite 7 False]"

definition ex_routed_alone :: "(VideoRouter, EncodedPacket, Peer, Sample) broadcast option" where
  "ex_routed_alone = router_run video_ops WriteSample ex_alone (bc_init (NewVideoRouter None) (\<lambda>_. ex_new_peer))"

theorem viewers_isolated_witness:
  "\<exists>b b'. ex_routed = Some b \<and> ex_routed_alone = Some b' \<and> bc_out b 7 = bc_out b' 7 \<and> length (bc_out b 7) = 2"
proof -
  have h: "map_option (\<lambda>b. (served 7 b, length (bc_out b 7))) ex_routed = Some (True, 2)"
    "map_option (\<lambda>b. served 7 b) ex_routed_alone = Some True"
    and c: "filter (concerns 7) ex_routing = filter (concerns 7) ex_alone" by code_simp+
  obtain b where b: "ex_routed = Some b" "served 7 b" "length (bc_out b 7) = 2" using h(1) by (cases ex_routed) auto
  obtain b' where b': "ex_routed_alone = Some b'" "served 7 b'" using h(2) by (cases ex_routed_alone) auto
  have "bc_out b 7 = bc_out b' 7"
    using viewers_isolated [OF b(1) [unfolded ex_routed_def] b(2) b'(1) [unfolded ex_routed_alone_def] b'(2) c] by simp
  then show ?thesis using b b' by blast
qed

definition audio_write :: "(OpusPacket, Peer, Sample) sink_write" where
  "audio_write refused k d p = (p, WriteAudioSample refused (op_Data k) d p)"

lemma steady_audio: "steady audio_write"
  by (simp add: steady_def audio_write_def WriteAudioSample_def)

lemma feed_audio: "p_audio p \<Longrightarrow>
   feed audio_write ps p = (p, map (\<lambda>q. \<lparr>s_Data = op_Data (fst q), s_Duration = snd q\<rparr>) ps)"
  by (induction ps) (auto simp: audio_write_def WriteAudioSample_def option_list_def)

text \<open>The audio router: a served viewer with an audio track has got every page of its registrations.\<close>

theorem audio_pages_broadcast:
  assumes "router_run audio_ops audio_write as (bc_init NewAudioRouter peers) = Some b"
    and "p_audio (peers v)" and "served v b"
  shows "bc_out b v = map (\<lambda>q. \<lparr>s_Data = op_Data (fst q), s_Duration = snd q\<rparr>)
      (sink_view (\<lambda>pkt t. (t, op_Duration pkt)) v as False ())"
proof -
  have "ro_sinks audio_ops NewAudioRouter = []" by (simp add: audio_ops_def NewAudioRouter_def)
  then have "(bc_sink b v, bc_out b v) =
      feed audio_write (sink_view (\<lambda>pkt t. (t, op_Duration pkt)) v as False ()) (peers v)"
    using audio.served [OF assms(1) _ audio_owed [OF assms(3)] steady_audio] by simp
  then show ?thesis by (simp add: feed_audio [OF assms(2)])
qed

end
