(* ===== verification/Http.thy ===== *)
theory Http
  imports Json
begin

text \<open>
  What the HTTP clients of the repository use of \<^verbatim>\<open>net/http\<close>: a request, the outcome of
  \<^verbatim>\<open>client.Do\<close>, and the decoding of a JSON body. The network is a parameter of the operations: the
  outcome of each request. A request that cannot be built is one of its failures.
\<close>

record HttpRequest =
  hr_Method :: string
  hr_URL :: string
  hr_Headers :: "(string \<times> string) list"
  hr_Body :: "string option"

text \<open>A failure of the transport, or the status code with the body.\<close>

datatype HttpResult = HttpFailed | HttpResponse int string

abbreviation MethodGet :: string where "MethodGet \<equiv> ''GET''"
abbreviation MethodPost :: string where "MethodPost \<equiv> ''POST''"
abbreviation StatusOK :: int where "StatusOK \<equiv> 200"
abbreviation StatusCreated :: int where "StatusCreated \<equiv> 201"

text \<open>\<^verbatim>\<open>json.NewDecoder(body).Decode(&out)\<close> for a struct: the members of the first value of the body.\<close>

definition decode_members :: "string \<Rightarrow> (string \<times> json) list option" where
  "decode_members body = Option.bind (json_parse_prefix body) json_members"

text \<open>A JSON array as a slice: \<^verbatim>\<open>null\<close> is the empty slice, and every element must decode.\<close>

fun json_all :: "(json \<Rightarrow> 'a option) \<Rightarrow> json list \<Rightarrow> 'a list option" where
  "json_all conv [] = Some []"
| "json_all conv (v # vs) =
     (case (conv v, json_all conv vs) of (Some x, Some xs) \<Rightarrow> Some (x # xs) | _ \<Rightarrow> None)"

fun json_slice :: "(json \<Rightarrow> 'a option) \<Rightarrow> json \<Rightarrow> 'a list option" where
  "json_slice conv (JArr vs) = json_all conv vs"
| "json_slice conv JNull = Some []"
| "json_slice conv _ = None"

text \<open>An element of a slice of strings: \<^verbatim>\<open>null\<close> leaves it empty.\<close>

fun json_str_elem :: "json \<Rightarrow> string option" where
  "json_str_elem (JStr s) = Some s"
| "json_str_elem JNull = Some []"
| "json_str_elem _ = None"

text \<open>
  A \<^verbatim>\<open>json.RawMessage\<close> field keeps the text of its value. It is only ever decoded again, so the model
  keeps the value. An absent field is empty; \<^verbatim>\<open>null\<close> is kept as such.
\<close>

definition get_raw :: "string \<Rightarrow> (string \<times> json) list \<Rightarrow> json option" where
  "get_raw f ms =
     (case filter (\<lambda>(k, _). to_lower k = to_lower f) ms of [] \<Rightarrow> None | kvs \<Rightarrow> Some (snd (last kvs)))"

lemma json_all_map: "(\<And>x. x \<in> set xs \<Longrightarrow> conv (f x) = Some x) \<Longrightarrow> json_all conv (map f xs) = Some xs"
  by (induction xs) auto

lemma json_all_length: "json_all conv vs = Some xs \<Longrightarrow> length xs = length vs"
  by (induction vs arbitrary: xs) (auto split: option.splits)

lemma decode_members_print:
  "int_json (JObj ms) \<Longrightarrow> decode_members (json_print (JObj ms)) = Some ms"
  using json_parse_prefix_print [of "JObj ms" "[]"] by (simp add: decode_members_def del: json_print.simps)

end
