(* ===== verification/Signaling.thy ===== *)
theory Signaling
  imports Http Floats
begin

text \<open>
  The client of the signaling Worker (\<^verbatim>\<open>playgate-host/internal/signaling\<close>: \<^verbatim>\<open>client.go\<close> and
  \<^verbatim>\<open>ice.go\<close>). Each operation takes the outcome of its request from \<open>net\<close>, a function of the request.
\<close>

section \<open>Messages\<close>

datatype SigPeer = PeerHost | PeerViewer

fun peer_string :: "SigPeer \<Rightarrow> string" where
  "peer_string PeerHost = ''host''"
| "peer_string PeerViewer = ''viewer''"

record SDPMessage =
  sdp_Type :: string
  sdp_SDP :: string

definition marshal_SDPMessage :: "SDPMessage \<Rightarrow> json" where
  "marshal_SDPMessage m = JObj [(''type'', JStr (sdp_Type m)), (''sdp'', JStr (sdp_SDP m))]"

record ICEServer =
  ice_URLs :: "json option"
  ice_Username :: string
  ice_Credential :: string

record SigMessage =
  sm_Seq :: int
  sm_Ts :: string
  sm_Payload :: "json option"

record postResponse =
  pr_Seq :: int
  pr_Ts :: string

definition decode_ICEServer :: "json \<Rightarrow> ICEServer option" where
  "decode_ICEServer v =
     (case json_members v of
        None \<Rightarrow> None
      | Some ms \<Rightarrow>
          (case (get_str ''username'' ms, get_str ''credential'' ms) of
             (Some u, Some c) \<Rightarrow> Some \<lparr>ice_URLs = get_raw ''urls'' ms, ice_Username = u, ice_Credential = c\<rparr>
           | _ \<Rightarrow> None))"

text \<open>The body of \<^verbatim>\<open>POST /turn/credentials\<close>; the lifetime \<^verbatim>\<open>ttl\<close> must decode but is not used.\<close>

definition decode_turnCredentialsResponse :: "(string \<times> json) list \<Rightarrow> ICEServer list option" where
  "decode_turnCredentialsResponse ms =
     (case (get_field (json_slice decode_ICEServer) [] ''iceServers'' ms, get_int ''ttl'' ms) of
        (Some servers, Some _) \<Rightarrow> Some servers
      | _ \<Rightarrow> None)"

definition decode_Message :: "json \<Rightarrow> SigMessage option" where
  "decode_Message v =
     (case json_members v of
        None \<Rightarrow> None
      | Some ms \<Rightarrow>
          (case (get_int ''seq'' ms, get_str ''ts'' ms) of
             (Some n, Some ts) \<Rightarrow> Some \<lparr>sm_Seq = n, sm_Ts = ts, sm_Payload = get_raw ''payload'' ms\<rparr>
           | _ \<Rightarrow> None))"

definition decode_messagesResponse :: "(string \<times> json) list \<Rightarrow> (SigMessage list \<times> int) option" where
  "decode_messagesResponse ms =
     (case (get_field (json_slice decode_Message) [] ''messages'' ms, get_int ''nextSince'' ms) of
        (Some msgs, Some next) \<Rightarrow> Some (msgs, next)
      | _ \<Rightarrow> None)"

definition decode_postResponse :: "(string \<times> json) list \<Rightarrow> postResponse option" where
  "decode_postResponse ms =
     (case (get_int ''seq'' ms, get_str ''ts'' ms) of
        (Some n, Some ts) \<Rightarrow> Some \<lparr>pr_Seq = n, pr_Ts = ts\<rparr>
      | _ \<Rightarrow> None)"

section \<open>The client\<close>

record SignalConfig =
  sig_BaseURL :: string
  sig_RoomID :: string
  sig_Token :: string

record SigClient =
  cl_base :: string
  cl_room :: string
  cl_token :: string

datatype signal_error = EmptyBaseURL | EmptyRoom | RequestFailed | UnexpectedStatus int | DecodeFailed

definition signaling_New :: "SignalConfig \<Rightarrow> signal_error + SigClient" where
  "signaling_New cfg =
     (if trim_space (sig_BaseURL cfg) = [] then Inl EmptyBaseURL
      else if trim_space (sig_RoomID cfg) = [] then Inl EmptyRoom
      else Inr \<lparr>cl_base = trim_right (CHR ''/'') (sig_BaseURL cfg), cl_room = sig_RoomID cfg, cl_token = sig_Token cfg\<rparr>)"

definition newRequest :: "SigClient \<Rightarrow> string \<Rightarrow> string \<Rightarrow> string option \<Rightarrow> HttpRequest" where
  "newRequest c method url body =
     \<lparr>hr_Method = method, hr_URL = url,
      hr_Headers = (if cl_token c \<noteq> [] then [(''Authorization'', ''Bearer '' @ cl_token c)] else []), hr_Body = body\<rparr>"

definition set_header :: "string \<Rightarrow> string \<Rightarrow> HttpRequest \<Rightarrow> HttpRequest" where
  "set_header k v r = r\<lparr>hr_Headers := hr_Headers r @ [(k, v)]\<rparr>"

abbreviation json_request :: "HttpRequest \<Rightarrow> HttpRequest" where
  "json_request \<equiv> set_header ''Content-Type'' ''application/json''"

definition turn_request :: "SigClient \<Rightarrow> HttpRequest" where
  "turn_request c = json_request (newRequest c MethodPost (cl_base c @ ''/turn/credentials'') (Some ''{}''))"

definition TURNCredentials :: "(HttpRequest \<Rightarrow> HttpResult) \<Rightarrow> SigClient \<Rightarrow> signal_error + ICEServer list" where
  "TURNCredentials net c =
     (case net (turn_request c) of
        HttpFailed \<Rightarrow> Inl RequestFailed
      | HttpResponse status body \<Rightarrow>
          (if status \<noteq> StatusOK then Inl (UnexpectedStatus status)
           else case Option.bind (decode_members body) decode_turnCredentialsResponse of
                  None \<Rightarrow> Inl DecodeFailed
                | Some servers \<Rightarrow> Inr servers))"

definition room_url :: "SigClient \<Rightarrow> SigPeer \<Rightarrow> string" where
  "room_url c self = cl_base c @ ''/rooms/'' @ cl_room c @ ''/'' @ peer_string self"

definition post_request :: "SigClient \<Rightarrow> SigPeer \<Rightarrow> json \<Rightarrow> HttpRequest" where
  "post_request c peer payload = json_request (newRequest c MethodPost (room_url c peer) (Some (json_print payload)))"

text \<open>A body that does not decode counts as success with zero values.\<close>

definition post :: "(HttpRequest \<Rightarrow> HttpResult) \<Rightarrow> SigClient \<Rightarrow> SigPeer \<Rightarrow> json \<Rightarrow> signal_error + postResponse" where
  "post net c peer payload =
     (case net (post_request c peer payload) of
        HttpFailed \<Rightarrow> Inl RequestFailed
      | HttpResponse status body \<Rightarrow>
          (if status \<noteq> StatusCreated \<and> status \<noteq> StatusOK then Inl (UnexpectedStatus status)
           else case Option.bind (decode_members body) decode_postResponse of
                  None \<Rightarrow> Inr \<lparr>pr_Seq = 0, pr_Ts = []\<rparr>
                | Some r \<Rightarrow> Inr r))"

definition PostOffer :: "(HttpRequest \<Rightarrow> HttpResult) \<Rightarrow> SigClient \<Rightarrow> SDPMessage \<Rightarrow> signal_error + string" where
  "PostOffer net c sdp = map_sum id pr_Ts (post net c PeerHost (marshal_SDPMessage sdp))"

definition PostMessage :: "(HttpRequest \<Rightarrow> HttpResult) \<Rightarrow> SigClient \<Rightarrow> json \<Rightarrow> signal_error option" where
  "PostMessage net c payload = (case post net c PeerHost payload of Inl e \<Rightarrow> Some e | Inr _ \<Rightarrow> None)"

text \<open>\<^verbatim>\<open>int(wait.Seconds())\<close> of a positive duration.\<close>

definition wait_seconds :: "duration \<Rightarrow> int" where
  "wait_seconds wait = trunc (f64 (of_int (wait div Second) + f64 (of_int (wait mod Second) / of_int Second)))"

text \<open>The request of a poll, and the time it may take: a long poll gets its own deadline.\<close>

definition poll_request :: "SigClient \<Rightarrow> SigPeer \<Rightarrow> int \<Rightarrow> duration \<Rightarrow> HttpRequest \<times> duration" where
  "poll_request c self since wait =
     (let url = room_url c self @ ''?since='' @ Itoa since in
      if wait > 0
      then (newRequest c MethodGet (url @ ''&wait='' @ Itoa (wait_seconds wait)) None, wrap64 (wait + 10 * Second))
      else (newRequest c MethodGet url None, 10 * Second))"

definition PollWait :: "(HttpRequest \<Rightarrow> HttpResult) \<Rightarrow> SigClient \<Rightarrow> SigPeer \<Rightarrow> int \<Rightarrow> duration
    \<Rightarrow> SigMessage list \<times> int \<times> signal_error option" where
  "PollWait net c self since wait =
     (case net (fst (poll_request c self since wait)) of
        HttpFailed \<Rightarrow> ([], since, Some RequestFailed)
      | HttpResponse status body \<Rightarrow>
          (if status \<noteq> StatusOK then ([], since, Some (UnexpectedStatus status))
           else case Option.bind (decode_members body) decode_messagesResponse of
                  None \<Rightarrow> ([], since, Some DecodeFailed)
                | Some (msgs, next) \<Rightarrow> (msgs, next, None)))"

definition Poll :: "(HttpRequest \<Rightarrow> HttpResult) \<Rightarrow> SigClient \<Rightarrow> SigPeer \<Rightarrow> int \<Rightarrow> SigMessage list \<times> int \<times> signal_error option" where
  "Poll net c self since = PollWait net c self since 0"

text \<open>\<^verbatim>\<open>URLList\<close>: the Worker sends one string or an array of strings.\<close>

definition URLList :: "ICEServer \<Rightarrow> string list" where
  "URLList s =
     (case ice_URLs s of
        None \<Rightarrow> []
      | Some v \<Rightarrow>
          (case json_slice json_str_elem v of
             Some arr \<Rightarrow> arr
           | None \<Rightarrow> (case v of JStr single \<Rightarrow> if single \<noteq> [] then [single] else [] | _ \<Rightarrow> [])))"

section \<open>The WebSocket\<close>

text \<open>
  What the socket delivers: text and binary frames carry bytes, other frames are skipped, and a read
  fails when the socket closes or the context ends.
\<close>

datatype ws_frame = WsData string | WsOther | WsReadError

fun ws_Receive :: "ws_frame list \<Rightarrow> ((unit + SigMessage) \<times> ws_frame list) option" where
  "ws_Receive [] = None"
| "ws_Receive (WsReadError # fs) = Some (Inl (), fs)"
| "ws_Receive (WsOther # fs) = ws_Receive fs"
| "ws_Receive (WsData data # fs) =
     (case Option.bind (json_parse data) decode_Message of
        None \<Rightarrow> ws_Receive fs
      | Some m \<Rightarrow> Some (Inr m, fs))"

record WSConn =
  wsc_closed :: bool
  wsc_closes :: nat

definition ws_Close :: "WSConn option \<Rightarrow> WSConn option" where
  "ws_Close w = map_option (\<lambda>c. if wsc_closed c then c else c\<lparr>wsc_closed := True, wsc_closes := wsc_closes c + 1\<rparr>) w"

lemma ws_Receive_shorter: "ws_Receive fs = Some (x, fs') \<Longrightarrow> length fs' < length fs"
  by (induction fs rule: ws_Receive.induct) (auto split: option.splits)

lemma ws_Close_idem: "ws_Close (ws_Close w) = ws_Close w"
  by (cases w) (simp_all add: ws_Close_def)

lemma URLList_string: "s \<noteq> [] \<Longrightarrow> URLList \<lparr>ice_URLs = Some (JStr s), ice_Username = u, ice_Credential = c\<rparr> = [s]"
  by (simp add: URLList_def)

lemma URLList_array: "URLList \<lparr>ice_URLs = Some (JArr (map JStr ss)), ice_Username = u, ice_Credential = c\<rparr> = ss"
  by (simp add: URLList_def json_all_map)

lemma wait_seconds_long_poll: "wait_seconds (25 * Second) = 25"
  by code_simp

end
