(* ===== verification/Connect.thy ===== *)
theory Connect
  imports Router Sink Signaling Configuration
begin

text \<open>
  The connection manager of the host (\<^verbatim>\<open>playgate-host/internal/host/connect.go\<close>): one feed of viewer
  messages, one goroutine and one peer for each viewer session, the routers the peers are registered
  with, and the transports of the feed. The state is shared by the goroutines; each step is what one of
  them does between two points where another can intervene.
\<close>

section \<open>Configuration\<close>

record RtcICEServer =
  rice_URLs :: "string list"
  rice_Username :: string
  rice_Credential :: string

definition static_ice :: "string list \<Rightarrow> RtcICEServer list" where
  "static_ice urls = map (\<lambda>us. \<lparr>rice_URLs = us, rice_Username = [], rice_Credential = []\<rparr>) (ICEServersFromURLs urls)"

definition turn_ice :: "ICEServer list \<Rightarrow> RtcICEServer list" where
  "turn_ice creds =
     map (\<lambda>s. \<lparr>rice_URLs = URLList s, rice_Username = ice_Username s, rice_Credential = ice_Credential s\<rparr>)
       (filter (\<lambda>s. URLList s \<noteq> []) creds)"

definition resolveICEServers :: "(HttpRequest \<Rightarrow> HttpResult) \<Rightarrow> HostConfig \<Rightarrow> SigClient \<Rightarrow> RtcICEServer list" where
  "resolveICEServers net cfg client =
     (let static = static_ice (wc_ICEServers (hc_WebRTC cfg)) in
      if \<not> sgc_UseTURN (hc_Signaling cfg) then static
      else case TURNCredentials net client of
             Inl e \<Rightarrow> static
           | Inr creds \<Rightarrow> (let out = turn_ice creds in if out = [] then static else out))"

record conn_config =
  cm_client :: SigClient
  cm_ice :: "RtcICEServer list"
  cm_poll :: duration
  cm_audio :: bool
  cm_gated :: bool

text \<open>Whether there is an audio router, and whether the sink gates sessions, come from the host.\<close>

definition makeSignalingConnect :: "(HttpRequest \<Rightarrow> HttpResult) \<Rightarrow> HostConfig \<Rightarrow> bool \<Rightarrow> inputSink \<Rightarrow> signal_error + conn_config" where
  "makeSignalingConnect net cfg audio sink =
     (case signaling_New \<lparr>sig_BaseURL = sgc_URL (hc_Signaling cfg), sig_RoomID = sgc_RoomID (hc_Signaling cfg),
             sig_Token = sgc_Token (hc_Signaling cfg)\<rparr> of
        Inl e \<Rightarrow> Inl e
      | Inr client \<Rightarrow>
          (let poll = milliseconds (sgc_PollIntervalMS (hc_Signaling cfg))
           in Inr \<lparr>cm_client = client, cm_ice = resolveICEServers net cfg client,
                   cm_poll = (if poll \<le> 0 then 500 * Millisecond else poll), cm_audio = audio, cm_gated = is_gated sink\<rparr>))"

section \<open>Messages\<close>

record viewerEnvelope =
  ve_Kind :: string
  ve_Type :: string
  ve_SDP :: string
  ve_ViewerID :: string

definition decode_viewerEnvelope :: "json option \<Rightarrow> viewerEnvelope option" where
  "decode_viewerEnvelope payload =
     (case Option.bind payload json_members of
        None \<Rightarrow> None
      | Some ms \<Rightarrow>
          (case (get_str ''kind'' ms, get_str ''type'' ms, get_str ''sdp'' ms, get_str ''viewerId'' ms) of
             (Some k, Some t, Some s, Some v) \<Rightarrow> Some \<lparr>ve_Kind = k, ve_Type = t, ve_SDP = s, ve_ViewerID = v\<rparr>
           | _ \<Rightarrow> None))"

definition marshal_viewerOffer :: "string \<Rightarrow> string \<Rightarrow> string \<Rightarrow> json" where
  "marshal_viewerOffer typ sdp to = JObj [(''type'', JStr typ), (''sdp'', JStr sdp), (''to'', JStr to)]"

section \<open>Sessions\<close>

record viewerSession =
  vs_peer :: "nat option"
  vs_answered :: bool

definition setPeer :: "nat \<Rightarrow> viewerSession \<Rightarrow> viewerSession" where
  "setPeer p s = s\<lparr>vs_peer := Some p\<rparr>"

text \<open>
  Where the goroutine of a viewer is: the calls of \<^verbatim>\<open>runViewer\<close>, then its deferred calls, in reverse
  order of the \<^verbatim>\<open>defer\<close> statements.
\<close>

datatype viewer_pc = RvNewPeer | RvSetPeer nat | RvAddVideo nat | RvAddAudio nat | RvWireInput nat | RvCreateOffer nat
  | RvPost nat string string | RvAwait nat
  | RvRemoveAudio nat | RvRemoveVideo nat | RvClosePeer nat | RvDelete | RvCancel | RvDone

record viewer_thread =
  vt_id :: string
  vt_pc :: viewer_pc

text \<open>
  The goroutine of the feed: between two messages, about to apply an answer to a session, or about to
  hand a description to a peer.
\<close>

datatype feed_pc = FeedIdle | FeedApply nat viewerEnvelope | FeedSetRemote nat string

text \<open>
  \<open>cn_store\<close> has the session objects and \<open>cn_threads\<close> their goroutines, in the order of their creation;
  \<open>cn_owner\<close> is the session that made each peer. \<open>cn_seen\<close>, \<open>cn_posted\<close> and \<open>cn_applied\<close> record the
  messages handled, the offers posted, and the answers handed to peers.
\<close>

record conn_state =
  cn_sessions :: "string \<Rightarrow> nat option"
  cn_store :: "viewerSession list"
  cn_threads :: "viewer_thread list"
  cn_peers :: "Peer list"
  cn_owner :: "nat list"
  cn_inputs :: "nat list"
  cn_video :: VideoRouter
  cn_audio :: AudioRouter
  cn_feed :: feed_pc
  cn_ctx :: bool
  cn_seen :: "viewerEnvelope list"
  cn_posted :: "(string \<times> json) list"
  cn_applied :: "(nat \<times> string) list"

definition conn_init :: "Histogram option \<Rightarrow> conn_state" where
  "conn_init mc = \<lparr>cn_sessions = (\<lambda>_. None), cn_store = [], cn_threads = [], cn_peers = [], cn_owner = [], cn_inputs = [],
     cn_video = NewVideoRouter mc, cn_audio = NewAudioRouter, cn_feed = FeedIdle, cn_ctx = False, cn_seen = [], cn_posted = [], cn_applied = []\<rparr>"

definition handleFeedMessage :: "json option \<Rightarrow> conn_state \<Rightarrow> conn_state" where
  "handleFeedMessage payload c =
     (case decode_viewerEnvelope payload of
        None \<Rightarrow> c
      | Some env \<Rightarrow>
          (if ve_ViewerID env = [] then c
           else case cn_sessions c (ve_ViewerID env) of
                  None \<Rightarrow>
                    (if ve_Kind env \<noteq> ''hello'' then c
                     else c\<lparr>cn_sessions := (cn_sessions c)(ve_ViewerID env := Some (length (cn_store c))),
                            cn_store := cn_store c @ [\<lparr>vs_peer = None, vs_answered = False\<rparr>],
                            cn_threads := cn_threads c @ [\<lparr>vt_id = ve_ViewerID env, vt_pc = RvNewPeer\<rparr>],
                            cn_seen := cn_seen c @ [env]\<rparr>)
                | Some i \<Rightarrow> c\<lparr>cn_feed := FeedApply i env, cn_seen := cn_seen c @ [env]\<rparr>))"

definition applyAnswer :: "nat \<Rightarrow> viewerEnvelope \<Rightarrow> conn_state \<Rightarrow> conn_state" where
  "applyAnswer i env c =
     (if ve_Type env \<noteq> ''answer'' \<or> ve_SDP env = [] then c\<lparr>cn_feed := FeedIdle\<rparr>
      else case vs_peer (cn_store c ! i) of
             None \<Rightarrow> c\<lparr>cn_feed := FeedIdle\<rparr>
           | Some p \<Rightarrow>
               (if vs_answered (cn_store c ! i) then c\<lparr>cn_feed := FeedIdle\<rparr>
                else c\<lparr>cn_store := (cn_store c)[i := (cn_store c ! i)\<lparr>vs_answered := True\<rparr>],
                       cn_feed := FeedSetRemote p (ve_SDP env)\<rparr>))"

text \<open>What Pion and the network answer in a step of \<^verbatim>\<open>runViewer\<close>, and the choice of its \<^verbatim>\<open>select\<close>.\<close>

record viewer_env =
  rve_fails :: "pion_call \<Rightarrow> bool"
  rve_offer :: "(string \<times> string) option"
  rve_post :: "HttpRequest \<Rightarrow> HttpResult"
  rve_prefers_ctx :: bool

definition terminal_state :: "PeerConnectionState \<Rightarrow> bool" where
  "terminal_state s \<longleftrightarrow> s = PCFailed \<or> s = PCClosed \<or> s = PCDisconnected"

text \<open>\<^verbatim>\<open>awaitDisconnect\<close>: one receive. \<^const>\<open>None\<close> blocks; the flag says whether it returns.\<close>

definition awaitDisconnect :: "bool \<Rightarrow> bool \<Rightarrow> Peer \<Rightarrow> (Peer \<times> bool) option" where
  "awaitDisconnect ctx prefers_ctx p =
     (if ctx \<and> (prefers_ctx \<or> (ch_buf (p_connState p) = [] \<and> \<not> ch_closed (p_connState p))) then Some (p, True)
      else case ch_buf (p_connState p) of
             s # rest \<Rightarrow> Some (p\<lparr>p_connState := (p_connState p)\<lparr>ch_buf := rest\<rparr>\<rparr>, terminal_state s)
           | [] \<Rightarrow> if ch_closed (p_connState p) then Some (p, True) else None)"

definition set_pc :: "nat \<Rightarrow> viewer_pc \<Rightarrow> conn_state \<Rightarrow> conn_state" where
  "set_pc i pc c = c\<lparr>cn_threads := (cn_threads c)[i := (cn_threads c ! i)\<lparr>vt_pc := pc\<rparr>]\<rparr>"

definition set_peer :: "nat \<Rightarrow> Peer \<Rightarrow> conn_state \<Rightarrow> conn_state" where
  "set_peer p x c = c\<lparr>cn_peers := (cn_peers c)[p := x]\<rparr>"

definition wireInput :: "bool \<Rightarrow> nat \<Rightarrow> conn_state \<Rightarrow> conn_state" where
  "wireInput gated p c =
     (if \<not> gated then c\<lparr>cn_inputs := cn_inputs c @ [p]\<rparr>
      else set_peer p (OnControlMessage True (cn_peers c ! p)) (c\<lparr>cn_inputs := cn_inputs c @ [p]\<rparr>))"

text \<open>The first deferred call once the peer is registered.\<close>

definition unwind :: "conn_config \<Rightarrow> nat \<Rightarrow> viewer_pc" where
  "unwind cfg p = (if cm_audio cfg then RvRemoveAudio p else RvRemoveVideo p)"

definition runViewer_step :: "conn_config \<Rightarrow> viewer_env \<Rightarrow> nat \<Rightarrow> conn_state \<Rightarrow> conn_state option" where
  "runViewer_step cfg env i c =
     (let id = vt_id (cn_threads c ! i) in
      case vt_pc (cn_threads c ! i) of
        RvNewPeer \<Rightarrow>
          (case NewPeer (rve_fails env) \<lparr>pcfg_ICEServers = map rice_URLs (cm_ice cfg), pcfg_CommandBuffer = 0,
                  pcfg_HasKeyframeRequest = False, pcfg_EnableAudio = cm_audio cfg\<rparr> of
             Inl e \<Rightarrow> Some (set_pc i RvDelete c)
           | Inr p \<Rightarrow> Some (set_pc i (RvSetPeer (length (cn_peers c))) (c\<lparr>cn_peers := cn_peers c @ [p], cn_owner := cn_owner c @ [i]\<rparr>)))
      | RvSetPeer p \<Rightarrow> Some (set_pc i (RvAddVideo p) (c\<lparr>cn_store := (cn_store c)[i := setPeer p (cn_store c ! i)]\<rparr>))
      | RvAddVideo p \<Rightarrow>
          Some (set_pc i (if cm_audio cfg then RvAddAudio p else RvWireInput p) (c\<lparr>cn_video := VideoRouter_AddSink p (cn_video c)\<rparr>))
      | RvAddAudio p \<Rightarrow> Some (set_pc i (RvWireInput p) (c\<lparr>cn_audio := AudioRouter_AddSink p (cn_audio c)\<rparr>))
      | RvWireInput p \<Rightarrow> Some (set_pc i (RvCreateOffer p) (wireInput (cm_gated cfg) p c))
      | RvCreateOffer p \<Rightarrow>
          (case rve_offer env of
             None \<Rightarrow> Some (set_pc i (unwind cfg p) c)
           | Some (typ, sdp) \<Rightarrow> Some (set_pc i (RvPost p typ sdp) c))
      | RvPost p typ sdp \<Rightarrow>
          (case PostMessage (rve_post env) (cm_client cfg) (marshal_viewerOffer typ sdp id) of
             Some e \<Rightarrow> Some (set_pc i (unwind cfg p) c)
           | None \<Rightarrow> Some (set_pc i (RvAwait p) (c\<lparr>cn_posted := cn_posted c @ [(id, marshal_viewerOffer typ sdp id)]\<rparr>)))
      | RvAwait p \<Rightarrow>
          (case awaitDisconnect (cn_ctx c) (rve_prefers_ctx env) (cn_peers c ! p) of
             None \<Rightarrow> None
           | Some (x, True) \<Rightarrow> Some (set_pc i (unwind cfg p) (set_peer p x c))
           | Some (x, False) \<Rightarrow> Some (set_peer p x c))
      | RvRemoveAudio p \<Rightarrow> Some (set_pc i (RvRemoveVideo p) (c\<lparr>cn_audio := AudioRouter_RemoveSink p (cn_audio c)\<rparr>))
      | RvRemoveVideo p \<Rightarrow> Some (set_pc i (RvClosePeer p) (c\<lparr>cn_video := VideoRouter_RemoveSink p (cn_video c)\<rparr>))
      | RvClosePeer p \<Rightarrow>
          (case Close_step (cn_peers c ! p) of
             Some x \<Rightarrow> Some (set_peer p x c)
           | None \<Rightarrow> Some (set_pc i RvDelete c))
      | RvDelete \<Rightarrow> Some (set_pc i RvCancel (c\<lparr>cn_sessions := (cn_sessions c)(id := None)\<rparr>))
      | RvCancel \<Rightarrow> Some (set_pc i RvDone c)
      | RvDone \<Rightarrow> None)"

datatype conn_action = CMessage "json option" | CApply | CSetRemote | CViewer nat viewer_env
  | CConnState nat PeerConnectionState | CCancel

fun conn_step :: "conn_config \<Rightarrow> conn_action \<Rightarrow> conn_state \<Rightarrow> conn_state option" where
  "conn_step cfg (CMessage payload) c = (if cn_feed c = FeedIdle then Some (handleFeedMessage payload c) else None)"
| "conn_step cfg CApply c = (case cn_feed c of FeedApply i env \<Rightarrow> Some (applyAnswer i env c) | _ \<Rightarrow> None)"
| "conn_step cfg CSetRemote c =
     (case cn_feed c of
        FeedSetRemote p sdp \<Rightarrow> Some (c\<lparr>cn_applied := cn_applied c @ [(p, sdp)], cn_feed := FeedIdle\<rparr>)
      | _ \<Rightarrow> None)"
| "conn_step cfg (CViewer i env) c = (if i < length (cn_threads c) then runViewer_step cfg env i c else None)"
| "conn_step cfg (CConnState p s) c =
     (if p < length (cn_peers c) then Some (set_peer p (onConnectionStateChange s (cn_peers c ! p)) c) else None)"
| "conn_step cfg CCancel c = Some (c\<lparr>cn_ctx := True\<rparr>)"

inductive conn_reachable :: "conn_config \<Rightarrow> conn_state \<Rightarrow> bool" for cfg where
  init: "conn_reachable cfg (conn_init mc)"
| step: "conn_reachable cfg c \<Longrightarrow> conn_step cfg a c = Some c' \<Longrightarrow> conn_reachable cfg c'"

fun conn_run :: "conn_config \<Rightarrow> conn_action list \<Rightarrow> conn_state \<Rightarrow> conn_state option" where
  "conn_run cfg [] c = Some c"
| "conn_run cfg (a # as) c = Option.bind (conn_step cfg a c) (conn_run cfg as)"

lemma conn_run_reachable: "conn_reachable cfg c \<Longrightarrow> conn_run cfg as c = Some c' \<Longrightarrow> conn_reachable cfg c'"
  by (induction as arbitrary: c) (auto split: bind_splits intro: conn_reachable.step)

section \<open>The transports of the feed\<close>

text \<open>
  The transports, as the messages they dispatch, in order. One round of the long poll: whether the
  context ended before it, the network, the time the request took, and whether the throttling sleep
  ran to its end.
\<close>

definition longPollWait :: duration where "longPollWait = 25 * Second"

record poll_round =
  po_ctx :: bool
  po_net :: "HttpRequest \<Rightarrow> HttpResult"
  po_ctx_after :: bool
  po_elapsed :: duration
  po_slept :: bool

datatype feed_end = FeedStopped | FeedError | FeedRunning

fun longpoll_loop :: "SigClient \<Rightarrow> poll_round list \<Rightarrow> int \<Rightarrow> SigMessage list \<times> feed_end" where
  "longpoll_loop cl [] since = ([], FeedRunning)"
| "longpoll_loop cl (r # rs) since =
     (if po_ctx r then ([], FeedStopped)
      else case PollWait (po_net r) cl PeerHost since longPollWait of
             (msgs, nxt, Some e) \<Rightarrow> ([], if po_ctx_after r then FeedStopped else FeedError)
           | (msgs, nxt, None) \<Rightarrow>
               (if msgs = [] \<and> po_elapsed r < Second \<and> \<not> po_slept r then ([], FeedStopped)
                else case longpoll_loop cl rs nxt of (rest, e) \<Rightarrow> (msgs @ rest, e)))"

definition runFeedLongPoll :: "SigClient \<Rightarrow> poll_round list \<Rightarrow> SigMessage list \<times> feed_end" where
  "runFeedLongPoll cl rs = longpoll_loop cl rs (- 1)"

text \<open>
  The WebSocket: the frames until a read fails. The outcome is \<^const>\<open>FeedStopped\<close> when the context has
  ended by then, \<^const>\<open>FeedError\<close> when the caller falls back to polling.
\<close>

function ws_loop :: "ws_frame list \<Rightarrow> bool \<Rightarrow> SigMessage list \<times> feed_end" where
  "ws_loop fs ctx_after =
     (case ws_Receive fs of
        None \<Rightarrow> ([], FeedRunning)
      | Some (Inl _, _) \<Rightarrow> ([], if ctx_after then FeedStopped else FeedError)
      | Some (Inr m, fs') \<Rightarrow> (case ws_loop fs' ctx_after of (ms, e) \<Rightarrow> (m # ms, e)))"
  by pat_completeness auto
termination by (relation "measure (\<lambda>(fs, _). length fs)") (auto dest: ws_Receive_shorter)

definition runFeedWS :: "ws_frame list option \<Rightarrow> bool \<Rightarrow> SigMessage list \<times> feed_end" where
  "runFeedWS dial ctx_after = (case dial of None \<Rightarrow> ([], FeedError) | Some fs \<Rightarrow> ws_loop fs ctx_after)"

record feed_round =
  fr_dial :: "ws_frame list option"
  fr_ctx_ws :: bool
  fr_ctx_between :: bool
  fr_polls :: "poll_round list"
  fr_ctx_after :: bool
  fr_slept :: bool

definition runFeed :: "SigClient \<Rightarrow> feed_round \<Rightarrow> SigMessage list \<times> feed_end" where
  "runFeed cl r =
     (case runFeedWS (fr_dial r) (fr_ctx_ws r) of
        (ms, FeedError) \<Rightarrow>
          (if fr_ctx_between r then (ms, FeedStopped)
           else case runFeedLongPoll cl (fr_polls r) of (ms', e) \<Rightarrow> (ms @ ms', e))
      | (ms, e) \<Rightarrow> (ms, e))"

text \<open>The outer loop: after an error it sleeps and starts the feed again, until the context ends.\<close>

fun conn_loop :: "SigClient \<Rightarrow> (bool \<times> feed_round) list \<Rightarrow> SigMessage list \<times> bool" where
  "conn_loop cl [] = ([], False)"
| "conn_loop cl ((ctx, r) # rs) =
     (if ctx then ([], True)
      else case runFeed cl r of
             (ms, FeedRunning) \<Rightarrow> (ms, False)
           | (ms, FeedError) \<Rightarrow>
               (if \<not> fr_ctx_after r \<and> \<not> fr_slept r then (ms, True)
                else case conn_loop cl rs of (ms', e) \<Rightarrow> (ms @ ms', e))
           | (ms, FeedStopped) \<Rightarrow> (case conn_loop cl rs of (ms', e) \<Rightarrow> (ms @ ms', e)))"

end
