(* ===== verification/ConnectInv.thy ===== *)
theory ConnectInv
  imports Connect
begin

text \<open>
  The invariants of the connection manager: which goroutine owns which peer, what the session map and
  the routers hold, and which answers reach which peers.
\<close>

section \<open>The steps of a viewer goroutine\<close>

lemma set_pc_sel [simp]:
  "cn_sessions (set_pc i pc c) = cn_sessions c" "cn_store (set_pc i pc c) = cn_store c" "cn_peers (set_pc i pc c) = cn_peers c"
  "cn_owner (set_pc i pc c) = cn_owner c" "cn_video (set_pc i pc c) = cn_video c" "cn_audio (set_pc i pc c) = cn_audio c"
  "cn_feed (set_pc i pc c) = cn_feed c" "cn_seen (set_pc i pc c) = cn_seen c" "cn_applied (set_pc i pc c) = cn_applied c"
  "cn_ctx (set_pc i pc c) = cn_ctx c"
  "cn_threads (set_pc i pc c) = (cn_threads c)[i := (cn_threads c ! i)\<lparr>vt_pc := pc\<rparr>]"
  by (simp_all add: set_pc_def)

lemma set_peer_sel [simp]:
  "cn_sessions (set_peer p x c) = cn_sessions c" "cn_store (set_peer p x c) = cn_store c" "cn_peers (set_peer p x c) = (cn_peers c)[p := x]"
  "cn_owner (set_peer p x c) = cn_owner c" "cn_video (set_peer p x c) = cn_video c" "cn_audio (set_peer p x c) = cn_audio c"
  "cn_feed (set_peer p x c) = cn_feed c" "cn_seen (set_peer p x c) = cn_seen c" "cn_applied (set_peer p x c) = cn_applied c"
  "cn_threads (set_peer p x c) = cn_threads c" "cn_ctx (set_peer p x c) = cn_ctx c"
  by (simp_all add: set_peer_def)

lemma wireInput_sel [simp]:
  "cn_sessions (wireInput g p c) = cn_sessions c" "cn_store (wireInput g p c) = cn_store c"
  "cn_owner (wireInput g p c) = cn_owner c" "cn_video (wireInput g p c) = cn_video c" "cn_audio (wireInput g p c) = cn_audio c"
  "cn_feed (wireInput g p c) = cn_feed c" "cn_seen (wireInput g p c) = cn_seen c" "cn_applied (wireInput g p c) = cn_applied c"
  "cn_threads (wireInput g p c) = cn_threads c" "cn_ctx (wireInput g p c) = cn_ctx c"
  "cn_peers (wireInput g p c) = (if g then (cn_peers c)[p := OnControlMessage True (cn_peers c ! p)] else cn_peers c)"
  by (simp_all add: wireInput_def)

lemma vt_id_update [simp]: "vt_id ((ts[i := (ts ! i)\<lparr>vt_pc := pc\<rparr>]) ! j) = vt_id (ts ! j)"
  by (cases "i = j"; cases "i < length ts") (simp_all add: list_update_beyond not_less)

lemma vs_peer_update [simp]: "vs_peer ((ss[i := (ss ! i)\<lparr>vs_answered := b\<rparr>]) ! j) = vs_peer (ss ! j)"
  by (cases "i = j"; cases "i < length ss") (simp_all add: list_update_beyond not_less)

abbreviation pc_of :: "conn_state \<Rightarrow> nat \<Rightarrow> viewer_pc" where
  "pc_of c i \<equiv> vt_pc (cn_threads c ! i)"

abbreviation id_of :: "conn_state \<Rightarrow> nat \<Rightarrow> string" where
  "id_of c i \<equiv> vt_id (cn_threads c ! i)"

abbreviation nthreads :: "conn_state \<Rightarrow> nat" where
  "nthreads c \<equiv> length (cn_threads c)"

text \<open>The peer a goroutine holds, and the routers its peer is registered with.\<close>

fun pc_peer :: "viewer_pc \<Rightarrow> nat option" where
  "pc_peer RvNewPeer = None" | "pc_peer RvDelete = None" | "pc_peer RvCancel = None" | "pc_peer RvDone = None"
| "pc_peer (RvSetPeer p) = Some p" | "pc_peer (RvAddVideo p) = Some p" | "pc_peer (RvAddAudio p) = Some p"
| "pc_peer (RvWireInput p) = Some p" | "pc_peer (RvCreateOffer p) = Some p" | "pc_peer (RvPost p t s) = Some p"
| "pc_peer (RvAwait p) = Some p" | "pc_peer (RvRemoveAudio p) = Some p" | "pc_peer (RvRemoveVideo p) = Some p"
| "pc_peer (RvClosePeer p) = Some p"

fun video_peer :: "viewer_pc \<Rightarrow> nat option" where
  "video_peer (RvSetPeer p) = None" | "video_peer (RvAddVideo p) = None" | "video_peer (RvClosePeer p) = None"
| "video_peer pc = pc_peer pc"

fun audio_peer :: "viewer_pc \<Rightarrow> nat option" where
  "audio_peer (RvAddAudio p) = None" | "audio_peer (RvRemoveVideo p) = None"
| "audio_peer pc = video_peer pc"

lemma video_peer_pc: "video_peer pc = Some p \<Longrightarrow> pc_peer pc = Some p"
  by (cases pc) auto

lemma audio_peer_video: "audio_peer pc = Some p \<Longrightarrow> video_peer pc = Some p"
  by (cases pc) auto

definition over :: "viewer_pc \<Rightarrow> bool" where
  "over pc \<longleftrightarrow> pc = RvCancel \<or> pc = RvDone"

lemma pc_peer_unwind [simp]: "pc_peer (unwind cfg p) = Some p" "video_peer (unwind cfg p) = Some p" "\<not> over (unwind cfg p)"
  "unwind cfg p \<noteq> RvNewPeer" "unwind cfg p \<noteq> RvDelete" "unwind cfg p \<noteq> RvAddAudio q"
  "cm_audio cfg \<Longrightarrow> audio_peer (unwind cfg p) = Some p" "unwind cfg p = RvRemoveAudio q \<longleftrightarrow> cm_audio cfg \<and> q = p"
  by (auto simp: unwind_def over_def)

text \<open>
  What every step of a goroutine is: a new program counter together with one change of the shared
  state. The other components stay.
\<close>

lemma viewer_step_cases:
  assumes "runViewer_step cfg env i c = Some c'"
  obtains (failed) "pc_of c i = RvNewPeer" "c' = set_pc i RvDelete c"
  | (made) p where "pc_of c i = RvNewPeer"
      "c' = set_pc i (RvSetPeer (length (cn_peers c))) (c\<lparr>cn_peers := cn_peers c @ [p], cn_owner := cn_owner c @ [i]\<rparr>)"
  | (stored) p where "pc_of c i = RvSetPeer p"
      "c' = set_pc i (RvAddVideo p) (c\<lparr>cn_store := (cn_store c)[i := setPeer p (cn_store c ! i)]\<rparr>)"
  | (video) p where "pc_of c i = RvAddVideo p"
      "c' = set_pc i (if cm_audio cfg then RvAddAudio p else RvWireInput p) (c\<lparr>cn_video := VideoRouter_AddSink p (cn_video c)\<rparr>)"
  | (audio) p where "pc_of c i = RvAddAudio p" "c' = set_pc i (RvWireInput p) (c\<lparr>cn_audio := AudioRouter_AddSink p (cn_audio c)\<rparr>)"
  | (wire) p where "pc_of c i = RvWireInput p" "c' = set_pc i (RvCreateOffer p) (wireInput (cm_gated cfg) p c)"
  | (stay) p pc' xs where "pc_peer (pc_of c i) = Some p" "video_peer (pc_of c i) = Some p" "audio_peer (pc_of c i) = Some p"
      "pc_peer pc' = Some p" "video_peer pc' = Some p" "cm_audio cfg \<longrightarrow> audio_peer pc' = Some p" "\<forall>q. pc' \<noteq> RvAddAudio q"
      "\<forall>q. pc' = RvRemoveAudio q \<longrightarrow> cm_audio cfg" "c' = set_pc i pc' (c\<lparr>cn_posted := xs\<rparr>)"
  | (await) p x pc' where "pc_of c i = RvAwait p" "p_close x = p_close (cn_peers c ! p)"
      "pc' = RvAwait p \<or> pc' = unwind cfg p" "\<not> over pc'" "pc' \<noteq> RvNewPeer" "pc_peer pc' = Some p" "video_peer pc' = Some p"
      "cm_audio cfg \<longrightarrow> audio_peer pc' = Some p" "\<forall>q. pc' \<noteq> RvAddAudio q" "\<forall>q. pc' = RvRemoveAudio q \<longrightarrow> cm_audio cfg"
      "c' = set_pc i pc' (set_peer p x c)"
  | (no_audio) p where "pc_of c i = RvRemoveAudio p" "c' = set_pc i (RvRemoveVideo p) (c\<lparr>cn_audio := AudioRouter_RemoveSink p (cn_audio c)\<rparr>)"
  | (no_video) p where "pc_of c i = RvRemoveVideo p" "c' = set_pc i (RvClosePeer p) (c\<lparr>cn_video := VideoRouter_RemoveSink p (cn_video c)\<rparr>)"
  | (closing) p x where "pc_of c i = RvClosePeer p" "Close_step (cn_peers c ! p) = Some x" "c' = set_peer p x c"
  | (closed) p where "pc_of c i = RvClosePeer p" "p_close (cn_peers c ! p) = CloseDone" "c' = set_pc i RvDelete c"
  | (deleted) "pc_of c i = RvDelete" "c' = set_pc i RvCancel (c\<lparr>cn_sessions := (cn_sessions c)(id_of c i := None)\<rparr>)"
  | (cancelled) "pc_of c i = RvCancel" "c' = set_pc i RvDone c"
proof (cases "pc_of c i")
  case RvNewPeer
  then show thesis using assms failed made by (auto simp: runViewer_step_def Let_def split: sum.splits)
next
  case (RvSetPeer p)
  then show thesis using assms stored by (simp add: runViewer_step_def)
next
  case (RvAddVideo p)
  then show thesis using assms video by (simp add: runViewer_step_def)
next
  case (RvAddAudio p)
  then show thesis using assms audio by (simp add: runViewer_step_def)
next
  case (RvWireInput p)
  then show thesis using assms wire by (simp add: runViewer_step_def)
next
  case (RvCreateOffer p)
  have same: "c\<lparr>cn_posted := cn_posted c\<rparr> = c" by simp
  show thesis
  proof (cases "rve_offer env")
    case None
    then show thesis using RvCreateOffer assms
      by (intro stay [of p "unwind cfg p" "cn_posted c"]) (simp_all add: runViewer_step_def Let_def same)
  next
    case (Some offer)
    obtain ty sdp where "offer = (ty, sdp)" by fastforce
    then show thesis using Some RvCreateOffer assms
      by (intro stay [of p "RvPost p ty sdp" "cn_posted c"]) (simp_all add: runViewer_step_def Let_def same)
  qed
next
  case (RvPost p ty sdp)
  have same: "c\<lparr>cn_posted := cn_posted c\<rparr> = c" by simp
  show thesis
  proof (cases "PostMessage (rve_post env) (cm_client cfg) (marshal_viewerOffer ty sdp (id_of c i))")
    case None
    then show thesis using RvPost assms
      by (intro stay [of p "RvAwait p" "cn_posted c @ [(id_of c i, marshal_viewerOffer ty sdp (id_of c i))]"])
        (simp_all add: runViewer_step_def Let_def)
  next
    case (Some e)
    then show thesis using RvPost assms
      by (intro stay [of p "unwind cfg p" "cn_posted c"]) (simp_all add: runViewer_step_def Let_def same)
  qed
next
  case (RvAwait p)
  obtain x b where x: "awaitDisconnect (cn_ctx c) (rve_prefers_ctx env) (cn_peers c ! p) = Some (x, b)"
    using assms RvAwait by (cases "awaitDisconnect (cn_ctx c) (rve_prefers_ctx env) (cn_peers c ! p)") (auto simp: runViewer_step_def Let_def)
  have cl: "p_close x = p_close (cn_peers c ! p)"
    using x by (auto simp: awaitDisconnect_def split: list.splits if_splits)
  have "(cn_threads c)[i := (cn_threads c ! i)\<lparr>vt_pc := RvAwait p\<rparr>] = cn_threads c"
    using RvAwait by (metis list_update_id viewer_thread.surjective viewer_thread.update_convs(2) viewer_thread.select_convs(2))
  then have same: "set_pc i (RvAwait p) (set_peer p x c) = set_peer p x c"
    by (simp add: set_pc_def)
  have step: "c' = (if b then set_pc i (unwind cfg p) (set_peer p x c) else set_peer p x c)"
    using assms RvAwait x by (cases b) (simp_all add: runViewer_step_def Let_def)
  show thesis
  proof (cases b)
    case True
    then show thesis using step by (intro await [OF RvAwait cl, of "unwind cfg p"]) auto
  next
    case False
    then show thesis using step same by (intro await [OF RvAwait cl, of "RvAwait p"]) (auto simp: over_def)
  qed
next
  case (RvRemoveAudio p)
  then show thesis using assms no_audio by (simp add: runViewer_step_def)
next
  case (RvRemoveVideo p)
  then show thesis using assms no_video by (simp add: runViewer_step_def)
next
  case (RvClosePeer p)
  show thesis
  proof (cases "Close_step (cn_peers c ! p)")
    case None
    then have "p_close (cn_peers c ! p) = CloseDone" by (auto split: close_pc.splits)
    then show thesis using closed [OF RvClosePeer] None RvClosePeer assms by (simp add: runViewer_step_def Let_def del: Close_step.simps)
  next
    case (Some x)
    then show thesis using closing [OF RvClosePeer] RvClosePeer assms by (simp add: runViewer_step_def Let_def del: Close_step.simps)
  qed
next
  case RvDelete
  then show thesis using assms deleted by (simp add: runViewer_step_def Let_def)
next
  case RvCancel
  then show thesis using assms cancelled by (simp add: runViewer_step_def)
next
  case RvDone
  then show thesis using assms by (simp add: runViewer_step_def)
qed

section \<open>Ownership\<close>

text \<open>
  The session map holds exactly the goroutines that have not removed themselves yet, under their own
  viewer id. A goroutine owns at most one peer, the one it made, and has closed it when it ends.
\<close>

definition map_inv :: "conn_state \<Rightarrow> bool" where
  "map_inv c \<longleftrightarrow> (\<forall>v i. cn_sessions c v = Some i \<longleftrightarrow> i < nthreads c \<and> id_of c i = v \<and> \<not> over (pc_of c i))"

definition owner_inv :: "conn_state \<Rightarrow> bool" where
  "owner_inv c \<longleftrightarrow> length (cn_store c) = nthreads c \<and> length (cn_owner c) = length (cn_peers c) \<and> distinct (cn_owner c)
     \<and> (\<forall>i\<in>set (cn_owner c). i < nthreads c)"

definition holds_inv :: "conn_config \<Rightarrow> conn_state \<Rightarrow> nat \<Rightarrow> bool" where
  "holds_inv cfg c i \<longleftrightarrow>
     (\<forall>p. pc_peer (pc_of c i) = Some p \<or> vs_peer (cn_store c ! i) = Some p \<longrightarrow> p < length (cn_peers c) \<and> cn_owner c ! p = i)
   \<and> (pc_of c i = RvNewPeer \<longrightarrow> i \<notin> set (cn_owner c))
   \<and> (pc_peer (pc_of c i) = None \<longrightarrow> (\<forall>p < length (cn_peers c). cn_owner c ! p = i \<longrightarrow> p_close (cn_peers c ! p) = CloseDone))
   \<and> (\<forall>p. pc_of c i = RvAddAudio p \<or> pc_of c i = RvRemoveAudio p \<longrightarrow> cm_audio cfg)"

definition own_inv :: "conn_config \<Rightarrow> conn_state \<Rightarrow> bool" where
  "own_inv cfg c \<longleftrightarrow> map_inv c \<and> owner_inv c \<and> (\<forall>i < nthreads c. holds_inv cfg c i)"

lemma viewer_threads:
  assumes "runViewer_step cfg env i c = Some c'"
  shows "nthreads c' = nthreads c \<and> (\<forall>j. id_of c' j = id_of c j) \<and> (\<forall>j. j \<noteq> i \<longrightarrow> pc_of c' j = pc_of c j)"
  using assms by (cases rule: viewer_step_cases) (auto simp: nth_list_update)

lemma viewer_map_inv:
  assumes "runViewer_step cfg env i c = Some c'" "i < nthreads c" "map_inv c"
  shows "map_inv c'"
proof (cases "pc_of c i = RvDelete")
  case True
  have "c' = set_pc i RvCancel (c\<lparr>cn_sessions := (cn_sessions c)(id_of c i := None)\<rparr>)"
    using assms(1) True by (cases rule: viewer_step_cases) auto
  moreover have "cn_sessions c (id_of c i) = Some i" using assms(2,3) True by (simp add: map_inv_def over_def)
  moreover have "j = i" if "j < nthreads c" "id_of c j = id_of c i" "\<not> over (pc_of c j)" for j
    using assms(3) that calculation(2) unfolding map_inv_def by (metis option.inject)
  ultimately show ?thesis
    using assms(2,3) unfolding map_inv_def by (auto simp: nth_list_update over_def)
next
  case False
  have "cn_sessions c' = cn_sessions c \<and> over (pc_of c' i) = over (pc_of c i)"
    using assms(1) False assms(2) by (cases rule: viewer_step_cases) (auto simp: over_def)
  moreover have "over (pc_of c' j) = over (pc_of c j)" for j
    using viewer_threads [OF assms(1)] calculation by (cases "j = i") auto
  ultimately show ?thesis
    using viewer_threads [OF assms(1)] assms(3) by (simp add: map_inv_def)
qed

text \<open>The part of the store a step can change: it makes a peer, or it touches what the goroutine holds.\<close>

lemma viewer_effect:
  assumes "runViewer_step cfg env i c = Some c'"
  obtains (new) x where "pc_of c i = RvNewPeer" "cn_peers c' = cn_peers c @ [x]" "cn_owner c' = cn_owner c @ [i]" "cn_store c' = cn_store c"
  | (touch) p x y where "pc_peer (pc_of c i) = Some p" "cn_peers c' = (cn_peers c)[p := x]" "cn_owner c' = cn_owner c"
      "cn_store c' = (cn_store c)[i := y]"
  | (keep) "cn_peers c' = cn_peers c" "cn_owner c' = cn_owner c" "cn_store c' = cn_store c"
  using assms
proof (cases rule: viewer_step_cases)
  case (made p)
  then show thesis by (intro new) simp_all
next
  case (stored p)
  then show thesis by (intro touch [of p "cn_peers c ! p" "setPeer p (cn_store c ! i)"]) simp_all
next
  case (wire p)
  then show thesis
    by (intro touch [of p "if cm_gated cfg then OnControlMessage True (cn_peers c ! p) else cn_peers c ! p" "cn_store c ! i"]) simp_all
next
  case (await p x pc')
  then show thesis by (intro touch [of p x "cn_store c ! i"]) simp_all
next
  case (closing p x)
  then show thesis by (intro touch [of p x "cn_store c ! i"]) simp_all
qed (intro keep, simp_all)+

lemma viewer_owner_inv:
  assumes "runViewer_step cfg env i c = Some c'" "i < nthreads c" "owner_inv c" "holds_inv cfg c i"
  shows "owner_inv c'"
  using assms(1)
proof (cases rule: viewer_effect)
  case (new x)
  then show ?thesis using assms(2-4) viewer_threads [OF assms(1)] by (auto simp: owner_inv_def holds_inv_def)
qed (use assms(3) viewer_threads [OF assms(1)] in \<open>auto simp: owner_inv_def\<close>)

lemma owner_unique:
  "owner_inv c \<Longrightarrow> p < length (cn_peers c) \<Longrightarrow> q < length (cn_peers c) \<Longrightarrow> cn_owner c ! p = cn_owner c ! q \<Longrightarrow> p = q"
  by (simp add: owner_inv_def nth_eq_iff_index_eq)

text \<open>What a step of goroutine \<open>i\<close> leaves alone in the others.\<close>

lemma viewer_peers:
  assumes "runViewer_step cfg env i c = Some c'" "owner_inv c" "holds_inv cfg c i"
  shows "length (cn_peers c) \<le> length (cn_peers c')"
    and "p < length (cn_peers c) \<Longrightarrow> cn_owner c' ! p = cn_owner c ! p"
    and "p < length (cn_peers c) \<Longrightarrow> cn_owner c ! p \<noteq> i \<Longrightarrow> cn_peers c' ! p = cn_peers c ! p"
    and "length (cn_peers c) \<le> p \<Longrightarrow> p < length (cn_peers c') \<Longrightarrow> cn_owner c' ! p = i"
    and "j \<noteq> i \<Longrightarrow> cn_store c' ! j = cn_store c ! j"
proof -
  have len: "length (cn_owner c) = length (cn_peers c)" using assms(2) by (simp add: owner_inv_def)
  show "length (cn_peers c) \<le> length (cn_peers c')" using assms(1) by (cases rule: viewer_effect) simp_all
  show "cn_owner c' ! p = cn_owner c ! p" if "p < length (cn_peers c)"
    using assms(1) that len by (cases rule: viewer_effect) (simp_all add: nth_append)
  show "cn_peers c' ! p = cn_peers c ! p" if "p < length (cn_peers c)" "cn_owner c ! p \<noteq> i"
    using assms(1)
  proof (cases rule: viewer_effect)
    case (touch q x y)
    then have "q \<noteq> p" using assms(3) that by (auto simp: holds_inv_def)
    then show ?thesis using touch by simp
  qed (use that in \<open>simp_all add: nth_append\<close>)
  show "cn_owner c' ! p = i" if "length (cn_peers c) \<le> p" "p < length (cn_peers c')"
    using assms(1)
  proof (cases rule: viewer_effect)
    case (new x)
    then have "p = length (cn_owner c)" using that len by simp
    then show ?thesis using new by simp
  qed (use that in simp_all)
  show "cn_store c' ! j = cn_store c ! j" if "j \<noteq> i"
    using assms(1) that by (cases rule: viewer_effect) simp_all
qed

lemma viewer_holds_other:
  assumes "runViewer_step cfg env i c = Some c'" "i < nthreads c" "owner_inv c" "holds_inv cfg c i" "holds_inv cfg c j" "j \<noteq> i" "j < nthreads c"
  shows "holds_inv cfg c' j"
proof -
  note vp = viewer_peers [OF assms(1,3,4)]
  have pc: "pc_of c' j = pc_of c j" using viewer_threads [OF assms(1)] assms(6) by blast
  have st: "cn_store c' ! j = cn_store c ! j" using vp(5) assms(6) by blast
  have own: "cn_owner c' ! p = j \<longleftrightarrow> p < length (cn_peers c) \<and> cn_owner c ! p = j" if "p < length (cn_peers c')" for p
    using vp(2,4) [of p] that assms(6) by (metis not_le)
  have len: "length (cn_owner c) = length (cn_peers c)" "length (cn_owner c') = length (cn_peers c')"
    using assms(3) viewer_owner_inv [OF assms(1-4)] by (simp_all add: owner_inv_def)
  have mem: "j \<in> set (cn_owner c') \<Longrightarrow> j \<in> set (cn_owner c)"
    using own len by (metis in_set_conv_nth)
  note h = assms(5) [unfolded holds_inv_def]
  have 1: "p < length (cn_peers c') \<and> cn_owner c' ! p = j" if "pc_peer (pc_of c' j) = Some p \<or> vs_peer (cn_store c' ! j) = Some p" for p
  proof -
    have "p < length (cn_peers c) \<and> cn_owner c ! p = j" using that h pc st by auto
    then show ?thesis using vp(1) own [of p] by simp
  qed
  have 3: "p_close (cn_peers c' ! p) = CloseDone"
    if "pc_peer (pc_of c' j) = None" "p < length (cn_peers c')" "cn_owner c' ! p = j" for p
  proof -
    have "p < length (cn_peers c) \<and> cn_owner c ! p = j" using own [OF that(2)] that(3) by simp
    moreover from this have "cn_peers c' ! p = cn_peers c ! p" using vp(3) assms(6) by simp
    ultimately show ?thesis using h that(1) pc by simp
  qed
  show ?thesis using 1 3 h mem pc by (simp add: holds_inv_def) blast
qed

lemma holds_step:
  assumes "holds_inv cfg c i" "cn_owner c' = cn_owner c" "length (cn_peers c') = length (cn_peers c)"
    and "\<And>p. pc_peer (pc_of c' i) = Some p \<Longrightarrow> pc_peer (pc_of c i) = Some p"
    and "\<And>p. vs_peer (cn_store c' ! i) = Some p \<Longrightarrow> vs_peer (cn_store c ! i) = Some p \<or> pc_peer (pc_of c i) = Some p"
    and "pc_of c' i \<noteq> RvNewPeer"
    and "\<And>p. pc_peer (pc_of c' i) = None \<Longrightarrow> p < length (cn_peers c) \<Longrightarrow> cn_owner c ! p = i \<Longrightarrow> p_close (cn_peers c' ! p) = CloseDone"
    and "\<And>p. pc_of c' i = RvAddAudio p \<or> pc_of c' i = RvRemoveAudio p \<Longrightarrow> cm_audio cfg"
  shows "holds_inv cfg c' i"
  using assms unfolding holds_inv_def by metis

lemma viewer_holds_self:
  assumes "runViewer_step cfg env i c = Some c'" "i < nthreads c" "owner_inv c" "holds_inv cfg c i"
  shows "holds_inv cfg c' i"
  using assms(1)
proof (cases rule: viewer_step_cases)
  case (made p)
  have "i \<notin> set (cn_owner c)" using made assms(4) by (simp add: holds_inv_def)
  then have "cn_owner c ! q \<noteq> i" if "q < length (cn_peers c)" for q using that assms(3) by (auto simp: owner_inv_def)
  moreover have "length (cn_owner c) = length (cn_peers c)" using assms(3) by (simp add: owner_inv_def)
  moreover have "vs_peer (cn_store c ! i) = None" using assms(4) calculation(1) by (cases "vs_peer (cn_store c ! i)") (auto simp: holds_inv_def)
  ultimately show ?thesis using made assms(2) by (simp add: holds_inv_def nth_append)
next
  case failed
  have "i \<notin> set (cn_owner c)" using failed assms(4) by (simp add: holds_inv_def)
  then have "cn_owner c ! q \<noteq> i" if "q < length (cn_peers c)" for q using that assms(3) by (auto simp: owner_inv_def)
  then show ?thesis using failed assms(2) by (intro holds_step [OF assms(4)]) auto
next
  case (stored p)
  moreover have "i < length (cn_store c)" using assms(2,3) by (simp add: owner_inv_def)
  ultimately show ?thesis using assms(2) by (intro holds_step [OF assms(4)]) (auto simp: setPeer_def)
next
  case (closed p)
  have "q = p" if "q < length (cn_peers c)" "cn_owner c ! q = i" for q
    using that closed(1) assms(4) owner_unique [OF assms(3), of q p] by (simp add: holds_inv_def)
  then show ?thesis using closed assms(2) by (intro holds_step [OF assms(4)]) auto
next
  case (await p x pc')
  show ?thesis using await(1,2) await(4-11) assms(2) by (intro holds_step [OF assms(4)]) auto
next
  case deleted
  then show ?thesis using assms(2,4) by (intro holds_step [OF assms(4)]) (auto simp: holds_inv_def)
next
  case cancelled
  then show ?thesis using assms(2,4) by (intro holds_step [OF assms(4)]) (auto simp: holds_inv_def)
next
  case (no_audio p)
  then show ?thesis using assms(2) by (intro holds_step [OF assms(4)]) auto
next
  case (stay p pc' xs)
  then show ?thesis using assms(2) by (intro holds_step [OF assms(4)]) auto
next
  case (closing p x)
  then show ?thesis using assms(2) by (intro holds_step [OF assms(4)]) auto
next
  case (audio p)
  then show ?thesis using assms(2) by (intro holds_step [OF assms(4)]) auto
next
  case (video p)
  then show ?thesis using assms(2) by (intro holds_step [OF assms(4)]) (auto split: if_splits)
next
  case (wire p)
  then show ?thesis using assms(2) by (intro holds_step [OF assms(4)]) auto
next
  case (no_video p)
  then show ?thesis using assms(2) by (intro holds_step [OF assms(4)]) auto
qed

lemma viewer_own_inv:
  assumes "runViewer_step cfg env i c = Some c'" "i < nthreads c" "own_inv cfg c"
  shows "own_inv cfg c'"
  using assms viewer_map_inv viewer_owner_inv viewer_holds_self viewer_holds_other viewer_threads [OF assms(1)]
  unfolding own_inv_def by metis

lemma feed_own_inv:
  assumes "own_inv cfg c"
  shows "own_inv cfg (handleFeedMessage payload c)"
proof -
  have new: "own_inv cfg (c\<lparr>cn_sessions := (cn_sessions c)(v := Some (nthreads c)), cn_store := cn_store c @ [\<lparr>vs_peer = None, vs_answered = False\<rparr>],
      cn_threads := cn_threads c @ [\<lparr>vt_id = v, vt_pc = RvNewPeer\<rparr>], cn_seen := xs\<rparr>)" (is "own_inv cfg ?d") if "cn_sessions c v = None" for v xs
  proof -
    have m: "\<not> (i < nthreads c \<and> id_of c i = v \<and> \<not> over (pc_of c i))" for i
      using assms that unfolding own_inv_def map_inv_def by (metis option.distinct(1))
    have o: "\<forall>i\<in>set (cn_owner c). i < nthreads c" "length (cn_owner c) = length (cn_peers c)" "length (cn_store c) = nthreads c"
      using assms by (auto simp: own_inv_def owner_inv_def)
    then have "nthreads c \<notin> set (cn_owner c)" by auto
    moreover have "p < length (cn_peers c) \<Longrightarrow> cn_owner c ! p \<noteq> nthreads c" for p
      using o(1,2) by (metis nth_mem less_irrefl)
    ultimately have last: "holds_inv cfg ?d (nthreads c)"
      using o(3) by (simp add: holds_inv_def nth_append)
    have "holds_inv cfg ?d i" if "i < nthreads c" for i
      using assms that o(3) by (simp add: own_inv_def holds_inv_def nth_append)
    then have "\<forall>i < nthreads ?d. holds_inv cfg ?d i" using last by (simp add: less_Suc_eq)
    moreover have "map_inv ?d"
      using assms m unfolding own_inv_def map_inv_def by (auto simp: nth_append over_def less_Suc_eq)
    moreover have "owner_inv ?d" using assms by (auto simp: own_inv_def owner_inv_def)
    ultimately show ?thesis by (simp add: own_inv_def)
  qed
  have len: "length (cn_store c) = nthreads c" using assms by (simp add: own_inv_def owner_inv_def)
  have idle: "own_inv cfg (c\<lparr>cn_feed := f, cn_seen := xs\<rparr>)" for f xs
    using assms by (simp add: own_inv_def map_inv_def owner_inv_def holds_inv_def)
  show ?thesis
    using new idle assms by (simp add: handleFeedMessage_def len split: option.splits)
qed

lemma own_inv_same:
  assumes "own_inv cfg c" "cn_sessions c' = cn_sessions c" "cn_threads c' = cn_threads c" "cn_owner c' = cn_owner c"
    and "length (cn_peers c') = length (cn_peers c)" "length (cn_store c') = length (cn_store c)"
    and "\<And>p. p < length (cn_peers c) \<Longrightarrow> p_close (cn_peers c' ! p) = p_close (cn_peers c ! p)"
    and "\<And>i. i < nthreads c \<Longrightarrow> vs_peer (cn_store c' ! i) = vs_peer (cn_store c ! i)"
  shows "own_inv cfg c'"
  using assms by (simp add: own_inv_def map_inv_def owner_inv_def holds_inv_def)

lemma conn_own_inv:
  assumes "conn_step cfg a c = Some c'" "own_inv cfg c"
  shows "own_inv cfg c'"
proof (cases a)
  case (CMessage payload)
  then show ?thesis using assms feed_own_inv by (auto split: if_splits)
next
  case CApply
  then obtain i env where "c' = applyAnswer i env c" using assms(1) by (auto split: feed_pc.splits)
  then show ?thesis
    by (intro own_inv_same [OF assms(2)]) (auto simp: applyAnswer_def nth_list_update split: option.splits)
next
  case CSetRemote
  then show ?thesis using assms(1) by (intro own_inv_same [OF assms(2)]) (auto split: feed_pc.splits)
next
  case (CViewer i env)
  then show ?thesis using assms viewer_own_inv by (auto split: if_splits)
next
  case (CConnState p s)
  have "p_close (onConnectionStateChange s x) = p_close x" for x by (simp add: onConnectionStateChange_def)
  then show ?thesis using assms(1) CConnState
    by (intro own_inv_same [OF assms(2)]) (auto simp: nth_list_update split: if_splits)
next
  case CCancel
  then show ?thesis using assms(1) by (intro own_inv_same [OF assms(2)]) auto
qed

lemma own_inv_reachable: "conn_reachable cfg c \<Longrightarrow> own_inv cfg c"
proof (induction rule: conn_reachable.induct)
  case (init mc)
  then show ?case by (simp add: conn_init_def own_inv_def map_inv_def owner_inv_def)
qed (rule conn_own_inv)

end
