(* ===== verification/RoomState.thy ===== *)
theory RoomState
  imports Signaling
begin

text \<open>
  The room of the signaling Worker (\<^verbatim>\<open>playgate-signaling/src/roomState.ts\<close> and \<^verbatim>\<open>roomDO.ts\<close>): the two
  message queues with their sequence numbers and reset rules, and the transports over them: posts,
  polls with waiters, and WebSockets. It is what the client of the host talks to. A payload is the
  JSON value that was posted; a Durable Object handles one request at a time up to its answer.
\<close>

section \<open>Queues\<close>

record RoomMessage =
  rm_seq :: int
  rm_ts :: string
  rm_payload :: json

record RoomState =
  rs_host :: "RoomMessage list"
  rs_viewer :: "RoomMessage list"

definition MAX_QUEUE_LENGTH :: nat where "MAX_QUEUE_LENGTH = 200"

fun otherPeer :: "SigPeer \<Rightarrow> SigPeer" where
  "otherPeer PeerHost = PeerViewer"
| "otherPeer PeerViewer = PeerHost"

fun loadQueue :: "SigPeer \<Rightarrow> RoomState \<Rightarrow> RoomMessage list" where
  "loadQueue PeerHost s = rs_host s"
| "loadQueue PeerViewer s = rs_viewer s"

fun putQueue :: "SigPeer \<Rightarrow> RoomMessage list \<Rightarrow> RoomState \<Rightarrow> RoomState" where
  "putQueue PeerHost q s = s\<lparr>rs_host := q\<rparr>"
| "putQueue PeerViewer q s = s\<lparr>rs_viewer := q\<rparr>"

text \<open>A property of a JavaScript object: the last member of that exact name.\<close>

fun js_property :: "string \<Rightarrow> json \<Rightarrow> json option" where
  "js_property f (JObj ms) = map_of (rev ms) f"
| "js_property f _ = None"

definition isOfferPayload :: "json \<Rightarrow> bool" where
  "isOfferPayload payload \<longleftrightarrow> js_property ''type'' payload = Some (JStr ''offer'')"

definition payloadString :: "json \<Rightarrow> string \<Rightarrow> string option" where
  "payloadString payload field =
     (case js_property field payload of Some (JStr v) \<Rightarrow> if v \<noteq> [] then Some v else None | _ \<Rightarrow> None)"

definition next_seq :: "RoomMessage list \<Rightarrow> int" where
  "next_seq queue = (if queue = [] then - 1 else rm_seq (last queue)) + 1"

definition truncate_queue :: "RoomMessage list \<Rightarrow> RoomMessage list" where
  "truncate_queue queue =
     (if length queue \<ge> MAX_QUEUE_LENGTH then drop (length queue - (MAX_QUEUE_LENGTH - 1)) queue else queue)"

definition room_append :: "SigPeer \<Rightarrow> string \<Rightarrow> json \<Rightarrow> RoomState \<Rightarrow> RoomState \<times> RoomMessage" where
  "room_append peer now payload s =
     (let queue = truncate_queue (loadQueue peer s);
          msg = \<lparr>rm_seq = next_seq queue, rm_ts = now, rm_payload = payload\<rparr>
      in (if peer = PeerHost \<and> isOfferPayload payload
          then (case payloadString payload ''to'' of
                  Some target \<Rightarrow>
                    s\<lparr>rs_host := filter (\<lambda>m. payloadString (rm_payload m) ''to'' \<noteq> Some target) queue @ [msg],
                      rs_viewer := filter (\<lambda>m. payloadString (rm_payload m) ''viewerId'' \<noteq> Some target) (rs_viewer s)\<rparr>
                | None \<Rightarrow> s\<lparr>rs_host := [msg], rs_viewer := []\<rparr>)
          else putQueue peer (queue @ [msg]) s, msg))"

definition room_poll :: "SigPeer \<Rightarrow> int \<Rightarrow> RoomState \<Rightarrow> RoomMessage list \<times> int" where
  "room_poll peer since s =
     (let messages = filter (\<lambda>m. rm_seq m > since) (loadQueue (otherPeer peer) s)
      in (messages, if messages \<noteq> [] then rm_seq (last messages) else since))"

definition backlogFor :: "SigPeer \<Rightarrow> RoomState \<Rightarrow> RoomMessage list" where
  "backlogFor peer s = loadQueue (otherPeer peer) s"

section \<open>The Durable Object\<close>

text \<open>
  Held long polls and open sockets, by number; \<open>rd_answered\<close> and \<open>rd_frames\<close> record what was sent: the
  answers to held polls, and the frames of the sockets.
\<close>

record RoomDO =
  rd_room :: RoomState
  rd_waiters :: "(nat \<times> SigPeer \<times> int) list"
  rd_sockets :: "(nat \<times> SigPeer) list"
  rd_answered :: "(nat \<times> RoomMessage list \<times> int) list"
  rd_frames :: "(nat \<times> RoomMessage) list"

definition room_init :: RoomDO where
  "room_init = \<lparr>rd_room = \<lparr>rs_host = [], rs_viewer = []\<rparr>, rd_waiters = [], rd_sockets = [], rd_answered = [], rd_frames = []\<rparr>"

definition notify :: "SigPeer \<Rightarrow> RoomMessage \<Rightarrow> RoomDO \<Rightarrow> RoomDO" where
  "notify recipient msg d =
     (let wakes = (\<lambda>(i, peer, since). peer = recipient \<and> rm_seq msg > since)
      in d\<lparr>rd_frames := rd_frames d @ map (\<lambda>(i, peer). (i, msg)) (filter (\<lambda>(i, peer). peer = recipient) (rd_sockets d)),
           rd_answered := rd_answered d @ map (\<lambda>(i, peer, since). (i, [msg], rm_seq msg)) (filter wakes (rd_waiters d)),
           rd_waiters := filter (\<lambda>w. \<not> wakes w) (rd_waiters d)\<rparr>)"

definition handlePost :: "SigPeer \<Rightarrow> string \<Rightarrow> json \<Rightarrow> RoomDO \<Rightarrow> RoomDO \<times> RoomMessage" where
  "handlePost peer now payload d =
     (case room_append peer now payload (rd_room d) of
        (s, msg) \<Rightarrow> (notify (otherPeer peer) msg (d\<lparr>rd_room := s\<rparr>), msg))"

text \<open>A poll is answered at once, or held as a waiter when it asks to wait and there is nothing new.\<close>

definition handleGet :: "nat \<Rightarrow> SigPeer \<Rightarrow> int \<Rightarrow> bool \<Rightarrow> RoomDO \<Rightarrow> RoomDO" where
  "handleGet i peer since wait d =
     (case room_poll peer since (rd_room d) of
        (messages, nxt) \<Rightarrow>
          (if messages \<noteq> [] \<or> \<not> wait then d\<lparr>rd_answered := rd_answered d @ [(i, messages, nxt)]\<rparr>
           else d\<lparr>rd_waiters := rd_waiters d @ [(i, peer, since)]\<rparr>))"

definition wait_timeout :: "nat \<Rightarrow> RoomDO \<Rightarrow> RoomDO" where
  "wait_timeout i d =
     d\<lparr>rd_answered := rd_answered d @ map (\<lambda>(j, peer, since). (j, [], since)) (filter (\<lambda>(j, _). j = i) (rd_waiters d)),
       rd_waiters := filter (\<lambda>(j, _). j \<noteq> i) (rd_waiters d)\<rparr>"

definition handleWebSocket :: "nat \<Rightarrow> SigPeer \<Rightarrow> RoomDO \<Rightarrow> RoomDO" where
  "handleWebSocket i peer d =
     d\<lparr>rd_sockets := rd_sockets d @ [(i, peer)],
       rd_frames := rd_frames d @ map (\<lambda>m. (i, m)) (backlogFor peer (rd_room d))\<rparr>"

definition webSocketClose :: "nat \<Rightarrow> RoomDO \<Rightarrow> RoomDO" where
  "webSocketClose i d = d\<lparr>rd_sockets := filter (\<lambda>(j, _). j \<noteq> i) (rd_sockets d)\<rparr>"

definition room_alarm :: "RoomDO \<Rightarrow> RoomDO" where
  "room_alarm d = (if rd_sockets d \<noteq> [] then d else d\<lparr>rd_room := \<lparr>rs_host = [], rs_viewer = []\<rparr>\<rparr>)"

text \<open>The body of the answer to a poll.\<close>

definition message_json :: "RoomMessage \<Rightarrow> json" where
  "message_json m = JObj [(''seq'', JNum (Itoa (rm_seq m))), (''ts'', JStr (rm_ts m)), (''payload'', rm_payload m)]"

definition poll_body :: "RoomMessage list \<times> int \<Rightarrow> string" where
  "poll_body r = json_print (JObj [(''messages'', JArr (map message_json (fst r))), (''nextSince'', JNum (Itoa (snd r)))])"

definition to_message :: "RoomMessage \<Rightarrow> SigMessage" where
  "to_message m = \<lparr>sm_Seq = rm_seq m, sm_Ts = rm_ts m, sm_Payload = Some (rm_payload m)\<rparr>"

section \<open>The client reads what the Worker answers\<close>

text \<open>A message the wire carries: canonical numbers, and a sequence number that fits.\<close>

definition wire_message :: "RoomMessage \<Rightarrow> bool" where
  "wire_message m \<longleftrightarrow> in_int64 (rm_seq m) \<and> int_json (rm_payload m)"

lemma decode_message_json: "wire_message m \<Longrightarrow> decode_Message (message_json m) = Some (to_message m)"
  by (simp add: decode_Message_def message_json_def get_field_def field_values_def get_raw_def to_lower_def to_lower_char_def
      wire_message_def ParseInt_Itoa to_message_def)

lemma int_json_messages: "\<forall>m\<in>set ms. wire_message m \<Longrightarrow> int_json (JArr (map message_json ms))"
  by (auto simp: list_all_iff message_json_def wire_message_def)

lemma decode_poll_body:
  assumes "\<forall>m\<in>set ms. wire_message m" "in_int64 nxt"
  shows "Option.bind (decode_members (poll_body (ms, nxt))) decode_messagesResponse = Some (map to_message ms, nxt)"
proof -
  have "int_json (JObj [(''messages'', JArr (map message_json ms)), (''nextSince'', JNum (Itoa nxt))])"
    using int_json_messages [OF assms(1)] by auto
  then have "decode_members (poll_body (ms, nxt)) = Some [(''messages'', JArr (map message_json ms)), (''nextSince'', JNum (Itoa nxt))]"
    unfolding poll_body_def fst_conv snd_conv by (rule decode_members_print)
  moreover have "json_all decode_Message (map message_json ms) = Some (map to_message ms)"
    using assms(1) by (induction ms) (auto simp: decode_message_json)
  ultimately show ?thesis
    using assms(2) by (simp add: decode_messagesResponse_def get_field_def field_values_def to_lower_def to_lower_char_def ParseInt_Itoa)
qed

lemma PollWait_room:
  assumes "net (fst (poll_request c self since wait)) = HttpResponse StatusOK (poll_body (ms, nxt))"
    and "\<forall>m\<in>set ms. wire_message m" "in_int64 nxt"
  shows "PollWait net c self since wait = (map to_message ms, nxt, None)"
  using decode_poll_body [OF assms(2,3)] by (simp add: PollWait_def assms(1))

section \<open>Sequence numbers\<close>

text \<open>Sequence numbers ascend in each queue.\<close>

definition queue_sorted :: "RoomMessage list \<Rightarrow> bool" where
  "queue_sorted q \<longleftrightarrow> sorted_wrt (<) (map rm_seq q)"

definition room_inv :: "RoomState \<Rightarrow> bool" where
  "room_inv s \<longleftrightarrow> queue_sorted (rs_host s) \<and> queue_sorted (rs_viewer s)"

lemma queue_sorted_filter: "queue_sorted q \<Longrightarrow> queue_sorted (filter P q)"
  by (induction q) (auto simp: queue_sorted_def)

lemma queue_sorted_drop: "queue_sorted q \<Longrightarrow> queue_sorted (drop n q)"
  by (simp add: queue_sorted_def sorted_wrt_drop flip: drop_map)

lemma queue_sorted_truncate: "queue_sorted q \<Longrightarrow> queue_sorted (truncate_queue q)"
  by (simp add: truncate_queue_def queue_sorted_drop)

lemma sorted_last:
  assumes "queue_sorted q" "m \<in> set q"
  shows "rm_seq m \<le> rm_seq (last q)"
  using assms by (cases q rule: rev_cases) (auto simp: queue_sorted_def sorted_wrt_append)

lemma below_next: "queue_sorted q \<Longrightarrow> m \<in> set q \<Longrightarrow> rm_seq m < next_seq q"
  using sorted_last [of q m] by (auto simp: next_seq_def)

lemma queue_sorted_snoc: "queue_sorted q \<Longrightarrow> \<forall>m\<in>set q. rm_seq m < rm_seq x \<Longrightarrow> queue_sorted (q @ [x])"
  by (auto simp: queue_sorted_def sorted_wrt_append)

lemma room_append_inv:
  assumes "room_inv s" "room_append peer now payload s = (s', msg)"
  shows "room_inv s'"
proof -
  let ?q = "truncate_queue (loadQueue peer s)"
  have "queue_sorted (loadQueue peer s)" using assms(1) by (cases peer) (simp_all add: room_inv_def)
  then have q: "queue_sorted ?q" by (rule queue_sorted_truncate)
  have m: "rm_seq msg = next_seq ?q" using assms(2) by (auto simp: room_append_def Let_def)
  have ext: "queue_sorted (filter P ?q @ [msg])" for P
    using q below_next [OF q] m by (intro queue_sorted_snoc queue_sorted_filter) auto
  show ?thesis
    using assms ext ext [of "\<lambda>_. True"]
    by (cases peer) (auto simp: room_append_def Let_def room_inv_def queue_sorted_filter queue_sorted_def [of "[_]"]
        queue_sorted_def [of "[]"] split: option.splits if_splits)
qed

text \<open>A viewer's post is appended whole and gets a number above all that are still queued.\<close>

lemma viewer_post:
  "room_append PeerViewer now payload s =
     (s\<lparr>rs_viewer := truncate_queue (rs_viewer s) @ [msg]\<rparr>, msg)"
  if "msg = \<lparr>rm_seq = next_seq (truncate_queue (rs_viewer s)), rm_ts = now, rm_payload = payload\<rparr>"
  using that by (simp add: room_append_def Let_def)

end
