(* ===== verification/ConnectProps.thy ===== *)
theory ConnectProps
  imports ConnectInv RouterProps RoomState
begin

text \<open>
  Properties of the connection manager: one live session for each viewer, routers that hold exactly the
  peers being served, answers that reach only their viewer's peer and only once, goroutines that always
  get to their end; and what a replayed feed and the fallback transport do.
\<close>

section \<open>The routers hold the peers being served\<close>

definition held :: "(viewer_pc \<Rightarrow> nat option) \<Rightarrow> conn_state \<Rightarrow> nat set" where
  "held f c = {p. \<exists>i < nthreads c. f (pc_of c i) = Some p}"

definition sink_inv :: "conn_config \<Rightarrow> conn_state \<Rightarrow> bool" where
  "sink_inv cfg c \<longleftrightarrow>
     set (vr_sinks (cn_video c)) = held video_peer c \<and> set (ar_sinks (cn_audio c)) = (if cm_audio cfg then held audio_peer c else {})"

lemma held_split:
  assumes "runViewer_step cfg env i c = Some c'" "i < nthreads c"
  shows "held f c = {p. \<exists>j < nthreads c. j \<noteq> i \<and> f (pc_of c j) = Some p} \<union> set_option (f (pc_of c i))"
    and "held f c' = {p. \<exists>j < nthreads c. j \<noteq> i \<and> f (pc_of c j) = Some p} \<union> set_option (f (pc_of c' i))"
  using assms(2) viewer_threads [OF assms(1)] unfolding held_def by (auto, metis)

lemma held_once:
  assumes "own_inv cfg c" "i < nthreads c" "j < nthreads c" "pc_peer (pc_of c i) = Some p" "pc_peer (pc_of c j) = Some p"
  shows "j = i"
proof -
  have "holds_inv cfg c i" "holds_inv cfg c j" using assms(1-3) by (simp_all add: own_inv_def)
  then show ?thesis using assms(4,5) by (simp add: holds_inv_def)
qed

lemma not_held_video: "own_inv cfg c \<Longrightarrow> i < nthreads c \<Longrightarrow> pc_peer (pc_of c i) = Some p \<Longrightarrow>
    p \<notin> {p. \<exists>j < nthreads c. j \<noteq> i \<and> video_peer (pc_of c j) = Some p}"
  using held_once video_peer_pc by blast

lemma not_held_audio: "own_inv cfg c \<Longrightarrow> i < nthreads c \<Longrightarrow> pc_peer (pc_of c i) = Some p \<Longrightarrow>
    p \<notin> {p. \<exists>j < nthreads c. j \<noteq> i \<and> audio_peer (pc_of c j) = Some p}"
  using held_once video_peer_pc audio_peer_video by blast

lemma set_insert_sink [simp]: "set (insert_sink s ss) = insert s (set ss)"
  by (auto simp: insert_sink_def)

lemma set_delete_sink [simp]: "set (delete_sink s ss) = set ss - {s}"
  by (auto simp: delete_sink_def)

lemma viewer_sink_inv:
  assumes "runViewer_step cfg env i c = Some c'" "i < nthreads c" "own_inv cfg c" "sink_inv cfg c"
  shows "sink_inv cfg c'"
proof -
  define V where "V = {p. \<exists>j < nthreads c. j \<noteq> i \<and> video_peer (pc_of c j) = Some p}"
  define A where "A = {p. \<exists>j < nthreads c. j \<noteq> i \<and> audio_peer (pc_of c j) = Some p}"
  have v: "set (vr_sinks (cn_video c)) = V \<union> set_option (video_peer (pc_of c i))"
    and a: "set (ar_sinks (cn_audio c)) = (if cm_audio cfg then A \<union> set_option (audio_peer (pc_of c i)) else {})"
    using assms(4) held_split(1) [OF assms(1,2), of video_peer] held_split(1) [OF assms(1,2), of audio_peer]
    unfolding sink_inv_def V_def A_def by simp_all
  have fresh: "p \<notin> V" "p \<notin> A" if "pc_peer (pc_of c i) = Some p" for p
    using not_held_video [OF assms(3,2) that] not_held_audio [OF assms(3,2) that] unfolding V_def A_def by blast+
  have "set (vr_sinks (cn_video c')) = V \<union> set_option (video_peer (pc_of c' i))
      \<and> set (ar_sinks (cn_audio c')) = (if cm_audio cfg then A \<union> set_option (audio_peer (pc_of c' i)) else {})"
    using assms(1)
  proof (cases rule: viewer_step_cases)
    case (await p x pc')
    show ?thesis using await(1,2) await(4-11) assms(2) v a by auto
  next
    case (no_audio p)
    moreover have "cm_audio cfg" using no_audio(1) assms(2,3) by (auto simp: own_inv_def holds_inv_def)
    ultimately show ?thesis using assms(2) v a fresh [of p] by (auto simp: AudioRouter_RemoveSink_def)
  next
    case (no_video p)
    then show ?thesis using assms(2) v a fresh [of p] by (auto simp: VideoRouter_RemoveSink_def)
  next
    case (audio p)
    moreover have "cm_audio cfg" using audio(1) assms(2,3) by (auto simp: own_inv_def holds_inv_def)
    ultimately show ?thesis using assms(2) v a by (auto simp: AudioRouter_AddSink_def)
  next
    case (video p)
    then show ?thesis using assms(2) v a by (auto simp: VideoRouter_AddSink_def)
  qed (use assms(2) v a in auto)
  then show ?thesis
    unfolding sink_inv_def V_def A_def held_split(2) [OF assms(1,2)] by blast
qed

lemma new_thread_held: "f RvNewPeer = None \<Longrightarrow> cn_threads c' = cn_threads c @ [\<lparr>vt_id = v, vt_pc = RvNewPeer\<rparr>] \<Longrightarrow>
    held f c' = held f c"
  unfolding held_def by (auto simp: nth_append less_Suc_eq)

lemma held_same: "cn_threads c' = cn_threads c \<Longrightarrow> held f c' = held f c"
  by (simp add: held_def)

lemma conn_sink_inv:
  assumes "conn_step cfg a c = Some c'" "own_inv cfg c" "sink_inv cfg c"
  shows "sink_inv cfg c'"
proof (cases a)
  case (CMessage payload)
  then have "c' = handleFeedMessage payload c" using assms(1) by (simp split: if_splits)
  then have m: "cn_video c' = cn_video c" "cn_audio c' = cn_audio c"
      "cn_threads c' = cn_threads c \<or> (\<exists>v. cn_threads c' = cn_threads c @ [\<lparr>vt_id = v, vt_pc = RvNewPeer\<rparr>])"
    by (auto simp: handleFeedMessage_def split: option.splits)
  have "held f c' = held f c" if "f RvNewPeer = None" for f
    using m(3) new_thread_held [of f c' c] held_same [of c' c f] that by blast
  then show ?thesis
    using assms(3) m(1,2) by (simp add: sink_inv_def)
next
  case (CViewer i env)
  then show ?thesis using assms viewer_sink_inv by (auto split: if_splits)
qed (use assms in \<open>auto simp: sink_inv_def held_def applyAnswer_def split: feed_pc.splits if_splits option.splits\<close>)

lemma sink_inv_reachable: "conn_reachable cfg c \<Longrightarrow> sink_inv cfg c"
proof (induction rule: conn_reachable.induct)
  case (init mc)
  then show ?case by (simp add: conn_init_def sink_inv_def held_def NewVideoRouter_def NewAudioRouter_def)
next
  case (step c a c')
  then show ?case using conn_sink_inv own_inv_reachable by blast
qed

section \<open>Answers\<close>

definition genuine :: "conn_state \<Rightarrow> nat \<Rightarrow> string \<Rightarrow> bool" where
  "genuine c p s \<longleftrightarrow> (\<exists>env\<in>set (cn_seen c). ve_ViewerID env = id_of c (cn_owner c ! p) \<and> ve_Type env = ''answer'' \<and> ve_SDP env = s \<and> s \<noteq> [])"

definition handed :: "conn_state \<Rightarrow> nat \<Rightarrow> string \<Rightarrow> bool" where
  "handed c p s \<longleftrightarrow> p < length (cn_peers c) \<and> vs_answered (cn_store c ! (cn_owner c ! p)) \<and> genuine c p s"

definition feed_inv :: "conn_state \<Rightarrow> bool" where
  "feed_inv c \<longleftrightarrow>
     (case cn_feed c of
        FeedIdle \<Rightarrow> True
      | FeedApply i env \<Rightarrow> i < nthreads c \<and> env \<in> set (cn_seen c) \<and> ve_ViewerID env = id_of c i
      | FeedSetRemote p s \<Rightarrow> handed c p s \<and> p \<notin> fst ` set (cn_applied c))"

definition answer_inv :: "conn_state \<Rightarrow> bool" where
  "answer_inv c \<longleftrightarrow> distinct (map fst (cn_applied c)) \<and> (\<forall>(p, s)\<in>set (cn_applied c). handed c p s) \<and> feed_inv c"

lemma handed_keep:
  assumes "handed c p s" "length (cn_peers c) \<le> length (cn_peers c')" "cn_owner c' ! p = cn_owner c ! p"
    and "id_of c' (cn_owner c ! p) = id_of c (cn_owner c ! p)" "set (cn_seen c) \<subseteq> set (cn_seen c')"
    and "vs_answered (cn_store c ! (cn_owner c ! p)) \<Longrightarrow> vs_answered (cn_store c' ! (cn_owner c ! p))"
  shows "handed c' p s"
  using assms unfolding handed_def genuine_def by auto

lemma viewer_rest:
  assumes "runViewer_step cfg env i c = Some c'"
  shows "cn_applied c' = cn_applied c \<and> cn_feed c' = cn_feed c \<and> cn_seen c' = cn_seen c
    \<and> vs_answered (cn_store c' ! j) = vs_answered (cn_store c ! j)"
proof -
  have "vs_answered ((cn_store c)[i := setPeer p (cn_store c ! i)] ! j) = vs_answered (cn_store c ! j)" for p
    by (cases "i = j"; cases "i < length (cn_store c)") (simp_all add: setPeer_def list_update_beyond not_less)
  with assms show ?thesis by (cases rule: viewer_step_cases) simp_all
qed

lemma viewer_handed:
  assumes "runViewer_step cfg env i c = Some c'" "i < nthreads c" "own_inv cfg c" "handed c p s"
  shows "handed c' p s"
proof -
  have h: "owner_inv c" "holds_inv cfg c i" using assms(2,3) by (simp_all add: own_inv_def)
  have "p < length (cn_peers c)" using assms(4) by (simp add: handed_def)
  then show ?thesis
    using viewer_rest [OF assms(1)] viewer_threads [OF assms(1)] viewer_peers(1,2) [OF assms(1) h]
    by (intro handed_keep [OF assms(4)]) auto
qed

lemma viewer_answer_inv:
  assumes "runViewer_step cfg env i c = Some c'" "i < nthreads c" "own_inv cfg c" "answer_inv c"
  shows "answer_inv c'"
  using assms(4) viewer_handed [OF assms(1-3)] viewer_rest [OF assms(1)] viewer_threads [OF assms(1)]
  unfolding answer_inv_def feed_inv_def by (auto split: feed_pc.splits)

lemma feed_answer_inv:
  assumes "own_inv cfg c" "answer_inv c" "cn_feed c = FeedIdle"
  shows "answer_inv (handleFeedMessage payload c)"
proof -
  let ?c' = "handleFeedMessage payload c"
  have len: "length (cn_store c) = nthreads c" "length (cn_owner c) = length (cn_peers c)" "\<forall>i\<in>set (cn_owner c). i < nthreads c"
    using assms(1) by (auto simp: own_inv_def owner_inv_def)
  have keep: "handed ?c' p s" if "handed c p s" for p s
  proof -
    have "cn_owner c ! p < nthreads c" using that len by (auto simp: handed_def)
    then show ?thesis
      using len(1) by (intro handed_keep [OF that]) (auto simp: handleFeedMessage_def nth_append split: option.splits)
  qed
  have same: "cn_applied ?c' = cn_applied c" by (auto simp: handleFeedMessage_def split: option.splits)
  have "feed_inv ?c'"
  proof (cases "cn_feed ?c'")
    case (FeedApply i env)
    then have "cn_sessions c (ve_ViewerID env) = Some i \<and> env \<in> set (cn_seen ?c') \<and> cn_threads ?c' = cn_threads c"
      using assms(3) by (auto simp: handleFeedMessage_def split: option.splits if_splits)
    then show ?thesis using FeedApply assms(1) by (auto simp: feed_inv_def own_inv_def map_inv_def)
  next
    case (FeedSetRemote p s)
    then show ?thesis using assms(3) by (auto simp: handleFeedMessage_def split: option.splits if_splits)
  qed (simp add: feed_inv_def)
  then show ?thesis using assms(2) keep same by (auto simp: answer_inv_def)
qed

lemma apply_answer_inv:
  assumes "own_inv cfg c" "answer_inv c" "cn_feed c = FeedApply i env"
  shows "answer_inv (applyAnswer i env c)"
proof -
  let ?c' = "applyAnswer i env c"
  have f: "i < nthreads c" "env \<in> set (cn_seen c)" "ve_ViewerID env = id_of c i"
    using assms(2,3) by (simp_all add: answer_inv_def feed_inv_def)
  have len: "i < length (cn_store c)" using assms(1) f(1) by (simp add: own_inv_def owner_inv_def)
  have keep: "handed ?c' p s" if "handed c p s" for p s
    using len by (intro handed_keep [OF that]) (auto simp: applyAnswer_def nth_list_update split: option.splits)
  have same: "cn_applied ?c' = cn_applied c" "cn_peers ?c' = cn_peers c" "cn_owner ?c' = cn_owner c" "cn_seen ?c' = cn_seen c" "cn_threads ?c' = cn_threads c"
    by (auto simp: applyAnswer_def split: option.splits)
  have "feed_inv ?c'"
  proof (cases "cn_feed ?c'")
    case (FeedSetRemote p s)
    then have r: "vs_peer (cn_store c ! i) = Some p" "\<not> vs_answered (cn_store c ! i)" "ve_Type env = ''answer''" "ve_SDP env = s" "s \<noteq> []"
        "cn_store ?c' = (cn_store c)[i := (cn_store c ! i)\<lparr>vs_answered := True\<rparr>]"
      using assms(3) by (auto simp: applyAnswer_def split: option.splits if_splits)
    have o: "p < length (cn_peers c)" "cn_owner c ! p = i" using assms(1) f(1) r(1) by (auto simp: own_inv_def holds_inv_def)
    have "p \<notin> fst ` set (cn_applied c)" using assms(2) r(2) o(2) by (auto simp: answer_inv_def handed_def)
    moreover have "handed ?c' p s" using o f r len same by (auto simp: handed_def genuine_def)
    ultimately show ?thesis using FeedSetRemote same by (simp add: feed_inv_def)
  next
    case (FeedApply j e)
    then show ?thesis by (auto simp: applyAnswer_def split: option.splits if_splits)
  qed (simp add: feed_inv_def)
  then show ?thesis using assms(2) keep same(1) by (auto simp: answer_inv_def)
qed

lemma answer_inv_same:
  assumes "answer_inv c" "cn_owner c' = cn_owner c" "length (cn_peers c') = length (cn_peers c)" "cn_store c' = cn_store c"
    and "cn_seen c' = cn_seen c" "cn_threads c' = cn_threads c" "cn_applied c' = cn_applied c" "cn_feed c' = cn_feed c"
  shows "answer_inv c'"
proof -
  have "handed c' p s = handed c p s" for p s using assms by (simp add: handed_def genuine_def)
  then show ?thesis using assms by (simp add: answer_inv_def feed_inv_def split: feed_pc.splits)
qed

lemma conn_answer_inv:
  assumes "conn_step cfg a c = Some c'" "own_inv cfg c" "answer_inv c"
  shows "answer_inv c'"
proof (cases a)
  case (CMessage payload)
  then show ?thesis using assms feed_answer_inv by (auto split: if_splits)
next
  case CApply
  then show ?thesis using assms apply_answer_inv by (auto split: feed_pc.splits)
next
  case CSetRemote
  then obtain p s where f: "cn_feed c = FeedSetRemote p s" and c': "c' = c\<lparr>cn_applied := cn_applied c @ [(p, s)], cn_feed := FeedIdle\<rparr>"
    using assms(1) by (auto split: feed_pc.splits)
  then have "handed c p s" "p \<notin> fst ` set (cn_applied c)" using assms(3) by (simp_all add: answer_inv_def feed_inv_def)
  moreover have "handed c' q t = handed c q t" for q t by (simp add: c' handed_def genuine_def)
  ultimately show ?thesis using assms(3) by (auto simp: c' answer_inv_def feed_inv_def)
next
  case (CViewer i env)
  then show ?thesis using assms viewer_answer_inv by (auto split: if_splits)
next
  case (CConnState p s)
  then show ?thesis using assms(1) by (intro answer_inv_same [OF assms(3)]) (auto split: if_splits)
next
  case CCancel
  then show ?thesis using assms(1) by (intro answer_inv_same [OF assms(3)]) auto
qed

lemma answer_inv_reachable: "conn_reachable cfg c \<Longrightarrow> answer_inv c"
proof (induction rule: conn_reachable.induct)
  case (init mc)
  then show ?case by (simp add: conn_init_def answer_inv_def feed_inv_def)
next
  case (step c a c')
  then show ?case using conn_answer_inv own_inv_reachable by blast
qed

section \<open>What holds of every reachable state\<close>

lemma left_nothing:
  assumes "own_inv cfg c" "sink_inv cfg c" "i < nthreads c" "pc_of c i = RvDone" "p < length (cn_peers c)" "cn_owner c ! p = i"
  shows "p_close (cn_peers c ! p) = CloseDone \<and> p \<notin> set (vr_sinks (cn_video c)) \<and> p \<notin> set (ar_sinks (cn_audio c))"
proof -
  have out: "p \<notin> held f c" if f: "\<And>pc q. f pc = Some q \<Longrightarrow> pc_peer pc = Some q" for f
  proof
    assume "p \<in> held f c"
    then obtain j where j: "j < nthreads c" "pc_peer (pc_of c j) = Some p" using f unfolding held_def by blast
    then have "cn_owner c ! p = j" using assms(1) by (auto simp: own_inv_def holds_inv_def)
    then show False using j assms(4,6) by simp
  qed
  have "p_close (cn_peers c ! p) = CloseDone" using assms by (auto simp: own_inv_def holds_inv_def)
  moreover have "p \<notin> held video_peer c" "p \<notin> held audio_peer c"
    using out [of video_peer] out [of audio_peer] video_peer_pc audio_peer_video by blast+
  ultimately show ?thesis using assms(2) by (simp add: sink_inv_def)
qed

text \<open>
  C7. Viewer sessions: in every interleaving of the feed, the goroutines and Pion, two goroutines that
  have not removed themselves never serve the same viewer, the session map holds exactly these, the
  routers hold exactly the peers of the viewers being served, and a goroutine that has ended has left
  nothing behind: its peer is closed and in no router, and its session is gone.
\<close>

theorem viewer_sessions_safe:
  assumes "conn_reachable cfg c"
  shows "(\<forall>v i. cn_sessions c v = Some i \<longleftrightarrow> i < nthreads c \<and> id_of c i = v \<and> \<not> over (pc_of c i))
   \<and> (\<forall>i < nthreads c. \<forall>j < nthreads c. id_of c i = id_of c j \<and> \<not> over (pc_of c i) \<and> \<not> over (pc_of c j) \<longrightarrow> i = j)
   \<and> set (vr_sinks (cn_video c)) = {p. \<exists>i < nthreads c. video_peer (pc_of c i) = Some p}
   \<and> set (ar_sinks (cn_audio c)) = (if cm_audio cfg then {p. \<exists>i < nthreads c. audio_peer (pc_of c i) = Some p} else {})
   \<and> (\<forall>i < nthreads c. pc_of c i = RvDone \<longrightarrow> (\<forall>p < length (cn_peers c). cn_owner c ! p = i \<longrightarrow>
         p_close (cn_peers c ! p) = CloseDone \<and> p \<notin> set (vr_sinks (cn_video c)) \<and> p \<notin> set (ar_sinks (cn_audio c))))"
proof -
  have own: "own_inv cfg c" and sinks: "sink_inv cfg c" using assms own_inv_reachable sink_inv_reachable by blast+
  then have map: "\<forall>v i. cn_sessions c v = Some i \<longleftrightarrow> i < nthreads c \<and> id_of c i = v \<and> \<not> over (pc_of c i)"
    by (simp add: own_inv_def map_inv_def)
  then have uniq: "\<forall>i < nthreads c. \<forall>j < nthreads c. id_of c i = id_of c j \<and> \<not> over (pc_of c i) \<and> \<not> over (pc_of c j) \<longrightarrow> i = j"
    by (metis option.inject)
  show ?thesis using map uniq sinks left_nothing [OF own sinks] unfolding sink_inv_def held_def by blast
qed

text \<open>
  C14. Answers stay with their viewer: whatever the feed delivers and replays, a peer is handed at most
  one answer, and it is one that a message of that peer's own viewer carried.
\<close>

theorem answers_once_from_own_viewer:
  assumes "conn_reachable cfg c"
  shows "distinct (map fst (cn_applied c))
   \<and> (\<forall>(p, s)\<in>set (cn_applied c). p < length (cn_peers c) \<and> (\<exists>env\<in>set (cn_seen c).
        ve_ViewerID env = id_of c (cn_owner c ! p) \<and> ve_Type env = ''answer'' \<and> ve_SDP env = s))"
  using answer_inv_reachable [OF assms] by (fastforce simp: answer_inv_def handed_def genuine_def)

section \<open>Goroutines end\<close>

fun pc_rank :: "viewer_pc \<Rightarrow> nat" where
  "pc_rank RvNewPeer = 13" | "pc_rank (RvSetPeer p) = 12" | "pc_rank (RvAddVideo p) = 11" | "pc_rank (RvAddAudio p) = 10"
| "pc_rank (RvWireInput p) = 9" | "pc_rank (RvCreateOffer p) = 8" | "pc_rank (RvPost p t s) = 7" | "pc_rank (RvAwait p) = 6"
| "pc_rank (RvRemoveAudio p) = 5" | "pc_rank (RvRemoveVideo p) = 4" | "pc_rank (RvClosePeer p) = 3" | "pc_rank RvDelete = 2"
| "pc_rank RvCancel = 1" | "pc_rank RvDone = 0"

fun close_rank :: "close_pc \<Rightarrow> nat" where
  "close_rank CloseNotCalled = 3" | "close_rank CloseMarked = 2" | "close_rank CloseCommandsDone = 1" | "close_rank CloseDone = 0"

text \<open>The states still to be read, and the steps of \<^verbatim>\<open>Close\<close> still to be made.\<close>

definition pc_work :: "conn_state \<Rightarrow> viewer_pc \<Rightarrow> nat" where
  "pc_work c pc = (case pc of RvAwait p \<Rightarrow> length (ch_buf (p_connState (cn_peers c ! p)))
     | RvClosePeer p \<Rightarrow> close_rank (p_close (cn_peers c ! p)) | _ \<Rightarrow> 0)"

definition viewer_rank :: "conn_state \<Rightarrow> nat \<Rightarrow> nat \<times> nat" where
  "viewer_rank c i = (pc_rank (pc_of c i), pc_work c (pc_of c i))"

lemma await_cancelled:
  "\<exists>x b. awaitDisconnect True pref p = Some (x, b) \<and> (b \<or> length (ch_buf (p_connState x)) < length (ch_buf (p_connState p)))"
  by (cases "ch_buf (p_connState p)"; cases pref; cases "ch_closed (p_connState p)") (auto simp: awaitDisconnect_def)

lemma viewer_progress:
  assumes "own_inv cfg c" "i < nthreads c" "cn_ctx c" "pc_of c i \<noteq> RvDone"
  shows "\<exists>c'. runViewer_step cfg env i c = Some c' \<and> cn_ctx c' \<and> (viewer_rank c' i, viewer_rank c i) \<in> less_than <*lex*> less_than"
proof (cases "pc_of c i")
  case (RvAwait p)
  then have p: "p < length (cn_peers c)" using assms(1,2) by (auto simp: own_inv_def holds_inv_def)
  obtain x b where x: "awaitDisconnect True (rve_prefers_ctx env) (cn_peers c ! p) = Some (x, b)"
    "b \<or> length (ch_buf (p_connState x)) < length (ch_buf (p_connState (cn_peers c ! p)))"
    using await_cancelled by blast
  then show ?thesis
    using RvAwait assms(2,3) p
    by (cases b) (auto simp: runViewer_step_def Let_def viewer_rank_def pc_work_def unwind_def)
next
  case (RvClosePeer p)
  then have p: "p < length (cn_peers c)" using assms(1,2) by (auto simp: own_inv_def holds_inv_def)
  show ?thesis
    using RvClosePeer assms(2,3) p
    by (cases "p_close (cn_peers c ! p)") (auto simp: runViewer_step_def Let_def viewer_rank_def pc_work_def)
next
  case (RvCreateOffer p)
  then show ?thesis using assms(2,3) by (cases "rve_offer env") (auto simp: runViewer_step_def Let_def viewer_rank_def unwind_def)
next
  case (RvPost p ty sdp)
  then show ?thesis using assms(2,3)
    by (cases "PostMessage (rve_post env) (cm_client cfg) (marshal_viewerOffer ty sdp (id_of c i))")
      (auto simp: runViewer_step_def Let_def viewer_rank_def unwind_def)
next
  case RvNewPeer
  then show ?thesis using assms(2,3)
    by (auto simp: runViewer_step_def Let_def viewer_rank_def split: sum.splits)
qed (use assms(2-4) in \<open>auto simp: runViewer_step_def Let_def viewer_rank_def\<close>)

text \<open>The steps of one goroutine, with what Pion and the network answer at each of them.\<close>

fun viewer_iter :: "conn_config \<Rightarrow> (nat \<Rightarrow> viewer_env) \<Rightarrow> nat \<Rightarrow> nat \<Rightarrow> nat \<Rightarrow> conn_state \<Rightarrow> conn_state option" where
  "viewer_iter cfg envs i k 0 c = Some c"
| "viewer_iter cfg envs i k (Suc n) c = Option.bind (conn_step cfg (CViewer i (envs k)) c) (viewer_iter cfg envs i (Suc k) n)"

lemma viewer_iter_reachable: "conn_reachable cfg c \<Longrightarrow> viewer_iter cfg envs i k n c = Some c' \<Longrightarrow> conn_reachable cfg c'"
  by (induction n arbitrary: c k) (auto simp del: conn_step.simps split: bind_splits intro: conn_reachable.step)

lemma viewer_ends:
  "own_inv cfg c \<Longrightarrow> i < nthreads c \<Longrightarrow> cn_ctx c \<Longrightarrow>
   \<exists>n c'. viewer_iter cfg envs i k n c = Some c' \<and> pc_of c' i = RvDone \<and> nthreads c' = nthreads c"
proof (induction "viewer_rank c i" arbitrary: c k rule: wf_induct_rule [OF wf_lex_prod [OF wf_less_than wf_less_than]])
  case 1
  show ?case
  proof (cases "pc_of c i = RvDone")
    case True
    then show ?thesis by (intro exI [of _ 0]) simp
  next
    case False
    obtain c1 where c1: "runViewer_step cfg (envs k) i c = Some c1" "cn_ctx c1" "(viewer_rank c1 i, viewer_rank c i) \<in> less_than <*lex*> less_than"
      using viewer_progress [OF "1.prems" False] by blast
    have n1: "nthreads c1 = nthreads c" using viewer_threads [OF c1(1)] by blast
    obtain n c' where "viewer_iter cfg envs i (Suc k) n c1 = Some c'" "pc_of c' i = RvDone" "nthreads c' = nthreads c1"
      using "1.hyps" [OF c1(3) viewer_own_inv [OF c1(1) "1.prems"(2,1)], of "Suc k"] "1.prems"(2) c1(2) n1 by auto
    then show ?thesis using c1(1) "1.prems"(2) n1 by (intro exI [of _ "Suc n"] exI [of _ c']) simp
  qed
qed

text \<open>
  C20. Shutdown: once the context has ended, every viewer goroutine gets to its end by its own steps,
  whatever Pion and the network answer, and then its peer is closed and registered nowhere.
\<close>

theorem viewer_ends_after_cancel:
  assumes "conn_reachable cfg c" "i < nthreads c" "cn_ctx c"
  shows "\<exists>n c'. viewer_iter cfg envs i 0 n c = Some c' \<and> pc_of c' i = RvDone
    \<and> (\<forall>p < length (cn_peers c'). cn_owner c' ! p = i \<longrightarrow>
         p_close (cn_peers c' ! p) = CloseDone \<and> p \<notin> set (vr_sinks (cn_video c')) \<and> p \<notin> set (ar_sinks (cn_audio c')))"
proof -
  obtain n c' where c': "viewer_iter cfg envs i 0 n c = Some c'" "pc_of c' i = RvDone" "nthreads c' = nthreads c"
    using viewer_ends [OF own_inv_reachable [OF assms(1)] assms(2,3)] by blast
  have r: "conn_reachable cfg c'" by (rule viewer_iter_reachable [OF assms(1) c'(1)])
  have own: "own_inv cfg c'" and sinks: "sink_inv cfg c'" using r own_inv_reachable sink_inv_reachable by blast+
  have "p_close (cn_peers c' ! p) = CloseDone \<and> p \<notin> set (vr_sinks (cn_video c')) \<and> p \<notin> set (ar_sinks (cn_audio c'))"
    if "p < length (cn_peers c')" "cn_owner c' ! p = i" for p
    using left_nothing [OF own sinks _ c'(2) that] assms(2) c'(3) by simp
  then show ?thesis using c'(1,2) by blast
qed

section \<open>An example of two viewers\<close>

definition ex_conn_cfg :: conn_config where
  "ex_conn_cfg = \<lparr>cm_client = \<lparr>cl_base = ''http://h'', cl_room = ''r'', cl_token = []\<rparr>, cm_ice = [], cm_poll = Second, cm_audio = True, cm_gated = True\<rparr>"

definition ex_envl :: "string \<Rightarrow> string \<Rightarrow> string \<Rightarrow> string \<Rightarrow> json option" where
  "ex_envl k t sdp v = Some (JObj [(''kind'', JStr k), (''type'', JStr t), (''sdp'', JStr sdp), (''viewerId'', JStr v)])"

abbreviation "ex_hello \<equiv> ex_envl ''hello'' [] []"
abbreviation "ex_answer sdp \<equiv> ex_envl [] ''answer'' sdp"

definition ex_venv :: viewer_env where
  "ex_venv = \<lparr>rve_fails = (\<lambda>_. False), rve_offer = Some (''offer'', ''o''), rve_post = (\<lambda>_. HttpResponse 201 []), rve_prefers_ctx = False\<rparr>"

definition ex_steps :: "nat \<Rightarrow> nat \<Rightarrow> conn_action list" where
  "ex_steps n i = replicate n (CViewer i ex_venv)"

text \<open>Viewer \<open>a\<close> is served, viewer \<open>b\<close> comes, \<open>a\<close> disconnects and its goroutine ends.\<close>

definition ex_two :: "conn_action list" where
  "ex_two = [CMessage (ex_hello ''a'')] @ ex_steps 7 0 @ [CMessage (ex_answer ''x'' ''a''), CApply, CSetRemote, CMessage (ex_hello ''b'')]
     @ ex_steps 4 1 @ [CConnState 0 PCDisconnected] @ ex_steps 9 0"

definition ex_two_run :: "conn_state option" where
  "ex_two_run = conn_run ex_conn_cfg ex_two (conn_init None)"

lemma ex_two_reachable: "ex_two_run = Some c \<Longrightarrow> conn_reachable ex_conn_cfg c"
  unfolding ex_two_run_def by (rule conn_run_reachable [OF conn_reachable.init])

theorem viewer_sessions_safe_witness:
  "\<exists>c. ex_two_run = Some c \<and> map vt_pc (cn_threads c) = [RvDone, RvWireInput 1]
     \<and> set (vr_sinks (cn_video c)) = {1} \<and> p_close (cn_peers c ! 0) = CloseDone \<and> (\<forall>i. cn_sessions c ''b'' = Some i \<longrightarrow> i < nthreads c)"
proof -
  have h: "map_option (\<lambda>c. (map vt_pc (cn_threads c), vr_sinks (cn_video c), map p_close (cn_peers c))) ex_two_run =
      Some ([RvDone, RvWireInput 1], [1], [CloseDone, CloseNotCalled])" by code_simp
  then obtain c where c: "ex_two_run = Some c" "map vt_pc (cn_threads c) = [RvDone, RvWireInput 1]" "vr_sinks (cn_video c) = [1]"
    "map p_close (cn_peers c) = [CloseDone, CloseNotCalled]" by (cases ex_two_run) auto
  have 1: "p_close (cn_peers c ! 0) = CloseDone" using c(4) by (cases "cn_peers c") auto
  have 2: "set (vr_sinks (cn_video c)) = {1}" using c(3) by simp
  have 3: "\<forall>i. cn_sessions c ''b'' = Some i \<longrightarrow> i < nthreads c"
    using viewer_sessions_safe [OF ex_two_reachable [OF c(1)]] by blast
  show ?thesis by (intro exI [of _ c] conjI) (fact c(1) c(2) 1 2 3)+
qed

theorem answers_once_from_own_viewer_witness:
  "\<exists>c. ex_two_run = Some c \<and> cn_applied c = [(0, ''x'')] \<and> distinct (map fst (cn_applied c))"
proof -
  have "map_option cn_applied ex_two_run = Some [(0, ''x'')]" by code_simp
  then obtain c where c: "ex_two_run = Some c" "cn_applied c = [(0, ''x'')]" by (cases ex_two_run) auto
  then show ?thesis using answers_once_from_own_viewer [OF ex_two_reachable [OF c(1)]] by blast
qed

theorem viewer_ends_after_cancel_witness:
  "\<exists>c n c'. conn_run ex_conn_cfg (ex_two @ [CCancel]) (conn_init None) = Some c
     \<and> viewer_iter ex_conn_cfg (\<lambda>_. ex_venv) 1 0 n c = Some c' \<and> pc_of c' 1 = RvDone"
proof -
  have "map_option (\<lambda>c. (nthreads c, cn_ctx c)) (conn_run ex_conn_cfg (ex_two @ [CCancel]) (conn_init None)) = Some (2, True)" by code_simp
  then obtain c where c: "conn_run ex_conn_cfg (ex_two @ [CCancel]) (conn_init None) = Some c" "nthreads c = 2" "cn_ctx c"
    by (cases "conn_run ex_conn_cfg (ex_two @ [CCancel]) (conn_init None)") auto
  have r: "conn_reachable ex_conn_cfg c" by (rule conn_run_reachable [OF conn_reachable.init c(1)])
  have "1 < nthreads c" using c(2) by simp
  then show ?thesis using viewer_ends_after_cancel [OF r _ c(3), of 1 "\<lambda>_. ex_venv"] c(1) by blast
qed

section \<open>Replays\<close>

text \<open>What the feed goroutine does with one message when nobody intervenes.\<close>

definition dispatch :: "json option \<Rightarrow> conn_state \<Rightarrow> conn_state" where
  "dispatch payload c =
     (let c1 = handleFeedMessage payload c in
      case cn_feed c1 of
        FeedApply i env \<Rightarrow>
          (let c2 = applyAnswer i env c1 in
           case cn_feed c2 of
             FeedSetRemote p s \<Rightarrow> c2\<lparr>cn_applied := cn_applied c2 @ [(p, s)], cn_feed := FeedIdle\<rparr>
           | _ \<Rightarrow> c2)
      | _ \<Rightarrow> c1)"

text \<open>Messages a replay may contain: of a viewer whose live session has its answer, or nothing new.\<close>

definition already_handled :: "conn_state \<Rightarrow> json option \<Rightarrow> bool" where
  "already_handled c payload \<longleftrightarrow>
     (case decode_viewerEnvelope payload of
        None \<Rightarrow> True
      | Some env \<Rightarrow>
          ve_ViewerID env = [] \<or>
          (case cn_sessions c (ve_ViewerID env) of
             None \<Rightarrow> ve_Kind env \<noteq> ''hello''
           | Some i \<Rightarrow> vs_answered (cn_store c ! i)))"

lemma dispatch_handled:
  assumes "already_handled c payload" "cn_feed c = FeedIdle"
  shows "\<exists>xs. dispatch payload c = c\<lparr>cn_seen := xs\<rparr>"
proof -
  have "c\<lparr>cn_seen := cn_seen c\<rparr> = c" "c\<lparr>cn_feed := FeedIdle\<rparr> = c" using assms(2) by simp_all
  then show ?thesis
    using assms by (cases c) (auto simp: already_handled_def dispatch_def handleFeedMessage_def applyAnswer_def Let_def split: option.splits)
qed

text \<open>
  Replays: the Worker sends its whole backlog on every reconnect. Any sequence of messages of
  viewers whose live sessions have been answered leaves the sessions, goroutines, peers and routers as
  they are and hands no peer an answer.
\<close>

theorem replay_leaves_live_sessions:
  assumes "\<forall>m\<in>set msgs. already_handled c m" "cn_feed c = FeedIdle"
  shows "\<exists>xs. fold dispatch msgs c = c\<lparr>cn_seen := xs\<rparr>"
  using assms
proof (induction msgs arbitrary: c)
  case Nil
  have "c\<lparr>cn_seen := cn_seen c\<rparr> = c" by simp
  then show ?case by (metis fold_simps(1))
next
  case (Cons m msgs)
  obtain xs where xs: "dispatch m c = c\<lparr>cn_seen := xs\<rparr>" using dispatch_handled Cons.prems by (metis list.set_intros(1))
  have "already_handled (c\<lparr>cn_seen := xs\<rparr>) k = already_handled c k" for k
    by (simp add: already_handled_def split: option.splits)
  then obtain ys where "fold dispatch msgs (c\<lparr>cn_seen := xs\<rparr>) = c\<lparr>cn_seen := xs\<rparr>\<lparr>cn_seen := ys\<rparr>"
    using Cons.IH [of "c\<lparr>cn_seen := xs\<rparr>"] Cons.prems by auto
  then show ?case by (intro exI [of _ ys]) (simp add: xs)
qed

definition ex_served :: "conn_action list" where
  "ex_served = [CMessage (ex_hello ''a'')] @ ex_steps 7 0 @ [CMessage (ex_answer ''x'' ''a''), CApply, CSetRemote]"

theorem replay_leaves_live_sessions_witness:
  "\<exists>c xs. conn_run ex_conn_cfg ex_served (conn_init None) = Some c
     \<and> fold dispatch [ex_hello ''a'', ex_answer ''x'' ''a'', ex_answer ''z'' ''q''] c = c\<lparr>cn_seen := xs\<rparr>"
proof -
  have "map_option (\<lambda>c. list_all (already_handled c) [ex_hello ''a'', ex_answer ''x'' ''a'', ex_answer ''z'' ''q''] \<and> cn_feed c = FeedIdle)
      (conn_run ex_conn_cfg ex_served (conn_init None)) = Some True" by code_simp
  then obtain c where c: "conn_run ex_conn_cfg ex_served (conn_init None) = Some c"
    "list_all (already_handled c) [ex_hello ''a'', ex_answer ''x'' ''a'', ex_answer ''z'' ''q'']" "cn_feed c = FeedIdle"
    by (cases "conn_run ex_conn_cfg ex_served (conn_init None)") auto
  then show ?thesis using replay_leaves_live_sessions [OF _ c(3)] by (simp only: list_all_iff) blast
qed

text \<open>Viewer \<open>a\<close> is served and leaves; the replayed backlog starts a new session and answers its peer.\<close>

definition ex_stale :: "conn_action list" where
  "ex_stale = ex_served @ [CConnState 0 PCDisconnected] @ ex_steps 9 0
     @ [CMessage (ex_hello ''a'')] @ ex_steps 2 1 @ [CMessage (ex_answer ''x'' ''a''), CApply, CSetRemote]
     @ ex_steps 5 1 @ [CMessage (ex_answer ''fresh'' ''a''), CApply]"

text \<open>
  A replay after a session has ended is not harmless: in a reachable state a second session of the
  same viewer has been started by the replayed hello, its peer has been handed the answer of the old
  session before its own offer was posted, and the viewer's answer to the new offer is ignored.
\<close>

theorem replayed_answer_blocks_reconnect:
  "\<exists>c. conn_reachable ex_conn_cfg c \<and> map vt_id (cn_threads c) = [''a'', ''a''] \<and> map vt_pc (cn_threads c) = [RvDone, RvAwait 1]
     \<and> cn_applied c = [(0, ''x''), (1, ''x'')] \<and> ''fresh'' \<in> ve_SDP ` set (cn_seen c) \<and> cn_feed c = FeedIdle"
proof -
  let ?r = "conn_run ex_conn_cfg ex_stale (conn_init None)"
  have "map_option (\<lambda>c. (map vt_id (cn_threads c), map vt_pc (cn_threads c), cn_applied c, list_ex (\<lambda>env. ve_SDP env = ''fresh'') (cn_seen c), cn_feed c)) ?r =
      Some ([''a'', ''a''], [RvDone, RvAwait 1], [(0, ''x''), (1, ''x'')], True, FeedIdle)" by code_simp
  then obtain c where c: "?r = Some c" "map vt_id (cn_threads c) = [''a'', ''a'']" "map vt_pc (cn_threads c) = [RvDone, RvAwait 1]"
    "cn_applied c = [(0, ''x''), (1, ''x'')]" "list_ex (\<lambda>env. ve_SDP env = ''fresh'') (cn_seen c)" "cn_feed c = FeedIdle"
    by (cases ?r) auto
  have "''fresh'' \<in> ve_SDP ` set (cn_seen c)" using c(5) unfolding list_ex_iff by (metis image_eqI)
  moreover have "conn_reachable ex_conn_cfg c" by (rule conn_run_reachable [OF conn_reachable.init c(1)])
  ultimately show ?thesis using c(2-4,6) by (intro exI [of _ c] conjI)
qed

end
