(* ===== verification/WorkerProps.thy ===== *)
theory WorkerProps
  imports Connect RoomState "HOL-Library.Sublist"
begin

text \<open>
  The host's feed over the room of the Worker: over a WebSocket it sees a backlog and then every message
  of the viewers, over the long-poll fallback it can miss the answer to its own offer.
\<close>

section \<open>WebSocket\<close>

datatype room_event = EvPost SigPeer string json | EvGet nat SigPeer int bool | EvTimeout nat
  | EvSocket nat SigPeer | EvClose nat | EvAlarm

fun room_event_step :: "room_event \<Rightarrow> RoomDO \<Rightarrow> RoomDO" where
  "room_event_step (EvPost peer now payload) d = fst (handlePost peer now payload d)"
| "room_event_step (EvGet i peer since wait) d = handleGet i peer since wait d"
| "room_event_step (EvTimeout i) d = wait_timeout i d"
| "room_event_step (EvSocket i peer) d = handleWebSocket i peer d"
| "room_event_step (EvClose i) d = webSocketClose i d"
| "room_event_step EvAlarm d = room_alarm d"

text \<open>What the viewers post, with the numbers the room gives to it.\<close>

fun viewer_posts :: "room_event list \<Rightarrow> RoomDO \<Rightarrow> RoomMessage list" where
  "viewer_posts [] d = []"
| "viewer_posts (e # es) d =
     (case e of EvPost PeerViewer now payload \<Rightarrow> [snd (handlePost PeerViewer now payload d)] | _ \<Rightarrow> [])
     @ viewer_posts es (room_event_step e d)"

fun concerns_socket :: "nat \<Rightarrow> room_event \<Rightarrow> bool" where
  "concerns_socket i (EvSocket j peer) = (j = i)"
| "concerns_socket i (EvClose j) = (j = i)"
| "concerns_socket i _ = False"

definition frames_of :: "nat \<Rightarrow> RoomDO \<Rightarrow> RoomMessage list" where
  "frames_of i d = map snd (filter (\<lambda>(j, m). j = i) (rd_frames d))"

definition only_socket :: "nat \<Rightarrow> SigPeer \<Rightarrow> RoomDO \<Rightarrow> bool" where
  "only_socket i peer d \<longleftrightarrow> filter (\<lambda>(j, p). j = i) (rd_sockets d) = [(i, peer)]"

lemma filter_pairs: "filter (\<lambda>(j, m). j = i) (map (\<lambda>x. (k, f x)) xs) = (if k = i then map (\<lambda>x. (k, f x)) xs else [])"
  by (induction xs) auto

lemma frames_notify:
  "only_socket i peer d \<Longrightarrow> frames_of i (notify recipient msg d) = frames_of i d @ (if recipient = peer then [msg] else [])"
proof -
  assume o: "only_socket i peer d"
  have "map snd (filter (\<lambda>(j, m). j = i) (map (\<lambda>(j, p). (j, msg)) (filter (\<lambda>(j, p). p = recipient) ss))) =
      map (\<lambda>_. msg) (filter (\<lambda>(j, p). p = recipient) (filter (\<lambda>(j, p). j = i) ss))" for ss :: "(nat \<times> SigPeer) list"
    by (induction ss) auto
  then show ?thesis using o by (simp add: frames_of_def notify_def Let_def only_socket_def del: filter_filter)
qed

lemma room_event_socket:
  assumes "only_socket i PeerHost d" "\<not> concerns_socket i e"
  shows "only_socket i PeerHost (room_event_step e d) \<and> frames_of i (room_event_step e d) =
    frames_of i d @ (case e of EvPost PeerViewer now payload \<Rightarrow> [snd (handlePost PeerViewer now payload d)] | _ \<Rightarrow> [])"
proof (cases e)
  case (EvPost peer now payload)
  obtain s msg where a: "room_append peer now payload (rd_room d) = (s, msg)" by fastforce
  have o: "only_socket i PeerHost (d\<lparr>rd_room := s\<rparr>)" using assms(1) by (simp add: only_socket_def)
  have f: "frames_of i (d\<lparr>rd_room := s\<rparr>) = frames_of i d" by (simp add: frames_of_def)
  have "only_socket i PeerHost (notify r msg (d\<lparr>rd_room := s\<rparr>))" for r
    using assms(1) by (simp add: only_socket_def notify_def Let_def)
  then show ?thesis
    using EvPost a frames_notify [OF o] f by (cases peer) (simp_all add: handlePost_def)
next
  case (EvSocket j peer)
  then show ?thesis
    using assms by (auto simp: only_socket_def frames_of_def handleWebSocket_def filter_pairs [of i j "\<lambda>m. m", simplified])
next
  case (EvClose j)
  have "filter (\<lambda>x. (case x of (k, _) \<Rightarrow> k \<noteq> j) \<and> (case x of (k, p) \<Rightarrow> k = i)) ss = filter (\<lambda>(k, p). k = i) ss"
    if "j \<noteq> i" for ss :: "(nat \<times> SigPeer) list"
    using that by (intro filter_cong) auto
  then show ?thesis
    using assms EvClose by (simp add: only_socket_def frames_of_def webSocketClose_def conj_commute)
qed (use assms in \<open>auto simp: only_socket_def frames_of_def handleGet_def wait_timeout_def room_alarm_def split: prod.splits\<close>)

lemma frames_run:
  assumes "only_socket i PeerHost d" "\<forall>e\<in>set es. \<not> concerns_socket i e"
  shows "frames_of i (fold room_event_step es d) = frames_of i d @ viewer_posts es d"
  using assms
proof (induction es arbitrary: d)
  case (Cons e es)
  then show ?case using room_event_socket [of i d e] by simp
qed simp

text \<open>A socket that was never accepted has got nothing.\<close>

definition no_socket :: "nat \<Rightarrow> RoomDO \<Rightarrow> bool" where
  "no_socket i d \<longleftrightarrow> (\<forall>(j, p)\<in>set (rd_sockets d). j \<noteq> i) \<and> (\<forall>(j, m)\<in>set (rd_frames d). j \<noteq> i)"

lemma no_socket_step: "no_socket i d \<Longrightarrow> \<not> concerns_socket i e \<Longrightarrow> no_socket i (room_event_step e d)"
  by (cases e) (auto simp: no_socket_def handlePost_def notify_def Let_def handleGet_def wait_timeout_def handleWebSocket_def
      webSocketClose_def room_alarm_def split: prod.splits)

lemma no_socket_run:
  "no_socket i d \<Longrightarrow> \<forall>e\<in>set es. \<not> concerns_socket i e \<Longrightarrow> no_socket i (fold room_event_step es d)"
  by (induction es arbitrary: d) (simp_all add: no_socket_step)

section \<open>The backlog\<close>

text \<open>
  What removes a waiting message of a viewer from the queue: an offer to nobody in particular, an offer to
  that viewer, or the cleanup of a room without sockets. (A full queue also loses its oldest messages.)
\<close>

definition removes :: "json \<Rightarrow> room_event \<Rightarrow> RoomDO \<Rightarrow> bool" where
  "removes payload e d \<longleftrightarrow> (case e of
     EvPost PeerHost now offer \<Rightarrow>
       isOfferPayload offer \<and> (case payloadString offer ''to'' of None \<Rightarrow> True | Some to \<Rightarrow> payloadString payload ''viewerId'' = Some to)
   | EvAlarm \<Rightarrow> rd_sockets d = []
   | _ \<Rightarrow> False)"

fun spared :: "json \<Rightarrow> room_event list \<Rightarrow> RoomDO \<Rightarrow> bool" where
  "spared payload [] d = True"
| "spared payload (e # es) d = (\<not> removes payload e d \<and> spared payload es (room_event_step e d))"

definition viewer_post_event :: "room_event \<Rightarrow> bool" where
  "viewer_post_event e \<longleftrightarrow> (case e of EvPost PeerViewer _ _ \<Rightarrow> True | _ \<Rightarrow> False)"

text \<open>The queue of the viewers after an event: part of the old one, and the message if it is a viewer's post.\<close>

lemma viewer_queue_step:
  "subseq (rs_viewer (rd_room (room_event_step e d))) (rs_viewer (rd_room d) @ viewer_posts [e] d)"
proof (cases e)
  case (EvPost peer now payload)
  have "subseq (truncate_queue q @ [m]) (q @ [m])" for q and m :: RoomMessage
    by (simp add: truncate_queue_def suffix_imp_subseq suffix_drop)
  then show ?thesis using EvPost
    by (cases peer) (auto simp: handlePost_def room_append_def notify_def Let_def subseq_filter_left split: option.splits)
qed (auto simp: handleGet_def wait_timeout_def handleWebSocket_def webSocketClose_def room_alarm_def split: prod.splits)

lemma viewer_queue_run:
  "subseq (rs_viewer (rd_room (fold room_event_step es d))) (rs_viewer (rd_room d) @ viewer_posts es d)"
proof (induction es arbitrary: d)
  case (Cons e es)
  have "subseq (rs_viewer (rd_room (fold room_event_step (e # es) d)))
      (rs_viewer (rd_room (room_event_step e d)) @ viewer_posts es (room_event_step e d))"
    using Cons.IH [of "room_event_step e d"] by simp
  also have "subseq \<dots> ((rs_viewer (rd_room d) @ viewer_posts [e] d) @ viewer_posts es (room_event_step e d))"
    by (intro list_emb_append_mono viewer_queue_step) simp
  finally show ?case by simp
qed simp

text \<open>A message stays queued as long as nothing removes it and few enough are posted behind it.\<close>

definition queued_with :: "RoomMessage \<Rightarrow> nat \<Rightarrow> RoomDO \<Rightarrow> bool" where
  "queued_with m n d \<longleftrightarrow> (\<exists>before behind. rs_viewer (rd_room d) = before @ m # behind \<and> length behind + n < MAX_QUEUE_LENGTH)"

lemma queued_filter:
  assumes "queued_with m n d" "P m" "rs_viewer (rd_room d') = filter P (rs_viewer (rd_room d))"
  shows "queued_with m n d'"
proof -
  obtain b h where q: "rs_viewer (rd_room d) = b @ m # h" "length h + n < MAX_QUEUE_LENGTH"
    using assms(1) by (auto simp: queued_with_def)
  have "length (filter P h) + n < MAX_QUEUE_LENGTH" 
    using q(2) by (meson add_le_mono1 le_less_trans length_filter_le)
  then show ?thesis using q(1) assms(2,3) unfolding queued_with_def
    by (intro exI [of _ "filter P b"] exI [of _ "filter P h"]) simp
qed

lemma queued_post:
  assumes "queued_with m (Suc n) d" "rs_viewer (rd_room d') = truncate_queue (rs_viewer (rd_room d)) @ [x]"
  shows "queued_with m n d'"
proof -
  obtain b h where q: "rs_viewer (rd_room d) = b @ m # h" "length h + Suc n < MAX_QUEUE_LENGTH"
    using assms(1) by (auto simp: queued_with_def)
  let ?k = "length (b @ m # h) - (MAX_QUEUE_LENGTH - 1)"
  have "?k \<le> length b" using q(2) by simp
  then have "drop ?k (b @ m # h) = drop ?k b @ m # h" by simp
  then have "\<exists>b'. truncate_queue (rs_viewer (rd_room d)) = b' @ m # h" using q(1) by (auto simp: truncate_queue_def)
  then show ?thesis using q(2) assms(2) by (fastforce simp: queued_with_def)
qed

lemma queued_step:
  assumes q: "queued_with m (if viewer_post_event e then Suc n else n) d" and r: "\<not> removes (rm_payload m) e d"
  shows "queued_with m n (room_event_step e d)"
proof (cases e)
  case (EvPost peer now payload)
  show ?thesis
  proof (cases peer)
    case PeerViewer
    then show ?thesis using EvPost q
      by (intro queued_post [of m n d]) (auto simp: viewer_post_event_def handlePost_def room_append_def notify_def Let_def)
  next
    case PeerHost
    then have q': "queued_with m n d" using EvPost q by (simp add: viewer_post_event_def)
    show ?thesis
    proof (cases "isOfferPayload payload")
      case False
      then show ?thesis using q' EvPost PeerHost
        by (simp add: queued_with_def handlePost_def room_append_def notify_def Let_def)
    next
      case True
      then obtain to where to: "payloadString payload ''to'' = Some to" "payloadString (rm_payload m) ''viewerId'' \<noteq> Some to"
        using r EvPost PeerHost by (auto simp: removes_def split: option.splits)
      then show ?thesis using True EvPost PeerHost
        by (intro queued_filter [OF q', of "\<lambda>x. payloadString (rm_payload x) ''viewerId'' \<noteq> Some to"])
          (auto simp: handlePost_def room_append_def notify_def Let_def)
    qed
  qed
qed (use assms in \<open>auto simp: viewer_post_event_def removes_def queued_with_def handleGet_def wait_timeout_def handleWebSocket_def
  webSocketClose_def room_alarm_def split: prod.splits\<close>)

lemma queued_run:
  "queued_with m (length (filter viewer_post_event es)) d \<Longrightarrow> spared (rm_payload m) es d \<Longrightarrow>
   m \<in> set (rs_viewer (rd_room (fold room_event_step es d)))"
proof (induction es arbitrary: d)
  case (Cons e es)
  then have "queued_with m (length (filter viewer_post_event es)) (room_event_step e d)"
    by (intro queued_step) (auto split: if_splits)
  then show ?case using Cons.IH Cons.prems(2) by simp
qed (auto simp: queued_with_def)

text \<open>
  C28. What the WebSocket delivers. The host's socket is accepted in a room with any history (\<open>past\<close>). Its
  frames are a backlog and then every message the viewers post from then on, in order and without
  exception, whatever offers, resets, polls, other sockets and cleanups happen in between (\<open>es\<close>). The
  backlog consists of messages viewers posted before, in the order of their posts, and it contains every
  such message behind which fewer than 200 others were posted, unless it was removed: by an offer to
  everybody, by an offer to its own viewer, or by the cleanup of the room while no socket was open.
\<close>

theorem websocket_delivers_all:
  assumes "\<forall>e\<in>set (past @ es). \<not> concerns_socket i e" "d = fold room_event_step past room_init"
  shows "\<exists>backlog. frames_of i (fold room_event_step es (handleWebSocket i PeerHost d)) =
       backlog @ viewer_posts es (handleWebSocket i PeerHost d)
     \<and> subseq backlog (viewer_posts past room_init)
     \<and> (\<forall>older now payload newer d0 m. past = older @ EvPost PeerViewer now payload # newer \<longrightarrow>
          d0 = fold room_event_step older room_init \<longrightarrow> m = snd (handlePost PeerViewer now payload d0) \<longrightarrow>
          length (filter viewer_post_event newer) < 200 \<longrightarrow> spared payload newer (fst (handlePost PeerViewer now payload d0)) \<longrightarrow>
          m \<in> set backlog)"
proof -
  have n: "no_socket i d" using no_socket_run [of i room_init past] assms by (simp add: no_socket_def room_init_def)
  have s: "filter (\<lambda>(j, p). j = i) (rd_sockets d) = []" "frames_of i d = []"
    using n by (auto simp: no_socket_def frames_of_def filter_empty_conv)
  have o: "only_socket i PeerHost (handleWebSocket i PeerHost d)" using s(1) by (simp add: only_socket_def handleWebSocket_def)
  have "frames_of i (handleWebSocket i PeerHost d) = rs_viewer (rd_room d)"
    using s(2) filter_pairs [of i i "\<lambda>m. m"] by (simp add: frames_of_def handleWebSocket_def backlogFor_def comp_def)
  then have "frames_of i (fold room_event_step es (handleWebSocket i PeerHost d)) =
      rs_viewer (rd_room d) @ viewer_posts es (handleWebSocket i PeerHost d)"
    using frames_run [OF o, of es] assms(1) by simp
  moreover have "subseq (rs_viewer (rd_room d)) (viewer_posts past room_init)"
    using viewer_queue_run [of past room_init] by (simp add: assms(2) room_init_def)
  moreover have "m \<in> set (rs_viewer (rd_room d))"
    if "past = older @ EvPost PeerViewer now payload # newer" "d0 = fold room_event_step older room_init"
      "m = snd (handlePost PeerViewer now payload d0)" "length (filter viewer_post_event newer) < 200"
      "spared payload newer (fst (handlePost PeerViewer now payload d0))" for older now payload newer d0 m
  proof -
    have "queued_with m (length (filter viewer_post_event newer)) (fst (handlePost PeerViewer now payload d0)) \<and> rm_payload m = payload"
      using that(3,4) by (fastforce simp: queued_with_def MAX_QUEUE_LENGTH_def handlePost_def room_append_def notify_def Let_def)
    then show ?thesis using queued_run that(1,2,5) by (simp add: assms(2))
  qed
  ultimately show ?thesis by blast
qed

section \<open>Long poll\<close>

text \<open>What the browser posts: its hello, and its answer to an offer.\<close>

definition viewer_hello :: "string \<Rightarrow> json" where
  "viewer_hello vid = JObj [(''kind'', JStr ''hello''), (''viewerId'', JStr vid)]"

definition viewer_answer :: "string \<Rightarrow> string \<Rightarrow> json" where
  "viewer_answer sdp vid = JObj [(''type'', JStr ''answer''), (''sdp'', JStr sdp), (''viewerId'', JStr vid)]"

definition ex_room_events :: "room_event list" where
  "ex_room_events = [EvPost PeerViewer ''t0'' (viewer_hello ''a''), EvPost PeerHost ''t1'' (marshal_viewerOffer ''offer'' ''o'' ''a''), EvAlarm,
     EvGet 3 PeerHost 0 True, EvPost PeerViewer ''t2'' (viewer_answer ''x'' ''a''), EvSocket 8 PeerViewer]"

text \<open>Two viewers say hello, the first one is sent an offer, and then the host opens its socket.\<close>

definition ex_room_past :: "room_event list" where
  "ex_room_past = [EvPost PeerViewer ''t0'' (viewer_hello ''a''), EvPost PeerViewer ''t0'' (viewer_hello ''b''),
     EvPost PeerHost ''t0'' (marshal_viewerOffer ''offer'' ''o'' ''a'')]"

theorem websocket_delivers_all_witness:
  "\<exists>backlog. frames_of 5 (fold room_event_step ex_room_events (handleWebSocket 5 PeerHost (fold room_event_step ex_room_past room_init))) =
       backlog @ [\<lparr>rm_seq = 2, rm_ts = ''t0'', rm_payload = viewer_hello ''a''\<rparr>, \<lparr>rm_seq = 2, rm_ts = ''t2'', rm_payload = viewer_answer ''x'' ''a''\<rparr>]
     \<and> \<lparr>rm_seq = 1, rm_ts = ''t0'', rm_payload = viewer_hello ''b''\<rparr> \<in> set backlog"
proof -
  let ?d = "fold room_event_step ex_room_past room_init"
  have c: "\<forall>e\<in>set (ex_room_past @ ex_room_events). \<not> concerns_socket 5 e" by (simp add: ex_room_past_def ex_room_events_def)
  have p: "viewer_posts ex_room_events (handleWebSocket 5 PeerHost ?d) =
     [\<lparr>rm_seq = 2, rm_ts = ''t0'', rm_payload = viewer_hello ''a''\<rparr>, \<lparr>rm_seq = 2, rm_ts = ''t2'', rm_payload = viewer_answer ''x'' ''a''\<rparr>]"
    by code_simp
  let ?older = "[EvPost PeerViewer ''t0'' (viewer_hello ''a'')]" and ?newer = "[EvPost PeerHost ''t0'' (marshal_viewerOffer ''offer'' ''o'' ''a'')]"
  let ?before = "fold room_event_step ?older room_init"
  have e: "ex_room_past = ?older @ EvPost PeerViewer ''t0'' (viewer_hello ''b'') # ?newer" by (simp add: ex_room_past_def)
  have m: "\<lparr>rm_seq = 1, rm_ts = ''t0'', rm_payload = viewer_hello ''b''\<rparr> = snd (handlePost PeerViewer ''t0'' (viewer_hello ''b'') ?before)"
    by code_simp
  have n: "length (filter viewer_post_event ?newer) < 200" by code_simp
  have sp: "spared (viewer_hello ''b'') ?newer (fst (handlePost PeerViewer ''t0'' (viewer_hello ''b'') ?before))" by code_simp
  obtain backlog where b: "frames_of 5 (fold room_event_step ex_room_events (handleWebSocket 5 PeerHost ?d)) =
       backlog @ viewer_posts ex_room_events (handleWebSocket 5 PeerHost ?d)"
    "\<And>older now payload newer d0 m. ex_room_past = older @ EvPost PeerViewer now payload # newer \<Longrightarrow>
          d0 = fold room_event_step older room_init \<Longrightarrow> m = snd (handlePost PeerViewer now payload d0) \<Longrightarrow>
          length (filter viewer_post_event newer) < 200 \<Longrightarrow> spared payload newer (fst (handlePost PeerViewer now payload d0)) \<Longrightarrow>
          m \<in> set backlog"
    using websocket_delivers_all [OF c refl] by blast
  show ?thesis using b(1) b(2) [OF e refl m n sp] unfolding p by blast
qed

definition after_hello :: "string \<Rightarrow> string \<Rightarrow> RoomDO" where
  "after_hello t0 vid = fst (handlePost PeerViewer t0 (viewer_hello vid) room_init)"

definition after_offer :: "string \<Rightarrow> string \<Rightarrow> string \<Rightarrow> string \<Rightarrow> RoomDO" where
  "after_offer t0 t1 offer vid = fst (handlePost PeerHost t1 (marshal_viewerOffer ''offer'' offer vid) (after_hello t0 vid))"

text \<open>The answer arrives while the host holds a long poll numbered \<open>i\<close>, its cursor after the hello.\<close>

definition after_answer :: "string \<Rightarrow> string \<Rightarrow> string \<Rightarrow> string \<Rightarrow> string \<Rightarrow> string \<Rightarrow> nat \<Rightarrow> RoomDO" where
  "after_answer t0 t1 t2 offer sdp vid i =
     fst (handlePost PeerViewer t2 (viewer_answer sdp vid) (handleGet i PeerHost 0 True (after_offer t0 t1 offer vid)))"

lemmas room_defs = handlePost_def room_append_def truncate_queue_def MAX_QUEUE_LENGTH_def next_seq_def notify_def Let_def
  isOfferPayload_def payloadString_def room_init_def handleGet_def room_poll_def

lemma after_hello_room:
  "rd_room (after_hello t0 vid) = \<lparr>rs_host = [], rs_viewer = [\<lparr>rm_seq = 0, rm_ts = t0, rm_payload = viewer_hello vid\<rparr>]\<rparr>"
  by (simp add: after_hello_def room_defs)

lemma after_offer_room:
  "vid \<noteq> [] \<Longrightarrow> after_offer t0 t1 offer vid =
     room_init\<lparr>rd_room := \<lparr>rs_host = [\<lparr>rm_seq = 0, rm_ts = t1, rm_payload = marshal_viewerOffer ''offer'' offer vid\<rparr>], rs_viewer = []\<rparr>\<rparr>"
  by (simp add: after_offer_def after_hello_def room_defs marshal_viewerOffer_def viewer_hello_def)

lemma after_answer_room:
  assumes "vid \<noteq> []"
  shows "rs_viewer (rd_room (after_answer t0 t1 t2 offer sdp vid i)) = [\<lparr>rm_seq = 0, rm_ts = t2, rm_payload = viewer_answer sdp vid\<rparr>]
    \<and> rd_waiters (after_answer t0 t1 t2 offer sdp vid i) = [(i, PeerHost, 0)] \<and> rd_answered (after_answer t0 t1 t2 offer sdp vid i) = []"
  unfolding after_answer_def after_offer_room [OF assms] by (simp add: room_defs)

text \<open>
  C21. The long-poll fallback misses the answer. In a room with one viewer, for any names and
  descriptions: the host's first poll returns the hello and moves its cursor to 0, the host's offer to
  that viewer empties the viewer queue, and so the viewer's answer gets number 0 again. It does not
  wake the held poll, and no poll of the host returns it: however many follow, the feed of the host
  consists of the hello.
\<close>

theorem longpoll_misses_answer:
  assumes "vid \<noteq> []" "int_json (viewer_hello vid)"
    and "po_net r1 (fst (poll_request cl PeerHost (- 1) longPollWait)) =
           HttpResponse StatusOK (poll_body (room_poll PeerHost (- 1) (rd_room (after_hello t0 vid))))"
    and "po_net r2 (fst (poll_request cl PeerHost 0 longPollWait)) =
           HttpResponse StatusOK (poll_body (room_poll PeerHost 0 (rd_room (after_answer t0 t1 t2 offer sdp vid i))))"
    and "\<not> po_ctx r1" "\<not> po_ctx r2" "po_slept r2"
  shows "runFeedLongPoll cl (r1 # replicate n r2) =
      ([\<lparr>sm_Seq = 0, sm_Ts = t0, sm_Payload = Some (viewer_hello vid)\<rparr>], FeedRunning)
   \<and> rs_viewer (rd_room (after_answer t0 t1 t2 offer sdp vid i)) = [\<lparr>rm_seq = 0, rm_ts = t2, rm_payload = viewer_answer sdp vid\<rparr>]
   \<and> rd_answered (after_answer t0 t1 t2 offer sdp vid i) = []"
proof -
  have "room_poll PeerHost (- 1) (rd_room (after_hello t0 vid)) = ([\<lparr>rm_seq = 0, rm_ts = t0, rm_payload = viewer_hello vid\<rparr>], 0)"
    by (simp add: after_hello_room room_poll_def)
  then have 1: "PollWait (po_net r1) cl PeerHost (- 1) longPollWait =
      ([\<lparr>sm_Seq = 0, sm_Ts = t0, sm_Payload = Some (viewer_hello vid)\<rparr>], 0, None)"
    using PollWait_room [of "po_net r1" cl PeerHost "- 1" longPollWait "[\<lparr>rm_seq = 0, rm_ts = t0, rm_payload = viewer_hello vid\<rparr>]" 0] assms(2,3)
    by (simp add: wire_message_def to_message_def in_int64_def int64_min_def int64_max_def)
  have "room_poll PeerHost 0 (rd_room (after_answer t0 t1 t2 offer sdp vid i)) = ([], 0)"
    using after_answer_room [OF assms(1)] by (simp add: room_poll_def)
  then have 2: "PollWait (po_net r2) cl PeerHost 0 longPollWait = ([], 0, None)"
    using PollWait_room [of "po_net r2" cl PeerHost 0 longPollWait "[]" 0] assms(4)
    by (simp add: in_int64_def int64_min_def int64_max_def)
  have "longpoll_loop cl (replicate n r2) 0 = ([], FeedRunning)"
    by (induction n) (simp_all add: 2 assms(6,7))
  then show ?thesis using 1 assms(5) after_answer_room [OF assms(1)] by (simp add: runFeedLongPoll_def)
qed

definition ex_cl :: SigClient where
  "ex_cl = \<lparr>cl_base = ''http://h'', cl_room = ''r'', cl_token = []\<rparr>"

definition ex_net :: "HttpRequest \<Rightarrow> HttpResult" where
  "ex_net r = HttpResponse StatusOK
     (if hr_URL r = ''http://h/rooms/r/host?since=-1&wait=25'' then poll_body (room_poll PeerHost (- 1) (rd_room (after_hello ''t0'' ''a'')))
      else poll_body (room_poll PeerHost 0 (rd_room (after_answer ''t0'' ''t1'' ''t2'' ''o'' ''x'' ''a'' 3))))"

definition ex_round :: poll_round where
  "ex_round = \<lparr>po_ctx = False, po_net = ex_net, po_ctx_after = False, po_elapsed = 0, po_slept = True\<rparr>"

theorem longpoll_misses_answer_witness:
  "runFeedLongPoll ex_cl (ex_round # replicate 40 ex_round) = ([\<lparr>sm_Seq = 0, sm_Ts = ''t0'', sm_Payload = Some (viewer_hello ''a'')\<rparr>], FeedRunning)"
proof -
  have u: "hr_URL (fst (poll_request ex_cl PeerHost (- 1) longPollWait)) = ''http://h/rooms/r/host?since=-1&wait=25''"
    "hr_URL (fst (poll_request ex_cl PeerHost 0 longPollWait)) = ''http://h/rooms/r/host?since=0&wait=25''" by code_simp+
  have "int_json (viewer_hello ''a'')" by (simp add: viewer_hello_def)
  moreover have "po_net ex_round (fst (poll_request ex_cl PeerHost (- 1) longPollWait)) =
      HttpResponse StatusOK (poll_body (room_poll PeerHost (- 1) (rd_room (after_hello ''t0'' ''a''))))"
    "po_net ex_round (fst (poll_request ex_cl PeerHost 0 longPollWait)) =
      HttpResponse StatusOK (poll_body (room_poll PeerHost 0 (rd_room (after_answer ''t0'' ''t1'' ''t2'' ''o'' ''x'' ''a'' 3))))"
    by (simp_all add: ex_round_def ex_net_def u)
  ultimately show ?thesis
    using longpoll_misses_answer [of "''a''" ex_round ex_cl "''t0''" ex_round "''t1''" "''t2''" "''o''" "''x''" 3 40]
    by (simp add: ex_round_def)
qed

end
