(* ===== verification/Host.thy ===== *)
theory Host
  imports Connect Synthetic V4l2 Nxbt
begin

text \<open>
  The host process (\<^verbatim>\<open>playgate-host/internal/host/deps.go\<close> and \<^verbatim>\<open>host.go\<close>): the construction of the
  modules from a configuration, the latency tap and the encoder wrapper as goroutines around the
  encoder, the set of modules that \<^verbatim>\<open>Run\<close> starts, and how their results become its result.
\<close>

section \<open>Building the modules\<close>

datatype capture_module = SyntheticCapture SynthSource | V4L2Capture V4l2Source

datatype input_module = NxbtInput NxbtTarget | LogInput LogTarget

datatype deps_error = DepSynthetic synth_error | DepFormat string | DepV4L2 capture_config_error | DepUnknownCapture string
  | DepCodec string | DepEncoder enc_error | DepUnknownInput string | DepSession key_error

fun capture_Frames :: "capture_module \<Rightarrow> VideoFrame chan" where
  "capture_Frames (SyntheticCapture s) = ss_frames s"
| "capture_Frames (V4L2Capture s) = vs_frames s"

definition buildCapture :: "HostConfig \<Rightarrow> deps_error + capture_module" where
  "buildCapture cfg =
     (let c = hc_Capture cfg in
      if CaptureSourceKind cfg = CaptureSynthetic
      then map_sum DepSynthetic SyntheticCapture
             (synth_New \<lparr>sc_Width = CaptureConfig.cc_Width c, sc_Height = CaptureConfig.cc_Height c, sc_FPS = CaptureConfig.cc_FPS c\<rparr>)
      else if CaptureSourceKind cfg = CaptureV4L2
      then (case ParsePixelFormat (cc_Format c) of
              None \<Rightarrow> Inl (DepFormat (cc_Format c))
            | Some pixfmt \<Rightarrow>
                map_sum DepV4L2 V4L2Capture
                  (v4l2_New \<lparr>V4l2Config.cc_Device = CaptureConfig.cc_Device c, cc_Width = CaptureConfig.cc_Width c,
                     cc_Height = CaptureConfig.cc_Height c, cc_FPS = CaptureConfig.cc_FPS c, cc_PreferredFormats = [pixfmt]\<rparr>))
      else Inl (DepUnknownCapture (CaptureSourceKind cfg)))"

definition buildInput :: "HostConfig \<Rightarrow> Collector \<Rightarrow> deps_error + input_module" where
  "buildInput cfg mc =
     (if InputTargetKind cfg = InputLog then Inr (LogInput (logtarget_New 60))
      else if InputTargetKind cfg = InputNXBT
      then Inr (NxbtInput (nxbt_New [WithRateHz (inc_RateHz (hc_Input cfg)), WithLatencyHistogram (Some (col_Input mc)),
             WithDaemonHistogram (Some (col_DaemonApply mc))]))
      else Inl (DepUnknownInput (InputTargetKind cfg)))"

definition buildAudio :: "HostConfig \<Rightarrow> OpusSource option" where
  "buildAudio cfg =
     (let a = hc_Audio cfg in
      if \<not> auc_Enabled a then None
      else Some (opus_New \<lparr>oc_FFmpegPath = (if auc_FFmpegPath a = [] then ec_FFmpegPath (hc_Encoder cfg) else auc_FFmpegPath a),
             oc_Device = auc_Device a, oc_SampleRate = auc_SampleRate a, oc_Channels = auc_Channels a, oc_Bitrate = auc_Bitrate a\<rparr>))"

definition buildSession :: "(string \<Rightarrow> string option) \<Rightarrow> HostConfig \<Rightarrow> deps_error + Manager option" where
  "buildSession readFile cfg =
     (let s = hc_Session cfg in
      if \<not> sc_Enabled s then Inr None
      else case loadPublicKey readFile (sc_PublicKeyBase64 s) (sc_PublicKeyFile s) of
             Inl e \<Rightarrow> Inl (DepSession e)
           | Inr pk \<Rightarrow>
               Inr (Some (NewManager \<lparr>cfg_RoomID = sgc_RoomID (hc_Signaling cfg), cfg_IdleTimeout = seconds (sc_IdleTimeoutSeconds s),
                  cfg_TickInterval = 0, cfg_QueuePolicy = PolicyQueue, cfg_MaxQueueDepth = 0\<rparr> pk)))"

text \<open>
  The probe for the configured codec. It only logs: the outcome is what is logged, and \<open>probe\<close> is the
  list of encoders ffmpeg reports, if it could be run.
\<close>

datatype codec_probe = ProbeSkipped | ProbeMissing | ProbeAvailable

definition detectCodec :: "string list option \<Rightarrow> string \<Rightarrow> codec_probe" where
  "detectCodec probe codecName =
     (case probe of
        None \<Rightarrow> ProbeSkipped
      | Some avail \<Rightarrow> (case DetectCodec codecName avail of Some e \<Rightarrow> ProbeMissing | None \<Rightarrow> ProbeAvailable))"

definition encoder_options :: "HostConfig \<Rightarrow> PixelFormat \<Rightarrow> Codec \<Rightarrow> Options" where
  "encoder_options cfg pixfmt codec =
     (let c = hc_Capture cfg; e = hc_Encoder cfg in
      (DefaultOptions (CaptureConfig.cc_Width c) (CaptureConfig.cc_Height c) (CaptureConfig.cc_FPS c) pixfmt)
        \<lparr>o_FFmpegPath := ec_FFmpegPath e, o_Bitrate := ec_Bitrate e, o_Preset := ec_Preset e,
         o_GOPSize := ec_KeyframeInterval e, o_Codec := Some codec\<rparr>)"

record Deps =
  dp_Capture :: capture_module
  dp_Encoder :: Encoder
  dp_Audio :: "OpusSource option"
  dp_Input :: input_module
  dp_Session :: "Manager option"
  dp_Probe :: codec_probe

definition buildDeps :: "(string \<Rightarrow> string option) \<Rightarrow> string list option \<Rightarrow> HostConfig \<Rightarrow> Collector \<Rightarrow> deps_error + Deps" where
  "buildDeps readFile probe cfg mc =
     (case buildCapture cfg of
        Inl e \<Rightarrow> Inl e
      | Inr capture \<Rightarrow>
          (case ParsePixelFormat (cc_Format (hc_Capture cfg)) of
             None \<Rightarrow> Inl (DepFormat (cc_Format (hc_Capture cfg)))
           | Some pixfmt \<Rightarrow>
               (case CodecFromName (EncoderCodecKind cfg) (ec_VAAPIDevice (hc_Encoder cfg)) of
                  Inl name \<Rightarrow> Inl (DepCodec name)
                | Inr codec \<Rightarrow>
                    (case Encoder_New (encoder_options cfg pixfmt codec) of
                       Inl e \<Rightarrow> Inl (DepEncoder e)
                     | Inr enc \<Rightarrow>
                         (case buildInput cfg mc of
                            Inl e \<Rightarrow> Inl e
                          | Inr input \<Rightarrow>
                              (case buildSession readFile cfg of
                                 Inl e \<Rightarrow> Inl e
                               | Inr mgr \<Rightarrow>
                                   Inr \<lparr>dp_Capture = capture, dp_Encoder = enc, dp_Audio = buildAudio cfg, dp_Input = input,
                                        dp_Session = mgr, dp_Probe = detectCodec probe (EncoderCodecKind cfg)\<rparr>))))))"

section \<open>The latency tap and the encoder wrapper\<close>

text \<open>
  The goroutines around the encoder: the tap takes frames from the capture channel to the encoder, the
  wrapper takes packets from the encoder to its own channel, and it returns when both the tap and the
  encoder have. \<open>pl_ctx\<close> is the context of the host; \<open>pl_in\<close> is the channel of the capture source. The
  lists \<open>pl_entered\<close>, \<open>pl_emerged\<close> and \<open>pl_taken\<close> record the frames the tap received, the packets the
  wrapper received, and those the router has taken.
\<close>

datatype tap_pc = TapSelect | TapSend VideoFrame | TapDone

datatype wrap_pc = WrapSelect | WrapSend EncodedPacket | WrapWait | WrapDone

record pipeline =
  pl_ctx :: bool
  pl_now :: instant
  pl_in :: "VideoFrame chan"
  pl_tap :: tap_pc
  pl_lastEnter :: "instant option"
  pl_tapOut :: "VideoFrame chan"
  pl_encoding :: bool
  pl_packets :: "EncodedPacket chan"
  pl_wrap :: wrap_pc
  pl_out :: "EncodedPacket chan"
  pl_metrics :: "Collector option"
  pl_entered :: "VideoFrame list"
  pl_emerged :: "EncodedPacket list"
  pl_taken :: "EncodedPacket list"

definition newPipeline :: "VideoFrame chan \<Rightarrow> Collector option \<Rightarrow> instant \<Rightarrow> pipeline" where
  "newPipeline frames mc now =
     \<lparr>pl_ctx = False, pl_now = now, pl_in = frames, pl_tap = TapSelect, pl_lastEnter = None, pl_tapOut = make_chan 4,
      pl_encoding = True, pl_packets = make_chan packetBufferSize, pl_wrap = WrapSelect, pl_out = make_chan 4, pl_metrics = mc,
      pl_entered = [], pl_emerged = [], pl_taken = []\<rparr>"

text \<open>\<^verbatim>\<open>time.Time{}\<close>, the first second of the year 1, in nanoseconds since 1970.\<close>

definition zero_time :: instant where
  "zero_time = - 62135596800 * Second"

definition observe_capture :: "instant \<Rightarrow> VideoFrame \<Rightarrow> Collector \<Rightarrow> Collector" where
  "observe_capture now f c =
     (if vf_Timestamp f = zero_time then c else c\<lparr>col_Capture := Histogram_Observe (wrap64 (now - vf_Timestamp f)) (col_Capture c)\<rparr>)"

definition observe_encode :: "instant \<Rightarrow> instant option \<Rightarrow> Collector \<Rightarrow> Collector" where
  "observe_encode now enter c =
     (case enter of None \<Rightarrow> c | Some t \<Rightarrow> c\<lparr>col_Encode := Histogram_Observe (wrap64 (now - t)) (col_Encode c)\<rparr>)"

definition tap_return :: "pipeline \<Rightarrow> pipeline" where
  "tap_return s = s\<lparr>pl_tap := TapDone, pl_tapOut := close_chan (pl_tapOut s)\<rparr>"

text \<open>One round of \<^verbatim>\<open>latencyTap.run\<close>: its first \<^verbatim>\<open>select\<close> without the context, and its second one.\<close>

definition tap_receive :: "pipeline \<Rightarrow> pipeline option" where
  "tap_receive s =
     (if pl_tap s \<noteq> TapSelect then None
      else case ch_buf (pl_in s) of
             f # rest \<Rightarrow>
               Some (s\<lparr>pl_in := (pl_in s)\<lparr>ch_buf := rest\<rparr>, pl_metrics := map_option (observe_capture (pl_now s) f) (pl_metrics s),
                       pl_lastEnter := Some (pl_now s), pl_tap := TapSend f, pl_entered := pl_entered s @ [f]\<rparr>)
           | [] \<Rightarrow> if ch_closed (pl_in s) then Some (tap_return s) else None)"

definition tap_forward :: "pipeline \<Rightarrow> pipeline option" where
  "tap_forward s =
     (case pl_tap s of
        TapSend f \<Rightarrow> if can_send (pl_tapOut s) then Some (s\<lparr>pl_tapOut := try_send f (pl_tapOut s), pl_tap := TapSelect\<rparr>) else None
      | _ \<Rightarrow> None)"

definition tap_cancelled :: "pipeline \<Rightarrow> pipeline option" where
  "tap_cancelled s = (if pl_ctx s \<and> pl_tap s \<noteq> TapDone then Some (tap_return s) else None)"

text \<open>The loop of \<^verbatim>\<open>encoderWrapper.Run\<close>.\<close>

definition wrap_receive :: "pipeline \<Rightarrow> pipeline option" where
  "wrap_receive s =
     (if pl_wrap s \<noteq> WrapSelect then None
      else case ch_buf (pl_packets s) of
             pkt # rest \<Rightarrow>
               Some (s\<lparr>pl_packets := (pl_packets s)\<lparr>ch_buf := rest\<rparr>, pl_wrap := WrapSend pkt, pl_emerged := pl_emerged s @ [pkt],
                       pl_metrics := map_option (observe_encode (pl_now s) (pl_lastEnter s)) (pl_metrics s)\<rparr>)
           | [] \<Rightarrow> if ch_closed (pl_packets s) then Some (s\<lparr>pl_wrap := WrapWait\<rparr>) else None)"

definition wrap_forward :: "pipeline \<Rightarrow> pipeline option" where
  "wrap_forward s =
     (case pl_wrap s of
        WrapSend pkt \<Rightarrow> if can_send (pl_out s) then Some (s\<lparr>pl_out := try_send pkt (pl_out s), pl_wrap := WrapSelect\<rparr>) else None
      | _ \<Rightarrow> None)"

text \<open>When the context has ended a packet that cannot be sent is dropped, and the loop ends.\<close>

definition wrap_cancelled :: "pipeline \<Rightarrow> pipeline option" where
  "wrap_cancelled s =
     (if \<not> pl_ctx s then None
      else case pl_wrap s of
             WrapSelect \<Rightarrow> Some (s\<lparr>pl_wrap := WrapWait\<rparr>)
           | WrapSend pkt \<Rightarrow> Some (s\<lparr>pl_wrap := WrapSelect\<rparr>)
           | _ \<Rightarrow> None)"

definition wrap_join :: "pipeline \<Rightarrow> pipeline option" where
  "wrap_join s =
     (if pl_wrap s = WrapWait \<and> pl_tap s = TapDone \<and> \<not> pl_encoding s
      then Some (s\<lparr>pl_wrap := WrapDone, pl_out := close_chan (pl_out s)\<rparr>) else None)"

text \<open>
  The neighbours: the capture source puts frames into its channel or closes it, the encoder takes
  frames, puts out packets and returns (after which its channel is closed), and the router takes packets.
\<close>

datatype pipe_action = PCapture VideoFrame | PCaptureEnds | PTapReceive | PTapForward | PTapCancelled
  | PEncoderTakes | PEncoderEmits EncodedPacket | PEncoderReturns
  | PWrapReceive | PWrapForward | PWrapCancelled | PWrapJoin | PRouterTakes | PCancel | PTick instant

fun pipe_step :: "pipe_action \<Rightarrow> pipeline \<Rightarrow> pipeline option" where
  "pipe_step (PCapture f) s = (if ch_closed (pl_in s) then None else Some (s\<lparr>pl_in := send_drop_oldest f (pl_in s)\<rparr>))"
| "pipe_step PCaptureEnds s = (if ch_closed (pl_in s) then None else Some (s\<lparr>pl_in := close_chan (pl_in s)\<rparr>))"
| "pipe_step PTapReceive s = tap_receive s"
| "pipe_step PTapForward s = tap_forward s"
| "pipe_step PTapCancelled s = tap_cancelled s"
| "pipe_step PEncoderTakes s =
     (if pl_encoding s \<and> ch_buf (pl_tapOut s) \<noteq> [] then Some (s\<lparr>pl_tapOut := drop_one (pl_tapOut s)\<rparr>) else None)"
| "pipe_step (PEncoderEmits pkt) s = (if pl_encoding s then Some (s\<lparr>pl_packets := push_packet pkt (pl_packets s)\<rparr>) else None)"
| "pipe_step PEncoderReturns s =
     (if pl_encoding s then Some (s\<lparr>pl_encoding := False, pl_packets := close_chan (pl_packets s)\<rparr>) else None)"
| "pipe_step PWrapReceive s = wrap_receive s"
| "pipe_step PWrapForward s = wrap_forward s"
| "pipe_step PWrapCancelled s = wrap_cancelled s"
| "pipe_step PWrapJoin s = wrap_join s"
| "pipe_step PRouterTakes s =
     (case ch_buf (pl_out s) of
        [] \<Rightarrow> None
      | pkt # rest \<Rightarrow> Some (s\<lparr>pl_out := (pl_out s)\<lparr>ch_buf := rest\<rparr>, pl_taken := pl_taken s @ [pkt]\<rparr>))"
| "pipe_step PCancel s = Some (s\<lparr>pl_ctx := True\<rparr>)"
| "pipe_step (PTick d) s = (if 0 \<le> d then Some (s\<lparr>pl_now := pl_now s + d\<rparr>) else None)"

fun pipe_run :: "pipe_action list \<Rightarrow> pipeline \<Rightarrow> pipeline option" where
  "pipe_run [] s = Some s"
| "pipe_run (a # as) s = Option.bind (pipe_step a s) (pipe_run as)"

section \<open>Running the modules\<close>

text \<open>The goroutines of \<^verbatim>\<open>Host.Run\<close>, in the order it starts them.\<close>

datatype host_module = RunCapture | RunEncoder | RunInput | DrainErrors | RunVideoRouter | RunAudio | RunAudioRouter
  | DrainStatus | RunReporter duration | RunMetricsEndpoint string | RunSession | RunHeartbeat bool | RunConnect

definition host_modules :: "HostConfig \<Rightarrow> bool \<Rightarrow> bool \<Rightarrow> host_module list" where
  "host_modules cfg hasAudio hasSession =
     [RunCapture, RunEncoder, RunInput, DrainErrors, RunVideoRouter]
   @ (if hasAudio then [RunAudio, RunAudioRouter] else [])
   @ [DrainStatus, RunReporter (seconds (mc_ReportIntervalSeconds (hc_Metrics cfg)))]
   @ (if mc_ListenAddr (hc_Metrics cfg) \<noteq> [] then [RunMetricsEndpoint (mc_ListenAddr (hc_Metrics cfg))] else [])
   @ (if hasSession then [RunSession] else [])
   @ (if svc_URL (hc_Server cfg) \<noteq> [] then [RunHeartbeat hasSession] else [])
   @ [RunConnect]"

text \<open>
  The result of \<^verbatim>\<open>Run\<close>: of the modules' results, in the order they return, the group keeps the first
  error; it is not reported when it is the context's own or when the caller ended the context.
\<close>

datatype host_error = StartCaptureFailed | ContextCanceled | ModuleFailed host_module string

definition Host_Run :: "bool \<Rightarrow> host_error option list \<Rightarrow> bool \<Rightarrow> host_error option" where
  "Host_Run startFails results ctxEnded =
     (if startFails then Some StartCaptureFailed
      else case first_error results of
             None \<Rightarrow> None
           | Some e \<Rightarrow> if e \<noteq> ContextCanceled \<and> \<not> ctxEnded then Some e else None)"

text \<open>The drains log what they receive until the channel closes or the context ends.\<close>

datatype 'a drain_item = DrainItem 'a | DrainEnd

fun drainErrors :: "string option drain_item list \<Rightarrow> string list" where
  "drainErrors [] = []"
| "drainErrors (DrainItem (Some e) # es) = e # drainErrors es"
| "drainErrors (DrainItem None # es) = drainErrors es"
| "drainErrors (DrainEnd # es) = []"

fun drainStatus :: "TargetStatus drain_item list \<Rightarrow> string list" where
  "drainStatus [] = []"
| "drainStatus (DrainItem s # es) = TargetStatus_String s # drainStatus es"
| "drainStatus (DrainEnd # es) = []"

end
