(* ===== verification/HostProps.thy ===== *)
theory HostProps
  imports Host "HOL-Library.Multiset"
begin

text \<open>
  Properties of the host process: which valid configurations can be built, what a synthetic source with
  another pixel format yields, which packets reach the router and in which order, and what the wrapper does when
  the encoder ends by itself and when the context ends.
\<close>

section \<open>Configurations\<close>

lemma synth_New_ok:
  "(\<exists>s. synth_New c = Inr s) \<longleftrightarrow> 0 < sc_Width c \<and> 0 < sc_Height c \<and> sc_Width c mod 2 = 0 \<and> 0 < sc_FPS c"
  by (auto simp: synth_New_def synth_Validate_def)

lemma find_hit: "find P xs = Some x \<Longrightarrow> x \<in> set xs \<and> P x"
  by (induction xs) (auto split: if_splits)

lemma v4l2_New_ok:
  "(\<exists>s. v4l2_New c = Inr s) \<longleftrightarrow> V4l2Config.cc_Device c \<noteq> [] \<and> 0 < V4l2Config.cc_Width c \<and> 0 < V4l2Config.cc_Height c \<and> 0 < V4l2Config.cc_FPS c
     \<and> (\<forall>pf\<in>set (cc_PreferredFormats c). PixelFormatToFourCC pf \<noteq> None)"
  by (auto simp: v4l2_New_def capture_Validate_def find_None_iff split: option.splits if_splits dest!: find_hit)

lemma parsed_format: "ParsePixelFormat s = Some pf \<Longrightarrow> pf \<in> {PixelFormatYUYV, PixelFormatMJPEG, PixelFormatNV12}"
  by (auto simp: ParsePixelFormat_def Let_def split: if_splits)

lemma Encoder_New_ok:
  assumes "0 < CaptureConfig.cc_Width (hc_Capture cfg)" "0 < CaptureConfig.cc_Height (hc_Capture cfg)" "ParsePixelFormat s = Some pf"
  obtains e where "Encoder_New (encoder_options cfg pf codec) = Inr e" "enc_opts e = Options_normalise (encoder_options cfg pf codec)"
  using assms parsed_format [OF assms(3)]
  by (auto simp: Encoder_New_def Let_def Options_Validate_def Options_normalise_def encoder_options_def DefaultOptions_def)

lemma map_sum_Inr: "(\<exists>y. map_sum f g x = Inr y) \<longleftrightarrow> (\<exists>z. x = Inr z)"
  by (cases x) auto

lemma map_sum_InrE: "map_sum f g x = Inr y \<Longrightarrow> \<exists>z. x = Inr z \<and> y = g z"
  by (cases x) auto

lemma buildCapture_ok:
  assumes "config_Validate cfg = None"
  shows "(\<exists>m. buildCapture cfg = Inr m) \<longleftrightarrow>
    (if CaptureSourceKind cfg = CaptureSynthetic then CaptureConfig.cc_Width (hc_Capture cfg) mod 2 = 0
     else CaptureConfig.cc_Device (hc_Capture cfg) \<noteq> [] \<and> ParsePixelFormat (cc_Format (hc_Capture cfg)) \<noteq> None)"
proof -
  have v: "CaptureSourceKind cfg \<in> {CaptureV4L2, CaptureSynthetic}" "0 < CaptureConfig.cc_Width (hc_Capture cfg)"
    "0 < CaptureConfig.cc_Height (hc_Capture cfg)" "0 < CaptureConfig.cc_FPS (hc_Capture cfg)"
    using valid_capture [OF assms] by blast+
  show ?thesis
  proof (cases "CaptureSourceKind cfg = CaptureSynthetic")
    case True
    then show ?thesis using v by (simp add: buildCapture_def Let_def map_sum_Inr synth_New_ok)
  next
    case False
    then have k: "CaptureSourceKind cfg = CaptureV4L2" using v(1) by blast
    have f: "PixelFormatToFourCC pf \<noteq> None" if "ParsePixelFormat (cc_Format (hc_Capture cfg)) = Some pf" for pf
      using parsed_format [OF that] by auto
    show ?thesis
      using False k v f
      by (cases "ParsePixelFormat (cc_Format (hc_Capture cfg))") (simp_all add: buildCapture_def Let_def map_sum_Inr v4l2_New_ok)
  qed
qed

lemma buildInput_ok: "config_Validate cfg = None \<Longrightarrow> \<exists>i. buildInput cfg mc = Inr i"
  using valid_input [of cfg] by (auto simp: buildInput_def)

lemma buildSession_ok:
  "(\<exists>m. buildSession readFile cfg = Inr m) \<longleftrightarrow>
   (sc_Enabled (hc_Session cfg) \<longrightarrow> (\<exists>pk. loadPublicKey readFile (sc_PublicKeyBase64 (hc_Session cfg)) (sc_PublicKeyFile (hc_Session cfg)) = Inr pk))"
  by (auto simp: buildSession_def Let_def split: sum.splits)

lemma codec_ok: "config_Validate cfg = None \<Longrightarrow> \<exists>k. CodecFromName (EncoderCodecKind cfg) dev = Inr k"
  using valid_codec_kind [of cfg] by (auto simp: CodecFromName_def)

text \<open>
  C27. Which configurations start: a configuration that passes validation can be built exactly when its
  pixel format is known, a synthetic source has an even width, a capture device has a path, and with
  session gating the public key loads. None of these is checked by the validation.
\<close>

theorem valid_config_builds:
  assumes "config_Validate cfg = None"
  shows "(\<exists>d. buildDeps readFile probe cfg mc = Inr d) \<longleftrightarrow>
     ParsePixelFormat (cc_Format (hc_Capture cfg)) \<noteq> None
   \<and> (CaptureSourceKind cfg = CaptureSynthetic \<longrightarrow> CaptureConfig.cc_Width (hc_Capture cfg) mod 2 = 0)
   \<and> (CaptureSourceKind cfg \<noteq> CaptureSynthetic \<longrightarrow> CaptureConfig.cc_Device (hc_Capture cfg) \<noteq> [])
   \<and> (sc_Enabled (hc_Session cfg) \<longrightarrow>
        (\<exists>pk. loadPublicKey readFile (sc_PublicKeyBase64 (hc_Session cfg)) (sc_PublicKeyFile (hc_Session cfg)) = Inr pk))"
proof (cases "ParsePixelFormat (cc_Format (hc_Capture cfg))")
  case None
  then show ?thesis by (auto simp: buildDeps_def split: sum.splits)
next
  case (Some pf)
  obtain codec where codec: "CodecFromName (EncoderCodecKind cfg) (ec_VAAPIDevice (hc_Encoder cfg)) = Inr codec" using codec_ok [OF assms] by blast
  obtain e where e: "Encoder_New (encoder_options cfg pf codec) = Inr e" using Encoder_New_ok [OF _ _ Some] valid_capture [OF assms] by blast
  obtain i where i: "buildInput cfg mc = Inr i" using buildInput_ok [OF assms] by blast
  have "(\<exists>d. buildDeps readFile probe cfg mc = Inr d) \<longleftrightarrow> (\<exists>m. buildCapture cfg = Inr m) \<and> (\<exists>m. buildSession readFile cfg = Inr m)"
    by (simp add: buildDeps_def Some codec e i split: sum.splits)
  then show ?thesis unfolding buildCapture_ok [OF assms] buildSession_ok using Some by auto
qed

theorem valid_config_builds_witness:
  "(\<exists>d. buildDeps (\<lambda>_. None) None config_Default NewCollector = Inr d)
   \<and> \<not> (\<exists>d. buildDeps (\<lambda>_. None) None (config_Default\<lparr>hc_Capture := (hc_Capture config_Default)\<lparr>cc_Format := ''H264''\<rparr>\<rparr>) NewCollector = Inr d)"
proof -
  let ?bad = "config_Default\<lparr>hc_Capture := (hc_Capture config_Default)\<lparr>cc_Format := ''H264''\<rparr>\<rparr>"
  have v: "config_Validate ?bad = None" and p: "ParsePixelFormat (cc_Format (hc_Capture ?bad)) = None" by code_simp+
  have "\<not> (\<exists>d. buildDeps (\<lambda>_. None) None ?bad NewCollector = Inr d)"
    using valid_config_builds [OF v, of "\<lambda>_. None" None NewCollector] p by blast
  moreover have "\<exists>d. buildDeps (\<lambda>_. None) None config_Default NewCollector = Inr d"
    unfolding valid_config_builds [OF Default_valid]
    by (simp add: config_Default_def CaptureSourceKind_def CaptureV4L2_def CaptureSynthetic_def ParsePixelFormat_def to_upper_def to_upper_char_def
        trim_space_def is_space_def Let_def)
  ultimately show ?thesis by blast
qed

section \<open>The pixel format of the synthetic source\<close>

lemma built_encoder:
  assumes "buildDeps readFile probe cfg mc = Inr d"
  obtains pf codec where "ParsePixelFormat (cc_Format (hc_Capture cfg)) = Some pf" "buildCapture cfg = Inr (dp_Capture d)"
    "enc_opts (dp_Encoder d) = Options_normalise (encoder_options cfg pf codec)"
  using assms by (auto simp: buildDeps_def Encoder_New_def Let_def split: sum.splits option.splits)

lemma built_synthetic:
  assumes "buildDeps readFile probe cfg mc = Inr d" "dp_Capture d = SyntheticCapture s" "ParsePixelFormat (cc_Format (hc_Capture cfg)) = Some pf"
  shows "frame_fits (enc_opts (dp_Encoder d)) (synth_frame (ss_cfg s) phase now) \<longleftrightarrow> pf = PixelFormatYUYV"
proof -
  obtain codec where c: "buildCapture cfg = Inr (SyntheticCapture s)"
    "enc_opts (dp_Encoder d) = Options_normalise (encoder_options cfg pf codec)"
    using built_encoder [OF assms(1)] assms(2,3) by (metis option.inject)
  then have "ss_cfg s = \<lparr>sc_Width = CaptureConfig.cc_Width (hc_Capture cfg), sc_Height = CaptureConfig.cc_Height (hc_Capture cfg), sc_FPS = CaptureConfig.cc_FPS (hc_Capture cfg)\<rparr>"
    by (auto simp: buildCapture_def Let_def synth_New_def split: if_splits option.splits dest!: map_sum_InrE)
  then show ?thesis
    using c(2) by (auto simp: frame_fits_def synth_frame_def Options_normalise_def encoder_options_def DefaultOptions_def Let_def)
qed

text \<open>
  The synthetic source ignores the configured pixel format, the encoder does not: with any format
  other than YUYV the host builds, and the encoder's writer discards every frame of the source, so that
  ffmpeg is never given a byte; with YUYV every frame of the source is accepted.
\<close>

theorem synthetic_format_decides:
  assumes "buildDeps readFile probe cfg mc = Inr d" "dp_Capture d = SyntheticCapture s" "ParsePixelFormat (cc_Format (hc_Capture cfg)) = Some pf"
    and "\<forall>f. FrameIn f \<in> set es \<longrightarrow> (\<exists>phase now. f = synth_frame (ss_cfg s) phase now)" "ch_buf q = []"
  shows "(pf \<noteq> PixelFormatYUYV \<longrightarrow> snd (writeFrames (enc_opts (dp_Encoder d)) es (q, [])) = [])
   \<and> (pf = PixelFormatYUYV \<longrightarrow> (\<forall>f. FrameIn f \<in> set es \<longrightarrow> frame_fits (enc_opts (dp_Encoder d)) f))"
proof -
  note fits = built_synthetic [OF assms(1-3)]
  have "snd (writeFrames (enc_opts (dp_Encoder d)) es (q, [])) = []" if "pf \<noteq> PixelFormatYUYV"
    using assms(4,5)
  proof (induction es)
    case (Cons e es)
    then show ?case using fits that by (cases e) (auto dest: spec)
  qed simp
  then show ?thesis using fits assms(4) by blast
qed

definition ex_synth_cfg :: HostConfig where
  "ex_synth_cfg = config_Default\<lparr>hc_Capture := (hc_Capture config_Default)\<lparr>cc_Source := ''synthetic'', cc_Format := ''MJPEG''\<rparr>\<rparr>"

theorem synthetic_format_decides_witness:
  "\<exists>d s. buildDeps (\<lambda>_. None) None ex_synth_cfg NewCollector = Inr d \<and> dp_Capture d = SyntheticCapture s
     \<and> snd (writeFrames (enc_opts (dp_Encoder d)) [FrameIn (synth_frame (ss_cfg s) 0 0), WriterTakes] (make_chan 2, [])) = []"
proof -
  have v: "config_Validate ex_synth_cfg = None" by code_simp
  have p: "ParsePixelFormat (cc_Format (hc_Capture ex_synth_cfg)) = Some PixelFormatMJPEG" by code_simp
  have k: "CaptureSourceKind ex_synth_cfg = CaptureSynthetic" by code_simp
  have w: "CaptureConfig.cc_Width (hc_Capture ex_synth_cfg) mod 2 = 0" "\<not> sc_Enabled (hc_Session ex_synth_cfg)" by code_simp+
  obtain d where d: "buildDeps (\<lambda>_. None) None ex_synth_cfg NewCollector = Inr d"
    using valid_config_builds [OF v, of "\<lambda>_. None" None NewCollector] p k w by auto
  obtain s where s: "dp_Capture d = SyntheticCapture s"
    using built_encoder [OF d] k by (auto simp: buildCapture_def Let_def dest!: map_sum_InrE)
  let ?es = "[FrameIn (synth_frame (ss_cfg s) 0 0), WriterTakes]"
  have "\<forall>f. FrameIn f \<in> set ?es \<longrightarrow> (\<exists>phase now. f = synth_frame (ss_cfg s) phase now)" by auto
  then have "snd (writeFrames (enc_opts (dp_Encoder d)) ?es (make_chan 2, [])) = []"
    using synthetic_format_decides [OF d s p, of ?es "make_chan 2"] by (simp del: writeFrames.simps)
  then show ?thesis using d s by blast
qed

section \<open>The packets of the wrapper\<close>

definition wrap_pending :: "pipeline \<Rightarrow> EncodedPacket list" where
  "wrap_pending s = (case pl_wrap s of WrapSend pkt \<Rightarrow> [pkt] | _ \<Rightarrow> [])"

text \<open>What the router has been given or is still to be given, oldest packet first.\<close>

definition wrap_flow :: "pipeline \<Rightarrow> EncodedPacket list" where
  "wrap_flow s = pl_taken s @ ch_buf (pl_out s) @ wrap_pending s"

definition pipe_order :: "pipeline \<Rightarrow> bool" where
  "pipe_order s \<longleftrightarrow> (if pl_ctx s then subseq (wrap_flow s) (pl_emerged s) else wrap_flow s = pl_emerged s)"

definition pipe_inv :: "pipeline \<Rightarrow> bool" where
  "pipe_inv s \<longleftrightarrow> chan_ok (pl_tapOut s) \<and> chan_ok (pl_out s) \<and> chan_ok (pl_packets s)
     \<and> (ch_closed (pl_tapOut s) \<longleftrightarrow> pl_tap s = TapDone) \<and> (ch_closed (pl_out s) \<longleftrightarrow> pl_wrap s = WrapDone)
     \<and> (ch_closed (pl_packets s) \<longleftrightarrow> \<not> pl_encoding s)
     \<and> (pl_wrap s = WrapDone \<longrightarrow> pl_tap s = TapDone \<and> \<not> pl_encoding s)
     \<and> (pl_tap s = TapDone \<longrightarrow> pl_ctx s \<or> ch_closed (pl_in s))"

lemma pipe_inv_new: "pipe_inv (newPipeline frames mc now) \<and> pipe_order (newPipeline frames mc now)"
  by (simp add: pipe_inv_def newPipeline_def wrap_pending_def wrap_flow_def pipe_order_def)

lemma push_packet_chan: "chan_ok c \<Longrightarrow> \<not> ch_closed c \<Longrightarrow> chan_ok (push_packet pkt c) \<and> \<not> ch_closed (push_packet pkt c)"
  by (auto simp: push_packet_def chan_ok_try_send chan_ok_drop_one split: list.splits)

lemma chan_ok_pop: "chan_ok c \<Longrightarrow> ch_buf c = x # rest \<Longrightarrow> chan_ok (c\<lparr>ch_buf := rest\<rparr>)"
  by (simp add: chan_ok_def)

lemmas pipe_defs = tap_receive_def tap_return_def tap_forward_def tap_cancelled_def wrap_receive_def wrap_forward_def
  wrap_cancelled_def wrap_join_def

lemma pipe_step_inv: "pipe_step a s = Some s' \<Longrightarrow> pipe_inv s \<Longrightarrow> pipe_inv s'"
  apply (cases a)
  subgoal by (auto simp: pipe_inv_def  chan_ok_close chan_ok_try_send chan_ok_drop_one chan_ok_pop split: if_splits)
  subgoal by (auto simp: pipe_inv_def  chan_ok_close chan_ok_try_send chan_ok_drop_one chan_ok_pop split: if_splits)
  subgoal by (auto simp: pipe_inv_def tap_receive_def tap_return_def chan_ok_close chan_ok_try_send chan_ok_drop_one chan_ok_pop split: if_splits list.splits)
  subgoal by (auto simp: pipe_inv_def tap_forward_def chan_ok_close chan_ok_try_send chan_ok_drop_one chan_ok_pop split: if_splits tap_pc.splits)
  subgoal by (auto simp: pipe_inv_def tap_cancelled_def tap_return_def chan_ok_close chan_ok_try_send chan_ok_drop_one chan_ok_pop split: if_splits)
  subgoal by (auto simp: pipe_inv_def  chan_ok_close chan_ok_try_send chan_ok_drop_one chan_ok_pop split: if_splits)
  subgoal using push_packet_chan [of "pl_packets s"] by (auto simp: pipe_inv_def  chan_ok_close chan_ok_try_send chan_ok_drop_one chan_ok_pop split: if_splits)
  subgoal by (auto simp: pipe_inv_def  chan_ok_close chan_ok_try_send chan_ok_drop_one chan_ok_pop split: if_splits)
  subgoal by (auto simp: pipe_inv_def wrap_receive_def chan_ok_close chan_ok_try_send chan_ok_drop_one chan_ok_pop split: if_splits list.splits)
  subgoal by (auto simp: pipe_inv_def wrap_forward_def chan_ok_close chan_ok_try_send chan_ok_drop_one chan_ok_pop split: if_splits wrap_pc.splits)
  subgoal by (auto simp: pipe_inv_def wrap_cancelled_def chan_ok_close chan_ok_try_send chan_ok_drop_one chan_ok_pop split: if_splits wrap_pc.splits)
  subgoal by (auto simp: pipe_inv_def wrap_join_def chan_ok_close chan_ok_try_send chan_ok_drop_one chan_ok_pop split: if_splits)
  subgoal by (auto simp: pipe_inv_def  chan_ok_close chan_ok_try_send chan_ok_drop_one chan_ok_pop split: if_splits list.splits)
  subgoal by (auto simp: pipe_inv_def  chan_ok_close chan_ok_try_send chan_ok_drop_one chan_ok_pop split: if_splits)
  subgoal by (auto simp: pipe_inv_def  chan_ok_close chan_ok_try_send chan_ok_drop_one chan_ok_pop split: if_splits)
  done

lemma pipe_inv_out: "pipe_inv s \<Longrightarrow> ch_closed (pl_out s) \<longleftrightarrow> pl_wrap s = WrapDone"
  by (simp add: pipe_inv_def)

text \<open>A step leaves the flow as it is, adds the packet that emerges, or, after the end of the context, drops one.\<close>

lemma pipe_step_flow:
  assumes "pipe_step a s = Some s'" "pipe_inv s"
  shows "wrap_flow s' = wrap_flow s \<and> pl_emerged s' = pl_emerged s \<and> (pl_ctx s \<longrightarrow> pl_ctx s')
    \<or> (\<exists>pkt. wrap_flow s' = wrap_flow s @ [pkt] \<and> pl_emerged s' = pl_emerged s @ [pkt]) \<and> pl_ctx s' = pl_ctx s
    \<or> (\<exists>pkt. wrap_flow s = wrap_flow s' @ [pkt]) \<and> pl_emerged s' = pl_emerged s \<and> pl_ctx s \<and> pl_ctx s'"
  using assms
  apply (cases a)
  subgoal by (auto simp: wrap_flow_def wrap_pending_def  split: if_splits)
  subgoal by (auto simp: wrap_flow_def wrap_pending_def  split: if_splits)
  subgoal by (auto simp: wrap_flow_def wrap_pending_def tap_receive_def tap_return_def split: if_splits list.splits)
  subgoal by (auto simp: wrap_flow_def wrap_pending_def tap_forward_def split: if_splits tap_pc.splits)
  subgoal by (auto simp: wrap_flow_def wrap_pending_def tap_cancelled_def tap_return_def split: if_splits)
  subgoal by (auto simp: wrap_flow_def wrap_pending_def  split: if_splits)
  subgoal by (auto simp: wrap_flow_def wrap_pending_def  split: if_splits)
  subgoal by (auto simp: wrap_flow_def wrap_pending_def  split: if_splits)
  subgoal by (auto simp: wrap_flow_def wrap_pending_def wrap_receive_def split: if_splits list.splits)
  subgoal by (auto simp: wrap_flow_def wrap_pending_def wrap_forward_def try_send_buf pipe_inv_out split: if_splits wrap_pc.splits)
  subgoal by (auto simp: wrap_flow_def wrap_pending_def wrap_cancelled_def split: if_splits wrap_pc.splits)
  subgoal by (auto simp: wrap_flow_def wrap_pending_def wrap_join_def split: if_splits)
  subgoal by (auto simp: wrap_flow_def wrap_pending_def  split: if_splits list.splits)
  subgoal by (auto simp: wrap_flow_def wrap_pending_def  split: if_splits)
  subgoal by (auto simp: wrap_flow_def wrap_pending_def  split: if_splits)
  done

lemma pipe_step_order:
  assumes "pipe_step a s = Some s'" "pipe_inv s" "pipe_order s"
  shows "pipe_order s'"
proof -
  have snoc: "subseq (xs @ [p]) (ys @ [p])" if "subseq xs ys" for xs ys :: "EncodedPacket list" and p
    using that by (intro list_emb_append_mono) auto
  have drop: "subseq xs ys" if "subseq (xs @ [p]) ys" for xs ys :: "EncodedPacket list" and p
    using subseq_order.trans [of xs "xs @ [p]" ys] that by auto
  show ?thesis
    using pipe_step_flow [OF assms(1,2)] assms(3) unfolding pipe_order_def
    by (elim disjE conjE exE) (auto simp: snoc dest: drop split: if_splits)
qed

lemma pipe_run_inv: "pipe_run as s = Some s' \<Longrightarrow> pipe_inv s \<Longrightarrow> pipe_order s \<Longrightarrow> pipe_inv s' \<and> pipe_order s'"
  by (induction as arbitrary: s) (auto simp: bind_eq_Some_conv dest: pipe_step_inv pipe_step_order)

lemma pipe_run_new:
  assumes "pipe_run as (newPipeline frames mc now) = Some s"
  shows "pipe_inv s" "pipe_order s"
  using pipe_run_inv [OF assms] pipe_inv_new by blast+

text \<open>
  What the encoder has emitted and the wrapper has taken over or can still take over. The encoder's queue
  drops packets and moves a keyframe behind later packets when it is full, so this is less than what was
  emitted, and not in the same order.
\<close>

definition pipe_held :: "pipeline \<Rightarrow> EncodedPacket multiset" where
  "pipe_held s = mset (pl_emerged s) + mset (ch_buf (pl_packets s))"

lemma push_packet_mset: "mset (ch_buf (push_packet k ch)) \<subseteq># add_mset k (mset (ch_buf ch))"
  by (cases "ch_buf ch") (auto simp: push_packet_def try_send_def drop_one_def)

lemma pipe_step_held:
  assumes "pipe_step a s = Some s'"
  shows "pipe_held s' \<subseteq># pipe_held s + mset (case a of PEncoderEmits k \<Rightarrow> [k] | _ \<Rightarrow> [])"
proof (cases a)
  case (PEncoderEmits k)
  then show ?thesis using assms push_packet_mset [of k "pl_packets s"]
    by (auto simp: pipe_held_def split: if_splits)
next
  case PWrapReceive
  then show ?thesis using assms by (auto simp: pipe_held_def wrap_receive_def split: if_splits list.splits)
qed (use assms in \<open>auto simp: pipe_held_def tap_receive_def tap_return_def tap_forward_def tap_cancelled_def
  wrap_forward_def wrap_cancelled_def wrap_join_def split: if_splits list.splits tap_pc.splits wrap_pc.splits\<close>)

lemma pipe_run_held:
  "pipe_run as s = Some s' \<Longrightarrow> pipe_held s' \<subseteq># pipe_held s + mset [k. PEncoderEmits k \<leftarrow> as]"
proof (induction as arbitrary: s)
  case (Cons a as)
  then obtain s1 where s1: "pipe_step a s = Some s1" "pipe_run as s1 = Some s'" by (auto simp: bind_eq_Some_conv)
  have "pipe_held s1 + mset [k. PEncoderEmits k \<leftarrow> as] \<subseteq># pipe_held s + mset [k. PEncoderEmits k \<leftarrow> a # as]"
    using pipe_step_held [OF s1(1)] by (cases a) (auto simp: subset_mset.add_mono)
  with Cons.IH [OF s1(2)] show ?case by (rule subset_mset.trans)
qed simp

lemma subseq_mset: "subseq xs ys \<Longrightarrow> mset xs \<subseteq># mset ys"
  by (induction rule: list_emb.induct) (auto intro: subset_mset.trans)

lemma taken_emerged:
  assumes "pipe_run as (newPipeline frames mc now) = Some s"
  shows "subseq (pl_taken s) (pl_emerged s)"
proof -
  have "subseq (pl_taken s) (wrap_flow s)" unfolding wrap_flow_def by (rule prefix_imp_subseq) simp
  moreover have "subseq (wrap_flow s) (pl_emerged s)"
    using pipe_run_new(2) [OF assms] by (simp add: pipe_order_def split: if_splits)
  ultimately show ?thesis by (rule subseq_order.trans)
qed

definition queue_flow :: "pipeline \<Rightarrow> EncodedPacket list" where
  "queue_flow s = pl_emerged s @ ch_buf (pl_packets s)"

abbreviation inter_frames :: "EncodedPacket list \<Rightarrow> EncodedPacket list" where
  "inter_frames \<equiv> filter (\<lambda>k. \<not> ep_IsKeyframe k)"

text \<open>The wrapper keeps up with the encoder: whenever a packet is emitted there is room in the queue.\<close>

fun keeps_up :: "pipe_action list \<Rightarrow> pipeline \<Rightarrow> bool" where
  "keeps_up [] s = True"
| "keeps_up (a # as) s =
     ((case a of PEncoderEmits _ \<Rightarrow> can_send (pl_packets s) | _ \<Rightarrow> True)
      \<and> (case pipe_step a s of None \<Rightarrow> True | Some s' \<Rightarrow> keeps_up as s'))"

lemma queue_step:
  assumes "pipe_step a s = Some s'" "\<forall>k. a \<noteq> PEncoderEmits k"
  shows "queue_flow s' = queue_flow s"
  using assms
  by (cases a) (auto simp: queue_flow_def pipe_defs split: if_splits list.splits tap_pc.splits wrap_pc.splits)

lemma queue_emit:
  assumes "pipe_step (PEncoderEmits k) s = Some s'" "pipe_inv s"
  shows "can_send (pl_packets s) \<Longrightarrow> queue_flow s' = queue_flow s @ [k]"
    "subseq (inter_frames (queue_flow s')) (inter_frames (queue_flow s @ [k]))"
proof -
  have c: "\<not> ch_closed (pl_packets s)" and s': "s' = s\<lparr>pl_packets := push_packet k (pl_packets s)\<rparr>"
    using assms by (auto simp: pipe_inv_def split: if_splits)
  show "queue_flow s' = queue_flow s @ [k]" if "can_send (pl_packets s)"
    using that c by (simp add: queue_flow_def s' push_packet_def try_send_buf)
  have t: "subseq (ch_buf (try_send x ch)) (ch_buf ch @ [x])" for x and ch :: "EncodedPacket chan"
    by (simp add: try_send_def prefix_imp_subseq)
  have "subseq (inter_frames (ch_buf (push_packet k (pl_packets s)))) (inter_frames (ch_buf (pl_packets s) @ [k]))"
  proof (cases "can_send (pl_packets s)")
    case True
    then show ?thesis using subseq_filter [OF t [of k "pl_packets s"], of "\<lambda>k. \<not> ep_IsKeyframe k"] by (simp add: push_packet_def)
  next
    case False
    show ?thesis
    proof (cases "ch_buf (pl_packets s)")
      case Nil
      then show ?thesis using False c subseq_filter [OF t [of k "pl_packets s"], of "\<lambda>k. \<not> ep_IsKeyframe k"] by (simp add: push_packet_def)
    next
      case (Cons old rest)
      let ?ch = "drop_one (pl_packets s)"
      have d: "ch_buf ?ch = rest" using Cons by simp
      have "subseq (inter_frames (ch_buf (try_send x ?ch))) (inter_frames (rest @ [x]))" for x
        using subseq_filter [OF t [of x ?ch]] by (simp only: d)
      from this [of old] this [of k] show ?thesis using False c Cons
        by (auto simp: push_packet_def intro: subseq_order.trans prefix_imp_subseq)
    qed
  qed
  then show "subseq (inter_frames (queue_flow s')) (inter_frames (queue_flow s @ [k]))"
    by (simp add: queue_flow_def s' list_emb_append_mono)
qed

lemma queue_run:
  "pipe_run as s = Some s' \<Longrightarrow> pipe_inv s \<Longrightarrow>
   subseq (inter_frames (queue_flow s')) (inter_frames (queue_flow s @ [k. PEncoderEmits k \<leftarrow> as]))
   \<and> (keeps_up as s \<longrightarrow> queue_flow s' = queue_flow s @ [k. PEncoderEmits k \<leftarrow> as])"
proof (induction as arbitrary: s)
  case (Cons a as)
  then obtain s1 where st: "pipe_step a s = Some s1" and run: "pipe_run as s1 = Some s'" by (auto simp: bind_eq_Some_conv)
  note ih = Cons.IH [OF run pipe_step_inv [OF st Cons.prems(2)]]
  show ?case
  proof (cases "\<exists>k. a = PEncoderEmits k")
    case False
    then have "[k. PEncoderEmits k \<leftarrow> a # as] = [k. PEncoderEmits k \<leftarrow> as]" by (cases a) simp_all
    then show ?thesis using ih queue_step [OF st] False st by (cases a) simp_all
  next
    case True
    then obtain k where k: "a = PEncoderEmits k" by blast
    note q = queue_emit [OF st [unfolded k] Cons.prems(2)]
    define em where "em = [k. PEncoderEmits k \<leftarrow> as]"
    have em: "[k. PEncoderEmits k \<leftarrow> a # as] = k # em" by (simp add: k em_def)
    note ih = ih [folded em_def]
    have "subseq (inter_frames (queue_flow s')) (inter_frames (queue_flow s @ [k]) @ inter_frames em)"
      using conjunct1 [OF ih] list_emb_append_mono [OF q(2), of "inter_frames em" "inter_frames em"]
      by (auto intro: subseq_order.trans)
    moreover have "inter_frames (queue_flow s @ k # em) = inter_frames (queue_flow s @ [k]) @ inter_frames em" by simp
    moreover have "queue_flow s' = queue_flow s @ k # em" if "keeps_up (a # as) s"
      using conjunct2 [OF ih] q(1) that st by (simp add: k)
    ultimately show ?thesis unfolding em by simp
  qed
qed simp

text \<open>
  C24. Packets between the encoder and the router, compared with what the encoder emitted. Nothing is
  invented or duplicated: the packets that have arrived at the router, are on their way to it or still
  wait in the encoder's queue are among those emitted. Inter frames never overtake each other. As long
  as the wrapper keeps up with the encoder, so that its queue never was full when a packet was emitted,
  packets arrive in the order in which they were emitted, and none is missing while the context lives.
  (When the queue was full, a packet is dropped, and a keyframe can arrive behind later packets.) No
  channel operation of the tap, the wrapper and the encoder panics.
\<close>

theorem packets_in_order:
  assumes "pipe_run as (newPipeline frames mc now) = Some s"
    and "emitted = [k. PEncoderEmits k \<leftarrow> as]" and "arrived = pl_taken s @ ch_buf (pl_out s) @ wrap_pending s"
  shows "mset (arrived @ ch_buf (pl_packets s)) \<subseteq># mset emitted
   \<and> subseq (inter_frames arrived) (inter_frames emitted)
   \<and> (keeps_up as (newPipeline frames mc now) \<longrightarrow> subseq arrived emitted \<and> (\<not> pl_ctx s \<longrightarrow> arrived @ ch_buf (pl_packets s) = emitted))
   \<and> \<not> ch_panic (pl_tapOut s) \<and> \<not> ch_panic (pl_packets s) \<and> \<not> ch_panic (pl_out s)"
proof -
  note inv = pipe_run_new [OF assms(1)]
  have a: "subseq arrived (pl_emerged s)" "\<not> pl_ctx s \<Longrightarrow> arrived = pl_emerged s"
    using inv(2) by (simp_all add: pipe_order_def wrap_flow_def assms(3) split: if_splits)
  have q: "subseq (inter_frames (pl_emerged s)) (inter_frames (queue_flow s))" "subseq (pl_emerged s) (queue_flow s)"
    by (simp_all add: queue_flow_def prefix_imp_subseq)
  have new: "queue_flow (newPipeline frames mc now) = []" by (simp add: queue_flow_def newPipeline_def)
  note r = queue_run [OF assms(1) conjunct1 [OF pipe_inv_new], unfolded new append_Nil, folded assms(2)]
  have "mset (arrived @ ch_buf (pl_packets s)) \<subseteq># pipe_held s"
    using subseq_mset [OF a(1)] by (simp add: pipe_held_def)
  also have "pipe_held s \<subseteq># mset emitted"
    using pipe_run_held [OF assms(1)] by (simp add: pipe_held_def newPipeline_def assms(2))
  finally have m: "mset (arrived @ ch_buf (pl_packets s)) \<subseteq># mset emitted" .
  have i: "subseq (inter_frames arrived) (inter_frames emitted)"
    using subseq_order.trans [OF subseq_order.trans [OF subseq_filter [OF a(1)] q(1)] conjunct1 [OF r]] .
  have k: "subseq arrived emitted \<and> (\<not> pl_ctx s \<longrightarrow> arrived @ ch_buf (pl_packets s) = emitted)"
    if "keeps_up as (newPipeline frames mc now)"
    using that r a subseq_order.trans [OF a(1) q(2)] by (auto simp: queue_flow_def)
  show ?thesis using m i k inv(1) by (simp add: pipe_inv_def chan_ok_def)
qed

definition ex_frame :: VideoFrame where
  "ex_frame = synth_frame \<lparr>sc_Width = 2, sc_Height = 1, sc_FPS = 30\<rparr> 0 0"

definition ex_packet :: "nat \<Rightarrow> EncodedPacket" where
  "ex_packet n = \<lparr>ep_Data = [of_nat n], ep_PTS = 0, ep_IsKeyframe = (n = 1)\<rparr>"

definition ex_pipe_actions :: "pipe_action list" where
  "ex_pipe_actions = [PCapture ex_frame, PTapReceive, PTapForward, PEncoderTakes, PEncoderEmits (ex_packet 1), PEncoderEmits (ex_packet 2),
     PWrapReceive, PWrapForward, PRouterTakes, PWrapReceive]"

theorem packets_in_order_witness:
  "\<exists>s. pipe_run ex_pipe_actions (newPipeline (make_chan 3) None 0) = Some s \<and> pl_taken s = [ex_packet 1]
     \<and> (pl_taken s @ ch_buf (pl_out s) @ wrap_pending s) @ ch_buf (pl_packets s) = [ex_packet 1, ex_packet 2]"
proof -
  let ?new = "newPipeline (make_chan 3) None 0"
  define r where "r = pipe_run ex_pipe_actions ?new"
  have "\<exists>s. r = Some s \<and> \<not> pl_ctx s \<and> pl_taken s = [ex_packet 1]"
    unfolding r_def ex_pipe_actions_def
    by (simp add: newPipeline_def make_chan_def pipe_defs send_drop_oldest_def push_packet_def try_send_def can_send_def drop_one_def packetBufferSize_def)
  then obtain s where s: "pipe_run ex_pipe_actions ?new = Some s" "\<not> pl_ctx s" "pl_taken s = [ex_packet 1]" unfolding r_def by blast
  have k: "keeps_up ex_pipe_actions ?new"
    unfolding ex_pipe_actions_def
    by (simp add: newPipeline_def make_chan_def pipe_defs send_drop_oldest_def push_packet_def try_send_def can_send_def drop_one_def packetBufferSize_def)
  have e: "[k. PEncoderEmits k \<leftarrow> ex_pipe_actions] = [ex_packet 1, ex_packet 2]" by (simp add: ex_pipe_actions_def)
  show ?thesis using packets_in_order [OF s(1) refl refl] k s e by auto
qed

text \<open>
  The order is not kept in general: with the queue full and a keyframe at its head, the next packet is
  dropped and the keyframe goes behind the frames that depend on it.
\<close>

definition ex_overrun :: "pipe_action list" where
  "ex_overrun = map (\<lambda>n. PEncoderEmits (ex_packet n)) [1, 2, 3, 4, 5] @ concat (replicate 4 [PWrapReceive, PWrapForward, PRouterTakes])"

theorem keyframe_arrives_late:
  "\<exists>s. pipe_run ex_overrun (newPipeline (make_chan 3) None 0) = Some s
     \<and> [k. PEncoderEmits k \<leftarrow> ex_overrun] = map ex_packet [1, 2, 3, 4, 5] \<and> pl_taken s = map ex_packet [2, 3, 4, 1]"
  unfolding ex_overrun_def
  by (simp add: newPipeline_def make_chan_def pipe_defs push_packet_def try_send_def can_send_def drop_one_def packetBufferSize_def
      ex_packet_def numeral_eq_Suc)

section \<open>The end of the encoder and of the context\<close>

lemma pipe_step_alive:
  assumes "pipe_step a s = Some s'" "a \<noteq> PCancel" "a \<noteq> PCaptureEnds" "\<not> pl_ctx s" "\<not> ch_closed (pl_in s)"
  shows "\<not> pl_ctx s' \<and> \<not> ch_closed (pl_in s')"
  using assms by (cases a) (auto simp: pipe_defs send_drop_oldest_def split: if_splits list.splits tap_pc.splits wrap_pc.splits)

lemma pipe_run_alive:
  "pipe_run as s = Some s' \<Longrightarrow> PCancel \<notin> set as \<Longrightarrow> PCaptureEnds \<notin> set as \<Longrightarrow> \<not> pl_ctx s \<Longrightarrow> \<not> ch_closed (pl_in s)
   \<Longrightarrow> \<not> pl_ctx s' \<and> \<not> ch_closed (pl_in s')"
  by (induction as arbitrary: s) (auto simp: bind_eq_Some_conv dest!: pipe_step_alive)

text \<open>
  C22. The wrapper waits for its tap as well as for the encoder, and the tap ends only with the context
  or the capture source. So when the encoder alone ends, by a failure of ffmpeg say, the wrapper does
  not return, whatever happens next: its error never reaches \<^verbatim>\<open>Run\<close>, and the router's channel stays
  open with no packet to come.
\<close>

theorem encoder_end_hangs:
  assumes "pipe_run as (newPipeline frames mc now) = Some s" "\<not> ch_closed frames"
    and "PCancel \<notin> set as" "PCaptureEnds \<notin> set as"
  shows "pl_tap s \<noteq> TapDone \<and> pl_wrap s \<noteq> WrapDone \<and> \<not> ch_closed (pl_out s)"
  using pipe_run_new [OF assms(1)] pipe_run_alive [OF assms(1,3,4)] assms(2)
  by (auto simp: pipe_inv_def newPipeline_def)

theorem encoder_end_hangs_witness:
  "\<exists>s. pipe_run [PEncoderReturns, PWrapReceive] (newPipeline (make_chan 3) None 0) = Some s
     \<and> \<not> pl_encoding s \<and> pl_wrap s = WrapWait \<and> pl_tap s \<noteq> TapDone \<and> pl_wrap s \<noteq> WrapDone \<and> \<not> ch_closed (pl_out s)"
proof -
  let ?r = "pipe_run [PEncoderReturns, PWrapReceive] (newPipeline (make_chan 3) None 0)"
  have "\<exists>s. ?r = Some s \<and> \<not> pl_encoding s \<and> pl_wrap s = WrapWait"
    by (simp add: newPipeline_def pipe_defs)
  then obtain s where s: "?r = Some s" "\<not> pl_encoding s" "pl_wrap s = WrapWait" by blast
  then show ?thesis using encoder_end_hangs [OF s(1)] by simp
qed

text \<open>The steps of the tap and of the wrapper themselves, and a bound on how many there can still be.\<close>

definition pipe_own :: "pipe_action list" where
  "pipe_own = [PTapReceive, PTapForward, PTapCancelled, PWrapReceive, PWrapForward, PWrapCancelled, PWrapJoin]"

definition pipe_measure :: "pipeline \<Rightarrow> nat" where
  "pipe_measure s = 2 * length (ch_buf (pl_in s)) + (case pl_tap s of TapSelect \<Rightarrow> 1 | TapSend f \<Rightarrow> 2 | TapDone \<Rightarrow> 0)
     + 2 * length (ch_buf (pl_packets s)) + (case pl_wrap s of WrapSelect \<Rightarrow> 2 | WrapSend p \<Rightarrow> 3 | WrapWait \<Rightarrow> 1 | WrapDone \<Rightarrow> 0)"

lemma pipe_own_cases:
  assumes "a \<in> set pipe_own"
  shows "a = PTapReceive \<or> a = PTapForward \<or> a = PTapCancelled \<or> a = PWrapReceive \<or> a = PWrapForward \<or> a = PWrapCancelled \<or> a = PWrapJoin"
  using assms by (auto simp: pipe_own_def)

lemma pipe_own_decreases:
  "a \<in> set pipe_own \<Longrightarrow> pipe_step a s = Some s' \<Longrightarrow> pipe_measure s' < pipe_measure s \<and> pl_ctx s' = pl_ctx s \<and> pl_encoding s' = pl_encoding s"
  apply (drule pipe_own_cases, elim disjE)
  subgoal by (auto simp: pipe_measure_def tap_receive_def tap_return_def split: if_splits list.splits)
  subgoal by (auto simp: pipe_measure_def tap_forward_def split: if_splits tap_pc.splits)
  subgoal by (cases "pl_tap s") (auto simp: pipe_measure_def tap_cancelled_def tap_return_def split: if_splits)
  subgoal by (auto simp: pipe_measure_def wrap_receive_def split: if_splits list.splits)
  subgoal by (auto simp: pipe_measure_def wrap_forward_def split: if_splits wrap_pc.splits)
  subgoal by (cases "pl_wrap s") (auto simp: pipe_measure_def wrap_cancelled_def split: if_splits)
  subgoal by (auto simp: pipe_measure_def wrap_join_def split: if_splits)
  done

lemma pipe_own_bounded:
  "set as \<subseteq> set pipe_own \<Longrightarrow> pipe_run as s = Some s' \<Longrightarrow>
   length as + pipe_measure s' \<le> pipe_measure s \<and> pl_ctx s' = pl_ctx s \<and> pl_encoding s' = pl_encoding s"
proof (induction as arbitrary: s)
  case (Cons a as)
  then obtain t where t: "pipe_step a s = Some t" "pipe_run as t = Some s'" by (auto simp: bind_eq_Some_conv)
  have own: "a \<in> set pipe_own" "set as \<subseteq> set pipe_own" using Cons.prems(1) by auto
  show ?case using Cons.IH [OF own(2) t(2)] pipe_own_decreases [OF own(1) t(1)] by simp
qed simp

lemma pipe_own_enabled:
  assumes "pl_ctx s" "\<not> pl_encoding s" "pl_wrap s \<noteq> WrapDone"
  shows "\<exists>a\<in>set pipe_own. pipe_step a s \<noteq> None"
proof (cases "pl_tap s = TapDone")
  case True
  then show ?thesis using assms by (cases "pl_wrap s") (auto simp: pipe_own_def wrap_cancelled_def wrap_join_def)
next
  case False
  then show ?thesis using assms by (auto simp: pipe_own_def tap_cancelled_def)
qed

text \<open>
  After the end of the context, once the encoder has returned, the wrapper returns: its and the
  tap's steps are bounded in number whatever they choose, and only when the wrapper has closed its
  channel and returned is none of them left.
\<close>

theorem wrapper_returns_after_cancel:
  assumes "pipe_run as (newPipeline frames mc now) = Some s" "pl_ctx s" "\<not> pl_encoding s"
    and "set bs \<subseteq> set pipe_own" "pipe_run bs s = Some s'"
  shows "length bs \<le> pipe_measure s
   \<and> ((\<forall>a\<in>set pipe_own. pipe_step a s' = None) \<longrightarrow> pl_wrap s' = WrapDone \<and> pl_tap s' = TapDone \<and> ch_closed (pl_out s'))"
proof -
  have i: "pipe_inv s'" using pipe_run_inv [OF assms(5) pipe_run_new [OF assms(1)]] by blast
  have b: "length bs \<le> pipe_measure s" "pl_ctx s'" "\<not> pl_encoding s'" using pipe_own_bounded [OF assms(4,5)] assms(2,3) by auto
  then show ?thesis using i pipe_own_enabled [of s'] by (auto simp: pipe_inv_def)
qed

theorem wrapper_returns_after_cancel_witness:
  "\<exists>s s'. pipe_run [PCapture ex_frame, PTapReceive, PCancel, PEncoderReturns] (newPipeline (make_chan 3) None 0) = Some s
     \<and> pipe_run [PTapForward, PTapCancelled, PWrapCancelled, PWrapJoin] s = Some s'
     \<and> 4 \<le> pipe_measure s \<and> pl_wrap s' = WrapDone"
proof -
  let ?as = "[PCapture ex_frame, PTapReceive, PCancel, PEncoderReturns]" and ?bs = "[PTapForward, PTapCancelled, PWrapCancelled, PWrapJoin]"
  let ?p = "newPipeline (make_chan 3) None 0"
  have "\<exists>s. pipe_run ?as ?p = Some s \<and> pl_ctx s \<and> \<not> pl_encoding s \<and> (\<exists>s'. pipe_run ?bs s = Some s' \<and> (\<forall>a\<in>set pipe_own. pipe_step a s' = None))"
    by (simp add: newPipeline_def make_chan_def pipe_defs send_drop_oldest_def try_send_def can_send_def close_chan_def packetBufferSize_def pipe_own_def)
  then obtain s s' where s: "pipe_run ?as ?p = Some s" "pl_ctx s" "\<not> pl_encoding s" "pipe_run ?bs s = Some s'" "\<forall>a\<in>set pipe_own. pipe_step a s' = None"
    by blast
  have o: "set ?bs \<subseteq> set pipe_own" by (simp add: pipe_own_def)
  show ?thesis using wrapper_returns_after_cancel [OF s(1-3) o s(4)] s by auto
qed

end
