(* ===== verification/Heartbeat.thy ===== *)
theory Heartbeat
  imports Http Configuration SessionInv Server
begin

text \<open>
  The heartbeat loop of the host (\<^verbatim>\<open>playgate-host/internal/heartbeat/heartbeat.go\<close>): the request it
  sends, what it makes of the response, and the kick it passes on to the session manager. The network
  and the source of viewers are parameters: their states are \<open>'n\<close> and \<open>'m\<close>. The round trip of a
  request takes up to ten seconds, in which the source of viewers moves on: the request reads it before,
  the kick meets it as it is afterwards. At the end the transport that joins the loop to the server's API.
\<close>

section \<open>The runner\<close>

record heartbeatRequest =
  hq_Online :: bool
  hq_CurrentViewer :: "string option"

record heartbeatResponse =
  hs_Status :: string
  hs_KickRequested :: bool

record 'a Runner =
  hb_url :: string
  hb_roomID :: string
  hb_apiKey :: string
  hb_interval :: duration
  hb_viewers :: "('a \<Rightarrow> string) option"
  hb_kick :: "('a \<Rightarrow> 'a) option"

definition heartbeat_New :: "HostConfig \<Rightarrow> ('m \<Rightarrow> string) option \<Rightarrow> ('m \<Rightarrow> 'm) option \<Rightarrow> 'm Runner" where
  "heartbeat_New cfg viewers kick =
     (let interval = seconds (svc_HeartbeatIntervalSeconds (hc_Server cfg)) in
      \<lparr>hb_url = svc_URL (hc_Server cfg), hb_roomID = sgc_RoomID (hc_Signaling cfg), hb_apiKey = svc_APIKey (hc_Server cfg),
       hb_interval = (if interval \<le> 0 then 30 * Second else interval), hb_viewers = viewers, hb_kick = kick\<rparr>)"

definition marshal_heartbeatRequest :: "heartbeatRequest \<Rightarrow> json" where
  "marshal_heartbeatRequest q =
     JObj [(''online'', JBool (hq_Online q)), (''current_viewer'', case hq_CurrentViewer q of None \<Rightarrow> JNull | Some v \<Rightarrow> JStr v)]"

definition decode_heartbeatResponse :: "(string \<times> json) list \<Rightarrow> heartbeatResponse option" where
  "decode_heartbeatResponse ms =
     (case (get_str ''status'' ms, get_field json_bool False ''kick_requested'' ms) of
        (Some st, Some kick) \<Rightarrow> Some \<lparr>hs_Status = st, hs_KickRequested = kick\<rparr>
      | _ \<Rightarrow> None)"

text \<open>The viewer of the request: none without a source, or when the source reports an empty name.\<close>

definition beat_viewer :: "'m Runner \<Rightarrow> 'm \<Rightarrow> string option" where
  "beat_viewer r m =
     (case hb_viewers r of None \<Rightarrow> None | Some viewer \<Rightarrow> if viewer m = [] then None else Some (viewer m))"

definition beat_request :: "'m Runner \<Rightarrow> 'm \<Rightarrow> HttpRequest" where
  "beat_request r m =
     \<lparr>hr_Method = MethodPost, hr_URL = hb_url r @ ''/api/rooms/'' @ hb_roomID r @ ''/heartbeat'',
      hr_Headers = [(''Content-Type'', ''application/json''), (''Authorization'', ''Bearer '' @ hb_apiKey r)],
      hr_Body = Some (json_print (marshal_heartbeatRequest \<lparr>hq_Online = True, hq_CurrentViewer = beat_viewer r m\<rparr>))\<rparr>"

text \<open>Whether the outcome of the request asks for a kick.\<close>

definition beat_kicks :: "HttpResult \<Rightarrow> bool" where
  "beat_kicks res =
     (case res of
        HttpFailed \<Rightarrow> False
      | HttpResponse status body \<Rightarrow>
          status = StatusOK
          \<and> (case Option.bind (decode_members body) decode_heartbeatResponse of
               None \<Rightarrow> False
             | Some resp \<Rightarrow> hs_KickRequested resp))"

text \<open>What the outcome makes the runner do, to the source of viewers as it is when the outcome is there.\<close>

definition beat_answer :: "'m Runner \<Rightarrow> HttpResult \<Rightarrow> 'm \<Rightarrow> 'm" where
  "beat_answer r res m =
     (case hb_kick r of
        Some kick \<Rightarrow> if beat_kicks res then kick m else m
      | None \<Rightarrow> m)"

text \<open>One beat; \<open>meanwhile\<close> is what happens to the source of viewers while the request is on its way.\<close>

definition beat ::
    "('n \<Rightarrow> HttpRequest \<Rightarrow> 'n \<times> HttpResult) \<Rightarrow> 'm Runner \<Rightarrow> ('m \<Rightarrow> 'm) \<Rightarrow> 'n \<times> 'm \<Rightarrow> 'n \<times> 'm" where
  "beat net r meanwhile s =
     (let (n, res) = net (fst s) (beat_request r (snd s)) in (n, beat_answer r res (meanwhile (snd s))))"

text \<open>
  The loop: one beat at once, then one for each tick until the context ends. During a beat, and between
  two of them, the network and the source of viewers change by themselves.
\<close>

datatype ('n, 'm) hb_event = HbTick "'m \<Rightarrow> 'm" | HbMeanwhile "'n \<times> 'm \<Rightarrow> 'n \<times> 'm" | HbDone

fun hb_loop :: "('n \<Rightarrow> HttpRequest \<Rightarrow> 'n \<times> HttpResult) \<Rightarrow> 'm Runner \<Rightarrow> ('n, 'm) hb_event list \<Rightarrow> 'n \<times> 'm \<Rightarrow> 'n \<times> 'm" where
  "hb_loop net r [] s = s"
| "hb_loop net r (HbTick meanwhile # es) s = hb_loop net r es (beat net r meanwhile s)"
| "hb_loop net r (HbMeanwhile f # es) s = hb_loop net r es (f s)"
| "hb_loop net r (HbDone # es) s = s"

definition heartbeat_Run ::
    "('n \<Rightarrow> HttpRequest \<Rightarrow> 'n \<times> HttpResult) \<Rightarrow> 'm Runner \<Rightarrow> ('m \<Rightarrow> 'm) \<Rightarrow> ('n, 'm) hb_event list \<Rightarrow> 'n \<times> 'm \<Rightarrow> 'n \<times> 'm" where
  "heartbeat_Run net r meanwhile es s = hb_loop net r es (beat net r meanwhile s)"

text \<open>
  The kick is a call of \<^verbatim>\<open>KickCurrentController\<close>: it looks under the lock who is in control and then
  calls \<^verbatim>\<open>endSession\<close>, which takes the lock again; among the manager's goroutines it is the step
  \<^const>\<open>AKick\<close>, which leaves that call pending.
\<close>

definition MakeKickFunc :: "sess_state \<Rightarrow> sess_state" where
  "MakeKickFunc s =
     (case Kick_locked (st_m s) of
        Some c \<Rightarrow> call_end s (st_m s) c
      | None \<Rightarrow> s)"

lemma MakeKickFunc_step: "sess_step v AKick s = Some (MakeKickFunc s)"
  by (simp add: MakeKickFunc_def split: option.splits)

text \<open>The runner that \<^verbatim>\<open>Host.Run\<close> builds: with session gating it reports on the manager, and kicks there.\<close>

definition host_heartbeat :: "HostConfig \<Rightarrow> bool \<Rightarrow> sess_state Runner" where
  "host_heartbeat cfg hasSession =
     (if hasSession then heartbeat_New cfg (Some (\<lambda>s. CurrentViewerID (st_m s))) (Some MakeKickFunc)
      else heartbeat_New cfg None None)"

section \<open>A line of viewers\<close>

text \<open>
  What the loop relies on: the viewers stand in a line, the source reports its first, and a kick asks for
  the turn of the one who is first at that moment to be ended; once carried out (\<open>settle\<close>), exactly that
  one has left the line.
\<close>

locale viewer_line =
  fixes line :: "'m \<Rightarrow> string list"
    and viewer :: "'m \<Rightarrow> string"
    and kick :: "'m \<Rightarrow> 'm"
    and settle :: "'m \<Rightarrow> 'm"
    and ok :: "'m \<Rightarrow> bool"
  assumes viewer_first: "ok m \<Longrightarrow> viewer m = (case line m of [] \<Rightarrow> [] | v # vs \<Rightarrow> v)"
    and line_names: "ok m \<Longrightarrow> [] \<notin> set (line m)"
    and kick_line: "ok m \<Longrightarrow> line (kick m) = line m"
    and kick_settles: "ok m \<Longrightarrow> line (settle (kick m)) = tl (line m)"
    and kick_ok: "ok m \<Longrightarrow> ok (kick m)"
begin

lemma viewer_reported:
  assumes "ok m" "hb_viewers r = Some viewer"
  shows "beat_viewer r m = (case line m of [] \<Rightarrow> None | v # vs \<Rightarrow> Some v)"
  using assms viewer_first [OF assms(1)] line_names [OF assms(1)] by (auto simp: beat_viewer_def split: list.splits)

text \<open>
  The request of a beat names the head of the line as it is when the beat begins; the kick meets the line
  as it is when the answer is there.
\<close>

lemma beat_line:
  assumes "ok (f m)" "hb_kick r = Some kick" "net n (beat_request r m) = (n', res)"
  shows "beat net r f (n, m) = (n', if beat_kicks res then kick (f m) else f m)"
    "line (snd (beat net r f (n, m))) = line (f m)"
    "beat_kicks res \<Longrightarrow> line (settle (snd (beat net r f (n, m)))) = tl (line (f m))"
    "ok (snd (beat net r f (n, m)))"
  using assms by (simp_all add: beat_def beat_answer_def kick_line kick_settles kick_ok)

end

text \<open>
  Over a run of beats with nothing in between, as many kicks are made as beats were answered by one;
  \<open>answers\<close> are the outcomes the network gives, oldest first.
\<close>

lemma ticks_kick:
  assumes "hb_kick r = Some kick" "length answers = n"
  shows "snd (hb_loop (\<lambda>as req. (tl as, hd as)) r (replicate n (HbTick id)) (answers, m))
       = (kick ^^ length (filter beat_kicks answers)) m"
  using assms(2)
proof (induction n arbitrary: answers m)
  case (Suc n)
  obtain a as where a: "answers = a # as" "length as = n" using Suc.prems by (cases answers) auto
  have b: "beat (\<lambda>as req. (tl as, hd as)) r id (a # as, m) = (as, if beat_kicks a then kick m else m)"
    using assms(1) by (simp add: beat_def beat_answer_def)
  have f: "(kick ^^ Suc k) m = (kick ^^ k) (kick m)" for k by (simp add: funpow_swap1)
  show ?case using Suc.IH [OF a(2)] by (cases "beat_kicks a") (simp_all add: b a f del: id_apply funpow.simps)
qed simp

text \<open>The session manager: the viewer in control and behind it the wait list.\<close>

definition manager_line :: "Manager \<Rightarrow> string list" where
  "manager_line m = map (\<lambda>p. e_viewerID (entry m p)) (live m)"

lemma live_Some: "m_active m = Some p \<Longrightarrow> live m = p # m_queue m"
  by (simp add: live_def)

lemma live_None: "core_inv m \<Longrightarrow> m_active m = None \<Longrightarrow> live m = []"
  by (simp add: live_def core_inv_def live_ok_def)

lemma endSession_line:
  assumes inv: "core_inv m" and act: "m_active m = Some p"
  shows "manager_line (endSession now p kind m) = tl (manager_line m)"
proof -
  define m3 where "m3 = closeGates p (cancel p (upd_entry p (\<lambda>e. e\<lparr>e_idleTimer := None\<rparr>) m))"
  define mm where "mm = emitEvent (newEvent now kind (e_viewerID (entry (m3\<lparr>m_active := None\<rparr>) p)) 0 0) (m3\<lparr>m_active := None\<rparr>)"
  have eq: "endSession now p kind m = promote now mm" using act by (simp add: endSession_def Let_def m3_def mm_def)
  have mm: "m_queue mm = m_queue m" "m_active mm = None" "length (m_entries mm) = length (m_entries m)" by (simp_all add: m3_def mm_def)
  have live: "distinct (p # m_queue m)" "\<forall>q\<in>set (p # m_queue m). q < length (m_entries m)"
    using inv live_Some [OF act] by (simp_all add: core_inv_def live_ok_def)
  have names: "e_viewerID (entry mm q) = e_viewerID (entry m q)" "e_claims (entry mm q) = e_claims (entry m q)" if "q \<in> set (m_queue m)" for q
    using live that by (auto simp: mm_def m3_def)
  show ?thesis
  proof (cases "m_queue m")
    case Nil
    then show ?thesis using mm by (simp add: eq promote_def manager_line_def live_def act)
  next
    case (Cons nx rest)
    have nx: "nx < length (m_entries mm)" "nx \<notin> set rest" using live Cons mm by auto
    note pro = promote_Cons [where m = mm and nx = nx and rest = rest and now = now, OF mm(1) [unfolded Cons] nx(1)]
    have c: "c_ViewerID (e_claims (entry m nx)) = e_viewerID (entry m nx)"
      using inv live Cons by (auto simp: core_inv_def entries_ok_def entry_ok_def)
    have r: "e_viewerID (entry (promote now mm) q) = e_viewerID (entry m q)" if "q \<in> set rest" for q
      using pro(10) [of q] live names(1) [of q] that Cons mm(3) by auto
    have h: "e_viewerID (entry (promote now mm) (length (m_entries mm))) = e_viewerID (entry m nx)"
      using pro(9) names(2) [of nx] Cons c by (simp add: started_entry_def Let_def)
    show ?thesis using pro(1,2) Cons r h by (simp add: eq manager_line_def live_def act)
  qed
qed

text \<open>The pending call that was made last gets the lock.\<close>

definition settle_last :: "sess_state \<Rightarrow> sess_state" where
  "settle_last s = (case sess_step (\<lambda>_ _ _. False) (AEndSession (length (st_pending s) - 1)) s of None \<Rightarrow> s | Some s' \<Rightarrow> s')"

lemma settle_kick:
  assumes "m_active (st_m s) = Some p"
  shows "settle_last (MakeKickFunc s) = s\<lparr>st_m := endSession (st_now s) p EventIdleKicked (st_m s)\<rparr>"
  using assms by (simp add: settle_last_def MakeKickFunc_def Kick_locked_def call_end_def)

lemma settle_free: "m_active (st_m s) = None \<Longrightarrow> st_m (settle_last s) = st_m s"
  by (auto simp: settle_last_def endSession_def split: option.splits prod.splits if_splits)

interpretation mgr: viewer_line "\<lambda>s. manager_line (st_m s)" "\<lambda>s. CurrentViewerID (st_m s)" MakeKickFunc settle_last "\<lambda>s. core_inv (st_m s)"
proof unfold_locales
  fix s :: sess_state
  assume inv: "core_inv (st_m s)"
  have act: "e_viewerID (entry (st_m s) q) \<noteq> []" if "q \<in> set (live (st_m s))" for q
    using inv that by (auto simp: core_inv_def entries_ok_def entry_ok_def live_ok_def)
  show "CurrentViewerID (st_m s) = (case manager_line (st_m s) of [] \<Rightarrow> [] | v # vs \<Rightarrow> v)"
    using live_None [OF inv] by (cases "m_active (st_m s)") (simp_all add: CurrentViewerID_def manager_line_def live_Some)
  show "[] \<notin> set (manager_line (st_m s))" using act by (force simp: manager_line_def)
  have kick: "st_m (MakeKickFunc s) = st_m s" by (simp add: MakeKickFunc_def call_end_def split: option.splits)
  then show "manager_line (st_m (MakeKickFunc s)) = manager_line (st_m s)" "core_inv (st_m (MakeKickFunc s))"
    using inv by simp_all
  show "manager_line (st_m (settle_last (MakeKickFunc s))) = tl (manager_line (st_m s))"
  proof (cases "m_active (st_m s)")
    case None
    then show ?thesis using live_None [OF inv] settle_free [of "MakeKickFunc s"] by (simp add: kick manager_line_def)
  next
    case (Some p)
    then show ?thesis by (simp add: settle_kick endSession_line [OF inv])
  qed
qed

section \<open>The transport to the server\<close>

text \<open>
  A request of a client, as the server at \<open>base\<close> receives it: the path behind the base address in
  segments, and the \<^verbatim>\<open>Authorization\<close> header. Addresses that need escaping are outside of the model.
\<close>

definition http_request :: "string \<Rightarrow> HttpRequest \<Rightarrow> Request option" where
  "http_request base q =
     (if take (length base) (hr_URL q) = base
      then Some \<lparr>rq_Method = hr_Method q, rq_Path = tl (split_on (CHR ''/'') (drop (length base) (hr_URL q))),
             rq_Authorization = (case map_of (hr_Headers q) ''Authorization'' of None \<Rightarrow> [] | Some a \<Rightarrow> a),
             rq_Body = (case hr_Body q of None \<Rightarrow> [] | Some b \<Rightarrow> b)\<rparr>
      else None)"

definition http_response :: "Response \<Rightarrow> HttpResult" where
  "http_response p = HttpResponse (int (rs_Status p)) (case rs_Body p of None \<Rightarrow> [] | Some v \<Rightarrow> json_print v @ [CHR 0x0A])"

text \<open>Served at a time \<open>now\<close>; \<open>lost\<close> when the response does not come back.\<close>

definition http_call ::
    "sign_fun \<Rightarrow> (instant \<Rightarrow> instant \<Rightarrow> bool) \<Rightarrow> string \<Rightarrow> bool \<Rightarrow> instant \<Rightarrow> Server \<Rightarrow> HttpRequest \<Rightarrow> Server \<times> HttpResult" where
  "http_call sign after base lost now s q =
     (case http_request base q of
        None \<Rightarrow> (s, HttpFailed)
      | Some r \<Rightarrow> (let (s', p) = ServeHTTP sign after now r s in (s', if lost then HttpFailed else http_response p)))"

end
