(* ===== verification/HeartbeatProps.thy ===== *)
theory HeartbeatProps
  imports Heartbeat SessionProps ServerProps
begin

text \<open>
  The host's heartbeat against the server's API: what one beat writes and reports, that a kick asked for
  on the server ends the turn of the viewer in control when the answer arrives, once, and what becomes of
  it when a response is lost.
\<close>

section \<open>A beat that is served\<close>

lemma find_key: "distinct (map k xs) \<Longrightarrow> x \<in> set xs \<Longrightarrow> P x \<Longrightarrow> find (\<lambda>y. k y = k x \<and> P y) xs = Some x"
  by (induction xs) auto

lemma parse_heartbeatRequest:
  "json_parse_prefix (json_print (marshal_heartbeatRequest q)) = Some (marshal_heartbeatRequest q)"
  using json_parse_prefix_print [of "marshal_heartbeatRequest q" "[]"]
  by (simp add: marshal_heartbeatRequest_def del: json_print.simps split: option.splits)

lemma decode_heartbeatRequest:
  "get_field json_bool False ''online'' [(''online'', JBool b), (''current_viewer'', j)] = Some b"
  "get_ptr_str ''current_viewer'' [(''online'', JBool b), (''current_viewer'', j)] = json_ptr_str j"
  "known_fields [''online'', ''current_viewer''] [(''online'', JBool b), (''current_viewer'', j)]"
  by (auto simp: get_field_def get_ptr_str_def known_fields_def to_lower_def to_lower_char_def Let_def)

lemma decoded_heartbeatResponse:
  "beat_kicks (http_response (writeJSON 200 (JObj [(''status'', JStr ''ok''), (''kick_requested'', JBool b)]))) \<longleftrightarrow> b"
proof -
  let ?v = "JObj [(''status'', JStr ''ok''), (''kick_requested'', JBool b)]"
  have "json_parse_prefix (json_print ?v @ [CHR 0x0A]) = Some ?v"
    by (rule json_parse_prefix_print) (simp_all add: num_end_def is_digit_def)
  then show ?thesis
    by (simp add: beat_kicks_def http_response_def writeJSON_def decode_members_def decode_heartbeatResponse_def
        get_field_def to_lower_def to_lower_char_def del: json_print.simps)
qed

lemma keys_ok_upd_rooms: "keys_ok d \<Longrightarrow> (\<And>x. r_ID (f x) = r_ID x) \<Longrightarrow> keys_ok (upd_rooms i f d)"
  using map_upd_ids [of r_ID f "\<lambda>x. r_ID x = i" "db_rooms d"] by (simp add: keys_ok_def upd_rooms_def del: map_map)

text \<open>The server's side: a registered host, its room, and a database whose statements succeed.\<close>

definition served :: "Server \<Rightarrow> 'm Runner \<Rightarrow> Host \<Rightarrow> Room \<Rightarrow> bool" where
  "served sv r h room \<longleftrightarrow> keys_ok (sv_db sv) \<and> db_fail (sv_db sv) = [] \<and> h \<in> set (db_hosts (sv_db sv)) \<and> h_APIKey h = hb_apiKey r
     \<and> hb_apiKey r \<noteq> [] \<and> room \<in> set (db_rooms (sv_db sv)) \<and> r_ID room = hb_roomID r \<and> r_HostID room = h_ID h
     \<and> hb_roomID r \<noteq> [] \<and> CHR ''/'' \<notin> set (hb_roomID r)"

definition beaten :: "instant \<Rightarrow> string option \<Rightarrow> Room \<Rightarrow> Room" where
  "beaten now v room = room\<lparr>r_Online := True, r_CurrentViewer := v, r_KickRequested := False, r_UpdatedAt := now\<rparr>"

lemma served_request:
  assumes "served sv r h room"
  shows "http_request (hb_url r) (beat_request r m) =
    Some \<lparr>rq_Method = ''POST'', rq_Path = [''api'', ''rooms'', hb_roomID r, ''heartbeat''], rq_Authorization = ''Bearer '' @ hb_apiKey r,
      rq_Body = json_print (marshal_heartbeatRequest \<lparr>hq_Online = True, hq_CurrentViewer = beat_viewer r m\<rparr>)\<rparr>"
proof -
  have "split_on (CHR ''/'') (hb_roomID r @ CHR ''/'' # ''heartbeat'') = [hb_roomID r, ''heartbeat'']"
    using assms by (simp add: split_on_append_sep served_def)
  then show ?thesis by (simp add: http_request_def beat_request_def)
qed

lemma served_handler:
  assumes "served sv r h room"
  obtains sv' where "http_call sign after (hb_url r) lost now sv (beat_request r m) =
      (sv', if lost then HttpFailed
            else http_response (writeJSON 200 (JObj [(''status'', JStr ''ok''), (''kick_requested'', JBool (r_KickRequested room))])))"
    "beaten now (beat_viewer r m) room \<in> set (db_rooms (sv_db sv'))" "served sv' r h (beaten now (beat_viewer r m) room)"
proof -
  let ?i = "hb_roomID r" and ?d = "sv_db sv" and ?v = "beat_viewer r m"
  define req where "req = \<lparr>rq_Method = ''POST'', rq_Path = [''api'', ''rooms'', ?i, ''heartbeat''], rq_Authorization = ''Bearer '' @ hb_apiKey r,
      rq_Body = json_print (marshal_heartbeatRequest \<lparr>hq_Online = True, hq_CurrentViewer = ?v\<rparr>)\<rparr>"
  have req_sel: "rq_Method req = ''POST''" "rq_Path req = [''api'', ''rooms'', ?i, ''heartbeat'']" by (simp_all add: req_def)
  define d1 where "d1 = upd_rooms ?i (\<lambda>x. x\<lparr>r_Online := True, r_CurrentViewer := ?v, r_UpdatedAt := now\<rparr>) ?d"
  define d2 where "d2 = (if r_KickRequested room then upd_rooms ?i (\<lambda>x. x\<lparr>r_KickRequested := False, r_UpdatedAt := now\<rparr>) d1 else d1)"
  have ok: "keys_ok ?d" "db_fail ?d = []" "h \<in> set (db_hosts ?d)" "h_APIKey h = hb_apiKey r" "hb_apiKey r \<noteq> []"
    "room \<in> set (db_rooms ?d)" "r_ID room = ?i" "r_HostID room = h_ID h" "?i \<noteq> []"
    using assms by (simp_all add: served_def)
  have fh: "find (\<lambda>x. h_APIKey x = hb_apiKey r) (db_hosts ?d) = Some h"
    using find_key [of h_APIKey "db_hosts ?d" h "\<lambda>_. True"] ok by (simp add: keys_ok_def)
  have fr: "find (\<lambda>x. r_ID x = ?i \<and> r_HostID x = h_ID h) (db_rooms ?d) = Some room"
    using find_key [of r_ID "db_rooms ?d" room "\<lambda>x. r_HostID x = h_ID h"] ok by (simp add: keys_ok_def)
  have st: "stmt ?d = (False, ?d)" "stmt d1 = (False, d1)" using ok(2) by (simp_all add: stmt_def d1_def upd_rooms_def)
  have own: "own_room req ?i sv = (sv, Inr (h, room))"
    using ok(5) fh fr st
    by (simp add: req_def own_room_def requireHost_def bearerToken_def on_db_def GetHostByAPIKey_def GetRoomByIDAndHostID_def query_row_def Let_def)
  have body: "decodeJSON [''online'', ''current_viewer''] req = Some [(''online'', JBool True), (''current_viewer'', case ?v of None \<Rightarrow> JNull | Some v \<Rightarrow> JStr v)]"
    unfolding decodeJSON_def using parse_heartbeatRequest [of "\<lparr>hq_Online = True, hq_CurrentViewer = ?v\<rparr>"]
    by (simp add: req_def marshal_heartbeatRequest_def decode_heartbeatRequest del: json_print.simps)
  have ptr: "json_ptr_str (case ?v of None \<Rightarrow> JNull | Some v \<Rightarrow> JStr v) = Some ?v" by (simp split: option.splits)
  have upd: "on_db (UpdateRoomHeartbeat now ?i True ?v) sv = (sv\<lparr>sv_db := d1\<rparr>, None)"
    using st by (simp add: on_db_def UpdateRoomHeartbeat_def exec_def d1_def)
  have kick: "on_db (SetRoomKickRequested now ?i False) (sv\<lparr>sv_db := d1\<rparr>) =
      (sv\<lparr>sv_db := upd_rooms ?i (\<lambda>x. x\<lparr>r_KickRequested := False, r_UpdatedAt := now\<rparr>) d1\<rparr>, None)"
    using st by (simp add: on_db_def SetRoomKickRequested_def exec_def)
  have h: "handleHeartbeat now req ?i sv =
      (sv\<lparr>sv_db := d2\<rparr>, writeJSON 200 (JObj [(''status'', JStr ''ok''), (''kick_requested'', JBool (r_KickRequested room))]))"
    using upd kick by (simp add: handleHeartbeat_def own body decode_heartbeatRequest ptr d2_def Let_def)
  have "http_call sign after (hb_url r) lost now sv (beat_request r m) =
      (sv\<lparr>sv_db := d2\<rparr>, if lost then HttpFailed
            else http_response (writeJSON 200 (JObj [(''status'', JStr ''ok''), (''kick_requested'', JBool (r_KickRequested room))])))"
    using h ok(9) by (simp add: http_call_def served_request [OF assms, of m, folded req_def] ServeHTTP_def mux_def Let_def req_sel)
  moreover have in2: "beaten now ?v room \<in> set (db_rooms d2)"
    using ok(6,7) by (force simp: d2_def d1_def upd_rooms_def beaten_def image_iff split: if_splits)
  moreover have "keys_ok d2" using ok(1) by (simp add: d2_def d1_def keys_ok_upd_rooms)
  then have "served (sv\<lparr>sv_db := d2\<rparr>) r h (beaten now ?v room)"
    using assms in2 by (simp add: served_def d2_def d1_def upd_rooms_def beaten_def)
  ultimately show thesis by (intro that [of "sv\<lparr>sv_db := d2\<rparr>"]) simp_all
qed

section \<open>A kick, end to end\<close>

lemma host_heartbeat_sel [simp]:
  "hb_viewers (host_heartbeat cfg True) = Some (\<lambda>s. CurrentViewerID (st_m s))" "hb_kick (host_heartbeat cfg True) = Some MakeKickFunc"
  by (simp_all add: host_heartbeat_def heartbeat_New_def Let_def)

lemma served_beat:
  fixes r :: "sess_state Runner"
  assumes "served sv r h room" "hb_kick r = Some MakeKickFunc"
  obtains sv' where "beat (http_call sign after (hb_url r) lost now) r f (sv, s) =
      (sv', if \<not> lost \<and> r_KickRequested room then MakeKickFunc (f s) else f s)"
    "beaten now (beat_viewer r s) room \<in> set (db_rooms (sv_db sv'))" "served sv' r h (beaten now (beat_viewer r s) room)"
proof -
  obtain sv' where sv': "http_call sign after (hb_url r) lost now sv (beat_request r s) =
      (sv', if lost then HttpFailed
            else http_response (writeJSON 200 (JObj [(''status'', JStr ''ok''), (''kick_requested'', JBool (r_KickRequested room))])))"
    "beaten now (beat_viewer r s) room \<in> set (db_rooms (sv_db sv'))" "served sv' r h (beaten now (beat_viewer r s) room)"
    by (rule served_handler [OF assms(1)])
  have "beat (http_call sign after (hb_url r) lost now) r f (sv, s) =
      (sv', if \<not> lost \<and> r_KickRequested room then MakeKickFunc (f s) else f s)"
    using sv'(1) assms(2) decoded_heartbeatResponse [of "r_KickRequested room"]
    by (cases lost) (simp_all add: beat_def beat_answer_def, simp add: beat_kicks_def)
  then show thesis using sv'(2,3) by (rule that)
qed

text \<open>What becomes of the call a kick has made: it waits for the lock as long as the turn lasts.\<close>

lemma kick_call_outcome:
  assumes inv: "core_inv (st_m s)" and act: "m_active (st_m s) = Some p"
    and run: "sess_run v as (call_end s (st_m s) (p, kind)) = Some s'"
  shows "if m_active (st_m s') = Some p
    then \<exists>k s2. k < length (st_pending s') \<and> st_pending s' ! k = (p, kind)
           \<and> sess_step v (AEndSession k) s' = Some s2 \<and> manager_line (st_m s2) = tl (manager_line (st_m s'))
    else \<forall>k s2. st_pending s' ! k = (p, kind) \<longrightarrow> sess_step v (AEndSession k) s' = Some s2 \<longrightarrow> st_m s2 = st_m s'"
proof (cases "m_active (st_m s') = Some p")
  case True
  let ?s = "call_end s (st_m s) (p, kind)"
  have i: "core_inv (st_m ?s)" "p < length (m_entries (st_m ?s))" "(p, kind) \<in> set (st_pending ?s)"
    using inv active_range [OF inv act] by (simp_all add: call_end_def)
  have inv': "core_inv (st_m s')" by (rule core_inv_run [OF i(1) run])
  obtain k where k: "k < length (st_pending s')" "st_pending s' ! k = (p, kind)"
    using pending_run [OF i(1) run i(2,3) True] by (auto simp: in_set_conv_nth)
  then show ?thesis using True endSession_line [OF inv' True, of "st_now s'" kind] by (auto intro!: exI [of _ k])
next
  case False
  then show ?thesis by (auto simp: endSession_def split: if_splits)
qed

text \<open>
  C10. A kick asked for on the server ends one turn, once: the turn of the viewer who is in control
  when the server's answer reaches the host. A beat that the server serves marks the room online with
  the viewer in control as the request was built (\<open>s\<close>) and clears the flag. If the flag was set, the host
  calls \<^verbatim>\<open>endSession\<close> for the controller of the manager as the round trip has left it (\<open>s1\<close>, after
  whatever steps \<open>as\<close>), and does nothing else; as long as that turn lasts, whatever happens, the call
  is pending, and when it gets the lock the line moves up by exactly one; if the turn has ended by then,
  the call changes nothing. Without the flag nothing is done. The next beat the server serves, whatever
  happens to the manager before and during it, kicks nobody, unless the server has been asked again.
\<close>

theorem kick_reaches_controller:
  assumes "sess_reachable v c pk s" "served sv (host_heartbeat cfg True) h room"
    and "sess_run v as s = Some s1"
    and "beat (http_call sign after (svc_URL (hc_Server cfg)) False now) (host_heartbeat cfg True) (\<lambda>_. s1) (sv, s) = (sv1, s2)"
  shows "(\<exists>room1\<in>set (db_rooms (sv_db sv1)). r_ID room1 = sgc_RoomID (hc_Signaling cfg) \<and> r_Online room1 \<and> \<not> r_KickRequested room1
            \<and> r_CurrentViewer room1 = (case manager_line (st_m s) of [] \<Rightarrow> None | viewer # waiting \<Rightarrow> Some viewer))
    \<and> s2 = (case m_active (st_m s1) of
              None \<Rightarrow> s1
            | Some p \<Rightarrow> if r_KickRequested room then call_end s1 (st_m s1) (p, EventIdleKicked) else s1)
    \<and> (\<forall>p bs s3. r_KickRequested room \<longrightarrow> m_active (st_m s1) = Some p \<longrightarrow> sess_run v bs s2 = Some s3 \<longrightarrow>
         (if m_active (st_m s3) = Some p
          then \<exists>k s4. k < length (st_pending s3) \<and> st_pending s3 ! k = (p, EventIdleKicked)
                 \<and> sess_step v (AEndSession k) s3 = Some s4 \<and> manager_line (st_m s4) = tl (manager_line (st_m s3))
          else \<forall>k s4. st_pending s3 ! k = (p, EventIdleKicked) \<longrightarrow> sess_step v (AEndSession k) s3 = Some s4 \<longrightarrow> st_m s4 = st_m s3))
    \<and> (\<forall>now2 f s' sv2 s''. beat (http_call sign after (svc_URL (hc_Server cfg)) False now2) (host_heartbeat cfg True) f (sv1, s') = (sv2, s'')
         \<longrightarrow> s'' = f s')"
proof -
  let ?r = "host_heartbeat cfg True"
  have url: "hb_url ?r = svc_URL (hc_Server cfg)" "hb_roomID ?r = sgc_RoomID (hc_Signaling cfg)"
    by (simp_all add: host_heartbeat_def heartbeat_New_def Let_def)
  have ok: "core_inv (st_m s)" "core_inv (st_m s1)"
    using sess_inv_reachable [OF assms(1)] sess_inv_reachable [OF sess_run_reachable [OF assms(1,3)]] by (simp_all add: sess_inv_def)
  let ?room1 = "beaten now (beat_viewer ?r s) room"
  obtain sv' where b1: "beat (http_call sign after (hb_url ?r) False now) ?r (\<lambda>_. s1) (sv, s) =
      (sv', if r_KickRequested room then MakeKickFunc s1 else s1)"
    "?room1 \<in> set (db_rooms (sv_db sv'))" "served sv' ?r h ?room1"
    using served_beat [OF assms(2) host_heartbeat_sel(2), of sign after False now "\<lambda>_. s1" s] by auto
  then have one: "sv1 = sv'" "s2 = (if r_KickRequested room then MakeKickFunc s1 else s1)"
    using assms(4) by (simp_all add: url)
  have written: "?room1 \<in> set (db_rooms (sv_db sv1)) \<and> r_ID ?room1 = sgc_RoomID (hc_Signaling cfg) \<and> r_Online ?room1 \<and> \<not> r_KickRequested ?room1
      \<and> r_CurrentViewer ?room1 = (case manager_line (st_m s) of [] \<Rightarrow> None | viewer # waiting \<Rightarrow> Some viewer)"
    using assms(2) b1(2) mgr.viewer_reported [OF ok(1) host_heartbeat_sel(1)] by (simp add: beaten_def served_def url one(1))
  have report: "\<exists>room1\<in>set (db_rooms (sv_db sv1)). r_ID room1 = sgc_RoomID (hc_Signaling cfg) \<and> r_Online room1 \<and> \<not> r_KickRequested room1
      \<and> r_CurrentViewer room1 = (case manager_line (st_m s) of [] \<Rightarrow> None | viewer # waiting \<Rightarrow> Some viewer)" 
    using written by (elim conjE) (intro bexI [where x = ?room1] conjI)
  have s2: "s2 = (case m_active (st_m s1) of None \<Rightarrow> s1
      | Some p \<Rightarrow> if r_KickRequested room then call_end s1 (st_m s1) (p, EventIdleKicked) else s1)"
    by (simp add: one(2) MakeKickFunc_def Kick_locked_def split: option.splits)
  have "sess_run v bs (call_end s1 (st_m s1) (p, EventIdleKicked)) = Some s3"
    if "r_KickRequested room" "m_active (st_m s1) = Some p" "sess_run v bs s2 = Some s3" for p bs s3
    using that by (simp add: s2)
  note outcome = kick_call_outcome [OF ok(2) _ this]
  have next_beat: "s'' = f s'" if "beat (http_call sign after (svc_URL (hc_Server cfg)) False now2) ?r f (sv1, s') = (sv2, s'')" for now2 f s' sv2 s''
    using served_beat [OF b1(3) host_heartbeat_sel(2), of sign after False now2 f s'] that by (auto simp: beaten_def url one(1))
  show ?thesis by (intro conjI report s2 allI impI) (rule outcome, assumption+, rule next_beat, assumption)
qed

definition ex_hb_cfg :: HostConfig where
  "ex_hb_cfg = config_Default\<lparr>hc_Server := \<lparr>svc_URL = ''http://s'', svc_APIKey = ''key'', svc_HeartbeatIntervalSeconds = 0\<rparr>,
     hc_Signaling := (hc_Signaling config_Default)\<lparr>sgc_RoomID := ''r''\<rparr>\<rparr>"

definition ex_kick_server :: Server where
  "ex_kick_server = fst (handleKick 1 (ex_post [] []) ''r'' ex_server)"

definition ex_kick_room :: Room where
  "ex_kick_room = hd (db_rooms (sv_db ex_kick_server))"

lemma ex_served: "served ex_kick_server (host_heartbeat ex_hb_cfg True) (hd (db_hosts (sv_db ex_kick_server))) ex_kick_room"
  by (simp only: served_def, intro conjI) code_simp+

lemma ex_kick_flag: "r_KickRequested ex_kick_room"
  by code_simp

text \<open>
  The witness is also what the flag cannot prevent: the streamer asks for a kick while \<open>v1\<close> is in
  control, the beat reports \<open>v1\<close>, the turn of \<open>v1\<close> ends while the beat is on its way, and the
  kick ends the turn that \<open>v2\<close> has just been given.
\<close>

definition ex_swapped :: sess_state where
  "ex_swapped = the (sess_run ex_verify [ARelease 0, AEndSession 0] ex_s2)"

lemma ex_swapped_run: "sess_run ex_verify [ARelease 0, AEndSession 0] ex_s2 = Some ex_swapped"
proof -
  have "\<not> Option.is_none (sess_run ex_verify [ARelease 0, AEndSession 0] ex_s2)" by code_simp
  then show ?thesis by (auto simp: ex_swapped_def Option.is_none_def)
qed

theorem kick_reaches_controller_witness:
  "\<exists>sv1 s2 k s3. beat (http_call (\<lambda>_ _. []) (\<lambda>_ _. True) ''http://s'' False 5) (host_heartbeat ex_hb_cfg True)
       (\<lambda>_. ex_swapped) (ex_kick_server, ex_s2) = (sv1, s2)
     \<and> manager_line (st_m ex_s2) = [''v1'', ''v2''] \<and> (\<exists>room1\<in>set (db_rooms (sv_db sv1)). r_CurrentViewer room1 = Some ''v1'')
     \<and> manager_line (st_m s2) = [''v2''] \<and> sess_step ex_verify (AEndSession k) s2 = Some s3 \<and> manager_line (st_m s3) = []"
proof -
  let ?net = "http_call (\<lambda>_ _. []) (\<lambda>_ _. True) ''http://s'' False" and ?r = "host_heartbeat ex_hb_cfg True"
  obtain sv1 s2 where b1: "beat (?net 5) ?r (\<lambda>_. ex_swapped) (ex_kick_server, ex_s2) = (sv1, s2)" by fastforce
  have u: "svc_URL (hc_Server ex_hb_cfg) = ''http://s''" by (simp add: ex_hb_cfg_def)
  have l: "manager_line (st_m ex_s2) = [''v1'', ''v2'']" "manager_line (st_m ex_swapped) = [''v2'']" "m_active (st_m ex_swapped) = Some 2"
    by code_simp+
  note k = kick_reaches_controller [OF ex_s2_reachable ex_served ex_swapped_run, unfolded u, OF b1]
  have r: "\<exists>room1\<in>set (db_rooms (sv_db sv1)). r_CurrentViewer room1 = Some ''v1''" using k l(1) by auto
  have s2: "s2 = call_end ex_swapped (st_m ex_swapped) (2, EventIdleKicked)" using k l(3) ex_kick_flag by simp
  then have m2: "m_active (st_m s2) = Some 2" "manager_line (st_m s2) = [''v2'']" using l by (simp_all add: call_end_def)
  have "sess_run ex_verify [] s2 = Some s2" by simp
  then obtain i s3 where "sess_step ex_verify (AEndSession i) s2 = Some s3" "manager_line (st_m s3) = tl (manager_line (st_m s2))"
    using k ex_kick_flag l(3) m2(1) by meson
  with b1 l(1) r m2 show ?thesis by (intro exI [of _ sv1] exI [of _ s2] exI [of _ i] exI [of _ s3]) simp
qed

text \<open>
  The flag is cleared when the server answers, not when the host has acted: if the response of the
  beat that carries the kick is lost, nothing happens to the viewer in control, and no later beat kicks
  it either, although the streamer's request had been accepted.
\<close>

theorem kick_lost_with_response:
  assumes "served sv (host_heartbeat cfg True) h room"
    and "beat (http_call sign after (svc_URL (hc_Server cfg)) True now) (host_heartbeat cfg True) f (sv, s) = (sv1, s1)"
    and "beat (http_call sign after (svc_URL (hc_Server cfg)) False now2) (host_heartbeat cfg True) g (sv1, s') = (sv2, s2)"
  shows "s1 = f s \<and> s2 = g s' \<and> (sgc_RoomID (hc_Signaling cfg), False) \<in> set (kicks sv1)"
proof -
  let ?r = "host_heartbeat cfg True"
  have url: "hb_url ?r = svc_URL (hc_Server cfg)" "hb_roomID ?r = sgc_RoomID (hc_Signaling cfg)"
    by (simp_all add: host_heartbeat_def heartbeat_New_def Let_def)
  let ?room1 = "beaten now (beat_viewer ?r s) room"
  obtain sv' where b1: "beat (http_call sign after (hb_url ?r) True now) ?r f (sv, s) = (sv', f s)"
    "?room1 \<in> set (db_rooms (sv_db sv'))" "served sv' ?r h ?room1"
    using served_beat [OF assms(1) host_heartbeat_sel(2), of sign after True now f s] by auto
  then have one: "sv1 = sv'" "s1 = f s" using assms(2) by (simp_all add: url)
  obtain sv'' where "beat (http_call sign after (hb_url ?r) False now2) ?r g (sv', s') = (sv'', g s')"
    using served_beat [OF b1(3) host_heartbeat_sel(2), of sign after False now2 g s'] by (auto simp: beaten_def)
  then have "s2 = g s'" using assms(3) by (simp add: url one)
  moreover have "(r_ID ?room1, r_KickRequested ?room1) \<in> set (kicks sv1)" using b1(2) by (force simp: kicks_def one(1))
  ultimately show ?thesis using one(2) assms(1) by (simp add: beaten_def served_def url)
qed

theorem kick_lost_with_response_witness:
  "\<exists>sv1 sv2. beat (http_call (\<lambda>_ _. []) (\<lambda>_ _. True) ''http://s'' True 5) (host_heartbeat ex_hb_cfg True) id (ex_kick_server, ex_s2) = (sv1, ex_s2)
     \<and> beat (http_call (\<lambda>_ _. []) (\<lambda>_ _. True) ''http://s'' False 6) (host_heartbeat ex_hb_cfg True) id (sv1, ex_s2) = (sv2, ex_s2)
     \<and> r_KickRequested ex_kick_room"
proof -
  let ?net = "http_call (\<lambda>_ _. []) (\<lambda>_ _. True) ''http://s''" and ?r = "host_heartbeat ex_hb_cfg True"
  obtain sv1 s1 where b1: "beat (?net True 5) ?r id (ex_kick_server, ex_s2) = (sv1, s1)" by fastforce
  obtain sv2 s2 where b2: "beat (?net False 6) ?r id (sv1, ex_s2) = (sv2, s2)" by fastforce
  have u: "svc_URL (hc_Server ex_hb_cfg) = ''http://s''" by (simp add: ex_hb_cfg_def)
  show ?thesis using kick_lost_with_response [OF ex_served, unfolded u, OF b1 b2] b1 b2 ex_kick_flag by auto
qed

end
