(* ===== verification/Url.thy ===== *)
theory Url
  imports Json "HOL-Library.List_Lexorder" "HOL-Library.Char_ord"
begin

text \<open>
  The part of package \<^verbatim>\<open>net/url\<close> the host uses: the escaping of query components and the query string
  of a URL. A \<^verbatim>\<open>url.Values\<close> is kept as an association list sorted by its keys, the order in which
  \<^verbatim>\<open>Encode\<close> writes them.
\<close>

section \<open>Query components\<close>

definition query_unreserved :: "char \<Rightarrow> bool" where
  "query_unreserved x \<longleftrightarrow> (let n = of_char x :: nat in
     (48 \<le> n \<and> n \<le> 57) \<or> (65 \<le> n \<and> n \<le> 90) \<or> (97 \<le> n \<and> n \<le> 122) \<or> x \<in> set ''-_.~'')"

definition upper_hex :: "nat \<Rightarrow> char" where
  "upper_hex d = ''0123456789ABCDEF'' ! d"

definition escape_char :: "char \<Rightarrow> string" where
  "escape_char x =
     (if x = CHR '' '' then ''+'' else if query_unreserved x then [x]
      else [CHR ''%'', upper_hex (of_char x div 16), upper_hex (of_char x mod 16)])"

definition QueryEscape :: "string \<Rightarrow> string" where
  "QueryEscape s = concat (map escape_char s)"

fun QueryUnescape :: "string \<Rightarrow> string option" where
  "QueryUnescape [] = Some []"
| "QueryUnescape (c # s) =
     (if c = CHR ''%'' then
        (case s of
           h # l # r \<Rightarrow>
             (case (hex_val h, hex_val l) of
                (Some a, Some b) \<Rightarrow> map_option ((#) (char_of (16 * a + b))) (QueryUnescape r)
              | _ \<Rightarrow> None)
         | _ \<Rightarrow> None)
      else map_option ((#) (if c = CHR ''+'' then CHR '' '' else c)) (QueryUnescape s))"

lemma hex_val_upper: "n < 16 \<Longrightarrow> hex_val (upper_hex n) = Some n"
proof -
  have "\<forall>n \<in> {..<16}. hex_val (upper_hex n) = Some n" by code_simp
  then show "n < 16 \<Longrightarrow> hex_val (upper_hex n) = Some n" by simp
qed

lemma unescape_char: "QueryUnescape (escape_char x @ s) = map_option ((#) x) (QueryUnescape s)"
proof -
  have b: "of_char x div 16 < (16 :: nat)" "of_char x mod 16 < (16 :: nat)"
    using nat_of_char_less_256 [of x] by (simp_all add: less_mult_imp_div_less)
  have h: "16 * (of_char x div 16) + of_char x mod 16 = (of_char x :: nat)" by simp
  consider "x = CHR '' ''" | "query_unreserved x" | "x \<noteq> CHR '' ''" "\<not> query_unreserved x" by blast
  then show ?thesis
  proof cases
    case 2
    then have "x \<noteq> CHR ''%''" "x \<noteq> CHR ''+''" "x \<noteq> CHR '' ''" by (auto simp: query_unreserved_def)
    with 2 show ?thesis by (simp add: escape_char_def)
  qed (use b h in \<open>simp_all add: escape_char_def hex_val_upper\<close>)
qed

theorem QueryUnescape_Escape: "QueryUnescape (QueryEscape s) = Some s"
  by (induction s) (simp_all add: QueryEscape_def unescape_char)

text \<open>An escaped component holds none of the characters that structure a query.\<close>

lemma escape_chars: "c \<in> set (escape_char x) \<Longrightarrow> query_unreserved c \<or> c = CHR ''+'' \<or> c = CHR ''%''"
proof -
  have b: "of_char x div 16 < (16 :: nat)" "of_char x mod 16 < (16 :: nat)"
    using nat_of_char_less_256 [of x] by (simp_all add: less_mult_imp_div_less)
  have "\<forall>n \<in> {..<16}. query_unreserved (upper_hex n)" by code_simp
  then have "query_unreserved (upper_hex (of_char x div 16))" "query_unreserved (upper_hex (of_char x mod 16))" using b by simp_all
  then show "c \<in> set (escape_char x) \<Longrightarrow> ?thesis" by (auto simp: escape_char_def split: if_splits)
qed

lemma QueryEscape_plain: "CHR ''&'' \<notin> set (QueryEscape s)" "CHR ''='' \<notin> set (QueryEscape s)" "CHR '';'' \<notin> set (QueryEscape s)"
  by (auto simp: QueryEscape_def query_unreserved_def dest!: escape_chars)

section \<open>Query strings\<close>

type_synonym Values = "(string \<times> string list) list"

fun values_upd :: "string \<Rightarrow> (string list \<Rightarrow> string list) \<Rightarrow> Values \<Rightarrow> Values" where
  "values_upd k f [] = [(k, f [])]"
| "values_upd k f ((k', vs) # m) =
     (if k < k' then (k, f []) # (k', vs) # m
      else if k = k' then (k, f vs) # m
      else (k', vs) # values_upd k f m)"

definition Values_Set :: "string \<Rightarrow> string \<Rightarrow> Values \<Rightarrow> Values" where
  "Values_Set k v = values_upd k (\<lambda>_. [v])"

definition Values_Add :: "string \<Rightarrow> string \<Rightarrow> Values \<Rightarrow> Values" where
  "Values_Add k v = values_upd k (\<lambda>vs. vs @ [v])"

definition Values_Get :: "string \<Rightarrow> Values \<Rightarrow> string" where
  "Values_Get k m = (case map_of m k of Some (v # vs) \<Rightarrow> v | _ \<Rightarrow> [])"

definition query_pair :: "string \<Rightarrow> string \<Rightarrow> string" where
  "query_pair k v = QueryEscape k @ CHR ''='' # QueryEscape v"

definition Values_Encode :: "Values \<Rightarrow> string" where
  "Values_Encode m = join ''&'' (concat (map (\<lambda>(k, vs). map (query_pair k) vs) m))"

text \<open>\<^verbatim>\<open>ParseQuery\<close>, whose error \<^verbatim>\<open>URL.Query\<close> ignores: settings that cannot be read are left out.\<close>

definition parse_pair :: "string \<Rightarrow> Values \<Rightarrow> Values" where
  "parse_pair s m =
     (if CHR '';'' \<in> set s \<or> s = [] then m
      else case (QueryUnescape (takeWhile (\<lambda>c. c \<noteq> CHR ''='') s), QueryUnescape (tl (dropWhile (\<lambda>c. c \<noteq> CHR ''='') s))) of
             (Some k, Some v) \<Rightarrow> Values_Add k v m
           | _ \<Rightarrow> m)"

definition ParseQuery :: "string \<Rightarrow> Values" where
  "ParseQuery s = fold parse_pair (split_on (CHR ''&'') s) []"

definition values_ok :: "Values \<Rightarrow> bool" where
  "values_ok m \<longleftrightarrow> sorted_wrt (<) (map fst m) \<and> [] \<notin> set (map snd m)"

lemma values_upd_keys: "set (map fst (values_upd k f m)) = insert k (set (map fst m))"
  by (induction k f m rule: values_upd.induct) auto

lemma values_upd_ok: "values_ok m \<Longrightarrow> (\<And>vs. f vs \<noteq> []) \<Longrightarrow> values_ok (values_upd k f m)"
proof (induction k f m rule: values_upd.induct)
  case (2 k f k' vs m)
  then have "f us \<noteq> [] \<and> [] \<noteq> f us" for us by metis
  with 2 show ?case
    using values_upd_keys [of k f m] by (auto simp: values_ok_def not_less simp flip: set_map dest: order.strict_trans)
next
  case (1 k f)
  then have "f [] \<noteq> [] \<and> [] \<noteq> f []" by metis
  then show ?case by (simp add: values_ok_def)
qed

lemma values_upd_map: "map_of (values_upd k f m) = (map_of m)(k \<mapsto> f (case map_of m k of Some vs \<Rightarrow> vs | None \<Rightarrow> []))"
  if "sorted_wrt (<) (map fst m)"
  using that
proof (induction k f m rule: values_upd.induct)
  case (2 k f k' vs m)
  have "k \<notin> fst ` set m" if "k < k'" using 2(2) that by (auto dest: order.strict_trans)
  then have "k < k' \<Longrightarrow> map_of m k = None" by (simp add: map_of_eq_None_iff)
  with 2 show ?case by (auto simp: fun_upd_twist)
qed auto

lemma ParseQuery_ok: "values_ok (ParseQuery s)"
proof -
  have "values_ok m \<Longrightarrow> values_ok (fold parse_pair ps m)" for ps m
    by (induction ps arbitrary: m) (auto simp: parse_pair_def Values_Add_def values_upd_ok split: option.splits)
  then show ?thesis by (simp add: ParseQuery_def values_ok_def)
qed

lemma Values_Get_Set: "values_ok m \<Longrightarrow> Values_Get k (Values_Set k' v m) = (if k = k' then v else Values_Get k m)"
  by (simp add: Values_Get_def Values_Set_def values_ok_def values_upd_map)

lemma parse_query_pair: "parse_pair (query_pair k v) m = Values_Add k v m"
proof -
  have "takeWhile (\<lambda>c. c \<noteq> CHR ''='') (query_pair k v) = QueryEscape k"
    "dropWhile (\<lambda>c. c \<noteq> CHR ''='') (query_pair k v) = CHR ''='' # QueryEscape v"
    using QueryEscape_plain(2) [of k] by (auto simp: query_pair_def takeWhile_append dropWhile_append)
  moreover have "CHR '';'' \<notin> set (query_pair k v)" "query_pair k v \<noteq> []"
    using QueryEscape_plain(3) by (auto simp: query_pair_def)
  ultimately show ?thesis by (simp add: parse_pair_def QueryUnescape_Escape)
qed

lemma split_join: "ps \<noteq> [] \<Longrightarrow> \<forall>p\<in>set ps. c \<notin> set p \<Longrightarrow> split_on c (join [c] ps) = ps"
  by (induction "[c]" ps rule: join.induct) (auto simp: split_on_no_sep split_on_append_sep)

lemma upd_last:
  assumes "\<forall>k'\<in>set (map fst m). k' < k"
  shows "values_upd k f m = m @ [(k, f [])]" "values_upd k f (m @ [(k, vs)]) = m @ [(k, f vs)]"
  using assms by (induction m) (auto simp: not_less_iff_gr_or_eq)

lemma add_all:
  assumes "\<forall>k'\<in>set (map fst m). k' < k"
  shows "fold parse_pair (map (query_pair k) vs) (m @ [(k, us)]) = m @ [(k, us @ vs)]"
  by (induction vs arbitrary: us) (simp_all add: parse_query_pair Values_Add_def upd_last(2) [OF assms])

lemma parse_pairs:
  "values_ok (m @ m') \<Longrightarrow> fold parse_pair (concat (map (\<lambda>(k, vs). map (query_pair k) vs) m')) m = m @ m'"
proof (induction m' arbitrary: m)
  case (Cons x m')
  obtain k vs where x: "x = (k, vs)" by fastforce
  obtain v vs' where vs: "vs = v # vs'" using Cons.prems x by (cases vs) (auto simp: values_ok_def)
  have lt: "\<forall>k'\<in>set (map fst m). k' < k" using Cons.prems x by (auto simp: values_ok_def sorted_wrt_append)
  have "fold parse_pair (map (query_pair k) vs) m = m @ [(k, vs)]"
    using add_all [OF lt, of vs' "[v]"] by (simp add: vs parse_query_pair Values_Add_def upd_last(1) [OF lt])
  then show ?case using Cons.IH [of "m @ [x]"] Cons.prems x by simp
qed simp

text \<open>The query string of a set of values is read back as the same values.\<close>

theorem ParseQuery_Encode:
  assumes "values_ok m"
  shows "ParseQuery (Values_Encode m) = m"
proof -
  let ?ps = "concat (map (\<lambda>(k, vs). map (query_pair k) vs) m)"
  have plain: "\<forall>p\<in>set ?ps. CHR ''&'' \<notin> set p" using QueryEscape_plain(1) by (auto simp: query_pair_def)
  have "fold parse_pair ?ps [] = m" using parse_pairs [of "[]" m] assms by simp
  moreover have "ParseQuery (Values_Encode m) = fold parse_pair ?ps []"
  proof (cases "?ps = []")
    case True
    then show ?thesis unfolding ParseQuery_def Values_Encode_def True by (simp add: parse_pair_def)
  next
    case False
    then show ?thesis using split_join [OF False plain] by (simp add: ParseQuery_def Values_Encode_def)
  qed
  ultimately show ?thesis by simp
qed

end
