(* ===== verification/Sunshine.thy ===== *)
theory Sunshine
  imports Http Base64 Url Session
begin

text \<open>
  The Sunshine agent (\<^verbatim>\<open>playgate-host/internal/sunshine\<close>: \<^verbatim>\<open>endpoints.go\<close>, \<^verbatim>\<open>client.go\<close>, \<^verbatim>\<open>agent.go\<close>) and
  the claims of its command (\<^verbatim>\<open>cmd/sunshine-agent/main.go\<close>). The network is a parameter with a state of
  its own: the outcome of each request, and whether the context ends during a wait.
\<close>

section \<open>Endpoints and configuration\<close>

abbreviation endpointStatus :: string where "endpointStatus \<equiv> ''/api/status''"
abbreviation endpointClients :: string where "endpointClients \<equiv> ''/api/clients''"
abbreviation endpointPairPinApprove :: string where "endpointPairPinApprove \<equiv> ''/api/pin''"
abbreviation endpointCloseApp :: string where "endpointCloseApp \<equiv> ''/api/apps/close''"

record ClientConfig =
  scf_BaseURL :: string
  scf_Username :: string
  scf_Password :: string
  scf_InsecureSkipVerify :: bool
  scf_Timeout :: duration
  scf_MaxRetries :: int
  scf_RetryDelay :: duration
  scf_OverrideStatus :: string
  scf_OverridePairPin :: string
  scf_OverrideCloseApp :: string
  scf_OverrideClients :: string

definition client_baseURL :: "ClientConfig \<Rightarrow> string" where
  "client_baseURL c = (if scf_BaseURL c \<noteq> [] then trim_right (CHR ''/'') (scf_BaseURL c) else ''https://localhost:47990'')"

definition client_timeout :: "ClientConfig \<Rightarrow> duration" where
  "client_timeout c = (if scf_Timeout c > 0 then scf_Timeout c else 10 * Second)"

definition maxRetries :: "ClientConfig \<Rightarrow> int" where
  "maxRetries c = (if scf_MaxRetries c > 0 then scf_MaxRetries c else 2)"

definition retryDelay :: "ClientConfig \<Rightarrow> duration" where
  "retryDelay c = (if scf_RetryDelay c > 0 then scf_RetryDelay c else 500 * Millisecond)"

definition path_or :: "string \<Rightarrow> string \<Rightarrow> string" where
  "path_or ovr path = (if ovr \<noteq> [] then ovr else path)"

abbreviation pathStatus :: "ClientConfig \<Rightarrow> string" where "pathStatus c \<equiv> path_or (scf_OverrideStatus c) endpointStatus"
abbreviation pathPairPin :: "ClientConfig \<Rightarrow> string" where "pathPairPin c \<equiv> path_or (scf_OverridePairPin c) endpointPairPinApprove"
abbreviation pathCloseApp :: "ClientConfig \<Rightarrow> string" where "pathCloseApp c \<equiv> path_or (scf_OverrideCloseApp c) endpointCloseApp"
abbreviation pathClients :: "ClientConfig \<Rightarrow> string" where "pathClients c \<equiv> path_or (scf_OverrideClients c) endpointClients"

text \<open>\<^verbatim>\<open>NewHTTPClient\<close>: the limits of the \<^verbatim>\<open>http.Client\<close> it builds.\<close>

record http_client =
  hcl_Timeout :: duration
  hcl_InsecureSkipVerify :: bool

definition NewHTTPClient :: "ClientConfig \<Rightarrow> ClientConfig \<times> http_client" where
  "NewHTTPClient c = (c, \<lparr>hcl_Timeout = client_timeout c, hcl_InsecureSkipVerify = scf_InsecureSkipVerify c\<rparr>)"

section \<open>Decoded responses\<close>

record StatusInfo =
  si_Version :: string
  si_Platform :: string
  si_Extra :: "(string \<times> json) list"

record ClientInfo =
  ci_Name :: string
  ci_Cert :: string

text \<open>A key of a Go map built from the members: exact, and the last member of that name.\<close>

definition raw_key :: "string \<Rightarrow> (string \<times> json) list \<Rightarrow> json option" where
  "raw_key k ms = map_of (rev ms) k"

text \<open>A value that is no string leaves the field as it was. \<open>si_Extra\<close> keeps the other members.\<close>

definition raw_string :: "json option \<Rightarrow> string" where
  "raw_string v = (case v of Some (JStr s) \<Rightarrow> s | _ \<Rightarrow> [])"

definition StatusInfo_UnmarshalJSON :: "json \<Rightarrow> StatusInfo option" where
  "StatusInfo_UnmarshalJSON v =
     map_option (\<lambda>ms. \<lparr>si_Version = raw_string (raw_key ''version'' ms), si_Platform = raw_string (raw_key ''platform'' ms),
        si_Extra = filter (\<lambda>(k, _). k \<noteq> ''version'' \<and> k \<noteq> ''platform'') ms\<rparr>) (json_members v)"

definition decode_StatusInfo :: "string \<Rightarrow> StatusInfo option" where
  "decode_StatusInfo body = Option.bind (json_parse_prefix body) StatusInfo_UnmarshalJSON"

definition decode_ClientInfo :: "json \<Rightarrow> ClientInfo option" where
  "decode_ClientInfo v =
     (case json_members v of
        None \<Rightarrow> None
      | Some ms \<Rightarrow>
          (case (get_str ''name'' ms, get_str ''cert'' ms) of
             (Some n, Some c) \<Rightarrow> Some \<lparr>ci_Name = n, ci_Cert = c\<rparr>
           | _ \<Rightarrow> None))"

definition decode_Clients :: "string \<Rightarrow> ClientInfo list option" where
  "decode_Clients body = Option.bind (decode_members body) (get_field (json_slice decode_ClientInfo) [] ''named_certs'')"

section \<open>Requests with retries\<close>

text \<open>
  The outcome of an attempt: the request cannot be built, the transport failed (before or after it read
  the body), or a response came, for which the body had been sent.
\<close>

datatype sun_net = NetInvalid | NetFailed bool | NetResponse int string

text \<open>\<open>net_do\<close> is \<^verbatim>\<open>client.Do\<close>; \<open>net_wait\<close> is a wait, with \<^const>\<open>True\<close> when the context ended it.\<close>

record 'n sun_network =
  net_do :: "'n \<Rightarrow> HttpRequest \<Rightarrow> 'n \<times> sun_net"
  net_wait :: "'n \<Rightarrow> duration \<Rightarrow> 'n \<times> bool"

datatype attempt_error = AttemptFailed int int | AttemptStatus int int int

datatype sun_error = ContextEnded | BuildRequest | Attempt attempt_error | DecodeResponse | AllAttemptsFailed int "attempt_error option"

definition sun_request :: "ClientConfig \<Rightarrow> string \<Rightarrow> string \<Rightarrow> string \<Rightarrow> string option \<Rightarrow> HttpRequest" where
  "sun_request c meth path contentType body =
     \<lparr>hr_Method = meth, hr_URL = client_baseURL c @ path,
      hr_Headers = (if contentType \<noteq> [] \<and> body \<noteq> None then [(''Content-Type'', contentType)] else [])
        @ (if scf_Username c \<noteq> [] \<or> scf_Password c \<noteq> []
           then [(''Authorization'', ''Basic '' @ StdEncoding_EncodeToString (scf_Username c @ '':'' @ scf_Password c))] else []),
      hr_Body = body\<rparr>"

text \<open>What is left of the reader of a body once a request has read it.\<close>

definition read_body :: "sun_net \<Rightarrow> string option \<Rightarrow> string option" where
  "read_body res body = (case res of NetInvalid \<Rightarrow> body | NetFailed rd \<Rightarrow> if rd then map_option (\<lambda>_. []) body else body
     | NetResponse _ _ \<Rightarrow> map_option (\<lambda>_. []) body)"

text \<open>
  The loop of \<^verbatim>\<open>doRetry\<close>, with \<open>k\<close> attempts left of \<open>n\<close>, the number of attempts, which is far from
  where \<^verbatim>\<open>int\<close> wraps. \<open>handle\<close> is what becomes of the body of a 2xx response.
\<close>

fun retry_loop ::
    "'n sun_network \<Rightarrow> ClientConfig \<Rightarrow> string \<Rightarrow> string \<Rightarrow> string \<Rightarrow> (string \<Rightarrow> 'a option) \<Rightarrow> int
     \<Rightarrow> nat \<Rightarrow> string option \<Rightarrow> attempt_error option \<Rightarrow> 'n \<Rightarrow> 'n \<times> (sun_error + 'a)" where
  "retry_loop net c meth path ct handle n 0 body err s = (s, Inl (AllAttemptsFailed n err))"
| "retry_loop net c meth path ct handle n (Suc k) body err s =
     (let attempt = n - int k - 1;
          (s1, ended) = (if attempt > 0 then net_wait net s (retryDelay c) else (s, False)) in
      if ended then (s1, Inl ContextEnded)
      else (let (s2, res) = net_do net s1 (sun_request c meth path ct body); body' = read_body res body in
            case res of
              NetInvalid \<Rightarrow> (s2, Inl BuildRequest)
            | NetFailed _ \<Rightarrow> retry_loop net c meth path ct handle n k body' (Some (AttemptFailed (attempt + 1) n)) s2
            | NetResponse status rbody \<Rightarrow>
                if status < 200 \<or> status \<ge> 300
                then (let e = AttemptStatus (attempt + 1) n status in
                      if status < 500 then (s2, Inl (Attempt e)) else retry_loop net c meth path ct handle n k body' (Some e) s2)
                else (case handle rbody of None \<Rightarrow> (s2, Inl DecodeResponse) | Some x \<Rightarrow> (s2, Inr x))))"

definition doRetry ::
    "'n sun_network \<Rightarrow> ClientConfig \<Rightarrow> string \<Rightarrow> string \<Rightarrow> string \<Rightarrow> string option \<Rightarrow> (string \<Rightarrow> 'a option) \<Rightarrow> 'n \<Rightarrow> 'n \<times> (sun_error + 'a)" where
  "doRetry net c meth path ct body handle s =
     retry_loop net c meth path ct handle (maxRetries c + 1) (nat (maxRetries c + 1)) body None s"

definition doJSON :: "'n sun_network \<Rightarrow> ClientConfig \<Rightarrow> string \<Rightarrow> string \<Rightarrow> string option \<Rightarrow> (string \<Rightarrow> 'a option) \<Rightarrow> 'n \<Rightarrow> 'n \<times> (sun_error + 'a)" where
  "doJSON net c meth path body decode s = doRetry net c meth path ''application/json'' body decode s"

text \<open>Every caller of \<^verbatim>\<open>doFormPost\<close> passes no target: the body of the response is drained.\<close>

definition doFormPost :: "'n sun_network \<Rightarrow> ClientConfig \<Rightarrow> string \<Rightarrow> string option \<Rightarrow> 'n \<Rightarrow> 'n \<times> (sun_error + unit)" where
  "doFormPost net c path body s = doRetry net c MethodPost path ''application/x-www-form-urlencoded'' body (\<lambda>_. Some ()) s"

section \<open>The controller\<close>

text \<open>The body of \<^verbatim>\<open>ApprovePair\<close>: \<^verbatim>\<open>Values.Encode\<close> of a form with one value.\<close>

definition pair_form :: "string \<Rightarrow> string" where
  "pair_form pin = ''pin='' @ QueryEscape pin"

definition sun_Status :: "'n sun_network \<Rightarrow> ClientConfig \<Rightarrow> 'n \<Rightarrow> 'n \<times> (sun_error + StatusInfo)" where
  "sun_Status net c s = doJSON net c MethodGet (pathStatus c) None decode_StatusInfo s"

definition sun_ApprovePair :: "'n sun_network \<Rightarrow> ClientConfig \<Rightarrow> string \<Rightarrow> 'n \<Rightarrow> 'n \<times> (sun_error + unit)" where
  "sun_ApprovePair net c pin s = doFormPost net c (pathPairPin c) (Some (pair_form pin)) s"

definition sun_KickAll :: "'n sun_network \<Rightarrow> ClientConfig \<Rightarrow> 'n \<Rightarrow> 'n \<times> (sun_error + unit)" where
  "sun_KickAll net c s = doFormPost net c (pathCloseApp c) None s"

definition sun_Clients :: "'n sun_network \<Rightarrow> ClientConfig \<Rightarrow> 'n \<Rightarrow> 'n \<times> (sun_error + ClientInfo list)" where
  "sun_Clients net c s = doJSON net c MethodGet (pathClients c) None decode_Clients s"

section \<open>The agent\<close>

text \<open>
  The controller as the agent sees it: the two calls it makes, each a success or not, and the wait
  between two kicks.
\<close>

record 'a SunController =
  ctl_ApprovePair :: "string \<Rightarrow> 'a \<Rightarrow> 'a \<times> bool"
  ctl_KickAll :: "'a \<Rightarrow> 'a \<times> bool"
  ctl_wait :: "'a \<Rightarrow> duration \<Rightarrow> 'a \<times> bool"

record AgentConfig =
  ag_PairPIN :: string
  ag_KickRetries :: int
  ag_KickRetryDelay :: duration

definition kickRetries :: "AgentConfig \<Rightarrow> int" where
  "kickRetries a = (if ag_KickRetries a > 0 then ag_KickRetries a else 3)"

definition kickRetryDelay :: "AgentConfig \<Rightarrow> duration" where
  "kickRetryDelay a = (if ag_KickRetryDelay a > 0 then ag_KickRetryDelay a else Second)"

text \<open>\<^verbatim>\<open>NewAgent\<close> with a controller and an event channel that may be missing.\<close>

datatype agent_error = NoController | NoEvents

definition NewAgent :: "'n SunController option \<Rightarrow> 'e option \<Rightarrow> AgentConfig \<Rightarrow> agent_error + 'n SunController \<times> 'e \<times> AgentConfig" where
  "NewAgent ctl events cfg =
     (case ctl of
        None \<Rightarrow> Inl NoController
      | Some k \<Rightarrow> (case events of None \<Rightarrow> Inl NoEvents | Some e \<Rightarrow> Inr (k, e, cfg)))"

datatype kick_outcome = KickSucceeded | KickAborted | KickGaveUp

fun kick_loop :: "'n SunController \<Rightarrow> duration \<Rightarrow> nat \<Rightarrow> 'n \<Rightarrow> 'n \<times> kick_outcome" where
  "kick_loop ctl delay 0 s = (s, KickGaveUp)"
| "kick_loop ctl delay (Suc k) s =
     (let (s1, done) = ctl_KickAll ctl s in
      if done then (s1, KickSucceeded)
      else if k > 0
      then (let (s2, ended) = ctl_wait ctl s1 delay in if ended then (s2, KickAborted) else kick_loop ctl delay k s2)
      else kick_loop ctl delay k s1)"

definition kickWithRetry :: "'n SunController \<Rightarrow> AgentConfig \<Rightarrow> 'n \<Rightarrow> 'n \<times> kick_outcome" where
  "kickWithRetry ctl a s = kick_loop ctl (kickRetryDelay a) (nat (kickRetries a)) s"

definition approvePair :: "'n SunController \<Rightarrow> AgentConfig \<Rightarrow> 'n \<Rightarrow> 'n" where
  "approvePair ctl a s = fst (ctl_ApprovePair ctl (ag_PairPIN a) s)"

definition handleEvent :: "'n SunController \<Rightarrow> AgentConfig \<Rightarrow> SessionEvent \<Rightarrow> 'n \<Rightarrow> 'n" where
  "handleEvent ctl a ev s =
     (case se_Kind ev of
        EventGranted \<Rightarrow> if ag_PairPIN a \<noteq> [] then approvePair ctl a s else s
      | EventExpired \<Rightarrow> fst (kickWithRetry ctl a s)
      | EventIdleKicked \<Rightarrow> fst (kickWithRetry ctl a s)
      | _ \<Rightarrow> s)"

text \<open>The loop of \<^verbatim>\<open>Agent.Run\<close>: it ends with the context or with the channel.\<close>

datatype agent_input = AgentEvent SessionEvent | AgentEventsClosed | AgentCancelled

fun agent_Run :: "'n SunController \<Rightarrow> AgentConfig \<Rightarrow> agent_input list \<Rightarrow> 'n \<Rightarrow> 'n" where
  "agent_Run ctl a [] s = s"
| "agent_Run ctl a (AgentEvent ev # es) s = agent_Run ctl a es (handleEvent ctl a ev s)"
| "agent_Run ctl a (AgentEventsClosed # es) s = s"
| "agent_Run ctl a (AgentCancelled # es) s = s"

text \<open>The HTTP client as a controller.\<close>

definition http_controller :: "'n sun_network \<Rightarrow> ClientConfig \<Rightarrow> 'n SunController" where
  "http_controller net c =
     \<lparr>ctl_ApprovePair = (\<lambda>pin s. let (s', r) = sun_ApprovePair net c pin s in (s', r = Inr ())),
      ctl_KickAll = (\<lambda>s. let (s', r) = sun_KickAll net c s in (s', r = Inr ())),
      ctl_wait = net_wait net\<rparr>"

section \<open>The command\<close>

text \<open>
  The claims of \<^verbatim>\<open>cmd/sunshine-agent\<close>: one token from its flags, or one on each line of the standard
  input, blank lines and comments apart. An event of the input is a line, its end, or the end of the
  context before a read; the session a claim returns is not kept.
\<close>

definition agent_client_config :: "string \<Rightarrow> string \<Rightarrow> string \<Rightarrow> bool \<Rightarrow> ClientConfig" where
  "agent_client_config url user pass insecure =
     \<lparr>scf_BaseURL = url, scf_Username = user, scf_Password = pass, scf_InsecureSkipVerify = insecure, scf_Timeout = 10 * Second, scf_MaxRetries = 3,
      scf_RetryDelay = 500 * Millisecond, scf_OverrideStatus = [], scf_OverridePairPin = [], scf_OverrideCloseApp = [], scf_OverrideClients = []\<rparr>"

definition agent_session_config :: "string \<Rightarrow> duration \<Rightarrow> Config" where
  "agent_session_config room idle =
     \<lparr>cfg_RoomID = room, cfg_IdleTimeout = idle, cfg_TickInterval = 5 * Second, cfg_QueuePolicy = PolicyReject, cfg_MaxQueueDepth = 0\<rparr>"

definition claimToken :: "verify_fun \<Rightarrow> instant \<Rightarrow> string \<Rightarrow> Manager \<Rightarrow> Manager \<times> claim_error option" where
  "claimToken verify now token m =
     (case Claim verify now token m of (m', Inl e) \<Rightarrow> (m', Some e) | (m', Inr p) \<Rightarrow> (m', None))"

datatype stdin_event = StdinLine instant string | StdinEnd | StdinCancelled

fun readTokensFromStdin :: "verify_fun \<Rightarrow> stdin_event list \<Rightarrow> Manager \<Rightarrow> Manager" where
  "readTokensFromStdin verify [] m = m"
| "readTokensFromStdin verify (StdinLine now line # es) m =
     (let token = trim_space line in
      readTokensFromStdin verify es
        (if token = [] \<or> take 1 token = ''#'' then m else fst (claimToken verify now token m)))"
| "readTokensFromStdin verify (StdinEnd # es) m = m"
| "readTokensFromStdin verify (StdinCancelled # es) m = m"

end
