(* ===== verification/SunshineProps.thy ===== *)
theory SunshineProps
  imports Sunshine SessionProps
begin

text \<open>
  The Sunshine agent: how often a call is attempted and what its result means, what a retry sends, how
  many requests a session event can cause, and what the command makes of its tokens and of its idle
  timeout.
\<close>

section \<open>Attempts\<close>

text \<open>A network that also records each request with its outcome, oldest first.\<close>

definition recording :: "'n sun_network \<Rightarrow> ('n \<times> (HttpRequest \<times> sun_net) list) sun_network" where
  "recording net =
     \<lparr>net_do = (\<lambda>(s, tr) q. let (s', x) = net_do net s q in ((s', tr @ [(q, x)]), x)),
      net_wait = (\<lambda>(s, tr) d. let (s', b) = net_wait net s d in ((s', tr), b))\<rparr>"

text \<open>The outcomes after which \<^verbatim>\<open>doRetry\<close> tries again, and what an outcome makes of the call.\<close>

definition retryable :: "sun_net \<Rightarrow> bool" where
  "retryable x = (case x of NetInvalid \<Rightarrow> False | NetFailed _ \<Rightarrow> True | NetResponse st _ \<Rightarrow> st \<ge> 500)"

definition accepted :: "(string \<Rightarrow> 'a option) \<Rightarrow> sun_net \<Rightarrow> 'a option" where
  "accepted handle x = (case x of NetResponse st b \<Rightarrow> if 200 \<le> st \<and> st < 300 then handle b else None | _ \<Rightarrow> None)"

text \<open>The body each request of a call carries: what the ones before it left of it.\<close>

fun bodies :: "string option \<Rightarrow> (HttpRequest \<times> sun_net) list \<Rightarrow> bool" where
  "bodies body [] = True"
| "bodies body ((q, x) # es) \<longleftrightarrow> hr_Body q = body \<and> bodies (read_body x body) es"

lemma retry_loop_spec:
  assumes "retry_loop (recording net) c meth path ct handle n k body err (s, tr) = ((s', tr'), r)" "int k \<le> n"
  shows "\<exists>es. tr' = tr @ es \<and> length es \<le> k
     \<and> (\<forall>(q, x)\<in>set es. hr_Method q = meth \<and> hr_URL q = client_baseURL c @ path)
     \<and> (\<forall>(q, x)\<in>set (butlast es). retryable x) \<and> bodies body es
     \<and> (\<forall>y. r = Inr y \<longrightarrow> es \<noteq> [] \<and> accepted handle (snd (last es)) = Some y)
     \<and> (\<forall>m e. r = Inl (AllAttemptsFailed m e) \<longrightarrow> length es = k \<and> (\<forall>(q, x)\<in>set es. retryable x))
     \<and> (int k = n \<and> k > 0 \<longrightarrow> es \<noteq> [])"
  using assms
proof (induction k arbitrary: body err s tr)
  case (Suc k)
  let ?att = "n - int k - 1"
  define w where "w = (if ?att > 0 then net_wait net s (retryDelay c) else (s, False))"
  obtain s1 ended where w1: "w = (s1, ended)" by (cases w)
  have wait: "(if ?att > 0 then net_wait (recording net) (s, tr) (retryDelay c) else ((s, tr), False)) = ((s1, tr), ended)"
    using w1 by (auto simp: w_def recording_def split: prod.splits if_splits)
  show ?case
  proof (cases ended)
    case True
    then have "tr' = tr" "r = Inl ContextEnded" "0 < ?att"
      using Suc.prems(1) wait w1 by (auto simp: Let_def w_def split: if_splits)
    then show ?thesis by (intro exI [of _ "[]"]) auto
  next
    case False
    let ?q = "sun_request c meth path ct body"
    obtain s2 x where x: "net_do net s1 ?q = (s2, x)" by fastforce
    have rec: "net_do (recording net) (s1, tr) ?q = ((s2, tr @ [(?q, x)]), x)" by (simp add: recording_def x)
    have q: "hr_Method ?q = meth" "hr_URL ?q = client_baseURL c @ path" "hr_Body ?q = body" by (simp_all add: sun_request_def)
    have le: "int k \<le> n" "int k \<noteq> n" using Suc.prems(2) by simp_all
    show ?thesis
    proof (cases "retryable x")
      case True
      obtain err' where loop: "retry_loop (recording net) c meth path ct handle n k (read_body x body) err' (s2, tr @ [(?q, x)]) = ((s', tr'), r)"
        using Suc.prems(1) wait False rec True by (cases x) (auto simp: Let_def retryable_def split: if_splits)
      obtain es where es: "tr' = (tr @ [(?q, x)]) @ es" "length es \<le> k" "\<forall>(q, x)\<in>set es. hr_Method q = meth \<and> hr_URL q = client_baseURL c @ path"
        "\<forall>(q, x)\<in>set (butlast es). retryable x" "bodies (read_body x body) es" "\<forall>y. r = Inr y \<longrightarrow> es \<noteq> [] \<and> accepted handle (snd (last es)) = Some y"
        "\<forall>m e. r = Inl (AllAttemptsFailed m e) \<longrightarrow> length es = k \<and> (\<forall>(q, x)\<in>set es. retryable x)"
        using Suc.IH [OF loop le(1)] by blast
      show ?thesis using es q True by (intro exI [of _ "(?q, x) # es"]) auto
    next
      case False
      then have "tr' = tr @ [(?q, x)]" "\<And>y. r = Inr y \<longrightarrow> accepted handle x = Some y" "\<And>m e. r \<noteq> Inl (AllAttemptsFailed m e)"
        using Suc.prems(1) wait \<open>\<not> ended\<close> rec by (cases x; auto simp: Let_def retryable_def accepted_def split: if_splits option.splits)+
      then show ?thesis using q by (intro exI [of _ "[(?q, x)]"]) auto
    qed
  qed
qed auto

text \<open>
  C38. A call to Sunshine makes at least one and at most \<^verbatim>\<open>MaxRetries\<close> + 1 requests (unless the context
  ends first), all of them the same method and address. It goes on only after a failure of the
  transport or a 5xx status, succeeds only on a 2xx response it can decode, and gives up only when all
  attempts have failed in that way.
\<close>

theorem retry_attempts:
  assumes "doRetry (recording net) c meth path ct body handle (s, tr) = ((s', tr'), r)"
  shows "\<exists>es. tr' = tr @ es \<and> es \<noteq> [] \<and> int (length es) \<le> maxRetries c + 1
     \<and> (\<forall>(q, x)\<in>set es. hr_Method q = meth \<and> hr_URL q = client_baseURL c @ path)
     \<and> (\<forall>(q, x)\<in>set (butlast es). retryable x)
     \<and> (\<forall>y. r = Inr y \<longrightarrow> accepted handle (snd (last es)) = Some y)
     \<and> (\<forall>m e. r = Inl (AllAttemptsFailed m e) \<longrightarrow> int (length es) = maxRetries c + 1 \<and> (\<forall>(q, x)\<in>set es. retryable x))"
proof -
  let ?k = "nat (maxRetries c + 1)"
  have k: "int ?k = maxRetries c + 1" "0 < ?k" by (auto simp: maxRetries_def)
  show ?thesis using retry_loop_spec [OF assms [unfolded doRetry_def], unfolded k(1)] k by auto
qed

text \<open>A network whose outcomes are given, and whose waits are never cut short.\<close>

definition scripted :: "sun_net list sun_network" where
  "scripted = \<lparr>net_do = (\<lambda>xs q. (tl xs, hd xs)), net_wait = (\<lambda>xs d. (xs, False))\<rparr>"

definition ex_sun_cfg :: ClientConfig where
  "ex_sun_cfg = agent_client_config ''https://pc:47990/'' ''admin'' ''pw'' True"

theorem retry_attempts_witness:
  "\<exists>es. snd (fst (sun_KickAll (recording scripted) ex_sun_cfg ([NetFailed True, NetResponse 503 [], NetResponse 200 ''{}''], []))) = es
     \<and> length es = 3 \<and> (\<forall>(q, x)\<in>set es. hr_URL q = ''https://pc:47990/api/apps/close'')"
proof -
  let ?call = "sun_KickAll (recording scripted) ex_sun_cfg ([NetFailed True, NetResponse 503 [], NetResponse 200 ''{}''], [])"
  obtain s' tr' r where call: "?call = ((s', tr'), r)" by (cases ?call) auto
  have "\<forall>(q, x)\<in>set tr'. hr_URL q = client_baseURL ex_sun_cfg @ pathCloseApp ex_sun_cfg"
    using retry_attempts [OF call [unfolded sun_KickAll_def doFormPost_def]] by auto
  moreover have "client_baseURL ex_sun_cfg @ pathCloseApp ex_sun_cfg = ''https://pc:47990/api/apps/close''" by code_simp
  moreover have "length (snd (fst ?call)) = 3" by code_simp
  ultimately show ?thesis using call by simp
qed

text \<open>
  The form of a pairing request is a reader that the first request exhausts: after a response the
  same reader is sent again and is empty. So when Sunshine answers an approval with a 5xx, every later
  attempt of the call posts no PIN at all, and the call still reports success if one is answered 2xx.
\<close>

lemma bodies_empty: "bodies (Some []) es \<Longrightarrow> (q, x) \<in> set es \<Longrightarrow> hr_Body q = Some []"
proof (induction es arbitrary: q x)
  case (Cons a es)
  have "read_body y (Some []) = Some []" for y by (cases y) (auto simp: read_body_def)
  then show ?case using Cons by (cases a) auto
qed simp

theorem retried_pin_lost:
  assumes "sun_ApprovePair (recording net) c pin (s, []) = ((s', (q1, NetResponse status b) # es), r)"
  shows "hr_Body q1 = Some (''pin='' @ QueryEscape pin) \<and> (\<forall>(q, x)\<in>set es. hr_Body q = Some [])"
proof -
  have "bodies (Some (pair_form pin)) ((q1, NetResponse status b) # es)"
    using retry_loop_spec [OF assms [unfolded sun_ApprovePair_def doFormPost_def doRetry_def]] by (auto simp: maxRetries_def)
  then show ?thesis using bodies_empty by (auto simp: read_body_def pair_form_def)
qed

theorem retried_pin_lost_witness:
  "map (hr_Body \<circ> fst) (snd (fst (sun_ApprovePair (recording scripted) ex_sun_cfg ''1234'' ([NetResponse 500 [], NetResponse 200 []], []))))
     = [Some ''pin=1234'', Some []]
   \<and> snd (sun_ApprovePair (recording scripted) ex_sun_cfg ''1234'' ([NetResponse 500 [], NetResponse 200 []], [])) = Inr ()"
proof -
  let ?call = "sun_ApprovePair (recording scripted) ex_sun_cfg ''1234'' ([NetResponse 500 [], NetResponse 200 []], [])"
  have ok: "snd ?call = Inr ()" by code_simp
  have sh: "map snd (snd (fst ?call)) = [NetResponse 500 [], NetResponse 200 []]" by code_simp
  obtain s' tr' r where call: "?call = ((s', tr'), r)" by (cases ?call) auto
  obtain q1 q2 x2 where tr': "tr' = [(q1, NetResponse 500 []), (q2, x2)]" using sh call by auto
  have "QueryEscape ''1234'' = ''1234''" by code_simp
  then show ?thesis using retried_pin_lost [OF call [unfolded tr']] ok call tr' by simp
qed

section \<open>The requests of the agent\<close>

text \<open>
  What the agent relies on: a controller whose kick costs at most \<open>cost\<close> requests, and whose waits cost
  none.
\<close>

locale kick_controller =
  fixes ctl :: "'n SunController"
    and used :: "'n \<Rightarrow> nat"
    and cost :: nat
  assumes kick_cost: "used (fst (ctl_KickAll ctl s)) \<le> used s + cost"
    and pair_cost: "used (fst (ctl_ApprovePair ctl pin s)) \<le> used s + cost"
    and wait_free: "used (fst (ctl_wait ctl s d)) = used s"
begin

lemma kick_loop_cost: "used (fst (kick_loop ctl d k s)) \<le> used s + k * cost"
proof (induction k arbitrary: s)
  case (Suc k)
  obtain s1 ok where s1: "ctl_KickAll ctl s = (s1, ok)" by fastforce
  obtain s2 ended where s2: "ctl_wait ctl s1 d = (s2, ended)" by fastforce
  have "used s1 \<le> used s + cost" "used s2 = used s1" using kick_cost [of s] wait_free [of s1 d] s1 s2 by simp_all
  then show ?case using Suc [of s1] Suc [of s2] by (simp add: s1 s2)
qed simp

definition event_cost :: "AgentConfig \<Rightarrow> SessionEvent \<Rightarrow> nat" where
  "event_cost a ev = (if se_Kind ev \<in> {EventExpired, EventIdleKicked} then nat (kickRetries a) * cost
     else if se_Kind ev = EventGranted \<and> ag_PairPIN a \<noteq> [] then cost else 0)"

lemma event_bound: "used (handleEvent ctl a ev s) \<le> used s + event_cost a ev"
  using kick_loop_cost [of "kickRetryDelay a" "nat (kickRetries a)" s] pair_cost [of "ag_PairPIN a" s]
  by (cases "se_Kind ev") (auto simp: handleEvent_def event_cost_def kickWithRetry_def approvePair_def)

lemma run_bound: "used (agent_Run ctl a (map AgentEvent evs) s) \<le> used s + (\<Sum>ev\<leftarrow>evs. event_cost a ev)"
proof (induction evs arbitrary: s)
  case (Cons ev evs)
  show ?case using Cons [of "handleEvent ctl a ev s"] event_bound [of a ev s] by simp
qed simp

end

lemma doRetry_cost:
  "length (snd (fst (doRetry (recording net) c meth path ct body handle s))) \<le> length (snd s) + nat (maxRetries c + 1)"
proof -
  obtain n tr where s: "s = (n, tr)" by (cases s)
  obtain s' tr' r where d: "doRetry (recording net) c meth path ct body handle (n, tr) = ((s', tr'), r)"
    by (metis prod.exhaust)
  then show ?thesis using retry_loop_spec [OF d [unfolded doRetry_def]] by (auto simp: maxRetries_def d s)
qed

interpretation sun: kick_controller "http_controller (recording net) c" "\<lambda>s. length (snd s)" "nat (maxRetries c + 1)" for net c
proof unfold_locales
  fix s pin d
  show "length (snd (fst (ctl_KickAll (http_controller (recording net) c) s))) \<le> length (snd s) + nat (maxRetries c + 1)"
    using doRetry_cost by (simp add: http_controller_def sun_KickAll_def doFormPost_def split_beta)
  show "length (snd (fst (ctl_ApprovePair (http_controller (recording net) c) pin s))) \<le> length (snd s) + nat (maxRetries c + 1)"
    using doRetry_cost by (simp add: http_controller_def sun_ApprovePair_def doFormPost_def split_beta)
  show "length (snd (fst (ctl_wait (http_controller (recording net) c) s d))) = length (snd s)"
    by (simp add: http_controller_def recording_def split_beta)
qed

text \<open>
  Whatever Sunshine answers, a run of the agent over session events sends a bounded number of
  requests: \<^verbatim>\<open>MaxRetries\<close> + 1 for a granted turn with a PIN, that many for each of the
  \<^verbatim>\<open>KickRetries\<close> kicks of an ended one, none for a wait list entry or a tick.
\<close>

theorem agent_requests_bounded:
  "int (length (snd (agent_Run (http_controller (recording net) c) a (map AgentEvent evs) (s, []))))
     \<le> (\<Sum>ev\<leftarrow>evs. if se_Kind ev \<in> {EventExpired, EventIdleKicked} then kickRetries a * (maxRetries c + 1)
          else if se_Kind ev = EventGranted \<and> ag_PairPIN a \<noteq> [] then maxRetries c + 1 else 0)"
proof -
  have pos: "0 \<le> kickRetries a" "0 \<le> maxRetries c + 1" by (auto simp: kickRetries_def maxRetries_def)
  have "int (\<Sum>ev\<leftarrow>evs. sun.event_cost c a ev) = (\<Sum>ev\<leftarrow>evs. if se_Kind ev \<in> {EventExpired, EventIdleKicked} then kickRetries a * (maxRetries c + 1)
          else if se_Kind ev = EventGranted \<and> ag_PairPIN a \<noteq> [] then maxRetries c + 1 else 0)"
    using pos by (induction evs) (auto simp: sun.event_cost_def)
  then show ?thesis using sun.run_bound [of net c a evs "(s, [])"] by simp
qed

section \<open>The kicks of an ended turn\<close>

text \<open>A controller that also records how each kick went.\<close>

definition tapped :: "'n SunController \<Rightarrow> ('n \<times> bool list) SunController" where
  "tapped ctl =
     \<lparr>ctl_ApprovePair = (\<lambda>pin (s, bs). let (s', b) = ctl_ApprovePair ctl pin s in ((s', bs), b)),
      ctl_KickAll = (\<lambda>(s, bs). let (s', b) = ctl_KickAll ctl s in ((s', bs @ [b]), b)),
      ctl_wait = (\<lambda>(s, bs) d. let (s', b) = ctl_wait ctl s d in ((s', bs), b))\<rparr>"

lemma kick_loop_spec:
  assumes "kick_loop (tapped ctl) d k (s, bs) = ((s', bs'), out)"
  shows "\<exists>ks. bs' = bs @ ks \<and> length ks \<le> k \<and> True \<notin> set (butlast ks) \<and> (k > 0 \<longrightarrow> ks \<noteq> [])
    \<and> (out = KickSucceeded \<longleftrightarrow> ks \<noteq> [] \<and> last ks) \<and> (out = KickGaveUp \<longleftrightarrow> ks = replicate k False)
    \<and> (out = KickAborted \<longrightarrow> length ks < k)"
  using assms
proof (induction k arbitrary: s bs)
  case (Suc k)
  obtain s1 b where s1: "ctl_KickAll ctl s = (s1, b)" by fastforce
  obtain s2 ended where s2: "ctl_wait ctl s1 d = (s2, ended)" by fastforce
  have t: "ctl_KickAll (tapped ctl) (s, bs) = ((s1, bs @ [b]), b)" "ctl_wait (tapped ctl) (s1, bs @ [b]) d = ((s2, bs @ [b]), ended)"
    by (simp_all add: tapped_def s1 s2)
  show ?case
  proof (cases "b \<or> (k > 0 \<and> ended)")
    case True
    then have "bs' = bs @ [b]" "out = (if b then KickSucceeded else KickAborted)" "b \<or> k > 0"
      using Suc.prems t by (auto split: if_splits)
    then show ?thesis by (intro exI [of _ "[b]"]) auto
  next
    case False
    then obtain s3 where "kick_loop (tapped ctl) d k (s3, bs @ [b]) = ((s', bs'), out)"
      using Suc.prems t by (auto split: if_splits)
    from Suc.IH [OF this] obtain ks where ks: "bs' = (bs @ [b]) @ ks" "length ks \<le> k" "True \<notin> set (butlast ks)" "k > 0 \<longrightarrow> ks \<noteq> []"
      "out = KickSucceeded \<longleftrightarrow> ks \<noteq> [] \<and> last ks" "out = KickGaveUp \<longleftrightarrow> ks = replicate k False" "out = KickAborted \<longrightarrow> length ks < k"
      by blast
    then show ?thesis using False by (intro exI [of _ "b # ks"]) auto
  qed
qed simp

text \<open>
  An ended turn is followed up until it takes: the agent goes on kicking until a kick succeeds, the
  context ends, or \<^verbatim>\<open>KickRetries\<close> kicks have failed; it reports success exactly when the last kick it
  made succeeded, and gives up exactly after that many failures.
\<close>

theorem kicks_until_success:
  assumes "kickWithRetry (tapped ctl) a (s, []) = ((s', ks), out)"
  shows "ks \<noteq> [] \<and> int (length ks) \<le> kickRetries a \<and> True \<notin> set (butlast ks)
    \<and> (out = KickSucceeded \<longleftrightarrow> last ks) \<and> (out = KickGaveUp \<longleftrightarrow> ks = replicate (nat (kickRetries a)) False)"
proof -
  have "0 < kickRetries a" by (simp add: kickRetries_def)
  then show ?thesis using kick_loop_spec [OF assms [unfolded kickWithRetry_def]] by (auto simp: nat_less_iff)
qed

theorem kicks_until_success_witness:
  "kickWithRetry (tapped (http_controller scripted ex_sun_cfg)) \<lparr>ag_PairPIN = [], ag_KickRetries = 0, ag_KickRetryDelay = 0\<rparr>
     ([NetResponse 404 [], NetResponse 200 []], []) = (([], [False, True]), KickSucceeded) \<and> (2 :: int) \<le> 3"
proof -
  let ?a = "\<lparr>ag_PairPIN = [], ag_KickRetries = 0, ag_KickRetryDelay = 0\<rparr>"
  have k: "kickWithRetry (tapped (http_controller scripted ex_sun_cfg)) ?a ([NetResponse 404 [], NetResponse 200 []], []) =
      (([], [False, True]), KickSucceeded)" by code_simp
  have "kickRetries ?a = 3" by code_simp
  then show ?thesis using kicks_until_success [OF k] k by simp
qed

section \<open>The command\<close>

text \<open>While a viewer is in control no line of the input changes anything: the policy is to reject.\<close>

lemma tokens_rejected:
  "m_active m = Some p \<Longrightarrow> cfg_QueuePolicy (m_cfg m) = PolicyReject \<Longrightarrow> readTokensFromStdin verify es m = m"
proof (induction es)
  case (Cons e es)
  then show ?case by (cases e) (auto simp: claimToken_def Claim_def Let_def split: sum.splits)
qed simp

text \<open>The actions the command takes part in: it opens no gate, since play goes past the manager.\<close>

fun agent_action :: "action \<Rightarrow> bool" where
  "agent_action (AClaim _) = True"
| "agent_action (ATick _) = True"
| "agent_action (ATickEmit _) = True"
| "agent_action (AWatchDone _) = True"
| "agent_action (AIdleFire _) = True"
| "agent_action (AEndSession _) = True"
| "agent_action (AAdvance _) = True"
| "agent_action AEventsDrain = True"
| "agent_action ARunStop = True"
| "agent_action ARunClose = True"
| "agent_action _ = False"

definition idle_from_start :: "duration \<Rightarrow> sessionEntry \<Rightarrow> bool" where
  "idle_from_start idle e \<longleftrightarrow> (\<exists>start. e_deadline e = Some (start + seconds (c_SessionSeconds (e_claims e)))
     \<and> (e_idleTimer e = Some (Armed (start + idle)) \<or> e_idleTimer e = Some Fired))"

definition agent_inv :: "string \<Rightarrow> duration \<Rightarrow> Manager \<Rightarrow> bool" where
  "agent_inv room idle m \<longleftrightarrow> m_queue m = [] \<and> m_cfg m = agent_session_config room idle
     \<and> (\<forall>p. m_active m = Some p \<longrightarrow> p < length (m_entries m) \<and> idle_from_start idle (entry m p))"

lemma agent_inv_cong:
  "m_queue m' = m_queue m \<Longrightarrow> m_cfg m' = m_cfg m \<Longrightarrow> m_active m' = m_active m \<Longrightarrow> m_entries m' = m_entries m
   \<Longrightarrow> agent_inv room idle m' = agent_inv room idle m"
  by (simp add: agent_inv_def)

lemma agent_inv_upd:
  "agent_inv room idle m \<Longrightarrow> (\<And>e. e_deadline (f e) = e_deadline e \<and> e_claims (f e) = e_claims e
      \<and> (e_idleTimer (f e) = e_idleTimer e \<or> e_idleTimer (f e) = Some Fired)) \<Longrightarrow> agent_inv room idle (upd_entry p f m)"
  unfolding agent_inv_def idle_from_start_def by simp metis

lemma agent_inv_end:
  assumes "agent_inv room idle m"
  shows "agent_inv room idle (endSession now p kind m)"
proof (cases "m_active m = Some p")
  case True
  then show ?thesis using assms by (simp add: endSession_def Let_def promote_Nil agent_inv_def)
next
  case False
  then show ?thesis using assms by (simp add: endSession_def)
qed

lemma agent_inv_claim:
  assumes "agent_inv room idle m" "0 < idle"
  shows "agent_inv room idle (fst (Claim v now token m))"
proof (cases "ParseAndVerify v token (m_pubKey m) now")
  case (Inr c)
  have "idle_from_start idle (started_entry now (agent_session_config room idle) c)"
    using assms(2) by (auto simp: idle_from_start_def started_entry_def agent_session_config_def Let_def)
  then show ?thesis using assms Inr
    by (auto simp: Claim_def agent_inv_def startSessionLocked_def Let_def agent_session_config_def)
qed (use assms in \<open>simp add: Claim_def\<close>)

lemma agent_inv_step:
  assumes "sess_step v a s = Some s'" "agent_action a" "agent_inv room idle (st_m s)" "0 < idle"
  shows "agent_inv room idle (st_m s')"
proof (cases a)
  case (AClaim token)
  then show ?thesis using assms agent_inv_claim by auto
next
  case (ATick p)
  then show ?thesis using assms by (auto simp: watch_tick_def Let_def intro!: agent_inv_upd split: if_splits option.splits)
next
  case (ATickEmit p)
  let ?ev = "newEvent (st_now s) EventTick (e_viewerID (entry (st_m s) p))"
  have e: "agent_inv room idle (emitEvent ev (st_m s))" for ev
    using agent_inv_cong [of "emitEvent ev (st_m s)" "st_m s"] assms(3) by simp
  obtain remaining where "st_m s' = upd_entry p (\<lambda>e. e\<lparr>e_watch := Watching\<rparr>) (emitEvent (?ev remaining 0) (st_m s))"
    using ATickEmit assms(1) by (auto simp: watch_emit_def split: if_splits watch_pc.splits)
  then show ?thesis using agent_inv_upd [OF e, of "\<lambda>e. e\<lparr>e_watch := Watching\<rparr>"] by simp
next
  case (AWatchDone p)
  then show ?thesis using assms by (auto simp: watch_done_def call_end_def intro!: agent_inv_upd split: if_splits)
next
  case (AIdleFire p)
  then show ?thesis using assms
    by (auto simp: idle_fire_def call_end_def intro!: agent_inv_upd split: if_splits option.splits timer.splits)
next
  case (AEndSession k)
  then show ?thesis using assms agent_inv_end by (auto split: if_splits prod.splits)
next
  case ARunStop
  have "agent_inv room idle (Run_locked (st_m s))"
    using assms(3) by (auto simp: Run_locked_def Let_def agent_inv_def idle_from_start_def cancel_def split: option.splits)
  then show ?thesis using ARunStop assms(1) by (auto split: if_splits)
qed (use assms in \<open>auto simp: agent_inv_def Run_close_def split: if_splits\<close>)

lemma agent_inv_run:
  "sess_run v as s = Some s' \<Longrightarrow> \<forall>a\<in>set as. agent_action a \<Longrightarrow> agent_inv room idle (st_m s) \<Longrightarrow> 0 < idle \<Longrightarrow> agent_inv room idle (st_m s')"
  by (induction as arbitrary: s) (auto simp: bind_eq_Some_conv dest: agent_inv_step)

text \<open>
  C33. The command's idle timeout does not watch for play. Input reaches Sunshine without passing the
  session manager, which alone could restart the timer: whatever happens, a turn's idle timer stays at
  the start of the turn plus the timeout, and once that time has come it can fire, so the timeout is an
  absolute limit on the turn.
\<close>

theorem idle_timeout_is_absolute:
  assumes "sess_run v as (sess_init (agent_session_config room idle) pk now) = Some s" "\<forall>a\<in>set as. agent_action a" "0 < idle"
    and "m_active (st_m s) = Some p"
  shows "\<exists>start. e_deadline (entry (st_m s) p) = Some (start + seconds (c_SessionSeconds (e_claims (entry (st_m s) p))))
     \<and> (e_idleTimer (entry (st_m s) p) = Some Fired
        \<or> e_idleTimer (entry (st_m s) p) = Some (Armed (start + idle)) \<and> (start + idle \<le> st_now s \<longrightarrow> sess_step v (AIdleFire p) s \<noteq> None))"
proof -
  have "agent_inv room idle (st_m (sess_init (agent_session_config room idle) pk now))"
    by (simp add: agent_inv_def sess_init_def NewManager_def)
  then have i: "agent_inv room idle (st_m s)" using agent_inv_run [OF assms(1,2)] assms(3) by blast
  then show ?thesis using assms(4) by (auto simp: agent_inv_def idle_from_start_def idle_fire_def)
qed

theorem idle_timeout_is_absolute_witness:
  "\<exists>s. sess_run ex_verify [AClaim (ex_token ''v1''), AAdvance 10] (sess_init (agent_session_config ''r1'' 10) (kp_Public ex_kp) 0) = Some s
     \<and> m_active (st_m s) = Some 0 \<and> e_idleTimer (entry (st_m s) 0) = Some (Armed 10) \<and> sess_step ex_verify (AIdleFire 0) s \<noteq> None"
proof -
  let ?as = "[AClaim (ex_token ''v1''), AAdvance 10]" and ?i = "sess_init (agent_session_config ''r1'' 10) (kp_Public ex_kp) 0"
  have "(0 :: int) < 1000 * Second" by code_simp
  then have parse: "ParseAndVerify ex_verify (ex_token ''v1'') (kp_Public ex_kp) 0 = Inr (ex_claims ''v1'')" by (intro ex_parse) simp_all
  have "Claim ex_verify 0 (ex_token ''v1'') (NewManager (agent_session_config ''r1'' 10) (kp_Public ex_kp)) =
      (let (m', p) = startSessionLocked 0 (ex_claims ''v1'') (NewManager (agent_session_config ''r1'' 10) (kp_Public ex_kp)) in (m', Inr p))"
    using parse by (simp add: Claim_def NewManager_def agent_session_config_def) (simp add: ex_claims_def)
  then have "\<exists>s. sess_run ex_verify ?as ?i = Some s \<and> m_active (st_m s) = Some 0 \<and> e_idleTimer (entry (st_m s) 0) = Some (Armed 10) \<and> st_now s = 10"
    by (simp add: sess_init_def NewManager_def startSessionLocked_def Let_def started_entry_def agent_session_config_def)
  then obtain s where s: "sess_run ex_verify ?as ?i = Some s" "m_active (st_m s) = Some 0" "e_idleTimer (entry (st_m s) 0) = Some (Armed 10)" "st_now s = 10"
    by blast
  have a: "\<forall>a\<in>set ?as. agent_action a" by simp
  show ?thesis using idle_timeout_is_absolute [OF s(1) a _ s(2)] s by auto
qed

end
