(* ===== verification/EndToEnd.thy ===== *)
theory EndToEnd
  imports ServerProps SessionProps RouterProps EncoderProps HostProps "HOL-Library.Multiset"
begin

text \<open>
  Properties that span components: from the code redeemed at the server to control of the host, and
  from the output of ffmpeg to the track of a viewer.
\<close>

section \<open>From the server to the host\<close>

text \<open>
  What a redemption in progress has established: \<open>grant\<close> relates the token, the viewer and the two
  times to a room of the database, and \<open>jwt_pc\<close> follows it through the steps of the handler.
\<close>

definition grant :: "sign_fun \<Rightarrow> instant \<Rightarrow> KeyPair \<Rightarrow> Room list \<Rightarrow> Claims \<Rightarrow> string \<Rightarrow> instant \<Rightarrow> bool" where
  "grant sign now keys rooms c jwt e \<longleftrightarrow>
     (\<exists>room\<in>set rooms. e = now + seconds (r_SessionSeconds room) \<and> length (c_ViewerID c) = 32
       \<and> c = redeem_claims now e (r_ID room) (c_ViewerID c) (r_SessionSeconds room)) \<and> jwt = IssueJWT sign keys c"

definition granted_body :: "Claims \<Rightarrow> string \<Rightarrow> instant \<Rightarrow> Response \<Rightarrow> bool" where
  "granted_body c jwt e resp \<longleftrightarrow> (\<exists>pos. rs_Body resp = Some (JObj
     [(''session_token'', JStr jwt), (''queue_position'', JNum (Itoa pos)), (''expires_at'', JNum (Itoa (Unix e))),
      (''room_id'', JStr (c_RoomID c)), (''viewer_id'', JStr (c_ViewerID c))]))"

definition jwt_pc :: "sign_fun \<Rightarrow> instant \<Rightarrow> KeyPair \<Rightarrow> Room list \<Rightarrow> Server \<times> redeem_pc \<Rightarrow> bool" where
  "jwt_pc sign now keys rooms x = (case snd x of
     RLookup c \<Rightarrow> sv_keys (fst x) = keys \<and> db_rooms (sv_db (fst x)) = rooms
   | RRoom c tok \<Rightarrow> sv_keys (fst x) = keys \<and> db_rooms (sv_db (fst x)) = rooms
   | RMark c tok v jwt t e \<Rightarrow> \<exists>cl. grant sign now keys rooms cl jwt e \<and> c_RoomID cl = t_RoomID tok \<and> c_ViewerID cl = v
   | RQueue c tok v jwt t e \<Rightarrow> \<exists>cl. grant sign now keys rooms cl jwt e \<and> c_RoomID cl = t_RoomID tok \<and> c_ViewerID cl = v
   | RStore c tok v jwt t e p \<Rightarrow> \<exists>cl. grant sign now keys rooms cl jwt e \<and> c_RoomID cl = t_RoomID tok \<and> c_ViewerID cl = v
   | RDone resp \<Rightarrow> rs_Status resp = 200 \<longrightarrow> (\<exists>cl jwt e. grant sign now keys rooms cl jwt e \<and> granted_body cl jwt e resp))"

lemma newID_length: "newID s = (s', i) \<Longrightarrow> length i = 32"
proof -
  have "length (hex_string bs) = 2 * length bs" for bs by (induction bs) (simp_all add: hex_string_def)
  then show "newID s = (s', i) \<Longrightarrow> length i = 32" by (auto simp: newID_def rand_read_def)
qed

lemma GetRoom_Inr: "GetRoom i d = (d', Inr r) \<Longrightarrow> r \<in> set (db_rooms d) \<and> r_ID r = i"
  by (auto simp: GetRoom_def query_row_def find_Some_iff split: prod.splits bool.splits option.splits dest!: stmt_eq)

lemma error_status: "rs_Status (writeError n msg) = n"
  by (simp add: writeError_def writeJSON_def)

lemma jwt_pc_step:
  assumes "jwt_pc sign now keys rooms (s, pc)"
  shows "jwt_pc sign now keys rooms (redeem_step sign now pc s)"
proof (cases pc)
  case (RLookup c)
  then show ?thesis using assms
    by (auto simp: jwt_pc_def on_db_def writeError_def writeJSON_def GetToken_def query_tables
        split: prod.splits sum.splits db_error.splits dest!: arg_cong [of _ _ "\<lambda>x. db_rooms (fst x)"])
next
  case (RRoom c tok)
  obtain d x where g: "GetRoom (t_RoomID tok) (sv_db s) = (d, x)" by (cases "GetRoom (t_RoomID tok) (sv_db s)")
  show ?thesis
  proof (cases x)
    case (Inl e)
    with RRoom g show ?thesis by (simp add: jwt_pc_def on_db_def writeError_def writeJSON_def)
  next
    case (Inr room)
    obtain s2 v where v: "newID (fst (on_db (GetRoom (t_RoomID tok)) s)) = (s2, v)" by fastforce
    then have k: "sv_keys s2 = keys" "length v = 32" using newID_db [OF v] newID_length [OF v] assms RRoom
      by (simp_all add: jwt_pc_def)
    have r: "room \<in> set rooms" "r_ID room = t_RoomID tok" using GetRoom_Inr g Inr assms RRoom by (auto simp: jwt_pc_def)
    let ?e = "now + seconds (r_SessionSeconds room)"
    let ?c = "redeem_claims now ?e (t_RoomID tok) v (r_SessionSeconds room)"
    have "grant sign now keys rooms ?c (IssueJWT sign keys ?c) ?e"
      using r k by (auto simp: grant_def redeem_claims_def)
    then show ?thesis using RRoom g Inr v k by (auto simp: jwt_pc_def on_db_def redeem_claims_def Let_def)
  qed
next
  case (RMark c tok v jwt t e)
  then show ?thesis using assms
    by (cases "on_db (RedeemToken now c v) s") (auto simp: jwt_pc_def writeError_def writeJSON_def split: option.splits)
next
  case (RQueue c tok v jwt t e)
  then show ?thesis using assms by (auto simp: jwt_pc_def split: prod.splits)
next
  case (RStore c tok v jwt t e pos)
  then obtain cl where cl: "grant sign now keys rooms cl jwt e" "c_RoomID cl = t_RoomID tok" "c_ViewerID cl = v"
    using assms by (auto simp: jwt_pc_def)
  then have "granted_body cl jwt e (writeJSON 200 (JObj [(''session_token'', JStr jwt), (''queue_position'', JNum (Itoa pos)),
      (''expires_at'', JNum (Itoa (Unix e))), (''room_id'', JStr (t_RoomID tok)), (''viewer_id'', JStr v)]))"
    by (auto simp: granted_body_def writeJSON_def)
  with RStore cl(1) show ?thesis
    by (auto simp: jwt_pc_def error_status Let_def split: prod.splits option.splits)
qed (use assms in \<open>auto simp: jwt_pc_def\<close>)

lemma jwt_pc_iter: "jwt_pc sign now keys rooms (s, pc) \<Longrightarrow> jwt_pc sign now keys rooms (redeem_iter n sign now pc s)"
proof (induction n arbitrary: pc s)
  case (Suc n)
  obtain s2 pc2 where st: "redeem_step sign now pc s = (s2, pc2)" by (cases "redeem_step sign now pc s")
  with jwt_pc_step [OF Suc.prems] Suc.IH show ?case by simp
qed simp

lemma redeem_grants:
  assumes "handleRedeemToken sign now code s = (s', resp)" and "rs_Status resp = 200"
  shows "\<exists>c jwt e. grant sign now (sv_keys s) (db_rooms (sv_db s)) c jwt e \<and> granted_body c jwt e resp"
proof -
  have "jwt_pc sign now (sv_keys s) (db_rooms (sv_db s)) (redeem_iter 5 sign now (RLookup code) s)"
    by (rule jwt_pc_iter) (simp add: jwt_pc_def)
  with assms show ?thesis
    by (auto simp: handleRedeemToken_def jwt_pc_def writeError_def writeJSON_def split: prod.splits redeem_pc.splits)
qed

text \<open>
  C6. A redeemed code gives control. The session token in a 200 response of the server is accepted by the
  host of the token's room that holds the server's public key, at any time before its expiry: a free
  host hands over control for the session length of the room, a busy one queues the viewer or says
  that it is busy or full. The host of any other room refuses it. The hypothesis on \<open>sign\<close> and
  \<open>verify\<close> is that ed25519 accepts its own signatures; the rooms are those the server creates, with a
  name and a positive session length, and the clocks are in the 64-bit range.
\<close>

theorem redeemed_token_gives_control:
  assumes "\<And>m. verify (kp_Public (sv_keys s)) m (sign (kp_Private (sv_keys s)) m)"
    and "length (kp_Public (sv_keys s)) = PublicKeySize"
    and "\<forall>r\<in>set (db_rooms (sv_db s)). r_ID r \<noteq> [] \<and> 0 < r_SessionSeconds r \<and> r_SessionSeconds r \<le> max_seconds"
    and "0 \<le> now" and "now \<le> int64_max"
    and "handleRedeemToken sign now code s = (s', resp)" and "rs_Status resp = 200"
    and "m_pubKey m = kp_Public (sv_keys s)"
  shows "\<exists>c jwt room. granted_body c jwt (now + seconds (c_SessionSeconds c)) resp
    \<and> room \<in> set (db_rooms (sv_db s)) \<and> c_RoomID c = r_ID room \<and> c_SessionSeconds c = r_SessionSeconds room
    \<and> c_ExpiresAt c = Unix (now + seconds (c_SessionSeconds c))
    \<and> (\<forall>later. Unix later < c_ExpiresAt c \<longrightarrow>
        Claim verify later jwt m =
          (if cfg_RoomID (m_cfg m) \<noteq> r_ID room then (m, Inl (RoomMismatch (r_ID room) (cfg_RoomID (m_cfg m))))
           else if m_active m = None then map_prod id Inr (startSessionLocked later c m)
           else if cfg_QueuePolicy (m_cfg m) = PolicyReject then (m, Inl ErrControllerActive)
           else if cfg_MaxQueueDepth (m_cfg m) > 0 \<and> int (length (m_queue m)) \<ge> cfg_MaxQueueDepth (m_cfg m)
           then (m, Inl ErrQueueFull)
           else map_prod id Inr (enqueueLocked later c m)))"
proof -
  obtain c jwt e where g: "grant sign now (sv_keys s) (db_rooms (sv_db s)) c jwt e" "granted_body c jwt e resp"
    using redeem_grants [OF assms(6,7)] by blast
  obtain room where r: "room \<in> set (db_rooms (sv_db s))" "e = now + seconds (r_SessionSeconds room)" "length (c_ViewerID c) = 32"
    and c: "c = redeem_claims now e (r_ID room) (c_ViewerID c) (r_SessionSeconds room)" and jwt: "jwt = IssueJWT sign (sv_keys s) c"
    using g(1) by (auto simp: grant_def)
  have sel: "c_RoomID c = r_ID room" "c_SessionSeconds c = r_SessionSeconds room" "c_ExpiresAt c = Unix e" "c_IssuedAt c = Unix now"
    by (subst c, simp add: redeem_claims_def)+
  have secs: "r_ID room \<noteq> []" "0 < r_SessionSeconds room" "r_SessionSeconds room \<le> max_seconds" using assms(3) r(1) by auto
  have e: "e = now + r_SessionSeconds room * Second" using r(2) secs by (simp add: seconds_exact)
  have u: "0 \<le> Unix now" "Unix now \<le> int64_max" "0 < Unix e" "Unix e \<le> int64_max"
    using assms(4,5) secs unfolding e Unix_def Second_def int64_max_def max_seconds_def by simp_all
  have "claims_int64 c" using u sel secs
    by (simp add: claims_int64_def in_int64_def int64_min_def int64_max_def max_seconds_def)
  note issued = ParseAndVerify_issued [of verify "sv_keys s" sign c, OF assms(1,2) this, folded jwt assms(8)]
  have "ParseAndVerify verify jwt (m_pubKey m) later = Inr c" if "Unix later < c_ExpiresAt c" for later
    using issued [of later] that sel secs u r(3) by (auto simp: check_claims_Inr)
  then have "Claim verify later jwt m =
      (if cfg_RoomID (m_cfg m) \<noteq> r_ID room then (m, Inl (RoomMismatch (r_ID room) (cfg_RoomID (m_cfg m))))
       else if m_active m = None then map_prod id Inr (startSessionLocked later c m)
       else if cfg_QueuePolicy (m_cfg m) = PolicyReject then (m, Inl ErrControllerActive)
       else if cfg_MaxQueueDepth (m_cfg m) > 0 \<and> int (length (m_queue m)) \<ge> cfg_MaxQueueDepth (m_cfg m)
       then (m, Inl ErrQueueFull)
       else map_prod id Inr (enqueueLocked later c m))" if "Unix later < c_ExpiresAt c" for later
    using that by (simp add: Claim_def map_prod_def split_beta sel(1))
  moreover have "granted_body c jwt (now + seconds (c_SessionSeconds c)) resp" using g(2) r(2) sel by simp
  moreover have "c_ExpiresAt c = Unix (now + seconds (c_SessionSeconds c))" using sel r(2) by simp
  ultimately show ?thesis using r(1) sel(1,2) by blast
qed

text \<open>A server with one open token, and the host of its room.\<close>

definition ex_room_manager :: Manager where
  "ex_room_manager = NewManager (ex_cfg\<lparr>cfg_RoomID := ''r''\<rparr>) (replicate 32 (CHR ''k''))"

theorem redeemed_token_gives_control_witness:
  "\<exists>c jwt. granted_body c jwt (7 * Second + seconds (c_SessionSeconds c)) (snd (handleRedeemToken (\<lambda>k m. m) (7 * Second) ''c'' ex_server))
     \<and> Claim (\<lambda>p m s. s = m) (66 * Second) jwt ex_room_manager = map_prod id Inr (startSessionLocked (66 * Second) c ex_room_manager)"
proof -
  obtain s' resp where h: "handleRedeemToken (\<lambda>k m. m) (7 * Second) ''c'' ex_server = (s', resp)" by fastforce
  have "rs_Status (snd (handleRedeemToken (\<lambda>k m. m) (7 * Second) ''c'' ex_server)) = 200" by code_simp
  then have st: "rs_Status resp = 200" by (simp add: h)
  have rooms: "\<forall>r\<in>set (db_rooms (sv_db ex_server)). r_ID r = ''r'' \<and> r_SessionSeconds r = 60" by code_simp
  have pre: "length (kp_Public (sv_keys ex_server)) = PublicKeySize" "m_pubKey ex_room_manager = kp_Public (sv_keys ex_server)"
    "m_active ex_room_manager = None" "cfg_RoomID (m_cfg ex_room_manager) = ''r''"
    by (simp_all add: ex_server_def ex_room_manager_def NewManager_def PublicKeySize_def)
  have rooms': "\<forall>r\<in>set (db_rooms (sv_db ex_server)). r_ID r \<noteq> [] \<and> 0 < r_SessionSeconds r \<and> r_SessionSeconds r \<le> max_seconds"
    using rooms by (auto simp: max_seconds_def)
  obtain c jwt room where c: "granted_body c jwt (7 * Second + seconds (c_SessionSeconds c)) resp"
    "room \<in> set (db_rooms (sv_db ex_server))" "c_SessionSeconds c = r_SessionSeconds room"
    "c_ExpiresAt c = Unix (7 * Second + seconds (c_SessionSeconds c))"
    and cl: "\<And>later. Unix later < c_ExpiresAt c \<Longrightarrow> r_ID room = ''r'' \<Longrightarrow>
      Claim (\<lambda>p m s. s = m) later jwt ex_room_manager = map_prod id Inr (startSessionLocked later c ex_room_manager)"
    using redeemed_token_gives_control [of "\<lambda>p m s. s = m" ex_server "\<lambda>k m. m" "7 * Second" "''c''" s' resp ex_room_manager,
        OF refl pre(1) rooms' _ _ h st pre(2)] pre(3,4)
    by (fastforce simp: Second_def int64_max_def)
  have "Unix (66 * Second) < c_ExpiresAt c"
    using c rooms by (simp add: Second_def Unix_def seconds_def in_int64_def int64_min_def int64_max_def)
  then have "Claim (\<lambda>p m s. s = m) (66 * Second) jwt ex_room_manager = map_prod id Inr (startSessionLocked (66 * Second) c ex_room_manager)"
    using cl rooms c(2) by simp
  then show ?thesis using c(1) by (auto simp only: h snd_conv)
qed

text \<open>
  The code is marked before the session is stored, with nothing to undo it: when the last statement of a
  redemption fails, the viewer gets no token and the code cannot be redeemed again.
\<close>

lemma failed_redemption_spends_code:
  "let (s1, first) = handleRedeemToken (\<lambda>k m. m) (7 * Second) ''c''
         (ex_server\<lparr>sv_db := (sv_db ex_server)\<lparr>db_fail := [False, False, False, True]\<rparr>\<rparr>);
       again = snd (handleRedeemToken (\<lambda>k m. m) (8 * Second) ''c'' s1)
   in first = writeError 500 ''create session failed'' \<and> again = writeError 409 ''token already redeemed''"
  by code_simp

section \<open>The token after the session\<close>

lemma endSession_frees:
  assumes "m_active m = Some p" and "m_queue m = []"
  shows "m_active (endSession now p k m) = None" "m_pubKey (endSession now p k m) = m_pubKey m"
    "length (m_entries (endSession now p k m)) = length (m_entries m)"
  using assms by (simp_all add: endSession_def promote_def Let_def)

lemma start_selectors:
  "m_active (fst (startSessionLocked now c m)) = Some (length (m_entries m))"
  "m_entries (fst (startSessionLocked now c m)) = m_entries m @ [started_entry now (m_cfg m) c]"
  by (simp_all add: startSessionLocked_def Let_def)

text \<open>
  C16. The host does not remember the tokens it has seen. A controller that is kicked while nobody waits
  claims control again with the token it already used, as long as that has not expired, and gets a
  new session of the full length, whose end lies after the expiry of the token.
\<close>

theorem token_regains_control:
  assumes "sess_reachable v cfg pk s" and "st_pending s = []"
    and "m_active (st_m s) = Some p" and "m_queue (st_m s) = []"
    and "ParseAndVerify v token (m_pubKey (st_m s)) (st_now s + int d) = Inr c" and "c_RoomID c = cfg_RoomID (m_cfg (st_m s))"
  shows "\<exists>s' q. sess_run v [AKick, AEndSession 0, AAdvance d, AClaim token] s = Some s'
    \<and> m_active (st_m s') = Some q \<and> q \<noteq> p \<and> e_claims (entry (st_m s') q) = c
    \<and> e_deadline (entry (st_m s') q) = Some (st_now s + int d + seconds (c_SessionSeconds c))"
proof -
  let ?m = "endSession (st_now s) p EventIdleKicked (st_m s)"
  note free = endSession_frees [OF assms(3,4), of "st_now s" EventIdleKicked]
  have "Claim v (st_now s + int d) token ?m = map_prod id Inr (startSessionLocked (st_now s + int d) c ?m)"
    using assms(5,6) free by (simp add: Claim_def map_prod_def split_beta)
  then have run: "sess_run v [AKick, AEndSession 0, AAdvance d, AClaim token] s =
      Some (s\<lparr>st_m := fst (startSessionLocked (st_now s + int d) c ?m), st_now := st_now s + int d, st_pending := []\<rparr>)"
    using assms(2,3) by (simp add: Kick_locked_def call_end_def)
  have "p < length (m_entries (st_m s))"
    using sess_inv_reachable [OF assms(1)] assms(3) by (auto simp: sess_inv_def core_inv_def live_ok_def live_def)
  then show ?thesis unfolding run using free by (simp add: start_selectors started_entry_def Let_def nth_append)
qed

theorem token_regains_control_witness:
  "\<exists>s' q. sess_run ex_verify [AKick, AEndSession 0, AAdvance 5000000000, AClaim (ex_token ''v1'')] ex_s1 = Some s'
    \<and> m_active (st_m s') = Some q \<and> q \<noteq> 0 \<and> e_claims (entry (st_m s') q) = ex_claims ''v1''
    \<and> e_deadline (entry (st_m s') q) = Some (5000000000 + seconds 60)"
proof -
  have m: "m_active (st_m ex_s1) = Some 0" "m_queue (st_m ex_s1) = []" "m_pubKey (st_m ex_s1) = kp_Public ex_kp"
    "m_cfg (st_m ex_s1) = ex_cfg" "st_now ex_s1 = 0" "st_pending ex_s1 = []"
    by (simp_all add: ex_s1_def ex_init_def sess_init_def NewManager_def startSessionLocked_def Let_def)
  have "ParseAndVerify ex_verify (ex_token ''v1'') (m_pubKey (st_m ex_s1)) (st_now ex_s1 + int 5000000000) = Inr (ex_claims ''v1'')"
    using ex_parse [of "''v1''" 5000000000] m by (simp add: Second_def)
  then show ?thesis
    using token_regains_control [OF ex_s1_reachable m(6,1,2), of "ex_token ''v1''" 5000000000 "ex_claims ''v1''"] m
    by (simp add: ex_claims_def ex_cfg_def)
qed

section \<open>From ffmpeg to the viewer\<close>

text \<open>The packets the encoder puts out for a list of access units, and the access unit of a packet.\<close>

fun emitted_packets :: "accessUnit list \<Rightarrow> Encoder \<Rightarrow> EncodedPacket list" where
  "emitted_packets [] e = []"
| "emitted_packets (au # aus) e = packet_of au e # emitted_packets aus (emitPacket au e)"

definition unit_of :: "EncodedPacket \<Rightarrow> accessUnit" where
  "unit_of k = \<lparr>au_data = ep_Data k, au_isKeyframe = ep_IsKeyframe k\<rparr>"

lemma units_emitted: "map unit_of (emitted_packets aus e) = aus"
  by (induction aus e rule: emitted_packets.induct) (auto simp: unit_of_def packet_of_def Let_def)

lemma view_taken: "subseq (map fst (sink_view stamp v as reg t)) [k. RPacket k \<leftarrow> as]"
  by (induction stamp v as reg t rule: sink_view.induct) (auto split: prod.splits)

text \<open>
  C8. What a viewer sees comes from ffmpeg. Whatever ffmpeg writes, however its output is cut into reads,
  and whatever the schedules of the pipeline, the router and the other viewers: the samples written to
  the track of a served viewer are access units of the byte stream ffmpeg wrote, none more often than
  it occurs there, and the first one is a keyframe.
\<close>

theorem viewer_sees_ffmpeg_output:
  assumes "pipe_run pas (newPipeline frames mc now) = Some s"
    and "prefix [k. PEncoderEmits k \<leftarrow> pas] (emitted_packets (split_stream chunks) e)"
    and "router_run video_ops WriteSample as (bc_init (NewVideoRouter mc') peers) = Some b"
    and "prefix [k. RPacket k \<leftarrow> as] (pl_taken s)"
    and "\<not> p_seenKeyframe (peers v)" and "served v b"
  shows "\<exists>aus. map s_Data (bc_out b v) = map au_data aus \<and> mset aus \<subseteq># mset (split_stream chunks)
    \<and> (aus \<noteq> [] \<longrightarrow> au_isKeyframe (hd aus))"
proof -
  let ?view = "sink_view video_stamp v as False (0, False)"
  let ?ps = "dropWhile (\<lambda>q. \<not> ep_IsKeyframe (fst q)) ?view"
  have "(bc_sink b v, bc_out b v) = feed WriteSample ?view (peers v)"
    using video.served [OF assms(3) video_start(1) video_owed [OF assms(6)] steady_WriteSample] by (simp add: video_start)
  then have out: "bc_out b v = map video_sample ?ps" using feed_unseen [OF assms(5), of ?view] by (metis snd_conv)
  have "subseq (map fst ?ps) (map fst ?view)" by (rule subseq_map) (rule suffix_imp_subseq [OF suffix_dropWhile])
  also have "subseq (map fst ?view) [k. RPacket k \<leftarrow> as]" by (rule view_taken)
  also have "subseq [k. RPacket k \<leftarrow> as] (pl_taken s)" by (rule prefix_imp_subseq [OF assms(4)])
  also have "subseq (pl_taken s) (pl_emerged s)"
    by (rule taken_emerged [OF assms(1)])
  finally have "mset (map fst ?ps) \<subseteq># mset (pl_emerged s)" by (rule subseq_mset)
  also have "mset (pl_emerged s) \<subseteq># pipe_held s" by (simp add: pipe_held_def)
  also have "pipe_held s \<subseteq># mset [k. PEncoderEmits k \<leftarrow> pas]"
    using pipe_run_held [OF assms(1)] by (simp add: pipe_held_def newPipeline_def)
  also have "\<dots> \<subseteq># mset (emitted_packets (split_stream chunks) e)" by (rule subseq_mset [OF prefix_imp_subseq [OF assms(2)]])
  finally have "image_mset unit_of (mset (map fst ?ps)) \<subseteq># image_mset unit_of (mset (emitted_packets (split_stream chunks) e))"
    by (rule image_mset_subseteq_mono)
  then have sub: "mset (map (unit_of \<circ> fst) ?ps) \<subseteq># mset (split_stream chunks)"
    using units_emitted [of "split_stream chunks" e] by (metis map_map mset_map)
  have "map s_Data (bc_out b v) = map au_data (map (unit_of \<circ> fst) ?ps)"
    by (simp add: out video_sample_def unit_of_def)
  moreover have "au_isKeyframe (hd (map (unit_of \<circ> fst) ?ps))" if "map (unit_of \<circ> fst) ?ps \<noteq> []"
    using that hd_dropWhile [of "\<lambda>q. \<not> ep_IsKeyframe (fst q)" ?view] by (simp add: hd_map unit_of_def)
  ultimately show ?thesis using sub by blast
qed

text \<open>One slice of an IDR picture, read in two parts, on its way to viewer 4.\<close>

definition ex_chunks :: "byte list list" where
  "ex_chunks = [[0, 0, 0, 1], [0x65, 0x88, 0x84]]"

definition ex_idr :: EncodedPacket where
  "ex_idr = \<lparr>ep_Data = [0, 0, 0, 1, 0x65, 0x88, 0x84], ep_PTS = 0, ep_IsKeyframe = True\<rparr>"

definition ex_pipe_idr :: "pipe_action list" where
  "ex_pipe_idr = [PEncoderEmits ex_idr, PWrapReceive, PWrapForward, PRouterTakes]"

definition ex_route_idr :: "(VideoRouter, EncodedPacket, Peer, Sample) broadcast option" where
  "ex_route_idr = router_run video_ops WriteSample [RAdd 4, RPacket ex_idr, RWrite 4 False] (bc_init (NewVideoRouter None) (\<lambda>_. ex_new_peer))"

theorem viewer_sees_ffmpeg_output_witness:
  "\<exists>b. ex_route_idr = Some b \<and> map s_Data (bc_out b 4) = [[0, 0, 0, 1, 0x65, 0x88, 0x84]]
     \<and> (\<exists>aus. map s_Data (bc_out b 4) = map au_data aus \<and> mset aus \<subseteq># mset (split_stream ex_chunks)
          \<and> (aus \<noteq> [] \<longrightarrow> au_isKeyframe (hd aus)))"
proof -
  define r where "r = pipe_run ex_pipe_idr (newPipeline (make_chan 3) None 0)"
  have "\<exists>s. r = Some s \<and> pl_taken s = [ex_idr]"
    unfolding r_def ex_pipe_idr_def
    by (simp add: newPipeline_def make_chan_def pipe_defs push_packet_def try_send_def can_send_def packetBufferSize_def)
  then obtain s where s: "pipe_run ex_pipe_idr (newPipeline (make_chan 3) None 0) = Some s" "pl_taken s = [ex_idr]"
    unfolding r_def by blast
  have "split_stream ex_chunks = [unit_of ex_idr]" by code_simp
  moreover have "packet_of (unit_of ex_idr) ex_encoder = ex_idr"
    by (simp add: packet_of_def unit_of_def ex_idr_def ex_encoder_def Encoder_New_def DefaultOptions_def Options_normalise_def Options_Validate_def go_div_def in_int64_def int64_min_def int64_max_def)
  ultimately have e: "prefix [k. PEncoderEmits k \<leftarrow> ex_pipe_idr] (emitted_packets (split_stream ex_chunks) ex_encoder)"
    by (simp add: ex_pipe_idr_def)
  have "map_option (\<lambda>b. served 4 b) ex_route_idr = Some True" by code_simp
  then obtain b where b: "ex_route_idr = Some b" "served 4 b" by (cases ex_route_idr) auto
  have "map_option (\<lambda>b. map s_Data (bc_out b 4)) ex_route_idr = Some [[0, 0, 0, 1, 0x65, 0x88, 0x84]]" by code_simp
  then have o: "map s_Data (bc_out b 4) = [[0, 0, 0, 1, 0x65, 0x88, 0x84]]" unfolding b(1) option.map option.inject .
  have new: "\<not> p_seenKeyframe ex_new_peer" by code_simp
  have "prefix [k. RPacket k \<leftarrow> [RAdd 4, RPacket ex_idr, RWrite 4 False]] (pl_taken s)" by (simp add: s(2))
  from viewer_sees_ffmpeg_output [OF s(1) e b(1) [unfolded ex_route_idr_def] this new b(2)]
  show ?thesis using b(1) o by (intro exI [of _ b] conjI)
qed

end
