(* ===== verification/SignalWs.thy ===== *)
theory SignalWs
  imports Signaling Url
begin

text \<open>
  Opening the WebSocket of the signaling client (\<^verbatim>\<open>playgate-host/internal/signaling/ws.go\<close>): the URL it is
  dialed at, and the dial. Taking a URL apart and writing it down are \<^verbatim>\<open>url.Parse\<close> and \<^verbatim>\<open>URL.String\<close>,
  the functions \<open>parse\<close> and \<open>print\<close>; the dial of the \<^verbatim>\<open>websocket\<close> package is a function of its request.
\<close>

section \<open>The URL\<close>

record URL =
  u_Scheme :: string
  u_User :: string
  u_Host :: string
  u_Path :: string
  u_RawQuery :: string
  u_Fragment :: string

datatype ws_error = ParseBaseURL | UnsupportedScheme string | WSDialFailed

definition ws_scheme :: "string \<Rightarrow> string option" where
  "ws_scheme scheme =
     (let s = to_lower scheme in
      if s = ''https'' then Some ''wss''
      else if s = ''http'' then Some ''ws''
      else if s = ''ws'' \<or> s = ''wss'' then Some scheme
      else None)"

definition ws_target :: "URL \<Rightarrow> string \<Rightarrow> string \<Rightarrow> SigPeer \<Rightarrow> string \<Rightarrow> URL" where
  "ws_target u0 scheme room self token =
     (let u1 = u0\<lparr>u_Scheme := scheme,
            u_Path := trim_right (CHR ''/'') (u_Path u0) @ ''/rooms/'' @ room @ ''/'' @ peer_string self @ ''/ws''\<rparr>
      in if token \<noteq> [] then u1\<lparr>u_RawQuery := Values_Encode (Values_Set ''token'' token (ParseQuery (u_RawQuery u1)))\<rparr> else u1)"

definition wsURLFor :: "(string \<Rightarrow> URL option) \<Rightarrow> (URL \<Rightarrow> string) \<Rightarrow> string \<Rightarrow> string \<Rightarrow> SigPeer \<Rightarrow> string \<Rightarrow> ws_error + string" where
  "wsURLFor parse print base room self token =
     (case parse base of
        None \<Rightarrow> Inl ParseBaseURL
      | Some u0 \<Rightarrow>
          (case ws_scheme (u_Scheme u0) of
             None \<Rightarrow> Inl (UnsupportedScheme (u_Scheme u0))
           | Some scheme \<Rightarrow> Inr (print (ws_target u0 scheme room self token))))"

section \<open>The dial\<close>

text \<open>
  What is handed to \<^verbatim>\<open>websocket.Dial\<close>: the URL, the headers, and the time limit of the HTTP client, of
  which a copy without a limit is used. The connection is opened with a limit on the size of a message.
\<close>

record ws_dial =
  wd_URL :: string
  wd_Headers :: "(string \<times> string) list"
  wd_Timeout :: duration

definition wsReadLimit :: int where
  "wsReadLimit = 2 ^ 20"

definition ws_dial_request :: "SigClient \<Rightarrow> string \<Rightarrow> ws_dial" where
  "ws_dial_request c url =
     \<lparr>wd_URL = url, wd_Headers = (if cl_token c \<noteq> [] then [(''Authorization'', ''Bearer '' @ cl_token c)] else []), wd_Timeout = 0\<rparr>"

definition DialWS :: "(string \<Rightarrow> URL option) \<Rightarrow> (URL \<Rightarrow> string) \<Rightarrow> (ws_dial \<Rightarrow> bool) \<Rightarrow> SigClient \<Rightarrow> SigPeer
    \<Rightarrow> ws_error + WSConn \<times> int" where
  "DialWS parse print dials c self =
     (case wsURLFor parse print (cl_base c) (cl_room c) self (cl_token c) of
        Inl e \<Rightarrow> Inl e
      | Inr url \<Rightarrow>
          if dials (ws_dial_request c url) then Inr (\<lparr>wsc_closed = False, wsc_closes = 0\<rparr>, wsReadLimit)
          else Inl WSDialFailed)"

section \<open>Properties\<close>

lemma Values_Encode_upd: "values_ok m \<Longrightarrow> ParseQuery (Values_Encode (Values_Set k v m)) = Values_Set k v m"
  unfolding Values_Set_def by (rule ParseQuery_Encode) (simp add: values_upd_ok)

text \<open>
  C32. The token reaches the Worker unchanged. For a base URL with one of the four schemes the socket is
  dialed at the room and peer below its path, encrypted exactly if the base URL is; whatever bytes the
  token holds, reading the query of that URL gives it back, and every other setting of the base
  URL's query keeps its value. Any other scheme is refused before anything is sent. The hypothesis is
  that \<^verbatim>\<open>url.Parse\<close> reads back the URL that was written.
\<close>

theorem ws_dial_carries_token:
  assumes "parse (cl_base c) = Some u" and "cl_token c \<noteq> []"
    and "\<forall>scheme. ws_scheme (u_Scheme u) = Some scheme \<longrightarrow>
      parse (print (ws_target u scheme (cl_room c) self (cl_token c))) = Some (ws_target u scheme (cl_room c) self (cl_token c))"
  shows "(case ws_scheme (u_Scheme u) of
      None \<Rightarrow> DialWS parse print dials c self = Inl (UnsupportedScheme (u_Scheme u))
    | Some scheme \<Rightarrow> (\<exists>req w. DialWS parse print dials c self =
          (if dials req then Inr (\<lparr>wsc_closed = False, wsc_closes = 0\<rparr>, wsReadLimit) else Inl WSDialFailed)
        \<and> parse (wd_URL req) = Some w \<and> wd_Timeout req = 0
        \<and> u_Scheme w = scheme \<and> u_Host w = u_Host u
        \<and> u_Path w = trim_right (CHR ''/'') (u_Path u) @ ''/rooms/'' @ cl_room c @ ''/'' @ peer_string self @ ''/ws''
        \<and> Values_Get ''token'' (ParseQuery (u_RawQuery w)) = cl_token c
        \<and> (\<forall>k. k \<noteq> ''token'' \<longrightarrow> Values_Get k (ParseQuery (u_RawQuery w)) = Values_Get k (ParseQuery (u_RawQuery u)))))"
proof (cases "ws_scheme (u_Scheme u)")
  case None
  then show ?thesis by (simp add: DialWS_def wsURLFor_def assms(1))
next
  case (Some scheme)
  let ?q = "ParseQuery (u_RawQuery u)" and ?w = "ws_target u scheme (cl_room c) self (cl_token c)"
  have "Values_Get k (ParseQuery (Values_Encode (Values_Set ''token'' (cl_token c) ?q))) =
      (if k = ''token'' then cl_token c else Values_Get k ?q)" for k
    using ParseQuery_ok [of "u_RawQuery u"] by (simp add: Values_Encode_upd Values_Get_Set)
  then have w: "u_Scheme ?w = scheme" "u_Host ?w = u_Host u"
    "u_Path ?w = trim_right (CHR ''/'') (u_Path u) @ ''/rooms/'' @ cl_room c @ ''/'' @ peer_string self @ ''/ws''"
    "\<And>k. Values_Get k (ParseQuery (u_RawQuery ?w)) = (if k = ''token'' then cl_token c else Values_Get k ?q)"
    using assms(2) by (simp_all add: ws_target_def Let_def)
  let ?req = "ws_dial_request c (print ?w)"
  have "DialWS parse print dials c self = (if dials ?req then Inr (\<lparr>wsc_closed = False, wsc_closes = 0\<rparr>, wsReadLimit) else Inl WSDialFailed)"
    by (simp add: DialWS_def wsURLFor_def assms(1) Some)
  moreover have "parse (wd_URL ?req) = Some ?w" "wd_Timeout ?req = 0" using assms(3) Some by (simp_all add: ws_dial_request_def)
  ultimately show ?thesis unfolding Some option.case using w by (intro exI [of _ ?req] exI [of _ ?w]) simp
qed

text \<open>A base URL with a path and a query of its own, and a token that has to be escaped.\<close>

definition ex_base :: URL where
  "ex_base = \<lparr>u_Scheme = ''https'', u_User = [], u_Host = ''sig.example'', u_Path = ''/v1/'', u_RawQuery = ''a=b'', u_Fragment = []\<rparr>"

definition ex_print :: "URL \<Rightarrow> string" where
  "ex_print u = u_Scheme u @ ''://'' @ u_Host u @ u_Path u @ ''?'' @ u_RawQuery u"

definition ex_ws_client :: SigClient where
  "ex_ws_client = \<lparr>cl_base = ex_print ex_base, cl_room = ''r1'', cl_token = ''a b&c''\<rparr>"

definition ex_ws_target :: URL where
  "ex_ws_target = ex_base\<lparr>u_Scheme := ''wss'', u_Path := ''/v1/rooms/r1/host/ws'', u_RawQuery := ''a=b&token=a+b%26c''\<rparr>"

definition ex_parse_url :: "string \<Rightarrow> URL option" where
  "ex_parse_url s = (if s = ex_print ex_base then Some ex_base else if s = ex_print ex_ws_target then Some ex_ws_target else None)"

theorem ws_dial_carries_token_witness:
  "\<exists>(req :: ws_dial) w. DialWS ex_parse_url ex_print (\<lambda>_. True) ex_ws_client PeerHost = Inr (\<lparr>wsc_closed = False, wsc_closes = 0\<rparr>, wsReadLimit)
     \<and> ex_parse_url (wd_URL req) = Some w \<and> u_Path w = ''/v1/rooms/r1/host/ws''
     \<and> Values_Get ''token'' (ParseQuery (u_RawQuery w)) = ''a b&c'' \<and> Values_Get ''a'' (ParseQuery (u_RawQuery w)) = ''b''"
proof -
  have s: "ws_scheme (u_Scheme ex_base) = Some ''wss''" by code_simp
  have b: "ex_parse_url (cl_base ex_ws_client) = Some ex_base" "cl_token ex_ws_client \<noteq> []"
    by (simp_all add: ex_parse_url_def ex_ws_client_def)
  have t: "ws_target ex_base ''wss'' (cl_room ex_ws_client) PeerHost (cl_token ex_ws_client) = ex_ws_target" by code_simp
  have p: "ex_parse_url (ex_print ex_ws_target) = Some ex_ws_target" by code_simp
  have g: "Values_Get ''a'' (ParseQuery (u_RawQuery ex_base)) = ''b''" by code_simp
  have pa: "trim_right (CHR ''/'') (u_Path ex_base) @ ''/rooms/'' @ cl_room ex_ws_client @ ''/'' @ peer_string PeerHost @ ''/ws'' =
      ''/v1/rooms/r1/host/ws''" "cl_token ex_ws_client = ''a b&c''" by code_simp+
  have h: "\<forall>scheme. ws_scheme (u_Scheme ex_base) = Some scheme \<longrightarrow>
      ex_parse_url (ex_print (ws_target ex_base scheme (cl_room ex_ws_client) PeerHost (cl_token ex_ws_client))) =
      Some (ws_target ex_base scheme (cl_room ex_ws_client) PeerHost (cl_token ex_ws_client))"
    unfolding s option.inject by (intro allI impI) (elim subst, simp only: t p)
  from ws_dial_carries_token [OF b h, of "\<lambda>_. True"] obtain req :: ws_dial and w where
    w: "DialWS ex_parse_url ex_print (\<lambda>_. True) ex_ws_client PeerHost = Inr (\<lparr>wsc_closed = False, wsc_closes = 0\<rparr>, wsReadLimit)"
    "ex_parse_url (wd_URL req) = Some w" "u_Path w = ''/v1/rooms/r1/host/ws''"
    "Values_Get ''token'' (ParseQuery (u_RawQuery w)) = ''a b&c''"
    and o: "\<forall>k. k \<noteq> ''token'' \<longrightarrow> Values_Get k (ParseQuery (u_RawQuery w)) = Values_Get k (ParseQuery (u_RawQuery ex_base))"
    unfolding s option.case pa if_True by (elim exE conjE) (rule that; assumption)
  have "Values_Get ''a'' (ParseQuery (u_RawQuery w)) = ''b''" using o [rule_format, of "''a''"] g by simp
  then show ?thesis using w by (intro exI [of _ req] exI [of _ w] conjI)
qed

end
