(* ===== verification/KeyFile.thy ===== *)
theory KeyFile
  imports Jwt "HOL-Library.Sublist"
begin

text \<open>
  The signing key of the token server on disk (\<^verbatim>\<open>playgate-server/internal/auth/jwt.go\<close>: \<^verbatim>\<open>LoadOrGenerate\<close>,
  \<^verbatim>\<open>savePrivateKey\<close>, \<^verbatim>\<open>parsePrivateKey\<close>) in the PEM format of package \<^verbatim>\<open>encoding/pem\<close>. The key derivation
  of \<^verbatim>\<open>crypto/ed25519\<close> is a parameter: \<open>public\<close> is the public key that belongs to a seed.
\<close>

section \<open>PEM\<close>

definition LF :: char where "LF = CHR 0x0A"
definition pemStart :: string where "pemStart = ''-----BEGIN ''"
definition pemEnd :: string where "pemEnd = ''-----END ''"
definition pemEndOfLine :: string where "pemEndOfLine = ''-----''"

fun chunk64 :: "nat \<Rightarrow> string \<Rightarrow> string" where
  "chunk64 0 s = []"
| "chunk64 (Suc n) s = (if s = [] then [] else take 64 s @ [LF] @ chunk64 n (drop 64 s))"

text \<open>\<^verbatim>\<open>pem.EncodeToMemory\<close> of a block without headers: lines of 64 characters.\<close>

definition pem_encode :: "string \<Rightarrow> string \<Rightarrow> string" where
  "pem_encode typ bytes =
     (let b = StdEncoding_EncodeToString bytes
      in pemStart @ typ @ pemEndOfLine @ [LF] @ chunk64 (length b) b @ pemEnd @ typ @ pemEndOfLine @ [LF])"

definition is_blank :: "char \<Rightarrow> bool" where
  "is_blank c \<longleftrightarrow> c = CHR '' '' \<or> c = CHR 0x09"

definition getLine :: "string \<Rightarrow> string \<times> string" where
  "getLine s =
     (let line = takeWhile (\<lambda>c. c \<noteq> LF) s;
          line' = (if LF \<in> set s \<and> line \<noteq> [] \<and> last line = CHR 0x0D then butlast line else line)
      in (rev (dropWhile is_blank (rev line')), drop (length line + 1) s))"

fun find_sub :: "string \<Rightarrow> string \<Rightarrow> nat option" where
  "find_sub p [] = (if p = [] then Some 0 else None)"
| "find_sub p (c # s) = (if prefix p (c # s) then Some 0 else map_option Suc (find_sub p s))"

text \<open>The headers: what follows them, and whether there were any; nothing at the end of the data.\<close>

fun pem_headers :: "nat \<Rightarrow> string \<Rightarrow> bool \<Rightarrow> (string \<times> bool) option" where
  "pem_headers 0 s any = None"
| "pem_headers (Suc n) s any =
     (if s = [] then None
      else let (line, next) = getLine s in if CHR '':'' \<in> set line then pem_headers n next True else Some (s, any))"

text \<open>
  The block whose type line has been read: its bytes, or \<open>None\<close> to look for the next block.
\<close>

definition pem_body :: "string \<Rightarrow> string \<Rightarrow> bool \<Rightarrow> string option" where
  "pem_body typ s any =
     (case (if \<not> any \<and> prefix pemEnd s then Some (0, length pemEnd)
            else map_option (\<lambda>i. (i, i + 1 + length pemEnd)) (find_sub (LF # pemEnd) s)) of
        None \<Rightarrow> None
      | Some (endIndex, trailerIndex) \<Rightarrow>
          (let trailer = drop trailerIndex s; n = length typ + length pemEndOfLine in
           if length trailer < n then None
           else if \<not> prefix typ (take n trailer) \<or> \<not> suffix pemEndOfLine (take n trailer) then None
           else if fst (getLine (drop n trailer)) \<noteq> [] then None
           else StdEncoding_DecodeString (filter (\<lambda>c. \<not> is_blank c) (take endIndex s))))"

text \<open>
  \<^verbatim>\<open>pem.Decode\<close>: the bytes of the first block. Every round leaves a shorter rest, so as many rounds as
  there are bytes are enough.
\<close>

fun pem_decode :: "nat \<Rightarrow> string \<Rightarrow> string option" where
  "pem_decode 0 s = None"
| "pem_decode (Suc n) s =
     (case (if prefix pemStart s then Some (drop (length pemStart) s)
            else map_option (\<lambda>i. drop (i + 1 + length pemStart) s) (find_sub (LF # pemStart) s)) of
        None \<Rightarrow> None
      | Some s1 \<Rightarrow>
          (let (typeLine, s2) = getLine s1 in
           if \<not> suffix pemEndOfLine typeLine then pem_decode n s2
           else (case pem_headers (length s2 + 1) s2 False of
                   None \<Rightarrow> None
                 | Some (s3, any) \<Rightarrow>
                     (case pem_body (take (length typeLine - length pemEndOfLine) typeLine) s3 any of
                        None \<Rightarrow> pem_decode n s3
                      | Some bytes \<Rightarrow> Some bytes))))"

definition pem_Decode :: "string \<Rightarrow> string option" where
  "pem_Decode s = pem_decode (length s + 1) s"

section \<open>The key file\<close>

definition SeedSize :: nat where "SeedSize = 32"

datatype keyfile_error = ReadKeyFile | InvalidPEM | SeedLength nat | GenerateFailed | SaveFailed

text \<open>A private key is its seed followed by the public key.\<close>

definition NewKeyFromSeed :: "(string \<Rightarrow> string) \<Rightarrow> string \<Rightarrow> KeyPair" where
  "NewKeyFromSeed public seed = \<lparr>kp_Private = seed @ public seed, kp_Public = public seed\<rparr>"

definition parsePrivateKey :: "(string \<Rightarrow> string) \<Rightarrow> string \<Rightarrow> keyfile_error + KeyPair" where
  "parsePrivateKey public dat =
     (case pem_Decode dat of
        None \<Rightarrow> Inl InvalidPEM
      | Some bytes \<Rightarrow> if length bytes \<noteq> SeedSize then Inl (SeedLength (length bytes)) else Inr (NewKeyFromSeed public bytes))"

text \<open>
  The file, if it exists, whether reading it fails, and what the next write does: \<^verbatim>\<open>os.WriteFile\<close> opens
  and empties the file, then writes, and may fail at either.
\<close>

datatype write_fault = WriteOK | OpenFails | FailsAfter nat

record key_disk =
  kd_file :: "string option"
  kd_readFails :: bool
  kd_write :: write_fault

definition savePrivateKey :: "string \<Rightarrow> key_disk \<Rightarrow> key_disk \<times> bool" where
  "savePrivateKey priv d =
     (let block = pem_encode ''ED25519 PRIVATE KEY'' (take SeedSize priv) in
      case kd_write d of
        WriteOK \<Rightarrow> (d\<lparr>kd_file := Some block\<rparr>, True)
      | OpenFails \<Rightarrow> (d, False)
      | FailsAfter n \<Rightarrow> (d\<lparr>kd_file := Some (take n block)\<rparr>, False))"

text \<open>\<open>rand\<close> is the seed \<^verbatim>\<open>ed25519.GenerateKey\<close> draws, if the source of randomness gives one.\<close>

definition LoadOrGenerate :: "(string \<Rightarrow> string) \<Rightarrow> string option \<Rightarrow> key_disk \<Rightarrow> key_disk \<times> (keyfile_error + KeyPair)" where
  "LoadOrGenerate public rand d =
     (if kd_readFails d then (d, Inl ReadKeyFile)
      else case kd_file d of
             Some dat \<Rightarrow> (d, parsePrivateKey public dat)
           | None \<Rightarrow>
               (case rand of
                  None \<Rightarrow> (d, Inl GenerateFailed)
                | Some seed \<Rightarrow>
                    (let kp = NewKeyFromSeed public seed in
                     case savePrivateKey (kp_Private kp) d of
                       (d1, True) \<Rightarrow> (d1, Inr kp)
                     | (d1, False) \<Rightarrow> (d1, Inl SaveFailed))))"

section \<open>Round trip\<close>

lemma find_sub_here: "c \<notin> set a \<Longrightarrow> find_sub (c # p) (a @ c # p @ r) = Some (length a)"
  by (induction a) auto

lemma find_sub_absent: "c \<notin> set s \<Longrightarrow> find_sub (c # p) s = None"
  by (induction s) auto

text \<open>The characters that the scanner of the format looks for; none is a character of base64.\<close>

definition pem_special :: string where
  "pem_special = [LF, CHR 0x0D, CHR 0x09, CHR '' '', CHR '':'', CHR ''-'']"

lemma special_not_std: "set pem_special \<inter> (set std_alphabet \<union> {CHR ''=''}) = {}"
  by (simp add: pem_special_def LF_def std_alphabet_def)

lemma std_chars: "x \<in> set (StdEncoding_EncodeToString s) \<Longrightarrow> x \<notin> set pem_special"
  using b64_encode_chars [of std_alphabet True s] special_not_std by auto

lemma std_plain:
  assumes "x \<in> set (StdEncoding_EncodeToString s)"
  shows "x \<noteq> LF" "x \<noteq> CHR 0x0D" "x \<noteq> CHR '':''" "x \<noteq> CHR ''-''" "\<not> is_blank x"
  using std_chars [OF assms] by (auto simp: pem_special_def is_blank_def)

lemma div3_step: "(Suc (Suc (Suc n)) + 2) div 3 = (n + 2) div 3 + (1::nat)"
  by presburger

lemma std_length: "length (b64_encode al True s) = 4 * ((length s + 2) div 3)"
proof (induction al True s rule: b64_encode.induct)
  case (4 al a b c r)
  have "length (b64_encode al True (a # b # c # r)) = 4 + length (b64_encode al True r)" by (simp add: Let_def)
  also have "\<dots> = 4 * ((length (a # b # c # r) + 2) div 3)" using 4 by (simp only: list.size div3_step add_0_right add_Suc_right) simp
  finally show ?case .
qed (simp_all add: Let_def)

lemma getLine_here:
  assumes "LF \<notin> set a" and "a = [] \<or> last a \<noteq> CHR 0x0D \<and> \<not> is_blank (last a)"
  shows "getLine (a @ LF # r) = (a, r)"
proof -
  have "takeWhile (\<lambda>c. c \<noteq> LF) (a @ LF # r) = a" using assms(1) by (auto simp: takeWhile_append)
  moreover have "rev (dropWhile is_blank (rev a)) = a" using assms(2) by (cases a rule: rev_cases) auto
  moreover have "(if LF \<in> set (a @ LF # r) \<and> a \<noteq> [] \<and> last a = CHR 0x0D then butlast a else a) = a" using assms(2) by auto
  ultimately show ?thesis unfolding getLine_def Let_def by (simp only:) simp
qed

text \<open>The block that \<^verbatim>\<open>savePrivateKey\<close> writes.\<close>

definition key_type :: string where "key_type = ''ED25519 PRIVATE KEY''"

lemma getLine_end: "getLine [LF] = ([], [])"
  by (simp add: getLine_def)

abbreviation key_trailer :: string where
  "key_trailer \<equiv> key_type @ pemEndOfLine @ [LF]"

lemma pem_block:
  assumes "length seed = SeedSize"
  shows "pem_encode key_type seed =
    pemStart @ (key_type @ pemEndOfLine) @ LF # StdEncoding_EncodeToString seed @ LF # pemEnd @ key_trailer"
proof -
  have l: "length (StdEncoding_EncodeToString seed) = 44" using assms by (simp add: std_length SeedSize_def)
  have "chunk64 44 s = s @ [LF]" if "length s = 44" for s :: string
    using that by (cases s) (simp_all add: numeral_eq_Suc)
  then have "chunk64 (length (StdEncoding_EncodeToString seed)) (StdEncoding_EncodeToString seed) =
      StdEncoding_EncodeToString seed @ [LF]" using l by simp
  then show ?thesis by (simp add: pem_encode_def Let_def)
qed

lemma pem_body_here:
  assumes "\<forall>x\<in>set b. x \<noteq> LF \<and> x \<noteq> CHR ''-'' \<and> \<not> is_blank x" and "b \<noteq> []"
  shows "pem_body key_type (b @ LF # pemEnd @ key_trailer) False = StdEncoding_DecodeString b"
proof -
  let ?s = "b @ LF # pemEnd @ key_trailer"
  have np: "\<not> prefix pemEnd ?s" using assms by (cases b) (auto simp: pemEnd_def)
  have f: "find_sub (LF # pemEnd) ?s = Some (length b)"
    using assms(1) find_sub_here [of LF b pemEnd key_trailer] by auto
  have d: "drop (length b + 1 + length pemEnd) ?s = key_trailer" by simp
  have t: "take (length key_type + length pemEndOfLine) key_trailer = key_type @ pemEndOfLine"
    "drop (length key_type + length pemEndOfLine) key_trailer = [LF]" by simp_all
  have b: "filter (\<lambda>c. \<not> is_blank c) (take (length b) ?s) = b" using assms(1) by (simp add: filter_id_conv)
  have l: "\<not> length key_trailer < length key_type + length pemEndOfLine" by simp
  have p: "prefix key_type (key_type @ pemEndOfLine)" "suffix pemEndOfLine (key_type @ pemEndOfLine)" by (simp_all add: suffixI)
  show ?thesis unfolding pem_body_def
    by (simp only: np f d t b l p getLine_end Let_def option.map option.case prod.case fst_conv simp_thms if_True if_False)
qed

lemma pem_roundtrip:
  assumes "length seed = SeedSize"
  shows "pem_Decode (pem_encode key_type seed) = Some seed"
proof -
  let ?b = "StdEncoding_EncodeToString seed"
  let ?rest = "?b @ LF # pemEnd @ key_trailer"
  have bne: "?b \<noteq> []" using assms std_length [of std_alphabet seed] by (auto simp: SeedSize_def)
  then have last: "last ?b \<in> set ?b" by simp
  have line1: "getLine ((key_type @ pemEndOfLine) @ LF # ?rest) = (key_type @ pemEndOfLine, ?rest)"
    by (rule getLine_here) (simp_all add: LF_def is_blank_def key_type_def pemEndOfLine_def)
  have line2: "getLine ?rest = (?b, pemEnd @ key_trailer)"
    using std_plain [of _ seed] last by (intro getLine_here) blast+
  have h: "pem_headers (length ?rest + 1) ?rest False = Some (?rest, False)"
    using line2 std_plain(3) [of _ seed] bne by auto
  have body: "pem_body key_type ?rest False = Some seed"
    using pem_body_here [of ?b] std_plain(1,4,5) [of _ seed] bne by (simp add: b64_roundtrip)
  have start: "prefix pemStart (pemStart @ r)" "drop (length pemStart) (pemStart @ r) = r" for r by simp_all
  have ty: "take (length (key_type @ pemEndOfLine) - length pemEndOfLine) (key_type @ pemEndOfLine) = key_type"
    "suffix pemEndOfLine (key_type @ pemEndOfLine)" by (simp_all add: suffixI)
  have "pem_decode (Suc n) (pemStart @ (key_type @ pemEndOfLine) @ LF # ?rest) = Some seed" for n
    by (simp only: pem_decode.simps start line1 h body ty Let_def option.case prod.case if_True if_False simp_thms)
  then show ?thesis by (simp only: pem_Decode_def pem_block [OF assms] Suc_eq_plus1 [symmetric])
qed

section \<open>Properties\<close>

text \<open>
  A restart keeps the identity of the server. Whatever key the server starts with, generated now or
  found on disk, a later start with a readable disk finds the same one and leaves the file alone, so that
  the tokens issued before it verify after it. The public key that belongs to a seed is a parameter.
\<close>

lemma restart_keeps_key:
  assumes "LoadOrGenerate public rand d = (d', Inr kp)" and "\<forall>s. rand = Some s \<longrightarrow> length s = SeedSize"
    and "\<not> kd_readFails d2" and "kd_file d2 = kd_file d'"
  shows "LoadOrGenerate public rand2 d2 = (d2, Inr kp)"
proof (cases "kd_file d")
  case (Some dat)
  then show ?thesis using assms by (auto simp: LoadOrGenerate_def split: if_splits)
next
  case None
  then obtain s where s: "rand = Some s" "kp = NewKeyFromSeed public s" "length s = SeedSize"
    "kd_file d' = Some (pem_encode key_type (take SeedSize (s @ public s)))"
    using assms(1,2)
    by (auto simp: LoadOrGenerate_def savePrivateKey_def NewKeyFromSeed_def key_type_def Let_def
        split: if_splits option.splits write_fault.splits)
  then have "kd_file d' = Some (pem_encode key_type s)" by simp
  then show ?thesis using assms(3,4) s pem_roundtrip [of s] by (simp add: LoadOrGenerate_def parsePrivateKey_def)
qed

text \<open>
  The first start is not safe against a crash: the file is emptied before it is written, and a server
  that finds it empty, or cut off in its first line, does not start and does not make a new key.
\<close>

lemma no_block: "\<not> prefix pemStart s \<Longrightarrow> find_sub (LF # pemStart) s = None \<Longrightarrow> pem_Decode s = None"
  by (simp add: pem_Decode_def)

theorem torn_key_file_fatal:
  assumes "kd_file d = None" and "\<not> kd_readFails d" and "kd_write d = FailsAfter n" and "n < length pemStart"
    and "LoadOrGenerate public (Some seed) d = (d', r)" and "\<not> kd_readFails d2" and "kd_file d2 = kd_file d'"
  shows "r = Inl SaveFailed \<and> LoadOrGenerate public rand2 d2 = (d2, Inl InvalidPEM)"
proof -
  have r: "r = Inl SaveFailed" "kd_file d' = Some (take n pemStart)"
    using assms(1-5) by (auto simp: LoadOrGenerate_def savePrivateKey_def pem_encode_def Let_def)
  have "\<not> prefix pemStart (take n pemStart)" using assms(4) prefix_length_le [of pemStart "take n pemStart"] by auto
  moreover have "LF \<notin> set pemStart" by (simp add: LF_def pemStart_def)
  then have "find_sub (LF # pemStart) (take n pemStart) = None"
    by (intro find_sub_absent) (auto dest: in_set_takeD)
  ultimately have "pem_Decode (take n pemStart) = None" by (rule no_block)
  then show ?thesis using r assms(6,7) by (simp add: LoadOrGenerate_def parsePrivateKey_def)
qed

end
