(* ===== verification/Flags.thy ===== *)
theory Flags
  imports Strconv
begin

text \<open>
  Command-line flags as package \<^verbatim>\<open>flag\<close> reads them, for the programs under \<^verbatim>\<open>cmd/\<close>: the syntax of
  a flag, the integers and booleans it takes, and how the process ends when the line is refused.
  Durations are read by a function of their own, \<^verbatim>\<open>time.ParseDuration\<close>, which is a parameter.
\<close>

section \<open>Values\<close>

definition ParseBool :: "string \<Rightarrow> bool option" where
  "ParseBool s =
     (if s \<in> {''1'', ''t'', ''T'', ''true'', ''TRUE'', ''True''} then Some True
      else if s \<in> {''0'', ''f'', ''F'', ''false'', ''FALSE'', ''False''} then Some False
      else None)"

text \<open>
  \<^verbatim>\<open>strconv.ParseInt(s, 0, 64)\<close>: the prefix chooses the base, and digits may be separated by
  underscores.
\<close>

definition digit_of :: "char \<Rightarrow> nat option" where
  "digit_of c =
     (let n = of_char c :: nat in
      if 48 \<le> n \<and> n \<le> 57 then Some (n - 48)
      else if 97 \<le> n \<and> n \<le> 122 then Some (n - 87)
      else if 65 \<le> n \<and> n \<le> 90 then Some (n - 55)
      else None)"

fun base_val :: "nat \<Rightarrow> nat \<Rightarrow> string \<Rightarrow> nat option" where
  "base_val b acc [] = Some acc"
| "base_val b acc (c # s) =
     (if c = CHR ''_'' then base_val b acc s
      else case digit_of c of
             None \<Rightarrow> None
           | Some d \<Rightarrow> if d \<ge> b then None else base_val b (acc * b + d) s)"

definition int_prefix :: "string \<Rightarrow> nat \<times> string" where
  "int_prefix s =
     (case s of
        z # x # d # r \<Rightarrow>
          if z = CHR ''0'' \<and> x \<in> {CHR ''b'', CHR ''B''} then (2, d # r)
          else if z = CHR ''0'' \<and> x \<in> {CHR ''o'', CHR ''O''} then (8, d # r)
          else if z = CHR ''0'' \<and> x \<in> {CHR ''x'', CHR ''X''} then (16, d # r)
          else if z = CHR ''0'' then (8, x # d # r)
          else (10, s)
      | z # r \<Rightarrow> if z = CHR ''0'' then (8, r) else (10, s)
      | [] \<Rightarrow> (10, []))"

text \<open>
  \<^verbatim>\<open>underscoreOK\<close>: an underscore stands between two digits, or between the prefix and a digit. The
  state is the kind of the character before.
\<close>

datatype under_state = UnderStart | UnderDigit | UnderUnderscore | UnderOther

fun underscores :: "bool \<Rightarrow> under_state \<Rightarrow> string \<Rightarrow> bool" where
  "underscores hex st [] \<longleftrightarrow> st \<noteq> UnderUnderscore"
| "underscores hex st (c # s) \<longleftrightarrow>
     (if is_digit c \<or> hex \<and> (case digit_of c of Some d \<Rightarrow> d < 16 | None \<Rightarrow> False) then underscores hex UnderDigit s
      else if c = CHR ''_'' then st = UnderDigit \<and> underscores hex UnderUnderscore s
      else st \<noteq> UnderUnderscore \<and> underscores hex UnderOther s)"

definition underscoreOK :: "string \<Rightarrow> bool" where
  "underscoreOK s =
     (case s of
        z # x # r \<Rightarrow>
          if z = CHR ''0'' \<and> x \<in> {CHR ''b'', CHR ''B'', CHR ''o'', CHR ''O'', CHR ''x'', CHR ''X''}
          then underscores (x \<in> {CHR ''x'', CHR ''X''}) UnderDigit r
          else underscores False UnderStart s
      | _ \<Rightarrow> underscores False UnderStart s)"

definition ParseInt0 :: "string \<Rightarrow> int option" where
  "ParseInt0 s =
     (let (neg, u) = (case s of
            c # r \<Rightarrow> if c = CHR ''-'' then (True, r) else if c = CHR ''+'' then (False, r) else (False, s)
          | [] \<Rightarrow> (False, []));
          (b, ds) = int_prefix u
      in if u = [] \<or> (CHR ''_'' \<in> set ds \<and> \<not> underscoreOK u) then None
         else case base_val b 0 ds of
                None \<Rightarrow> None
              | Some n \<Rightarrow> (let i = (if neg then - int n else int n) in if in_int64 i then Some i else None))"

section \<open>The command line\<close>

text \<open>A flag stores its value in the configuration of type \<^typ>\<open>'c\<close>.\<close>

datatype 'c flag_value =
    BoolFlag "bool \<Rightarrow> 'c \<Rightarrow> 'c"
  | IntFlag "int \<Rightarrow> 'c \<Rightarrow> 'c"
  | StringFlag "string \<Rightarrow> 'c \<Rightarrow> 'c"
  | DurationFlag "duration \<Rightarrow> 'c \<Rightarrow> 'c"

datatype flag_error = BadFlagSyntax string | FlagNotDefined string | FlagNeedsArgument string | BadFlagValue string string | HelpRequested

definition flag_Set :: "(string \<Rightarrow> duration option) \<Rightarrow> 'c flag_value \<Rightarrow> string \<Rightarrow> 'c \<Rightarrow> 'c option" where
  "flag_Set ParseDuration fv s c =
     (case fv of
        BoolFlag f \<Rightarrow> map_option (\<lambda>b. f b c) (ParseBool s)
      | IntFlag f \<Rightarrow> map_option (\<lambda>i. f i c) (ParseInt0 s)
      | StringFlag f \<Rightarrow> Some (f s c)
      | DurationFlag f \<Rightarrow> map_option (\<lambda>d. f d c) (ParseDuration s))"

text \<open>The name of a flag and the value after its first equals sign, which is not its first character.\<close>

definition split_flag :: "string \<Rightarrow> string \<times> string option" where
  "split_flag nm =
     (let i = length (takeWhile (\<lambda>c. c \<noteq> CHR ''='') (tl nm)) + 1 in
      if i < length nm then (take i nm, Some (drop (i + 1) nm)) else (nm, None))"

text \<open>\<^verbatim>\<open>flag.Parse\<close>: flags up to the first argument that is none; what follows is left alone.\<close>

fun flag_Parse :: "(string \<Rightarrow> duration option) \<Rightarrow> (string \<times> 'c flag_value) list \<Rightarrow> string list \<Rightarrow> 'c \<Rightarrow> flag_error + 'c" where
  "flag_Parse pd fs [] c = Inr c"
| "flag_Parse pd fs (s # args) c =
     (if length s < 2 \<or> hd s \<noteq> CHR ''-'' then Inr c
      else if s = ''--'' then Inr c
      else (let nm = (if s ! 1 = CHR ''-'' then drop 2 s else drop 1 s) in
        if hd nm = CHR ''-'' \<or> hd nm = CHR ''='' then Inl (BadFlagSyntax s)
        else (let (name, value) = split_flag nm in
          case map_of fs name of
            None \<Rightarrow> Inl (if name = ''help'' \<or> name = ''h'' then HelpRequested else FlagNotDefined name)
          | Some fv \<Rightarrow>
              (case value of
                 Some v \<Rightarrow> (case flag_Set pd fv v c of None \<Rightarrow> Inl (BadFlagValue name v) | Some c' \<Rightarrow> flag_Parse pd fs args c')
               | None \<Rightarrow>
                   (case fv of
                      BoolFlag f \<Rightarrow> flag_Parse pd fs args (f True c)
                    | _ \<Rightarrow>
                        (case args of
                           [] \<Rightarrow> Inl (FlagNeedsArgument name)
                         | v # rest \<Rightarrow>
                             (case flag_Set pd fv v c of
                                None \<Rightarrow> Inl (BadFlagValue name v)
                              | Some c' \<Rightarrow> flag_Parse pd fs rest c')))))))"

text \<open>With \<^verbatim>\<open>ExitOnError\<close> a refused line ends the process.\<close>

definition flag_exit :: "flag_error \<Rightarrow> int" where
  "flag_exit e = (if e = HelpRequested then 0 else 2)"

section \<open>Reading what was written\<close>

text \<open>The decimal form of an integer is read back in base ten.\<close>

lemma digit_of_digit: "d < 10 \<Longrightarrow> digit_of (digit_char d) = Some d"
  by (simp add: digit_of_def Let_def)

lemma base_val_digits: "\<forall>c\<in>set s. is_digit c \<Longrightarrow> base_val 10 acc s = digits_val acc s"
proof (induction s arbitrary: acc)
  case (Cons c s)
  have c: "is_digit c" using Cons.prems by simp
  then have "c \<noteq> CHR ''_''" by (auto simp: is_digit_def)
  moreover have "digit_of c = Some (of_char c - 48)" "(of_char c :: nat) - 48 < 10" using c by (auto simp: is_digit_def digit_of_def)
  ultimately show ?case using Cons c by simp
qed simp

lemma int_prefix_digits:
  assumes "s \<noteq> []" "\<forall>c\<in>set s. is_digit c" "hd s \<noteq> CHR ''0'' \<or> s = ''0''"
  shows "base_val (fst (int_prefix s)) 0 (snd (int_prefix s)) = digits_val 0 s"
proof (cases "s = ''0''")
  case True
  then show ?thesis by (simp add: int_prefix_def is_digit_def)
next
  case False
  then have "int_prefix s = (10, s)" using assms by (auto simp: int_prefix_def split: list.split)
  then show ?thesis using base_val_digits [OF assms(2), of 0] by simp
qed

lemma int_prefix_set: "set (snd (int_prefix s)) \<subseteq> set s"
  by (auto simp: int_prefix_def split: list.split)

theorem ParseInt0_Itoa: "in_int64 i \<Longrightarrow> ParseInt0 (Itoa i) = Some i"
proof -
  assume i: "in_int64 i"
  have u: "\<forall>c\<in>set (nat_digits n). is_digit c" "hd (nat_digits n) \<noteq> CHR ''0'' \<or> nat_digits n = ''0''" for n
    using nat_digits_all nat_digits_no_lead_zero [of n] nat_digits_zero by auto
  have v: "base_val (fst (int_prefix (nat_digits n))) 0 (snd (int_prefix (nat_digits n))) = Some n" for n
    using int_prefix_digits [OF _ u] by simp
  have no_us: "CHR ''_'' \<notin> set (snd (int_prefix (nat_digits n)))" for n
    using int_prefix_set [of "nat_digits n"] u(1) [of n] by (force simp: is_digit_def)
  have sign: "\<exists>c r. nat_digits n = c # r \<and> c \<noteq> CHR ''-'' \<and> c \<noteq> CHR ''+''" for n
    using u(1) [of n] by (cases "nat_digits n") auto
  show ?thesis
  proof (cases "i < 0")
    case True
    then show ?thesis using i v [of "nat (- i)"] no_us [of "nat (- i)"] by (simp add: ParseInt0_def Itoa_def case_prod_beta Let_def)
  next
    case False
    then obtain c r where "nat_digits (nat i) = c # r" "c \<noteq> CHR ''-''" "c \<noteq> CHR ''+''" using sign by blast
    then show ?thesis using False i v [of "nat i"] no_us [of "nat i"] by (simp add: ParseInt0_def Itoa_def case_prod_beta Let_def)
  qed
qed

text \<open>A line of the form that every flag has set its value is read as a fold over the flags.\<close>

definition flag_arg :: "string \<times> string \<Rightarrow> string" where
  "flag_arg kv = ''-'' @ fst kv @ ''='' @ snd kv"

definition flag_name :: "string \<Rightarrow> bool" where
  "flag_name k \<longleftrightarrow> k \<noteq> [] \<and> CHR ''='' \<notin> set k \<and> hd k \<noteq> CHR ''-''"

lemma split_flag_arg: "flag_name k \<Longrightarrow> split_flag (k @ ''='' @ v) = (k, Some v)"
  by (cases k) (auto simp: split_flag_def flag_name_def takeWhile_append)

lemma flag_Parse_arg:
  assumes "flag_name k"
  shows "flag_Parse pd fs (flag_arg (k, v) # args) c =
    (case map_of fs k of
       None \<Rightarrow> Inl (if k = ''help'' \<or> k = ''h'' then HelpRequested else FlagNotDefined k)
     | Some fv \<Rightarrow> (case flag_Set pd fv v c of None \<Rightarrow> Inl (BadFlagValue k v) | Some c' \<Rightarrow> flag_Parse pd fs args c'))"
proof -
  obtain a r where k: "k = a # r" "a \<noteq> CHR ''-''" "a \<noteq> CHR ''=''" using assms by (cases k) (auto simp: flag_name_def)
  have s: "split_flag (a # r @ CHR ''='' # v) = (k, Some v)" using split_flag_arg [OF assms, of v] k(1) by simp
  show ?thesis using k s by (simp add: flag_arg_def split: option.split)
qed

end
