(* ===== verification/ServerMain.thy ===== *)
theory ServerMain
  imports Server KeyFile Flags
begin

text \<open>
  The server process (\<^verbatim>\<open>playgate-server/main.go\<close>, with \<^verbatim>\<open>db.Open\<close> and \<^verbatim>\<open>api.New\<close>): its flags with their
  defaults from the environment, opening and migrating the database, the signing key, and the server it
  serves requests with.
\<close>

section \<open>Flags\<close>

record server_flags =
  sf_addr :: string
  sf_db :: string
  sf_key :: string

text \<open>\<open>getenv\<close> is \<^verbatim>\<open>os.Getenv\<close>: empty for a variable that is not set.\<close>

definition envOr :: "(string \<Rightarrow> string) \<Rightarrow> string \<Rightarrow> string \<Rightarrow> string" where
  "envOr getenv key def = (let v = getenv key in if v \<noteq> [] then v else def)"

definition server_defaults :: "(string \<Rightarrow> string) \<Rightarrow> server_flags" where
  "server_defaults getenv =
     \<lparr>sf_addr = envOr getenv ''PLAYGATE_ADDR'' '':8080'', sf_db = envOr getenv ''PLAYGATE_DB'' ''playgate.db'',
      sf_key = envOr getenv ''PLAYGATE_KEY'' ''ed25519.pem''\<rparr>"

definition server_flag_list :: "(string \<times> server_flags flag_value) list" where
  "server_flag_list =
     [(''addr'', StringFlag (\<lambda>v c. c\<lparr>sf_addr := v\<rparr>)), (''db'', StringFlag (\<lambda>v c. c\<lparr>sf_db := v\<rparr>)),
      (''key'', StringFlag (\<lambda>v c. c\<lparr>sf_key := v\<rparr>))]"

definition server_config :: "(string \<Rightarrow> string) \<Rightarrow> string list \<Rightarrow> flag_error + server_flags" where
  "server_config getenv args = flag_Parse (\<lambda>_. None) server_flag_list args (server_defaults getenv)"

section \<open>The database\<close>

text \<open>
  What SQLite answers for a path: whether it opens, whether the pragmas and the schema are accepted, the
  message of the error of the added column, if any, and the rows it then holds.
\<close>

record sqlite =
  sq_opens :: bool
  sq_pragma :: bool
  sq_schema :: bool
  sq_alter :: "string option"
  sq_rows :: DB

datatype open_error = OpenSqlite | PragmaFailed | MigrateFailed

definition str_contains :: "string \<Rightarrow> string \<Rightarrow> bool" where
  "str_contains s sub \<longleftrightarrow> find_sub sub s \<noteq> None"

definition db_migrate :: "sqlite \<Rightarrow> bool" where
  "db_migrate q \<longleftrightarrow> sq_schema q \<and>
     (case sq_alter q of None \<Rightarrow> True | Some msg \<Rightarrow> str_contains msg ''duplicate column name'')"

definition db_Open :: "sqlite \<Rightarrow> open_error + DB" where
  "db_Open q =
     (if \<not> sq_opens q then Inl OpenSqlite
      else if \<not> sq_pragma q then Inl PragmaFailed
      else if \<not> db_migrate q then Inl MigrateFailed
      else Inr (sq_rows q))"

section \<open>The process\<close>

definition api_New :: "byte list \<Rightarrow> DB \<Rightarrow> KeyPair \<Rightarrow> Server" where
  "api_New rand database keys = \<lparr>sv_db = database, sv_keys = keys, sv_queue = queue_New, sv_rand = rand\<rparr>"

text \<open>
  The world a process starts in: the environment, the databases and the key files by path, the seed
  and the random bytes it draws, and the addresses that can be listened on.
\<close>

record server_world =
  sw_getenv :: "string \<Rightarrow> string"
  sw_sqlite :: "string \<Rightarrow> sqlite"
  sw_keys :: "string \<Rightarrow> key_disk"
  sw_seed :: "string option"
  sw_rand :: "byte list"
  sw_listens :: "string \<Rightarrow> bool"

datatype server_exit = BadFlags int | OpenDBFailed open_error | KeyFailed keyfile_error | ListenFailed

definition exit_status :: "server_exit \<Rightarrow> int" where
  "exit_status e = (case e of BadFlags n \<Rightarrow> n | _ \<Rightarrow> 1)"

text \<open>\<^verbatim>\<open>main\<close>: how it ends, or the address and the server it has begun to serve.\<close>

definition server_main :: "(string \<Rightarrow> string) \<Rightarrow> string list \<Rightarrow> server_world \<Rightarrow> server_world \<times> (server_exit + string \<times> Server)" where
  "server_main public args w =
     (case server_config (sw_getenv w) args of
        Inl e \<Rightarrow> (w, Inl (BadFlags (flag_exit e)))
      | Inr f \<Rightarrow>
          (case db_Open (sw_sqlite w (sf_db f)) of
             Inl e \<Rightarrow> (w, Inl (OpenDBFailed e))
           | Inr database \<Rightarrow>
               (case LoadOrGenerate public (sw_seed w) (sw_keys w (sf_key f)) of
                  (d, r) \<Rightarrow>
                    (let w1 = w\<lparr>sw_keys := (sw_keys w)(sf_key f := d)\<rparr> in
                     case r of
                       Inl e \<Rightarrow> (w1, Inl (KeyFailed e))
                     | Inr keys \<Rightarrow>
                         if sw_listens w (sf_addr f) then (w1, Inr (sf_addr f, api_New (sw_rand w) database keys))
                         else (w1, Inl ListenFailed)))))"

section \<open>Properties\<close>

lemma server_main_key:
  assumes "server_main public args w = (w1, Inr (addr, s))"
  shows "\<exists>f d. server_config (sw_getenv w) args = Inr f \<and> w1 = w\<lparr>sw_keys := (sw_keys w)(sf_key f := d)\<rparr>
    \<and> LoadOrGenerate public (sw_seed w) (sw_keys w (sf_key f)) = (d, Inr (sv_keys s))"
  using assms by (auto simp: server_main_def api_New_def Let_def split: sum.splits prod.splits if_splits)

text \<open>
  C30. The server keeps its identity over restarts. Once a process has served, every later process that is
  given the same key file leaves that file as it is, never fails on it, and signs with the same key: it
  publishes the public key that hosts were configured with, and the tokens issued before are accepted
  by a host that has it.
\<close>

theorem restart_keeps_identity:
  assumes "server_main public args w = (w1, Inr (addr, s))" and "\<forall>seed. sw_seed w = Some seed \<longrightarrow> length seed = SeedSize"
    and "server_config (sw_getenv w) args = Inr f" "server_config (sw_getenv w') args' = Inr f'" "sf_key f' = sf_key f"
    and "kd_file (sw_keys w' (sf_key f)) = kd_file (sw_keys w1 (sf_key f))" "\<not> kd_readFails (sw_keys w' (sf_key f))"
    and "server_main public args' w' = (w1', r)"
  shows "w1' = w' \<and> (\<forall>e. r \<noteq> Inl (KeyFailed e)) \<and> (\<forall>addr' s'. r = Inr (addr', s') \<longrightarrow> sv_keys s' = sv_keys s
    \<and> snd (handleGetPublicKey s') = snd (handleGetPublicKey s))"
proof -
  from server_main_key [OF assms(1)] assms(3) obtain d where d: "w1 = w\<lparr>sw_keys := (sw_keys w)(sf_key f := d)\<rparr>"
    "LoadOrGenerate public (sw_seed w) (sw_keys w (sf_key f)) = (d, Inr (sv_keys s))" by auto
  then have "LoadOrGenerate public (sw_seed w') (sw_keys w' (sf_key f)) = (sw_keys w' (sf_key f), Inr (sv_keys s))"
    using restart_keeps_key [OF d(2) assms(2,7)] assms(6) by simp
  then show ?thesis using assms(4,5,8)
    by (auto simp: server_main_def api_New_def handleGetPublicKey_def Let_def split: sum.splits if_splits)
qed

definition ex_world :: server_world where
  "ex_world = \<lparr>sw_getenv = (\<lambda>k. if k = ''PLAYGATE_KEY'' then ''k.pem'' else []),
     sw_sqlite = (\<lambda>_. \<lparr>sq_opens = True, sq_pragma = True, sq_schema = True, sq_alter = Some ''duplicate column name: kick_requested'',
        sq_rows = \<lparr>db_hosts = [], db_rooms = [], db_tokens = [], db_sessions = [], db_fail = []\<rparr>\<rparr>),
     sw_keys = (\<lambda>_. \<lparr>kd_file = None, kd_readFails = False, kd_write = WriteOK\<rparr>),
     sw_seed = Some (replicate 32 (CHR ''s'')), sw_rand = [], sw_listens = (\<lambda>_. True)\<rparr>"

text \<open>The second process takes the path from a flag instead of the environment and would draw another seed.\<close>

theorem restart_keeps_identity_witness:
  "\<exists>w1 addr s s'. server_main rev [] ex_world = (w1, Inr (addr, s))
     \<and> server_main rev [''-key'', ''k.pem'', ''-addr=:9090''] (w1\<lparr>sw_getenv := \<lambda>_. [], sw_seed := None\<rparr>) =
         (w1\<lparr>sw_getenv := \<lambda>_. [], sw_seed := None\<rparr>, Inr ('':9090'', s'))
     \<and> sv_keys s' = sv_keys s"
proof -
  let ?args = "[''-key'', ''k.pem'', ''-addr=:9090'']" and ?kp = "NewKeyFromSeed rev (replicate 32 (CHR ''s''))"
  let ?f = "\<lparr>sf_addr = '':8080'', sf_db = ''playgate.db'', sf_key = ''k.pem''\<rparr>"
  let ?f' = "\<lparr>sf_addr = '':9090'', sf_db = ''playgate.db'', sf_key = ''k.pem''\<rparr>"
  obtain d where d: "LoadOrGenerate rev (sw_seed ex_world) (sw_keys ex_world ''k.pem'') = (d, Inr ?kp)" "\<not> kd_readFails d"
    by (simp add: ex_world_def LoadOrGenerate_def savePrivateKey_def Let_def)
  define w1 where "w1 = ex_world\<lparr>sw_keys := (sw_keys ex_world)(''k.pem'' := d)\<rparr>"
  define w' where "w' = w1\<lparr>sw_getenv := \<lambda>_. [], sw_seed := None\<rparr>"
  have f: "server_config (sw_getenv ex_world) [] = Inr ?f" "server_config (\<lambda>_. []) ?args = Inr ?f'" by code_simp+
  have open_: "\<exists>db. db_Open (sw_sqlite ex_world path) = Inr db" for path
  proof -
    have "str_contains ''duplicate column name: kick_requested'' ''duplicate column name''" by code_simp
    then show ?thesis by (simp add: ex_world_def db_Open_def db_migrate_def)
  qed
  have listens: "sw_listens ex_world a" for a by (simp add: ex_world_def)
  obtain addr s where m: "server_main rev [] ex_world = (w1, Inr (addr, s))"
    using open_ [of "''playgate.db''"] listens d(1) by (auto simp: server_main_def f(1) w1_def Let_def)
  have w': "sw_getenv w' = (\<lambda>_. [])" "sw_sqlite w' = sw_sqlite ex_world" "sw_keys w' ''k.pem'' = d" "sw_keys w1 ''k.pem'' = d"
    "sw_listens w' = sw_listens ex_world" by (simp_all add: w'_def w1_def)
  obtain w2 r where r: "server_main rev ?args w' = (w2, r)" by fastforce
  have seed: "\<forall>x. sw_seed ex_world = Some x \<longrightarrow> length x = SeedSize" by (simp add: ex_world_def SeedSize_def)
  have t: "w2 = w' \<and> (\<forall>e. r \<noteq> Inl (KeyFailed e)) \<and> (\<forall>addr' s'. r = Inr (addr', s') \<longrightarrow> sv_keys s' = sv_keys s
      \<and> snd (handleGetPublicKey s') = snd (handleGetPublicKey s))"
  proof (rule restart_keeps_identity [OF m seed f(1) _ _ _ _ r])
    show "server_config (sw_getenv w') ?args = Inr ?f'" using f(2) w'(1) by simp
    show "sf_key ?f' = sf_key ?f" by simp
  qed (use w' d(2) in simp_all)
  have "\<exists>s'. r = Inr ('':9090'', s')"
    using r t open_ [of "''playgate.db''"] listens
    by (auto simp: server_main_def w' f(2) Let_def split: prod.splits sum.splits)
  then show ?thesis using m r t unfolding w'_def by auto
qed

end
