(* ===== verification/SunshineCmd.thy ===== *)
theory SunshineCmd
  imports SunshineProps Flags
begin

text \<open>
  The command of the Sunshine agent (\<^verbatim>\<open>playgate-host/cmd/sunshine-agent/main.go\<close>): its flags, its start,
  and the process that follows, in which the session manager, the agent, the reader of the standard
  input and the signal take turns in any order.
\<close>

section \<open>Flags\<close>

record agentCLIConfig =
  cli_sunshineURL :: string
  cli_sunshineUser :: string
  cli_sunshinePass :: string
  cli_sunshineInsecure :: bool
  cli_pubKeyBase64 :: string
  cli_roomID :: string
  cli_idleTimeout :: duration
  cli_token :: string
  cli_pairPIN :: string
  cli_debug :: bool

definition cli_defaults :: agentCLIConfig where
  "cli_defaults = \<lparr>cli_sunshineURL = ''https://localhost:47990'', cli_sunshineUser = [], cli_sunshinePass = [],
     cli_sunshineInsecure = True, cli_pubKeyBase64 = [], cli_roomID = [], cli_idleTimeout = 0, cli_token = [],
     cli_pairPIN = [], cli_debug = False\<rparr>"

definition cli_flags :: "(string \<times> agentCLIConfig flag_value) list" where
  "cli_flags =
     [(''sunshine-url'', StringFlag (\<lambda>v c. c\<lparr>cli_sunshineURL := v\<rparr>)),
      (''sunshine-user'', StringFlag (\<lambda>v c. c\<lparr>cli_sunshineUser := v\<rparr>)),
      (''sunshine-pass'', StringFlag (\<lambda>v c. c\<lparr>cli_sunshinePass := v\<rparr>)),
      (''sunshine-insecure'', BoolFlag (\<lambda>v c. c\<lparr>cli_sunshineInsecure := v\<rparr>)),
      (''pubkey'', StringFlag (\<lambda>v c. c\<lparr>cli_pubKeyBase64 := v\<rparr>)),
      (''room'', StringFlag (\<lambda>v c. c\<lparr>cli_roomID := v\<rparr>)),
      (''idle-timeout'', DurationFlag (\<lambda>v c. c\<lparr>cli_idleTimeout := v\<rparr>)),
      (''token'', StringFlag (\<lambda>v c. c\<lparr>cli_token := v\<rparr>)),
      (''pair-pin'', StringFlag (\<lambda>v c. c\<lparr>cli_pairPIN := v\<rparr>)),
      (''debug'', BoolFlag (\<lambda>v c. c\<lparr>cli_debug := v\<rparr>))]"

text \<open>\<^verbatim>\<open>parseFlags\<close>: the configuration, or the status the process exits with.\<close>

definition parseFlags :: "(string \<Rightarrow> duration option) \<Rightarrow> string list \<Rightarrow> int + agentCLIConfig" where
  "parseFlags pd args =
     (case flag_Parse pd cli_flags args cli_defaults of
        Inl e \<Rightarrow> Inl (flag_exit e)
      | Inr cfg \<Rightarrow>
          if cli_pubKeyBase64 cfg = [] then Inl 1
          else if cli_roomID cfg = [] then Inl 1
          else Inr cfg)"

section \<open>The process\<close>

text \<open>
  The agent's goroutine runs or has returned; the main goroutine still has the token of its flags to
  claim, or not; the reader of the standard input runs or not. \<open>sd_exited\<close> is the end of the process.
\<close>

record 'a sun_daemon =
  sd_sess :: sess_state
  sd_net :: 'a
  sd_agent :: bool
  sd_claim :: "string option"
  sd_reader :: bool
  sd_ctxDone :: bool
  sd_exited :: bool

datatype sun_run_error = SunUnreachable sun_error | SunManager key_error | SunAgent agent_error

definition cli_client :: "agentCLIConfig \<Rightarrow> ClientConfig" where
  "cli_client cfg = agent_client_config (cli_sunshineURL cfg) (cli_sunshineUser cfg) (cli_sunshinePass cfg) (cli_sunshineInsecure cfg)"

definition cli_agent_config :: "agentCLIConfig \<Rightarrow> AgentConfig" where
  "cli_agent_config cfg = \<lparr>ag_PairPIN = cli_pairPIN cfg, ag_KickRetries = 3, ag_KickRetryDelay = Second\<rparr>"

definition sun_start :: "'n sun_network \<Rightarrow> agentCLIConfig \<Rightarrow> instant \<Rightarrow> 'n \<Rightarrow> 'n \<times> (sun_run_error + 'n sun_daemon)" where
  "sun_start net cfg now s =
     (let ctrl = fst (NewHTTPClient (cli_client cfg)) in
      case sun_Status net ctrl s of
        (s1, Inl e) \<Rightarrow> (s1, Inl (SunUnreachable e))
      | (s1, Inr info) \<Rightarrow>
          (case loadPublicKey (\<lambda>_. None) (cli_pubKeyBase64 cfg) [] of
             Inl e \<Rightarrow> (s1, Inl (SunManager e))
           | Inr pk \<Rightarrow>
               (case NewAgent (Some (http_controller net ctrl)) (Some ()) (cli_agent_config cfg) of
                  Inl e \<Rightarrow> (s1, Inl (SunAgent e))
                | Inr ag \<Rightarrow>
                    (s1, Inr \<lparr>sd_sess = sess_init (agent_session_config (cli_roomID cfg) (cli_idleTimeout cfg)) pk now,
                       sd_net = s1, sd_agent = True,
                       sd_claim = (if cli_token cfg \<noteq> [] then Some (cli_token cfg) else None),
                       sd_reader = (cli_token cfg = []), sd_ctxDone = False, sd_exited = False\<rparr>))))"

text \<open>
  The steps. The manager's own goroutines are the actions of its model; what ends \<^verbatim>\<open>Manager.Run\<close> is the
  context. The agent takes an event, or returns when the context has ended or the channel is closed
  and empty. A line is being read when the context ends, and is still claimed. The process is over when
  \<^verbatim>\<open>run\<close> returns.
\<close>

datatype sun_step = SunManagerStep action | SunClaim | SunLine string | SunReaderStops | SunTake | SunAgentReturns | SunSignal | SunExit

fun own_action :: "action \<Rightarrow> bool" where
  "own_action (ATick _) = True"
| "own_action (ATickEmit _) = True"
| "own_action (AWatchDone _) = True"
| "own_action (AIdleFire _) = True"
| "own_action (AEndSession _) = True"
| "own_action (AAdvance _) = True"
| "own_action ARunStop = True"
| "own_action ARunClose = True"
| "own_action _ = False"

definition on_sess :: "verify_fun \<Rightarrow> action \<Rightarrow> 'n sun_daemon \<Rightarrow> 'n sun_daemon option" where
  "on_sess v a d = map_option (\<lambda>s. d\<lparr>sd_sess := s\<rparr>) (sess_step v a (sd_sess d))"

abbreviation events_of :: "'n sun_daemon \<Rightarrow> SessionEvent chan" where
  "events_of d \<equiv> m_eventsOut (st_m (sd_sess d))"

text \<open>A line of the standard input: blank lines and comments are skipped, any other is claimed.\<close>

definition sun_line :: "verify_fun \<Rightarrow> string \<Rightarrow> 'n sun_daemon \<Rightarrow> 'n sun_daemon option" where
  "sun_line v line d =
     (let token = trim_space line in
      if token = [] \<or> take 1 token = ''#'' then Some d else on_sess v (AClaim token) d)"

definition sun_take :: "verify_fun \<Rightarrow> 'n SunController \<Rightarrow> AgentConfig \<Rightarrow> 'n sun_daemon \<Rightarrow> 'n sun_daemon option" where
  "sun_take v ctl a d =
     (case ch_buf (events_of d) of
        [] \<Rightarrow> None
      | ev # _ \<Rightarrow> map_option (\<lambda>d1. d1\<lparr>sd_net := handleEvent ctl a ev (sd_net d1)\<rparr>) (on_sess v AEventsDrain d))"

fun sun_do :: "verify_fun \<Rightarrow> 'n SunController \<Rightarrow> AgentConfig \<Rightarrow> sun_step \<Rightarrow> 'n sun_daemon \<Rightarrow> 'n sun_daemon option" where
  "sun_do v ctl a (SunManagerStep x) d =
     (if own_action x \<and> (x = ARunStop \<longrightarrow> sd_ctxDone d) then on_sess v x d else None)"
| "sun_do v ctl a SunClaim d =
     (case sd_claim d of None \<Rightarrow> None | Some token \<Rightarrow> map_option (\<lambda>d1. d1\<lparr>sd_claim := None\<rparr>) (on_sess v (AClaim token) d))"
| "sun_do v ctl a (SunLine line) d = (if sd_reader d then sun_line v line d else None)"
| "sun_do v ctl a SunReaderStops d = (if sd_reader d then Some (d\<lparr>sd_reader := False\<rparr>) else None)"
| "sun_do v ctl a SunTake d = (if sd_agent d then sun_take v ctl a d else None)"
| "sun_do v ctl a SunAgentReturns d =
     (if sd_agent d \<and> (sd_ctxDone d \<or> ch_closed (events_of d) \<and> ch_buf (events_of d) = []) then Some (d\<lparr>sd_agent := False\<rparr>) else None)"
| "sun_do v ctl a SunSignal d = Some (d\<lparr>sd_ctxDone := True\<rparr>)"
| "sun_do v ctl a SunExit d = (if sd_ctxDone d \<and> sd_claim d = None then Some (d\<lparr>sd_exited := True\<rparr>) else None)"

fun sun_run :: "verify_fun \<Rightarrow> 'n SunController \<Rightarrow> AgentConfig \<Rightarrow> sun_step list \<Rightarrow> 'n sun_daemon \<Rightarrow> 'n sun_daemon option" where
  "sun_run v ctl a [] d = Some d"
| "sun_run v ctl a (x # xs) d =
     (if sd_exited d then None else Option.bind (sun_do v ctl a x d) (sun_run v ctl a xs))"

section \<open>What the process does with the manager\<close>

text \<open>Every run of the process is a run of the manager of the actions the command takes part in.\<close>

lemma sun_do_sess:
  assumes "sun_do v ctl a x d = Some d'"
  shows "\<exists>as. sess_run v as (sd_sess d) = Some (sd_sess d') \<and> (\<forall>y\<in>set as. agent_action y)"
proof -
  have one: "on_sess v y d = Some d1 \<Longrightarrow> agent_action y \<Longrightarrow> \<exists>as. sess_run v as (sd_sess d) = Some (sd_sess d1) \<and> (\<forall>y\<in>set as. agent_action y)"
    for y d1 by (rule exI [of _ "[y]"]) (auto simp: on_sess_def)
  have none: "sd_sess d' = sd_sess d \<Longrightarrow> ?thesis" by (rule exI [of _ "[]"]) simp
  show ?thesis
  proof (cases x)
    case (SunManagerStep y)
    then have "on_sess v y d = Some d'" "agent_action y" using assms by (cases y; simp split: if_splits)+
    then show ?thesis by (rule one)
  next
    case SunClaim
    then obtain token d1 where "on_sess v (AClaim token) d = Some d1" "sd_sess d' = sd_sess d1"
      using assms by (auto split: option.splits)
    then show ?thesis using one [of "AClaim token" d1] by simp
  next
    case (SunLine line)
    then show ?thesis using assms none one [of "AClaim (trim_space line)" d'] by (auto simp: sun_line_def Let_def split: if_splits)
  next
    case SunTake
    then obtain d1 where "on_sess v AEventsDrain d = Some d1" "sd_sess d' = sd_sess d1"
      using assms by (auto simp: sun_take_def split: if_splits list.splits)
    then show ?thesis using one [of AEventsDrain d1] by simp
  qed (use assms none in \<open>auto split: if_splits\<close>)
qed

lemma sun_run_sess:
  "sun_run v ctl a xs d = Some d' \<Longrightarrow> \<exists>as. sess_run v as (sd_sess d) = Some (sd_sess d') \<and> (\<forall>y\<in>set as. agent_action y)"
proof (induction xs arbitrary: d)
  case Nil
  then show ?case by (intro exI [of _ "[]"]) simp
next
  case (Cons x xs)
  then obtain d1 where d1: "sun_do v ctl a x d = Some d1" "sun_run v ctl a xs d1 = Some d'"
    by (auto simp: bind_eq_Some_conv split: if_splits)
  from sun_do_sess [OF d1(1)] obtain as where "sess_run v as (sd_sess d) = Some (sd_sess d1)" "\<forall>y\<in>set as. agent_action y" by blast
  moreover from Cons.IH [OF d1(2)] obtain bs where "sess_run v bs (sd_sess d1) = Some (sd_sess d')" "\<forall>y\<in>set bs. agent_action y" by blast
  ultimately show ?case by (intro exI [of _ "as @ bs"]) (auto simp: sess_run_append)
qed

section \<open>Shutdown\<close>

text \<open>Once the manager has stopped, no event is added to the channel of the agent.\<close>

lemma emitEvent_stopped: "m_stopped m \<Longrightarrow> emitEvent ev m = m"
  by (simp add: emitEvent_def)

lemma start_stopped:
  "m_stopped m \<Longrightarrow> m_eventsOut (fst (startSessionLocked now c m)) = m_eventsOut m \<and> m_stopped (fst (startSessionLocked now c m))"
  by (simp add: startSessionLocked_def Let_def emitEvent_stopped)

lemma claim_stopped:
  assumes "m_stopped m"
  shows "m_eventsOut (fst (Claim v now token m)) = m_eventsOut m \<and> m_stopped (fst (Claim v now token m))"
  using assms start_stopped [OF assms, of now]
  by (auto simp: Claim_def enqueueLocked_def Let_def emitEvent_stopped split_beta split: sum.split)

lemma end_stopped:
  assumes "m_stopped m"
  shows "m_eventsOut (endSession now p k m) = m_eventsOut m \<and> m_stopped (endSession now p k m)"
  using assms start_stopped [of _ now]
  by (auto simp: endSession_def promote_def Let_def emitEvent_stopped split_beta split: list.split)

lemma run_stopped: "m_eventsOut (Run_locked m) = m_eventsOut m \<and> m_stopped (Run_locked m)"
  by (auto simp: Run_locked_def Let_def split: option.split)

lemma stopped_step:
  assumes "m_stopped (st_m s)" "sess_step v a s = Some s'" "agent_action a"
  shows "m_stopped (st_m s') \<and> ch_buf (m_eventsOut (st_m s')) =
    (if a = AEventsDrain then tl (ch_buf (m_eventsOut (st_m s))) else ch_buf (m_eventsOut (st_m s)))"
proof (cases a)
  case (AClaim token)
  then show ?thesis using assms claim_stopped [of "st_m s"] by auto
next
  case (AEndSession k)
  then show ?thesis using assms end_stopped [of "st_m s"] by (auto split: if_splits prod.splits)
next
  case (ATickEmit p)
  then show ?thesis using assms by (auto simp: watch_emit_def emitEvent_stopped split: if_splits watch_pc.splits)
next
  case ARunStop
  then show ?thesis using assms run_stopped [of "st_m s"] by (auto split: if_splits)
qed (use assms in \<open>auto simp: watch_tick_def watch_done_def idle_fire_def Run_close_def call_end_def Let_def
       split: if_splits option.splits timer.splits\<close>)

lemma sun_do_stopped:
  assumes "m_stopped (st_m (sd_sess d))" "sun_do v ctl a x d = Some d'"
  shows "m_stopped (st_m (sd_sess d')) \<and>
    (ch_buf (events_of d') = ch_buf (events_of d) \<and> sd_net d' = sd_net d \<or>
     (\<exists>ev. ch_buf (events_of d) = ev # ch_buf (events_of d') \<and> sd_net d' = handleEvent ctl a ev (sd_net d)))"
proof -
  have one: "on_sess v y d = Some d1 \<Longrightarrow> agent_action y \<Longrightarrow> m_stopped (st_m (sd_sess d1)) \<and> sd_net d1 = sd_net d \<and>
      ch_buf (events_of d1) = (if y = AEventsDrain then tl (ch_buf (events_of d)) else ch_buf (events_of d))" for y d1
    using stopped_step [OF assms(1)] assms(1) by (auto simp: on_sess_def)
  show ?thesis
  proof (cases x)
    case (SunManagerStep y)
    then have "on_sess v y d = Some d'" "agent_action y" "y \<noteq> AEventsDrain" using assms(2) by (cases y; simp split: if_splits)+
    then show ?thesis using one [of y d'] by simp
  next
    case SunClaim
    then obtain token d1 where "on_sess v (AClaim token) d = Some d1" "d' = d1\<lparr>sd_claim := None\<rparr>"
      using assms(2) by (auto split: option.splits)
    then show ?thesis using one [of "AClaim token" d1] by simp
  next
    case (SunLine line)
    then show ?thesis using assms one [of "AClaim (trim_space line)" d'] by (auto simp: sun_line_def Let_def split: if_splits)
  next
    case SunTake
    then obtain ev evs d1 where "ch_buf (events_of d) = ev # evs" "on_sess v AEventsDrain d = Some d1"
      "d' = d1\<lparr>sd_net := handleEvent ctl a ev (sd_net d1)\<rparr>"
      using assms(2) by (auto simp: sun_take_def split: if_splits list.splits)
    then show ?thesis using one [of AEventsDrain d1] by simp
  qed (use assms in \<open>auto split: if_splits\<close>)
qed

text \<open>
  C31. A shutdown ends the limit on play. Once the manager has stopped, the agent acts at most on the events
  that were already waiting for it, in their order, whatever the process does until it exits: a viewer
  in control at that moment is never kicked, and keeps the stream without the time limit of its turn.
\<close>

theorem shutdown_kicks_nobody:
  assumes "m_stopped (st_m (sd_sess d))" and "sun_run v ctl a xs d = Some d'"
  shows "\<exists>k. sd_net d' = fold (handleEvent ctl a) (take k (ch_buf (events_of d))) (sd_net d)"
  using assms
proof (induction xs arbitrary: d)
  case Nil
  then show ?case by (intro exI [of _ 0]) simp
next
  case (Cons x xs)
  then obtain d1 where d1: "sun_do v ctl a x d = Some d1" "sun_run v ctl a xs d1 = Some d'"
    by (auto simp: bind_eq_Some_conv split: if_splits)
  note step = sun_do_stopped [OF Cons.prems(1) d1(1)]
  then obtain k where k: "sd_net d' = fold (handleEvent ctl a) (take k (ch_buf (events_of d1))) (sd_net d1)"
    using Cons.IH [OF _ d1(2)] by blast
  from step show ?case
  proof (elim conjE disjE exE)
    fix ev assume "ch_buf (events_of d) = ev # ch_buf (events_of d1)" "sd_net d1 = handleEvent ctl a ev (sd_net d)"
    then show ?thesis using k by (intro exI [of _ "Suc k"]) simp
  qed (use k in auto)
qed

definition ex_daemon :: "nat sun_daemon" where
  "ex_daemon = \<lparr>sd_sess = sess_init (agent_session_config ''r1'' 0) (kp_Public ex_kp) 0, sd_net = 0, sd_agent = True,
     sd_claim = Some (ex_token ''v1''), sd_reader = False, sd_ctxDone = False, sd_exited = False\<rparr>"

text \<open>A Sunshine that counts the calls it gets.\<close>

definition ex_counting :: "nat SunController" where
  "ex_counting = \<lparr>ctl_ApprovePair = (\<lambda>pin n. (n + 1, True)), ctl_KickAll = (\<lambda>n. (n + 1, True)), ctl_wait = (\<lambda>n d. (n, False))\<rparr>"

definition ex_agent :: AgentConfig where
  "ex_agent = \<lparr>ag_PairPIN = [], ag_KickRetries = 3, ag_KickRetryDelay = Second\<rparr>"

definition ex_agent_start :: Manager where
  "ex_agent_start = fst (startSessionLocked 0 (ex_claims ''v1'') (NewManager (agent_session_config ''r1'' 0) (kp_Public ex_kp)))"

lemma ex_agent_claim:
  "Claim ex_verify 0 (ex_token ''v1'') (NewManager (agent_session_config ''r1'' 0) (kp_Public ex_kp)) = (ex_agent_start, Inr 0)"
proof -
  have "(0 :: int) < 1000 * Second" by (simp add: Second_def)
  then have "ParseAndVerify ex_verify (ex_token ''v1'') (kp_Public ex_kp) 0 = Inr (ex_claims ''v1'')" by (intro ex_parse) simp_all
  then show ?thesis
    by (simp add: Claim_def NewManager_def agent_session_config_def ex_agent_start_def startSessionLocked_def Let_def)
      (simp add: ex_claims_def)
qed

text \<open>The viewer of the flag's token is in control when the process is told to stop.\<close>

theorem shutdown_kicks_nobody_witness:
  "\<exists>d d'. sun_run ex_verify ex_counting ex_agent [SunClaim, SunSignal, SunManagerStep ARunStop] ex_daemon = Some d
     \<and> m_active (st_m (sd_sess d)) = Some 0
     \<and> sun_run ex_verify ex_counting ex_agent [SunTake, SunManagerStep (AWatchDone 0), SunManagerStep (AEndSession 0), SunExit] d = Some d'
     \<and> sd_net d' = 0"
proof -
  let ?m = "Run_locked ex_agent_start" and ?ev = "newEvent 0 EventGranted ''v1'' 60 0"
  let ?run = "sun_run ex_verify ex_counting ex_agent" and ?xs = "[SunTake, SunManagerStep (AWatchDone 0), SunManagerStep (AEndSession 0), SunExit]"
  define d where "d = \<lparr>sd_sess = \<lparr>st_m = ?m, st_now = 0, st_pending = [], st_run = RunClosing\<rparr>, sd_net = 0 :: nat, sd_agent = True,
     sd_claim = None, sd_reader = False, sd_ctxDone = True, sd_exited = False\<rparr>"
  have d: "?run [SunClaim, SunSignal, SunManagerStep ARunStop] ex_daemon = Some d"
    by (simp add: d_def ex_daemon_def on_sess_def sess_init_def ex_agent_claim)
  have a: "m_active ?m = Some 0" "m_stopped (st_m (sd_sess d))" unfolding d_def by code_simp+
  have b: "ch_buf (events_of d) = [?ev]" unfolding d_def by code_simp
  have "?run ?xs d \<noteq> None" unfolding d_def by code_simp
  then obtain d' where d': "?run ?xs d = Some d'" by blast
  obtain k where "sd_net d' = fold (handleEvent ex_counting ex_agent) (take k [?ev]) (sd_net d)"
    using shutdown_kicks_nobody [OF a(2) d'] b by auto
  moreover have "handleEvent ex_counting ex_agent ?ev n = n" for n
    by (simp add: handleEvent_def newEvent_def ex_agent_def)
  moreover have "sd_net d = 0" by (simp add: d_def)
  ultimately have "sd_net d' = 0" by (cases k) simp_all
  then show ?thesis using d d' a(1) by (intro exI [of _ d] exI [of _ d']) (simp add: d_def)
qed

section \<open>The next viewer\<close>

text \<open>
  A kick is aimed at nobody in particular: it closes whatever Sunshine runs. When the turn of a viewer
  expires and the next token is claimed before the agent has taken the event, the kick happens while
  the next viewer is in control.
\<close>

theorem kick_hits_next_viewer:
  assumes "sess_reachable v cfg pk (sd_sess d)" and "sd_agent d" "sd_reader d" "\<not> sd_exited d"
    and "m_active (st_m (sd_sess d)) = Some p" "m_queue (st_m (sd_sess d)) = []" "st_pending (sd_sess d) = [(p, EventExpired)]"
    and "\<not> m_stopped (st_m (sd_sess d))" "ch_buf (events_of d) = []" "can_send (events_of d)"
    and "trim_space line \<noteq> []" "take 1 (trim_space line) \<noteq> ''#''"
    and "ParseAndVerify v (trim_space line) (m_pubKey (st_m (sd_sess d))) (st_now (sd_sess d)) = Inr c"
    and "c_RoomID c = cfg_RoomID (m_cfg (st_m (sd_sess d)))"
  shows "\<exists>d' q. sun_run v ctl a [SunManagerStep (AEndSession 0), SunLine line, SunTake] d = Some d'
    \<and> m_active (st_m (sd_sess d')) = Some q \<and> q \<noteq> p \<and> e_claims (entry (st_m (sd_sess d')) q) = c
    \<and> sd_net d' = fst (kickWithRetry ctl a (sd_net d))"
proof -
  let ?s = "sd_sess d" and ?now = "st_now (sd_sess d)"
  let ?m = "endSession ?now p EventExpired (st_m ?s)"
  let ?n = "fst (startSessionLocked ?now c ?m)"
  let ?ev = "newEvent ?now EventExpired (e_viewerID (entry (st_m ?s) p)) 0 0"
  have inv: "core_inv (st_m ?s)" "chans_inv (st_m ?s)" using sess_inv_reachable [OF assms(1)] by (simp_all add: sess_inv_def)
  then have p: "p < length (m_entries (st_m ?s))" using assms(5) by (auto simp: core_inv_def live_ok_def live_def)
  have open_: "\<not> ch_closed (events_of d)" using inv assms(8) by (auto simp: chans_inv_def)
  have m: "m_active ?m = None" "m_pubKey ?m = m_pubKey (st_m ?s)" "m_cfg ?m = m_cfg (st_m ?s)"
    "length (m_entries ?m) = length (m_entries (st_m ?s))"
    using assms(5,6) by (simp_all add: endSession_def promote_Nil Let_def)
  have buf: "ch_buf (m_eventsOut ?m) = [?ev]"
    using assms(5,6,8-10) p open_ by (simp add: endSession_def promote_Nil Let_def emitEvent_def try_send_buf)
  have n: "m_active ?n = Some (length (m_entries ?m))" "e_claims (entry ?n (length (m_entries ?m))) = c"
    "\<exists>r. ch_buf (m_eventsOut ?n) = ?ev # r"
    using buf by (auto simp: startSessionLocked_def Let_def emitEvent_def try_send_buf)
  then obtain r where r: "ch_buf (m_eventsOut ?n) = ?ev # r" by blast
  have claim: "fst (Claim v ?now (trim_space line) ?m) = ?n"
    using assms(13,14) m by (simp add: Claim_def split_beta)
  have ev: "handleEvent ctl a ?ev = (\<lambda>x. fst (kickWithRetry ctl a x))" by (rule ext) (simp add: handleEvent_def newEvent_def)
  have "\<exists>d'. sun_run v ctl a [SunManagerStep (AEndSession 0), SunLine line, SunTake] d = Some d'
      \<and> st_m (sd_sess d') = ?n\<lparr>m_eventsOut := drop_one (m_eventsOut ?n)\<rparr> \<and> sd_net d' = fst (kickWithRetry ctl a (sd_net d))"
    using assms(2-4,7,11,12) claim r by (simp add: on_sess_def sun_line_def sun_take_def ev Let_def)
  then show ?thesis using n(1,2) m(4) p by auto
qed

end
