(* ===== verification/RtcTest.thy ===== *)
theory RtcTest
  imports AnnexB Peer
begin

unbundle bit_operations_syntax

text \<open>
  The WebRTC test program (\<^verbatim>\<open>playgate-host/cmd/rtctest\<close>: \<^verbatim>\<open>h264.go\<close> and \<^verbatim>\<open>main.go\<close>): its own splitter
  of an H.264 file into packets, the built-in stream, the loop that writes the packets to the peer
  at a fixed rate, and the command line around them. Run-time panics (a slice made with a negative
  length, an index out of range, a ticker without a positive interval) are results of their own.
\<close>

section \<open>Reading a file\<close>

definition maxInt :: "int \<Rightarrow> int \<Rightarrow> int" where
  "maxInt a b = (if a > b then a else b)"

text \<open>\<^verbatim>\<open>time.Second / time.Duration(maxInt(fps, 1))\<close>\<close>

definition frame_duration :: "int \<Rightarrow> duration" where
  "frame_duration fps = go_div Second (maxInt fps 1)"

text \<open>
  \<^verbatim>\<open>splitNALUs\<close>: the offsets behind every three-byte start code, then the payload of each, from
  its offset to the next start code, of which a zero byte in front is taken to be a part.
\<close>

definition rt_starts :: "byte list \<Rightarrow> nat list" where
  "rt_starts full =
     map (\<lambda>i. i + 3) (filter (\<lambda>i. full ! i = 0 \<and> full ! (i + 1) = 0 \<and> full ! (i + 2) = 1) [0..<length full - 2])"

definition rt_end :: "byte list \<Rightarrow> nat list \<Rightarrow> nat" where
  "rt_end full later =
     (case later of
        [] \<Rightarrow> length full
      | next # _ \<Rightarrow> (let e = next - 3 in if 1 \<le> e \<and> full ! (e - 1) = 0 then e - 1 else e))"

fun rt_payloads :: "byte list \<Rightarrow> nat list \<Rightarrow> byte list list" where
  "rt_payloads full [] = []"
| "rt_payloads full (s # later) =
     (let e = rt_end full later in
      if e > s then byte_slice full s e # rt_payloads full later else rt_payloads full later)"

definition rt_splitNALUs :: "byte list \<Rightarrow> byte list list" where
  "rt_splitNALUs data = rt_payloads data (rt_starts data)"

text \<open>The access units: a packet ends where the next slice begins.\<close>

record assembly =
  as_packets :: "EncodedPacket list"
  as_cur :: "byte list"
  as_curIsKey :: bool
  as_seenVCL :: bool
  as_pts :: duration

definition assembly_init :: assembly where
  "assembly_init = \<lparr>as_packets = [], as_cur = [], as_curIsKey = False, as_seenVCL = False, as_pts = 0\<rparr>"

definition rt_flush :: "duration \<Rightarrow> assembly \<Rightarrow> assembly" where
  "rt_flush frameDur a =
     (if as_cur a = [] then a
      else \<lparr>as_packets = as_packets a @ [\<lparr>ep_Data = as_cur a, ep_PTS = as_pts a, ep_IsKeyframe = as_curIsKey a\<rparr>],
            as_cur = [], as_curIsKey = False, as_seenVCL = False, as_pts = wrap64 (as_pts a + frameDur)\<rparr>)"

definition nal_type :: "byte list \<Rightarrow> byte" where
  "nal_type nal = hd nal AND 0x1f"

definition rt_isVCL :: "byte list \<Rightarrow> bool" where
  "rt_isVCL nal \<longleftrightarrow> 1 \<le> nal_type nal \<and> nal_type nal \<le> 5"

definition start_code :: "byte list" where
  "start_code = [0, 0, 0, 1]"

definition rt_add :: "duration \<Rightarrow> byte list \<Rightarrow> assembly \<Rightarrow> assembly" where
  "rt_add frameDur nal a =
     (if nal = [] then a
      else
        (let a1 = (if rt_isVCL nal \<and> as_seenVCL a then rt_flush frameDur a else a);
             a2 = a1\<lparr>as_cur := as_cur a1 @ start_code @ nal\<rparr>
         in if rt_isVCL nal
            then a2\<lparr>as_seenVCL := True, as_curIsKey := as_curIsKey a2 \<or> nal_type nal = 5\<rparr>
            else a2))"

definition assemble :: "duration \<Rightarrow> byte list list \<Rightarrow> EncodedPacket list" where
  "assemble frameDur nals = as_packets (rt_flush frameDur (fold (rt_add frameDur) nals assembly_init))"

text \<open>\<^verbatim>\<open>readAnnexB\<close>: \<open>content\<close> is what \<^verbatim>\<open>os.ReadFile\<close> returns for the path.\<close>

datatype rt_error = ReadFileFailed | NoNALUnits | NoAccessUnits | PeerFailed new_peer_error
  | OfferFailed sdp_exchange_error | SDPFailed sdp_error | ReadAnswerFailed | AnswerRejected sdp_exchange_error
  | WriteSampleFailed

definition readAnnexB :: "byte list option \<Rightarrow> int \<Rightarrow> rt_error + EncodedPacket list" where
  "readAnnexB content fps =
     (case content of
        None \<Rightarrow> Inl ReadFileFailed
      | Some data \<Rightarrow>
          (let nals = rt_splitNALUs data in
           if nals = [] then Inl NoNALUnits
           else (let packets = assemble (frame_duration fps) nals
                 in if packets = [] then Inl NoAccessUnits else Inr packets)))"

section \<open>The built-in stream\<close>

definition builtin_au :: "byte list" where
  "builtin_au =
     (start_code @ [0x67, 0x42, 0x00, 0x0a, 0xf8, 0x41, 0xa2]) @ (start_code @ [0x68, 0xce, 0x38, 0x80])
       @ (start_code @ [0x65, 0x88, 0x84, 0x00, 0x10, 0xff])"

text \<open>\<^const>\<open>None\<close> is the panic of \<^verbatim>\<open>make\<close> on a negative length.\<close>

definition builtinTestStream :: "int \<Rightarrow> EncodedPacket list option" where
  "builtinTestStream fps =
     (if fps < 0 then None
      else Some (map (\<lambda>i. \<lparr>ep_Data = builtin_au, ep_PTS = wrap64 (int i * frame_duration fps), ep_IsKeyframe = True\<rparr>)
             [0..<nat fps]))"

section \<open>Writing the packets\<close>

text \<open>
  What the \<^verbatim>\<open>select\<close> of \<^verbatim>\<open>pumpLoop\<close> receives, in order: a tick, or the end of the context.
\<close>

datatype rt_event = Tick | Interrupted

datatype rt_result = RtDone | RtErr rt_error | RtPanic | RtWaiting

record rt_pump =
  rp_i :: nat
  rp_basePTS :: duration
  rp_peer :: Peer
  rp_out :: "EncodedPacket list"
  rp_samples :: "Sample list"

definition loop_len :: "duration \<Rightarrow> EncodedPacket list \<Rightarrow> duration" where
  "loop_len frameDur packets = wrap64 (ep_PTS (last packets) + frameDur)"

text \<open>
  One tick: the packet written, with its time stamp moved by the loops already played. \<open>rp_out\<close>
  collects the packets handed to \<^verbatim>\<open>WriteSample\<close> and \<open>rp_samples\<close> the samples that reach the track.
\<close>

definition rt_packet :: "EncodedPacket list \<Rightarrow> rt_pump \<Rightarrow> EncodedPacket" where
  "rt_packet packets s =
     (let pkt = packets ! rp_i s
      in \<lparr>ep_Data = ep_Data pkt, ep_PTS = wrap64 (rp_basePTS s + ep_PTS pkt), ep_IsKeyframe = ep_IsKeyframe pkt\<rparr>)"

definition rt_advance :: "duration \<Rightarrow> EncodedPacket list \<Rightarrow> rt_pump \<Rightarrow> rt_pump" where
  "rt_advance frameDur packets s =
     (if rp_i s + 1 \<ge> length packets
      then s\<lparr>rp_i := 0, rp_basePTS := wrap64 (rp_basePTS s + loop_len frameDur packets)\<rparr>
      else s\<lparr>rp_i := rp_i s + 1\<rparr>)"

definition rt_tick :: "(nat \<Rightarrow> bool) \<Rightarrow> duration \<Rightarrow> EncodedPacket list \<Rightarrow> rt_pump \<Rightarrow> rt_pump \<times> bool" where
  "rt_tick fails frameDur packets s =
     (let out = rt_packet packets s;
          (p, sample, err) = WriteSample (fails (length (rp_samples s))) out frameDur (rp_peer s);
          s1 = s\<lparr>rp_peer := p, rp_out := rp_out s @ [out], rp_samples := rp_samples s @ option_list sample\<rparr>
      in if err then (s1, False)
         else (rt_advance frameDur packets s1, True))"

fun rt_loop :: "(nat \<Rightarrow> bool) \<Rightarrow> duration \<Rightarrow> EncodedPacket list \<Rightarrow> rt_event list \<Rightarrow> rt_pump \<Rightarrow> rt_pump \<times> rt_result" where
  "rt_loop fails frameDur packets [] s = (s, RtWaiting)"
| "rt_loop fails frameDur packets (Interrupted # es) s = (s, RtDone)"
| "rt_loop fails frameDur packets (Tick # es) s =
     (case rt_tick fails frameDur packets s of
        (s1, False) \<Rightarrow> (s1, RtErr WriteSampleFailed)
      | (s1, True) \<Rightarrow> rt_loop fails frameDur packets es s1)"

definition rt_pump_init :: "Peer \<Rightarrow> rt_pump" where
  "rt_pump_init p = \<lparr>rp_i = 0, rp_basePTS = 0, rp_peer = p, rp_out = [], rp_samples = []\<rparr>"

text \<open>
  \<^verbatim>\<open>pumpLoop\<close>: \<^verbatim>\<open>time.NewTicker\<close> panics unless the interval is positive, and the last packet of an
  empty list is an index out of range.
\<close>

definition pumpLoop :: "(nat \<Rightarrow> bool) \<Rightarrow> EncodedPacket list \<Rightarrow> int \<Rightarrow> rt_event list \<Rightarrow> Peer \<Rightarrow> rt_pump \<times> rt_result" where
  "pumpLoop fails packets fps es p =
     (if frame_duration fps \<le> 0 \<or> packets = [] then (rt_pump_init p, RtPanic)
      else rt_loop fails (frame_duration fps) packets es (rt_pump_init p))"

section \<open>The command\<close>

text \<open>
  \<^verbatim>\<open>readLine\<close>: \<open>stdin\<close> is all there is to read. The line ends with a line feed or, at the end of the
  input, without one and with an error.
\<close>

definition readLine :: "string \<Rightarrow> string option" where
  "readLine stdin =
     (let found = (CHR 0x0A \<in> set stdin); line = trim_space (takeWhile (\<lambda>c. c \<noteq> CHR 0x0A) stdin)
      in if line \<noteq> [] then Some line else if found then Some [] else None)"

definition splitCSV :: "string \<Rightarrow> string list" where
  "splitCSV s = filter (\<lambda>p. p \<noteq> []) (map trim_space (split_on (CHR '','') s))"

text \<open>
  What the world answers: the file, the Pion calls that fail, the offer, the JSON form of a
  description, the standard input, whether the answer is refused, the writes the track refuses,
  and the ticks until the signal.
\<close>

record 'a rt_env =
  re_file :: "byte list option"
  re_fails :: "pion_call \<Rightarrow> bool"
  re_created :: "'a option"
  re_setLocalFails :: "'a \<Rightarrow> bool"
  re_cancelled :: bool
  re_local :: "'a option"
  re_marshal :: "'a \<Rightarrow> string option"
  re_unmarshal :: "string \<Rightarrow> 'a option"
  re_stdin :: string
  re_setRemoteFails :: "'a \<Rightarrow> bool"
  re_writeFails :: "nat \<Rightarrow> bool"
  re_events :: "rt_event list"

text \<open>\<^verbatim>\<open>peer.Close()\<close>: every step of it.\<close>

definition rt_Close :: "Peer \<Rightarrow> Peer" where
  "rt_Close p = fold (\<lambda>_ q. case Close_step q of Some q' \<Rightarrow> q' | None \<Rightarrow> q) [0..<3] p"

definition rt_load :: "'a rt_env \<Rightarrow> string \<Rightarrow> int \<Rightarrow> (rt_error + EncodedPacket list) option" where
  "rt_load env h264Path fps =
     (if h264Path \<noteq> [] then Some (readAnnexB (re_file env) fps) else map_option Inr (builtinTestStream fps))"

definition rt_signal :: "'a rt_env \<Rightarrow> string list \<times> rt_error option" where
  "rt_signal env =
     (case CreateOffer (re_created env) (re_setLocalFails env) (re_cancelled env) (re_local env) of
        Inl e \<Rightarrow> ([], Some (OfferFailed e))
      | Inr offer \<Rightarrow>
          (case EncodeSDP (re_marshal env) offer of
             Inl e \<Rightarrow> ([], Some (SDPFailed e))
           | Inr offerB64 \<Rightarrow>
               ([offerB64],
                case readLine (re_stdin env) of
                  None \<Rightarrow> Some ReadAnswerFailed
                | Some answerB64 \<Rightarrow>
                    (case DecodeSDP (re_unmarshal env) answerB64 of
                       Inl e \<Rightarrow> Some (SDPFailed e)
                     | Inr answer \<Rightarrow> map_option AnswerRejected (SetRemoteDescription (re_setRemoteFails env) answer)))))"

text \<open>
  \<^verbatim>\<open>run\<close>: the lines printed for the operator, how it ended, and the state of the pump when the peer
  had been built. The deferred \<^verbatim>\<open>peer.Close()\<close> runs on every way out, a panic included.
\<close>

definition rt_run :: "'a rt_env \<Rightarrow> string \<Rightarrow> int \<Rightarrow> string \<Rightarrow> string list \<times> rt_result \<times> rt_pump option" where
  "rt_run env h264Path fps stun =
     (case rt_load env h264Path fps of
        None \<Rightarrow> ([], RtPanic, None)
      | Some (Inl e) \<Rightarrow> ([], RtErr e, None)
      | Some (Inr packets) \<Rightarrow>
          (case NewPeer (re_fails env)
                  \<lparr>pcfg_ICEServers = ICEServersFromURLs (splitCSV stun), pcfg_CommandBuffer = 0,
                   pcfg_HasKeyframeRequest = False, pcfg_EnableAudio = False\<rparr> of
             Inl e \<Rightarrow> ([], RtErr (PeerFailed e), None)
           | Inr p \<Rightarrow>
               (case rt_signal env of
                  (printed, Some e) \<Rightarrow> (printed, RtErr e, Some (rt_pump_init (rt_Close p)))
                | (printed, None) \<Rightarrow>
                    (case pumpLoop (re_writeFails env) packets fps (re_events env) p of
                       (s, r) \<Rightarrow> (printed, r, Some (if r = RtWaiting then s else s\<lparr>rp_peer := rt_Close (rp_peer s)\<rparr>))))))"

section \<open>The start codes\<close>

lemma drop_prefix: "drop (length xs) (xs @ ys) = ys"
  by simp

lemma frame_duration_nonneg: "0 \<le> frame_duration fps"
  by (simp add: frame_duration_def maxInt_def Second_def pos_imp_zdiv_nonneg_iff)

text \<open>A start code at an offset, and the offsets behind those of a list.\<close>

definition code3 :: "byte list \<Rightarrow> nat \<Rightarrow> bool" where
  "code3 b i \<longleftrightarrow> i + 2 < length b \<and> b ! i = 0 \<and> b ! (i + 1) = 0 \<and> b ! (i + 2) = 1"

lemma rt_starts_code3: "rt_starts b = map (\<lambda>i. i + 3) (filter (code3 b) [0..<length b])"
proof -
  have "[0..<length b] = [0..<length b - 2] @ [length b - 2..<length b]"
    using upt_add_eq_append [of 0 "length b - 2" "length b - (length b - 2)"] by simp
  moreover have "filter (code3 b) [length b - 2..<length b] = []" by (auto simp: code3_def filter_empty_conv)
  moreover have "filter (code3 b) [0..<length b - 2] =
      filter (\<lambda>i. b ! i = 0 \<and> b ! (i + 1) = 0 \<and> b ! (i + 2) = 1) [0..<length b - 2]"
    by (rule filter_cong) (auto simp: code3_def)
  ultimately show ?thesis by (simp add: rt_starts_def)
qed

text \<open>A NAL unit as an encoder writes it: not empty, no start code inside, no zero byte at its end.\<close>

definition clean_nal :: "byte list \<Rightarrow> bool" where
  "clean_nal n \<longleftrightarrow> n \<noteq> [] \<and> last n \<noteq> 0 \<and> (\<forall>i. \<not> code3 n i)"

abbreviation annexb :: "byte list list \<Rightarrow> byte list" where
  "annexb ns \<equiv> concat (map (\<lambda>n. start_code @ n) ns)"

lemma annexb_head: "ns \<noteq> [] \<Longrightarrow> \<exists>r. annexb ns = 0 # 0 # 0 # 1 # r"
  by (cases ns) (auto simp: start_code_def)

lemma code3_skip: "k \<le> i \<Longrightarrow> code3 b i = code3 (drop k b) (i - k)"
  by (auto simp: code3_def add.commute)

lemma code3_in_nal:
  assumes "clean_nal n" and "r = [] \<or> (\<exists>q. r = 0 # 0 # 0 # 1 # q)" and "i < length n"
  shows "\<not> code3 (n @ r) i"
proof
  assume c: "code3 (n @ r) i"
  consider "i + 2 < length n" | "i + 2 = length n" | "i + 1 = length n" using assms(3) by linarith
  then show False
  proof cases
    case 1
    then show False using c assms(1) by (auto simp: code3_def clean_nal_def nth_append)
  next
    case 2
    then show False using c assms(2) by (auto simp: code3_def nth_append)
  next
    case 3
    then show False using c assms(1) by (auto simp: code3_def nth_append clean_nal_def last_conv_nth simp flip: 3)
  qed
qed

lemma starts_nal:
  assumes "clean_nal n" and "r = [] \<or> (\<exists>q. r = 0 # 0 # 0 # 1 # q)"
  shows "filter (code3 (start_code @ n @ r)) [0..<length (start_code @ n @ r)] =
    1 # map (\<lambda>i. i + (4 + length n)) (filter (code3 r) [0..<length r])"
proof -
  let ?b = "start_code @ n @ r" and ?k = "4 + length n"
  have hd: "\<not> code3 ?b 0" "code3 ?b 1" "\<not> code3 ?b 2" "\<not> code3 ?b 3"
    using assms(1) by (cases n; simp add: code3_def start_code_def clean_nal_def eval_nat_numeral)+
  have mid: "\<not> code3 ?b i" if "4 \<le> i" "i < ?k" for i
    using code3_skip [of 4 i ?b] code3_in_nal [OF assms, of "i - 4"] that by (simp add: start_code_def)
  have tail: "code3 ?b (i + ?k) = code3 r i" for i
  proof -
    have k: "?k = length (start_code @ n)" "?b = (start_code @ n) @ r" by (simp_all add: start_code_def)
    have "drop ?k ?b = r" unfolding k by (rule drop_prefix)
    then show ?thesis using code3_skip [of ?k "i + ?k" ?b] by simp
  qed
  have len: "length ?b = ?k + length r" by (simp add: start_code_def)
  have "[0..<length ?b] = [0..<?k] @ [?k..<?k + length r]" unfolding len by (rule upt_add_eq_append) simp
  also have "[0..<?k] = [0..<4] @ [4..<?k]" using upt_add_eq_append [of 0 4 "length n"] by simp
  also have "[0..<4] = [0, 1, 2, 3 :: nat]" by (simp add: upt_conv_Cons)
  also have "[?k..<?k + length r] = map (\<lambda>i. i + ?k) [0..<length r]" by (simp add: map_add_upt add.commute)
  finally have "[0..<length ?b] = [0, 1, 2, 3] @ [4..<?k] @ map (\<lambda>i. i + ?k) [0..<length r]" by simp
  then show ?thesis using hd mid by (simp add: filter_map comp_def tail filter_empty_conv)
qed

lemma payloads_annexb:
  assumes "\<forall>n\<in>set ns. clean_nal n"
  shows "rt_payloads (p @ annexb ns)
    (map (\<lambda>i. i + 3 + length p) (filter (code3 (annexb ns)) [0..<length (annexb ns)])) = ns"
  using assms
proof (induction ns arbitrary: p)
  case (Cons n ns)
  let ?r = "annexb ns" and ?q = "p @ start_code @ n"
  have r: "?r = [] \<or> (\<exists>q. ?r = 0 # 0 # 0 # 1 # q)" using annexb_head [of ns] by (cases ns) auto
  have n: "clean_nal n" "n \<noteq> []" using Cons.prems by (simp_all add: clean_nal_def)
  let ?later = "map (\<lambda>i. i + 3 + length ?q) (filter (code3 ?r) [0..<length ?r])"
  have starts: "map (\<lambda>i. i + 3 + length p) (filter (code3 (annexb (n # ns))) [0..<length (annexb (n # ns))]) =
      (length p + 4) # ?later"
    using starts_nal [OF n(1) r] by (simp add: start_code_def add.assoc add.commute)
  have full: "p @ annexb (n # ns) = ?q @ ?r" by simp
  have "rt_end (?q @ ?r) ?later = length ?q"
  proof (cases ns)
    case Nil
    then show ?thesis by (simp add: rt_end_def)
  next
    case (Cons n' ns')
    then have "clean_nal n'" using Cons.prems by simp
    moreover have "annexb ns' = [] \<or> (\<exists>q. annexb ns' = 0 # 0 # 0 # 1 # q)" using annexb_head [of ns'] by (cases ns') auto
    ultimately have "filter (code3 ?r) [0..<length ?r] =
        1 # map (\<lambda>i. i + (4 + length n')) (filter (code3 (annexb ns')) [0..<length (annexb ns')])"
      using starts_nal [of n' "annexb ns'"] by (simp add: Cons)
    moreover have "(?q @ ?r) ! length ?q = 0" using Cons by (simp add: nth_append start_code_def)
    ultimately show ?thesis by (simp add: rt_end_def Let_def)
  qed
  moreover have "byte_slice (?q @ ?r) (length p + 4) (length ?q) = n"
  proof -
    have "drop (length (p @ start_code)) ((p @ start_code) @ n @ ?r) = n @ ?r" by (rule drop_prefix)
    then show ?thesis by (simp add: byte_slice_def start_code_def)
  qed
  moreover have "rt_payloads (?q @ ?r) ?later = ns" using Cons.IH [of ?q] Cons.prems by simp
  moreover have "length p + 4 < length ?q" using n(2) by (simp add: start_code_def)
  ultimately show ?case unfolding full starts rt_payloads.simps Let_def by (simp only: if_True)
qed simp

section \<open>The access units\<close>

text \<open>
  The packets of a list of groups of NAL units: the group of a packet holds at most one slice, and the
  packet is a keyframe if that is an IDR slice.
\<close>

definition group_packet :: "duration \<Rightarrow> nat \<Rightarrow> byte list list \<Rightarrow> EncodedPacket" where
  "group_packet d i g = \<lparr>ep_Data = annexb g, ep_PTS = wrap64 (int i * d), ep_IsKeyframe = (\<exists>n\<in>set g. nal_type n = 5)\<rparr>"

definition group_packets :: "duration \<Rightarrow> byte list list list \<Rightarrow> EncodedPacket list" where
  "group_packets d gs = map (\<lambda>i. group_packet d i (gs ! i)) [0..<length gs]"

definition one_slice :: "byte list list \<Rightarrow> bool" where
  "one_slice g \<longleftrightarrow> g \<noteq> [] \<and> length (filter rt_isVCL g) \<le> 1"

definition assembled :: "duration \<Rightarrow> byte list list \<Rightarrow> assembly \<Rightarrow> byte list list list \<Rightarrow> byte list list \<Rightarrow> bool" where
  "assembled d ns a gs g \<longleftrightarrow> as_packets a = group_packets d gs \<and> as_cur a = annexb g
     \<and> as_curIsKey a = (\<exists>n\<in>set g. nal_type n = 5) \<and> as_seenVCL a = (\<exists>n\<in>set g. rt_isVCL n)
     \<and> as_pts a = wrap64 (int (length gs) * d) \<and> list_all one_slice gs \<and> length (filter rt_isVCL g) \<le> 1
     \<and> concat gs @ g = ns"

lemma group_packets_snoc: "group_packets d (gs @ [g]) = group_packets d gs @ [group_packet d (length gs) g]"
  by (auto simp: group_packets_def nth_append)

lemma start_code_Nil [simp]: "start_code \<noteq> []"
  by (simp add: start_code_def)

lemma assembled_flush:
  assumes "assembled d ns a gs g" and "g \<noteq> []"
  shows "assembled d ns (rt_flush d a) (gs @ [g]) []"
  using assms wrap64_add [of "int (length gs) * d" d]
  by (auto simp: assembled_def rt_flush_def group_packets_snoc group_packet_def one_slice_def distrib_right add.commute)

lemma assembled_add:
  assumes "assembled d ns a gs g" and "n \<noteq> []"
  shows "\<exists>gs' g'. assembled d (ns @ [n]) (rt_add d n a) gs' g' \<and> g' \<noteq> []"
proof (cases "rt_isVCL n \<and> as_seenVCL a")
  case True
  then have "g \<noteq> []" using assms(1) by (auto simp: assembled_def)
  then have f: "assembled d ns (rt_flush d a) (gs @ [g]) []" by (rule assembled_flush [OF assms(1)])
  have "assembled d (ns @ [n]) (rt_add d n a) (gs @ [g]) [n]"
    using f True assms(2) by (auto simp: assembled_def rt_add_def Let_def)
  then show ?thesis by blast
next
  case False
  have "nal_type n = 5 \<Longrightarrow> rt_isVCL n" by (simp add: rt_isVCL_def)
  moreover have "filter rt_isVCL g = []" if "rt_isVCL n" using False that assms(1) by (auto simp: assembled_def filter_empty_conv)
  ultimately have "assembled d (ns @ [n]) (rt_add d n a) gs (g @ [n])"
    using False assms by (auto simp: assembled_def rt_add_def Let_def)
  then show ?thesis by blast
qed

lemma rt_add_Nil [simp]: "rt_add d [] a = a"
  by (simp add: rt_add_def)

lemma assembled_fold:
  "\<exists>gs g. assembled d (filter (\<lambda>n. n \<noteq> []) ns) (fold (rt_add d) ns assembly_init) gs g \<and> (g = [] \<longrightarrow> gs = [])"
proof (induction ns rule: rev_induct)
  case Nil
  have "assembled d [] assembly_init [] []" by (simp add: assembled_def assembly_init_def group_packets_def)
  then show ?case by auto
next
  case (snoc n ns)
  then obtain gs g where g: "assembled d (filter (\<lambda>n. n \<noteq> []) ns) (fold (rt_add d) ns assembly_init) gs g" "g = [] \<longrightarrow> gs = []" by blast
  show ?case
  proof (cases "n = []")
    case True
    then show ?thesis using g by auto
  next
    case False
    then show ?thesis using assembled_add [OF g(1) False] by auto
  qed
qed

lemma assemble_groups:
  "\<exists>gs. assemble d ns = group_packets d gs \<and> list_all one_slice gs \<and> concat gs = filter (\<lambda>n. n \<noteq> []) ns"
proof -
  obtain gs g where g: "assembled d (filter (\<lambda>n. n \<noteq> []) ns) (fold (rt_add d) ns assembly_init) gs g" "g = [] \<longrightarrow> gs = []"
    using assembled_fold by blast
  show ?thesis
  proof (cases "g = []")
    case True
    then show ?thesis using g by (auto simp: assembled_def assemble_def rt_flush_def group_packets_def intro!: exI [of _ "[]"])
  next
    case False
    then show ?thesis using assembled_flush [OF g(1)] by (auto simp: assembled_def assemble_def intro!: exI [of _ "gs @ [g]"])
  qed
qed

section \<open>The pump\<close>

text \<open>After \<open>n\<close> ticks the pump stands at packet \<open>n mod length packets\<close>.\<close>

definition paced :: "duration \<Rightarrow> EncodedPacket list \<Rightarrow> bool" where
  "paced d packets \<longleftrightarrow> packets \<noteq> [] \<and> (\<forall>i<length packets. ep_PTS (packets ! i) = wrap64 (int i * d))"

definition pumped :: "duration \<Rightarrow> EncodedPacket list \<Rightarrow> nat \<Rightarrow> EncodedPacket" where
  "pumped d packets i = (packets ! (i mod length packets))\<lparr>ep_PTS := wrap64 (int i * d)\<rparr>"

definition pump_at :: "duration \<Rightarrow> EncodedPacket list \<Rightarrow> nat \<Rightarrow> rt_pump \<Rightarrow> bool" where
  "pump_at d packets n s \<longleftrightarrow> rp_i s = n mod length packets
     \<and> rp_basePTS s = wrap64 (int (n div length packets * length packets) * d) \<and> rp_out s = map (pumped d packets) [0..<n]"

lemma loop_len_paced: "paced d packets \<Longrightarrow> loop_len d packets = wrap64 (int (length packets) * d)"
  by (cases packets) (auto simp: paced_def loop_len_def last_conv_nth wrap64_add distrib_right add.commute simp del: last.simps)

lemma pump_tick:
  assumes "paced d packets" and "pump_at d packets n s" and "\<And>i. \<not> fails i"
  shows "\<exists>s'. rt_tick fails d packets s = (s', True) \<and> pump_at d packets (Suc n) s'"
proof -
  let ?l = "length packets"
  have l: "0 < ?l" using assms(1) by (simp add: paced_def)
  have i: "rp_i s < ?l" using assms(2) l by (simp add: pump_at_def)
  have "int (n div ?l * ?l) * d + int (n mod ?l) * d = int n * d"
    by (metis distrib_right div_mult_mod_eq of_nat_add)
  then have "rt_packet packets s = pumped d packets n"
    using assms(1,2) i by (simp add: rt_packet_def pumped_def pump_at_def paced_def Let_def wrap64_add)
  moreover have "rp_i (rt_advance d packets s) = Suc n mod ?l \<and>
      rp_basePTS (rt_advance d packets s) = wrap64 (int (Suc n div ?l * ?l) * d)"
  proof (cases "Suc (n mod ?l) = ?l")
    case True
    then have "Suc n mod ?l = 0" by (simp add: mod_Suc)
    moreover from this have "Suc n div ?l = Suc (n div ?l)" by (simp add: div_Suc)
    ultimately show ?thesis using True assms(1,2)
      by (simp add: rt_advance_def pump_at_def loop_len_paced wrap64_add distrib_right add.commute)
  next
    case False
    then have "Suc n mod ?l = Suc (n mod ?l)" by (simp add: mod_Suc)
    moreover from this have "Suc n div ?l = n div ?l" by (simp add: div_Suc)
    ultimately show ?thesis using False i assms(2) by (simp add: rt_advance_def pump_at_def)
  qed
  ultimately show ?thesis using assms(2,3)
    by (auto simp: rt_tick_def pump_at_def rt_advance_def Let_def split: prod.splits dest: WriteSample_accepted)
qed

lemma pump_ticks:
  assumes "paced d packets" and "\<And>i. \<not> fails i"
  shows "pump_at d packets n s \<Longrightarrow>
    \<exists>s'. rt_loop fails d packets (replicate k Tick) s = (s', RtWaiting) \<and> pump_at d packets (n + k) s'"
proof (induction k arbitrary: n s)
  case (Suc k)
  then show ?case using pump_tick [OF assms(1) Suc.prems, of fails] assms(2) Suc.IH [of "Suc n"] by fastforce
qed simp

lemma group_packets_paced: "gs \<noteq> [] \<Longrightarrow> paced d (group_packets d gs)"
  by (simp add: paced_def group_packets_def group_packet_def)

lemma read_paced:
  assumes "readAnnexB content fps = Inr packets"
  shows "paced (frame_duration fps) packets"
proof -
  obtain dat where "content = Some dat" and p: "packets = assemble (frame_duration fps) (rt_splitNALUs dat)" "packets \<noteq> []"
    using assms by (auto simp: readAnnexB_def Let_def split: option.splits if_splits)
  obtain gs where "packets = group_packets (frame_duration fps) gs" using assemble_groups p(1) by metis
  with p(2) show ?thesis using group_packets_paced [of gs] by (cases gs) (auto simp: group_packets_def)
qed

lemma builtin_paced: "builtinTestStream fps = Some packets \<Longrightarrow> packets \<noteq> [] \<Longrightarrow> paced (frame_duration fps) packets"
  by (auto simp: builtinTestStream_def paced_def split: if_splits)

section \<open>Properties\<close>

text \<open>
  The test program plays the whole file. A stream of NAL units with four-byte start codes is read as
  packets that follow each other at the frame rate: put together they hold every unit, in order, each
  packet holds at most one slice, and it is marked as a keyframe exactly if that is an IDR slice.
\<close>

theorem rtctest_reads_file:
  assumes "\<forall>n\<in>set ns. clean_nal n" and "ns \<noteq> []"
  shows "\<exists>gs. readAnnexB (Some (annexb ns)) fps = Inr (group_packets (frame_duration fps) gs)
    \<and> concat gs = ns \<and> list_all one_slice gs
    \<and> concat (map ep_Data (group_packets (frame_duration fps) gs)) = annexb ns"
proof -
  have split: "rt_splitNALUs (annexb ns) = ns"
    using payloads_annexb [OF assms(1), of "[]"] by (simp add: rt_splitNALUs_def rt_starts_code3)
  obtain gs where gs: "assemble (frame_duration fps) ns = group_packets (frame_duration fps) gs" "list_all one_slice gs"
    "concat gs = filter (\<lambda>n. n \<noteq> []) ns" using assemble_groups by blast
  have ns: "filter (\<lambda>n. n \<noteq> []) ns = ns" using assms(1) by (auto simp: filter_id_conv clean_nal_def)
  then have ne: "group_packets (frame_duration fps) gs \<noteq> []" using gs(3) assms(2) by (auto simp: group_packets_def)
  have "map ep_Data (group_packets d gs) = map annexb gs" for d
    by (rule nth_equalityI) (simp_all add: group_packets_def group_packet_def)
  moreover have "concat (map annexb gs) = annexb (concat gs)" by (induction gs) simp_all
  ultimately have "concat (map ep_Data (group_packets d gs)) = annexb (concat gs)" for d by simp
  then show ?thesis using split gs ns ne assms(2) by (simp add: readAnnexB_def Let_def) metis
qed

definition ex_nals :: "byte list list" where
  "ex_nals = [[0x67, 0x42], [0x68, 0xce], [0x65, 0x88], [0x41, 0x9a], [0x67, 0x42], [0x68, 0xce], [0x65, 0x89]]"

lemma ex_nals_clean: "\<forall>n\<in>set ex_nals. clean_nal n"
  by (auto simp: ex_nals_def clean_nal_def code3_def)

theorem rtctest_reads_file_witness:
  "\<exists>gs. readAnnexB (Some (annexb ex_nals)) 25 = Inr (group_packets 40000000 gs) \<and> concat gs = ex_nals \<and> list_all one_slice gs"
proof -
  have "ex_nals \<noteq> []" "frame_duration 25 = 40000000" by (simp_all add: ex_nals_def frame_duration_def maxInt_def Second_def)
  then show ?thesis using rtctest_reads_file [OF ex_nals_clean, of 25] by auto
qed

text \<open>
  The parameter sets in front of a later IDR slice end up in the packet before it: a new packet begins
  with a slice, never with the units that introduce it.
\<close>

lemma parameter_sets_stay_behind:
  "map (\<lambda>p. (ep_Data p, ep_IsKeyframe p)) (assemble 1 ex_nals) =
    [(annexb [[0x67, 0x42], [0x68, 0xce], [0x65, 0x88]], True),
     (annexb [[0x41, 0x9a], [0x67, 0x42], [0x68, 0xce]], False), (annexb [[0x65, 0x89]], True)]"
  by code_simp

text \<open>
  The pump keeps the frame rate across the loops of the stream: with a frame rate of up to a thousand
  million per second and a track that takes the samples, it goes on as long as it is not interrupted;
  after \<open>n\<close> ticks it has handed out \<open>n\<close> packets, the \<open>i\<close>-th being packet \<open>i mod length\<close> with the time
  stamp \<open>i\<close> frame durations, so that the time stamps increase as long as they fit 64 bits.
\<close>

theorem pump_pts_increase:
  assumes "readAnnexB content fps = Inr packets \<or> builtinTestStream fps = Some packets \<and> packets \<noteq> []"
    and "0 < frame_duration fps" and "\<And>i. \<not> fails i" and "int n * frame_duration fps \<le> int64_max"
  shows "\<exists>s. pumpLoop fails packets fps (replicate n Tick) p = (s, RtWaiting)
    \<and> map ep_Data (rp_out s) = map (\<lambda>i. ep_Data (packets ! (i mod length packets))) [0..<n]
    \<and> map ep_PTS (rp_out s) = map (\<lambda>i. int i * frame_duration fps) [0..<n] \<and> sorted_wrt (<) (map ep_PTS (rp_out s))"
proof -
  let ?d = "frame_duration fps"
  have paced: "paced ?d packets" using assms(1) read_paced builtin_paced by blast
  then have ne: "packets \<noteq> []" by (simp add: paced_def)
  have "pump_at ?d packets 0 (rt_pump_init p)" by (simp add: pump_at_def rt_pump_init_def)
  from pump_ticks [OF paced _ this, of fails n] assms(3) obtain s where
    s: "rt_loop fails ?d packets (replicate n Tick) (rt_pump_init p) = (s, RtWaiting)" "rp_out s = map (pumped ?d packets) [0..<n]"
    by (auto simp: pump_at_def)
  have fit: "wrap64 (int i * ?d) = int i * ?d" if "i < n" for i
  proof -
    have "int i * ?d \<le> int n * ?d" using that assms(2) by (intro mult_right_mono) auto
    then have "int i * ?d \<le> int64_max" using assms(4) by (rule order.trans)
    then show ?thesis using assms(2) by (intro wrap64_id) (simp add: in_int64_def int64_min_def order.trans [of _ 0])
  qed
  have pts: "map ep_PTS (rp_out s) = map (\<lambda>i. int i * ?d) [0..<n]" by (simp add: s(2) pumped_def fit)
  moreover have "sorted_wrt (<) (map (\<lambda>i. int i * ?d) [0..<n])"
    using assms(2) by (simp add: sorted_wrt_map sorted_wrt_iff_nth_less)
  moreover have "pumpLoop fails packets fps (replicate n Tick) p = (s, RtWaiting)"
    using s(1) ne assms(2) by (simp add: pumpLoop_def)
  moreover have "map ep_Data (rp_out s) = map (\<lambda>i. ep_Data (packets ! (i mod length packets))) [0..<n]"
    by (simp add: s(2) pumped_def)
  ultimately show ?thesis by (intro exI [of _ s]) (simp only: simp_thms)
qed

definition ex_test_peer :: Peer where
  "ex_test_peer = projr (NewPeer (\<lambda>_. False) rtc_DefaultConfig)"

theorem pump_pts_increase_witness:
  "\<exists>packets s. builtinTestStream 2 = Some packets
     \<and> pumpLoop (\<lambda>_. False) packets 2 (replicate 5 Tick) ex_test_peer = (s, RtWaiting)
     \<and> map ep_PTS (rp_out s) = [0, 500000000, 1000000000, 1500000000, 2000000000]"
proof -
  obtain packets where b: "builtinTestStream 2 = Some packets" "packets \<noteq> []" by (simp add: builtinTestStream_def)
  have d: "frame_duration 2 = 500000000" by (simp add: frame_duration_def maxInt_def Second_def)
  obtain s where "pumpLoop (\<lambda>_. False) packets 2 (replicate 5 Tick) ex_test_peer = (s, RtWaiting)"
    "map ep_PTS (rp_out s) = map (\<lambda>i. int i * frame_duration 2) [0..<5]"
    using pump_pts_increase [of None 2 packets "\<lambda>_. False" 5 ex_test_peer] b d by (auto simp: int64_max_def)
  then show ?thesis using b(1) by (auto simp: d upt_conv_Cons)
qed

text \<open>
  The flag \<^verbatim>\<open>-fps\<close> is guarded where it divides, but not where it is the length of the built-in stream:
  zero makes a stream without packets, of which the pump takes the last one, after the peers have been
  connected; a negative value ends the program at once.
\<close>

theorem builtin_stream_panics:
  "fps < 0 \<Longrightarrow> rt_run env [] fps stun = ([], RtPanic, None)"
  "snd (pumpLoop fails (the (builtinTestStream 0)) 0 es p) = RtPanic"
  by (simp_all add: rt_run_def rt_load_def builtinTestStream_def pumpLoop_def)

end
