(* ===== verification/PipelineTest.thy ===== *)
theory PipelineTest
  imports V4l2Props EncoderProps
begin

text \<open>
  The capture and encode test program (\<^verbatim>\<open>playgate-host/cmd/pipelinetest/main.go\<close>): a capture source,
  a tap that saves the first frame, the ffmpeg encoder, and a writer that stores the packets in a
  file. The goroutines are modelled by what their \<^verbatim>\<open>select\<close> receives, in order.
\<close>

section \<open>The goroutines\<close>

record pipelineConfig =
  pc_device :: string
  pc_width :: int
  pc_height :: int
  pc_fps :: int
  pc_out :: string
  pc_snapshot :: string
  pc_ffmpegPath :: string
  pc_bitrate :: int

text \<open>
  The tap: \<open>tp_sent\<close> are the frames it has put on its output channel, \<open>tp_file\<close> the content of the
  snapshot file.
\<close>

record snapshotTap =
  tp_path :: string
  tp_saved :: bool
  tp_file :: "byte list option"
  tp_sent :: "VideoFrame list"
  tp_closed :: bool

definition newSnapshotTap :: "string \<Rightarrow> snapshotTap" where
  "newSnapshotTap path = \<lparr>tp_path = path, tp_saved = False, tp_file = None, tp_sent = [], tp_closed = False\<rparr>"

text \<open>
  A frame comes with two answers: whether the snapshot file can be written, and whether the output
  channel takes the frame before the context ends.
\<close>

datatype tap_input = TapCtxDone | TapInClosed | TapFrame VideoFrame bool bool

definition save_snapshot :: "VideoFrame \<Rightarrow> bool \<Rightarrow> snapshotTap \<Rightarrow> snapshotTap" where
  "save_snapshot frame writable t =
     (if \<not> tp_saved t \<and> tp_path t \<noteq> []
      then t\<lparr>tp_file := (if writable then Some (vf_Data frame) else tp_file t), tp_saved := True\<rparr>
      else t)"

definition tap_close :: "snapshotTap \<Rightarrow> snapshotTap" where
  "tap_close t = t\<lparr>tp_closed := True\<rparr>"

fun snapshotTap_run :: "tap_input list \<Rightarrow> snapshotTap \<Rightarrow> snapshotTap" where
  "snapshotTap_run [] t = t"
| "snapshotTap_run (TapCtxDone # es) t = tap_close t"
| "snapshotTap_run (TapInClosed # es) t = tap_close t"
| "snapshotTap_run (TapFrame frame writable taken # es) t =
     (let t1 = save_snapshot frame writable t in
      if taken then snapshotTap_run es (t1\<lparr>tp_sent := tp_sent t1 @ [frame]\<rparr>) else tap_close t1)"

text \<open>
  The writer. A write that fails has stored some number of bytes. The result is the file, the two
  counters it reports, and its error, if it has returned.
\<close>

datatype sink_input = SinkCtxDone | SinkClosed | SinkPacket EncodedPacket "nat option"

record sink_state =
  sk_file :: "byte list"
  sk_count :: int
  sk_bytes :: int

datatype sink_end = SinkRunning | SinkOK | SinkFailed

fun writePackets :: "sink_input list \<Rightarrow> sink_state \<Rightarrow> sink_state \<times> sink_end" where
  "writePackets [] s = (s, SinkRunning)"
| "writePackets (SinkCtxDone # es) s = (s, SinkOK)"
| "writePackets (SinkClosed # es) s = (s, SinkOK)"
| "writePackets (SinkPacket pkt (Some n) # es) s = (s\<lparr>sk_file := sk_file s @ take n (ep_Data pkt)\<rparr>, SinkFailed)"
| "writePackets (SinkPacket pkt None # es) s =
     writePackets es (s\<lparr>sk_file := sk_file s @ ep_Data pkt, sk_count := wrap64 (sk_count s + 1),
       sk_bytes := wrap64 (sk_bytes s + int (length (ep_Data pkt)))\<rparr>)"

definition sink_init :: sink_state where
  "sink_init = \<lparr>sk_file = [], sk_count = 0, sk_bytes = 0\<rparr>"

text \<open>\<^verbatim>\<open>logErrors\<close>: the errors it logs; a nil error on the channel is skipped.\<close>

datatype 'a errs_input = ErrsCtxDone | ErrsClosed | ErrsItem "'a option"

fun logErrors :: "'a errs_input list \<Rightarrow> 'a list" where
  "logErrors [] = []"
| "logErrors (ErrsCtxDone # es) = []"
| "logErrors (ErrsClosed # es) = []"
| "logErrors (ErrsItem None # es) = logErrors es"
| "logErrors (ErrsItem (Some e) # es) = e # logErrors es"

section \<open>Putting them together\<close>

datatype pt_error = CreateCapture capture_config_error | StartCapture v4l2_error | CreateEncoder enc_error
  | CreateOutput | ModuleError string

record test_pipeline =
  pt_source :: V4l2Source
  pt_tap :: snapshotTap
  pt_encoder :: Encoder

definition pt_capture_config :: "pipelineConfig \<Rightarrow> V4l2Config" where
  "pt_capture_config cfg = \<lparr>cc_Device = pc_device cfg, cc_Width = pc_width cfg, cc_Height = pc_height cfg,
     cc_FPS = pc_fps cfg, cc_PreferredFormats = []\<rparr>"

definition pt_options :: "pipelineConfig \<Rightarrow> Options" where
  "pt_options cfg = (DefaultOptions (pc_width cfg) (pc_height cfg) (pc_fps cfg) PixelFormatYUYV)
     \<lparr>o_FFmpegPath := pc_ffmpegPath cfg, o_Bitrate := pc_bitrate cfg\<rparr>"

definition pt_setup :: "hardware \<Rightarrow> bool \<Rightarrow> pipelineConfig \<Rightarrow> kernel \<Rightarrow> kernel \<times> (pt_error + test_pipeline)" where
  "pt_setup hw createFails cfg k =
     (case v4l2_New (pt_capture_config cfg) of
        Inl e \<Rightarrow> (k, Inl (CreateCapture e))
      | Inr src0 \<Rightarrow>
          (case v4l2_Start hw src0 k of
             (k1, Inl e) \<Rightarrow> (k1, Inl (StartCapture e))
           | (k1, Inr src) \<Rightarrow>
               (case Encoder_New (pt_options cfg) of
                  Inl e \<Rightarrow> (k1, Inl (CreateEncoder e))
                | Inr enc \<Rightarrow>
                    if createFails then (k1, Inl CreateOutput)
                    else (k1, Inr \<lparr>pt_source = src, pt_tap = newSnapshotTap (pc_snapshot cfg), pt_encoder = enc\<rparr>))))"

text \<open>
  \<^verbatim>\<open>run\<close> after its set-up: what the goroutines of the group return, in that order, and whether the
  context had ended. The group reports the first error.
\<close>

definition pt_wait :: "string option list \<Rightarrow> bool \<Rightarrow> pt_error option" where
  "pt_wait returns ctxErr =
     (case find (\<lambda>r. r \<noteq> None) returns of
        Some (Some e) \<Rightarrow> if ctxErr then None else Some (ModuleError e)
      | _ \<Rightarrow> None)"

definition pt_run :: "hardware \<Rightarrow> bool \<Rightarrow> pipelineConfig \<Rightarrow> string option list \<Rightarrow> bool \<Rightarrow> kernel \<Rightarrow> kernel \<times> pt_error option" where
  "pt_run hw createFails cfg returns ctxErr k =
     (case pt_setup hw createFails cfg k of
        (k1, Inl e) \<Rightarrow> (k1, Some e)
      | (k1, Inr p) \<Rightarrow> (k1, pt_wait returns ctxErr))"

section \<open>The tap and the writer\<close>

definition received_frames :: "tap_input list \<Rightarrow> VideoFrame list" where
  "received_frames es = concat (map (\<lambda>e. case e of TapFrame f w t \<Rightarrow> [f] | _ \<Rightarrow> []) es)"

lemma tap_sent: "\<exists>rest. tp_sent t @ received_frames es = tp_sent (snapshotTap_run es t) @ rest"
proof (induction es t rule: snapshotTap_run.induct)
  case (4 frame writable taken es t)
  then show ?case by (cases taken) (auto simp: save_snapshot_def tap_close_def Let_def received_frames_def)
qed (auto simp: tap_close_def received_frames_def)

lemma tap_unset: "tp_path t = [] \<or> tp_saved t \<Longrightarrow> tp_file (snapshotTap_run es t) = tp_file t"
  by (induction es t rule: snapshotTap_run.induct) (auto simp: save_snapshot_def tap_close_def Let_def)

lemma tap_file:
  "\<not> tp_saved t \<Longrightarrow> tp_file t = None \<Longrightarrow> tp_file (snapshotTap_run es t) = Some dat \<Longrightarrow>
   \<exists>f w r rest. es = TapFrame f w r # rest \<and> w \<and> dat = vf_Data f \<and> tp_path t \<noteq> []"
proof (cases es)
  case (Cons e rest)
  assume a: "\<not> tp_saved t" "tp_file t = None" "tp_file (snapshotTap_run es t) = Some dat"
  show ?thesis
  proof (cases e)
    case (TapFrame f w r)
    show ?thesis
    proof (cases "tp_path t = []")
      case True
      then show ?thesis using a tap_unset [of t es] by simp
    next
      case False
      let ?t = "save_snapshot f w t"
      have s: "tp_saved ?t" "tp_file ?t = (if w then Some (vf_Data f) else None)" using False a by (simp_all add: save_snapshot_def)
      have "tp_file (snapshotTap_run es t) = tp_file ?t"
        using tap_unset [of "?t\<lparr>tp_sent := tp_sent ?t @ [f]\<rparr>" rest] s(1) Cons TapFrame by (simp add: tap_close_def Let_def)
      then show ?thesis using a(3) s(2) Cons TapFrame False by (auto split: if_splits)
    qed
  qed (use a Cons in \<open>simp_all add: tap_close_def\<close>)
qed simp

text \<open>
  The tap hands on the frames it receives, in order, up to the one it holds when the context ends, and
  the snapshot is the first of them.
\<close>

theorem snapshot_tap_faithful:
  "prefix (tp_sent (snapshotTap_run es (newSnapshotTap path))) (received_frames es)"
  "tp_file (snapshotTap_run es (newSnapshotTap path)) = Some dat \<Longrightarrow>
     path \<noteq> [] \<and> (\<exists>f r rest. es = TapFrame f True r # rest \<and> dat = vf_Data f)"
  using tap_sent [of "newSnapshotTap path" es] tap_file [of "newSnapshotTap path" es dat]
  by (auto simp: newSnapshotTap_def intro: prefixI)

text \<open>
  The file holds the packets received before the end, in order, and of a packet that could not be
  written the part that was; the counters are those of the complete ones.
\<close>

lemma writePackets_file:
  "\<exists>ps part. prefix ps [p. SinkPacket p None \<leftarrow> es] \<and> (part \<noteq> [] \<longrightarrow> snd (writePackets es s) = SinkFailed)
     \<and> sk_file (fst (writePackets es s)) = sk_file s @ concat (map ep_Data ps) @ part
     \<and> wrap64 (sk_count (fst (writePackets es s))) = wrap64 (sk_count s + int (length ps))
     \<and> wrap64 (sk_bytes (fst (writePackets es s))) = wrap64 (sk_bytes s + int (length (concat (map ep_Data ps))))"
proof (induction es s rule: writePackets.induct)
  case (4 pkt n es s)
  show ?case by (rule exI [of _ "[]"], rule exI [of _ "take n (ep_Data pkt)"]) simp
next
  case (5 pkt es s)
  then obtain ps part where p: "prefix ps [p. SinkPacket p None \<leftarrow> es]"
    "part \<noteq> [] \<longrightarrow> snd (writePackets (SinkPacket pkt None # es) s) = SinkFailed"
    "sk_file (fst (writePackets (SinkPacket pkt None # es) s)) = (sk_file s @ ep_Data pkt) @ concat (map ep_Data ps) @ part"
    "wrap64 (sk_count (fst (writePackets (SinkPacket pkt None # es) s))) = wrap64 (wrap64 (sk_count s + 1) + int (length ps))"
    "wrap64 (sk_bytes (fst (writePackets (SinkPacket pkt None # es) s))) =
       wrap64 (wrap64 (sk_bytes s + int (length (ep_Data pkt))) + int (length (concat (map ep_Data ps))))" by auto
  show ?case using p by (intro exI [of _ "pkt # ps"] exI [of _ part]) (simp add: wrap64_add add.assoc)
qed (rule exI [of _ "[]"], simp)+

section \<open>The format of the frames\<close>

lemma in_tl: "x \<in> set (tl xs) \<Longrightarrow> x \<in> set xs"
  by (cases xs) auto

lemma loop_format:
  assumes "\<forall>f\<in>set (ch_buf (vs_frames s)). vf_PixelFormat f = vs_pixfmt s"
  shows "\<forall>f\<in>set (ch_buf (vs_frames (fst (capture_loop dev es s)))). vf_PixelFormat f = vs_pixfmt s"
  using assms
proof (induction dev es s rule: capture_loop.induct)
  case (4 dev buf now monoNow requeue es s)
  show ?case
  proof (cases "v4l2_forward now monoNow buf dev s")
    case (Forwarded s1)
    then obtain dat t where s1: "s1 = s\<lparr>vs_frames := send_drop_oldest \<lparr>vf_Data = dat, vf_PixelFormat = vs_pixfmt s,
        vf_Width = vs_width s, vf_Height = vs_height s, vf_Timestamp = t\<rparr> (vs_frames s)\<rparr>"
      by (auto simp: v4l2_forward_def split: if_splits copied.splits)
    have q: "\<forall>f\<in>set (ch_buf (vs_frames s1)). vf_PixelFormat f = vs_pixfmt s1"
      using 4(3) by (auto simp: s1 send_drop_oldest_def try_send_buf dest: in_tl)
    moreover have "vs_pixfmt s1 = vs_pixfmt s" by (simp add: s1)
    ultimately show ?thesis using 4 Forwarded by (auto simp: v4l2_emitError_def split: option.splits)
  qed (use 4 in \<open>auto simp: v4l2_emitError_def split: option.splits\<close>)
qed (auto simp: v4l2_emitError_def)

lemma start_negotiates:
  assumes "v4l2_Start hw s k = (k', Inr s')" and "QueryDevice (cc_Device (vs_cfg s)) hw k = (k1, Inr info)"
  shows "\<exists>f. NegotiateFormat (preferred (vs_cfg s)) (AvailableFourCCSet info) = Some (vs_pixfmt s', f)
    \<and> vs_frames s' = vs_frames s"
  using assms by (auto simp: v4l2_Start_def split: option.splits prod.splits sum.splits)

lemma setup_source:
  assumes "pt_setup hw createFails cfg k = (k', Inr p)" and "QueryDevice (pc_device cfg) hw k = (k1, Inr info)"
  shows "\<exists>f. NegotiateFormat DefaultPreferredFormats (AvailableFourCCSet info) = Some (vs_pixfmt (pt_source p), f)
    \<and> ch_buf (vs_frames (pt_source p)) = []"
    "enc_opts (pt_encoder p) = Options_normalise (pt_options cfg)"
proof -
  obtain src0 where n: "v4l2_New (pt_capture_config cfg) = Inr src0" and st: "v4l2_Start hw src0 k = (k', Inr (pt_source p))"
    and e: "Encoder_New (pt_options cfg) = Inr (pt_encoder p)"
    using assms(1) by (auto simp: pt_setup_def split: sum.splits prod.splits if_splits)
  have "vs_cfg src0 = pt_capture_config cfg" "ch_buf (vs_frames src0) = []"
    using n by (auto simp: v4l2_New_def split: option.splits)
  then show "\<exists>f. NegotiateFormat DefaultPreferredFormats (AvailableFourCCSet info) = Some (vs_pixfmt (pt_source p), f)
    \<and> ch_buf (vs_frames (pt_source p)) = []"
    using start_negotiates [OF st, of k1 info] assms(2) by (auto simp: pt_capture_config_def preferred_def)
  show "enc_opts (pt_encoder p) = Options_normalise (pt_options cfg)"
    using e by (auto simp: Encoder_New_def Let_def split: option.splits dest!: sym [of _ "pt_encoder p"])
qed

lemma no_yuyv: "\<not> available FourCCYUYV \<Longrightarrow> NegotiateFormat DefaultPreferredFormats available = Some (pf, f) \<Longrightarrow> pf = PixelFormatMJPEG"
  by (auto simp: NegotiateFormat_def DefaultPreferredFormats_def split: if_splits)

lemma writeFrames_none:
  "list_all (\<lambda>f. \<not> frame_fits opt f) [f. FrameIn f \<leftarrow> es] \<Longrightarrow> ch_buf q = [] \<Longrightarrow> snd (writeFrames opt es (q, stdin)) = stdin"
  by (induction es arbitrary: q) (auto split: writer_event.splits elim: writer_event.exhaust)

text \<open>
  The encoder of the test program is told YUYV whatever the device was asked for. A device that
  offers only MJPEG is set up without an error, and then every frame is discarded by the encoder's
  format check: however the frames are captured, tapped and queued, ffmpeg is given no byte.
\<close>

theorem mjpeg_device_encodes_nothing:
  assumes "pt_setup hw createFails cfg k = (k', Inr p)"
    and "QueryDevice (pc_device cfg) hw k = (k1, Inr info)" and "\<not> AvailableFourCCSet info FourCCYUYV"
    and "\<And>f. f \<in> set (received_frames tes) \<Longrightarrow> \<exists>es. f \<in> set (ch_buf (vs_frames (fst (capture_loop dev es (pt_source p)))))"
    and "[f. FrameIn f \<leftarrow> wes] = tp_sent (snapshotTap_run tes (pt_tap p))"
  shows "snd (writeFrames (enc_opts (pt_encoder p)) wes (make_chan frameQueueSize, [])) = []"
proof -
  obtain f where f: "NegotiateFormat DefaultPreferredFormats (AvailableFourCCSet info) = Some (vs_pixfmt (pt_source p), f)"
    and q: "ch_buf (vs_frames (pt_source p)) = []" using setup_source(1) [OF assms(1,2)] by blast
  have mjpeg: "vs_pixfmt (pt_source p) = PixelFormatMJPEG" using no_yuyv [OF assms(3) f] .
  have opt: "o_InputFormat (enc_opts (pt_encoder p)) = PixelFormatYUYV"
    using setup_source(2) [OF assms(1,2)] by (simp add: Options_normalise_def pt_options_def DefaultOptions_def)
  have "pt_tap p = newSnapshotTap (pc_snapshot cfg)"
    using assms(1) by (auto simp: pt_setup_def split: sum.splits prod.splits if_splits)
  then have "prefix (tp_sent (snapshotTap_run tes (pt_tap p))) (received_frames tes)"
    using tap_sent [of "pt_tap p" tes] by (auto simp: newSnapshotTap_def intro: prefixI)
  then have "set [f. FrameIn f \<leftarrow> wes] \<subseteq> set (received_frames tes)" unfolding assms(5) by (rule set_mono_prefix)
  moreover have "vf_PixelFormat f = PixelFormatMJPEG" if "f \<in> set (received_frames tes)" for f
    using assms(4) [OF that] loop_format [of "pt_source p" dev] q mjpeg by auto
  ultimately have fmt: "\<forall>f\<in>set [f. FrameIn f \<leftarrow> wes]. vf_PixelFormat f = PixelFormatMJPEG" by blast
  have "list_all (\<lambda>f. \<not> frame_fits (enc_opts (pt_encoder p)) f) [f. FrameIn f \<leftarrow> wes]"
    unfolding list_all_iff frame_fits_def opt using fmt by simp
  then show ?thesis by (rule writeFrames_none) simp
qed

end
