(* ===== verification/Mains.thy ===== *)
theory Mains
  imports Flags Host RtcTest PipelineTest
begin

text \<open>
  The remaining \<^verbatim>\<open>main\<close> functions: the host (\<^verbatim>\<open>playgate-host/cmd/host/main.go\<close> with \<^verbatim>\<open>host.New\<close>), the
  WebRTC test program and the pipeline test program. Each reads its flags, runs, and ends with a status;
  the level of the log is all that \<^verbatim>\<open>-debug\<close> changes.
\<close>

section \<open>The host\<close>

record host_process =
  hp_cfg :: HostConfig
  hp_deps :: Deps
  hp_metrics :: Collector
  hp_session :: "Manager option"

definition NewWithDeps :: "HostConfig \<Rightarrow> Deps \<Rightarrow> Collector option \<Rightarrow> host_process" where
  "NewWithDeps cfg deps mc =
     \<lparr>hp_cfg = cfg, hp_deps = deps, hp_metrics = (case mc of None \<Rightarrow> NewCollector | Some c \<Rightarrow> c), hp_session = dp_Session deps\<rparr>"

definition host_New :: "(string \<Rightarrow> string option) \<Rightarrow> string list option \<Rightarrow> HostConfig \<Rightarrow> deps_error + host_process" where
  "host_New readFile probe cfg =
     (let mc = NewCollector in
      case buildDeps readFile probe cfg mc of
        Inl e \<Rightarrow> Inl e
      | Inr deps \<Rightarrow> Inr (NewWithDeps cfg deps (Some mc)))"

record host_flags =
  hf_config :: string
  hf_debug :: bool

definition host_flag_list :: "(string \<times> host_flags flag_value) list" where
  "host_flag_list = [(''config'', StringFlag (\<lambda>v c. c\<lparr>hf_config := v\<rparr>)), (''debug'', BoolFlag (\<lambda>v c. c\<lparr>hf_debug := v\<rparr>))]"

text \<open>
  \<open>runs\<close> is what becomes of a host once it runs: whether its capture fails to start, what its modules
  return, and whether the signal came. The result is the exit status.
\<close>

definition host_main :: "(string \<Rightarrow> string option) \<Rightarrow> (string \<Rightarrow> HostConfig \<Rightarrow> HostConfig option) \<Rightarrow> string list option
    \<Rightarrow> (host_process \<Rightarrow> bool \<times> host_error option list \<times> bool) \<Rightarrow> string list \<Rightarrow> int" where
  "host_main readFile yaml probe runs args =
     (case flag_Parse (\<lambda>_. None) host_flag_list args \<lparr>hf_config = ''config.yaml'', hf_debug = False\<rparr> of
        Inl e \<Rightarrow> flag_exit e
      | Inr f \<Rightarrow>
          (case config_Load (readFile (hf_config f)) yaml of
             Inl e \<Rightarrow> 1
           | Inr cfg \<Rightarrow>
               (case host_New readFile probe cfg of
                  Inl e \<Rightarrow> 1
                | Inr h \<Rightarrow>
                    (case runs h of
                       (startFails, results, ctxEnded) \<Rightarrow>
                         if Host_Run startFails results ctxEnded = None then 0 else 1))))"

section \<open>The WebRTC test program\<close>

record rt_flags =
  rtf_h264 :: string
  rtf_fps :: int
  rtf_stun :: string
  rtf_debug :: bool

definition rt_flag_list :: "(string \<times> rt_flags flag_value) list" where
  "rt_flag_list =
     [(''h264'', StringFlag (\<lambda>v c. c\<lparr>rtf_h264 := v\<rparr>)), (''fps'', IntFlag (\<lambda>v c. c\<lparr>rtf_fps := v\<rparr>)),
      (''stun'', StringFlag (\<lambda>v c. c\<lparr>rtf_stun := v\<rparr>)), (''debug'', BoolFlag (\<lambda>v c. c\<lparr>rtf_debug := v\<rparr>))]"

definition rt_defaults :: rt_flags where
  "rt_defaults = \<lparr>rtf_h264 = [], rtf_fps = 30, rtf_stun = ''stun:stun.l.google.com:19302'', rtf_debug = False\<rparr>"

text \<open>The exit status, once there is one: a panic ends a Go program with status 2.\<close>

definition rt_main :: "'a rt_env \<Rightarrow> string list \<Rightarrow> int option" where
  "rt_main env args =
     (case flag_Parse (\<lambda>_. None) rt_flag_list args rt_defaults of
        Inl e \<Rightarrow> Some (flag_exit e)
      | Inr f \<Rightarrow>
          (case rt_run env (rtf_h264 f) (rtf_fps f) (rtf_stun f) of
             (printed, RtDone, s) \<Rightarrow> Some 0
           | (printed, RtErr e, s) \<Rightarrow> Some 1
           | (printed, RtPanic, s) \<Rightarrow> Some 2
           | (printed, RtWaiting, s) \<Rightarrow> None))"

section \<open>The pipeline test program\<close>

record pt_flags =
  ptf_config :: pipelineConfig
  ptf_seconds :: int
  ptf_debug :: bool

definition pt_flag_list :: "(string \<times> pt_flags flag_value) list" where
  "pt_flag_list =
     [(''device'', StringFlag (\<lambda>v c. c\<lparr>ptf_config := (ptf_config c)\<lparr>pc_device := v\<rparr>\<rparr>)),
      (''w'', IntFlag (\<lambda>v c. c\<lparr>ptf_config := (ptf_config c)\<lparr>pc_width := v\<rparr>\<rparr>)),
      (''h'', IntFlag (\<lambda>v c. c\<lparr>ptf_config := (ptf_config c)\<lparr>pc_height := v\<rparr>\<rparr>)),
      (''fps'', IntFlag (\<lambda>v c. c\<lparr>ptf_config := (ptf_config c)\<lparr>pc_fps := v\<rparr>\<rparr>)),
      (''seconds'', IntFlag (\<lambda>v c. c\<lparr>ptf_seconds := v\<rparr>)),
      (''out'', StringFlag (\<lambda>v c. c\<lparr>ptf_config := (ptf_config c)\<lparr>pc_out := v\<rparr>\<rparr>)),
      (''snapshot'', StringFlag (\<lambda>v c. c\<lparr>ptf_config := (ptf_config c)\<lparr>pc_snapshot := v\<rparr>\<rparr>)),
      (''ffmpeg'', StringFlag (\<lambda>v c. c\<lparr>ptf_config := (ptf_config c)\<lparr>pc_ffmpegPath := v\<rparr>\<rparr>)),
      (''bitrate'', IntFlag (\<lambda>v c. c\<lparr>ptf_config := (ptf_config c)\<lparr>pc_bitrate := v\<rparr>\<rparr>)),
      (''debug'', BoolFlag (\<lambda>v c. c\<lparr>ptf_debug := v\<rparr>))]"

definition pt_defaults :: pt_flags where
  "pt_defaults =
     \<lparr>ptf_config = \<lparr>pc_device = ''/dev/video0'', pc_width = 1280, pc_height = 720, pc_fps = 30, pc_out = ''capture.h264'',
        pc_snapshot = [], pc_ffmpegPath = ''ffmpeg'', pc_bitrate = 6000000\<rparr>, ptf_seconds = 5, ptf_debug = False\<rparr>"

text \<open>The time after which the context ends; none without a positive number of seconds.\<close>

definition pt_timeout :: "pt_flags \<Rightarrow> duration option" where
  "pt_timeout f = (if ptf_seconds f > 0 then Some (seconds (ptf_seconds f)) else None)"

text \<open>
  \<open>ends\<close> is what the goroutines return, and whether the context had ended, for a time limit; the
  result is the exit status.
\<close>

definition pt_main :: "hardware \<Rightarrow> bool \<Rightarrow> (duration option \<Rightarrow> string option list \<times> bool) \<Rightarrow> string list \<Rightarrow> kernel \<Rightarrow> kernel \<times> int" where
  "pt_main hw createFails ends args k =
     (case flag_Parse (\<lambda>_. None) pt_flag_list args pt_defaults of
        Inl e \<Rightarrow> (k, flag_exit e)
      | Inr f \<Rightarrow>
          (let (returns, ctxErr) = ends (pt_timeout f) in
           case pt_run hw createFails (ptf_config f) returns ctxErr k of
             (k1, None) \<Rightarrow> (k1, 0)
           | (k1, Some e) \<Rightarrow> (k1, 1)))"

section \<open>What the programs do with their flags\<close>

text \<open>
  Behind flags that are accepted, the host ends with status 0 only after a run of a configuration that
  loads, is valid and builds.
\<close>

lemma host_main_success:
  assumes "host_main readFile yaml probe runs args = 0"
    and "flag_Parse (\<lambda>_. None) host_flag_list args \<lparr>hf_config = ''config.yaml'', hf_debug = False\<rparr> = Inr f"
  shows "\<exists>cfg h. config_Load (readFile (hf_config f)) yaml = Inr cfg \<and> config_Validate cfg = None \<and> host_New readFile probe cfg = Inr h
    \<and> Host_Run (fst (runs h)) (fst (snd (runs h))) (snd (snd (runs h))) = None"
  using assms by (auto simp: host_main_def Load_valid split: sum.splits prod.splits if_splits)

text \<open>
  A frame rate of zero or below is accepted by the flags of the WebRTC test program. Without a file
  it ends in a panic: at once for a negative rate, after the handshake for zero.
\<close>

lemma rtctest_negative_fps_panics:
  assumes "i < 0" "in_int64 i"
  shows "rt_main env [flag_arg (''fps'', Itoa i)] = Some 2"
proof -
  have n: "flag_name ''fps''" by (simp add: flag_name_def)
  have "flag_Parse (\<lambda>_. None) rt_flag_list [flag_arg (''fps'', Itoa i)] rt_defaults = Inr (rt_defaults\<lparr>rtf_fps := i\<rparr>)"
    by (subst flag_Parse_arg [OF n]) (simp add: rt_flag_list_def flag_Set_def ParseInt0_Itoa assms(2))
  then show ?thesis
    using assms(1) by (simp add: rt_main_def rt_run_def rt_load_def builtinTestStream_def rt_defaults_def)
qed

text \<open>
  A time limit that does not fit a duration wraps around: above about 292 years the pipeline test
  program may stop at once.
\<close>

lemma pipelinetest_timeout_wraps: "pt_timeout (pt_defaults\<lparr>ptf_seconds := 9223372037\<rparr>) = Some (- 9223372036709551616)"
  by (simp add: pt_timeout_def pt_defaults_def seconds_def wrap64_def Second_def)

text \<open>The heights of the pipeline test program: \<^verbatim>\<open>-h\<close> is no request for help.\<close>

lemma pipelinetest_height:
  assumes "in_int64 i"
  shows "flag_Parse pd pt_flag_list [''-h'', Itoa i] c = Inr (c\<lparr>ptf_config := (ptf_config c)\<lparr>pc_height := i\<rparr>\<rparr>)"
  by (simp add: pt_flag_list_def split_flag_def flag_Set_def ParseInt0_Itoa assms)

end
