(* ===== verification/V4l2Other.thy ===== *)
theory V4l2Other
  imports V4l2
begin

text \<open>
  The capture source of systems without V4L2 (\<^verbatim>\<open>internal/capture/v4l2/source_other.go\<close>): it checks its
  configuration like the real one and then refuses to start. Also the text of a failed negotiation
  (\<^verbatim>\<open>format.go\<close>).
\<close>

section \<open>The placeholder\<close>

datatype unsupported = ErrUnsupported

record otherSource =
  os_cfg :: V4l2Config
  os_frames :: "VideoFrame chan"
  os_errs :: "v4l2_error chan"

definition other_New :: "V4l2Config \<Rightarrow> capture_config_error + otherSource" where
  "other_New cfg =
     (case capture_Validate cfg of
        Some e \<Rightarrow> Inl e
      | None \<Rightarrow> Inr \<lparr>os_cfg = cfg, os_frames = make_chan FrameBufferSize, os_errs = make_chan 1\<rparr>)"

definition other_Start :: "otherSource \<Rightarrow> unsupported option" where
  "other_Start s = Some ErrUnsupported"

definition other_Run :: "otherSource \<Rightarrow> otherSource \<times> unsupported option" where
  "other_Run s = (s\<lparr>os_frames := close_chan (os_frames s), os_errs := close_chan (os_errs s)\<rparr>, Some ErrUnsupported)"

definition other_ListDevices :: "unsupported + DeviceInfo list" where
  "other_ListDevices = Inl ErrUnsupported"

definition other_QueryDevice :: "string \<Rightarrow> unsupported + DeviceInfo" where
  "other_QueryDevice path = Inl ErrUnsupported"

text \<open>The two sources accept the same configurations, and the placeholder closes its channels cleanly once.\<close>

lemma other_same_configs: "(\<exists>s. other_New cfg = Inr s) \<longleftrightarrow> (\<exists>s. v4l2_New cfg = Inr s)"
  by (auto simp: other_New_def v4l2_New_def split: option.split)

lemma other_Run_closes:
  assumes "other_New cfg = Inr s"
  shows "other_Start s \<noteq> None" "chan_ok (os_frames (fst (other_Run s)))" "chan_ok (os_errs (fst (other_Run s)))"
    "ch_closed (os_frames (fst (other_Run s)))" "ch_panic (os_frames (fst (other_Run (fst (other_Run s)))))"
  using assms by (auto simp: other_New_def other_Start_def other_Run_def chan_ok_def split: option.splits)

section \<open>The message of a failed negotiation\<close>

text \<open>The formats come in the order in which the map is walked, each with whether it is available.\<close>

definition formatAvailable :: "(32 word \<times> bool) list \<Rightarrow> string" where
  "formatAvailable available =
     (if available = [] then ''none''
      else join '','' (map (\<lambda>(fourcc, ok). FourCCString fourcc) (filter snd available)))"

end
