(* ===== verification/Spec2Isabelle.thy ===== *)
theory Spec2Isabelle
  imports Core SessionProps ServerProps PeerProps EncoderProps Abr Metrics NxbtProps Opus V4l2Props Synthetic
    SinkProps RouterProps ConnectProps WorkerProps HostProps HeartbeatProps SunshineProps
    EndToEnd SignalWs ServerMain SunshineCmd Mains V4l2Other
begin

text \<open>
  Verification of PlayGate: a streamer's host process captures video, encodes it, sends it to the browsers
  of viewers over WebRTC, and passes the input of the one viewer in control to a game console; a server
  issues codes that viewers redeem for signed session tokens; a signaling Worker carries the messages
  that set up the connections.

  \<^bold>\<open>How the parts interact.\<close> Video flows from a capture source through the latency tap, the encoder
  and its wrapper to the video router, which hands each packet to the peer of every viewer. Input flows
  the other way: from the data channel of a peer to the input sink, where the session manager decides
  whether the viewer is in control, and on to the input target. A viewer gets control by a token that the
  server signed and the manager checks. The connection manager reads the feed of the Worker's room, runs
  a goroutine with a peer for each viewer, and registers the peer with the routers and the sink. The
  heartbeat reports the viewer in control to the server and carries a kick from there to the manager.

  \<^bold>\<open>How code becomes definitions.\<close> A struct is a record and a method a function on it; a definition has
  the name of what it models, with a prefix where that name is taken. Goroutines that share state are a
  state record with a program counter for each goroutine and a step function with one action for each
  piece of code between two points where another goroutine can intervene (a lock, a channel operation,
  a call that waits); a property of such a component holds for every sequence of steps. A channel is
  \<^verbatim>\<open>Prelude.chan\<close>, with a flag that a send on a closed channel or a second close raises. Errors are a
  sum or an option. \<^verbatim>\<open>int\<close> and \<^verbatim>\<open>time.Duration\<close> are integers, with the wrap to 64 bits written out
  where the code can reach it; the widths of the wire formats are words; floating point is the rational
  numbers with rounding to the format (\<^verbatim>\<open>Floats\<close>). Packages that are not in the repository (Pion, the
  HTTP transport, the kernel, ffmpeg, the WebSocket package, signatures) are parameters: their answers
  are arguments of the definitions.

  \<^bold>\<open>Theories.\<close>

  Shared: \<^verbatim>\<open>Prelude\<close> (times, strings, channels and the send that drops the oldest value, a locale with
  five users), \<^verbatim>\<open>Strconv\<close>, \<^verbatim>\<open>Floats\<close>, \<^verbatim>\<open>Base64\<close>, \<^verbatim>\<open>Json\<close> (printer, parser, filling of structs, and that
  the parser reverses the printer), \<^verbatim>\<open>Http\<close>, \<^verbatim>\<open>Url\<close> (query strings, and that reading reverses writing),
  \<^verbatim>\<open>Flags\<close> (command lines as package \<^verbatim>\<open>flag\<close> reads them).

  \<^verbatim>\<open>internal/core\<close>: \<^verbatim>\<open>Core\<close> (frames, packets, commands).

  \<^verbatim>\<open>playgate-server\<close>: \<^verbatim>\<open>Jwt\<close> (\<^verbatim>\<open>auth/jwt.go\<close> and the host's \<^verbatim>\<open>session/jwt.go\<close>: issuing and checking, and that
  one accepts what the other issues), \<^verbatim>\<open>ServerDb\<close> (\<^verbatim>\<open>db/\<close>, \<^verbatim>\<open>queue/\<close>: tables as lists of rows with the keys of
  the schema, statements that may fail; a locale for the codes that can be used once), \<^verbatim>\<open>Server\<close>
  (\<^verbatim>\<open>api/\<close>: all handlers and the routing), \<^verbatim>\<open>ServerProps\<close> (codes, isolation of hosts, kicks, races),
  \<^verbatim>\<open>KeyFile\<close> (the signing key on disk, in PEM), \<^verbatim>\<open>ServerMain\<close> (\<^verbatim>\<open>main.go\<close>, \<^verbatim>\<open>db.Open\<close>: the process, and that
  it keeps its identity over restarts).

  \<^verbatim>\<open>internal/session\<close>: \<^verbatim>\<open>Session\<close> (the manager and its goroutines), \<^verbatim>\<open>SessionInv\<close> (its invariants),
  \<^verbatim>\<open>SessionProps\<close> (only the viewer in control gets through; refinement of a FIFO line; hand-over).

  \<^verbatim>\<open>internal/host\<close>: \<^verbatim>\<open>Sink\<close> and \<^verbatim>\<open>SinkProps\<close> (\<^verbatim>\<open>sink.go\<close>, composed with the manager), \<^verbatim>\<open>Router\<close> and
  \<^verbatim>\<open>RouterProps\<close> (\<^verbatim>\<open>router.go\<close>; the locale \<^verbatim>\<open>fanout\<close> is proved once and used for video and audio),
  \<^verbatim>\<open>Connect\<close>, \<^verbatim>\<open>ConnectInv\<close> and \<^verbatim>\<open>ConnectProps\<close> (\<^verbatim>\<open>connect.go\<close>), \<^verbatim>\<open>Host\<close> and \<^verbatim>\<open>HostProps\<close> (\<^verbatim>\<open>deps.go\<close>,
  \<^verbatim>\<open>host.go\<close>), \<^verbatim>\<open>Abr\<close> (\<^verbatim>\<open>abr.go\<close> and \<^verbatim>\<open>internal/abr\<close>).

  \<^verbatim>\<open>internal/signaling\<close> and the Worker: \<^verbatim>\<open>Signaling\<close> (client), \<^verbatim>\<open>SignalWs\<close> (its WebSocket), \<^verbatim>\<open>RoomState\<close> (the room of the Worker,
  \<^verbatim>\<open>roomState.ts\<close> and \<^verbatim>\<open>roomDO.ts\<close>), \<^verbatim>\<open>WorkerProps\<close> (the host's two feeds over that room).

  \<^verbatim>\<open>internal/heartbeat\<close>: \<^verbatim>\<open>Heartbeat\<close> (the loop; the locale \<^verbatim>\<open>viewer_line\<close> is what it needs of the session
  manager) and \<^verbatim>\<open>HeartbeatProps\<close> (the loop against the server's handler, end to end).

  \<^verbatim>\<open>internal/sunshine\<close> and \<^verbatim>\<open>cmd/sunshine-agent\<close>: \<^verbatim>\<open>Sunshine\<close> and \<^verbatim>\<open>SunshineProps\<close> (the locale
  \<^verbatim>\<open>kick_controller\<close> is what the agent needs of its client), \<^verbatim>\<open>SunshineCmd\<close> (the command: flags, start, and
  the process with the manager, the agent, the standard input and the signal taking turns).

  \<^verbatim>\<open>internal/rtc\<close>: \<^verbatim>\<open>InputCodec\<close>, \<^verbatim>\<open>Peer\<close>, \<^verbatim>\<open>PeerProps\<close>. \<^verbatim>\<open>internal/encoder/ffmpeg\<close>: \<^verbatim>\<open>AnnexB\<close>, \<^verbatim>\<open>AnnexBProps\<close>,
  \<^verbatim>\<open>Encoder\<close>, \<^verbatim>\<open>EncoderProps\<close>. \<^verbatim>\<open>internal/capture\<close>: \<^verbatim>\<open>V4l2Abi\<close>, \<^verbatim>\<open>V4l2\<close>, \<^verbatim>\<open>V4l2Props\<close>,
  \<^verbatim>\<open>V4l2Other\<close>, \<^verbatim>\<open>Synthetic\<close>.
  \<^verbatim>\<open>internal/audio/opus\<close>: \<^verbatim>\<open>Opus\<close>. \<^verbatim>\<open>internal/input\<close>: \<^verbatim>\<open>Nxbt\<close>, \<^verbatim>\<open>NxbtProps\<close>. \<^verbatim>\<open>internal/config\<close>:
  \<^verbatim>\<open>Configuration\<close>. \<^verbatim>\<open>internal/metrics\<close>: \<^verbatim>\<open>Metrics\<close>. \<^verbatim>\<open>cmd/rtctest\<close>: \<^verbatim>\<open>RtcTest\<close>. \<^verbatim>\<open>cmd/pipelinetest\<close>:
  \<^verbatim>\<open>PipelineTest\<close>. \<^verbatim>\<open>Mains\<close>: the flags and exit statuses of these two and of \<^verbatim>\<open>cmd/host\<close>.

  Across components: \<^verbatim>\<open>EndToEnd\<close> (from a code redeemed at the server to control on the host; from the
  bytes ffmpeg writes to the samples of a viewer; a token after its session).

  \<^bold>\<open>What is shown.\<close> Control: only commands of the viewer in control reach the target, in every
  interleaving of connections and the manager; the line of viewers is a FIFO queue; a finished turn
  is handed over by its own goroutines; a kick asked for on the server ends one turn, that of the viewer in
  control when the answer reaches the host. Access: a code is redeemed at most
  once when requests are served in turn, a request other than a redemption reaches the rooms and tokens of
  its own host only and a redemption at most the token it names, a token is accepted only with the
  server's signature. Media: access units keep the bytes and the order of the stream; packets keep the
  order in which they were emitted as long as the wrapper keeps up with the encoder, and inter frames
  always do (a full queue drops packets and puts a keyframe behind later ones); a viewer starts on a
  keyframe and is unaffected by the others and their failing writes; raw frames match what ffmpeg was
  told, for NV12 when the height is even; a change of the bitrate is not lost while the encoder runs.
  Connections: one session for each viewer, an answer reaches only its viewer's peer, once, and every
  viewer's goroutine comes to its end. Robustness: no channel is closed twice or sent on after its
  close, retries and waits are bounded, resources are released on every path. From end to end: a redeemed
  code gives control of its room for exactly the granted claims, a viewer sees units of ffmpeg's stream and
  nothing else, and a restarted server signs with the key it had. Where the code does not
  do what it means to, a theorem shows how: two racing redemptions, the reset that hits the next
  viewer, the answer a polling host misses, the stale answer a reconnect applies, the lost kick, the
  kick that hits the next viewer, the keyframe behind its frames, the
  wrapper that outlives its encoder, the pixel format of the synthetic source, the PIN a retry loses,
  the idle timeout of the Sunshine command, the viewer it leaves connected when it stops, the token that
  gives control again, the key file a crash cuts off, the test programs on rates and formats they do not
  check.

  \<^bold>\<open>Bounds and fuel.\<close> The JSON parser runs on fuel, the length of its input, which \<^verbatim>\<open>parse_value_print\<close>
  shows to be enough for every printed value; the reader of PEM has one round more than its input has
  bytes, and each of its rounds takes some. All other loops are total: structural over what the
  environment delivers, or with a measure (the frames of a socket). The Ogg reader is told after how
  many pages its context ends, and says so when it stops for that reason; \<^verbatim>\<open>readPages_ends\<close> shows that
  otherwise it ends by itself. Retry loops count down from the number of attempts. Liveness is stated as a bound on a component's own steps together
  with a step that is enabled as long as it has not finished.

  \<^bold>\<open>Not modelled.\<close> \<^verbatim>\<open>uapiref\<close>, a cross-check of constants that cgo takes from the kernel's headers, which are
  not in the repository; the call that dials a socket;
  the metrics endpoint; CORS headers; log set-up and log lines; the Worker's routing, authentication and
  TURN calls; the web pages, the chat bot and the controller daemon, which are other languages on
  third-party services. Parameters stand for \<^verbatim>\<open>url.Parse\<close> and \<^verbatim>\<open>URL.String\<close>, \<^verbatim>\<open>time.ParseDuration\<close>, SQLite
  and the derivation of a public key.
  Text is the bytes of valid UTF-8, and addresses need no escaping.
\<close>

end
